(* ===== verification/Prelude.thy ===== *)
theory Prelude
  imports Main "HOL-Library.Word" "HOL-Library.Monad_Syntax"
begin

text \<open>
  Shared vocabulary of the development: the machine integers of the C code, byte strings,
  little-endian byte order as a specification, and the fact collections the component
  theories fill.

  \<^item> \<open>le_bytes n v\<close> is the reference for "\<open>v\<close> in \<open>n\<close> bytes, least significant first";
    \<open>le_val\<close> reads it back. The C code writes the bytes with shifts and masks; the
    component theories show that it writes exactly \<open>le_bytes\<close>.
  \<^item> An \<open>option\<close> result \<open>None\<close> stands for a read the C program must not make (an address
    outside every object, a \<open>va_arg\<close> of the wrong kind): undefined behaviour.
\<close>

unbundle bit_operations_syntax

type_synonym u8 = "8 word"
type_synonym u16 = "16 word"
type_synonym u32 = "32 word"
type_synonym u64 = "64 word"
type_synonym bytes = "u8 list"

named_theorems wire_simps "sizes and values of the wire format"
named_theorems enc_intros "encoder steps as appends"
named_theorems stream_simps "effect of the stream operations on the call trace"

section \<open>Little-endian byte order\<close>

primrec le_bytes :: "nat \<Rightarrow> nat \<Rightarrow> bytes" where
  "le_bytes 0 v = []"
| "le_bytes (Suc n) v = word_of_nat v # le_bytes n (v div 256)"

primrec le_val :: "bytes \<Rightarrow> nat" where
  "le_val [] = 0"
| "le_val (b # bs) = unat b + 256 * le_val bs"

lemma length_le_bytes [simp]: "length (le_bytes n v) = n"
  by (induction n arbitrary: v) simp_all

lemma le_bytes_Nil: "le_bytes n v = [] \<longleftrightarrow> n = 0"
  by (cases n) simp_all

lemma unat_word_of_nat_u8: "unat (word_of_nat v :: u8) = v mod 256"
  by (simp add: unat_of_nat)

lemma le_val_le_bytes: "le_val (le_bytes n v) = v mod 256 ^ n"
proof (induction n arbitrary: v)
  case 0
  then show ?case by simp
next
  case (Suc n)
  have "le_val (le_bytes (Suc n) v) = v mod 256 + 256 * (v div 256 mod 256 ^ n)"
    by (simp add: Suc unat_word_of_nat_u8)
  also have "\<dots> = v mod (256 * 256 ^ n)"
    by (simp add: mod_mult2_eq)
  finally show ?case by simp
qed

lemma unat_less_pow: "unat (v :: 'a::len word) < 2 ^ LENGTH('a)"
  by (rule unsigned_less)

lemma unat_u8_less [simp]: "unat (v :: u8) < 256"
  using unat_less_pow [of v] by simp

lemma unat_u16_less: "unat (v :: u16) < 65536"
  using unat_less_pow [of v] by simp

lemma unat_u32_less: "unat (v :: u32) < 4294967296"
  using unat_less_pow [of v] by simp

lemma unat_u64_less: "unat (v :: u64) < 18446744073709551616"
  using unat_less_pow [of v] by simp

lemma le_val_le_bytes_u16 [simp]: "le_val (le_bytes 2 (unat (v :: u16))) = unat v"
  using unat_u16_less [of v] by (simp add: le_val_le_bytes)

lemma le_val_le_bytes_u32 [simp]: "le_val (le_bytes 4 (unat (v :: u32))) = unat v"
  using unat_u32_less [of v] by (simp add: le_val_le_bytes)

lemma le_val_le_bytes_u64 [simp]: "le_val (le_bytes 8 (unat (v :: u64))) = unat v"
  using unat_u64_less [of v] by (simp add: le_val_le_bytes)

lemma le_val_bound: "le_val bs < 256 ^ length bs"
proof (induction bs)
  case Nil
  then show ?case by simp
next
  case (Cons b bs)
  have "unat b < 256" by simp
  then have "unat b + 256 * le_val bs < 256 * Suc (le_val bs)" by simp
  also have "\<dots> \<le> 256 * 256 ^ length bs" using Cons by (simp only: mult_le_mono2 Suc_le_eq)
  finally show ?case by simp
qed

lemma le_bytes_le_val: "le_bytes (length bs) (le_val bs) = bs"
proof (induction bs)
  case Nil
  then show ?case by simp
next
  case (Cons b bs)
  have b: "unat b < 256" by simp
  have "(unat b + 256 * le_val bs) div 256 = le_val bs" using b by simp
  moreover have "(word_of_nat (unat b + 256 * le_val bs) :: u8) = b"
    by (rule word_unat_eq_iff [THEN iffD2])
      (simp only: unat_word_of_nat_u8 mod_mult_self2 mod_less [OF b])
  ultimately show ?case using Cons by simp
qed

text \<open>The shift-and-mask idioms of the C code, read as bytes of a number.\<close>

lemma unat_and_ff: "unat ((v :: 'a::len word) AND 255) = unat v mod 256"
proof -
  have "v AND 255 = take_bit 8 v"
    by (simp add: take_bit_eq_mask mask_numeral)
  then show ?thesis by (simp add: unsigned_take_bit_eq take_bit_nat_def)
qed

lemma word_of_nat_u8_mod: "(word_of_nat (n mod 256) :: u8) = word_of_nat n"
  by (rule word_unat_eq_iff [THEN iffD2]) (simp only: unat_word_of_nat_u8 mod_mod_trivial)

lemma ucast_u8_nat: "(ucast (v :: 'a::len word) :: u8) = word_of_nat (unat v)"
  by (rule word_unat_eq_iff [THEN iffD2])
    (simp add: unsigned_ucast_eq unat_word_of_nat_u8 take_bit_nat_def)

lemma unat_drop_bit: "unat (drop_bit n (v :: 'a::len word)) = unat v div 2 ^ n"
proof -
  have "take_bit LENGTH('a) (unat v) = unat v"
    by (simp add: take_bit_nat_eq_self)
  then show ?thesis by (simp add: unsigned_drop_bit_eq drop_bit_nat_def)
qed

lemma ucast_and_ff_u8: "(ucast ((v :: 'a::len word) AND 255) :: u8) = word_of_nat (unat v)"
  by (simp only: ucast_u8_nat unat_and_ff word_of_nat_u8_mod)

lemmas byte_of_word = ucast_and_ff_u8 ucast_u8_nat unat_drop_bit

lemma byte_shifts: "(2 :: nat) ^ 8 = 256" "(2 :: nat) ^ 16 = 65536" "(2 :: nat) ^ 24 = 16777216"
  by simp_all

lemma le_bytes_2: "le_bytes 2 v = [word_of_nat v, word_of_nat (v div 256)]"
  by (simp add: numeral_2_eq_2)

lemma split_u16: "[ucast (s AND 0xff), ucast (drop_bit 8 (s :: u16))] = le_bytes 2 (unat s)"
  unfolding le_bytes_2 ucast_and_ff_u8 unfolding byte_of_word byte_shifts by (rule refl)

section \<open>Lists\<close>

lemma take_append_drop_Cons: "i < length xs \<Longrightarrow> take (Suc i) (xs[i := x]) = take i xs @ [x]"
  by (simp add: take_Suc_conv_app_nth)

lemma concat_snoc_map: "concat (map f (xs @ [x])) = concat (map f xs) @ f x"
  by simp

lemma foldl_append_acc: "foldl (\<lambda>acc x. acc @ f x) a xs = a @ concat (map f xs)"
  by (induction xs arbitrary: a) simp_all

lemma sum_list_map_update:
  fixes f :: "'a \<Rightarrow> 'b::ab_group_add"
  assumes "i < length xs"
  shows "sum_list (map f (xs[i := y])) = sum_list (map f xs) - f (xs ! i) + f y"
  using assms by (induction xs arbitrary: i) (auto split: nat.split)

lemma sum_list_update_less:
  fixes f :: "'a \<Rightarrow> nat"
  shows "i < length xs \<Longrightarrow> f y < f (xs ! i) \<Longrightarrow> sum_list (map f (xs[i := y])) < sum_list (map f xs)"
proof (induction xs arbitrary: i)
  case (Cons x xs)
  then show ?case by (cases i) auto
qed simp

lemma list_all_update: "list_all P xs \<Longrightarrow> P y \<Longrightarrow> list_all P (xs[j := y])"
  using set_update_subset_insert [of xs j y] by (auto simp: list_all_iff)

section \<open>Arrays\<close>

text \<open>\<open>memcpy(&buf[off], bs, length bs)\<close> inside the array \<open>buf\<close>.\<close>

definition array_store :: "nat \<Rightarrow> bytes \<Rightarrow> bytes \<Rightarrow> bytes" where
  "array_store off bs buf = take off buf @ bs @ drop (off + length bs) buf"

lemma length_array_store [simp]: "off + length bs \<le> length buf \<Longrightarrow> length (array_store off bs buf) = length buf"
  by (simp add: array_store_def)

lemma take_array_store_0 [simp]: "take (length bs) (array_store 0 bs buf) = bs"
  by (simp add: array_store_def)

lemma take_array_store [simp]:
  "off \<le> length buf \<Longrightarrow> take (off + length bs) (array_store off bs buf) = take off buf @ bs"
  by (simp add: array_store_def)

end
