(* ===== verification/Wire.thy ===== *)
theory Wire
  imports Prelude
begin

text \<open>
  The vocabulary of \<^verbatim>\<open>on9log_fmt.h\<close>, \<^verbatim>\<open>on9log.h\<close>, \<^verbatim>\<open>on9log_config.h\<close> and
  \<^verbatim>\<open>on9log_transport.h\<close>: constants, enumerations and the packet header, and the record of
  everything a build fixes from outside the core (configuration macros and port hooks).

  C enumerations whose values the code range-checks (levels) or switches over as bytes
  (argument types) are words, so that values outside the enumeration exist in the model too;
  the others are datatypes with their numeric code.
\<close>

section \<open>Constants\<close>

type_synonym addr = nat

abbreviation (input) NULL :: addr where "NULL \<equiv> 0"

abbreviation (input) ON9LOG_PACKET_MAGIC :: u8 where "ON9LOG_PACKET_MAGIC \<equiv> 0x9a"
abbreviation (input) ON9LOG_PAYLOAD_LEN_STREAMING :: nat where "ON9LOG_PAYLOAD_LEN_STREAMING \<equiv> 0xffff"
abbreviation (input) ON9LOG_PAYLOAD_LEN_MAX :: nat where
  "ON9LOG_PAYLOAD_LEN_MAX \<equiv> ON9LOG_PAYLOAD_LEN_STREAMING - 1"
abbreviation (input) ON9LOG_ID_INLINE :: u32 where "ON9LOG_ID_INLINE \<equiv> 0xffffffff"
abbreviation (input) ON9LOG_WIRE_FORMAT_VERSION :: u8 where "ON9LOG_WIRE_FORMAT_VERSION \<equiv> 1"
abbreviation (input) ON9LOG_IMAGE_ID_MAX_LEN :: nat where "ON9LOG_IMAGE_ID_MAX_LEN \<equiv> 32"
abbreviation (input) ON9LOG_TRANSPORT_MAX_PAYLOAD :: nat where "ON9LOG_TRANSPORT_MAX_PAYLOAD \<equiv> 3072"
abbreviation (input) ON9LOG_NULL_STRING_LEN :: u32 where "ON9LOG_NULL_STRING_LEN \<equiv> 0xffffffff"
abbreviation (input) ON9LOG_MAX_ARGS :: nat where "ON9LOG_MAX_ARGS \<equiv> 32"
abbreviation (input) ON9LOG_ARG_MASK_BITS :: nat where "ON9LOG_ARG_MASK_BITS \<equiv> 32"

abbreviation (input) ON9LOG_TEXT_DEFAULT_FLAGS :: u8 where "ON9LOG_TEXT_DEFAULT_FLAGS \<equiv> 57"

text \<open>\<open>SIZE_MAX\<close> of the 32-bit targets; only compared for equality with argument indexes.\<close>

abbreviation (input) ON9LOG_PAYLOAD_META_ARG_INDEX :: nat where
  "ON9LOG_PAYLOAD_META_ARG_INDEX \<equiv> 0xffffffff"

text \<open>\<open>sizeof(on9log_packet_header_t)\<close>.\<close>

abbreviation (input) HEADER_SIZE :: nat where "HEADER_SIZE \<equiv> 18"

section \<open>Enumerations\<close>

datatype on9log_packet_type_t =
    ON9LOG_PKT_LOG
  | ON9LOG_PKT_DROPPED
  | ON9LOG_PKT_TIME_SYNC
  | ON9LOG_PKT_BOOT
  | ON9LOG_PKT_BUFFER

primrec packet_type_code :: "on9log_packet_type_t \<Rightarrow> u8" where
  "packet_type_code ON9LOG_PKT_LOG = 0"
| "packet_type_code ON9LOG_PKT_DROPPED = 1"
| "packet_type_code ON9LOG_PKT_TIME_SYNC = 2"
| "packet_type_code ON9LOG_PKT_BOOT = 3"
| "packet_type_code ON9LOG_PKT_BUFFER = 4"

datatype on9log_image_id_kind_t =
    ON9LOG_IMAGE_ID_NONE
  | ON9LOG_IMAGE_ID_ELF_SHA256
  | ON9LOG_IMAGE_ID_GNU_BUILD_ID
  | ON9LOG_IMAGE_ID_MACHO_UUID

primrec image_id_kind_code :: "on9log_image_id_kind_t \<Rightarrow> u8" where
  "image_id_kind_code ON9LOG_IMAGE_ID_NONE = 0"
| "image_id_kind_code ON9LOG_IMAGE_ID_ELF_SHA256 = 1"
| "image_id_kind_code ON9LOG_IMAGE_ID_GNU_BUILD_ID = 2"
| "image_id_kind_code ON9LOG_IMAGE_ID_MACHO_UUID = 3"

datatype on9log_reset_reason_t =
    ON9LOG_RESET_UNKNOWN | ON9LOG_RESET_POWER_ON | ON9LOG_RESET_EXTERNAL
  | ON9LOG_RESET_SOFTWARE | ON9LOG_RESET_PANIC | ON9LOG_RESET_INT_WDT
  | ON9LOG_RESET_TASK_WDT | ON9LOG_RESET_OTHER_WDT | ON9LOG_RESET_DEEP_SLEEP
  | ON9LOG_RESET_BROWNOUT | ON9LOG_RESET_SDIO | ON9LOG_RESET_USB | ON9LOG_RESET_JTAG
  | ON9LOG_RESET_EFUSE | ON9LOG_RESET_POWER_GLITCH | ON9LOG_RESET_CPU_LOCKUP

primrec reset_reason_code :: "on9log_reset_reason_t \<Rightarrow> u8" where
  "reset_reason_code ON9LOG_RESET_UNKNOWN = 0"
| "reset_reason_code ON9LOG_RESET_POWER_ON = 1"
| "reset_reason_code ON9LOG_RESET_EXTERNAL = 2"
| "reset_reason_code ON9LOG_RESET_SOFTWARE = 3"
| "reset_reason_code ON9LOG_RESET_PANIC = 4"
| "reset_reason_code ON9LOG_RESET_INT_WDT = 5"
| "reset_reason_code ON9LOG_RESET_TASK_WDT = 6"
| "reset_reason_code ON9LOG_RESET_OTHER_WDT = 7"
| "reset_reason_code ON9LOG_RESET_DEEP_SLEEP = 8"
| "reset_reason_code ON9LOG_RESET_BROWNOUT = 9"
| "reset_reason_code ON9LOG_RESET_SDIO = 10"
| "reset_reason_code ON9LOG_RESET_USB = 11"
| "reset_reason_code ON9LOG_RESET_JTAG = 12"
| "reset_reason_code ON9LOG_RESET_EFUSE = 13"
| "reset_reason_code ON9LOG_RESET_POWER_GLITCH = 14"
| "reset_reason_code ON9LOG_RESET_CPU_LOCKUP = 15"

datatype on9log_err_t =
    ON9LOG_OK
  | ON9LOG_ERR_FAIL
  | ON9LOG_ERR_INVALID_ARG
  | ON9LOG_ERR_NO_MEM
  | ON9LOG_ERR_NOT_FOUND
  | ON9LOG_ERR_INVALID_SIZE

text \<open>A C \<open>enum\<close> without negative enumerators is an unsigned int.\<close>

type_synonym on9log_level_t = u32

abbreviation (input) ON9_LOG_LEVEL_NONE :: on9log_level_t where "ON9_LOG_LEVEL_NONE \<equiv> 0"
abbreviation (input) ON9_LOG_LEVEL_ERROR :: on9log_level_t where "ON9_LOG_LEVEL_ERROR \<equiv> 1"
abbreviation (input) ON9_LOG_LEVEL_WARN :: on9log_level_t where "ON9_LOG_LEVEL_WARN \<equiv> 2"
abbreviation (input) ON9_LOG_LEVEL_INFO :: on9log_level_t where "ON9_LOG_LEVEL_INFO \<equiv> 3"
abbreviation (input) ON9_LOG_LEVEL_DEBUG :: on9log_level_t where "ON9_LOG_LEVEL_DEBUG \<equiv> 4"
abbreviation (input) ON9_LOG_LEVEL_VERBOSE :: on9log_level_t where "ON9_LOG_LEVEL_VERBOSE \<equiv> 5"

abbreviation (input) ON9_LOG_ARGS_TYPE_NONE :: u8 where "ON9_LOG_ARGS_TYPE_NONE \<equiv> 0"
abbreviation (input) ON9_LOG_ARGS_TYPE_32BITS :: u8 where "ON9_LOG_ARGS_TYPE_32BITS \<equiv> 1"
abbreviation (input) ON9_LOG_ARGS_TYPE_64BITS :: u8 where "ON9_LOG_ARGS_TYPE_64BITS \<equiv> 2"
abbreviation (input) ON9_LOG_ARGS_TYPE_POINTER :: u8 where "ON9_LOG_ARGS_TYPE_POINTER \<equiv> 3"
abbreviation (input) ON9_LOG_ARGS_TYPE_DYNAMIC_STRING :: u8 where
  "ON9_LOG_ARGS_TYPE_DYNAMIC_STRING \<equiv> 4"
abbreviation (input) ON9_LOG_ARGS_TYPE_DYNAMIC_STRING_VIEW :: u8 where
  "ON9_LOG_ARGS_TYPE_DYNAMIC_STRING_VIEW \<equiv> 5"

section \<open>The build: configuration macros and port hooks\<close>

text \<open>
  One record for what the core is compiled and linked with. The \<open>cfg_\<close> fields are the macros
  of \<^verbatim>\<open>on9log_config.h\<close>; \<open>config_ok\<close> collects its \<open>#error\<close> checks. The \<open>port_\<close> fields are the
  hooks of \<^verbatim>\<open>on9log_port.h\<close> whose answers the core uses: they are arbitrary here and are
  given by a port. \<open>ON9_LOG_LOCAL_LEVEL\<close> is a macro each translation unit may define for itself:
  \<open>cfg_local_level\<close> is its value in \<^verbatim>\<open>on9log.c\<close>, \<open>cfg_unit_level\<close> in the unit that makes
  a call. \<open>port_timestamp_ms k\<close> is the answer to the \<open>k\<close>-th clock reading,
  \<open>port_isr_enqueue_packet q p\<close> says whether packet \<open>p\<close> is accepted after the packets \<open>q\<close>.
\<close>

record on9log_env =
  cfg_max_sinks :: nat
  cfg_buffer_chunk_size :: nat
  cfg_max_dynamic_string_len :: nat
  cfg_isr_packet_max :: nat
  cfg_local_level :: on9log_level_t
  cfg_unit_level :: on9log_level_t
  port_addr_in_image :: "addr \<Rightarrow> bool"
  port_image_id :: "nat \<Rightarrow> bytes \<times> on9log_image_id_kind_t"
  port_timestamp_ms :: "nat \<Rightarrow> u32"
  port_isr_timestamp_ms :: u32
  port_isr_ready :: bool
  port_isr_enqueue_packet :: "bytes list \<Rightarrow> bytes \<Rightarrow> bool"

definition config_ok :: "on9log_env \<Rightarrow> bool" where
  "config_ok env \<longleftrightarrow>
     1 \<le> cfg_buffer_chunk_size env \<and>
     cfg_buffer_chunk_size env \<le> 0xffff - 1 - 12 \<and>
     cfg_max_dynamic_string_len env \<le> 0xffffffff - 1 \<and>
     32 \<le> cfg_isr_packet_max env"

text \<open>The defaults of \<^verbatim>\<open>on9log_config.h\<close> over the weak hooks of \<^verbatim>\<open>on9log_port_weak.c\<close>.\<close>

definition on9log_default_env :: on9log_env where
  "on9log_default_env =
     \<lparr>cfg_max_sinks = 4, cfg_buffer_chunk_size = 3042, cfg_max_dynamic_string_len = 1024,
      cfg_isr_packet_max = 128, cfg_local_level = 3, cfg_unit_level = 3,
      port_addr_in_image = (\<lambda>_. True),
      port_image_id = (\<lambda>_. ([], ON9LOG_IMAGE_ID_NONE)),
      port_timestamp_ms = (\<lambda>_. 0),
      port_isr_timestamp_ms = 0,
      port_isr_ready = False,
      port_isr_enqueue_packet = (\<lambda>_ _. False)\<rparr>"

lemma config_ok_default: "config_ok on9log_default_env"
  by (simp add: config_ok_def on9log_default_env_def)

end
