(* ===== verification/Memory.thy ===== *)
theory Memory
  imports Wire
begin

text \<open>
  The memory the logger reads through pointers. An address outside every live object has no
  byte, and reading it is undefined behaviour in C: here it makes the whole computation
  \<open>None\<close>. \<open>cstr m p s\<close> says that a NUL-terminated string with contents \<open>s\<close> is stored at \<open>p\<close>.
  The section also models the two string helpers of \<^verbatim>\<open>on9log.c\<close> that walk such memory and the
  \<open>strlen\<close> / \<open>strcmp\<close> of the C library the filter code uses.
\<close>

type_synonym mem = "addr \<Rightarrow> u8 option"

section \<open>Reading bytes\<close>

primrec rd_bytes :: "mem \<Rightarrow> addr \<Rightarrow> nat \<Rightarrow> bytes option" where
  "rd_bytes m p 0 = Some []"
| "rd_bytes m p (Suc n) = do { b \<leftarrow> m p; bs \<leftarrow> rd_bytes m (Suc p) n; Some (b # bs) }"

text \<open>An object at \<open>p\<close>, for building concrete memories.\<close>

definition mem_object :: "addr \<Rightarrow> bytes \<Rightarrow> mem \<Rightarrow> mem" where
  "mem_object p bs m = (\<lambda>a. if p \<le> a \<and> a < p + length bs then Some (bs ! (a - p)) else m a)"

primrec cstr :: "mem \<Rightarrow> addr \<Rightarrow> bytes \<Rightarrow> bool" where
  "cstr m p [] \<longleftrightarrow> m p = Some 0"
| "cstr m p (b # bs) \<longleftrightarrow> b \<noteq> 0 \<and> m p = Some b \<and> cstr m (Suc p) bs"

lemma length_rd_bytes: "rd_bytes m p n = Some bs \<Longrightarrow> length bs = n"
  by (induction n arbitrary: p bs) (auto split: Option.bind_splits)

lemma rd_bytes_numeral [simp]:
  "rd_bytes m p (numeral k) =
     do { b \<leftarrow> m p; bs \<leftarrow> rd_bytes m (Suc p) (pred_numeral k); Some (b # bs) }"
  by (simp add: numeral_eq_Suc)

lemma rd_bytes_cstr: "cstr m p s \<Longrightarrow> n \<le> length s \<Longrightarrow> rd_bytes m p n = Some (take n s)"
proof (induction s arbitrary: p n)
  case Nil
  then show ?case by simp
next
  case (Cons b s)
  then show ?case by (cases n) auto
qed

lemma rd_bytes_le: "rd_bytes m p n = Some bs \<Longrightarrow> k \<le> n \<Longrightarrow> rd_bytes m p k = Some (take k bs)"
proof (induction n arbitrary: p bs k)
  case 0
  then show ?case by simp
next
  case (Suc n)
  then show ?case by (cases k) (auto split: Option.bind_splits)
qed

lemma cstr_unique: "cstr m p s \<Longrightarrow> cstr m p t \<Longrightarrow> s = t"
proof (induction s arbitrary: p t)
  case Nil
  then show ?case by (cases t) auto
next
  case (Cons b s)
  then show ?case by (cases t) auto
qed

section \<open>\<open>on9log_bounded_strlen\<close>\<close>

text \<open>
  \<^verbatim>\<open>while (len < max_len && str[len] != '\0') ++len;\<close> The loop's position is \<open>len\<close>; what
  shrinks is \<open>max_len - len\<close>.
\<close>

function bounded_strlen_loop :: "mem \<Rightarrow> addr \<Rightarrow> nat \<Rightarrow> nat \<Rightarrow> nat option" where
  "bounded_strlen_loop m str max_len len =
     (if len < max_len
      then (case m (str + len) of
              None \<Rightarrow> None
            | Some c \<Rightarrow> if c \<noteq> 0 then bounded_strlen_loop m str max_len (Suc len) else Some len)
      else Some len)"
  by pat_completeness auto
termination
  by (relation "measure (\<lambda>(m, str, max_len, len). max_len - len)") auto

declare bounded_strlen_loop.simps [simp del]

definition on9log_bounded_strlen :: "mem \<Rightarrow> addr \<Rightarrow> nat \<Rightarrow> nat option" where
  "on9log_bounded_strlen m str max_len = bounded_strlen_loop m str max_len 0"

lemma bounded_strlen_loop_cstr:
  "cstr m (str + len) s \<Longrightarrow> len \<le> max_len \<Longrightarrow>
     bounded_strlen_loop m str max_len len = Some (min max_len (len + length s))"
proof (induction s arbitrary: len)
  case Nil
  then show ?case by (subst bounded_strlen_loop.simps) auto
next
  case (Cons b s)
  show ?case
  proof (cases "len < max_len")
    case True
    have "cstr m (str + Suc len) s" using Cons.prems by simp
    with True have "bounded_strlen_loop m str max_len (Suc len) =
        Some (min max_len (Suc len + length s))"
      by (intro Cons.IH) auto
    then show ?thesis using True Cons.prems by (subst bounded_strlen_loop.simps) simp
  next
    case False
    then show ?thesis using Cons.prems by (subst bounded_strlen_loop.simps) simp
  qed
qed

lemma on9log_bounded_strlen_cstr:
  "cstr m p s \<Longrightarrow> on9log_bounded_strlen m p n = Some (min n (length s))"
  by (simp add: on9log_bounded_strlen_def bounded_strlen_loop_cstr)

text \<open>
  The bound is what makes unterminated objects safe: an object of at least \<open>max_len\<close> bytes is
  never read past its end, and the result never exceeds the bound nor the readable bytes.
\<close>

lemma bounded_strlen_loop_object:
  assumes "rd_bytes m (str + len) (max_len - len) = Some bs"
  shows "\<exists>n. bounded_strlen_loop m str max_len len = Some n \<and> n \<le> max len max_len"
  using assms
proof (induction m str max_len len arbitrary: bs rule: bounded_strlen_loop.induct)
  case (1 m str max_len len)
  show ?case
  proof (cases "len < max_len")
    case True
    then obtain k where k: "max_len - len = Suc k" "max_len - Suc len = k"
      by (cases "max_len - len") auto
    with "1.prems" obtain b cs where b: "m (str + len) = Some b"
      and cs: "rd_bytes m (str + Suc len) (max_len - Suc len) = Some cs"
      by (auto split: Option.bind_splits)
    show ?thesis
    proof (cases "b = 0")
      case False
      with "1.IH" [OF True b _ cs] True b show ?thesis
        by (subst bounded_strlen_loop.simps) auto
    qed (use True b in \<open>subst bounded_strlen_loop.simps, simp\<close>)
  qed (subst bounded_strlen_loop.simps, simp)
qed

lemma on9log_bounded_strlen_object:
  "rd_bytes m p n = Some bs \<Longrightarrow> \<exists>k. on9log_bounded_strlen m p n = Some k \<and> k \<le> n"
  using bounded_strlen_loop_object [of m p 0 n bs] by (simp add: on9log_bounded_strlen_def)

text \<open>Whatever was measured can be read back.\<close>

lemma bounded_strlen_loop_readable:
  "bounded_strlen_loop m str max_len len = Some n \<Longrightarrow>
     len \<le> n \<and> n \<le> max len max_len \<and> (\<exists>bs. rd_bytes m (str + len) (n - len) = Some bs)"
proof (induction m str max_len len arbitrary: n rule: bounded_strlen_loop.induct)
  case (1 m str max_len len)
  show ?case
  proof (cases "len < max_len")
    case True
    with "1.prems" obtain c where c: "m (str + len) = Some c"
      by (subst (asm) bounded_strlen_loop.simps) (auto split: option.splits)
    show ?thesis
    proof (cases "c = 0")
      case True
      with c "1.prems" \<open>len < max_len\<close> show ?thesis
        by (subst (asm) bounded_strlen_loop.simps) auto
    next
      case False
      with c "1.prems" \<open>len < max_len\<close> have "bounded_strlen_loop m str max_len (Suc len) = Some n"
        by (subst (asm) bounded_strlen_loop.simps) auto
      with "1.IH" [OF True c] False obtain bs where
        "Suc len \<le> n" "n \<le> max (Suc len) max_len" "rd_bytes m (str + Suc len) (n - Suc len) = Some bs"
        by auto
      moreover from this have "n - len = Suc (n - Suc len)" by simp
      ultimately show ?thesis using c True by auto
    qed
  qed (use "1.prems" in \<open>subst (asm) bounded_strlen_loop.simps, simp\<close>)
qed

lemma on9log_bounded_strlen_readable:
  "on9log_bounded_strlen m p max_len = Some n \<Longrightarrow> n \<le> max_len \<and> (\<exists>bs. rd_bytes m p n = Some bs)"
  using bounded_strlen_loop_readable [of m p max_len 0 n] by (simp add: on9log_bounded_strlen_def)

section \<open>The C library's \<open>strlen\<close> and \<open>strcmp\<close>\<close>

text \<open>\<open>None\<close>: the walk leaves the object before it meets a NUL, or never meets one.\<close>

partial_function (option) c_strlen :: "mem \<Rightarrow> addr \<Rightarrow> nat option" where
  "c_strlen m p =
     Option.bind (m p) (\<lambda>c. if c = 0 then Some 0
       else Option.bind (c_strlen m (Suc p)) (\<lambda>n. Some (Suc n)))"

lemma c_strlen_cstr: "cstr m p s \<Longrightarrow> c_strlen m p = Some (length s)"
proof (induction s arbitrary: p)
  case Nil
  then show ?case by (subst c_strlen.simps) simp
next
  case (Cons b s)
  then show ?case by (subst c_strlen.simps) simp
qed

text \<open>
  \<^verbatim>\<open>strcmp(configured, tag) == 0\<close> with the owned copy \<open>configured\<close> given by its contents: the
  comparison stops at the first difference or at the common NUL.
\<close>

primrec strcmp_eq :: "mem \<Rightarrow> bytes \<Rightarrow> addr \<Rightarrow> bool option" where
  "strcmp_eq m [] p = do { c \<leftarrow> m p; Some (c = 0) }"
| "strcmp_eq m (b # bs) p = do { c \<leftarrow> m p; if c = b then strcmp_eq m bs (Suc p) else Some False }"

lemma strcmp_eq_cstr: "cstr m p s \<Longrightarrow> 0 \<notin> set t \<Longrightarrow> strcmp_eq m t p = Some (t = s)"
proof (induction t arbitrary: p s)
  case Nil
  then show ?case by (cases s) auto
next
  case (Cons b t)
  then show ?case by (cases s) auto
qed

lemma cstr_no_nul: "cstr m p s \<Longrightarrow> 0 \<notin> set s"
  by (induction s arbitrary: p) auto

end
