(* ===== verification/Encoder.thy ===== *)
theory Encoder
  imports Memory
begin

text \<open>
  \<open>on9log_encoder_t\<close> and the \<open>on9log_put_*\<close> functions of \<^verbatim>\<open>on9log.c\<close>: a cursor over a caller's
  buffer, with a sticky overflow flag. \<open>enc_data\<close> is the whole backing buffer, \<open>enc_len\<close> the
  write cursor; what has been written is \<open>enc_out\<close>. \<open>enc_appends\<close> is the contract all writers
  share ("appends exactly these bytes, or flags overflow"); it composes, so every larger
  encoding is a chain of steps.
\<close>

record on9log_encoder =
  enc_overflow :: bool
  enc_len :: nat
  enc_cap :: nat
  enc_data :: bytes

definition on9log_put_u8 :: "on9log_encoder \<Rightarrow> u8 \<Rightarrow> on9log_encoder" where
  "on9log_put_u8 enc val =
     (if enc_len enc \<ge> enc_cap enc
      then enc\<lparr>enc_overflow := True\<rparr>
      else enc\<lparr>enc_data := (enc_data enc)[enc_len enc := val], enc_len := enc_len enc + 1\<rparr>)"

definition on9log_put_u16 :: "on9log_encoder \<Rightarrow> u16 \<Rightarrow> on9log_encoder" where
  "on9log_put_u16 enc val =
     (let enc = on9log_put_u8 enc (ucast (val AND 0xff))
      in on9log_put_u8 enc (ucast (drop_bit 8 val)))"

definition on9log_put_u32 :: "on9log_encoder \<Rightarrow> u32 \<Rightarrow> on9log_encoder" where
  "on9log_put_u32 enc val =
     (let enc = on9log_put_u8 enc (ucast (val AND 0xff));
          enc = on9log_put_u8 enc (ucast (drop_bit 8 val AND 0xff));
          enc = on9log_put_u8 enc (ucast (drop_bit 16 val AND 0xff))
      in on9log_put_u8 enc (ucast (drop_bit 24 val)))"

definition on9log_put_u64 :: "on9log_encoder \<Rightarrow> u64 \<Rightarrow> on9log_encoder" where
  "on9log_put_u64 enc val =
     (let enc = on9log_put_u32 enc (ucast (val AND 0xffffffff))
      in on9log_put_u32 enc (ucast (drop_bit 32 val)))"

text \<open>The \<open>memcpy\<close> of \<open>on9log_put_bytes\<close>, on bytes already read.\<close>

definition enc_store :: "on9log_encoder \<Rightarrow> bytes \<Rightarrow> on9log_encoder" where
  "enc_store enc bs =
     enc\<lparr>enc_data := take (enc_len enc) (enc_data enc) @ bs @
                      drop (enc_len enc + length bs) (enc_data enc),
         enc_len := enc_len enc + length bs\<rparr>"

text \<open>The source is read only after the room check has passed.\<close>

definition on9log_put_bytes ::
    "mem \<Rightarrow> on9log_encoder \<Rightarrow> addr \<Rightarrow> nat \<Rightarrow> on9log_encoder option" where
  "on9log_put_bytes m enc data len =
     (if len = 0 then Some enc
      else if len > enc_cap enc - enc_len enc then Some (enc\<lparr>enc_overflow := True\<rparr>)
      else do { bs \<leftarrow> rd_bytes m data len; Some (enc_store enc bs) })"

section \<open>The writers' contract\<close>

definition enc_ok :: "on9log_encoder \<Rightarrow> bool" where
  "enc_ok enc \<longleftrightarrow> enc_len enc \<le> enc_cap enc \<and> enc_cap enc \<le> length (enc_data enc)"

definition enc_out :: "on9log_encoder \<Rightarrow> bytes" where
  "enc_out enc = take (enc_len enc) (enc_data enc)"

definition enc_appends :: "on9log_encoder \<Rightarrow> bytes \<Rightarrow> on9log_encoder \<Rightarrow> bool" where
  "enc_appends enc bs enc' \<longleftrightarrow>
     enc_ok enc' \<and> enc_cap enc' = enc_cap enc \<and> length (enc_data enc') = length (enc_data enc) \<and>
     drop (enc_cap enc) (enc_data enc') = drop (enc_cap enc) (enc_data enc) \<and>
     (enc_overflow enc' \<longleftrightarrow> enc_overflow enc \<or> enc_len enc + length bs > enc_cap enc) \<and>
     (\<not> enc_overflow enc' \<longrightarrow> enc_out enc' = enc_out enc @ bs)"

lemma length_enc_out: "enc_ok enc \<Longrightarrow> length (enc_out enc) = enc_len enc"
  by (simp add: enc_ok_def enc_out_def)

lemma enc_appends_ok: "enc_appends enc bs enc' \<Longrightarrow> enc_ok enc'"
  by (simp add: enc_appends_def)

lemma enc_appends_Nil [enc_intros]: "enc_ok enc \<Longrightarrow> enc_appends enc [] enc"
  by (auto simp: enc_appends_def enc_ok_def)

text \<open>
  Composition holds for a chain that starts without overflow; from then on the flag only
  records whether the total has fitted.
\<close>

lemma enc_appends_trans:
  assumes "enc_ok enc" and ab: "enc_appends enc xs enc1" and bc: "enc_appends enc1 ys enc2"
  shows "enc_appends enc (xs @ ys) enc2"
proof (cases "enc_overflow enc1")
  case True
  then have "enc_overflow enc2" using bc by (simp add: enc_appends_def)
  then show ?thesis using ab bc True by (auto simp: enc_appends_def)
next
  case False
  then have out1: "enc_out enc1 = enc_out enc @ xs" using ab by (simp add: enc_appends_def)
  then have "length (enc_out enc1) = length (enc_out enc) + length xs" by simp
  then have "enc_len enc1 = enc_len enc + length xs"
    using length_enc_out assms enc_appends_ok by metis
  then show ?thesis using ab bc out1 by (auto simp: enc_appends_def)
qed

lemma enc_appends_len:
  "enc_ok enc \<Longrightarrow> enc_appends enc bs enc' \<Longrightarrow> \<not> enc_overflow enc' \<Longrightarrow>
     enc_len enc' = enc_len enc + length bs"
  using length_enc_out [of enc] length_enc_out [of enc'] by (simp add: enc_appends_def)

lemma put_u8_appends [enc_intros]: "enc_ok enc \<Longrightarrow> enc_appends enc [v] (on9log_put_u8 enc v)"
  by (auto simp: enc_appends_def on9log_put_u8_def enc_ok_def enc_out_def take_append_drop_Cons)

lemma enc_appends_step:
  "enc_ok enc \<Longrightarrow> enc_appends enc xs enc1 \<Longrightarrow> (\<And>e. enc_ok e \<Longrightarrow> enc_appends e ys (f e)) \<Longrightarrow>
     enc_appends enc (xs @ ys) (f enc1)"
  using enc_appends_trans enc_appends_ok by blast

lemma enc_appends_put_u8:
  "enc_ok enc \<Longrightarrow> enc_appends enc xs enc1 \<Longrightarrow> enc_appends enc (xs @ [v]) (on9log_put_u8 enc1 v)"
  by (rule enc_appends_step) (auto intro: put_u8_appends)

lemma put_bytes_u8_2:
  "enc_ok enc \<Longrightarrow> enc_appends enc [a, b] (on9log_put_u8 (on9log_put_u8 enc a) b)"
  using enc_appends_put_u8 [of enc "[a]" "on9log_put_u8 enc a" b] put_u8_appends [of enc a] by simp

lemma put_bytes_u8_4:
  assumes "enc_ok enc"
  shows "enc_appends enc [a, b, c, d]
    (on9log_put_u8 (on9log_put_u8 (on9log_put_u8 (on9log_put_u8 enc a) b) c) d)"
proof -
  let ?e = "on9log_put_u8 (on9log_put_u8 enc a) b"
  have "enc_appends enc [a, b] ?e" using assms by (rule put_bytes_u8_2)
  moreover from this have "enc_appends ?e [c, d] (on9log_put_u8 (on9log_put_u8 ?e c) d)"
    by (intro put_bytes_u8_2 enc_appends_ok)
  ultimately have "enc_appends enc ([a, b] @ [c, d]) (on9log_put_u8 (on9log_put_u8 ?e c) d)"
    by (rule enc_appends_trans [OF assms])
  then show ?thesis by simp
qed

lemma le_bytes_4:
  "le_bytes 4 v =
     [word_of_nat v, word_of_nat (v div 256), word_of_nat (v div 65536), word_of_nat (v div 16777216)]"
proof -
  have "(4 :: nat) = Suc (Suc (Suc (Suc 0)))" by simp
  then show ?thesis by (simp only: le_bytes.simps) (simp add: div_mult2_eq [symmetric])
qed

lemma le_bytes_add: "le_bytes (a + b) v = le_bytes a v @ le_bytes b (v div 256 ^ a)"
  by (induction a arbitrary: v) (simp_all add: div_mult2_eq)

lemma le_bytes_mod: "le_bytes n (v mod 256 ^ n) = le_bytes n v"
proof (induction n arbitrary: v)
  case 0
  then show ?case by simp
next
  case (Suc n)
  have "(v mod (256 * 256 ^ n)) mod 256 = v mod 256"
    by (simp add: mod_mod_cancel)
  then have "(word_of_nat (v mod (256 * 256 ^ n)) :: u8) = word_of_nat v"
    by (metis word_of_nat_u8_mod)
  moreover have "v mod (256 * 256 ^ n) div 256 = v div 256 mod 256 ^ n"
    by (simp add: mod_mult2_eq)
  ultimately show ?case by (simp add: Suc)
qed

lemma put_u16_appends [enc_intros]:
  "enc_ok enc \<Longrightarrow> enc_appends enc (le_bytes 2 (unat v)) (on9log_put_u16 enc v)"
  unfolding on9log_put_u16_def Let_def le_bytes_2 ucast_and_ff_u8 unfolding byte_of_word byte_shifts
  by (rule put_bytes_u8_2)

lemma put_u32_appends [enc_intros]:
  "enc_ok enc \<Longrightarrow> enc_appends enc (le_bytes 4 (unat v)) (on9log_put_u32 enc v)"
  unfolding on9log_put_u32_def Let_def le_bytes_4 ucast_and_ff_u8 unfolding byte_of_word byte_shifts
  by (rule put_bytes_u8_4)

lemma put_u64_appends [enc_intros]:
  assumes "enc_ok enc"
  shows "enc_appends enc (le_bytes 8 (unat v)) (on9log_put_u64 enc v)"
proof -
  have lo: "unat (ucast (v AND 0xffffffff) :: u32) = unat v mod 256 ^ 4"
  proof -
    have "v AND 0xffffffff = take_bit 32 v" by (simp add: take_bit_eq_mask mask_numeral)
    then show ?thesis by (simp add: unsigned_ucast_eq unsigned_take_bit_eq take_bit_nat_def)
  qed
  have hi: "unat (ucast (drop_bit 32 v) :: u32) = unat v div 256 ^ 4"
  proof -
    have "unat v div 4294967296 < 4294967296" using unat_u64_less [of v] by simp
    then show ?thesis by (simp add: unsigned_ucast_eq unat_drop_bit take_bit_nat_def)
  qed
  have "enc_appends enc (le_bytes 4 (unat v mod 256 ^ 4) @ le_bytes 4 (unat v div 256 ^ 4))
      (on9log_put_u64 enc v)"
    unfolding on9log_put_u64_def Let_def lo [symmetric] hi [symmetric]
    by (intro enc_appends_step [OF assms]) (auto intro: put_u32_appends assms)
  moreover have "le_bytes 8 (unat v) = le_bytes 4 (unat v) @ le_bytes 4 (unat v div 256 ^ 4)"
    using le_bytes_add [of 4 4] by simp
  ultimately show ?thesis by (simp only: le_bytes_mod)
qed

lemma enc_store_appends:
  assumes "enc_ok enc" and "length bs \<le> enc_cap enc - enc_len enc"
  shows "enc_appends enc bs (enc_store enc bs)"
  using assms by (auto simp: enc_appends_def enc_store_def enc_ok_def enc_out_def)

lemma put_bytes_appends:
  assumes "enc_ok enc" and "rd_bytes m p n = Some bs"
  shows "\<exists>enc'. on9log_put_bytes m enc p n = Some enc' \<and> enc_appends enc bs enc'"
proof -
  have "length bs = n" using assms(2) by (rule length_rd_bytes)
  then show ?thesis using assms enc_store_appends [OF assms(1), of bs]
    by (auto simp: on9log_put_bytes_def enc_appends_def enc_ok_def)
qed

text \<open>A fresh encoder over a caller's buffer, as the initialisers \<open>{.cap = n, .data = p}\<close> make.\<close>

definition enc_init :: "nat \<Rightarrow> bytes \<Rightarrow> on9log_encoder" where
  "enc_init cap buf = \<lparr>enc_overflow = False, enc_len = 0, enc_cap = cap, enc_data = buf\<rparr>"

lemma enc_init_ok: "cap \<le> length buf \<Longrightarrow> enc_ok (enc_init cap buf)"
  by (simp add: enc_init_def enc_ok_def)

lemma enc_init_appends:
  assumes "cap \<le> length buf" and "enc_appends (enc_init cap buf) bs enc"
  shows "enc_overflow enc \<longleftrightarrow> cap < length bs"
    and "length bs \<le> cap \<Longrightarrow> enc_out enc = bs \<and> enc_len enc = length bs"
  using assms length_enc_out [of enc]
  by (auto simp: enc_appends_def enc_init_def enc_out_def)

section \<open>The packet header\<close>

definition on9log_put_header ::
    "on9log_encoder \<Rightarrow> on9log_packet_type_t \<Rightarrow> on9log_level_t \<Rightarrow> u16 \<Rightarrow> u32 \<Rightarrow> u32 \<Rightarrow> u32 \<Rightarrow> u16 \<Rightarrow>
       on9log_encoder" where
  "on9log_put_header enc type level seq time_ms tag_id fmt_id payload_len =
     (let enc = on9log_put_u8 enc ON9LOG_PACKET_MAGIC;
          enc = on9log_put_u8 enc (push_bit 4 (packet_type_code type AND 0x0f)
                                     OR (ucast level AND 0x0f));
          enc = on9log_put_u16 enc seq;
          enc = on9log_put_u32 enc time_ms;
          enc = on9log_put_u32 enc tag_id;
          enc = on9log_put_u32 enc fmt_id
      in on9log_put_u16 enc payload_len)"

text \<open>The header buffer is given as the array the caller declared; the result is its contents.\<close>

definition on9log_encode_header ::
    "bytes \<Rightarrow> on9log_packet_type_t \<Rightarrow> on9log_level_t \<Rightarrow> u16 \<Rightarrow> u32 \<Rightarrow> u32 \<Rightarrow> u32 \<Rightarrow> u16 \<Rightarrow> bool \<times> bytes" where
  "on9log_encode_header header type level seq time_ms tag_id fmt_id payload_len =
     (let enc = on9log_put_header (enc_init HEADER_SIZE header)
                  type level seq time_ms tag_id fmt_id payload_len
      in (\<not> enc_overflow enc \<and> enc_len enc = HEADER_SIZE, enc_data enc))"

text \<open>The wire layout of the header as \<^verbatim>\<open>README.md\<close> tabulates it.\<close>

definition header_bytes ::
    "on9log_packet_type_t \<Rightarrow> on9log_level_t \<Rightarrow> u16 \<Rightarrow> u32 \<Rightarrow> u32 \<Rightarrow> u32 \<Rightarrow> u16 \<Rightarrow> bytes" where
  "header_bytes type level seq time_ms tag_id fmt_id payload_len =
     [0x9a, word_of_nat (16 * unat (packet_type_code type) + unat level mod 16)]
       @ le_bytes 2 (unat seq) @ le_bytes 4 (unat time_ms) @ le_bytes 4 (unat tag_id)
       @ le_bytes 4 (unat fmt_id) @ le_bytes 2 (unat payload_len)"

lemma length_header_bytes [simp]: "length (header_bytes t l s ms tag fmt n) = HEADER_SIZE"
  by (simp add: header_bytes_def)

lemma nibbles:
  assumes "unat (a :: u8) < 16" and "unat (b :: u8) < 16"
  shows "push_bit 4 a OR b = word_of_nat (16 * unat a + unat b)"
proof -
  have b: "take_bit 4 b = b"
    using assms(2) by (simp add: word_unat_eq_iff unsigned_take_bit_eq take_bit_nat_def)
  have "push_bit 4 a AND b = 0"
  proof (rule bit_eqI)
    fix n
    have "bit b n \<Longrightarrow> n < 4" using b by (metis bit_take_bit_iff)
    then show "bit (push_bit 4 a AND b) n = bit 0 n" by (auto simp: bit_simps)
  qed
  then have "push_bit 4 a OR b = push_bit 4 a + b"
    by (simp add: disjunctive_add_eq_or)
  then show ?thesis
    using assms by (simp add: push_bit_eq_mult word_unat_eq_iff unat_word_ariths unat_of_nat)
qed

lemma packet_type_code_less: "unat (packet_type_code t) < 16"
  by (cases t) simp_all

lemma type_level_byte:
  "push_bit 4 (packet_type_code type AND 0x0f) OR (ucast (level :: u32) AND 0x0f) =
     (word_of_nat (16 * unat (packet_type_code type) + unat level mod 16) :: u8)"
proof -
  have t: "packet_type_code type AND 0x0f = packet_type_code type"
    by (cases type) simp_all
  have m: "(w :: u8) AND 0x0f = take_bit 4 w" for w
    by (simp add: take_bit_eq_mask mask_numeral)
  have l: "unat ((ucast level :: u8) AND 0x0f) = unat level mod 16"
    by (simp add: m unsigned_take_bit_eq unsigned_ucast_eq take_bit_nat_def mod_mod_cancel)
  show ?thesis
    using nibbles [of "packet_type_code type" "ucast level AND 0x0f"] packet_type_code_less [of type]
    by (simp add: t l)
qed

lemma put_header_appends [enc_intros]:
  assumes "enc_ok enc"
  shows "enc_appends enc (header_bytes t l s ms tag fmt n) (on9log_put_header enc t l s ms tag fmt n)"
proof -
  have "enc_appends enc ((((((([0x9a] @ [word_of_nat (16 * unat (packet_type_code t) + unat l mod 16)])
          @ le_bytes 2 (unat s)) @ le_bytes 4 (unat ms)) @ le_bytes 4 (unat tag))
          @ le_bytes 4 (unat fmt)) @ le_bytes 2 (unat n)))
      (on9log_put_header enc t l s ms tag fmt n)"
    unfolding on9log_put_header_def Let_def type_level_byte
    by (intro enc_appends_step [OF assms] enc_intros assms)
  then show ?thesis by (simp add: header_bytes_def)
qed

lemma encode_header_correct:
  assumes "length header = HEADER_SIZE"
  shows "on9log_encode_header header t l s ms tag fmt n = (True, header_bytes t l s ms tag fmt n)"
proof -
  let ?e = "on9log_put_header (enc_init HEADER_SIZE header) t l s ms tag fmt n"
  have a: "enc_appends (enc_init HEADER_SIZE header) (header_bytes t l s ms tag fmt n) ?e"
    using assms by (intro put_header_appends enc_init_ok) simp
  have len: "length (enc_data ?e) = HEADER_SIZE"
    using a assms by (simp add: enc_appends_def enc_init_def)
  have ov: "\<not> enc_overflow ?e" and out: "enc_out ?e = header_bytes t l s ms tag fmt n"
    and el: "enc_len ?e = HEADER_SIZE"
    using enc_init_appends [OF _ a] assms by simp_all
  have "enc_data ?e = header_bytes t l s ms tag fmt n"
    using out len el by (simp add: enc_out_def)
  then show ?thesis using ov el by (simp add: on9log_encode_header_def Let_def)
qed

end
