(* ===== verification/LogStream.thy ===== *)
theory LogStream
  imports Encoder
begin

text \<open>
  The core's state and the stream operations of \<^verbatim>\<open>on9log.c\<close> that send one packet to every
  registered sink.

  The static variables of \<^verbatim>\<open>on9log.c\<close> are the fields of \<open>on9log_state\<close>. Calls into a sink
  are observations: \<open>st_events\<close> is the sequence of callback invocations and emit-lock
  operations performed so far, in program order. What one sink receives is read off that
  sequence by \<open>sink_packets\<close>.

  \<open>atomic_uint_fast16_t\<close> and \<open>atomic_uint_fast32_t\<close> may be wider than their name says, but
  every value read is cast to \<open>uint16_t\<close> or \<open>uint32_t\<close> and every update adds one or stores
  zero, so the cast values are those of 16- and 32-bit counters.
\<close>

section \<open>State and observations\<close>

record on9log_sink_entry =
  se_sink :: addr
  se_ctx :: addr

record on9log_tag_filter_node =
  tf_tag :: bytes
  tf_level :: on9log_level_t
  tf_active :: bool

datatype event =
    EmitLock
  | EmitUnlock
  | StartCb on9log_sink_entry "bytes option"
  | PayloadCb on9log_sink_entry bytes nat nat
  | EndCb on9log_sink_entry

record on9log_state =
  s_sinks :: "on9log_sink_entry list"
  s_tag_filters :: "on9log_tag_filter_node list"
  s_active_tag_filter_count :: u32
  s_default_level :: on9log_level_t
  s_seq :: u16
  s_dropped_count :: u32
  st_clock :: nat
  st_events :: "event list"
  st_isr_queue :: "bytes list"

text \<open>The static initialisers.\<close>

definition on9log_initial_state :: "on9log_env \<Rightarrow> on9log_state" where
  "on9log_initial_state env =
     \<lparr>s_sinks = replicate (cfg_max_sinks env) \<lparr>se_sink = NULL, se_ctx = NULL\<rparr>,
      s_tag_filters = [], s_active_tag_filter_count = 0,
      s_default_level = ON9_LOG_LEVEL_VERBOSE, s_seq = 0, s_dropped_count = 0,
      st_clock = 0, st_events = [], st_isr_queue = []\<rparr>"

definition observe :: "event list \<Rightarrow> on9log_state \<Rightarrow> on9log_state" where
  "observe evs st = st\<lparr>st_events := st_events st @ evs\<rparr>"

definition on9log_port_emit_lock :: "on9log_state \<Rightarrow> on9log_state" where
  "on9log_port_emit_lock st = observe [EmitLock] st"

definition on9log_port_emit_unlock :: "on9log_state \<Rightarrow> on9log_state" where
  "on9log_port_emit_unlock st = observe [EmitUnlock] st"

text \<open>One reading of the port's clock.\<close>

definition read_clock :: "on9log_env \<Rightarrow> on9log_state \<Rightarrow> u32 \<times> on9log_state" where
  "read_clock env st = (port_timestamp_ms env (st_clock st), st\<lparr>st_clock := Suc (st_clock st)\<rparr>)"

lemma observe_observe [simp]: "observe b (observe a st) = observe (a @ b) st"
  by (simp add: observe_def)

lemma observe_Nil [simp]: "observe [] st = st"
  by (simp add: observe_def)

lemma observe_sel [simp]:
  "s_sinks (observe evs st) = s_sinks st"
  "s_tag_filters (observe evs st) = s_tag_filters st"
  "s_active_tag_filter_count (observe evs st) = s_active_tag_filter_count st"
  "s_default_level (observe evs st) = s_default_level st"
  "s_seq (observe evs st) = s_seq st"
  "s_dropped_count (observe evs st) = s_dropped_count st"
  "st_clock (observe evs st) = st_clock st"
  "st_isr_queue (observe evs st) = st_isr_queue st"
  "st_events (observe evs st) = st_events st @ evs"
  by (simp_all add: observe_def)

section \<open>Streams\<close>

text \<open>\<open>on9log_stream_t\<close>: the captured entries; \<open>sink_count\<close> is the list's length.\<close>

type_synonym on9log_stream_t = "on9log_sink_entry list"

primrec capture_sinks :: "on9log_sink_entry list \<Rightarrow> on9log_stream_t" where
  "capture_sinks [] = []"
| "capture_sinks (e # es) =
     (if se_sink e \<noteq> NULL then e # capture_sinks es else capture_sinks es)"

definition on9log_stream_open :: "on9log_state \<Rightarrow> on9log_stream_t \<times> on9log_state" where
  "on9log_stream_open st =
     (let st = on9log_port_emit_lock st in (capture_sinks (s_sinks st), st))"

definition on9log_stream_send_header ::
    "on9log_stream_t \<Rightarrow> bytes option \<Rightarrow> on9log_state \<Rightarrow> on9log_state" where
  "on9log_stream_send_header stream header st = observe (map (\<lambda>s. StartCb s header) stream) st"

definition on9log_stream_payload ::
    "on9log_stream_t \<Rightarrow> bytes \<Rightarrow> nat \<Rightarrow> nat \<Rightarrow> on9log_state \<Rightarrow> on9log_state" where
  "on9log_stream_payload stream payload total_arg_cnt curr_arg_index st =
     (if payload = [] then st
      else observe (map (\<lambda>s. PayloadCb s payload total_arg_cnt curr_arg_index) stream) st)"

definition on9log_stream_end :: "on9log_stream_t \<Rightarrow> on9log_state \<Rightarrow> on9log_state" where
  "on9log_stream_end stream st = on9log_port_emit_unlock (observe (map EndCb stream) st)"

definition on9log_emit_encoder ::
    "on9log_stream_t \<Rightarrow> on9log_encoder \<Rightarrow> nat \<Rightarrow> nat \<Rightarrow> on9log_state \<Rightarrow> on9log_state" where
  "on9log_emit_encoder stream enc total_arg_cnt curr_arg_index st =
     (if \<not> enc_overflow enc
      then on9log_stream_payload stream (take (enc_len enc) (enc_data enc)) total_arg_cnt curr_arg_index st
      else st)"

definition on9log_emit_u8 ::
    "on9log_stream_t \<Rightarrow> u8 \<Rightarrow> nat \<Rightarrow> nat \<Rightarrow> on9log_state \<Rightarrow> on9log_state" where
  "on9log_emit_u8 stream val total_arg_cnt curr_arg_index st =
     on9log_stream_payload stream [val] total_arg_cnt curr_arg_index st"

text \<open>The local \<open>data\<close> arrays start uninitialised; every byte of them is written before use.\<close>

definition on9log_emit_u32 ::
    "on9log_stream_t \<Rightarrow> u32 \<Rightarrow> nat \<Rightarrow> nat \<Rightarrow> on9log_state \<Rightarrow> on9log_state" where
  "on9log_emit_u32 stream val total_arg_cnt curr_arg_index st =
     on9log_emit_encoder stream (on9log_put_u32 (enc_init 4 (replicate 4 0)) val)
       total_arg_cnt curr_arg_index st"

definition on9log_emit_u64 ::
    "on9log_stream_t \<Rightarrow> u64 \<Rightarrow> nat \<Rightarrow> nat \<Rightarrow> on9log_state \<Rightarrow> on9log_state" where
  "on9log_emit_u64 stream val total_arg_cnt curr_arg_index st =
     on9log_emit_encoder stream (on9log_put_u64 (enc_init 8 (replicate 8 0)) val)
       total_arg_cnt curr_arg_index st"

definition on9log_emit_string_bytes ::
    "mem \<Rightarrow> on9log_stream_t \<Rightarrow> addr \<Rightarrow> nat \<Rightarrow> nat \<Rightarrow> nat \<Rightarrow> on9log_state \<Rightarrow> on9log_state option" where
  "on9log_emit_string_bytes m stream str str_len total_arg_cnt curr_arg_index st =
     (let st = on9log_emit_u32 stream (word_of_nat str_len) total_arg_cnt curr_arg_index st
      in if str_len \<noteq> 0
         then do { bs \<leftarrow> rd_bytes m str str_len;
                   Some (on9log_stream_payload stream bs total_arg_cnt curr_arg_index st) }
         else Some st)"

text \<open>
  The clock is read after the lock is taken, so timestamps follow the order of the packets.
  \<open>on9log_encode_header\<close> writes into the local 18-byte array.
\<close>

definition on9log_emit_header ::
    "on9log_env \<Rightarrow> on9log_packet_type_t \<Rightarrow> on9log_level_t \<Rightarrow> u32 \<Rightarrow> u32 \<Rightarrow> u16 \<Rightarrow> on9log_state \<Rightarrow>
       on9log_stream_t \<times> on9log_state" where
  "on9log_emit_header env type level tag_id fmt_id payload_len st =
     (let (stream, st) = on9log_stream_open st;
          seq = s_seq st;
          st = st\<lparr>s_seq := s_seq st + 1\<rparr>;
          (time_ms, st) = read_clock env st;
          (ok, header) = on9log_encode_header (replicate HEADER_SIZE 0)
                           type level seq time_ms tag_id fmt_id payload_len
      in (stream, on9log_stream_send_header stream (Some header) st))"

section \<open>What a stream operation emits\<close>

text \<open>\<open>chunks_events\<close>: every chunk goes to every sink in slot order before the next chunk.\<close>

type_synonym chunk = "bytes \<times> nat \<times> nat"

definition chunks_events :: "on9log_stream_t \<Rightarrow> chunk list \<Rightarrow> event list" where
  "chunks_events stream chunks =
     concat (map (\<lambda>(p, n, i). if p = [] then [] else map (\<lambda>s. PayloadCb s p n i) stream) chunks)"

definition chunks_bytes :: "chunk list \<Rightarrow> bytes" where
  "chunks_bytes chunks = concat (map fst chunks)"

text \<open>A whole packet: lock, header to every sink, chunks, end to every sink, unlock.\<close>

definition session :: "on9log_stream_t \<Rightarrow> bytes option \<Rightarrow> chunk list \<Rightarrow> event list" where
  "session stream header chunks =
     EmitLock # map (\<lambda>s. StartCb s header) stream @ chunks_events stream chunks
       @ map EndCb stream @ [EmitUnlock]"

lemma chunks_events_simps [simp]:
  "chunks_events stream [] = []"
  "chunks_events stream (xs @ ys) = chunks_events stream xs @ chunks_events stream ys"
  by (simp_all add: chunks_events_def)

lemma chunks_bytes_simps [simp]:
  "chunks_bytes [] = []"
  "chunks_bytes (c # cs) = fst c @ chunks_bytes cs"
  "chunks_bytes (xs @ ys) = chunks_bytes xs @ chunks_bytes ys"
  by (simp_all add: chunks_bytes_def)

lemma stream_payload_events [stream_simps]:
  "on9log_stream_payload stream p n i st = observe (chunks_events stream [(p, n, i)]) st"
  by (simp add: on9log_stream_payload_def chunks_events_def)

lemma emit_encoder_appends:
  assumes "cap \<le> length buf" and "enc_appends (enc_init cap buf) bs enc" and "length bs \<le> cap"
  shows "on9log_emit_encoder stream enc n i st = observe (chunks_events stream [(bs, n, i)]) st"
proof -
  have "\<not> enc_overflow enc" and "take (enc_len enc) (enc_data enc) = bs"
    using enc_init_appends [OF assms(1,2)] assms(3) by (auto simp: enc_out_def)
  then show ?thesis by (simp only: on9log_emit_encoder_def stream_payload_events) simp
qed

lemma emit_u8_events [stream_simps]:
  "on9log_emit_u8 stream v n i st = observe (chunks_events stream [([v], n, i)]) st"
  by (simp add: on9log_emit_u8_def stream_payload_events)

lemma emit_u32_events [stream_simps]:
  "on9log_emit_u32 stream v n i st = observe (chunks_events stream [(le_bytes 4 (unat v), n, i)]) st"
  unfolding on9log_emit_u32_def
  by (rule emit_encoder_appends [OF _ put_u32_appends [OF enc_init_ok]]) simp_all

lemma emit_u64_events [stream_simps]:
  "on9log_emit_u64 stream v n i st = observe (chunks_events stream [(le_bytes 8 (unat v), n, i)]) st"
  unfolding on9log_emit_u64_def
  by (rule emit_encoder_appends [OF _ put_u64_appends [OF enc_init_ok]]) simp_all

definition string_chunks :: "nat \<Rightarrow> bytes \<Rightarrow> nat \<Rightarrow> nat \<Rightarrow> chunk list" where
  "string_chunks len bs n i = [(le_bytes 4 len, n, i), (bs, n, i)]"

lemma string_chunks_bytes [simp]: "chunks_bytes (string_chunks len bs n i) = le_bytes 4 len @ bs"
  by (simp add: string_chunks_def)

lemma unat_word_of_nat_u32: "len < 4294967296 \<Longrightarrow> unat (word_of_nat len :: u32) = len"
  by (simp add: unat_of_nat)

lemma emit_string_bytes_events:
  assumes "rd_bytes m str len = Some bs" and "len < 4294967296"
  shows "on9log_emit_string_bytes m stream str len n i st =
           Some (observe (chunks_events stream (string_chunks len bs n i)) st)"
proof -
  have "bs = [] \<longleftrightarrow> len = 0" using length_rd_bytes [OF assms(1)] by auto
  then show ?thesis
    using assms chunks_events_simps(2) [of stream "[(le_bytes 4 len, n, i)]" "[(bs, n, i)]"]
    by (auto simp: on9log_emit_string_bytes_def Let_def stream_simps unat_word_of_nat_u32
          string_chunks_def chunks_events_def)
qed

lemma emit_header_events [stream_simps]:
  "on9log_emit_header env type level tag_id fmt_id payload_len st =
     (capture_sinks (s_sinks st),
      observe (EmitLock # map (\<lambda>s. StartCb s (Some (header_bytes type level (s_seq st)
                 (port_timestamp_ms env (st_clock st)) tag_id fmt_id payload_len)))
                 (capture_sinks (s_sinks st)))
        (st\<lparr>s_seq := s_seq st + 1, st_clock := Suc (st_clock st)\<rparr>))"
  by (simp add: on9log_emit_header_def on9log_stream_open_def on9log_port_emit_lock_def Let_def
      read_clock_def encode_header_correct on9log_stream_send_header_def observe_def)

lemma stream_end_events [stream_simps]:
  "on9log_stream_end stream st = observe (map EndCb stream @ [EmitUnlock]) st"
  by (simp add: on9log_stream_end_def on9log_port_emit_unlock_def)

section \<open>What one sink receives\<close>

text \<open>
  The packets one sink has been given, and the packet it is in the middle of, if any.
  \<open>sink_step\<close> follows the contract of \<^verbatim>\<open>on9log_sink_t\<close>: \<open>start_cb\<close> opens a packet,
  \<open>payload_cb\<close> extends it, \<open>end_cb\<close> completes it.
\<close>

type_synonym packet = "bytes option \<times> bytes"
type_synonym sink_view = "packet option \<times> packet list"

fun sink_step :: "on9log_sink_entry \<Rightarrow> event \<Rightarrow> sink_view \<Rightarrow> sink_view" where
  "sink_step s (StartCb t h) (cur, out) = (if t = s then (Some (h, []), out) else (cur, out))"
| "sink_step s (PayloadCb t p n i) (cur, out) =
     (if t = s then (map_option (\<lambda>(h, b). (h, b @ p)) cur, out) else (cur, out))"
| "sink_step s (EndCb t) (cur, out) =
     (if t = s then (None, out @ (case cur of None \<Rightarrow> [] | Some p \<Rightarrow> [p])) else (cur, out))"
| "sink_step s _ v = v"

definition sink_run :: "on9log_sink_entry \<Rightarrow> event list \<Rightarrow> sink_view \<Rightarrow> sink_view" where
  "sink_run s evs v = fold (sink_step s) evs v"

definition sink_packets :: "on9log_sink_entry \<Rightarrow> event list \<Rightarrow> packet list" where
  "sink_packets s evs = snd (sink_run s evs (None, []))"

text \<open>No packet is left open towards \<open>s\<close>.\<close>

definition sink_idle :: "on9log_sink_entry \<Rightarrow> event list \<Rightarrow> bool" where
  "sink_idle s evs \<longleftrightarrow> fst (sink_run s evs (None, [])) = None"

lemma sink_run_Nil [simp]: "sink_run s [] v = v"
  by (simp add: sink_run_def)

lemma sink_run_append: "sink_run s (a @ b) v = sink_run s b (sink_run s a v)"
  by (simp add: sink_run_def)

lemma sink_run_Cons: "sink_run s (e # es) v = sink_run s es (sink_step s e v)"
  by (simp add: sink_run_def)

lemma sink_run_starts:
  "sink_run s (map (\<lambda>t. StartCb t h) ts) (cur, out) =
     (if s \<in> set ts then Some (h, []) else cur, out)"
  by (induction ts arbitrary: cur) (auto simp: sink_run_Cons)

lemma sink_run_payloads_other:
  "s \<notin> set ts \<Longrightarrow> sink_run s (map (\<lambda>t. PayloadCb t p n i) ts) v = v"
  by (induction ts arbitrary: v) (auto simp: sink_run_Cons)

lemma sink_run_payloads:
  "distinct ts \<Longrightarrow> s \<in> set ts \<Longrightarrow>
     sink_run s (map (\<lambda>t. PayloadCb t p n i) ts) (Some (h, b), out) = (Some (h, b @ p), out)"
proof (induction ts)
  case Nil
  then show ?case by simp
next
  case (Cons t ts)
  then show ?case by (cases "t = s") (auto simp: sink_run_Cons sink_run_payloads_other)
qed

lemma sink_run_chunks:
  assumes "distinct ts" and "s \<in> set ts"
  shows "sink_run s (chunks_events ts cs) (Some (h, b), out) = (Some (h, b @ chunks_bytes cs), out)"
proof (induction cs arbitrary: b)
  case Nil
  then show ?case by simp
next
  case (Cons c cs)
  obtain p n i where c: "c = (p, n, i)" by (cases c)
  show ?case using Cons sink_run_payloads [OF assms]
    by (cases "p = []") (simp_all add: c chunks_events_def sink_run_append)
qed

lemma sink_run_chunks_other:
  "s \<notin> set ts \<Longrightarrow> sink_run s (chunks_events ts cs) v = v"
proof (induction cs arbitrary: v)
  case Nil
  then show ?case by simp
next
  case (Cons c cs)
  then show ?case
    by (cases c) (auto simp: chunks_events_def sink_run_append sink_run_payloads_other)
qed

lemma sink_run_ends_other: "s \<notin> set ts \<Longrightarrow> sink_run s (map EndCb ts) v = v"
  by (induction ts arbitrary: v) (auto simp: sink_run_Cons)

lemma sink_run_ends:
  "distinct ts \<Longrightarrow> s \<in> set ts \<Longrightarrow> sink_run s (map EndCb ts) (Some p, out) = (None, out @ [p])"
proof (induction ts)
  case Nil
  then show ?case by simp
next
  case (Cons t ts)
  then show ?case by (cases "t = s") (auto simp: sink_run_Cons sink_run_ends_other)
qed

lemma sink_run_session:
  assumes "distinct ts"
  shows "sink_run s (session ts h cs) (None, out) =
           (None, out @ (if s \<in> set ts then [(h, chunks_bytes cs)] else []))"
proof (cases "s \<in> set ts")
  case True
  then show ?thesis using assms
    by (simp add: session_def sink_run_Cons sink_run_append sink_run_starts sink_run_chunks sink_run_ends)
next
  case False
  then show ?thesis
    by (simp add: session_def sink_run_Cons sink_run_append sink_run_starts sink_run_chunks_other
        sink_run_ends_other)
qed

lemma sink_packets_session:
  assumes "distinct ts" and "sink_idle s evs"
  shows "sink_packets s (evs @ session ts h cs) =
           sink_packets s evs @ (if s \<in> set ts then [(h, chunks_bytes cs)] else [])"
    and "sink_idle s (evs @ session ts h cs)"
proof -
  obtain out where out: "sink_run s evs (None, []) = (None, out)"
    using assms(2) by (metis prod.collapse sink_idle_def)
  then show "sink_packets s (evs @ session ts h cs) =
      sink_packets s evs @ (if s \<in> set ts then [(h, chunks_bytes cs)] else [])"
    and "sink_idle s (evs @ session ts h cs)"
    using sink_run_session [OF assms(1)]
    by (simp_all add: sink_packets_def sink_idle_def sink_run_append)
qed

lemma sink_idle_Nil [simp]: "sink_idle s []"
  by (simp add: sink_idle_def)

end
