(* ===== verification/Sinks.thy ===== *)
theory Sinks
  imports LogStream "HOL-Library.Multiset"
begin

text \<open>
  The global sink table of \<^verbatim>\<open>on9log.c\<close>: \<open>on9log_find_sink\<close>, \<open>on9log_add_sink\<close> and
  \<open>on9log_remove_sink\<close>. The table is the field \<open>s_sinks\<close>, a list of \<open>ON9LOG_MAX_SINKS\<close> slots;
  a slot with a NULL sink is free. The locale \<open>sink_registry\<close> states what a registry of at
  most \<open>capacity\<close> members promises; the table is its interpretation \<open>sink_table\<close>.
\<close>

section \<open>The code\<close>

text \<open>What a sink descriptor pointer points to: three callback pointers.\<close>

record on9log_sink_desc =
  start_cb :: addr
  payload_cb :: addr
  end_cb :: addr

primrec find_sink_from :: "nat \<Rightarrow> on9log_sink_entry list \<Rightarrow> addr \<Rightarrow> addr \<Rightarrow> nat option" where
  "find_sink_from i [] sink ctx = None"
| "find_sink_from i (e # es) sink ctx =
     (if se_sink e = sink \<and> se_ctx e = ctx then Some i else find_sink_from (Suc i) es sink ctx)"

definition on9log_find_sink :: "on9log_sink_entry list \<Rightarrow> addr \<Rightarrow> addr \<Rightarrow> nat option" where
  "on9log_find_sink sinks sink ctx = find_sink_from 0 sinks sink ctx"

definition on9log_add_sink ::
    "(addr \<Rightarrow> on9log_sink_desc) \<Rightarrow> addr \<Rightarrow> addr \<Rightarrow> on9log_state \<Rightarrow> on9log_err_t \<times> on9log_state" where
  "on9log_add_sink desc sink ctx st =
     (if sink = NULL \<or> start_cb (desc sink) = NULL \<or> payload_cb (desc sink) = NULL \<or>
         end_cb (desc sink) = NULL
      then (ON9LOG_ERR_INVALID_ARG, st)
      else
        (let st = on9log_port_emit_lock st;
             (result, st) =
               (case on9log_find_sink (s_sinks st) sink ctx of
                  Some _ \<Rightarrow> (ON9LOG_OK, st)
                | None \<Rightarrow>
                    (case on9log_find_sink (s_sinks st) NULL NULL of
                       Some slot \<Rightarrow>
                         (ON9LOG_OK,
                          st\<lparr>s_sinks := (s_sinks st)[slot := \<lparr>se_sink = sink, se_ctx = ctx\<rparr>]\<rparr>)
                     | None \<Rightarrow> (ON9LOG_ERR_NO_MEM, st)))
         in (result, on9log_port_emit_unlock st)))"

definition on9log_remove_sink ::
    "addr \<Rightarrow> addr \<Rightarrow> on9log_state \<Rightarrow> on9log_err_t \<times> on9log_state" where
  "on9log_remove_sink sink ctx st =
     (if sink = NULL then (ON9LOG_ERR_NOT_FOUND, st)
      else
        (let st = on9log_port_emit_lock st;
             (result, st) =
               (case on9log_find_sink (s_sinks st) sink ctx of
                  Some slot \<Rightarrow>
                    (ON9LOG_OK,
                     st\<lparr>s_sinks := (s_sinks st)[slot := \<lparr>se_sink = NULL, se_ctx = NULL\<rparr>]\<rparr>)
                | None \<Rightarrow> (ON9LOG_ERR_NOT_FOUND, st))
         in (result, on9log_port_emit_unlock st)))"

section \<open>What a registry promises\<close>

datatype 'k registry_op = Add 'k | Remove 'k

locale sink_registry =
  fixes add :: "'k \<Rightarrow> 's \<Rightarrow> on9log_err_t \<times> 's"
    and remove :: "'k \<Rightarrow> 's \<Rightarrow> on9log_err_t \<times> 's"
    and valid :: "'k \<Rightarrow> bool"
    and members :: "'s \<Rightarrow> 'k set"
    and capacity :: "'s \<Rightarrow> nat"
    and inv :: "'s \<Rightarrow> bool"
  assumes add_inv: "inv s \<Longrightarrow> inv (snd (add k s))"
    and remove_inv: "inv s \<Longrightarrow> inv (snd (remove k s))"
    and add_capacity: "capacity (snd (add k s)) = capacity s"
    and remove_capacity: "capacity (snd (remove k s)) = capacity s"
    and add_invalid: "\<not> valid k \<Longrightarrow> add k s = (ON9LOG_ERR_INVALID_ARG, s)"
    and add_valid: "inv s \<Longrightarrow> valid k \<Longrightarrow>
      (if k \<in> members s \<or> card (members s) < capacity s
       then fst (add k s) = ON9LOG_OK \<and> members (snd (add k s)) = insert k (members s)
       else fst (add k s) = ON9LOG_ERR_NO_MEM \<and> members (snd (add k s)) = members s)"
    and remove_result: "inv s \<Longrightarrow>
      fst (remove k s) = (if k \<in> members s then ON9LOG_OK else ON9LOG_ERR_NOT_FOUND)"
    and remove_members: "inv s \<Longrightarrow> members (snd (remove k s)) = members s - {k}"
    and members_bounded: "inv s \<Longrightarrow> finite (members s) \<and> card (members s) \<le> capacity s"
begin

primrec apply_op :: "'k registry_op \<Rightarrow> 's \<Rightarrow> 's" where
  "apply_op (Add k) s = snd (add k s)"
| "apply_op (Remove k) s = snd (remove k s)"

definition run_ops :: "'k registry_op list \<Rightarrow> 's \<Rightarrow> 's" where
  "run_ops ops s = fold apply_op ops s"

lemma apply_op_inv: "inv s \<Longrightarrow> inv (apply_op op s)"
  by (cases op) (auto intro: add_inv remove_inv)

lemma apply_op_capacity: "capacity (apply_op op s) = capacity s"
  by (cases op) (auto simp: add_capacity remove_capacity)

lemma run_ops_inv: "inv s \<Longrightarrow> inv (run_ops ops s)"
  unfolding run_ops_def by (induction ops arbitrary: s) (auto intro: apply_op_inv)

lemma run_ops_capacity: "capacity (run_ops ops s) = capacity s"
  unfolding run_ops_def by (induction ops arbitrary: s) (auto simp: apply_op_capacity)

lemma run_ops_bounded: "inv s \<Longrightarrow> card (members (run_ops ops s)) \<le> capacity s"
  using members_bounded [OF run_ops_inv] run_ops_capacity by metis

lemma apply_op_keeps:
  assumes "inv s" and "k \<in> members s" and "op \<noteq> Remove k"
  shows "k \<in> members (apply_op op s)"
proof (cases op)
  case (Add j)
  show ?thesis
  proof (cases "valid j")
    case True
    then show ?thesis using add_valid [OF assms(1) True] assms(2) Add by (auto split: if_splits)
  next
    case False
    then show ?thesis using add_invalid [OF False] assms(2) Add by simp
  qed
next
  case (Remove j)
  then show ?thesis using assms remove_members [OF assms(1), of j] by auto
qed

text \<open>A member stays a member until its own removal.\<close>

lemma run_ops_keeps:
  "inv s \<Longrightarrow> k \<in> members s \<Longrightarrow> Remove k \<notin> set ops \<Longrightarrow> k \<in> members (run_ops ops s)"
  unfolding run_ops_def
proof (induction ops arbitrary: s)
  case Nil
  then show ?case by simp
next
  case (Cons op ops)
  then show ?case using apply_op_keeps [of s k op] apply_op_inv by auto
qed

lemma apply_op_absent:
  assumes "inv s" and "k \<notin> members s" and "op \<noteq> Add k"
  shows "k \<notin> members (apply_op op s)"
proof (cases op)
  case (Add j)
  show ?thesis
  proof (cases "valid j")
    case True
    then show ?thesis using add_valid [OF assms(1) True] assms(2,3) Add by (auto split: if_splits)
  next
    case False
    then show ?thesis using add_invalid [OF False] assms(2) Add by simp
  qed
next
  case (Remove j)
  then show ?thesis using assms remove_members [OF assms(1), of j] by auto
qed

lemma run_ops_absent:
  "inv s \<Longrightarrow> k \<notin> members s \<Longrightarrow> Add k \<notin> set ops \<Longrightarrow> k \<notin> members (run_ops ops s)"
  unfolding run_ops_def
proof (induction ops arbitrary: s)
  case Nil
  then show ?case by simp
next
  case (Cons op ops)
  then show ?case using apply_op_absent [of s k op] apply_op_inv by auto
qed

end

section \<open>The table as a registry\<close>

definition registered :: "on9log_state \<Rightarrow> on9log_sink_entry list" where
  "registered st = capture_sinks (s_sinks st)"

text \<open>A free slot is wholly NULL, and no sink sits in two slots.\<close>

definition slot_ok :: "on9log_sink_entry \<Rightarrow> bool" where
  "slot_ok e \<longleftrightarrow> (se_sink e = NULL \<longrightarrow> se_ctx e = NULL)"

definition sinks_ok :: "on9log_state \<Rightarrow> bool" where
  "sinks_ok st \<longleftrightarrow> list_all slot_ok (s_sinks st) \<and> distinct (registered st)"

definition sink_valid :: "(addr \<Rightarrow> on9log_sink_desc) \<Rightarrow> on9log_sink_entry \<Rightarrow> bool" where
  "sink_valid desc e \<longleftrightarrow>
     se_sink e \<noteq> NULL \<and> start_cb (desc (se_sink e)) \<noteq> NULL \<and>
     payload_cb (desc (se_sink e)) \<noteq> NULL \<and> end_cb (desc (se_sink e)) \<noteq> NULL"

lemma capture_sinks_filter: "capture_sinks es = filter (\<lambda>e. se_sink e \<noteq> NULL) es"
  by (induction es) auto

lemma find_sink_from_SomeD:
  "find_sink_from i es sink ctx = Some j \<Longrightarrow>
     i \<le> j \<and> j - i < length es \<and> se_sink (es ! (j - i)) = sink \<and> se_ctx (es ! (j - i)) = ctx"
proof (induction es arbitrary: i)
  case Nil
  then show ?case by simp
next
  case (Cons e es)
  then show ?case by (fastforce split: if_splits simp: nth_Cons' Suc_le_eq)
qed

lemma find_sink_from_None:
  "find_sink_from i es sink ctx = None \<longleftrightarrow> (\<forall>e \<in> set es. se_sink e = sink \<longrightarrow> se_ctx e \<noteq> ctx)"
  by (induction es arbitrary: i) auto

lemma entry_eq_iff: "(e :: on9log_sink_entry) = \<lparr>se_sink = s, se_ctx = c\<rparr> \<longleftrightarrow> se_sink e = s \<and> se_ctx e = c"
  by (cases e) auto

lemma entry_eta [simp]: "\<lparr>se_sink = se_sink e, se_ctx = se_ctx e\<rparr> = e"
  by simp

lemma find_sink_Some:
  "on9log_find_sink es sink ctx = Some j \<Longrightarrow> j < length es \<and> es ! j = \<lparr>se_sink = sink, se_ctx = ctx\<rparr>"
  using find_sink_from_SomeD [of 0 es sink ctx j] by (simp add: on9log_find_sink_def entry_eq_iff)

lemma find_sink_None:
  "on9log_find_sink es sink ctx = None \<longleftrightarrow> \<lparr>se_sink = sink, se_ctx = ctx\<rparr> \<notin> set es"
  by (auto simp: on9log_find_sink_def find_sink_from_None entry_eq_iff)

lemma registered_set: "set (registered st) = {e \<in> set (s_sinks st). se_sink e \<noteq> NULL}"
  by (auto simp: registered_def capture_sinks_filter)

text \<open>Filling a free slot, and freeing a filled one, in terms of the registered entries.\<close>

lemma update_split: "j < length xs \<Longrightarrow> xs[j := x] = take j xs @ x # drop (Suc j) xs"
  by (rule upd_conv_take_nth_drop)

lemma id_split: "j < length xs \<Longrightarrow> xs = take j xs @ xs ! j # drop (Suc j) xs"
  by (rule id_take_nth_drop)

lemma fill_slot:
  assumes "j < length es" and "se_sink (es ! j) = NULL" and "se_sink e \<noteq> NULL"
  shows "mset (capture_sinks (es[j := e])) = add_mset e (mset (capture_sinks es))"
  using assms arg_cong [OF id_split [OF assms(1)], of "filter (\<lambda>e. se_sink e \<noteq> NULL)"]
  by (simp add: capture_sinks_filter update_split)

lemma free_slot:
  assumes "j < length es" and "se_sink (es ! j) \<noteq> NULL" and "se_sink e = NULL"
  shows "add_mset (es ! j) (mset (capture_sinks (es[j := e]))) = mset (capture_sinks es)"
  using assms arg_cong [OF id_split [OF assms(1)], of "filter (\<lambda>e. se_sink e \<noteq> NULL)"]
  by (simp add: capture_sinks_filter update_split)

lemma capture_length: "length (capture_sinks es) \<le> length es"
  by (simp add: capture_sinks_filter)

lemma length_filter_full: "length (filter P xs) = length xs \<longleftrightarrow> (\<forall>x \<in> set xs. P x)"
proof (induction xs)
  case Nil
  then show ?case by simp
next
  case (Cons x xs)
  then show ?case using length_filter_le [of P xs] by (cases "P x") (auto simp del: length_filter_le)
qed

lemma free_slot_NULL:
  assumes "list_all slot_ok es"
  shows "on9log_find_sink es NULL NULL = None \<longleftrightarrow> length (capture_sinks es) = length es"
proof -
  have "(\<lparr>se_sink = NULL, se_ctx = NULL\<rparr> \<in> set es) \<longleftrightarrow> (\<exists>e \<in> set es. se_sink e = NULL)"
  proof
    assume "\<exists>e \<in> set es. se_sink e = NULL"
    then obtain e where e: "e \<in> set es" "se_sink e = NULL" by blast
    with assms have "e = \<lparr>se_sink = NULL, se_ctx = NULL\<rparr>"
      by (simp add: entry_eq_iff slot_ok_def list_all_iff)
    with e(1) show "\<lparr>se_sink = NULL, se_ctx = NULL\<rparr> \<in> set es" by simp
  qed (rule bexI, simp_all)
  then show ?thesis by (simp add: find_sink_None capture_sinks_filter length_filter_full)
qed

text \<open>The two operations on a well-formed table, as registry steps.\<close>

lemma set_mset_capture: "mset (capture_sinks es) = add_mset e (mset (capture_sinks es')) \<Longrightarrow>
    set (capture_sinks es) = insert e (set (capture_sinks es')) \<and>
    (distinct (capture_sinks es') \<and> e \<notin> set (capture_sinks es') \<longrightarrow> distinct (capture_sinks es)) \<and>
    (distinct (capture_sinks es) \<longrightarrow> distinct (capture_sinks es') \<and> e \<notin> set (capture_sinks es'))"
  using mset_eq_imp_distinct_iff [of "capture_sinks es" "e # capture_sinks es'"]
    mset_eq_setD [of "capture_sinks es" "e # capture_sinks es'"]
  by simp

lemma add_sink_cases:
  assumes "sinks_ok st" and "sink_valid desc e"
  shows "on9log_add_sink desc (se_sink e) (se_ctx e) st =
     (if e \<in> set (registered st) then (ON9LOG_OK, observe [EmitLock, EmitUnlock] st)
      else if length (registered st) = length (s_sinks st)
      then (ON9LOG_ERR_NO_MEM, observe [EmitLock, EmitUnlock] st)
      else (ON9LOG_OK, observe [EmitLock, EmitUnlock] (st\<lparr>s_sinks :=
              (s_sinks st)[the (on9log_find_sink (s_sinks st) NULL NULL) := e]\<rparr>)))"
proof -
  have mem: "on9log_find_sink (s_sinks st) (se_sink e) (se_ctx e) = None \<longleftrightarrow> e \<notin> set (registered st)"
    using assms(2) by (auto simp: find_sink_None registered_set sink_valid_def)
  have full: "on9log_find_sink (s_sinks st) NULL NULL = None \<longleftrightarrow>
      length (registered st) = length (s_sinks st)"
    unfolding registered_def by (rule free_slot_NULL) (use assms(1) in \<open>simp add: sinks_ok_def\<close>)
  have e: "\<lparr>se_sink = se_sink e, se_ctx = se_ctx e\<rparr> = e" by simp
  show ?thesis using assms(2) mem full
    by (auto simp: on9log_add_sink_def sink_valid_def Let_def on9log_port_emit_lock_def
        on9log_port_emit_unlock_def observe_def e split: option.splits)
qed

lemma remove_sink_cases:
  "on9log_remove_sink (se_sink e) (se_ctx e) st =
     (if se_sink e = NULL then (ON9LOG_ERR_NOT_FOUND, st)
      else if e \<in> set (registered st)
      then (ON9LOG_OK, observe [EmitLock, EmitUnlock] (st\<lparr>s_sinks :=
              (s_sinks st)[the (on9log_find_sink (s_sinks st) (se_sink e) (se_ctx e)) :=
                \<lparr>se_sink = NULL, se_ctx = NULL\<rparr>]\<rparr>))
      else (ON9LOG_ERR_NOT_FOUND, observe [EmitLock, EmitUnlock] st))"
proof -
  have mem: "on9log_find_sink (s_sinks st) (se_sink e) (se_ctx e) = None \<longleftrightarrow> e \<notin> set (registered st)"
    if "se_sink e \<noteq> NULL"
    using that by (auto simp: find_sink_None registered_set)
  show ?thesis
  proof (cases "se_sink e = NULL")
    case False
    then show ?thesis using mem
      by (auto simp: on9log_remove_sink_def Let_def on9log_port_emit_lock_def
          on9log_port_emit_unlock_def observe_def split: option.splits)
  qed (simp add: on9log_remove_sink_def)
qed

lemma add_slot_facts:
  assumes "sinks_ok st" and "sink_valid desc e" and "e \<notin> set (registered st)"
    and "length (registered st) \<noteq> length (s_sinks st)"
    and "st' = observe evs (st\<lparr>s_sinks := (s_sinks st)[the (on9log_find_sink (s_sinks st) NULL NULL) := e]\<rparr>)"
  shows "sinks_ok st' \<and> set (registered st') = insert e (set (registered st))"
proof -
  have "on9log_find_sink (s_sinks st) NULL NULL \<noteq> None"
    using assms(1,4) free_slot_NULL [of "s_sinks st"] by (simp add: sinks_ok_def registered_def)
  then obtain j where j: "on9log_find_sink (s_sinks st) NULL NULL = Some j" by blast
  from find_sink_Some [OF j] have "j < length (s_sinks st)" "se_sink (s_sinks st ! j) = NULL"
    by simp_all
  then have m: "mset (registered st') = add_mset e (mset (registered st))"
    using assms(2,5) j by (simp add: registered_def fill_slot sink_valid_def)
  have "list_all slot_ok (s_sinks st')"
    using assms(1,2) by (simp add: assms(5) sinks_ok_def sink_valid_def list_all_update slot_ok_def)
  then show ?thesis using set_mset_capture [OF m [unfolded registered_def]] assms(1,3)
    unfolding sinks_ok_def registered_def by blast
qed

lemma remove_slot_facts:
  assumes "sinks_ok st" and "se_sink e \<noteq> NULL" and "e \<in> set (registered st)"
    and "st' = observe evs (st\<lparr>s_sinks := (s_sinks st)[the (on9log_find_sink (s_sinks st)
                 (se_sink e) (se_ctx e)) := \<lparr>se_sink = NULL, se_ctx = NULL\<rparr>]\<rparr>)"
  shows "sinks_ok st' \<and> set (registered st') = set (registered st) - {e}"
proof -
  obtain j where j: "on9log_find_sink (s_sinks st) (se_sink e) (se_ctx e) = Some j"
    using assms(2,3) find_sink_None [of "s_sinks st" "se_sink e" "se_ctx e"]
    by (auto simp: registered_set)
  from find_sink_Some [OF j] have j': "j < length (s_sinks st)" "s_sinks st ! j = e" by auto
  then have m: "mset (registered st) = add_mset e (mset (registered st'))"
    using assms(2,4) j free_slot [of j "s_sinks st"] by (simp add: registered_def)
  have "list_all slot_ok (s_sinks st')"
    using assms(1) by (simp add: assms(4) sinks_ok_def list_all_update slot_ok_def)
  then show ?thesis using set_mset_capture [OF m [unfolded registered_def]] assms(1)
    unfolding sinks_ok_def registered_def by blast
qed

lemma observe_registered [simp]: "registered (observe evs st) = registered st"
  by (simp add: registered_def)

lemma observe_sinks_ok [simp]: "sinks_ok (observe evs st) = sinks_ok st"
  by (simp add: sinks_ok_def)

interpretation sink_table: sink_registry
  "\<lambda>e. on9log_add_sink desc (se_sink e) (se_ctx e)"
  "\<lambda>e. on9log_remove_sink (se_sink e) (se_ctx e)"
  "sink_valid desc"
  "\<lambda>st. set (registered st)"
  "\<lambda>st. length (s_sinks st)"
  sinks_ok
  for desc
proof (unfold_locales, goal_cases)
  case (1 st e)
  show ?case
  proof (cases "sink_valid desc e")
    case True
    then show ?thesis using 1 add_slot_facts [OF 1 True] by (auto simp: add_sink_cases)
  next
    case False
    then have "on9log_add_sink desc (se_sink e) (se_ctx e) st = (ON9LOG_ERR_INVALID_ARG, st)"
      by (auto simp: sink_valid_def on9log_add_sink_def)
    then show ?thesis using 1 by simp
  qed
next
  case (2 st e)
  then show ?case using remove_slot_facts [OF 2, of e] by (simp add: remove_sink_cases)
next
  case (3 e st)
  show ?case by (auto simp: on9log_add_sink_def Let_def on9log_port_emit_lock_def
        on9log_port_emit_unlock_def split: option.splits)
next
  case (4 e st)
  show ?case by (auto simp: on9log_remove_sink_def Let_def on9log_port_emit_lock_def
        on9log_port_emit_unlock_def split: option.splits)
next
  case (5 e st)
  then show ?case by (auto simp: sink_valid_def on9log_add_sink_def)
next
  case (6 st e)
  have card: "card (set (registered st)) = length (registered st)"
    using 6 by (simp add: sinks_ok_def distinct_card)
  have "length (registered st) \<le> length (s_sinks st)"
    by (simp add: registered_def capture_length)
  then show ?case using 6 add_slot_facts [OF 6] by (auto simp: add_sink_cases card insert_absorb)
next
  case (7 st e)
  then show ?case by (auto simp: remove_sink_cases registered_set)
next
  case (8 st e)
  then show ?case using remove_slot_facts [OF 8, of e] by (auto simp: remove_sink_cases registered_set)
next
  case (9 st)
  then show ?case by (simp add: sinks_ok_def distinct_card registered_def capture_length)
qed

lemma sinks_ok_initial: "sinks_ok (on9log_initial_state env)"
  by (simp add: sinks_ok_def slot_ok_def registered_def capture_sinks_filter on9log_initial_state_def
      list_all_iff)

section \<open>Properties of the sink table\<close>

primrec sink_op ::
    "(addr \<Rightarrow> on9log_sink_desc) \<Rightarrow> on9log_sink_entry registry_op \<Rightarrow> on9log_state \<Rightarrow> on9log_state" where
  "sink_op desc (Add e) st = snd (on9log_add_sink desc (se_sink e) (se_ctx e) st)"
| "sink_op desc (Remove e) st = snd (on9log_remove_sink (se_sink e) (se_ctx e) st)"

lemma sink_op_apply: "sink_op desc = sink_table.apply_op desc"
proof (intro ext)
  fix op st show "sink_op desc op st = sink_table.apply_op desc op st" by (cases op) simp_all
qed

text \<open>Also: Adding a sink: a descriptor without all three callbacks (or NULL) is refused; otherwise the call
  succeeds exactly when the pair is registered already or a slot is free. Success means that just this
  pair has joined, failure that nothing has changed, and the table stays well formed either way (no pair
  twice, free slots wholly NULL).\<close>

theorem add_sink_result:
  assumes "sinks_ok st"
  shows "case on9log_add_sink desc (se_sink e) (se_ctx e) st of (err, st') \<Rightarrow>
     sinks_ok st' \<and>
     (if \<not> sink_valid desc e then err = ON9LOG_ERR_INVALID_ARG \<and> st' = st
      else if e \<in> set (registered st) \<or> card (set (registered st)) < length (s_sinks st)
      then err = ON9LOG_OK \<and> set (registered st') = insert e (set (registered st))
      else err = ON9LOG_ERR_NO_MEM \<and> set (registered st') = set (registered st))"
  using sink_table.add_valid [OF assms, of desc e] sink_table.add_invalid [of desc e st]
    sink_table.add_inv [OF assms, of desc e]
  by (auto split: prod.split if_splits)

definition one_sink_state :: on9log_state where
  "one_sink_state =
     (on9log_initial_state on9log_default_env)\<lparr>s_sinks := [\<lparr>se_sink = 16, se_ctx = 0\<rparr>, \<lparr>se_sink = 0, se_ctx = 0\<rparr>]\<rparr>"

definition full_desc :: "addr \<Rightarrow> on9log_sink_desc" where
  "full_desc p = \<lparr>start_cb = 100, payload_cb = 200, end_cb = 300\<rparr>"

lemma one_sink_ok: "sinks_ok one_sink_state"
  by (simp add: one_sink_state_def sinks_ok_def slot_ok_def registered_def)

theorem add_sink_result_witness:
  "case on9log_add_sink full_desc (se_sink \<lparr>se_sink = 32, se_ctx = 5\<rparr>) (se_ctx \<lparr>se_sink = 32, se_ctx = 5\<rparr>)
       one_sink_state of (err, st') \<Rightarrow>
     sinks_ok st' \<and>
     (if \<not> sink_valid full_desc \<lparr>se_sink = 32, se_ctx = 5\<rparr>
      then err = ON9LOG_ERR_INVALID_ARG \<and> st' = one_sink_state
      else if \<lparr>se_sink = 32, se_ctx = 5\<rparr> \<in> set (registered one_sink_state) \<or>
              card (set (registered one_sink_state)) < length (s_sinks one_sink_state)
      then err = ON9LOG_OK \<and>
        set (registered st') = insert \<lparr>se_sink = 32, se_ctx = 5\<rparr> (set (registered one_sink_state))
      else err = ON9LOG_ERR_NO_MEM \<and> set (registered st') = set (registered one_sink_state))"
  by (rule add_sink_result [OF one_sink_ok])

text \<open>C28: Over any sequence of additions and removals of sinks: the table stays well formed and keeps its
  size, a registered pair stays registered until it is itself removed, and a pair that is not
  registered and never added never appears.\<close>

theorem sinks_stay_until_removed:
  assumes "sinks_ok st"
  shows "sinks_ok (fold (sink_op desc) ops st) \<and>
     length (s_sinks (fold (sink_op desc) ops st)) = length (s_sinks st) \<and>
     card (set (registered (fold (sink_op desc) ops st))) \<le> length (s_sinks st) \<and>
     (e \<in> set (registered st) \<longrightarrow> Remove e \<notin> set ops \<longrightarrow> e \<in> set (registered (fold (sink_op desc) ops st))) \<and>
     (e \<notin> set (registered st) \<longrightarrow> Add e \<notin> set ops \<longrightarrow> e \<notin> set (registered (fold (sink_op desc) ops st)))"
  using sink_table.run_ops_inv [OF assms, of desc ops] sink_table.run_ops_capacity [of desc ops st]
    sink_table.run_ops_bounded [OF assms, of desc ops] sink_table.run_ops_keeps [OF assms, of e ops desc]
    sink_table.run_ops_absent [OF assms, of e ops desc]
  by (simp add: sink_op_apply sink_table.run_ops_def)

definition demo_ops :: "on9log_sink_entry registry_op list" where
  "demo_ops = [Add \<lparr>se_sink = 32, se_ctx = 5\<rparr>, Remove \<lparr>se_sink = 9, se_ctx = 9\<rparr>]"

theorem sinks_stay_until_removed_witness:
  "sinks_ok (fold (sink_op full_desc) demo_ops one_sink_state) \<and>
     length (s_sinks (fold (sink_op full_desc) demo_ops one_sink_state)) = 2 \<and>
     \<lparr>se_sink = 16, se_ctx = 0\<rparr> \<in> set (registered (fold (sink_op full_desc) demo_ops one_sink_state))"
  using sinks_stay_until_removed [OF one_sink_ok, of full_desc demo_ops "\<lparr>se_sink = 16, se_ctx = 0\<rparr>"]
  by (simp add: demo_ops_def) (simp add: one_sink_state_def registered_def)

end
