(* ===== verification/TagFilter.thy ===== *)
theory TagFilter
  imports LogStream
begin

text \<open>
  Level filtering of \<^verbatim>\<open>on9log.c\<close>: the default level, the list of per-tag filters and the check
  made before every log call, as sequential code (the lock-free reader protocol of the list is
  modelled on its own in the theory of readers and writers).

  A filter node owns a private copy of its tag, given here by its contents, so the pointer
  comparison of \<open>on9log_tag_matches\<close> can only succeed where the contents agree as well; the
  tag a caller passes is an address in memory. \<open>malloc_ok\<close> and \<open>calloc_ok\<close> say whether the two
  allocations succeed; \<open>between\<close> is what other writers do to the state while
  \<open>on9log_set_tag_level\<close> has released the lock to allocate.

  The list implements a finite map from tag contents to levels: \<open>filter_map\<close> is the
  abstraction, the locale \<open>tag_levels\<close> the contract, \<open>tag_filters\<close> its interpretation.
\<close>

section \<open>The code\<close>

definition on9log_valid_level :: "on9log_level_t \<Rightarrow> bool" where
  "on9log_valid_level level \<longleftrightarrow> level \<ge> ON9_LOG_LEVEL_NONE \<and> level \<le> ON9_LOG_LEVEL_VERBOSE"

definition on9log_tag_matches :: "mem \<Rightarrow> bytes \<Rightarrow> addr \<Rightarrow> bool option" where
  "on9log_tag_matches m configured tag =
     (if tag = NULL then Some False else strcmp_eq m configured tag)"

text \<open>The walk over the list: the level of the first matching active node, if any.\<close>

primrec filter_walk ::
    "mem \<Rightarrow> on9log_tag_filter_node list \<Rightarrow> addr \<Rightarrow> on9log_level_t option option" where
  "filter_walk m [] tag = Some None"
| "filter_walk m (n # ns) tag =
     (if tf_active n
      then do { matches \<leftarrow> on9log_tag_matches m (tf_tag n) tag;
                if matches then Some (Some (tf_level n)) else filter_walk m ns tag }
      else filter_walk m ns tag)"

definition on9log_filter_level_for_tag :: "mem \<Rightarrow> on9log_state \<Rightarrow> addr \<Rightarrow> on9log_level_t option" where
  "on9log_filter_level_for_tag m st tag =
     (if s_active_tag_filter_count st = 0 then Some (s_default_level st)
      else do { found \<leftarrow> filter_walk m (s_tag_filters st) tag;
                Some (case found of None \<Rightarrow> s_default_level st | Some l \<Rightarrow> l) })"

definition on9log_level_enabled ::
    "on9log_env \<Rightarrow> mem \<Rightarrow> on9log_state \<Rightarrow> on9log_level_t \<Rightarrow> addr \<Rightarrow> bool option" where
  "on9log_level_enabled env m st level tag =
     (if level = ON9_LOG_LEVEL_NONE \<or> level > ON9_LOG_LEVEL_VERBOSE \<or> level > cfg_local_level env
      then Some False
      else do { runtime_level \<leftarrow> on9log_filter_level_for_tag m st tag;
                if \<not> on9log_valid_level runtime_level \<or> runtime_level = ON9_LOG_LEVEL_NONE
                then Some False
                else Some (level \<le> runtime_level) })"

definition on9log_set_level :: "on9log_level_t \<Rightarrow> on9log_state \<Rightarrow> on9log_state" where
  "on9log_set_level level st =
     (if \<not> on9log_valid_level level then st else st\<lparr>s_default_level := level\<rparr>)"

definition on9log_get_level :: "on9log_state \<Rightarrow> on9log_level_t" where
  "on9log_get_level st = s_default_level st"

text \<open>\<open>SLIST_FOREACH\<close> up to the first node whose tag matches, active or not.\<close>

primrec find_tag_node ::
    "mem \<Rightarrow> nat \<Rightarrow> on9log_tag_filter_node list \<Rightarrow> addr \<Rightarrow> nat option option" where
  "find_tag_node m i [] tag = Some None"
| "find_tag_node m i (n # ns) tag =
     do { matches \<leftarrow> on9log_tag_matches m (tf_tag n) tag;
          if matches then Some (Some i) else find_tag_node m (Suc i) ns tag }"

primrec find_inactive_node :: "nat \<Rightarrow> on9log_tag_filter_node list \<Rightarrow> nat option" where
  "find_inactive_node i [] = None"
| "find_inactive_node i (n # ns) = (if \<not> tf_active n then Some i else find_inactive_node (Suc i) ns)"

text \<open>Store the level in a matching node and activate it if it was not.\<close>

definition update_node :: "nat \<Rightarrow> on9log_level_t \<Rightarrow> on9log_state \<Rightarrow> on9log_state" where
  "update_node i level st =
     (let n = s_tag_filters st ! i;
          was_active = tf_active n;
          st = st\<lparr>s_tag_filters := (s_tag_filters st)[i := n\<lparr>tf_level := level, tf_active := True\<rparr>]\<rparr>
      in if \<not> was_active
         then st\<lparr>s_active_tag_filter_count := s_active_tag_filter_count st + 1\<rparr> else st)"

text \<open>Give a cleared node to a new tag, or link a new node in front.\<close>

definition reuse_node :: "nat \<Rightarrow> bytes \<Rightarrow> on9log_level_t \<Rightarrow> on9log_state \<Rightarrow> on9log_state" where
  "reuse_node i tag_copy level st =
     st\<lparr>s_tag_filters := (s_tag_filters st)[i := \<lparr>tf_tag = tag_copy, tf_level = level, tf_active = True\<rparr>],
        s_active_tag_filter_count := s_active_tag_filter_count st + 1\<rparr>"

definition insert_node :: "bytes \<Rightarrow> on9log_level_t \<Rightarrow> on9log_state \<Rightarrow> on9log_state" where
  "insert_node tag_copy level st =
     st\<lparr>s_tag_filters := \<lparr>tf_tag = tag_copy, tf_level = level, tf_active = True\<rparr> # s_tag_filters st,
        s_active_tag_filter_count := s_active_tag_filter_count st + 1\<rparr>"

definition deactivate_node :: "nat \<Rightarrow> on9log_state \<Rightarrow> on9log_state" where
  "deactivate_node i st =
     (let n = s_tag_filters st ! i;
          was_active = tf_active n;
          st = st\<lparr>s_tag_filters := (s_tag_filters st)[i := n\<lparr>tf_active := False\<rparr>]\<rparr>
      in if was_active
         then st\<lparr>s_active_tag_filter_count := s_active_tag_filter_count st - 1\<rparr> else st)"

definition on9log_set_tag_level ::
    "mem \<Rightarrow> (on9log_state \<Rightarrow> on9log_state) \<Rightarrow> bool \<Rightarrow> bool \<Rightarrow> addr \<Rightarrow> on9log_level_t \<Rightarrow> on9log_state \<Rightarrow>
       (on9log_err_t \<times> on9log_state) option" where
  "on9log_set_tag_level m between malloc_ok calloc_ok tag level st =
     (if tag = NULL \<or> \<not> on9log_valid_level level then Some (ON9LOG_ERR_INVALID_ARG, st)
      else do {
        found \<leftarrow> find_tag_node m 0 (s_tag_filters st) tag;
        case found of
          Some i \<Rightarrow> Some (ON9LOG_OK, update_node i level st)
        | None \<Rightarrow> do {
            tag_len \<leftarrow> c_strlen m tag;
            if \<not> malloc_ok then Some (ON9LOG_ERR_NO_MEM, between st)
            else do {
              tag_copy \<leftarrow> rd_bytes m tag tag_len;
              let st = between st;
              found \<leftarrow> find_tag_node m 0 (s_tag_filters st) tag;
              case found of
                Some i \<Rightarrow> Some (ON9LOG_OK, update_node i level st)
              | None \<Rightarrow>
                  (case find_inactive_node 0 (s_tag_filters st) of
                     Some i \<Rightarrow> Some (ON9LOG_OK, reuse_node i tag_copy level st)
                   | None \<Rightarrow>
                       if \<not> calloc_ok then Some (ON9LOG_ERR_NO_MEM, st)
                       else Some (ON9LOG_OK, insert_node tag_copy level st)) } } })"

definition on9log_clear_tag_level ::
    "mem \<Rightarrow> addr \<Rightarrow> on9log_state \<Rightarrow> (on9log_err_t \<times> on9log_state) option" where
  "on9log_clear_tag_level m tag st =
     (if tag = NULL then Some (ON9LOG_ERR_INVALID_ARG, st)
      else do {
        found \<leftarrow> find_tag_node m 0 (s_tag_filters st) tag;
        case found of
          None \<Rightarrow> Some (ON9LOG_ERR_NOT_FOUND, st)
        | Some i \<Rightarrow> Some (ON9LOG_OK, deactivate_node i st) })"

section \<open>The list as a finite map\<close>

definition active_count :: "on9log_tag_filter_node list \<Rightarrow> nat" where
  "active_count ns = length (filter tf_active ns)"

definition filter_map :: "on9log_tag_filter_node list \<Rightarrow> bytes \<Rightarrow> on9log_level_t option" where
  "filter_map ns = map_of (map (\<lambda>n. (tf_tag n, tf_level n)) (filter tf_active ns))"

definition node_ok :: "on9log_tag_filter_node \<Rightarrow> bool" where
  "node_ok n \<longleftrightarrow> 0 \<notin> set (tf_tag n) \<and> on9log_valid_level (tf_level n)"

text \<open>
  One node per tag, active or not; valid levels; and an exact active counter, which fits its
  word because there are fewer than \<open>2^32\<close> nodes.
\<close>

definition filters_ok :: "on9log_state \<Rightarrow> bool" where
  "filters_ok st \<longleftrightarrow>
     list_all node_ok (s_tag_filters st) \<and> distinct (map tf_tag (s_tag_filters st)) \<and>
     length (s_tag_filters st) < 2 ^ 32 \<and>
     s_active_tag_filter_count st = word_of_nat (active_count (s_tag_filters st)) \<and>
     on9log_valid_level (s_default_level st)"

lemma filter_map_simps [simp]:
  "filter_map [] = Map.empty"
  "filter_map (n # ns) = (if tf_active n then (filter_map ns)(tf_tag n \<mapsto> tf_level n) else filter_map ns)"
  by (simp_all add: filter_map_def)

lemma active_count_simps [simp]:
  "active_count [] = 0"
  "active_count (n # ns) = (if tf_active n then Suc (active_count ns) else active_count ns)"
  by (simp_all add: active_count_def)

lemma active_count_le: "active_count ns \<le> length ns"
  by (simp add: active_count_def)

lemma filter_map_None: "t \<notin> set (map tf_tag ns) \<Longrightarrow> filter_map ns t = None"
  by (induction ns) auto

lemma filter_walk_map:
  "list_all node_ok ns \<Longrightarrow> tag \<noteq> NULL \<Longrightarrow> cstr m tag t \<Longrightarrow> filter_walk m ns tag = Some (filter_map ns t)"
  by (induction ns) (auto simp: on9log_tag_matches_def strcmp_eq_cstr node_ok_def)

lemma filter_walk_NULL: "filter_walk m ns NULL = Some None"
  by (induction ns) (auto simp: on9log_tag_matches_def)

lemma active_count_0: "active_count ns = 0 \<Longrightarrow> filter_map ns = Map.empty"
  by (simp add: active_count_def filter_map_def)

lemma filter_level_for_tag_map:
  assumes "filters_ok st" and "tag \<noteq> NULL" and "cstr m tag t"
  shows "on9log_filter_level_for_tag m st tag =
    Some (case filter_map (s_tag_filters st) t of None \<Rightarrow> s_default_level st | Some l \<Rightarrow> l)"
proof -
  have "unat (s_active_tag_filter_count st) = active_count (s_tag_filters st)"
    using assms(1) active_count_le [of "s_tag_filters st"]
    by (simp add: filters_ok_def unat_of_nat)
  then have "s_active_tag_filter_count st = 0 \<Longrightarrow> filter_map (s_tag_filters st) = Map.empty"
    by (auto intro: active_count_0)
  then show ?thesis using assms filter_walk_map [of "s_tag_filters st" tag m t]
    by (auto simp: on9log_filter_level_for_tag_def filters_ok_def)
qed

lemma find_tag_node_spec:
  "list_all node_ok ns \<Longrightarrow> tag \<noteq> NULL \<Longrightarrow> cstr m tag t \<Longrightarrow>
     (t \<notin> set (map tf_tag ns) \<longrightarrow> find_tag_node m i ns tag = Some None) \<and>
     (t \<in> set (map tf_tag ns) \<longrightarrow>
        (\<exists>k < length ns. find_tag_node m i ns tag = Some (Some (i + k)) \<and> tf_tag (ns ! k) = t))"
proof (induction ns arbitrary: i)
  case Nil
  then show ?case by simp
next
  case (Cons n ns)
  have m: "on9log_tag_matches m (tf_tag n) tag = Some (tf_tag n = t)"
    using Cons.prems by (simp add: on9log_tag_matches_def strcmp_eq_cstr node_ok_def)
  show ?case
  proof (cases "tf_tag n = t")
    case True
    then show ?thesis by (auto simp: m intro!: exI [of _ 0])
  next
    case False
    then show ?thesis using Cons.IH [of "Suc i"] Cons.prems m by (fastforce intro!: exI [of _ "Suc _"])
  qed
qed

lemma find_tag_node_absent:
  "list_all node_ok ns \<Longrightarrow> tag \<noteq> NULL \<Longrightarrow> cstr m tag t \<Longrightarrow> t \<notin> set (map tf_tag ns) \<Longrightarrow>
     find_tag_node m 0 ns tag = Some None"
  using find_tag_node_spec [of ns tag m t 0] by blast

lemma find_tag_node_present:
  assumes "list_all node_ok ns" "tag \<noteq> NULL" "cstr m tag t" "t \<in> set (map tf_tag ns)"
  obtains k where "k < length ns" "find_tag_node m 0 ns tag = Some (Some k)" "tf_tag (ns ! k) = t"
  using find_tag_node_spec [of ns tag m t 0] assms by auto

lemma find_inactive_spec:
  "find_inactive_node i ns = Some j \<Longrightarrow> i \<le> j \<and> j - i < length ns \<and> \<not> tf_active (ns ! (j - i))"
  by (induction ns arbitrary: i) (fastforce split: if_splits simp: nth_Cons' Suc_le_eq)+

text \<open>Replacing one node: the effect on the map, the count and the invariant.\<close>

lemma map_update_split:
  assumes "k < length ns" and "distinct (map tf_tag ns)"
    and "tf_tag n \<notin> set (map tf_tag ns) - {tf_tag (ns ! k)}"
  shows "filter_map (ns[k := n]) =
    (if tf_active n then (filter_map ns)(tf_tag (ns ! k) := None, tf_tag n \<mapsto> tf_level n)
     else (filter_map ns)(tf_tag (ns ! k) := None))"
  using assms
proof (induction ns arbitrary: k)
  case Nil
  then show ?case by simp
next
  case (Cons x ns)
  show ?case
  proof (cases k)
    case 0
    then have "filter_map ns (tf_tag x) = None" using Cons.prems by (intro filter_map_None) auto
    then show ?thesis using 0 by (auto simp: fun_eq_iff)
  next
    case (Suc j)
    then have "tf_tag (ns ! j) \<in> tf_tag ` set ns" using Cons.prems(1) by simp
    then have x: "tf_tag x \<noteq> tf_tag (ns ! j)" "tf_tag x \<noteq> tf_tag n"
      using Cons.prems Suc by auto
    have "tf_tag n \<notin> set (map tf_tag ns) - {tf_tag (ns ! j)}" using Cons.prems Suc by auto
    then show ?thesis using Cons.IH [of j] Cons.prems Suc x by (auto simp: fun_eq_iff)
  qed
qed

lemma active_count_update:
  "k < length ns \<Longrightarrow> active_count (ns[k := n]) + (if tf_active (ns ! k) then 1 else 0) =
     active_count ns + (if tf_active n then 1 else 0)"
proof (induction ns arbitrary: k)
  case Nil
  then show ?case by simp
next
  case (Cons x ns)
  then show ?case by (cases k) auto
qed

lemma list_all_nth: "list_all P ns \<Longrightarrow> k < length ns \<Longrightarrow> P (ns ! k)"
  by (simp add: list_all_iff)

lemma replace_node_ok:
  assumes "filters_ok st" and "k < length (s_tag_filters st)" and "node_ok n"
    and "tf_tag n \<notin> set (map tf_tag (s_tag_filters st)) - {tf_tag (s_tag_filters st ! k)}"
    and "s_tag_filters st' = (s_tag_filters st)[k := n]"
    and "s_active_tag_filter_count st' = word_of_nat (active_count ((s_tag_filters st)[k := n]))"
    and "s_default_level st' = s_default_level st"
  shows "filters_ok st'"
proof -
  have "distinct ((map tf_tag (s_tag_filters st))[k := tf_tag n])"
    using assms(1,2,4) by (intro distinct_list_update) (auto simp: filters_ok_def)
  then show ?thesis using assms
    by (auto simp: filters_ok_def map_update intro: list_all_update)
qed

text \<open>The three ways \<open>on9log_set_tag_level\<close> succeeds, and the one of \<open>on9log_clear_tag_level\<close>.\<close>

lemma update_node_facts:
  assumes "filters_ok st" and "k < length (s_tag_filters st)" and "on9log_valid_level level"
  shows "filters_ok (update_node k level st) \<and>
    filter_map (s_tag_filters (update_node k level st)) =
      (filter_map (s_tag_filters st))(tf_tag (s_tag_filters st ! k) \<mapsto> level) \<and>
    s_default_level (update_node k level st) = s_default_level st"
proof -
  let ?ns = "s_tag_filters st" and ?st' = "update_node k level st"
  let ?n = "(?ns ! k)\<lparr>tf_level := level, tf_active := True\<rparr>"
  have ns': "s_tag_filters ?st' = ?ns[k := ?n]" and lev: "s_default_level ?st' = s_default_level st"
    by (simp_all add: update_node_def Let_def)
  have "node_ok (?ns ! k)" using assms(1,2) by (auto simp: filters_ok_def intro: list_all_nth)
  then have n: "node_ok ?n" using assms(3) by (simp add: node_ok_def)
  have "s_active_tag_filter_count ?st' = word_of_nat (active_count (?ns[k := ?n]))"
    using assms(1) active_count_update [OF assms(2), of ?n]
    by (auto simp: update_node_def Let_def filters_ok_def split: if_splits)
  then have "filters_ok ?st'"
    using n by (intro replace_node_ok [OF assms(1,2) _ _ ns' _ lev]) auto
  then show ?thesis using assms(1,2) map_update_split [OF assms(2), of ?n] ns' lev
    by (auto simp: filters_ok_def fun_eq_iff)
qed

lemma inactive_not_mapped:
  assumes "k < length ns" and "distinct (map tf_tag ns)" and "\<not> tf_active (ns ! k)"
  shows "filter_map ns (tf_tag (ns ! k)) = None"
proof -
  have "filter_map (ns[k := ns ! k]) = (filter_map ns)(tf_tag (ns ! k) := None)"
    using map_update_split [OF assms(1,2), of "ns ! k"] assms(3) by auto
  then have "filter_map ns = (filter_map ns)(tf_tag (ns ! k) := None)" by simp
  from fun_cong [OF this, of "tf_tag (ns ! k)"] show ?thesis by simp
qed

lemma reuse_node_facts:
  assumes "filters_ok st" and "k < length (s_tag_filters st)" and "\<not> tf_active (s_tag_filters st ! k)"
    and "t \<notin> set (map tf_tag (s_tag_filters st))" and "0 \<notin> set t" and "on9log_valid_level level"
  shows "filters_ok (reuse_node k t level st) \<and>
    filter_map (s_tag_filters (reuse_node k t level st)) = (filter_map (s_tag_filters st))(t \<mapsto> level) \<and>
    s_default_level (reuse_node k t level st) = s_default_level st"
proof -
  let ?ns = "s_tag_filters st" and ?n = "\<lparr>tf_tag = t, tf_level = level, tf_active = True\<rparr>"
  have d: "distinct (map tf_tag ?ns)" using assms(1) by (simp add: filters_ok_def)
  have "filters_ok (reuse_node k t level st)"
    using assms active_count_update [OF assms(2), of ?n]
    by (intro replace_node_ok [OF assms(1,2), of ?n]) (auto simp: node_ok_def filters_ok_def reuse_node_def)
  then show ?thesis
    using assms inactive_not_mapped [OF assms(2) d assms(3)] map_update_split [OF assms(2) d, of ?n]
    by (auto simp: fun_eq_iff reuse_node_def)
qed

lemma insert_node_facts:
  assumes "filters_ok st" and "Suc (length (s_tag_filters st)) < 2 ^ 32"
    and "t \<notin> set (map tf_tag (s_tag_filters st))" and "0 \<notin> set t" and "on9log_valid_level level"
  shows "filters_ok (insert_node t level st) \<and>
    filter_map (s_tag_filters (insert_node t level st)) = (filter_map (s_tag_filters st))(t \<mapsto> level) \<and>
    s_default_level (insert_node t level st) = s_default_level st"
  using assms by (simp add: filters_ok_def node_ok_def insert_node_def)

lemma deactivate_node_facts:
  assumes "filters_ok st" and "k < length (s_tag_filters st)"
  shows "filters_ok (deactivate_node k st) \<and>
    filter_map (s_tag_filters (deactivate_node k st)) =
      (filter_map (s_tag_filters st))(tf_tag (s_tag_filters st ! k) := None) \<and>
    s_default_level (deactivate_node k st) = s_default_level st"
proof -
  let ?ns = "s_tag_filters st" and ?n = "(s_tag_filters st ! k)\<lparr>tf_active := False\<rparr>"
  have "node_ok (?ns ! k)" using assms by (auto simp: filters_ok_def intro: list_all_nth)
  then have n: "node_ok ?n" by (simp add: node_ok_def)
  have c: "active_count ?ns = active_count (?ns[k := ?n]) + (if tf_active (?ns ! k) then 1 else 0)"
    using active_count_update [OF assms(2), of ?n] by simp
  have "filters_ok (deactivate_node k st)"
    using n c assms(1)
    by (intro replace_node_ok [OF assms(1,2), of ?n])
      (auto simp: deactivate_node_def Let_def filters_ok_def)
  then show ?thesis using assms map_update_split [OF assms(2), of ?n]
    by (auto simp: filters_ok_def deactivate_node_def Let_def)
qed

lemma find_inactive_0:
  "find_inactive_node 0 ns = Some j \<Longrightarrow> j < length ns \<and> \<not> tf_active (ns ! j)"
  using find_inactive_spec [of 0 ns j] by simp

text \<open>
  \<open>on9log_set_tag_level\<close> as a map update. Whatever the other writers do in between, as long as
  they keep the invariant, the call either updates exactly its tag in the state it finds or
  reports that memory ran out and changes nothing itself.
\<close>

lemma set_tag_level_spec:
  assumes ok: "filters_ok st" and btw: "filters_ok (between st)" and tag: "tag \<noteq> NULL"
    and str: "cstr m tag t" and lvl: "on9log_valid_level level"
    and room: "calloc_ok \<Longrightarrow> Suc (length (s_tag_filters (between st))) < 2 ^ 32"
  obtains err st' base where
    "on9log_set_tag_level m between malloc_ok calloc_ok tag level st = Some (err, st')"
    "filters_ok st'" "base = st \<or> base = between st"
    "(err = ON9LOG_OK \<and> filter_map (s_tag_filters st') = (filter_map (s_tag_filters base))(t \<mapsto> level) \<and>
        s_default_level st' = s_default_level base) \<or>
     (err = ON9LOG_ERR_NO_MEM \<and> st' = base \<and> \<not> (malloc_ok \<and> calloc_ok))"
proof -
  have nodes: "list_all node_ok (s_tag_filters st)" "list_all node_ok (s_tag_filters (between st))"
    using ok btw by (simp_all add: filters_ok_def)
  have nul: "0 \<notin> set t" using str by (rule cstr_no_nul)
  have rd: "rd_bytes m tag (length t) = Some t" using rd_bytes_cstr [OF str, of "length t"] by simp
  note unfold = on9log_set_tag_level_def tag lvl c_strlen_cstr [OF str] rd
  show ?thesis
  proof (cases "t \<in> set (map tf_tag (s_tag_filters st))")
    case True
    then obtain k where k: "k < length (s_tag_filters st)" "tf_tag (s_tag_filters st ! k) = t"
      "find_tag_node m 0 (s_tag_filters st) tag = Some (Some k)"
      using find_tag_node_present [OF nodes(1) tag str] by metis
    show ?thesis
      by (rule that [of ON9LOG_OK "update_node k level st" st])
        (use update_node_facts [OF ok k(1) lvl] k tag lvl in \<open>simp_all add: unfold\<close>)
  next
    case False
    note absent = find_tag_node_absent [OF nodes(1) tag str False]
    show ?thesis
    proof (cases malloc_ok)
      case no: False
      show ?thesis
        by (rule that [of ON9LOG_ERR_NO_MEM "between st" "between st"])
          (use no btw tag lvl absent in \<open>simp_all add: unfold\<close>)
    next
      case yes: True
      show ?thesis
      proof (cases "t \<in> set (map tf_tag (s_tag_filters (between st)))")
        case True
        then obtain k where k: "k < length (s_tag_filters (between st))"
          "tf_tag (s_tag_filters (between st) ! k) = t"
          "find_tag_node m 0 (s_tag_filters (between st)) tag = Some (Some k)"
          using find_tag_node_present [OF nodes(2) tag str] by metis
        show ?thesis
          by (rule that [of ON9LOG_OK "update_node k level (between st)" "between st"])
            (use update_node_facts [OF btw k(1) lvl] k yes absent tag lvl in \<open>simp_all add: unfold\<close>)
      next
        case new: False
        note absent2 = find_tag_node_absent [OF nodes(2) tag str new]
        show ?thesis
        proof (cases "find_inactive_node 0 (s_tag_filters (between st))")
          case (Some j)
          note j = find_inactive_0 [OF Some]
          show ?thesis
            by (rule that [of ON9LOG_OK "reuse_node j t level (between st)" "between st"])
              (use reuse_node_facts [OF btw conjunct1 [OF j] conjunct2 [OF j] new nul lvl]
                Some yes absent absent2 tag lvl in \<open>simp_all add: unfold\<close>)
        next
          case None
          show ?thesis
          proof (cases calloc_ok)
            case True
            show ?thesis
              by (rule that [of ON9LOG_OK "insert_node t level (between st)" "between st"])
                (use insert_node_facts [OF btw room [OF True] new nul lvl]
                  None True yes absent absent2 tag lvl in \<open>simp_all add: unfold\<close>)
          next
            case no: False
            show ?thesis
              by (rule that [of ON9LOG_ERR_NO_MEM "between st" "between st"])
                (use None no yes btw absent absent2 tag lvl in \<open>simp_all add: unfold\<close>)
          qed
        qed
      qed
    qed
  qed
qed

lemma clear_tag_level_spec:
  assumes ok: "filters_ok st" and tag: "tag \<noteq> NULL" and str: "cstr m tag t"
  obtains err st' where "on9log_clear_tag_level m tag st = Some (err, st')" "filters_ok st'"
    "s_default_level st' = s_default_level st"
    "filter_map (s_tag_filters st') = (filter_map (s_tag_filters st))(t := None)"
    "err = (if t \<in> set (map tf_tag (s_tag_filters st)) then ON9LOG_OK else ON9LOG_ERR_NOT_FOUND)"
proof (cases "t \<in> set (map tf_tag (s_tag_filters st))")
  case True
  have nodes: "list_all node_ok (s_tag_filters st)" using ok by (simp add: filters_ok_def)
  obtain k where k: "k < length (s_tag_filters st)" "tf_tag (s_tag_filters st ! k) = t"
    "find_tag_node m 0 (s_tag_filters st) tag = Some (Some k)"
    using find_tag_node_present [OF nodes tag str True] by metis
  show ?thesis
    by (rule that [of ON9LOG_OK "deactivate_node k st"])
      (use deactivate_node_facts [OF ok k(1)] k tag True in
        \<open>simp_all add: on9log_clear_tag_level_def\<close>)
next
  case False
  have nodes: "list_all node_ok (s_tag_filters st)" using ok by (simp add: filters_ok_def)
  show ?thesis
    by (rule that [of ON9LOG_ERR_NOT_FOUND st])
      (use ok False find_tag_node_absent [OF nodes tag str False] filter_map_None [OF False] tag in
        \<open>auto simp: on9log_clear_tag_level_def fun_eq_iff\<close>)
qed

section \<open>The contract of per-tag levels\<close>

datatype 't level_op = Set_Tag 't on9log_level_t | Clear_Tag 't | Set_Default on9log_level_t

locale tag_levels =
  fixes set_tag :: "'t \<Rightarrow> on9log_level_t \<Rightarrow> 's \<Rightarrow> on9log_err_t \<times> 's"
    and clear_tag :: "'t \<Rightarrow> 's \<Rightarrow> on9log_err_t \<times> 's"
    and set_default :: "on9log_level_t \<Rightarrow> 's \<Rightarrow> 's"
    and level_of :: "'s \<Rightarrow> 't \<Rightarrow> on9log_level_t"
    and override :: "'s \<Rightarrow> 't \<Rightarrow> on9log_level_t option"
    and default :: "'s \<Rightarrow> on9log_level_t"
    and valid :: "'t \<Rightarrow> bool"
    and inv :: "'s \<Rightarrow> bool"
  assumes level_of_override: "inv s \<Longrightarrow> valid t \<Longrightarrow>
      level_of s t = (case override s t of None \<Rightarrow> default s | Some l \<Rightarrow> l)"
    and set_tag_law: "inv s \<Longrightarrow> valid t \<Longrightarrow> on9log_valid_level l \<Longrightarrow>
      inv (snd (set_tag t l s)) \<and> default (snd (set_tag t l s)) = default s \<and>
      (fst (set_tag t l s) = ON9LOG_OK \<and> override (snd (set_tag t l s)) = (override s)(t \<mapsto> l) \<or>
       fst (set_tag t l s) = ON9LOG_ERR_NO_MEM \<and> override (snd (set_tag t l s)) = override s)"
    and clear_tag_law: "inv s \<Longrightarrow> valid t \<Longrightarrow>
      inv (snd (clear_tag t s)) \<and> default (snd (clear_tag t s)) = default s \<and>
      override (snd (clear_tag t s)) = (override s)(t := None)"
    and set_default_law: "inv s \<Longrightarrow> on9log_valid_level l \<Longrightarrow>
      inv (set_default l s) \<and> default (set_default l s) = l \<and> override (set_default l s) = override s"
begin

primrec apply_level_op :: "'t level_op \<Rightarrow> 's \<Rightarrow> 's" where
  "apply_level_op (Set_Tag t l) s = snd (set_tag t l s)"
| "apply_level_op (Clear_Tag t) s = snd (clear_tag t s)"
| "apply_level_op (Set_Default l) s = set_default l s"

primrec op_valid :: "'t level_op \<Rightarrow> bool" where
  "op_valid (Set_Tag t l) \<longleftrightarrow> valid t \<and> on9log_valid_level l"
| "op_valid (Clear_Tag t) \<longleftrightarrow> valid t"
| "op_valid (Set_Default l) \<longleftrightarrow> on9log_valid_level l"

primrec touches :: "'t \<Rightarrow> 't level_op \<Rightarrow> bool" where
  "touches u (Set_Tag t l) \<longleftrightarrow> t = u"
| "touches u (Clear_Tag t) \<longleftrightarrow> t = u"
| "touches u (Set_Default l) \<longleftrightarrow> False"

lemma apply_level_op_inv: "inv s \<Longrightarrow> op_valid op \<Longrightarrow> inv (apply_level_op op s)"
  by (cases op) (auto simp: set_tag_law clear_tag_law set_default_law)

lemma fold_inv: "inv s \<Longrightarrow> list_all op_valid ops \<Longrightarrow> inv (fold apply_level_op ops s)"
  by (induction ops arbitrary: s) (auto intro: apply_level_op_inv)

lemma apply_untouched:
  assumes "inv s" and "op_valid op" and "\<not> touches u op"
  shows "override (apply_level_op op s) u = override s u"
proof (cases op)
  case (Set_Tag t l)
  then show ?thesis using assms set_tag_law [of s t l] by auto
next
  case (Clear_Tag t)
  then show ?thesis using assms clear_tag_law [of s t] by auto
next
  case (Set_Default l)
  then show ?thesis using assms set_default_law [of s l] by auto
qed

lemma fold_untouched:
  "inv s \<Longrightarrow> list_all op_valid ops \<Longrightarrow> list_all (\<lambda>op. \<not> touches u op) ops \<Longrightarrow>
     override (fold apply_level_op ops s) u = override s u"
proof (induction ops arbitrary: s)
  case Nil
  then show ?case by simp
next
  case (Cons op ops)
  then show ?case using apply_untouched [of s op u] apply_level_op_inv [of s op] by simp
qed

text \<open>An override, once accepted, decides its tag's level until that tag is set or cleared again.\<close>

lemma override_persists:
  assumes "inv s" and "valid t" and "on9log_valid_level l" and "fst (set_tag t l s) = ON9LOG_OK"
    and "list_all op_valid ops" and "list_all (\<lambda>op. \<not> touches t op) ops"
  shows "level_of (fold apply_level_op ops (snd (set_tag t l s))) t = l"
proof -
  have s1: "inv (snd (set_tag t l s))" "override (snd (set_tag t l s)) t = Some l"
    using set_tag_law [OF assms(1-3)] assms(4) by auto
  then have "override (fold apply_level_op ops (snd (set_tag t l s))) t = Some l"
    using fold_untouched [OF s1(1) assms(5,6)] by simp
  then show ?thesis using level_of_override [OF fold_inv [OF s1(1) assms(5)] assms(2)] by simp
qed

lemma cleared_uses_default:
  assumes "inv s" and "valid t"
    and "list_all op_valid ops" and "list_all (\<lambda>op. \<not> touches t op) ops"
  shows "level_of (fold apply_level_op ops (snd (clear_tag t s))) t =
           default (fold apply_level_op ops (snd (clear_tag t s)))"
proof -
  have s1: "inv (snd (clear_tag t s))" "override (snd (clear_tag t s)) t = None"
    using clear_tag_law [OF assms(1,2)] by auto
  then have "override (fold apply_level_op ops (snd (clear_tag t s))) t = None"
    using fold_untouched [OF s1(1) assms(3,4)] by simp
  then show ?thesis using level_of_override [OF fold_inv [OF s1(1) assms(3)] assms(2)] by simp
qed

end

text \<open>
  The code as a provider of the contract, on tags given by their contents: each call gets its
  tag as a string at address 64. A call may run out of memory exactly where the node count
  would no longer fit the active counter.
\<close>

definition tag_mem :: "bytes \<Rightarrow> mem" where
  "tag_mem t = mem_object 64 (t @ [0]) (\<lambda>_. None)"

lemma cstr_mem_object:
  "0 \<notin> set t \<Longrightarrow> cstr (mem_object p (xs @ t @ [0]) m) (p + length xs) t"
proof (induction t arbitrary: xs)
  case Nil
  then show ?case by (simp add: mem_object_def)
next
  case (Cons b t)
  then show ?case using Cons.IH [of "xs @ [b]"] by (simp add: mem_object_def nth_append)
qed

lemma cstr_tag_mem: "0 \<notin> set t \<Longrightarrow> cstr (tag_mem t) 64 t"
  using cstr_mem_object [of t 64 "[]"] by (simp add: tag_mem_def)

definition set_tag_by_contents ::
    "bytes \<Rightarrow> on9log_level_t \<Rightarrow> on9log_state \<Rightarrow> on9log_err_t \<times> on9log_state" where
  "set_tag_by_contents t l st =
     the (on9log_set_tag_level (tag_mem t) id True (Suc (length (s_tag_filters st)) < 2 ^ 32) 64 l st)"

definition clear_tag_by_contents :: "bytes \<Rightarrow> on9log_state \<Rightarrow> on9log_err_t \<times> on9log_state" where
  "clear_tag_by_contents t st = the (on9log_clear_tag_level (tag_mem t) 64 st)"

definition level_by_contents :: "on9log_state \<Rightarrow> bytes \<Rightarrow> on9log_level_t" where
  "level_by_contents st t = the (on9log_filter_level_for_tag (tag_mem t) st 64)"

interpretation tag_filters: tag_levels
  set_tag_by_contents clear_tag_by_contents on9log_set_level level_by_contents
  "\<lambda>st. filter_map (s_tag_filters st)" on9log_get_level "\<lambda>t. 0 \<notin> set t" filters_ok
proof (unfold_locales, goal_cases)
  case (1 st t)
  then show ?case
    using filter_level_for_tag_map [OF 1(1) _ cstr_tag_mem [OF 1(2)]]
    by (simp add: level_by_contents_def on9log_get_level_def split: option.split)
next
  case (2 st t l)
  show ?case
    by (rule set_tag_level_spec [OF 2(1), of id 64 "tag_mem t" t l
          "Suc (length (s_tag_filters st)) < 2 ^ 32" True])
      (use 2 cstr_tag_mem [OF 2(2)] in \<open>auto simp: set_tag_by_contents_def on9log_get_level_def\<close>)
next
  case (3 st t)
  show ?case
    by (rule clear_tag_level_spec [OF 3(1), of 64 "tag_mem t" t])
      (use 3 cstr_tag_mem [OF 3(2)] in \<open>auto simp: clear_tag_by_contents_def on9log_get_level_def\<close>)
next
  case (4 st l)
  then show ?case by (simp add: on9log_set_level_def on9log_get_level_def filters_ok_def)
qed

text \<open>The whole check in front of a log call.\<close>

definition effective_level :: "on9log_state \<Rightarrow> bytes \<Rightarrow> on9log_level_t" where
  "effective_level st t =
     (case filter_map (s_tag_filters st) t of None \<Rightarrow> s_default_level st | Some l \<Rightarrow> l)"

lemma filter_map_valid: "list_all node_ok ns \<Longrightarrow> filter_map ns t = Some l \<Longrightarrow> on9log_valid_level l"
  by (induction ns) (auto simp: node_ok_def split: if_splits)

lemma effective_level_valid: "filters_ok st \<Longrightarrow> on9log_valid_level (effective_level st t)"
  by (auto simp: effective_level_def filters_ok_def dest: filter_map_valid split: option.split)

lemma level_enabled_spec:
  assumes "filters_ok st" and "tag \<noteq> NULL" and "cstr m tag t"
  shows "on9log_level_enabled env m st level tag =
    Some (level \<noteq> 0 \<and> level \<le> cfg_local_level env \<and> level \<le> effective_level st t)"
proof -
  have "on9log_valid_level (effective_level st t)" using assms(1) by (rule effective_level_valid)
  then have le: "effective_level st t \<le> 5" by (simp add: on9log_valid_level_def)
  have look: "on9log_filter_level_for_tag m st tag = Some (effective_level st t)"
    using filter_level_for_tag_map [OF assms] by (simp add: effective_level_def)
  show ?thesis
  proof (cases "effective_level st t = 0")
    case True
    then show ?thesis using le look
      by (auto simp: on9log_level_enabled_def on9log_valid_level_def)
  next
    case False
    then show ?thesis using le look
      by (auto simp: on9log_level_enabled_def on9log_valid_level_def intro: order.trans)
  qed
qed

lemma filters_ok_initial: "filters_ok (on9log_initial_state env)"
  by (simp add: filters_ok_def on9log_initial_state_def on9log_valid_level_def)

section \<open>Properties of the filters\<close>

text \<open>Also: A tag level that was accepted decides which calls with that tag are enabled, whichever copy of the
  tag's text they pass; calls with any other tag are enabled exactly as before. Another writer may have
  run between the two locked sections of the call.\<close>

theorem tag_level_takes_effect:
  assumes "filters_ok st" and "filters_ok (between st)" and "tag \<noteq> NULL" and "cstr m tag t"
    and "on9log_valid_level level" and "Suc (length (s_tag_filters (between st))) < 2 ^ 32"
    and "on9log_set_tag_level m between malloc_ok calloc_ok tag level st = Some (ON9LOG_OK, st')"
  shows "filters_ok st' \<and>
     (\<exists>base. (base = st \<or> base = between st) \<and>
       (\<forall>m2 tag2 t2 l env. tag2 \<noteq> NULL \<longrightarrow> cstr m2 tag2 t2 \<longrightarrow>
          on9log_level_enabled env m2 st' l tag2 =
            (if t2 = t then Some (l \<noteq> 0 \<and> l \<le> cfg_local_level env \<and> l \<le> level)
             else on9log_level_enabled env m2 base l tag2)))"
proof -
  obtain st'' base where s: "on9log_set_tag_level m between malloc_ok calloc_ok tag level st = Some (ON9LOG_OK, st'')"
    "filters_ok st''" "base = st \<or> base = between st"
    "filter_map (s_tag_filters st'') = (filter_map (s_tag_filters base))(t \<mapsto> level)"
    "s_default_level st'' = s_default_level base"
    by (rule set_tag_level_spec [where between = between and st = st and calloc_ok = calloc_ok and malloc_ok = malloc_ok, OF assms(1-5)]) (use assms(6,7) in auto)
  have st': "st'' = st'" using s(1) assms(7) by simp
  have base: "filters_ok base" using s(3) assms(1,2) by auto
  have "on9log_level_enabled env m2 st' l tag2 =
      (if t2 = t then Some (l \<noteq> 0 \<and> l \<le> cfg_local_level env \<and> l \<le> level)
       else on9log_level_enabled env m2 base l tag2)"
    if "tag2 \<noteq> NULL" and "cstr m2 tag2 t2" for env m2 l tag2 t2
    using level_enabled_spec [OF s(2) that] level_enabled_spec [OF base that] s(4,5)
    by (simp add: st' effective_level_def split: option.split)
  then show ?thesis using s(2,3) st' by blast
qed

theorem tag_level_takes_effect_witness:
  "\<exists>st'. on9log_set_tag_level (tag_mem [65]) id True True 64 2 (on9log_initial_state on9log_default_env) =
       Some (ON9LOG_OK, st') \<and> filters_ok st' \<and>
     (\<exists>base. (base = on9log_initial_state on9log_default_env \<or> base = id (on9log_initial_state on9log_default_env)) \<and>
       (\<forall>m2 tag2 t2 l env. tag2 \<noteq> NULL \<longrightarrow> cstr m2 tag2 t2 \<longrightarrow>
          on9log_level_enabled env m2 st' l tag2 =
            (if t2 = [65] then Some (l \<noteq> 0 \<and> l \<le> cfg_local_level env \<and> l \<le> 2)
             else on9log_level_enabled env m2 base l tag2)))"
proof -
  let ?st = "on9log_initial_state on9log_default_env"
  have len: "c_strlen (tag_mem [65]) 64 = Some (Suc 0)"
    using c_strlen_cstr [OF cstr_tag_mem [of "[65]"]] by simp
  have "tag_mem [65] 64 = Some 65" by (simp add: tag_mem_def mem_object_def)
  then obtain st' where set: "on9log_set_tag_level (tag_mem [65]) id True True 64 2 ?st = Some (ON9LOG_OK, st')"
    using len by (simp add: on9log_set_tag_level_def on9log_valid_level_def on9log_initial_state_def)
  have id: "filters_ok (id ?st)" "Suc (length (s_tag_filters (id ?st))) < 2 ^ 32"
    by (simp_all add: filters_ok_initial) (simp add: on9log_initial_state_def)
  show ?thesis
    using tag_level_takes_effect [OF filters_ok_initial id(1) _ cstr_tag_mem _ id(2) set] set
    by (simp add: on9log_valid_level_def)
qed

text \<open>Also: When memory runs out while a tag level is set, the call says so and no filter has changed.\<close>

theorem tag_level_out_of_memory:
  assumes "filters_ok st" and "filters_ok (between st)" and "tag \<noteq> NULL" and "cstr m tag t"
    and "on9log_valid_level level" and "Suc (length (s_tag_filters (between st))) < 2 ^ 32"
    and "on9log_set_tag_level m between malloc_ok calloc_ok tag level st = Some (err, st')"
    and "err \<noteq> ON9LOG_OK"
  shows "err = ON9LOG_ERR_NO_MEM \<and> (st' = st \<or> st' = between st) \<and> \<not> (malloc_ok \<and> calloc_ok)"
  by (rule set_tag_level_spec [where between = between and st = st and calloc_ok = calloc_ok and malloc_ok = malloc_ok, OF assms(1-5)]) (use assms(6-8) in auto)

theorem tag_level_out_of_memory_witness:
  "\<exists>err st'. on9log_set_tag_level (tag_mem [65]) id False True 64 2 (on9log_initial_state on9log_default_env) =
       Some (err, st') \<and> err = ON9LOG_ERR_NO_MEM \<and>
     (st' = on9log_initial_state on9log_default_env \<or> st' = id (on9log_initial_state on9log_default_env)) \<and>
     \<not> (False \<and> True)"
proof -
  let ?st = "on9log_initial_state on9log_default_env"
  have len: "c_strlen (tag_mem [65]) 64 = Some (Suc 0)"
    using c_strlen_cstr [OF cstr_tag_mem [of "[65]"]] by simp
  have set: "on9log_set_tag_level (tag_mem [65]) id False True 64 2 ?st = Some (ON9LOG_ERR_NO_MEM, ?st)"
    using len by (simp add: on9log_set_tag_level_def on9log_valid_level_def on9log_initial_state_def)
  have id: "filters_ok (id ?st)" "Suc (length (s_tag_filters (id ?st))) < 2 ^ 32"
    by (simp_all add: filters_ok_initial) (simp add: on9log_initial_state_def)
  show ?thesis
    using tag_level_out_of_memory [OF filters_ok_initial id(1) _ cstr_tag_mem _ id(2) set] set
    by (simp add: on9log_valid_level_def)
qed

text \<open>The operations on the filters by a tag's contents, as a sequence.\<close>

primrec filter_op :: "bytes level_op \<Rightarrow> on9log_state \<Rightarrow> on9log_state" where
  "filter_op (Set_Tag t l) st = snd (set_tag_by_contents t l st)"
| "filter_op (Clear_Tag t) st = snd (clear_tag_by_contents t st)"
| "filter_op (Set_Default l) st = on9log_set_level l st"

primrec filter_op_ok :: "bytes level_op \<Rightarrow> bool" where
  "filter_op_ok (Set_Tag t l) \<longleftrightarrow> 0 \<notin> set t \<and> on9log_valid_level l"
| "filter_op_ok (Clear_Tag t) \<longleftrightarrow> 0 \<notin> set t"
| "filter_op_ok (Set_Default l) \<longleftrightarrow> on9log_valid_level l"

primrec filter_op_tag :: "bytes level_op \<Rightarrow> bytes option" where
  "filter_op_tag (Set_Tag t l) = Some t"
| "filter_op_tag (Clear_Tag t) = Some t"
| "filter_op_tag (Set_Default l) = None"

lemma filter_op_apply:
  "filter_op = tag_filters.apply_level_op" "filter_op_ok = tag_filters.op_valid"
proof -
  show "filter_op = tag_filters.apply_level_op"
  proof (intro ext)
    fix op st show "filter_op op st = tag_filters.apply_level_op op st" by (cases op) simp_all
  qed
  show "filter_op_ok = tag_filters.op_valid"
  proof (intro ext)
    fix op show "filter_op_ok op = tag_filters.op_valid op" by (cases op) simp_all
  qed
qed

lemma filter_op_touches: "tag_filters.touches t op = (filter_op_tag op = Some t)"
  by (cases op) auto

text \<open>Also: The level set for a tag is the one in force for it through any sequence of other filter
  operations (levels of other tags set or cleared, which may reuse nodes; the default changed), until
  that tag is set or cleared again. A cleared tag follows the default, whatever it becomes.\<close>

theorem tag_level_persists:
  assumes "filters_ok st" and "0 \<notin> set t" and "on9log_valid_level l"
    and "list_all filter_op_ok ops" and "Some t \<notin> set (map filter_op_tag ops)"
  shows "(fst (set_tag_by_contents t l st) = ON9LOG_OK \<longrightarrow>
       level_by_contents (fold filter_op ops (snd (set_tag_by_contents t l st))) t = l) \<and>
     level_by_contents (fold filter_op ops (snd (clear_tag_by_contents t st))) t =
       on9log_get_level (fold filter_op ops (snd (clear_tag_by_contents t st)))"
proof -
  have un: "list_all (\<lambda>op. \<not> tag_filters.touches t op) ops"
    using assms(5) by (auto simp: list_all_iff filter_op_touches image_iff)
  show ?thesis
    using tag_filters.override_persists [OF assms(1-3) _ assms(4) [unfolded filter_op_apply] un]
      tag_filters.cleared_uses_default [OF assms(1,2) assms(4) [unfolded filter_op_apply] un]
    by (simp add: filter_op_apply)
qed

lemma demo_set_accepted:
  "fst (set_tag_by_contents [65] 2 (on9log_initial_state on9log_default_env)) = ON9LOG_OK"
proof -
  have "c_strlen (tag_mem [65]) 64 = Some (Suc 0)"
    using c_strlen_cstr [OF cstr_tag_mem [of "[65]"]] by simp
  moreover have "tag_mem [65] 64 = Some 65" by (simp add: tag_mem_def mem_object_def)
  ultimately show ?thesis
    by (simp add: set_tag_by_contents_def on9log_set_tag_level_def on9log_valid_level_def
        on9log_initial_state_def)
qed

theorem tag_level_persists_witness:
  "level_by_contents (fold filter_op [Set_Tag [66] 4, Clear_Tag [67], Set_Default 1]
         (snd (set_tag_by_contents [65] 2 (on9log_initial_state on9log_default_env)))) [65] = 2 \<and>
     level_by_contents (fold filter_op [Set_Tag [66] 4, Clear_Tag [67], Set_Default 1]
         (snd (clear_tag_by_contents [65] (on9log_initial_state on9log_default_env)))) [65] =
       on9log_get_level (fold filter_op [Set_Tag [66] 4, Clear_Tag [67], Set_Default 1]
         (snd (clear_tag_by_contents [65] (on9log_initial_state on9log_default_env))))"
  using tag_level_persists [OF filters_ok_initial, of "[65]" 2 "[Set_Tag [66] 4, Clear_Tag [67], Set_Default 1]"]
    demo_set_accepted
  by (simp add: on9log_valid_level_def)

text \<open>
  \<^verbatim>\<open>on9log_clear_tag_level\<close> is documented to return NOT_FOUND when no filter exists for the tag.
  Clearing the same tag twice returns OK both times: the inactive node still matches.
\<close>

lemma clear_twice_is_ok:
  assumes "filters_ok st" and "tag \<noteq> NULL" and "cstr m tag t"
    and "on9log_clear_tag_level m tag st = Some (ON9LOG_OK, st')"
  shows "filter_map (s_tag_filters st') t = None \<and> (\<exists>st''. on9log_clear_tag_level m tag st' = Some (ON9LOG_OK, st''))"
proof -
  obtain err s1 where c: "on9log_clear_tag_level m tag st = Some (err, s1)" "filters_ok s1"
    "filter_map (s_tag_filters s1) = (filter_map (s_tag_filters st))(t := None)"
    "err = (if t \<in> set (map tf_tag (s_tag_filters st)) then ON9LOG_OK else ON9LOG_ERR_NOT_FOUND)"
    by (rule clear_tag_level_spec [OF assms(1-3)]) blast
  have s1: "s1 = st'" and mem: "t \<in> set (map tf_tag (s_tag_filters st))"
    using c(1,4) assms(4) by (auto split: if_splits)
  obtain k where k: "find_tag_node m 0 (s_tag_filters st) tag = Some (Some k)" "st' = deactivate_node k st"
    using assms(2,4) by (auto simp: on9log_clear_tag_level_def split: Option.bind_splits option.splits)
  have "map tf_tag (s_tag_filters st') = map tf_tag (s_tag_filters st)"
    unfolding k(2) by (cases "k < length (s_tag_filters st)")
      (simp_all add: deactivate_node_def Let_def map_update list_update_same_conv list_update_beyond not_less)
  then have "t \<in> set (map tf_tag (s_tag_filters st'))" using mem by simp
  moreover obtain err' s2 where "on9log_clear_tag_level m tag st' = Some (err', s2)"
    "err' = (if t \<in> set (map tf_tag (s_tag_filters st')) then ON9LOG_OK else ON9LOG_ERR_NOT_FOUND)"
    by (rule clear_tag_level_spec [OF c(2) [unfolded s1] assms(2,3)]) blast
  ultimately show ?thesis using c(3) s1 by simp
qed

end
