(* ===== verification/ArgTypes.thy ===== *)
theory ArgTypes
  imports Memory
begin

text \<open>
  Argument type tables, variadic arguments and the \<open>%.*s\<close> scanner of \<^verbatim>\<open>on9log.c\<close>.

  A \<open>const char *\<close> that the code only walks forward is modelled by the bytes from the pointer
  to the end of its object: \<open>*p\<close> is the head, \<open>p + 1\<close> the tail, and reading past the object is
  \<open>None\<close>. A NULL table or format is \<open>None\<close> of the outer \<open>option\<close>.
\<close>

section \<open>Type tables\<close>

definition on9log_arg_type_at :: "bytes option \<Rightarrow> nat \<Rightarrow> u8 option" where
  "on9log_arg_type_at arg_types idx =
     (case arg_types of
        None \<Rightarrow> Some ON9_LOG_ARGS_TYPE_NONE
      | Some t \<Rightarrow> if idx < length t then Some (t ! idx) else None)"

text \<open>The \<open>uint8_t\<close> counter never wraps: the loop leaves at \<open>UINT8_MAX\<close>.\<close>

function arg_count_loop :: "bytes option \<Rightarrow> nat \<Rightarrow> nat option" where
  "arg_count_loop arg_types count =
     (case on9log_arg_type_at arg_types count of
        None \<Rightarrow> None
      | Some ty \<Rightarrow>
          if ty \<noteq> ON9_LOG_ARGS_TYPE_NONE
          then (if count \<ge> 255 then Some count else arg_count_loop arg_types (Suc count))
          else Some count)"
  by pat_completeness auto
termination
  by (relation "measure (\<lambda>(t, count). 255 - count)") auto

declare arg_count_loop.simps [simp del]

definition on9log_arg_count :: "bytes option \<Rightarrow> u8 option" where
  "on9log_arg_count arg_types = map_option word_of_nat (arg_count_loop arg_types 0)"

function isr_safe_loop :: "bytes option \<Rightarrow> nat \<Rightarrow> bool option" where
  "isr_safe_loop arg_types idx =
     (case on9log_arg_type_at arg_types idx of
        None \<Rightarrow> None
      | Some ty \<Rightarrow>
          if ty = ON9_LOG_ARGS_TYPE_NONE then Some True
          else if ty = ON9_LOG_ARGS_TYPE_32BITS \<or> ty = ON9_LOG_ARGS_TYPE_64BITS \<or>
                  ty = ON9_LOG_ARGS_TYPE_POINTER
          then (if idx \<ge> 255 then Some False else isr_safe_loop arg_types (Suc idx))
          else Some False)"
  by pat_completeness auto
termination
  by (relation "measure (\<lambda>(t, idx). 255 - idx)") auto

declare isr_safe_loop.simps [simp del]

definition on9log_arg_types_are_isr_safe :: "bytes option \<Rightarrow> bool option" where
  "on9log_arg_types_are_isr_safe arg_types = isr_safe_loop arg_types 0"

function have_string_loop :: "bytes option \<Rightarrow> nat \<Rightarrow> bool option" where
  "have_string_loop arg_types idx =
     (if idx < 255
      then (case on9log_arg_type_at arg_types idx of
              None \<Rightarrow> None
            | Some ty \<Rightarrow>
                if ty = ON9_LOG_ARGS_TYPE_NONE then Some False
                else if ty = ON9_LOG_ARGS_TYPE_DYNAMIC_STRING \<or>
                        ty = ON9_LOG_ARGS_TYPE_DYNAMIC_STRING_VIEW
                then Some True
                else have_string_loop arg_types (Suc idx))
      else Some False)"
  by pat_completeness auto
termination
  by (relation "measure (\<lambda>(t, idx). 255 - idx)") auto

declare have_string_loop.simps [simp del]

definition on9log_arg_types_have_dynamic_string :: "bytes option \<Rightarrow> bool option" where
  "on9log_arg_types_have_dynamic_string arg_types = have_string_loop arg_types 0"

text \<open>A table as \<open>ON9_LOG_ARGS_TYPE\<close> builds it: the types, then the terminating zero.\<close>

definition arg_table :: "bytes \<Rightarrow> bytes option" where
  "arg_table types = Some (types @ [0])"

lemma arg_type_at_table:
  "on9log_arg_type_at (arg_table types) idx =
     (if idx < length types then Some (types ! idx) else if idx = length types then Some 0 else None)"
  by (auto simp: on9log_arg_type_at_def arg_table_def nth_append)

lemma nth_not_zero: "0 \<notin> set types \<Longrightarrow> i < length types \<Longrightarrow> types ! i \<noteq> (0 :: u8)"
  by (metis nth_mem)

lemma arg_count_loop_table:
  "0 \<notin> set types \<Longrightarrow> count \<le> length types \<Longrightarrow> count \<le> 255 \<Longrightarrow>
     arg_count_loop (arg_table types) count = Some (min 255 (length types))"
proof (induction "arg_table types" count rule: arg_count_loop.induct)
  case (1 count)
  show ?case
  proof (cases "count < length types \<and> count < 255")
    case True
    then show ?thesis using "1.hyps" [OF _ nth_not_zero] "1.prems"
      by (subst arg_count_loop.simps) (simp add: arg_type_at_table nth_not_zero)
  next
    case False
    then show ?thesis using "1.prems"
      by (subst arg_count_loop.simps) (auto simp: arg_type_at_table nth_not_zero)
  qed
qed

lemma on9log_arg_count_table:
  "0 \<notin> set types \<Longrightarrow> length types \<le> 255 \<Longrightarrow>
     on9log_arg_count (arg_table types) = Some (word_of_nat (length types))"
  by (simp add: on9log_arg_count_def arg_count_loop_table)

definition isr_safe_type :: "u8 \<Rightarrow> bool" where
  "isr_safe_type ty \<longleftrightarrow> ty = 1 \<or> ty = 2 \<or> ty = 3"

lemma isr_safe_loop_table:
  "0 \<notin> set types \<Longrightarrow> length types \<le> 255 \<Longrightarrow> idx \<le> length types \<Longrightarrow>
     isr_safe_loop (arg_table types) idx = Some (\<forall>ty \<in> set (drop idx types). isr_safe_type ty)"
proof (induction "length types - idx" arbitrary: idx)
  case 0
  then show ?case by (subst isr_safe_loop.simps) (simp add: arg_type_at_table)
next
  case (Suc k)
  then have lt: "idx < length types" by simp
  then have d: "drop idx types = types ! idx # drop (Suc idx) types" by (rule Cons_nth_drop_Suc [symmetric])
  have IH: "isr_safe_loop (arg_table types) (Suc idx) =
      Some (\<forall>ty \<in> set (drop (Suc idx) types). isr_safe_type ty)"
    using Suc by auto
  show ?case using lt Suc.prems IH unfolding d
    by (subst isr_safe_loop.simps) (auto simp: arg_type_at_table nth_not_zero isr_safe_type_def)
qed

lemma on9log_arg_types_are_isr_safe_table:
  "0 \<notin> set types \<Longrightarrow> length types \<le> 255 \<Longrightarrow>
     on9log_arg_types_are_isr_safe (arg_table types) = Some (\<forall>ty \<in> set types. isr_safe_type ty)"
  by (simp add: on9log_arg_types_are_isr_safe_def isr_safe_loop_table)

lemma have_string_loop_table:
  "0 \<notin> set types \<Longrightarrow> length types \<le> 255 \<Longrightarrow> idx \<le> length types \<Longrightarrow>
     have_string_loop (arg_table types) idx = Some (\<exists>ty \<in> set (drop idx types). ty = 4 \<or> ty = 5)"
proof (induction "length types - idx" arbitrary: idx)
  case 0
  then show ?case by (subst have_string_loop.simps) (simp add: arg_type_at_table)
next
  case (Suc k)
  then have lt: "idx < length types" by simp
  then have d: "drop idx types = types ! idx # drop (Suc idx) types" by (rule Cons_nth_drop_Suc [symmetric])
  have IH: "have_string_loop (arg_table types) (Suc idx) =
      Some (\<exists>ty \<in> set (drop (Suc idx) types). ty = 4 \<or> ty = 5)"
    using Suc by auto
  show ?case using lt Suc.prems IH unfolding d
    by (subst have_string_loop.simps) (auto simp: arg_type_at_table nth_not_zero)
qed

lemma on9log_have_dynamic_string_table:
  "0 \<notin> set types \<Longrightarrow> length types \<le> 255 \<Longrightarrow>
     on9log_arg_types_have_dynamic_string (arg_table types) = Some (\<exists>ty \<in> set types. ty = 4 \<or> ty = 5)"
  by (simp add: on9log_arg_types_have_dynamic_string_def have_string_loop_table)

section \<open>Variadic arguments\<close>

text \<open>
  A \<open>va_list\<close> is the list of the remaining arguments; \<open>va_arg\<close> with a type the next argument
  does not have, or past the last one, is undefined. A string view argument is a pointer to a
  descriptor, given by its fields.
\<close>

record on9log_string_view =
  sv_data :: addr
  sv_len :: nat

datatype va_value = VA_u32 u32 | VA_u64 u64 | VA_ptr addr | VA_view "on9log_string_view option"

type_synonym va_list = "va_value list"

fun va_arg_u32 :: "va_list \<Rightarrow> (u32 \<times> va_list) option" where
  "va_arg_u32 (VA_u32 v # ap) = Some (v, ap)"
| "va_arg_u32 _ = None"

fun va_arg_u64 :: "va_list \<Rightarrow> (u64 \<times> va_list) option" where
  "va_arg_u64 (VA_u64 v # ap) = Some (v, ap)"
| "va_arg_u64 _ = None"

fun va_arg_ptr :: "va_list \<Rightarrow> (addr \<times> va_list) option" where
  "va_arg_ptr (VA_ptr v # ap) = Some (v, ap)"
| "va_arg_ptr _ = None"

fun va_arg_view :: "va_list \<Rightarrow> (on9log_string_view option \<times> va_list) option" where
  "va_arg_view (VA_view v # ap) = Some (v, ap)"
| "va_arg_view _ = None"

section \<open>The \<open>%.*s\<close> scanner\<close>

definition is_digit :: "u8 \<Rightarrow> bool" where
  "is_digit c \<longleftrightarrow> 48 \<le> c \<and> c \<le> 57"

definition is_flag :: "u8 \<Rightarrow> bool" where
  "is_flag c \<longleftrightarrow> c = 45 \<or> c = 43 \<or> c = 32 \<or> c = 35 \<or> c = 48"

primrec on9log_skip_printf_integer :: "bytes \<Rightarrow> bytes option" where
  "on9log_skip_printf_integer [] = None"
| "on9log_skip_printf_integer (c # p) =
     (if is_digit c then on9log_skip_printf_integer p else Some (c # p))"

primrec skip_printf_flags :: "bytes \<Rightarrow> bytes option" where
  "skip_printf_flags [] = None"
| "skip_printf_flags (c # p) = (if is_flag c then skip_printf_flags p else Some (c # p))"

definition on9log_skip_printf_length :: "bytes \<Rightarrow> bytes option" where
  "on9log_skip_printf_length p =
     (case p of
        [] \<Rightarrow> None
      | c # q \<Rightarrow>
          if c = 104 \<or> c = 108
          then (case q of [] \<Rightarrow> None | d # r \<Rightarrow> if d = c then Some r else Some q)
          else if c = 106 \<or> c = 122 \<or> c = 116 \<or> c = 76 then Some q
          else Some p)"

text \<open>\<open>if (*p == '*') ... else p = on9log_skip_printf_integer(p)\<close>, for width and precision.\<close>

definition scan_star_or_integer :: "bytes \<Rightarrow> nat \<Rightarrow> (bytes \<times> nat \<times> bool) option" where
  "scan_star_or_integer p arg_index =
     (case p of
        [] \<Rightarrow> None
      | c # q \<Rightarrow>
          if c = 42 then Some (q, Suc arg_index, True)
          else (case on9log_skip_printf_integer p of
                  None \<Rightarrow> None
                | Some r \<Rightarrow> Some (r, arg_index, False)))"

lemma skip_integer_length: "on9log_skip_printf_integer p = Some q \<Longrightarrow> length q \<le> length p"
  by (induction p) (auto split: if_splits)

lemma skip_flags_length: "skip_printf_flags p = Some q \<Longrightarrow> length q \<le> length p"
  by (induction p) (auto split: if_splits)

lemma skip_length_length: "on9log_skip_printf_length p = Some q \<Longrightarrow> length q \<le> length p"
  by (auto simp: on9log_skip_printf_length_def split: list.splits if_splits)

lemma scan_star_length: "scan_star_or_integer p i = Some (q, j, s) \<Longrightarrow> length q \<le> length p"
  by (auto simp: scan_star_or_integer_def split: list.splits if_splits option.splits
        dest!: skip_integer_length)

text \<open>The precision part on its own, so that facts about a directive are chains of facts.\<close>

definition scan_precision :: "bytes \<Rightarrow> nat \<Rightarrow> (bytes \<times> nat \<times> bool) option" where
  "scan_precision p arg_index =
     (case p of
        [] \<Rightarrow> None
      | c # q \<Rightarrow> if c = 46 then scan_star_or_integer q arg_index else Some (p, arg_index, False))"

lemma scan_precision_length: "scan_precision p i = Some (q, j, s) \<Longrightarrow> length q \<le> length p"
  by (auto simp: scan_precision_def split: list.splits if_splits dest: scan_star_length)

text \<open>One conversion from after its \<open>%\<close> up to its conversion character.\<close>

definition scan_directive :: "bytes \<Rightarrow> nat \<Rightarrow> (bytes \<times> nat \<times> bool) option" where
  "scan_directive p arg_index =
     do { p \<leftarrow> skip_printf_flags p;
          (p, arg_index, width_star) \<leftarrow> scan_star_or_integer p arg_index;
          (p, arg_index, precision_star) \<leftarrow> scan_precision p arg_index;
          p \<leftarrow> on9log_skip_printf_length p;
          Some (p, arg_index, precision_star) }"

lemma scan_directive_SomeD:
  "scan_directive p i = Some (q, j, s) \<Longrightarrow>
     \<exists>p1 p2 i2 ws p3. skip_printf_flags p = Some p1 \<and> scan_star_or_integer p1 i = Some (p2, i2, ws) \<and>
       scan_precision p2 i2 = Some (p3, j, s) \<and> on9log_skip_printf_length p3 = Some q"
  by (auto simp: scan_directive_def split: Option.bind_splits)

lemma scan_directive_length: "scan_directive p i = Some (q, j, s) \<Longrightarrow> length q \<le> length p"
  by (auto dest!: scan_directive_SomeD skip_flags_length scan_star_length scan_precision_length
        skip_length_length)

function (sequential) mark_precision_loop :: "nat \<Rightarrow> bytes \<Rightarrow> nat \<Rightarrow> u32 \<Rightarrow> u32 option" where
  "mark_precision_loop arg_count [] arg_index msk = None"
| "mark_precision_loop arg_count (c # p) arg_index msk =
     (if c = 0 then Some msk
      else if c \<noteq> 37 then mark_precision_loop arg_count p arg_index msk
      else
        (case p of
           [] \<Rightarrow> None
         | d # q \<Rightarrow>
             if d = 37 then mark_precision_loop arg_count q arg_index msk
             else
               (case scan_directive p arg_index of
                  None \<Rightarrow> None
                | Some (r, value_arg_index, precision_star) \<Rightarrow>
                    (case r of
                       [] \<Rightarrow> None
                     | e # r' \<Rightarrow>
                         if e = 0 then Some msk
                         else mark_precision_loop arg_count r' (Suc value_arg_index)
                                (if e = 115 \<and> precision_star \<and> value_arg_index < arg_count \<and>
                                    value_arg_index < ON9LOG_ARG_MASK_BITS
                                 then msk OR push_bit value_arg_index 1
                                 else msk)))))"
  by pat_completeness auto
termination
  by (relation "measure (\<lambda>(n, p, i, msk). length p)") (auto dest!: scan_directive_length)

text \<open>\<open>strstr(format, needle) != NULL\<close> on a C string; \<open>None\<close> when there is no NUL.\<close>

primrec c_strstr :: "bytes \<Rightarrow> bytes \<Rightarrow> bool option" where
  "c_strstr [] needle = None"
| "c_strstr (c # p) needle =
     (if c = 0 then Some False
      else if take (length needle) (c # p) = needle then Some True
      else c_strstr p needle)"

definition on9log_mark_precision_string_args :: "bytes option \<Rightarrow> nat \<Rightarrow> u32 option" where
  "on9log_mark_precision_string_args format arg_count =
     (case format of
        None \<Rightarrow> Some 0
      | Some f \<Rightarrow>
          if arg_count = 0 then Some 0
          else (case c_strstr f [37, 46, 42, 115] of
                  None \<Rightarrow> None
                | Some False \<Rightarrow> Some 0
                | Some True \<Rightarrow> mark_precision_loop arg_count f 0 0))"

end
