(* ===== verification/LogSpec.thy ===== *)
theory LogSpec
  imports Encoder
begin

text \<open>
  The wire format as its reader sees it: a reference decoder for the packets \<^verbatim>\<open>README.md\<close> and
  \<^verbatim>\<open>on9log_fmt.h\<close> describe, written independently of the code that produces them. The host
  tools live in another repository, so this is the specification the encoders are proved
  against, not a translation.
\<close>

section \<open>Argument values\<close>

datatype log_arg =
    Arg32 u32
  | Arg64 u64
  | ArgPtr u32
  | ArgStr "bytes option"

text \<open>The type byte a value is announced with; strings have two.\<close>

fun arg_has_type :: "log_arg \<Rightarrow> u8 \<Rightarrow> bool" where
  "arg_has_type (Arg32 _) ty \<longleftrightarrow> ty = 1"
| "arg_has_type (Arg64 _) ty \<longleftrightarrow> ty = 2"
| "arg_has_type (ArgPtr _) ty \<longleftrightarrow> ty = 3"
| "arg_has_type (ArgStr _) ty \<longleftrightarrow> ty = 4 \<or> ty = 5"

fun arg_bytes :: "log_arg \<Rightarrow> bytes" where
  "arg_bytes (Arg32 v) = le_bytes 4 (unat v)"
| "arg_bytes (Arg64 v) = le_bytes 8 (unat v)"
| "arg_bytes (ArgPtr v) = le_bytes 4 (unat v)"
| "arg_bytes (ArgStr None) = le_bytes 4 0xffffffff"
| "arg_bytes (ArgStr (Some s)) = le_bytes 4 (length s) @ s"

text \<open>A string's length must differ from the NULL marker.\<close>

fun arg_small :: "log_arg \<Rightarrow> bool" where
  "arg_small (ArgStr (Some s)) \<longleftrightarrow> length s < 0xffffffff"
| "arg_small _ \<longleftrightarrow> True"

section \<open>The decoder\<close>

definition take_bytes :: "nat \<Rightarrow> bytes \<Rightarrow> (bytes \<times> bytes) option" where
  "take_bytes n bs = (if n \<le> length bs then Some (take n bs, drop n bs) else None)"

definition take_le :: "nat \<Rightarrow> bytes \<Rightarrow> (nat \<times> bytes) option" where
  "take_le n bs = do { (a, rest) \<leftarrow> take_bytes n bs; Some (le_val a, rest) }"

definition parse_arg :: "u8 \<Rightarrow> bytes \<Rightarrow> (log_arg \<times> bytes) option" where
  "parse_arg ty bs =
     (if ty = 1 then do { (v, rest) \<leftarrow> take_le 4 bs; Some (Arg32 (word_of_nat v), rest) }
      else if ty = 2 then do { (v, rest) \<leftarrow> take_le 8 bs; Some (Arg64 (word_of_nat v), rest) }
      else if ty = 3 then do { (v, rest) \<leftarrow> take_le 4 bs; Some (ArgPtr (word_of_nat v), rest) }
      else if ty = 4 \<or> ty = 5 then do {
        (n, rest) \<leftarrow> take_le 4 bs;
        if n = 0xffffffff then Some (ArgStr None, rest)
        else do { (s, rest) \<leftarrow> take_bytes n rest; Some (ArgStr (Some s), rest) } }
      else None)"

primrec parse_args :: "bytes \<Rightarrow> bytes \<Rightarrow> (log_arg list \<times> bytes) option" where
  "parse_args [] bs = Some ([], bs)"
| "parse_args (ty # tys) bs =
     do { (a, rest) \<leftarrow> parse_arg ty bs; (as, rest) \<leftarrow> parse_args tys rest; Some (a # as, rest) }"

text \<open>A tag or format: its image address, or its contents when the ID says "inline".\<close>

datatype wire_ref = ByAddress u32 | Inline bytes

definition parse_ref :: "u32 \<Rightarrow> bytes \<Rightarrow> (wire_ref \<times> bytes) option" where
  "parse_ref ref_id bs =
     (if ref_id = ON9LOG_ID_INLINE
      then do { (n, rest) \<leftarrow> take_le 4 bs; (s, rest) \<leftarrow> take_bytes n rest; Some (Inline s, rest) }
      else Some (ByAddress ref_id, bs))"

record packet_header =
  ph_type :: nat
  ph_level :: nat
  ph_seq :: nat
  ph_time_ms :: nat
  ph_tag_id :: u32
  ph_fmt_id :: u32
  ph_payload_len :: nat

definition parse_header :: "bytes \<Rightarrow> (packet_header \<times> bytes) option" where
  "parse_header bs =
     do { (magic, bs) \<leftarrow> take_le 1 bs;
          (tl, bs) \<leftarrow> take_le 1 bs;
          (seq, bs) \<leftarrow> take_le 2 bs;
          (ms, bs) \<leftarrow> take_le 4 bs;
          (tag, bs) \<leftarrow> take_le 4 bs;
          (fmt, bs) \<leftarrow> take_le 4 bs;
          (n, bs) \<leftarrow> take_le 2 bs;
          if magic = 0x9a
          then Some (\<lparr>ph_type = tl div 16, ph_level = tl mod 16, ph_seq = seq, ph_time_ms = ms,
                      ph_tag_id = word_of_nat tag, ph_fmt_id = word_of_nat fmt, ph_payload_len = n\<rparr>, bs)
          else None }"

record log_message =
  lm_tag :: wire_ref
  lm_fmt :: wire_ref
  lm_args :: "log_arg list"

text \<open>The payload of a LOG packet; nothing may be left over.\<close>

definition parse_log_payload :: "packet_header \<Rightarrow> bytes \<Rightarrow> log_message option" where
  "parse_log_payload h bs =
     (if ph_type h \<noteq> 0 \<or> ph_payload_len h \<noteq> length bs then None
      else do {
        (tag, bs) \<leftarrow> parse_ref (ph_tag_id h) bs;
        (fmt, bs) \<leftarrow> parse_ref (ph_fmt_id h) bs;
        (n, bs) \<leftarrow> take_le 1 bs;
        (types, bs) \<leftarrow> take_bytes n bs;
        (args, bs) \<leftarrow> parse_args types bs;
        if bs = [] then Some \<lparr>lm_tag = tag, lm_fmt = fmt, lm_args = args\<rparr> else None })"

definition parse_log_packet :: "bytes \<Rightarrow> (packet_header \<times> log_message) option" where
  "parse_log_packet bs =
     do { (h, payload) \<leftarrow> parse_header bs; msg \<leftarrow> parse_log_payload h payload; Some (h, msg) }"

text \<open>The payloads of the other packet types.\<close>

definition parse_dropped_packet :: "bytes \<Rightarrow> (packet_header \<times> nat) option" where
  "parse_dropped_packet bs =
     do { (h, bs) \<leftarrow> parse_header bs;
          if ph_type h = 1 \<and> ph_payload_len h = length bs
          then do { (n, bs) \<leftarrow> take_le 4 bs; if bs = [] then Some (h, n) else None }
          else None }"

definition parse_time_sync_packet :: "bytes \<Rightarrow> (packet_header \<times> nat) option" where
  "parse_time_sync_packet bs =
     do { (h, bs) \<leftarrow> parse_header bs;
          if ph_type h = 2 \<and> ph_payload_len h = length bs
          then do { (n, bs) \<leftarrow> take_le 4 bs; if bs = [] then Some (h, n) else None }
          else None }"

record boot_message =
  bm_boot_id :: nat
  bm_reason :: nat
  bm_version :: nat
  bm_id_kind :: nat
  bm_id :: bytes

definition parse_boot_packet :: "bytes \<Rightarrow> (packet_header \<times> boot_message) option" where
  "parse_boot_packet bs =
     do { (h, bs) \<leftarrow> parse_header bs;
          if ph_type h = 3 \<and> ph_payload_len h = length bs
          then do { (boot, bs) \<leftarrow> take_le 4 bs;
                    (reason, bs) \<leftarrow> take_le 1 bs;
                    (version, bs) \<leftarrow> take_le 1 bs;
                    (kind, bs) \<leftarrow> take_le 1 bs;
                    (n, bs) \<leftarrow> take_le 1 bs;
                    (ident, bs) \<leftarrow> take_bytes n bs;
                    if bs = [] then Some (h, \<lparr>bm_boot_id = boot, bm_reason = reason, bm_version = version,
                                             bm_id_kind = kind, bm_id = ident\<rparr>) else None }
          else None }"

record buffer_message =
  bf_tag :: wire_ref
  bf_total :: nat
  bf_offset :: nat
  bf_data :: bytes

definition parse_buffer_packet :: "bytes \<Rightarrow> (packet_header \<times> buffer_message) option" where
  "parse_buffer_packet bs =
     do { (h, bs) \<leftarrow> parse_header bs;
          if ph_type h = 4 \<and> ph_payload_len h = length bs
          then do { (tag, bs) \<leftarrow> parse_ref (ph_tag_id h) bs;
                    (n, bs) \<leftarrow> take_le 4 bs;
                    (off, bs) \<leftarrow> take_le 4 bs;
                    (k, bs) \<leftarrow> take_le 4 bs;
                    (d, bs) \<leftarrow> take_bytes k bs;
                    if bs = [] then Some (h, \<lparr>bf_tag = tag, bf_total = n, bf_offset = off, bf_data = d\<rparr>)
                    else None }
          else None }"

text \<open>
  A reader puts a buffer back together from packets that continue one another: the same level, tag
  and total, consecutive sequence numbers, each offset where the last packet ended.
\<close>

primrec reassemble :: "nat \<Rightarrow> wire_ref \<Rightarrow> nat \<Rightarrow> nat \<Rightarrow> bytes \<Rightarrow> bytes list \<Rightarrow> bytes option" where
  "reassemble level tag n seq acc [] = (if length acc = n then Some acc else None)"
| "reassemble level tag n seq acc (p # ps) =
     (case parse_buffer_packet p of
        None \<Rightarrow> None
      | Some (h, b) \<Rightarrow>
          if ph_level h = level \<and> bf_tag b = tag \<and> bf_total b = n \<and> ph_seq h = seq mod 65536 \<and>
             bf_offset b = length acc
          then reassemble level tag n (Suc seq) (acc @ bf_data b) ps
          else None)"

section \<open>The decoder inverts the layouts\<close>

lemma take_bytes_append [simp]: "take_bytes (length a) (a @ b) = Some (a, b)"
  by (simp add: take_bytes_def)

lemma take_bytes_append_n: "length a = n \<Longrightarrow> take_bytes n (a @ b) = Some (a, b)"
  by auto

lemma take_le_append [simp]: "take_le n (le_bytes n v @ b) = Some (v mod 256 ^ n, b)"
  by (simp add: take_le_def take_bytes_append_n le_val_le_bytes)

lemma take_le_u16 [simp]: "take_le 2 (le_bytes 2 (unat (v :: u16)) @ b) = Some (unat v, b)"
  by (simp add: take_le_def take_bytes_append_n)

lemma take_le_u32 [simp]: "take_le 4 (le_bytes 4 (unat (v :: u32)) @ b) = Some (unat v, b)"
  by (simp add: take_le_def take_bytes_append_n)

lemma take_le_u64 [simp]: "take_le 8 (le_bytes 8 (unat (v :: u64)) @ b) = Some (unat v, b)"
  by (simp add: take_le_def take_bytes_append_n)

lemma take_le_u8 [simp]: "take_le 1 (c # b) = Some (unat c, b)"
  by (simp add: take_le_def take_bytes_def)

lemma take_le_u8_Suc [simp]: "take_le (Suc 0) (c # b) = Some (unat c, b)"
  by (simp add: take_le_def take_bytes_def)

lemma take_le_4: "v < 4294967296 \<Longrightarrow> take_le 4 (le_bytes 4 v @ b) = Some (v, b)"
  by simp

lemma take_le_4_null [simp]: "take_le 4 (le_bytes 4 4294967295 @ b) = Some (4294967295, b)"
  by simp

lemma parse_arg_bytes:
  assumes "arg_has_type a ty" and "arg_small a"
  shows "parse_arg ty (arg_bytes a @ rest) = Some (a, rest)"
proof (cases a)
  case (ArgStr s)
  show ?thesis
  proof (cases s)
    case None
    then show ?thesis using assms ArgStr by (auto simp: parse_arg_def simp del: take_le_append)
  next
    case (Some cs)
    then show ?thesis using assms ArgStr
      by (auto simp: parse_arg_def take_le_4 simp del: take_le_append)
  qed
qed (use assms in \<open>simp_all add: parse_arg_def del: take_le_append\<close>)

lemma parse_args_bytes:
  "list_all2 arg_has_type as tys \<Longrightarrow> list_all arg_small as \<Longrightarrow>
     parse_args tys (concat (map arg_bytes as) @ rest) = Some (as, rest)"
proof (induction as tys rule: list_all2_induct)
  case Nil
  then show ?case by simp
next
  case (Cons a as ty tys)
  then show ?case by (simp add: parse_arg_bytes)
qed

lemma parse_header_bytes:
  "parse_header (header_bytes t l s ms tag fmt n @ rest) =
     Some (\<lparr>ph_type = unat (packet_type_code t), ph_level = unat l mod 16, ph_seq = unat s,
            ph_time_ms = unat ms, ph_tag_id = tag, ph_fmt_id = fmt, ph_payload_len = unat n\<rparr>, rest)"
proof -
  have "16 * unat (packet_type_code t) + unat l mod 16 < 256"
    using packet_type_code_less [of t] mod_less_divisor [of 16 "unat l"] by linarith
  then have tl: "unat (word_of_nat (16 * unat (packet_type_code t) + unat l mod 16) :: u8) =
      16 * unat (packet_type_code t) + unat l mod 16"
    by (simp only: unat_word_of_nat_u8 mod_less)
  show ?thesis by (simp add: parse_header_def header_bytes_def tl del: take_le_append of_nat_add of_nat_mult)
qed

text \<open>An inline reference carries its contents; any other ID is an address.\<close>

definition ref_id_ok :: "u32 \<Rightarrow> wire_ref \<Rightarrow> bool" where
  "ref_id_ok ref_id r \<longleftrightarrow>
     (case r of ByAddress a \<Rightarrow> ref_id = a \<and> a \<noteq> ON9LOG_ID_INLINE
              | Inline s \<Rightarrow> ref_id = ON9LOG_ID_INLINE \<and> length s < 4294967296)"

definition ref_bytes :: "wire_ref \<Rightarrow> bytes" where
  "ref_bytes r = (case r of ByAddress a \<Rightarrow> [] | Inline s \<Rightarrow> le_bytes 4 (length s) @ s)"

lemma parse_ref_bytes: "ref_id_ok ref_id r \<Longrightarrow> parse_ref ref_id (ref_bytes r @ rest) = Some (r, rest)"
  by (cases r) (auto simp: parse_ref_def ref_id_ok_def ref_bytes_def take_le_4 simp del: take_le_append)

definition log_payload_bytes :: "wire_ref \<Rightarrow> wire_ref \<Rightarrow> bytes \<Rightarrow> log_arg list \<Rightarrow> bytes" where
  "log_payload_bytes tag fmt types args =
     ref_bytes tag @ ref_bytes fmt @ word_of_nat (length types) # types @ concat (map arg_bytes args)"

lemma parse_log_payload_bytes:
  assumes "ref_id_ok (ph_tag_id h) tag" and "ref_id_ok (ph_fmt_id h) fmt"
    and "length types < 256" and "list_all2 arg_has_type args types" and "list_all arg_small args"
    and "ph_type h = 0" and "ph_payload_len h = length (log_payload_bytes tag fmt types args)"
  shows "parse_log_payload h (log_payload_bytes tag fmt types args) =
           Some \<lparr>lm_tag = tag, lm_fmt = fmt, lm_args = args\<rparr>"
proof -
  have n: "unat (word_of_nat (length types) :: u8) = length types"
    using assms(3) by (simp add: unat_word_of_nat_u8)
  show ?thesis
    using assms(6,7) parse_args_bytes [OF assms(4,5), of "[]"]
    by (simp add: parse_log_payload_def log_payload_bytes_def parse_ref_bytes [OF assms(1)]
        parse_ref_bytes [OF assms(2)] n del: take_le_append)
qed

end
