(* ===== verification/LogWrite.thy ===== *)
theory LogWrite
  imports Sinks TagFilter ArgTypes LogSpec
begin

text \<open>
  Task-context log calls of \<^verbatim>\<open>on9log.c\<close> in the binary build: the measuring pass
  (\<open>on9log_measure_payload\<close>), the emitting pass (\<open>on9log_emit_payload_args\<close>), the DROPPED
  notification and \<open>on9log_vwrite\<close> with its four public wrappers.

  The two passes take the memory they read as separate arguments: \<open>m\<close> while the call is
  measured, \<open>m'\<close> while it is emitted, since another task may write to a string in between.
  \<open>None\<close> is undefined behaviour. \<open>size_t\<close> is a natural number: the sums stay far below
  \<open>SIZE_MAX\<close> of a 64-bit host, and below that of a 32-bit one as long as
  \<open>34 * (ON9LOG_MAX_DYNAMIC_STRING_LEN + 4)\<close> does.
\<close>

section \<open>String lengths\<close>

text \<open>\<open>on9log_string_lens_t\<close>: an uninitialised array, so reading an unset entry is \<open>None\<close>.\<close>

type_synonym on9log_string_lens_t = "nat \<Rightarrow> u32 option"

definition on9log_cstr_len :: "on9log_env \<Rightarrow> mem \<Rightarrow> addr \<Rightarrow> bool \<Rightarrow> 32 word \<Rightarrow> u32 option" where
  "on9log_cstr_len env m str has_precision precision =
     (if str = NULL then Some ON9LOG_NULL_STRING_LEN
      else do { len \<leftarrow> on9log_bounded_strlen m str (cfg_max_dynamic_string_len env);
                Some (word_of_nat (if has_precision \<and> sint precision \<ge> 0 \<and> nat (sint precision) < len
                                   then nat (sint precision) else len)) })"

definition on9log_view_len :: "on9log_env \<Rightarrow> on9log_string_view option \<Rightarrow> u32" where
  "on9log_view_len env view =
     (case view of
        None \<Rightarrow> ON9LOG_NULL_STRING_LEN
      | Some v \<Rightarrow>
          if sv_data v = NULL \<and> sv_len v \<noteq> 0 then ON9LOG_NULL_STRING_LEN
          else word_of_nat (if sv_len v > cfg_max_dynamic_string_len env
                            then cfg_max_dynamic_string_len env else sv_len v))"

definition on9log_emit_string ::
    "mem \<Rightarrow> on9log_stream_t \<Rightarrow> addr \<Rightarrow> u32 \<Rightarrow> nat \<Rightarrow> nat \<Rightarrow> on9log_state \<Rightarrow> on9log_state option" where
  "on9log_emit_string m stream str str_len total_arg_cnt curr_arg_index st =
     (if str_len = ON9LOG_NULL_STRING_LEN
      then Some (on9log_emit_u32 stream ON9LOG_NULL_STRING_LEN total_arg_cnt curr_arg_index st)
      else on9log_emit_string_bytes m stream str (unat str_len) total_arg_cnt curr_arg_index st)"

section \<open>Tags and formats on the wire\<close>

record on9log_wire_str_t =
  ws_id :: u32
  ws_len :: u32

definition on9log_wire_str :: "on9log_env \<Rightarrow> mem \<Rightarrow> addr \<Rightarrow> nat \<Rightarrow> on9log_wire_str_t option" where
  "on9log_wire_str env m str max_len =
     (if str \<noteq> NULL \<and> \<not> port_addr_in_image env str
      then do { len \<leftarrow> on9log_bounded_strlen m str max_len;
                Some \<lparr>ws_id = ON9LOG_ID_INLINE, ws_len = word_of_nat len\<rparr> }
      else Some \<lparr>ws_id = word_of_nat str, ws_len = 0\<rparr>)"

definition on9log_wire_str_size :: "on9log_wire_str_t \<Rightarrow> nat" where
  "on9log_wire_str_size wire = (if ws_id wire = ON9LOG_ID_INLINE then 4 + unat (ws_len wire) else 0)"

definition on9log_emit_wire_str ::
    "mem \<Rightarrow> on9log_stream_t \<Rightarrow> addr \<Rightarrow> on9log_wire_str_t \<Rightarrow> nat \<Rightarrow> on9log_state \<Rightarrow> on9log_state option"
  where
  "on9log_emit_wire_str m stream str wire total_arg_cnt st =
     (if ws_id wire = ON9LOG_ID_INLINE
      then on9log_emit_string_bytes m stream str (unat (ws_len wire)) total_arg_cnt
             ON9LOG_PAYLOAD_META_ARG_INDEX st
      else Some st)"

definition on9log_put_wire_str ::
    "mem \<Rightarrow> on9log_encoder \<Rightarrow> addr \<Rightarrow> on9log_wire_str_t \<Rightarrow> on9log_encoder option" where
  "on9log_put_wire_str m enc str wire =
     (if ws_id wire = ON9LOG_ID_INLINE
      then on9log_put_bytes m (on9log_put_u32 enc (ws_len wire)) str (unat (ws_len wire))
      else Some enc)"

section \<open>The measuring pass\<close>

definition string_size :: "u32 \<Rightarrow> nat" where
  "string_size len = 4 + (if len = ON9LOG_NULL_STRING_LEN then 0 else unat len)"

text \<open>One iteration's \<open>switch\<close>: the new \<open>prev_u32\<close>, \<open>args\<close>, \<open>total\<close> and \<open>lens\<close>.\<close>

definition measure_arg ::
    "on9log_env \<Rightarrow> mem \<Rightarrow> u32 \<Rightarrow> nat \<Rightarrow> u8 \<Rightarrow> u8 \<Rightarrow> u32 \<Rightarrow> va_list \<Rightarrow> nat \<Rightarrow> on9log_string_lens_t \<Rightarrow>
       (u32 \<times> va_list \<times> nat \<times> on9log_string_lens_t) option" where
  "measure_arg env m msk idx arg_type prev_arg_type prev_u32 args tot lens =
     (if arg_type = ON9_LOG_ARGS_TYPE_32BITS
      then do { (v, args) \<leftarrow> va_arg_u32 args; Some (v, args, tot + 4, lens) }
      else if arg_type = ON9_LOG_ARGS_TYPE_64BITS
      then do { (_, args) \<leftarrow> va_arg_u64 args; Some (prev_u32, args, tot + 8, lens) }
      else if arg_type = ON9_LOG_ARGS_TYPE_POINTER
      then do { (_, args) \<leftarrow> va_arg_ptr args; Some (prev_u32, args, tot + 4, lens) }
      else if arg_type = ON9_LOG_ARGS_TYPE_DYNAMIC_STRING
      then do { (str, args) \<leftarrow> va_arg_ptr args;
                len \<leftarrow> on9log_cstr_len env m str
                         (msk AND push_bit idx 1 \<noteq> 0 \<and> prev_arg_type = ON9_LOG_ARGS_TYPE_32BITS) prev_u32;
                Some (prev_u32, args, tot + string_size len, lens(idx := Some len)) }
      else if arg_type = ON9_LOG_ARGS_TYPE_DYNAMIC_STRING_VIEW
      then do { (view, args) \<leftarrow> va_arg_view args;
                let len = on9log_view_len env view in
                Some (prev_u32, args, tot + string_size len, lens(idx := Some len)) }
      else Some (prev_u32, args, tot, lens))"

text \<open>The \<open>for\<close> loop with \<open>left = arg_count - idx\<close> iterations to go.\<close>

primrec measure_loop ::
    "nat \<Rightarrow> on9log_env \<Rightarrow> mem \<Rightarrow> bytes option \<Rightarrow> u32 \<Rightarrow> nat \<Rightarrow> u8 \<Rightarrow> u32 \<Rightarrow> va_list \<Rightarrow> nat \<Rightarrow>
       on9log_string_lens_t \<Rightarrow> (nat \<times> on9log_string_lens_t) option" where
  "measure_loop 0 env m arg_types msk idx prev_arg_type prev_u32 args tot lens = Some (tot, lens)"
| "measure_loop (Suc left) env m arg_types msk idx prev_arg_type prev_u32 args tot lens =
     do { arg_type \<leftarrow> on9log_arg_type_at arg_types idx;
          (prev_u32, args, tot, lens) \<leftarrow>
            measure_arg env m msk idx arg_type prev_arg_type prev_u32 args tot lens;
          measure_loop left env m arg_types msk (Suc idx) arg_type prev_u32 args tot lens }"

text \<open>The inner \<open>None\<close> is the C function's \<open>false\<close>.\<close>

definition on9log_measure_payload ::
    "on9log_env \<Rightarrow> mem \<Rightarrow> bytes option \<Rightarrow> u32 \<Rightarrow> va_list \<Rightarrow> nat \<Rightarrow> nat \<Rightarrow>
       (u16 \<times> on9log_string_lens_t) option option" where
  "on9log_measure_payload env m arg_types precision_string_arg_mask args arg_count prefix_len =
     (if arg_count > ON9LOG_ARG_MASK_BITS then Some None
      else do { (tot, lens) \<leftarrow> measure_loop arg_count env m arg_types precision_string_arg_mask 0
                                   ON9_LOG_ARGS_TYPE_NONE 0 args (prefix_len + 1 + arg_count) (\<lambda>_. None);
                if tot > ON9LOG_PAYLOAD_LEN_MAX then Some None
                else Some (Some (word_of_nat tot, lens)) })"

section \<open>The emitting pass\<close>

definition emit_payload_arg ::
    "mem \<Rightarrow> on9log_stream_t \<Rightarrow> u8 \<Rightarrow> on9log_string_lens_t \<Rightarrow> nat \<Rightarrow> nat \<Rightarrow> va_list \<Rightarrow> on9log_state \<Rightarrow>
       (va_list \<times> on9log_state) option" where
  "emit_payload_arg m stream arg_type lens total_arg_cnt idx args st =
     (if arg_type = ON9_LOG_ARGS_TYPE_32BITS
      then do { (v, args) \<leftarrow> va_arg_u32 args;
                Some (args, on9log_emit_u32 stream v total_arg_cnt idx st) }
      else if arg_type = ON9_LOG_ARGS_TYPE_64BITS
      then do { (v, args) \<leftarrow> va_arg_u64 args;
                Some (args, on9log_emit_u64 stream v total_arg_cnt idx st) }
      else if arg_type = ON9_LOG_ARGS_TYPE_POINTER
      then do { (p, args) \<leftarrow> va_arg_ptr args;
                Some (args, on9log_emit_u32 stream (word_of_nat p) total_arg_cnt idx st) }
      else if arg_type = ON9_LOG_ARGS_TYPE_DYNAMIC_STRING
      then do { (str, args) \<leftarrow> va_arg_ptr args;
                len \<leftarrow> lens idx;
                st \<leftarrow> on9log_emit_string m stream str len total_arg_cnt idx st;
                Some (args, st) }
      else if arg_type = ON9_LOG_ARGS_TYPE_DYNAMIC_STRING_VIEW
      then do { (view, args) \<leftarrow> va_arg_view args;
                len \<leftarrow> lens idx;
                st \<leftarrow> on9log_emit_string m stream (case view of None \<Rightarrow> NULL | Some v \<Rightarrow> sv_data v) len
                        total_arg_cnt idx st;
                Some (args, st) }
      else Some (args, st))"

primrec emit_args_loop ::
    "nat \<Rightarrow> mem \<Rightarrow> on9log_stream_t \<Rightarrow> bytes option \<Rightarrow> on9log_string_lens_t \<Rightarrow> nat \<Rightarrow> nat \<Rightarrow> va_list \<Rightarrow>
       on9log_state \<Rightarrow> on9log_state option" where
  "emit_args_loop 0 m stream arg_types lens total_arg_cnt idx args st = Some st"
| "emit_args_loop (Suc left) m stream arg_types lens total_arg_cnt idx args st =
     do { arg_type \<leftarrow> on9log_arg_type_at arg_types idx;
          (args, st) \<leftarrow> emit_payload_arg m stream arg_type lens total_arg_cnt idx args st;
          emit_args_loop left m stream arg_types lens total_arg_cnt (Suc idx) args st }"

definition on9log_emit_payload_args ::
    "mem \<Rightarrow> on9log_stream_t \<Rightarrow> bytes option \<Rightarrow> on9log_string_lens_t \<Rightarrow> va_list \<Rightarrow> nat \<Rightarrow> on9log_state \<Rightarrow>
       on9log_state option" where
  "on9log_emit_payload_args m stream arg_types lens args total_arg_cnt st =
     emit_args_loop total_arg_cnt m stream arg_types lens total_arg_cnt 0 args st"

section \<open>Log calls\<close>

definition on9log_emit_dropped_packet :: "on9log_env \<Rightarrow> u32 \<Rightarrow> on9log_state \<Rightarrow> on9log_state" where
  "on9log_emit_dropped_packet env dropped_count st =
     (let (stream, st) = on9log_emit_header env ON9LOG_PKT_DROPPED ON9_LOG_LEVEL_NONE 0 0 4 st;
          st = on9log_emit_u32 stream dropped_count 1 0 st
      in on9log_stream_end stream st)"

text \<open>The exchange-and-report step at the head of every emitting entry point.\<close>

definition report_dropped :: "on9log_env \<Rightarrow> on9log_state \<Rightarrow> on9log_state" where
  "report_dropped env st =
     (let dropped_count = s_dropped_count st;
          st = st\<lparr>s_dropped_count := 0\<rparr>
      in if dropped_count \<noteq> 0 then on9log_emit_dropped_packet env dropped_count st else st)"

text \<open>\<open>atomic_fetch_add_explicit(&s_dropped_count, 1, ...)\<close>\<close>

definition count_dropped :: "on9log_state \<Rightarrow> on9log_state" where
  "count_dropped st = st\<lparr>s_dropped_count := s_dropped_count st + 1\<rparr>"

text \<open>\<open>(const uint8_t *)arg_types\<close>, \<open>arg_count\<close> bytes of it.\<close>

definition rd_table :: "bytes option \<Rightarrow> nat \<Rightarrow> bytes option" where
  "rd_table arg_types n =
     (case arg_types of None \<Rightarrow> None | Some t \<Rightarrow> if n \<le> length t then Some (take n t) else None)"

text \<open>The mask \<open>on9log_vwrite\<close> computes from the format it is given to scan, if any.\<close>

definition precision_mask :: "bytes option \<Rightarrow> u8 \<Rightarrow> bool \<Rightarrow> u32 option" where
  "precision_mask format_scan arg_count has_dynamic_string =
     (if arg_count \<noteq> 0 \<and> format_scan \<noteq> None \<and> has_dynamic_string
      then on9log_mark_precision_string_args format_scan (unat arg_count)
      else Some 0)"

definition on9log_vwrite ::
    "on9log_env \<Rightarrow> mem \<Rightarrow> mem \<Rightarrow> on9log_level_t \<Rightarrow> addr \<Rightarrow> addr \<Rightarrow> bytes option \<Rightarrow> bytes option \<Rightarrow>
       u8 \<Rightarrow> bool \<Rightarrow> va_list \<Rightarrow> on9log_state \<Rightarrow> on9log_state option" where
  "on9log_vwrite env m m' level tag format format_scan arg_types arg_count has_dynamic_string args st =
     do {
       enabled \<leftarrow> on9log_level_enabled env m st level tag;
       if \<not> enabled then Some st
       else do {
         let st = report_dropped env st;
         msk \<leftarrow> precision_mask format_scan arg_count has_dynamic_string;
         tag_wire \<leftarrow> on9log_wire_str env m tag (cfg_max_dynamic_string_len env);
         format_wire \<leftarrow> on9log_wire_str env m format (cfg_max_dynamic_string_len env);
         fits \<leftarrow> on9log_measure_payload env m arg_types msk args (unat arg_count)
                   (on9log_wire_str_size tag_wire + on9log_wire_str_size format_wire);
         case fits of
           None \<Rightarrow> Some (count_dropped st)
         | Some (payload_len, string_lens) \<Rightarrow> do {
             let (stream, st) = on9log_emit_header env ON9LOG_PKT_LOG level (ws_id tag_wire)
                                  (ws_id format_wire) payload_len st;
             st \<leftarrow> on9log_emit_wire_str m' stream tag tag_wire (unat arg_count) st;
             st \<leftarrow> on9log_emit_wire_str m' stream format format_wire (unat arg_count) st;
             let st = on9log_emit_u8 stream arg_count (unat arg_count) ON9LOG_PAYLOAD_META_ARG_INDEX st;
             st \<leftarrow> (if arg_count \<noteq> 0
                    then do { types \<leftarrow> rd_table arg_types (unat arg_count);
                              Some (on9log_stream_payload stream types (unat arg_count)
                                      ON9LOG_PAYLOAD_META_ARG_INDEX st) }
                    else Some st);
             st \<leftarrow> on9log_emit_payload_args m' stream arg_types string_lens args (unat arg_count) st;
             Some (on9log_stream_end stream st) } } }"

text \<open>The public entry points; \<open>text_flags\<close> are ignored in this build.\<close>

definition on9log_write where
  "on9log_write env m m' level tag format arg_types args st =
     do { arg_count \<leftarrow> on9log_arg_count arg_types;
          on9log_vwrite env m m' level tag format None arg_types arg_count False args st }"

definition on9log_write_with_text_flags where
  "on9log_write_with_text_flags env m m' level tag (text_flags :: u8) format arg_types args st =
     do { arg_count \<leftarrow> on9log_arg_count arg_types;
          on9log_vwrite env m m' level tag format None arg_types arg_count False args st }"

definition on9log_write_with_format_scan where
  "on9log_write_with_format_scan env m m' level tag format format_scan arg_types args st =
     do { arg_count \<leftarrow> on9log_arg_count arg_types;
          has_dynamic_string \<leftarrow> on9log_arg_types_have_dynamic_string arg_types;
          on9log_vwrite env m m' level tag format format_scan arg_types arg_count has_dynamic_string
            args st }"

definition on9log_write_with_format_scan_metadata where
  "on9log_write_with_format_scan_metadata env m m' level tag format format_scan arg_types arg_count
       (has_dynamic_string :: int) args st =
     on9log_vwrite env m m' level tag format format_scan arg_types arg_count (has_dynamic_string \<noteq> 0)
       args st"

end
