(* ===== verification/LogCorrect.thy ===== *)
theory LogCorrect
  imports LogWrite
begin

text \<open>
  What a task-context log call puts on the wire. The section states independently of the code
  which values a call's arguments denote (\<open>args_denote\<close>), and proves that the measuring pass
  computes exactly the size of their encoding, that the emitting pass writes exactly their
  encoding, and that the reference decoder of \<open>LogSpec\<close> reads the call back from it.
\<close>

section \<open>What the arguments mean\<close>

text \<open>\<open>text_at m p lim s\<close>: the text at \<open>p\<close> is \<open>s\<close>, ended by a NUL or cut at \<open>lim\<close> bytes.\<close>

definition text_at :: "mem \<Rightarrow> addr \<Rightarrow> nat \<Rightarrow> bytes \<Rightarrow> bool" where
  "text_at m p lim s \<longleftrightarrow>
     rd_bytes m p (length s) = Some s \<and> 0 \<notin> set s \<and>
     (length s = lim \<or> length s < lim \<and> m (p + length s) = Some 0)"

text \<open>The precision a \<open>%.*s\<close> conversion puts on argument \<open>idx\<close>; a negative one counts as none.\<close>

definition precision_of :: "u32 \<Rightarrow> nat \<Rightarrow> u32 option \<Rightarrow> nat option" where
  "precision_of msk idx prev =
     (case prev of
        None \<Rightarrow> None
      | Some v \<Rightarrow> if bit msk idx \<and> 0 \<le> sint v then Some (nat (sint v)) else None)"

definition clip :: "nat option \<Rightarrow> bytes \<Rightarrow> bytes" where
  "clip prec s = (case prec of None \<Rightarrow> s | Some k \<Rightarrow> take k s)"

inductive arg_denotes :: "on9log_env \<Rightarrow> mem \<Rightarrow> nat option \<Rightarrow> u8 \<Rightarrow> va_value \<Rightarrow> log_arg \<Rightarrow> bool"
  for env m prec where
  int32: "arg_denotes env m prec 1 (VA_u32 v) (Arg32 v)"
| int64: "arg_denotes env m prec 2 (VA_u64 w) (Arg64 w)"
| pointer: "arg_denotes env m prec 3 (VA_ptr p) (ArgPtr (word_of_nat p))"
| null_string: "arg_denotes env m prec 4 (VA_ptr NULL) (ArgStr None)"
| c_string: "p \<noteq> NULL \<Longrightarrow> text_at m p (cfg_max_dynamic_string_len env) s \<Longrightarrow>
    arg_denotes env m prec 4 (VA_ptr p) (ArgStr (Some (clip prec s)))"
| null_view: "arg_denotes env m prec 5 (VA_view None) (ArgStr None)"
| bad_view: "sv_data v = NULL \<Longrightarrow> sv_len v \<noteq> 0 \<Longrightarrow>
    arg_denotes env m prec 5 (VA_view (Some v)) (ArgStr None)"
| view: "sv_data v \<noteq> NULL \<or> sv_len v = 0 \<Longrightarrow>
    rd_bytes m (sv_data v) (min (sv_len v) (cfg_max_dynamic_string_len env)) = Some s \<Longrightarrow>
    arg_denotes env m prec 5 (VA_view (Some v)) (ArgStr (Some s))"

text \<open>The value of a 32-bit argument, which the next argument may use as its precision.\<close>

fun va_int :: "va_value \<Rightarrow> u32 option" where
  "va_int (VA_u32 v) = Some v"
| "va_int _ = None"

fun args_denote ::
    "on9log_env \<Rightarrow> mem \<Rightarrow> u32 \<Rightarrow> nat \<Rightarrow> u32 option \<Rightarrow> bytes \<Rightarrow> va_list \<Rightarrow> log_arg list \<Rightarrow> bool" where
  "args_denote env m msk idx prev [] args vals \<longleftrightarrow> vals = []"
| "args_denote env m msk idx prev (ty # types) (va # args) (v # vals) \<longleftrightarrow>
     arg_denotes env m (precision_of msk idx prev) ty va v \<and>
     args_denote env m msk (Suc idx) (va_int va) types args vals"
| "args_denote env m msk idx prev _ _ _ \<longleftrightarrow> False"

text \<open>A tag or format: by address when the image holds it, else copied.\<close>

definition ref_denotes :: "on9log_env \<Rightarrow> mem \<Rightarrow> addr \<Rightarrow> wire_ref \<Rightarrow> bool" where
  "ref_denotes env m str r \<longleftrightarrow>
     (if str \<noteq> NULL \<and> \<not> port_addr_in_image env str
      then \<exists>s. r = Inline s \<and> text_at m str (cfg_max_dynamic_string_len env) s
      else r = (if word_of_nat str = ON9LOG_ID_INLINE then Inline [] else ByAddress (word_of_nat str)))"

section \<open>Text\<close>

lemma bounded_strlen_loop_text:
  "rd_bytes m (str + len) (length s) = Some s \<Longrightarrow> 0 \<notin> set s \<Longrightarrow>
     len + length s = lim \<or> len + length s < lim \<and> m (str + len + length s) = Some 0 \<Longrightarrow>
     bounded_strlen_loop m str lim len = Some (len + length s)"
proof (induction s arbitrary: len)
  case Nil
  then show ?case by (subst bounded_strlen_loop.simps) auto
next
  case (Cons b s)
  have "b \<noteq> 0" "m (str + len) = Some b" "rd_bytes m (str + Suc len) (length s) = Some s"
    using Cons.prems by (auto split: Option.bind_splits)
  moreover from this have "bounded_strlen_loop m str lim (Suc len) = Some (Suc len + length s)"
    using Cons.prems by (intro Cons.IH) auto
  ultimately show ?case using Cons.prems by (subst bounded_strlen_loop.simps) auto
qed

lemma bounded_strlen_text: "text_at m p lim s \<Longrightarrow> on9log_bounded_strlen m p lim = Some (length s)"
  using bounded_strlen_loop_text [of m p 0 s lim] by (simp add: on9log_bounded_strlen_def text_at_def)

lemma cstr_at: "cstr m p s \<Longrightarrow> m (p + length s) = Some 0"
proof (induction s arbitrary: p)
  case (Cons b s)
  then show ?case using Cons.IH [of "Suc p"] by simp
qed simp

lemma cstr_text_at: "cstr m p s \<Longrightarrow> text_at m p lim (take lim s)"
  using cstr_at [of m p s] cstr_no_nul [of m p s] rd_bytes_cstr [of m p s "min (length s) lim"]
  by (auto simp: text_at_def min_def dest: in_set_takeD)

lemma text_at_length: "text_at m p lim s \<Longrightarrow> length s \<le> lim"
  by (auto simp: text_at_def)

lemma rd_bytes_clip:
  "rd_bytes m p (length s) = Some s \<Longrightarrow> rd_bytes m p (length (clip prec s)) = Some (clip prec s)"
  using rd_bytes_le [of m p "length s" s] by (auto simp: clip_def min_def split: option.split)

lemma length_clip: "length (clip prec s) \<le> length s"
  by (simp add: clip_def split: option.split)

lemma word_of_nat_not_null:
  assumes "n < 4294967295"
  shows "(word_of_nat n :: u32) \<noteq> 4294967295"
proof
  assume "(word_of_nat n :: u32) = 4294967295"
  then have "unat (word_of_nat n :: u32) = 4294967295" by simp
  then show False using assms by (simp add: unat_word_of_nat_u32)
qed

section \<open>The measuring pass\<close>

text \<open>The length recorded for a string argument.\<close>

fun arg_len :: "log_arg \<Rightarrow> u32 option" where
  "arg_len (ArgStr None) = Some ON9LOG_NULL_STRING_LEN"
| "arg_len (ArgStr (Some s)) = Some (word_of_nat (length s))"
| "arg_len _ = None"

primrec lens_for :: "nat \<Rightarrow> log_arg list \<Rightarrow> on9log_string_lens_t \<Rightarrow> on9log_string_lens_t" where
  "lens_for idx [] lens = lens"
| "lens_for idx (v # vals) lens =
     lens_for (Suc idx) vals (case arg_len v of None \<Rightarrow> lens | Some l \<Rightarrow> lens(idx := Some l))"

lemma lens_for_before: "j < idx \<Longrightarrow> lens_for idx vals lens j = lens j"
  by (induction vals arbitrary: idx lens) (auto split: option.split)

lemma arg_denotes_small:
  "arg_denotes env m prec ty va v \<Longrightarrow> config_ok env \<Longrightarrow> arg_small v"
proof (induction rule: arg_denotes.induct)
  case (c_string p s)
  then show ?case using length_clip [of prec s] by (auto simp: config_ok_def dest: text_at_length)
next
  case (view v s)
  then show ?case by (auto simp: config_ok_def dest: length_rd_bytes)
qed simp_all

lemma string_size_word: "n < 4294967295 \<Longrightarrow> string_size (word_of_nat n) = 4 + n"
  using word_of_nat_not_null [of n] by (simp add: string_size_def unat_word_of_nat_u32)

lemma string_size_0: "string_size 0 = 4"
  using string_size_word [of 0] by simp

text \<open>
  One iteration: \<open>prev_arg_type\<close> and \<open>prev_u32\<close> together hold the previous argument's value
  when it was a 32-bit integer.
\<close>

definition prev_agrees :: "u32 option \<Rightarrow> u8 \<Rightarrow> u32 \<Rightarrow> bool" where
  "prev_agrees prev prev_arg_type prev_u32 \<longleftrightarrow>
     prev = (if prev_arg_type = 1 then Some prev_u32 else None)"

lemma cstr_len_clip:
  assumes "p \<noteq> NULL" and "text_at m p (cfg_max_dynamic_string_len env) s"
    and "prev_agrees prev prev_arg_type prev_u32"
  shows "on9log_cstr_len env m p (bit msk idx \<and> prev_arg_type = 1) prev_u32 =
           Some (word_of_nat (length (clip (precision_of msk idx prev) s)))"
  using assms bounded_strlen_text [OF assms(2)]
  by (auto simp: on9log_cstr_len_def clip_def precision_of_def prev_agrees_def min_def)

lemma measure_arg_denotes:
  assumes "arg_denotes env m (precision_of msk idx prev) ty va v"
    and "prev_agrees prev prev_arg_type prev_u32" and "config_ok env"
  shows "\<exists>prev_u32'. measure_arg env m msk idx ty prev_arg_type prev_u32 (va # args) n lens =
             Some (prev_u32', args, n + length (arg_bytes v),
                   case arg_len v of None \<Rightarrow> lens | Some l \<Rightarrow> lens(idx := Some l)) \<and>
           prev_agrees (va_int va) ty prev_u32'"
  using assms(1) arg_denotes_small [OF assms(1,3)]
proof (cases rule: arg_denotes.cases)
  case (c_string p s)
  then show ?thesis
    using arg_denotes_small [OF assms(1,3)] cstr_len_clip [OF c_string(4,5) assms(2), of msk idx]
    by (simp add: measure_arg_def and_exp_eq_0_iff_not_bit string_size_word prev_agrees_def)
next
  case (view w s)
  then have "length s = min (sv_len w) (cfg_max_dynamic_string_len env)" by (simp add: length_rd_bytes)
  then show ?thesis using view arg_denotes_small [OF assms(1,3)]
    by (auto simp: measure_arg_def on9log_view_len_def string_size_word prev_agrees_def min_def
        string_size_0)
qed (simp_all add: measure_arg_def on9log_cstr_len_def on9log_view_len_def string_size_def
      prev_agrees_def)

definition args_size :: "log_arg list \<Rightarrow> nat" where
  "args_size vals = length (concat (map arg_bytes vals))"

lemma args_size_simps [simp]:
  "args_size [] = 0" "args_size (v # vals) = length (arg_bytes v) + args_size vals"
  by (simp_all add: args_size_def)

lemma args_denote_length: "args_denote env m msk idx prev types args vals \<Longrightarrow> length vals = length types"
  by (induction env m msk idx prev types args vals rule: args_denote.induct) auto

lemma args_denote_small:
  "args_denote env m msk idx prev types args vals \<Longrightarrow> config_ok env \<Longrightarrow> list_all arg_small vals"
  by (induction env m msk idx prev types args vals rule: args_denote.induct)
    (auto dest: arg_denotes_small)

lemma arg_type_at_append:
  "on9log_arg_type_at (Some (done_types @ ty # rest)) (length done_types) = Some ty"
  by (simp add: on9log_arg_type_at_def)

lemma measure_loop_denotes:
  assumes "config_ok env"
  shows "args_denote env m msk (length before) prev types args vals \<Longrightarrow>
     prev_agrees prev prev_arg_type prev_u32 \<Longrightarrow>
     measure_loop (length types) env m (Some (before @ types @ rest)) msk (length before)
       prev_arg_type prev_u32 args n lens = Some (n + args_size vals, lens_for (length before) vals lens)"
proof (induction types arbitrary: before prev args vals prev_arg_type prev_u32 n lens)
  case Nil
  then show ?case by simp
next
  case (Cons ty types)
  from Cons.prems obtain va args' v vals' where va: "args = va # args'" "vals = v # vals'"
    "arg_denotes env m (precision_of msk (length before) prev) ty va v"
    "args_denote env m msk (length (before @ [ty])) (va_int va) types args' vals'"
    by (cases args; cases vals) auto
  obtain prev_u32' where step:
    "measure_arg env m msk (length before) ty prev_arg_type prev_u32 (va # args') n lens =
       Some (prev_u32', args', n + length (arg_bytes v),
         case arg_len v of None \<Rightarrow> lens | Some l \<Rightarrow> lens(length before := Some l))"
    "prev_agrees (va_int va) ty prev_u32'"
    using measure_arg_denotes [OF va(3) Cons.prems(2) assms] by blast
  show ?case using Cons.IH [OF va(4) step(2)] step(1)
    by (simp add: va(1,2) arg_type_at_append add.assoc)
qed

lemma measure_payload_denotes:
  assumes "config_ok env" and "args_denote env m msk 0 None types args vals"
    and "length types \<le> ON9LOG_MAX_ARGS"
  shows "on9log_measure_payload env m (Some (types @ rest)) msk args (length types) prefix_len =
     (if prefix_len + 1 + length types + args_size vals \<le> ON9LOG_PAYLOAD_LEN_MAX
      then Some (Some (word_of_nat (prefix_len + 1 + length types + args_size vals),
                       lens_for 0 vals (\<lambda>_. None)))
      else Some None)"
  using measure_loop_denotes [OF assms(1), of m msk "[]" None types args vals 0 0 rest
      "prefix_len + 1 + length types" "\<lambda>_. None"] assms(2,3)
  by (simp add: on9log_measure_payload_def prev_agrees_def)

section \<open>The emitting pass\<close>

text \<open>
  \<open>arg_sent m' ty va v\<close>: emitting argument \<open>va\<close> with the length recorded for \<open>v\<close> sends \<open>v\<close>.
  The contents of strings are those of the memory at emission.
\<close>

inductive arg_sent :: "mem \<Rightarrow> u8 \<Rightarrow> va_value \<Rightarrow> log_arg \<Rightarrow> bool" for m' where
  sent_int32: "arg_sent m' 1 (VA_u32 v) (Arg32 v)"
| sent_int64: "arg_sent m' 2 (VA_u64 w) (Arg64 w)"
| sent_pointer: "arg_sent m' 3 (VA_ptr p) (ArgPtr (word_of_nat p))"
| sent_null: "arg_sent m' 4 (VA_ptr p) (ArgStr None)"
| sent_string: "rd_bytes m' p (length s) = Some s \<Longrightarrow> arg_sent m' 4 (VA_ptr p) (ArgStr (Some s))"
| sent_null_view: "arg_sent m' 5 (VA_view w) (ArgStr None)"
| sent_view: "rd_bytes m' (sv_data w) (length s) = Some s \<Longrightarrow>
    arg_sent m' 5 (VA_view (Some w)) (ArgStr (Some s))"

fun args_sent :: "mem \<Rightarrow> bytes \<Rightarrow> va_list \<Rightarrow> log_arg list \<Rightarrow> bool" where
  "args_sent m' [] args vals \<longleftrightarrow> vals = []"
| "args_sent m' (ty # types) (va # args) (v # vals) \<longleftrightarrow>
     arg_sent m' ty va v \<and> args_sent m' types args vals"
| "args_sent m' _ _ _ \<longleftrightarrow> False"

lemma arg_denotes_sent: "arg_denotes env m prec ty va v \<Longrightarrow> arg_sent m ty va v"
proof (induction rule: arg_denotes.induct)
  case (c_string p s)
  then show ?case by (auto simp: text_at_def intro: sent_string rd_bytes_clip)
next
  case (view v s)
  moreover from this have "length s = min (sv_len v) (cfg_max_dynamic_string_len env)"
    by (simp add: length_rd_bytes)
  ultimately show ?case by (auto intro: sent_view)
qed (auto intro: arg_sent.intros)

lemma args_denote_sent: "args_denote env m msk idx prev types args vals \<Longrightarrow> args_sent m types args vals"
  by (induction env m msk idx prev types args vals rule: args_denote.induct)
    (auto dest: arg_denotes_sent)

lemma arg_sent_type: "arg_sent m' ty va v \<Longrightarrow> arg_has_type v ty"
  by (induction rule: arg_sent.induct) simp_all

lemma args_sent_types: "args_sent m' types args vals \<Longrightarrow> list_all2 arg_has_type vals types"
  by (induction m' types args vals rule: args_sent.induct) (auto dest: arg_sent_type)

text \<open>The chunks one argument is written in.\<close>

fun arg_chunks :: "nat \<Rightarrow> nat \<Rightarrow> log_arg \<Rightarrow> chunk list" where
  "arg_chunks n idx (Arg32 v) = [(le_bytes 4 (unat v), n, idx)]"
| "arg_chunks n idx (Arg64 v) = [(le_bytes 8 (unat v), n, idx)]"
| "arg_chunks n idx (ArgPtr v) = [(le_bytes 4 (unat v), n, idx)]"
| "arg_chunks n idx (ArgStr None) = [(le_bytes 4 0xffffffff, n, idx)]"
| "arg_chunks n idx (ArgStr (Some s)) = string_chunks (length s) s n idx"

primrec args_chunks :: "nat \<Rightarrow> nat \<Rightarrow> log_arg list \<Rightarrow> chunk list" where
  "args_chunks n idx [] = []"
| "args_chunks n idx (v # vals) = arg_chunks n idx v @ args_chunks n (Suc idx) vals"

lemma arg_chunks_bytes: "chunks_bytes (arg_chunks n idx v) = arg_bytes v"
  by (induction n idx v rule: arg_chunks.induct) simp_all

lemma args_chunks_bytes: "chunks_bytes (args_chunks n idx vals) = concat (map arg_bytes vals)"
  by (induction vals arbitrary: idx) (simp_all add: arg_chunks_bytes)

lemma emit_string_events:
  assumes "rd_bytes m' p (length s) = Some s" and "length s < 4294967295"
  shows "on9log_emit_string m' stream p (word_of_nat (length s)) n idx st =
           Some (observe (chunks_events stream (string_chunks (length s) s n idx)) st)"
  using assms word_of_nat_not_null [OF assms(2)] emit_string_bytes_events [OF assms(1)]
  by (simp add: on9log_emit_string_def unat_word_of_nat_u32)

lemma emit_null_string_events:
  "on9log_emit_string m' stream p ON9LOG_NULL_STRING_LEN n idx st =
     Some (observe (chunks_events stream [(le_bytes 4 0xffffffff, n, idx)]) st)"
  by (simp add: on9log_emit_string_def stream_simps)

lemma emit_payload_arg_sent:
  assumes "arg_sent m' ty va v" and "arg_small v" and "arg_len v \<noteq> None \<longrightarrow> lens idx = arg_len v"
  shows "emit_payload_arg m' stream ty lens n idx (va # args) st =
           Some (args, observe (chunks_events stream (arg_chunks n idx v)) st)"
  using assms
  by (cases rule: arg_sent.cases)
    (simp_all add: emit_payload_arg_def stream_simps emit_null_string_events emit_string_events)

lemma emit_args_loop_sent:
  "args_sent m' types args vals \<Longrightarrow> list_all arg_small vals \<Longrightarrow>
     (\<And>i. i < length vals \<Longrightarrow> arg_len (vals ! i) \<noteq> None \<Longrightarrow>
        lens (length before + i) = arg_len (vals ! i)) \<Longrightarrow>
     emit_args_loop (length types) m' stream (Some (before @ types @ rest)) lens n (length before) args st =
       Some (observe (chunks_events stream (args_chunks n (length before) vals)) st)"
proof (induction types arbitrary: before args vals st)
  case Nil
  then show ?case by simp
next
  case (Cons ty types)
  from Cons.prems(1) obtain va args' v vals' where va: "args = va # args'" "vals = v # vals'"
    "arg_sent m' ty va v" "args_sent m' types args' vals'"
    by (cases args; cases vals) auto
  have small: "arg_small v" "list_all arg_small vals'" using Cons.prems(2) va by simp_all
  have "arg_len v \<noteq> None \<longrightarrow> lens (length before) = arg_len v"
    using Cons.prems(3) [of 0] va by simp
  note step = emit_payload_arg_sent [where lens = lens and idx = "length before", OF va(3) small(1) this]
  have "lens (length (before @ [ty]) + i) = arg_len (vals' ! i)"
    if "i < length vals'" "arg_len (vals' ! i) \<noteq> None" for i
    using Cons.prems(3) [of "Suc i"] va that by simp
  note IH = Cons.IH [OF va(4) small(2) this]
  show ?case using IH step
    by (simp add: va(1,2) arg_type_at_append)
qed

lemma lens_for_nth:
  "i < length vals \<Longrightarrow> arg_len (vals ! i) \<noteq> None \<Longrightarrow> lens_for idx vals lens (idx + i) = arg_len (vals ! i)"
proof (induction vals arbitrary: idx i lens)
  case Nil
  then show ?case by simp
next
  case (Cons v vals)
  then show ?case
  proof (cases i)
    case 0
    then show ?thesis using Cons.prems by (auto simp: lens_for_before)
  next
    case (Suc j)
    then show ?thesis using Cons.IH [of j "Suc idx"] Cons.prems by simp
  qed
qed

section \<open>Strings that change between the passes\<close>

text \<open>Equal but for the contents of strings, whose lengths agree.\<close>

fun resent :: "log_arg \<Rightarrow> log_arg \<Rightarrow> bool" where
  "resent (ArgStr (Some s)) (ArgStr (Some t)) \<longleftrightarrow> length s = length t"
| "resent v w \<longleftrightarrow> v = w"

fun ref_resent :: "wire_ref \<Rightarrow> wire_ref \<Rightarrow> bool" where
  "ref_resent (Inline s) (Inline t) \<longleftrightarrow> length s = length t"
| "ref_resent r q \<longleftrightarrow> r = q"

definition ref_sent :: "mem \<Rightarrow> addr \<Rightarrow> wire_ref \<Rightarrow> bool" where
  "ref_sent m' str r \<longleftrightarrow>
     (case r of ByAddress a \<Rightarrow> True | Inline s \<Rightarrow> rd_bytes m' str (length s) = Some s)"

lemma resent_refl: "resent v v"
  by (cases v rule: arg_small.cases) simp_all

lemma ref_resent_refl: "ref_resent r r"
  by (cases r) simp_all

lemma resent_facts:
  "resent v w \<Longrightarrow> arg_len w = arg_len v \<and> length (arg_bytes w) = length (arg_bytes v) \<and>
     arg_small w = arg_small v"
  by (induction v w rule: resent.induct) auto

lemma resent_list_facts:
  "list_all2 resent vals vals' \<Longrightarrow> map arg_len vals' = map arg_len vals \<and>
     args_size vals' = args_size vals \<and> list_all arg_small vals' = list_all arg_small vals"
  by (induction rule: list_all2_induct) (auto dest: resent_facts)

lemma rd_bytes_dom:
  "dom m \<subseteq> dom m' \<Longrightarrow> rd_bytes m p n = Some bs \<Longrightarrow> \<exists>bs'. rd_bytes m' p n = Some bs' \<and> length bs' = n"
proof (induction n arbitrary: p bs)
  case 0
  then show ?case by simp
next
  case (Suc n)
  then obtain b cs where "m p = Some b" "rd_bytes m (Suc p) n = Some cs"
    by (auto split: Option.bind_splits)
  moreover from this Suc obtain b' where "m' p = Some b'" by blast
  ultimately show ?case using Suc.IH [OF Suc.prems(1)] by fastforce
qed

lemma rd_bytes_dom_length:
  assumes "dom m \<subseteq> dom m'" and "rd_bytes m p (length s) = Some s"
  obtains t where "rd_bytes m' p (length t) = Some t" and "length t = length s"
  using rd_bytes_dom [OF assms] by metis

lemma arg_sent_dom:
  assumes "arg_sent m ty va v" and dom: "dom m \<subseteq> dom m'"
  shows "\<exists>v'. arg_sent m' ty va v' \<and> resent v v'"
  using assms(1)
proof (cases rule: arg_sent.cases)
  case (sent_string p s)
  then obtain t where "rd_bytes m' p (length t) = Some t" "length t = length s"
    using rd_bytes_dom_length [OF dom] by blast
  then show ?thesis using sent_string arg_sent.sent_string [of m' p t] by auto
next
  case (sent_view w s)
  then obtain t where "rd_bytes m' (sv_data w) (length t) = Some t" "length t = length s"
    using rd_bytes_dom_length [OF dom] by blast
  then show ?thesis using sent_view arg_sent.sent_view [of m' w t] by auto
qed (auto intro: arg_sent.intros resent_refl)

lemma args_sent_dom:
  "args_sent m types args vals \<Longrightarrow> dom m \<subseteq> dom m' \<Longrightarrow>
     \<exists>vals'. args_sent m' types args vals' \<and> list_all2 resent vals vals'"
proof (induction m types args vals rule: args_sent.induct)
  case (2 m ty types va args v vals)
  then obtain v' vals' where "arg_sent m' ty va v'" "resent v v'"
    "args_sent m' types args vals'" "list_all2 resent vals vals'"
    using arg_sent_dom by (metis args_sent.simps(2))
  then have "args_sent m' (ty # types) (va # args) (v' # vals') \<and> list_all2 resent (v # vals) (v' # vals')"
    by simp
  then show ?case by blast
qed simp_all

lemma ref_sent_dom:
  assumes "ref_sent m str r" and "dom m \<subseteq> dom m'"
  shows "\<exists>r'. ref_sent m' str r' \<and> ref_resent r r'"
proof (cases r)
  case (Inline s)
  then obtain t where "rd_bytes m' str (length t) = Some t" "length t = length s"
    using rd_bytes_dom_length [OF assms(2), of str s] assms(1) by (auto simp: ref_sent_def)
  then show ?thesis using Inline by (intro exI [of _ "Inline t"]) (simp add: ref_sent_def)
qed (auto simp: ref_sent_def intro: ref_resent_refl)

section \<open>Tags and formats\<close>

definition wire_of :: "wire_ref \<Rightarrow> on9log_wire_str_t" where
  "wire_of r = (case r of ByAddress a \<Rightarrow> \<lparr>ws_id = a, ws_len = 0\<rparr>
                        | Inline s \<Rightarrow> \<lparr>ws_id = ON9LOG_ID_INLINE, ws_len = word_of_nat (length s)\<rparr>)"

definition ref_fits :: "wire_ref \<Rightarrow> bool" where
  "ref_fits r \<longleftrightarrow> (case r of ByAddress a \<Rightarrow> a \<noteq> ON9LOG_ID_INLINE | Inline s \<Rightarrow> length s < 4294967295)"

lemma ref_fits_ok: "ref_fits r \<Longrightarrow> ref_id_ok (ws_id (wire_of r)) r"
  by (auto simp: ref_fits_def ref_id_ok_def wire_of_def split: wire_ref.splits)

lemma ref_denotes_facts:
  assumes "ref_denotes env m str r" and "config_ok env"
  shows "ref_fits r" and "ref_sent m str r"
    and "on9log_wire_str env m str (cfg_max_dynamic_string_len env) = Some (wire_of r)"
proof -
  have "ref_fits r \<and> ref_sent m str r \<and>
      on9log_wire_str env m str (cfg_max_dynamic_string_len env) = Some (wire_of r)"
  proof (cases "str \<noteq> NULL \<and> \<not> port_addr_in_image env str")
    case True
    then obtain s where s: "r = Inline s" "text_at m str (cfg_max_dynamic_string_len env) s"
      using assms(1) by (auto simp: ref_denotes_def)
    then show ?thesis using True assms(2) bounded_strlen_text [OF s(2)] text_at_length [OF s(2)]
      by (auto simp: ref_fits_def ref_sent_def on9log_wire_str_def wire_of_def config_ok_def text_at_def)
  next
    case False
    then have r: "r = (if word_of_nat str = ON9LOG_ID_INLINE then Inline []
        else ByAddress (word_of_nat str))" using assms(1) by (simp only: ref_denotes_def if_False)
    have w: "on9log_wire_str env m str (cfg_max_dynamic_string_len env) =
        Some \<lparr>ws_id = word_of_nat str, ws_len = 0\<rparr>"
      using False by (simp only: on9log_wire_str_def if_False)
    show ?thesis unfolding r w by (simp add: ref_fits_def ref_sent_def wire_of_def)
  qed
  then show "ref_fits r" "ref_sent m str r"
    "on9log_wire_str env m str (cfg_max_dynamic_string_len env) = Some (wire_of r)" by blast+
qed

lemma ref_resent_facts:
  "ref_resent r q \<Longrightarrow> wire_of q = wire_of r \<and> ref_fits q = ref_fits r \<and>
     length (ref_bytes q) = length (ref_bytes r)"
  by (induction r q rule: ref_resent.induct) (auto simp: wire_of_def ref_fits_def ref_bytes_def)

lemma wire_str_size_of: "ref_fits r \<Longrightarrow> on9log_wire_str_size (wire_of r) = length (ref_bytes r)"
  by (auto simp: ref_fits_def on9log_wire_str_size_def wire_of_def ref_bytes_def unat_word_of_nat_u32
      split: wire_ref.splits)

definition ref_chunks :: "nat \<Rightarrow> wire_ref \<Rightarrow> chunk list" where
  "ref_chunks n r =
     (case r of ByAddress a \<Rightarrow> []
              | Inline s \<Rightarrow> string_chunks (length s) s n ON9LOG_PAYLOAD_META_ARG_INDEX)"

lemma ref_chunks_bytes [simp]: "chunks_bytes (ref_chunks n r) = ref_bytes r"
  by (simp add: ref_chunks_def ref_bytes_def split: wire_ref.split)

lemma emit_wire_str_events:
  "ref_sent m' str r \<Longrightarrow> ref_fits r \<Longrightarrow>
     on9log_emit_wire_str m' stream str (wire_of r) n st =
       Some (observe (chunks_events stream (ref_chunks n r)) st)"
  by (auto simp: ref_sent_def ref_fits_def on9log_emit_wire_str_def wire_of_def ref_chunks_def
      unat_word_of_nat_u32 emit_string_bytes_events split: wire_ref.splits)

section \<open>The DROPPED notification\<close>

lemma session_events:
  "observe (EmitLock # map (\<lambda>s. StartCb s h) stream @ chunks_events stream cs @ map EndCb stream @
     [EmitUnlock]) st = observe (session stream h cs) st"
  by (simp add: session_def)

definition next_header :: "on9log_state \<Rightarrow> on9log_state" where
  "next_header st = st\<lparr>s_seq := s_seq st + 1, st_clock := Suc (st_clock st)\<rparr>"

lemma next_header_sel [simp]:
  "s_sinks (next_header st) = s_sinks st"
  "s_seq (next_header st) = s_seq st + 1"
  "s_dropped_count (next_header st) = s_dropped_count st"
  "st_events (next_header st) = st_events st"
  "st_clock (next_header st) = Suc (st_clock st)"
  by (simp_all add: next_header_def)

definition dropped_header :: "on9log_env \<Rightarrow> on9log_state \<Rightarrow> bytes" where
  "dropped_header env st =
     header_bytes ON9LOG_PKT_DROPPED 0 (s_seq st) (port_timestamp_ms env (st_clock st)) 0 0 4"

lemma emit_dropped_packet_events:
  "on9log_emit_dropped_packet env n st =
     observe (session (registered st) (Some (dropped_header env st)) [(le_bytes 4 (unat n), 1, 0)])
       (next_header st)"
  by (simp add: on9log_emit_dropped_packet_def stream_simps registered_def session_def
      dropped_header_def next_header_def)

lemma report_dropped_cases:
  "report_dropped env st =
     (if s_dropped_count st = 0 then st
      else observe (session (registered st) (Some (dropped_header env st))
                     [(le_bytes 4 (unat (s_dropped_count st)), 1, 0)])
             (next_header st\<lparr>s_dropped_count := 0\<rparr>))"
  by (simp add: report_dropped_def Let_def emit_dropped_packet_events registered_def
      dropped_header_def next_header_def)

lemma report_dropped_sel [simp]:
  "s_dropped_count (report_dropped env st) = 0"
  "s_sinks (report_dropped env st) = s_sinks st"
  "registered (report_dropped env st) = registered st"
  by (simp_all add: report_dropped_cases registered_def)

section \<open>The call\<close>

definition log_chunks :: "wire_ref \<Rightarrow> wire_ref \<Rightarrow> bytes \<Rightarrow> log_arg list \<Rightarrow> chunk list" where
  "log_chunks tag fmt types vals =
     (let n = length types
      in ref_chunks n tag @ ref_chunks n fmt @
         [([word_of_nat n], n, ON9LOG_PAYLOAD_META_ARG_INDEX), (types, n, ON9LOG_PAYLOAD_META_ARG_INDEX)] @
         args_chunks n 0 vals)"

lemma log_chunks_events:
  "chunks_events stream (log_chunks tag fmt types vals) =
     chunks_events stream (ref_chunks (length types) tag) @
     chunks_events stream (ref_chunks (length types) fmt) @
     chunks_events stream [([word_of_nat (length types)], length types, ON9LOG_PAYLOAD_META_ARG_INDEX)] @
     chunks_events stream [(types, length types, ON9LOG_PAYLOAD_META_ARG_INDEX)] @
     chunks_events stream (args_chunks (length types) 0 vals)"
  by (simp add: log_chunks_def Let_def chunks_events_def)

lemma log_chunks_bytes: "chunks_bytes (log_chunks tag fmt types vals) = log_payload_bytes tag fmt types vals"
  by (simp add: log_chunks_def Let_def log_payload_bytes_def args_chunks_bytes)

definition log_header ::
    "on9log_env \<Rightarrow> on9log_level_t \<Rightarrow> wire_ref \<Rightarrow> wire_ref \<Rightarrow> bytes \<Rightarrow> log_arg list \<Rightarrow> on9log_state \<Rightarrow> bytes" where
  "log_header env level tag fmt types vals st =
     header_bytes ON9LOG_PKT_LOG level (s_seq st) (port_timestamp_ms env (st_clock st))
       (ws_id (wire_of tag)) (ws_id (wire_of fmt))
       (word_of_nat (length (log_payload_bytes tag fmt types vals)))"

definition log_sent ::
    "on9log_env \<Rightarrow> on9log_level_t \<Rightarrow> wire_ref \<Rightarrow> wire_ref \<Rightarrow> bytes \<Rightarrow> log_arg list \<Rightarrow> on9log_state \<Rightarrow>
       on9log_state" where
  "log_sent env level tag fmt types vals st =
     observe (session (registered st) (Some (log_header env level tag fmt types vals st))
               (log_chunks tag fmt types vals))
       (next_header st)"

lemma length_log_payload:
  "length (log_payload_bytes tag fmt types vals) =
     length (ref_bytes tag) + length (ref_bytes fmt) + 1 + length types + args_size vals"
  by (simp add: log_payload_bytes_def args_size_def)

lemma log_payload_resent:
  "ref_resent tag tag' \<Longrightarrow> ref_resent fmt fmt' \<Longrightarrow> list_all2 resent vals vals' \<Longrightarrow>
     length (log_payload_bytes tag' fmt' types vals') = length (log_payload_bytes tag fmt types vals)"
  by (simp add: length_log_payload ref_resent_facts resent_list_facts)

lemma emit_header_log:
  "on9log_emit_header env ON9LOG_PKT_LOG level (ws_id (wire_of tag)) (ws_id (wire_of fmt))
       (word_of_nat (length (log_payload_bytes tag fmt types vals))) st =
     (registered st, observe (EmitLock # map (\<lambda>s. StartCb s (Some (log_header env level tag fmt types vals st)))
                        (registered st)) (next_header st))"
  by (simp add: emit_header_events registered_def log_header_def next_header_def)

lemma types_chunk:
  "n = length types \<Longrightarrow>
   (if n \<noteq> 0
    then do { ts \<leftarrow> rd_table (Some (types @ rest)) n; Some (on9log_stream_payload stream ts n i st) }
    else Some st) = Some (observe (chunks_events stream [(types, n, i)]) st)"
  by (cases types) (simp_all add: rd_table_def stream_payload_events chunks_events_def)

lemma unat_arg_count: "length types \<le> 32 \<Longrightarrow> unat (word_of_nat (length types) :: u8) = length types"
  by (simp add: unat_word_of_nat_u8)

lemma arg_count_zero: "length types \<le> 32 \<Longrightarrow> (word_of_nat (length types) = (0 :: u8)) = (types = [])"
  by (metis unat_arg_count length_0_conv unat_0 unat_eq_zero)

text \<open>
  \<open>call_denotes\<close>: the arguments match the type table, every pointer that is read points to
  readable text, and the call says \<open>tag\<close>, \<open>fmt\<close> and \<open>vals\<close>.
\<close>

definition call_denotes ::
    "on9log_env \<Rightarrow> mem \<Rightarrow> addr \<Rightarrow> addr \<Rightarrow> bytes option \<Rightarrow> bytes \<Rightarrow> bool \<Rightarrow> va_list \<Rightarrow>
       wire_ref \<Rightarrow> wire_ref \<Rightarrow> log_arg list \<Rightarrow> bool" where
  "call_denotes env m tagp fmtp scan types dyn args tag fmt vals \<longleftrightarrow>
     ref_denotes env m tagp tag \<and> ref_denotes env m fmtp fmt \<and> length types \<le> ON9LOG_MAX_ARGS \<and>
     (case precision_mask scan (word_of_nat (length types)) dyn of
        None \<Rightarrow> False | Some msk \<Rightarrow> args_denote env m msk 0 None types args vals)"

lemma call_denotesE:
  assumes "call_denotes env m tagp fmtp scan types dyn args tag fmt vals"
  obtains msk where "ref_denotes env m tagp tag" and "ref_denotes env m fmtp fmt"
    and "length types \<le> 32" and "precision_mask scan (word_of_nat (length types)) dyn = Some msk"
    and "args_denote env m msk 0 None types args vals"
  using assms by (auto simp: call_denotes_def split: option.splits)

text \<open>What is sent when the strings are read again from \<open>m'\<close>.\<close>

definition call_sent ::
    "mem \<Rightarrow> addr \<Rightarrow> addr \<Rightarrow> bytes \<Rightarrow> va_list \<Rightarrow> wire_ref \<times> wire_ref \<times> log_arg list \<Rightarrow>
       wire_ref \<times> wire_ref \<times> log_arg list \<Rightarrow> bool" where
  "call_sent m' tagp fmtp types args said sent \<longleftrightarrow>
     (case (said, sent) of ((tag, fmt, vals), (tag', fmt', vals')) \<Rightarrow>
        ref_sent m' tagp tag' \<and> ref_resent tag tag' \<and> ref_sent m' fmtp fmt' \<and> ref_resent fmt fmt' \<and>
        args_sent m' types args vals' \<and> list_all2 resent vals vals')"

lemma emit_payload_args_sent:
  assumes "args_sent m' types args vals'" and "list_all2 resent vals vals'"
    and "list_all arg_small vals"
  shows "on9log_emit_payload_args m' stream (Some (types @ rest)) (lens_for 0 vals (\<lambda>_. None)) args
           (length types) st =
         Some (observe (chunks_events stream (args_chunks (length types) 0 vals')) st)"
proof -
  have lens: "map arg_len vals' = map arg_len vals" and small: "list_all arg_small vals'"
    using resent_list_facts [OF assms(2)] assms(3) by simp_all
  have "length vals' = length vals" using lens by (metis length_map)
  then have "lens_for 0 vals (\<lambda>_. None) (length ([] :: bytes) + i) = arg_len (vals' ! i)"
    if "i < length vals'" and "arg_len (vals' ! i) \<noteq> None" for i
    using that lens_for_nth [of i vals 0 "\<lambda>_. None"] lens by (metis nth_map add_0 list.size(3))
  note loop = emit_args_loop_sent [OF assms(1) small this]
  show ?thesis using loop [where rest = rest and stream = stream and n = "length types" and st = st]
    by (simp add: on9log_emit_payload_args_def)
qed

lemma vwrite_fits:
  assumes cfg: "config_ok env" and on: "on9log_level_enabled env m st level tagp = Some True"
    and den: "call_denotes env m tagp fmtp scan types dyn args tag fmt vals"
    and fit: "length (log_payload_bytes tag fmt types vals) \<le> ON9LOG_PAYLOAD_LEN_MAX"
    and sent: "call_sent m' tagp fmtp types args (tag, fmt, vals) (tag', fmt', vals')"
  shows "on9log_vwrite env m m' level tagp fmtp scan (Some (types @ rest))
           (word_of_nat (length types)) dyn args st =
         Some (log_sent env level tag' fmt' types vals' (report_dropped env st))"
proof -
  let ?n = "length types" and ?st = "report_dropped env st"
  obtain msk where tag: "ref_denotes env m tagp tag" and fmt: "ref_denotes env m fmtp fmt"
    and n: "?n \<le> 32" and msk: "precision_mask scan (word_of_nat ?n) dyn = Some msk"
    and args: "args_denote env m msk 0 None types args vals"
    using den by (rule call_denotesE)
  note T = ref_denotes_facts [OF tag cfg] and F = ref_denotes_facts [OF fmt cfg]
  have s: "ref_sent m' tagp tag'" "ref_resent tag tag'" "ref_sent m' fmtp fmt'" "ref_resent fmt fmt'"
    "args_sent m' types args vals'" "list_all2 resent vals vals'"
    using sent by (auto simp: call_sent_def)
  have wt: "wire_of tag = wire_of tag'" "ref_fits tag'" and wf: "wire_of fmt = wire_of fmt'" "ref_fits fmt'"
    using ref_resent_facts [OF s(2)] ref_resent_facts [OF s(4)] T(1) F(1) by simp_all
  have len: "length (log_payload_bytes tag fmt types vals) = length (log_payload_bytes tag' fmt' types vals')"
    using log_payload_resent [OF s(2,4,6)] by simp
  have meas: "on9log_measure_payload env m (Some (types @ rest)) msk args ?n
      (on9log_wire_str_size (wire_of tag) + on9log_wire_str_size (wire_of fmt)) =
      Some (Some (word_of_nat (length (log_payload_bytes tag' fmt' types vals')),
                  lens_for 0 vals (\<lambda>_. None)))"
  proof -
    have "on9log_wire_str_size (wire_of tag) + on9log_wire_str_size (wire_of fmt) + 1 + ?n +
        args_size vals = length (log_payload_bytes tag' fmt' types vals')"
      unfolding len [symmetric] by (simp add: wire_str_size_of T(1) F(1) length_log_payload)
    moreover have "length (log_payload_bytes tag' fmt' types vals') \<le> ON9LOG_PAYLOAD_LEN_MAX"
      using fit len by simp
    ultimately show ?thesis using measure_payload_denotes [OF cfg args n] by (simp only: if_True)
  qed
  note emit = emit_payload_args_sent [OF s(5,6) args_denote_small [OF args cfg]]
  have types: "(if word_of_nat ?n \<noteq> (0 :: u8)
      then do { ts \<leftarrow> rd_table (Some (types @ rest)) ?n; Some (on9log_stream_payload stream ts ?n i s) }
      else Some s) = Some (observe (chunks_events stream [(types, ?n, i)]) s)" for stream i s
    using types_chunk [of ?n types rest stream i s] arg_count_zero [OF n] by simp
  show ?thesis
    unfolding on9log_vwrite_def on msk T(3) F(3) meas unat_arg_count [OF n] bind.bind_lunit
      if_not_P option.case prod.case Let_def simp_thms
    by (simp add: wt(1) wf(1) meas [unfolded wt(1) wf(1)] emit_header_log emit_wire_str_events s(1,3) wt(2) wf(2)
        emit_u8_events types emit stream_end_events log_sent_def session_def log_chunks_events
        del: word_of_nat_eq_0_iff)
qed

section \<open>Delivery\<close>

definition dropped_packets :: "on9log_env \<Rightarrow> on9log_state \<Rightarrow> packet list" where
  "dropped_packets env st =
     (if s_dropped_count st = 0 then []
      else [(Some (dropped_header env st), le_bytes 4 (unat (s_dropped_count st)))])"

lemma report_dropped_delivers:
  assumes "sinks_ok st" and "sink_idle s (st_events st)" and "s \<in> set (registered st)"
  shows "sink_packets s (st_events (report_dropped env st)) =
           sink_packets s (st_events st) @ dropped_packets env st"
    and "sink_idle s (st_events (report_dropped env st))"
  using assms sink_packets_session [OF _ assms(2)]
  by (simp_all add: report_dropped_cases dropped_packets_def sinks_ok_def)

lemma report_dropped_seq:
  "s_seq (report_dropped env st) = s_seq st + (if s_dropped_count st = 0 then 0 else 1)"
  "st_clock (report_dropped env st) = st_clock st + (if s_dropped_count st = 0 then 0 else 1)"
  by (simp_all add: report_dropped_cases)

lemma log_sent_delivers:
  assumes "sinks_ok st" and "sink_idle s (st_events st)" and "s \<in> set (registered st)"
  shows "sink_packets s (st_events (log_sent env level tag fmt types vals (report_dropped env st))) =
           sink_packets s (st_events st) @ dropped_packets env st @
             [(Some (log_header env level tag fmt types vals (report_dropped env st)),
               log_payload_bytes tag fmt types vals)]"
    and "sink_idle s (st_events (log_sent env level tag fmt types vals (report_dropped env st)))"
  using assms report_dropped_delivers [OF assms] sink_packets_session [OF _ report_dropped_delivers(2) [OF assms]]
  by (simp_all add: log_sent_def sinks_ok_def log_chunks_bytes)

text \<open>The header fields a reader recovers.\<close>

definition log_packet_header ::
    "on9log_env \<Rightarrow> on9log_level_t \<Rightarrow> wire_ref \<Rightarrow> wire_ref \<Rightarrow> nat \<Rightarrow> on9log_state \<Rightarrow> packet_header" where
  "log_packet_header env level tag fmt n st =
     (let k = if s_dropped_count st = 0 then 0 else 1
      in \<lparr>ph_type = 0, ph_level = unat level, ph_seq = unat (s_seq st + of_nat k),
          ph_time_ms = unat (port_timestamp_ms env (st_clock st + k)),
          ph_tag_id = ws_id (wire_of tag), ph_fmt_id = ws_id (wire_of fmt), ph_payload_len = n\<rparr>)"

lemma enabled_level_small:
  assumes "on9log_level_enabled env m st level tag = Some True"
  shows "unat level mod 16 = unat level"
proof -
  have "level \<le> 5" using assms by (auto simp: on9log_level_enabled_def split: if_splits)
  then have "unat level \<le> 5" by (simp add: word_le_nat_alt)
  then show ?thesis by simp
qed

lemma parse_log_sent:
  assumes "ref_fits tag" and "ref_fits fmt" and "length types \<le> ON9LOG_MAX_ARGS"
    and "list_all2 arg_has_type vals types" and "list_all arg_small vals"
    and fit: "length (log_payload_bytes tag fmt types vals) \<le> ON9LOG_PAYLOAD_LEN_MAX"
    and "unat level mod 16 = unat level"
  shows "parse_log_packet (log_header env level tag fmt types vals (report_dropped env st) @
           log_payload_bytes tag fmt types vals) =
         Some (log_packet_header env level tag fmt (length (log_payload_bytes tag fmt types vals)) st,
               \<lparr>lm_tag = tag, lm_fmt = fmt, lm_args = vals\<rparr>)"
proof -
  have n: "unat (word_of_nat (length (log_payload_bytes tag fmt types vals)) :: u16) =
      length (log_payload_bytes tag fmt types vals)"
    using fit by (simp add: unat_of_nat)
  let ?h = "log_packet_header env level tag fmt (length (log_payload_bytes tag fmt types vals)) st"
  have "parse_header (log_header env level tag fmt types vals (report_dropped env st) @
      log_payload_bytes tag fmt types vals) = Some (?h, log_payload_bytes tag fmt types vals)"
    using assms(7) by (simp add: log_header_def parse_header_bytes n log_packet_header_def
        report_dropped_seq)
  moreover have "parse_log_payload ?h (log_payload_bytes tag fmt types vals) =
      Some \<lparr>lm_tag = tag, lm_fmt = fmt, lm_args = vals\<rparr>"
    by (rule parse_log_payload_bytes)
      (use assms in \<open>simp_all add: log_packet_header_def ref_fits_ok\<close>)
  ultimately show ?thesis by (simp add: parse_log_packet_def)
qed

text \<open>A call and what each registered sink is given of it, with whatever is read on emission.\<close>

lemma vwrite_delivers:
  assumes "config_ok env" and "sinks_ok st" and "sink_idle s (st_events st)" and "s \<in> set (registered st)"
    and on: "on9log_level_enabled env m st level tagp = Some True"
    and den: "call_denotes env m tagp fmtp scan types dyn args tag fmt vals"
    and fit: "length (log_payload_bytes tag fmt types vals) \<le> ON9LOG_PAYLOAD_LEN_MAX"
    and sent: "call_sent m' tagp fmtp types args (tag, fmt, vals) (tag', fmt', vals')"
  shows "\<exists>st' hdr payload.
     on9log_vwrite env m m' level tagp fmtp scan (Some (types @ rest)) (word_of_nat (length types)) dyn
       args st = Some st' \<and>
     sink_packets s (st_events st') =
       sink_packets s (st_events st) @ dropped_packets env st @ [(Some hdr, payload)] \<and>
     parse_log_packet (hdr @ payload) =
       Some (log_packet_header env level tag fmt (length payload) st,
             \<lparr>lm_tag = tag', lm_fmt = fmt', lm_args = vals'\<rparr>)"
proof -
  obtain msk where tag: "ref_denotes env m tagp tag" and fmt: "ref_denotes env m fmtp fmt"
    and n: "length types \<le> 32" and args: "args_denote env m msk 0 None types args vals"
    using den by (rule call_denotesE)
  have s: "ref_resent tag tag'" "ref_resent fmt fmt'" "args_sent m' types args vals'"
    "list_all2 resent vals vals'"
    using sent by (auto simp: call_sent_def)
  have fits: "ref_fits tag'" "ref_fits fmt'" and w: "wire_of tag' = wire_of tag" "wire_of fmt' = wire_of fmt"
    using ref_resent_facts [OF s(1)] ref_resent_facts [OF s(2)] ref_denotes_facts(1) [OF tag assms(1)]
      ref_denotes_facts(1) [OF fmt assms(1)] by simp_all
  have small: "list_all arg_small vals'"
    using resent_list_facts [OF s(4)] args_denote_small [OF args assms(1)] by simp
  have fit': "length (log_payload_bytes tag' fmt' types vals') \<le> ON9LOG_PAYLOAD_LEN_MAX"
    using log_payload_resent [OF s(1,2,4)] fit by simp
  have ph: "log_packet_header env level tag' fmt' k st = log_packet_header env level tag fmt k st" for k
    by (simp add: log_packet_header_def w)
  show ?thesis
    using vwrite_fits [OF assms(1) on den fit sent] log_sent_delivers(1) [OF assms(2-4)]
      parse_log_sent [OF fits n args_sent_types [OF s(3)] small fit' enabled_level_small [OF on]]
    by (auto simp: ph)
qed

lemma call_sent_same:
  "call_denotes env m tagp fmtp scan types dyn args tag fmt vals \<Longrightarrow> config_ok env \<Longrightarrow>
     call_sent m tagp fmtp types args (tag, fmt, vals) (tag, fmt, vals)"
  by (erule call_denotesE)
    (simp add: call_sent_def ref_denotes_facts(2) ref_resent_refl args_denote_sent list_all2_refl
      resent_refl)

lemma call_sent_dom:
  assumes "call_denotes env m tagp fmtp scan types dyn args tag fmt vals" and "config_ok env"
    and dom: "dom m \<subseteq> dom m'"
  shows "\<exists>tag' fmt' vals'. call_sent m' tagp fmtp types args (tag, fmt, vals) (tag', fmt', vals')"
proof -
  obtain msk where "ref_denotes env m tagp tag" "ref_denotes env m fmtp fmt"
    "args_denote env m msk 0 None types args vals"
    using assms(1) by (rule call_denotesE)
  then obtain tag' fmt' vals' where "ref_sent m' tagp tag'" "ref_resent tag tag'"
    "ref_sent m' fmtp fmt'" "ref_resent fmt fmt'" "args_sent m' types args vals'"
    "list_all2 resent vals vals'"
    using ref_sent_dom [OF ref_denotes_facts(2) [OF _ assms(2)] dom]
      args_sent_dom [OF args_denote_sent dom] by meson
  then show ?thesis by (auto simp: call_sent_def)
qed

section \<open>Properties of log calls\<close>

text \<open>A concrete call for the witnesses: one sink, one integer and one string argument.\<close>

definition demo_mem :: mem where
  "demo_mem = mem_object 256 [104, 105, 0] Map.empty"

definition demo_sink :: on9log_sink_entry where
  "demo_sink = \<lparr>se_sink = 16, se_ctx = 0\<rparr>"

definition demo_state :: on9log_state where
  "demo_state = (on9log_initial_state on9log_default_env)\<lparr>s_sinks := [demo_sink], s_dropped_count := 2\<rparr>"

lemma demo_state_ok:
  "sinks_ok demo_state" "sink_idle demo_sink (st_events demo_state)"
  "demo_sink \<in> set (registered demo_state)"
  by (simp_all add: demo_state_def demo_sink_def sinks_ok_def registered_def slot_ok_def
      on9log_initial_state_def)

lemma demo_enabled: "on9log_level_enabled on9log_default_env demo_mem demo_state 3 64 = Some True"
  by (simp add: on9log_level_enabled_def on9log_filter_level_for_tag_def demo_state_def
      on9log_initial_state_def on9log_default_env_def on9log_valid_level_def)

lemma demo_text: "text_at demo_mem 256 1024 [104, 105]"
  by (simp add: text_at_def demo_mem_def mem_object_def)

lemma demo_string:
  "arg_denotes on9log_default_env demo_mem None 4 (VA_ptr 256) (ArgStr (Some [104, 105]))"
  using arg_denotes.c_string [of 256 demo_mem on9log_default_env "[104, 105]" None] demo_text
  by (simp add: on9log_default_env_def clip_def)

lemma demo_call:
  "call_denotes on9log_default_env demo_mem 64 128 None [1, 4] False [VA_u32 7, VA_ptr 256]
     (ByAddress 64) (ByAddress 128) [Arg32 7, ArgStr (Some [104, 105])]"
  using demo_string
  by (simp add: call_denotes_def ref_denotes_def precision_mask_def precision_of_def
      arg_denotes.int32 on9log_default_env_def)

lemma demo_fits:
  "length (log_payload_bytes (ByAddress 64) (ByAddress 128) [1, 4] [Arg32 7, ArgStr (Some [104, 105])])
     \<le> ON9LOG_PAYLOAD_LEN_MAX"
  by (simp add: length_log_payload ref_bytes_def)

text \<open>C3: An enabled, well-formed log call whose payload fits a header returns normally, and every
  registered sink receives one LOG packet for it (after the DROPPED report, if any is due) which the
  reference decoder reads back as exactly the call: its level, the next sequence number, the next
  clock reading, the tag, the format and every argument value.\<close>

theorem log_call_roundtrip:
  assumes "config_ok env" and "sinks_ok st" and "sink_idle s (st_events st)"
    and "s \<in> set (registered st)" and "on9log_level_enabled env m st level tagp = Some True"
    and "call_denotes env m tagp fmtp scan types dyn args tag fmt vals"
    and "length (log_payload_bytes tag fmt types vals) \<le> ON9LOG_PAYLOAD_LEN_MAX"
  shows "\<exists>st' hdr payload.
     on9log_vwrite env m m level tagp fmtp scan (Some (types @ rest)) (word_of_nat (length types)) dyn
       args st = Some st' \<and>
     sink_packets s (st_events st') =
       sink_packets s (st_events st) @ dropped_packets env st @ [(Some hdr, payload)] \<and>
     parse_log_packet (hdr @ payload) =
       Some (log_packet_header env level tag fmt (length payload) st,
             \<lparr>lm_tag = tag, lm_fmt = fmt, lm_args = vals\<rparr>)"
  by (rule vwrite_delivers [OF assms call_sent_same [OF assms(6,1)]])

theorem log_call_roundtrip_witness:
  "\<exists>st' hdr payload.
     on9log_vwrite on9log_default_env demo_mem demo_mem 3 64 128 None (Some ([1, 4] @ [0]))
       (word_of_nat (length [1 :: u8, 4])) False [VA_u32 7, VA_ptr 256] demo_state = Some st' \<and>
     sink_packets demo_sink (st_events st') =
       sink_packets demo_sink (st_events demo_state) @ dropped_packets on9log_default_env demo_state @
         [(Some hdr, payload)] \<and>
     parse_log_packet (hdr @ payload) =
       Some (log_packet_header on9log_default_env 3 (ByAddress 64) (ByAddress 128) (length payload) demo_state,
             \<lparr>lm_tag = ByAddress 64, lm_fmt = ByAddress 128,
              lm_args = [Arg32 7, ArgStr (Some [104, 105])]\<rparr>)"
  by (rule log_call_roundtrip [OF config_ok_default demo_state_ok demo_enabled demo_call demo_fits])

text \<open>C4: Another task may overwrite the strings of a call between the measuring and the emitting
  pass, as long as the memory stays readable. The header's length is then still the exact length of
  the payload, and the packet still decodes to the same message except for the contents of strings,
  whose lengths are those first measured.\<close>

theorem log_call_survives_string_changes:
  assumes "config_ok env" and "sinks_ok st" and "sink_idle s (st_events st)"
    and "s \<in> set (registered st)" and "on9log_level_enabled env m st level tagp = Some True"
    and "call_denotes env m tagp fmtp scan types dyn args tag fmt vals"
    and "length (log_payload_bytes tag fmt types vals) \<le> ON9LOG_PAYLOAD_LEN_MAX"
    and "dom m \<subseteq> dom m'"
  shows "\<exists>st' hdr payload tag' fmt' vals'.
     on9log_vwrite env m m' level tagp fmtp scan (Some (types @ rest)) (word_of_nat (length types)) dyn
       args st = Some st' \<and>
     sink_packets s (st_events st') =
       sink_packets s (st_events st) @ dropped_packets env st @ [(Some hdr, payload)] \<and>
     parse_log_packet (hdr @ payload) =
       Some (log_packet_header env level tag fmt (length payload) st,
             \<lparr>lm_tag = tag', lm_fmt = fmt', lm_args = vals'\<rparr>) \<and>
     ref_resent tag tag' \<and> ref_resent fmt fmt' \<and> list_all2 resent vals vals'"
proof -
  obtain tag' fmt' vals' where sent: "call_sent m' tagp fmtp types args (tag, fmt, vals) (tag', fmt', vals')"
    using call_sent_dom [OF assms(6,1,8)] by blast
  then have "ref_resent tag tag'" "ref_resent fmt fmt'" "list_all2 resent vals vals'"
    by (simp_all add: call_sent_def)
  then show ?thesis using vwrite_delivers [OF assms(1-7) sent, of rest] by blast
qed

definition demo_mem' :: mem where
  "demo_mem' = mem_object 256 [0, 33, 33] Map.empty"

lemma demo_mem_dom: "dom demo_mem \<subseteq> dom demo_mem'"
  by (auto simp: demo_mem_def demo_mem'_def mem_object_def split: if_splits)

theorem log_call_survives_string_changes_witness:
  "\<exists>st' hdr payload tag' fmt' vals'.
     on9log_vwrite on9log_default_env demo_mem demo_mem' 3 64 128 None (Some ([1, 4] @ [0]))
       (word_of_nat (length [1 :: u8, 4])) False [VA_u32 7, VA_ptr 256] demo_state = Some st' \<and>
     sink_packets demo_sink (st_events st') =
       sink_packets demo_sink (st_events demo_state) @ dropped_packets on9log_default_env demo_state @
         [(Some hdr, payload)] \<and>
     parse_log_packet (hdr @ payload) =
       Some (log_packet_header on9log_default_env 3 (ByAddress 64) (ByAddress 128) (length payload) demo_state,
             \<lparr>lm_tag = tag', lm_fmt = fmt', lm_args = vals'\<rparr>) \<and>
     ref_resent (ByAddress 64) tag' \<and> ref_resent (ByAddress 128) fmt' \<and>
     list_all2 resent [Arg32 7, ArgStr (Some [104, 105])] vals'"
  by (rule log_call_survives_string_changes
      [OF config_ok_default demo_state_ok demo_enabled demo_call demo_fits demo_mem_dom])

lemma measure_refuses:
  assumes "config_ok env" and "unat arg_count = length types" and "arg_types = Some (types @ rest)"
    and "length types \<le> 32" and "ref_denotes env m tagp tag" and "ref_denotes env m fmtp fmt"
    and "args_denote env m msk 0 None types args vals"
    and "length (log_payload_bytes tag fmt types vals) > ON9LOG_PAYLOAD_LEN_MAX"
  shows "on9log_measure_payload env m arg_types msk args (unat arg_count)
      (on9log_wire_str_size (wire_of tag) + on9log_wire_str_size (wire_of fmt)) = Some None"
proof -
  note T = ref_denotes_facts [OF assms(5,1)] and F = ref_denotes_facts [OF assms(6,1)]
  have "\<not> on9log_wire_str_size (wire_of tag) + on9log_wire_str_size (wire_of fmt) + 1 + length types +
      args_size vals \<le> ON9LOG_PAYLOAD_LEN_MAX"
    using assms(8) by (simp add: wire_str_size_of T(1) F(1) length_log_payload)
  then show ?thesis using measure_payload_denotes [OF assms(1,7,4)] by (simp only: assms(2,3) if_False)
qed

text \<open>C30: An enabled call that no header can describe, because it has more than 32 arguments or because its
  payload is too large, is dropped whole: no part of it reaches a sink, the sequence number is not used,
  and the drop counter grows by one. With more than 32 arguments neither the type table nor an argument
  is looked at.\<close>

theorem oversized_call_is_counted:
  assumes "config_ok env" and "on9log_level_enabled env m st level tagp = Some True"
    and "ref_denotes env m tagp tag" and "ref_denotes env m fmtp fmt"
    and "precision_mask scan arg_count dyn = Some msk"
    and "32 < unat arg_count \<or>
      unat arg_count = length types \<and> arg_types = Some (types @ rest) \<and>
      args_denote env m msk 0 None types args vals \<and>
      length (log_payload_bytes tag fmt types vals) > ON9LOG_PAYLOAD_LEN_MAX"
  shows "\<exists>st'. on9log_vwrite env m m' level tagp fmtp scan arg_types arg_count dyn args st = Some st' \<and>
     st' = count_dropped (report_dropped env st) \<and> s_dropped_count st' = 1 \<and>
     s_seq st' = s_seq st + (if s_dropped_count st = 0 then 0 else 1) \<and>
     (sinks_ok st \<and> sink_idle s (st_events st) \<and> s \<in> set (registered st) \<longrightarrow>
       sink_packets s (st_events st') = sink_packets s (st_events st) @ dropped_packets env st)"
proof -
  note T = ref_denotes_facts [OF assms(3,1)] and F = ref_denotes_facts [OF assms(4,1)]
  have refused: "on9log_measure_payload env m arg_types msk args (unat arg_count)
      (on9log_wire_str_size (wire_of tag) + on9log_wire_str_size (wire_of fmt)) = Some None"
  proof (cases "32 < unat arg_count")
    case True
    then show ?thesis by (simp add: on9log_measure_payload_def)
  next
    case False
    then have large: "unat arg_count = length types" "arg_types = Some (types @ rest)"
      "args_denote env m msk 0 None types args vals"
      "length (log_payload_bytes tag fmt types vals) > ON9LOG_PAYLOAD_LEN_MAX" using assms(6) by blast+
    show ?thesis
      by (rule measure_refuses [OF assms(1) large(1,2) _ assms(3,4) large(3,4)]) (use False large(1) in simp)
  qed
  have "on9log_vwrite env m m' level tagp fmtp scan arg_types arg_count dyn args st =
      Some (count_dropped (report_dropped env st))"
    by (simp add: on9log_vwrite_def assms(2,5) T(3) F(3) refused Let_def)
  moreover have "st_events (count_dropped (report_dropped env st)) = st_events (report_dropped env st)"
    "s_seq (count_dropped (report_dropped env st)) = s_seq (report_dropped env st)"
    "s_dropped_count (count_dropped (report_dropped env st)) = 1"
    by (simp_all add: count_dropped_def)
  ultimately show ?thesis using report_dropped_delivers(1) [of st s env] report_dropped_seq(1) [of env st] by auto
qed

lemma rd_bytes_const: "rd_bytes (\<lambda>_. Some b) p n = Some (replicate n b)"
  by (induction n arbitrary: p) simp_all

definition big_env :: on9log_env where
  "big_env = on9log_default_env\<lparr>cfg_max_dynamic_string_len := 70000\<rparr>"

lemma big_env_ok: "config_ok big_env"
  by (simp add: big_env_def config_ok_def on9log_default_env_def)

lemma big_enabled: "on9log_level_enabled big_env (\<lambda>_. Some 1) demo_state 3 64 = Some True"
  by (simp add: on9log_level_enabled_def on9log_filter_level_for_tag_def demo_state_def big_env_def
      on9log_initial_state_def on9log_default_env_def on9log_valid_level_def)

lemma big_args:
  "args_denote big_env (\<lambda>_. Some 1) 0 0 None [4] [VA_ptr 256] [ArgStr (Some (replicate 70000 1))]"
proof -
  have "text_at (\<lambda>_. Some 1) 256 70000 (replicate 70000 1)"
    by (simp add: text_at_def rd_bytes_const)
  then show ?thesis
    using arg_denotes.c_string [of 256 "\<lambda>_. Some 1" big_env "replicate 70000 1" None]
    by (simp add: big_env_def clip_def precision_of_def)
qed

text \<open>A string of 70000 bytes, where the configuration does not cut it, and a call of 33 arguments.\<close>

theorem oversized_call_is_counted_witness:
  "(\<exists>st'. on9log_vwrite big_env (\<lambda>_. Some 1) (\<lambda>_. Some 1) 3 64 128 None (Some ([4] @ [0])) 1 False [VA_ptr 256]
       demo_state = Some st' \<and> s_dropped_count st' = 1) \<and>
   (\<exists>st'. on9log_vwrite big_env (\<lambda>_. Some 1) (\<lambda>_. Some 1) 3 64 128 None None 33 False [] demo_state = Some st' \<and>
       s_dropped_count st' = 1)"
proof -
  have refs: "ref_denotes big_env (\<lambda>_. Some 1) 64 (ByAddress 64)" "ref_denotes big_env (\<lambda>_. Some 1) 128 (ByAddress 128)"
    by (simp_all add: ref_denotes_def big_env_def on9log_default_env_def)
  have mask: "precision_mask None n False = Some 0" for n by (simp add: precision_mask_def)
  note counted = oversized_call_is_counted [OF big_env_ok big_enabled refs mask]
  have "length (log_payload_bytes (ByAddress 64) (ByAddress 128) [4] [ArgStr (Some (replicate 70000 1))]) >
      ON9LOG_PAYLOAD_LEN_MAX"
    by (simp add: length_log_payload ref_bytes_def)
  then show ?thesis
    using counted [of 1 "[4]" "Some ([4] @ [0])" "[0]" "[VA_ptr 256]" "[ArgStr (Some (replicate 70000 1))]" "\<lambda>_. Some 1" demo_sink]
      counted [of 33 "[]" None "[]" "[]" "[]" "\<lambda>_. Some 1" demo_sink] big_args by auto
qed

lemma arg_bytes_short:
  "arg_denotes env m prec ty va v \<Longrightarrow> cfg_max_dynamic_string_len env \<le> 1900 \<Longrightarrow>
     length (arg_bytes v) \<le> 1904"
proof (induction rule: arg_denotes.induct)
  case (c_string p s)
  then show ?case using length_clip [of prec s] text_at_length [OF c_string(2)] by simp
next
  case (view w s)
  then show ?case using length_rd_bytes [OF view(2)] by simp
qed simp_all

lemma args_size_short:
  "args_denote env m msk idx prev types args vals \<Longrightarrow> cfg_max_dynamic_string_len env \<le> 1900 \<Longrightarrow>
     args_size vals \<le> length types * 1904"
  by (induction env m msk idx prev types args vals rule: args_denote.induct)
    (use arg_bytes_short in fastforce)+

lemma short_strings_fit:
  assumes "cfg_max_dynamic_string_len env \<le> 1900"
    and "call_denotes env m tagp fmtp scan types dyn args tag fmt vals"
  shows "length (log_payload_bytes tag fmt types vals) \<le> 64769"
proof -
  obtain msk where tag: "ref_denotes env m tagp tag" and fmt: "ref_denotes env m fmtp fmt"
    and n: "length types \<le> 32" and args: "args_denote env m msk 0 None types args vals"
    using assms(2) by (rule call_denotesE)
  have "args_size vals \<le> 60928"
    using args_size_short [OF args assms(1)] n by simp
  moreover have "length (ref_bytes r) \<le> 1904" if "ref_denotes env m p r" for p r
    using that assms(1) by (auto simp: ref_denotes_def ref_bytes_def dest: text_at_length split: if_splits)
  note this [OF tag] this [OF fmt]
  ultimately show ?thesis using n by (simp add: length_log_payload)
qed

text \<open>C31: With strings cut at 1900 bytes or less, as in the default configuration, no call of at most 32
  arguments is dropped for its size, however long the strings in memory are: the logger cuts each of
  them, sends one LOG packet with at most 64769 bytes of payload, which decodes to the call, and counts no
  drop.\<close>

theorem short_strings_are_never_dropped:
  assumes "config_ok env" and "sinks_ok st" and "sink_idle s (st_events st)" and "s \<in> set (registered st)"
    and "on9log_level_enabled env m st level tagp = Some True"
    and "call_denotes env m tagp fmtp scan types dyn args tag fmt vals"
    and "cfg_max_dynamic_string_len env \<le> 1900"
  shows "\<exists>st' hdr payload.
     on9log_vwrite env m m level tagp fmtp scan (Some (types @ rest)) (word_of_nat (length types)) dyn args st = Some st' \<and>
     s_dropped_count st' = 0 \<and>
     sink_packets s (st_events st') = sink_packets s (st_events st) @ dropped_packets env st @ [(Some hdr, payload)] \<and>
     length payload \<le> 64769 \<and>
     parse_log_packet (hdr @ payload) =
       Some (log_packet_header env level tag fmt (length payload) st, \<lparr>lm_tag = tag, lm_fmt = fmt, lm_args = vals\<rparr>)"
proof -
  note short = short_strings_fit [OF assms(7,6)]
  then have fit: "length (log_payload_bytes tag fmt types vals) \<le> ON9LOG_PAYLOAD_LEN_MAX" by simp
  note sent = call_sent_same [OF assms(6,1)]
  obtain st' hdr payload where
    "on9log_vwrite env m m level tagp fmtp scan (Some (types @ rest)) (word_of_nat (length types)) dyn args st = Some st'"
    "sink_packets s (st_events st') = sink_packets s (st_events st) @ dropped_packets env st @ [(Some hdr, payload)]"
    "parse_log_packet (hdr @ payload) =
       Some (log_packet_header env level tag fmt (length payload) st, \<lparr>lm_tag = tag, lm_fmt = fmt, lm_args = vals\<rparr>)"
    using vwrite_delivers [OF assms(1-6) fit sent, of rest] by blast
  moreover from this(1) have st': "st' = log_sent env level tag fmt types vals (report_dropped env st)"
    using vwrite_fits [OF assms(1,5,6) fit sent, of rest] by simp
  moreover have "payload = log_payload_bytes tag fmt types vals"
    using log_sent_delivers(1) [OF assms(2-4), of env level tag fmt types vals] calculation(2) unfolding st' by simp
  ultimately show ?thesis using short by (simp add: log_sent_def)
qed

theorem short_strings_are_never_dropped_witness:
  "\<exists>st' hdr payload.
     on9log_vwrite on9log_default_env demo_mem demo_mem 3 64 128 None (Some ([1, 4] @ [0]))
       (word_of_nat (length [1 :: u8, 4])) False [VA_u32 7, VA_ptr 256] demo_state = Some st' \<and>
     s_dropped_count st' = 0 \<and>
     sink_packets demo_sink (st_events st') =
       sink_packets demo_sink (st_events demo_state) @ dropped_packets on9log_default_env demo_state @ [(Some hdr, payload)] \<and>
     length payload \<le> 64769 \<and>
     parse_log_packet (hdr @ payload) =
       Some (log_packet_header on9log_default_env 3 (ByAddress 64) (ByAddress 128) (length payload) demo_state,
             \<lparr>lm_tag = ByAddress 64, lm_fmt = ByAddress 128, lm_args = [Arg32 7, ArgStr (Some [104, 105])]\<rparr>)"
  by (rule short_strings_are_never_dropped [OF config_ok_default demo_state_ok demo_enabled demo_call])
    (simp add: on9log_default_env_def)

text \<open>Also: A log call below the level in force for its tag does nothing at all: no packet, no sequence
  number, no clock reading, no drop report, and none of its arguments is looked at.\<close>

theorem disabled_call_changes_nothing:
  assumes "filters_ok st" and "tagp \<noteq> NULL" and "cstr m tagp tag"
    and "level = 0 \<or> level > cfg_local_level env \<or> level > effective_level st tag"
  shows "on9log_vwrite env m m' level tagp fmtp scan arg_types arg_count dyn args st = Some st"
  using level_enabled_spec [OF assms(1-3)] assms(4) by (auto simp: on9log_vwrite_def)

theorem disabled_call_changes_nothing_witness:
  "on9log_vwrite on9log_default_env (mem_object 64 [65, 0] Map.empty) Map.empty 4 64 128 None None 9 False []
     (on9log_initial_state on9log_default_env) = Some (on9log_initial_state on9log_default_env)"
  by (rule disabled_call_changes_nothing [where tag = "[65]", OF filters_ok_initial])
    (simp_all add: mem_object_def on9log_default_env_def)

text \<open>Also: The C macro passes argument count and "has a string" as compile-time constants. The run-time
  variant, which derives both from the type table, makes the same call for every table of at most 255
  types.\<close>

theorem format_scan_metadata_agrees:
  assumes "0 \<notin> set types" and "length types \<le> 255"
  shows "on9log_write_with_format_scan env m m' level tag format scan (arg_table types) args st =
     on9log_write_with_format_scan_metadata env m m' level tag format scan (arg_table types)
       (word_of_nat (length types)) (if \<exists>ty \<in> set types. ty = 4 \<or> ty = 5 then 1 else 0) args st"
  using assms on9log_arg_count_table on9log_have_dynamic_string_table
  by (simp add: on9log_write_with_format_scan_def on9log_write_with_format_scan_metadata_def)

theorem format_scan_metadata_agrees_witness:
  "on9log_write_with_format_scan on9log_default_env demo_mem demo_mem 3 64 128 None (arg_table [1, 4])
       [VA_u32 7, VA_ptr 256] demo_state =
     on9log_write_with_format_scan_metadata on9log_default_env demo_mem demo_mem 3 64 128 None
       (arg_table [1, 4]) (word_of_nat (length [1 :: u8, 4]))
       (if \<exists>ty \<in> set [1, 4 :: u8]. ty = 4 \<or> ty = 5 then 1 else 0) [VA_u32 7, VA_ptr 256] demo_state"
  by (rule format_scan_metadata_agrees) simp_all

end
