(* ===== verification/PacketOps.thy ===== *)
theory PacketOps
  imports LogCorrect
begin

text \<open>
  The packets of \<^verbatim>\<open>on9log.c\<close> that do not come from a task's log call: BOOT, TIME_SYNC, BUFFER
  and packets built elsewhere that join the stream in \<open>on9log_dispatch_packet\<close>.
\<close>

section \<open>BOOT and TIME_SYNC\<close>

text \<open>The ID's length is the length of the list; \<open>None\<close> of the C code's out-parameter is [].\<close>

definition on9log_image_id :: "on9log_env \<Rightarrow> bytes \<times> on9log_image_id_kind_t" where
  "on9log_image_id env =
     (let (ident, reported) = port_image_id env ON9LOG_IMAGE_ID_MAX_LEN
      in if ident = [] \<or> length ident > ON9LOG_IMAGE_ID_MAX_LEN \<or> reported = ON9LOG_IMAGE_ID_NONE
         then ([], ON9LOG_IMAGE_ID_NONE)
         else (ident, reported))"

definition on9log_emit_boot ::
    "on9log_env \<Rightarrow> u32 \<Rightarrow> on9log_reset_reason_t \<Rightarrow> on9log_state \<Rightarrow> on9log_err_t \<times> on9log_state" where
  "on9log_emit_boot env boot_id reason st =
     (let (ident, id_kind) = on9log_image_id env;
          fields = [reset_reason_code reason, ON9LOG_WIRE_FORMAT_VERSION, image_id_kind_code id_kind,
                    word_of_nat (length ident)];
          (stream, st) = on9log_emit_header env ON9LOG_PKT_BOOT ON9_LOG_LEVEL_NONE 0 0
                           (word_of_nat (4 + length fields + length ident)) st;
          st = on9log_emit_u32 stream boot_id 0 ON9LOG_PAYLOAD_META_ARG_INDEX st;
          st = on9log_stream_payload stream fields 0 ON9LOG_PAYLOAD_META_ARG_INDEX st;
          st = on9log_stream_payload stream ident 0 ON9LOG_PAYLOAD_META_ARG_INDEX st
      in (ON9LOG_OK, on9log_stream_end stream st))"

text \<open>The caller's buffer is given by its contents, and returned as written.\<close>

definition on9log_encode_time_sync ::
    "on9log_env \<Rightarrow> bytes option \<Rightarrow> nat \<Rightarrow> u32 \<Rightarrow> on9log_state \<Rightarrow> nat \<times> bytes option \<times> on9log_state" where
  "on9log_encode_time_sync env buf cap boot_id st =
     (case buf of
        None \<Rightarrow> (0, None, st)
      | Some data \<Rightarrow>
          (let (time_ms, st) = read_clock env st;
               enc = on9log_put_header (enc_init cap data) ON9LOG_PKT_TIME_SYNC ON9_LOG_LEVEL_NONE 0
                       time_ms 0 0 4;
               enc = on9log_put_u32 enc boot_id
           in (if enc_overflow enc then 0 else enc_len enc, Some (enc_data enc), st)))"

section \<open>Buffers\<close>

definition on9log_emit_buffer_packet ::
    "on9log_env \<Rightarrow> mem \<Rightarrow> on9log_level_t \<Rightarrow> addr \<Rightarrow> on9log_wire_str_t \<Rightarrow> addr \<Rightarrow> u32 \<Rightarrow> u32 \<Rightarrow> u32 \<Rightarrow>
       on9log_state \<Rightarrow> on9log_state option" where
  "on9log_emit_buffer_packet env m level tag tag_wire data total_len offset chunk_len st =
     do { let (stream, st) = on9log_emit_header env ON9LOG_PKT_BUFFER level (ws_id tag_wire) 0
                (word_of_nat (on9log_wire_str_size tag_wire + 12 + unat chunk_len)) st;
          st \<leftarrow> on9log_emit_wire_str m stream tag tag_wire 1 st;
          let st = on9log_emit_u32 stream total_len 1 ON9LOG_PAYLOAD_META_ARG_INDEX st;
          let st = on9log_emit_u32 stream offset 1 ON9LOG_PAYLOAD_META_ARG_INDEX st;
          let st = on9log_emit_u32 stream chunk_len 1 ON9LOG_PAYLOAD_META_ARG_INDEX st;
          st \<leftarrow> (if chunk_len \<noteq> 0
                 then do { chunk \<leftarrow> rd_bytes m (data + unat offset) (unat chunk_len);
                           Some (on9log_stream_payload stream chunk 1 0 st) }
                 else Some st);
          Some (on9log_stream_end stream st) }"

text \<open>\<^verbatim>\<open>for (uint32_t offset = 0; offset < total_len;)\<close>; with a zero \<open>chunk_max\<close> it would not end.\<close>

partial_function (option) buffer_loop ::
    "on9log_env \<Rightarrow> mem \<Rightarrow> on9log_level_t \<Rightarrow> addr \<Rightarrow> on9log_wire_str_t \<Rightarrow> addr \<Rightarrow> u32 \<Rightarrow> u32 \<Rightarrow> u32 \<Rightarrow>
       on9log_state \<Rightarrow> on9log_state option" where
  "buffer_loop env m level tag tag_wire data total_len chunk_max offset st =
     (if offset < total_len
      then (let chunk_len = (if total_len - offset > chunk_max then chunk_max else total_len - offset)
            in Option.bind
                 (on9log_emit_buffer_packet env m level tag tag_wire data total_len offset chunk_len st)
                 (\<lambda>st. buffer_loop env m level tag tag_wire data total_len chunk_max
                         (offset + chunk_len) st))
      else Some st)"

definition on9log_write_buffer_with_text_flags ::
    "on9log_env \<Rightarrow> mem \<Rightarrow> on9log_level_t \<Rightarrow> addr \<Rightarrow> u8 \<Rightarrow> addr \<Rightarrow> nat \<Rightarrow> on9log_state \<Rightarrow>
       on9log_state option" where
  "on9log_write_buffer_with_text_flags env m level tag text_flags data buffer_len st =
     do { enabled \<leftarrow> on9log_level_enabled env m st level tag;
          if \<not> enabled then Some st
          else if data = NULL \<and> buffer_len \<noteq> 0 \<or> buffer_len > 0xffffffff
          then Some (count_dropped st)
          else do {
            let st = report_dropped env st;
            let total_len = (word_of_nat buffer_len :: u32);
            tag_wire \<leftarrow> on9log_wire_str env m tag (cfg_max_dynamic_string_len env);
            let tag_size = on9log_wire_str_size tag_wire;
            let chunk_max = (if tag_size < cfg_buffer_chunk_size env
                             then word_of_nat (cfg_buffer_chunk_size env - tag_size) else 1);
            if tag_size + 12 + unat chunk_max > ON9LOG_PAYLOAD_LEN_MAX
            then Some (count_dropped st)
            else if total_len = 0
            then on9log_emit_buffer_packet env m level tag tag_wire data total_len 0 0 st
            else buffer_loop env m level tag tag_wire data total_len chunk_max 0 st } }"

definition on9log_write_buffer ::
    "on9log_env \<Rightarrow> mem \<Rightarrow> on9log_level_t \<Rightarrow> addr \<Rightarrow> addr \<Rightarrow> nat \<Rightarrow> on9log_state \<Rightarrow> on9log_state option"
  where
  "on9log_write_buffer env m level tag data buffer_len st =
     on9log_write_buffer_with_text_flags env m level tag ON9LOG_TEXT_DEFAULT_FLAGS data buffer_len st"

section \<open>Packets built elsewhere\<close>

text \<open>A NULL packet is \<open>None\<close>; the length is that of the list.\<close>

definition on9log_dispatch_packet ::
    "on9log_env \<Rightarrow> bytes option \<Rightarrow> on9log_state \<Rightarrow> on9log_err_t \<times> on9log_state" where
  "on9log_dispatch_packet env packet st =
     (case packet of
        None \<Rightarrow> (ON9LOG_ERR_INVALID_ARG, st)
      | Some p \<Rightarrow>
          if length p < HEADER_SIZE then (ON9LOG_ERR_INVALID_ARG, st)
          else if p ! 0 \<noteq> ON9LOG_PACKET_MAGIC then (ON9LOG_ERR_INVALID_ARG, st)
          else
            (let st = report_dropped env st;
                 header = take HEADER_SIZE p;
                 (stream, st) = on9log_stream_open st;
                 (header, st) =
                   (if drop_bit 4 (header ! 1) \<noteq> packet_type_code ON9LOG_PKT_TIME_SYNC
                    then (header[2 := ucast (s_seq st AND 0xff), 3 := ucast (drop_bit 8 (s_seq st))],
                          st\<lparr>s_seq := s_seq st + 1\<rparr>)
                    else (header, st));
                 st = on9log_stream_send_header stream (Some header) st;
                 st = on9log_stream_payload stream (drop HEADER_SIZE p) 0 ON9LOG_PAYLOAD_META_ARG_INDEX st
             in (ON9LOG_OK, on9log_stream_end stream st)))"

definition on9log_get_dropped_count :: "on9log_state \<Rightarrow> u32" where
  "on9log_get_dropped_count st = s_dropped_count st"

end
