(* ===== verification/BufferCorrect.thy ===== *)
theory BufferCorrect
  imports PacketOps
begin

text \<open>
  What \<open>on9log_write_buffer\<close> sends: the fragments of the buffer, in order, each in a BUFFER
  packet, from which a reader reassembles the buffer. The loop always ends.
\<close>

section \<open>One packet\<close>

definition buffer_payload :: "wire_ref \<Rightarrow> nat \<Rightarrow> nat \<Rightarrow> bytes \<Rightarrow> bytes" where
  "buffer_payload tag n off d =
     ref_bytes tag @ le_bytes 4 n @ le_bytes 4 off @ le_bytes 4 (length d) @ d"

definition buffer_chunks :: "wire_ref \<Rightarrow> nat \<Rightarrow> nat \<Rightarrow> bytes \<Rightarrow> chunk list" where
  "buffer_chunks tag n off d =
     ref_chunks 1 tag @ [(le_bytes 4 n, 1, ON9LOG_PAYLOAD_META_ARG_INDEX),
       (le_bytes 4 off, 1, ON9LOG_PAYLOAD_META_ARG_INDEX),
       (le_bytes 4 (length d), 1, ON9LOG_PAYLOAD_META_ARG_INDEX), (d, 1, 0)]"

lemma buffer_chunks_bytes [simp]: "chunks_bytes (buffer_chunks tag n off d) = buffer_payload tag n off d"
  by (simp add: buffer_chunks_def buffer_payload_def)

lemma length_buffer_payload [simp]:
  "length (buffer_payload tag n off d) = length (ref_bytes tag) + 12 + length d"
  by (simp add: buffer_payload_def)

lemma buffer_chunks_events:
  "chunks_events stream (buffer_chunks tag n off d) =
     chunks_events stream (ref_chunks 1 tag) @
     chunks_events stream [(le_bytes 4 n, 1, ON9LOG_PAYLOAD_META_ARG_INDEX)] @
     chunks_events stream [(le_bytes 4 off, 1, ON9LOG_PAYLOAD_META_ARG_INDEX)] @
     chunks_events stream [(le_bytes 4 (length d), 1, ON9LOG_PAYLOAD_META_ARG_INDEX)] @
     chunks_events stream [(d, 1, 0)]"
  by (simp add: buffer_chunks_def chunks_events_def)

definition buffer_header ::
    "on9log_env \<Rightarrow> on9log_level_t \<Rightarrow> wire_ref \<Rightarrow> bytes \<Rightarrow> u16 \<Rightarrow> nat \<Rightarrow> bytes" where
  "buffer_header env level tag d seq clock =
     header_bytes ON9LOG_PKT_BUFFER level seq (port_timestamp_ms env clock) (ws_id (wire_of tag)) 0
       (word_of_nat (length (ref_bytes tag) + 12 + length d))"

definition buffer_packet_sent ::
    "on9log_env \<Rightarrow> on9log_level_t \<Rightarrow> wire_ref \<Rightarrow> nat \<Rightarrow> nat \<Rightarrow> bytes \<Rightarrow> on9log_state \<Rightarrow> on9log_state" where
  "buffer_packet_sent env level tag n off d st =
     observe (session (registered st) (Some (buffer_header env level tag d (s_seq st) (st_clock st)))
               (buffer_chunks tag n off d))
       (next_header st)"

lemma emit_buffer_packet_sent:
  assumes "ref_sent m tagp tag" and "ref_fits tag" and "n < 4294967296" and "off < 4294967296"
    and "length d < 4294967296" and "d \<noteq> [] \<longrightarrow> rd_bytes m (data + off) (length d) = Some d"
  shows "on9log_emit_buffer_packet env m level tagp (wire_of tag) data (word_of_nat n)
           (word_of_nat off) (word_of_nat (length d)) st = Some (buffer_packet_sent env level tag n off d st)"
proof -
  have z: "(word_of_nat (length d) = (0 :: u32)) = (d = [])"
    using unat_eq_zero [of "word_of_nat (length d) :: u32"]
    by (simp only: unat_word_of_nat_u32 [OF assms(5)] length_0_conv)
  have hd: "on9log_emit_header env ON9LOG_PKT_BUFFER level (ws_id (wire_of tag)) 0
      (word_of_nat (on9log_wire_str_size (wire_of tag) + 12 + length d)) st =
      (registered st, observe (EmitLock # map (\<lambda>s. StartCb s (Some (buffer_header env level tag d
         (s_seq st) (st_clock st)))) (registered st)) (next_header st))"
    by (simp add: emit_header_events registered_def buffer_header_def next_header_def
        wire_str_size_of assms(2))
  have chunk: "(if word_of_nat (length d) \<noteq> (0 :: u32)
      then do { chunk \<leftarrow> rd_bytes m (data + off) (length d);
                Some (on9log_stream_payload stream chunk 1 0 s) }
      else Some s) = Some (observe (chunks_events stream [(d, 1, 0)]) s)" for stream s
    using assms(6) z by (cases "d = []") (simp_all add: stream_payload_events chunks_events_def)
  show ?thesis
    unfolding on9log_emit_buffer_packet_def unat_word_of_nat_u32 [OF assms(5)]
      unat_word_of_nat_u32 [OF assms(4)] hd Let_def prod.case chunk
      emit_wire_str_events [OF assms(1,2)] bind.bind_lunit emit_u32_events
      unat_word_of_nat_u32 [OF assms(3)]
    by (simp add: stream_end_events buffer_packet_sent_def session_def buffer_chunks_events)
qed

section \<open>The loop\<close>

text \<open>The buffer cut into pieces of \<open>k\<close> bytes, the last one possibly shorter.\<close>

function fragments :: "nat \<Rightarrow> bytes \<Rightarrow> bytes list" where
  "fragments k d = (if d = [] \<or> k = 0 then [] else take k d # fragments k (drop k d))"
  by pat_completeness auto
termination
  by (relation "measure (\<lambda>(k, d). length d)") (auto simp: diff_less)

declare fragments.simps [simp del]

lemma fragments_Nil [simp]: "fragments k [] = []"
  by (simp add: fragments.simps)

lemma fragments_step: "d \<noteq> [] \<Longrightarrow> k > 0 \<Longrightarrow> fragments k d = take k d # fragments k (drop k d)"
  by (subst fragments.simps) simp

lemma concat_fragments: "k > 0 \<Longrightarrow> concat (fragments k d) = d"
proof (induction k d rule: fragments.induct)
  case (1 k d)
  then show ?case by (cases "d = []") (simp_all add: fragments_step)
qed

lemma fragments_bounds: "f \<in> set (fragments k d) \<Longrightarrow> f \<noteq> [] \<and> length f \<le> k \<and> length f \<le> length d"
proof (induction k d rule: fragments.induct)
  case (1 k d)
  show ?case
  proof (cases "d = [] \<or> k = 0")
    case False
    then show ?thesis using 1 by (auto simp: fragments_step)
  qed (use "1.prems" in \<open>auto simp: fragments.simps\<close>)
qed

primrec send_fragments ::
    "on9log_env \<Rightarrow> on9log_level_t \<Rightarrow> wire_ref \<Rightarrow> nat \<Rightarrow> nat \<Rightarrow> bytes list \<Rightarrow> on9log_state \<Rightarrow> on9log_state"
  where
  "send_fragments env level tag n off [] st = st"
| "send_fragments env level tag n off (d # ds) st =
     send_fragments env level tag n (off + length d) ds (buffer_packet_sent env level tag n off d st)"

lemma rd_bytes_part:
  "rd_bytes m p n = Some bs \<Longrightarrow> i + k \<le> n \<Longrightarrow> rd_bytes m (p + i) k = Some (take k (drop i bs))"
proof (induction i arbitrary: p n bs)
  case 0
  then show ?case by (simp add: rd_bytes_le)
next
  case (Suc i)
  then obtain n' where n: "n = Suc n'" by (cases n) auto
  then obtain b cs where "bs = b # cs" "rd_bytes m (Suc p) n' = Some cs"
    using Suc.prems(1) by (auto split: Option.bind_splits)
  then show ?case using Suc.IH [of "Suc p" n' cs] Suc.prems(2) n by simp
qed

lemma word_of_nat_diff_u32:
  "off \<le> n \<Longrightarrow> n < 4294967296 \<Longrightarrow> (word_of_nat n :: u32) - word_of_nat off = word_of_nat (n - off)"
  by (simp add: of_nat_diff)

lemma word_of_nat_less_u32:
  "a < 4294967296 \<Longrightarrow> b < 4294967296 \<Longrightarrow> ((word_of_nat a :: u32) < word_of_nat b) = (a < b)"
  by (simp add: word_less_nat_alt unat_word_of_nat_u32)

lemma chunk_len_word:
  assumes "off \<le> n" and "n < 4294967296"
  shows "(if word_of_nat n - word_of_nat off > k then k else word_of_nat n - word_of_nat off) =
           (word_of_nat (min (unat k) (n - off)) :: u32)"
proof -
  have "unat (word_of_nat (n - off) :: u32) = n - off"
    using assms by (intro unat_word_of_nat_u32) simp
  then have "(k < word_of_nat (n - off)) = (unat k < n - off)"
    by (simp only: word_less_nat_alt)
  moreover have "k = word_of_nat (unat k)" by simp
  ultimately show ?thesis unfolding word_of_nat_diff_u32 [OF assms] by (simp only: min_def) auto
qed

lemma buffer_loop_sends:
  assumes rd: "rd_bytes m data n = Some bs" and n: "n < 4294967296" and k: "unat k > 0"
    and ref: "ref_sent m tagp tag" "ref_fits tag"
  shows "off \<le> n \<Longrightarrow>
     buffer_loop env m level tagp (wire_of tag) data (word_of_nat n) k (word_of_nat off) st =
       Some (send_fragments env level tag n off (fragments (unat k) (drop off bs)) st)"
proof (induction "n - off" arbitrary: off st rule: less_induct)
  case less
  have len: "length bs = n" using rd by (rule length_rd_bytes)
  show ?case
  proof (cases "off < n")
    case False
    then have "off = n" using less.prems by simp
    then show ?thesis by (subst buffer_loop.simps) (simp add: len)
  next
    case True
    let ?c = "min (unat k) (n - off)" and ?d = "take (unat k) (drop off bs)"
    have d: "length ?d = ?c" by (simp add: len min.commute)
    have "take ?c (drop off bs) = ?d" by (simp add: len min_def)
    then have "rd_bytes m (data + off) (length ?d) = Some ?d"
      unfolding d using rd_bytes_part [OF rd, of off ?c] True by simp
    then have one: "on9log_emit_buffer_packet env m level tagp (wire_of tag) data (word_of_nat n)
        (word_of_nat off) (word_of_nat ?c) st = Some (buffer_packet_sent env level tag n off ?d st)"
      using emit_buffer_packet_sent [OF ref n, of off ?d data env level st] True n
      unfolding d by (auto simp del: of_nat_diff)
    have lt: "(word_of_nat off :: u32) < word_of_nat n" using True n by (simp add: word_of_nat_less_u32)
    have add: "(word_of_nat off :: u32) + word_of_nat ?c = word_of_nat (off + ?c)" by simp
    have frag: "fragments (unat k) (drop off bs) = ?d # fragments (unat k) (drop (off + ?c) bs)"
      using True k len by (subst fragments_step) (auto simp: min_def add.commute)
    have IH: "buffer_loop env m level tagp (wire_of tag) data (word_of_nat n) k (word_of_nat (off + ?c)) s =
        Some (send_fragments env level tag n (off + ?c) (fragments (unat k) (drop (off + ?c) bs)) s)" for s
      using True k by (intro less.hyps) auto
    show ?thesis
      unfolding buffer_loop.simps [of _ _ _ _ _ _ _ _ "word_of_nat off"] chunk_len_word [OF less.prems n]
        Let_def one add IH frag send_fragments.simps d
      using lt by simp
  qed
qed

section \<open>Packets and reassembly\<close>

primrec fragment_packets ::
    "on9log_env \<Rightarrow> on9log_level_t \<Rightarrow> wire_ref \<Rightarrow> nat \<Rightarrow> u16 \<Rightarrow> nat \<Rightarrow> nat \<Rightarrow> bytes list \<Rightarrow> packet list" where
  "fragment_packets env level tag n seq clock off [] = []"
| "fragment_packets env level tag n seq clock off (d # ds) =
     (Some (buffer_header env level tag d seq clock), buffer_payload tag n off d) #
       fragment_packets env level tag n (seq + 1) (Suc clock) (off + length d) ds"

lemma send_fragments_delivers:
  "sinks_ok st \<Longrightarrow> sink_idle s (st_events st) \<Longrightarrow> s \<in> set (registered st) \<Longrightarrow>
     sink_packets s (st_events (send_fragments env level tag n off ds st)) =
       sink_packets s (st_events st) @ fragment_packets env level tag n (s_seq st) (st_clock st) off ds \<and>
     sink_idle s (st_events (send_fragments env level tag n off ds st))"
proof (induction ds arbitrary: off st)
  case Nil
  then show ?case by simp
next
  case (Cons d ds)
  let ?st = "buffer_packet_sent env level tag n off d st"
  have st: "sinks_ok ?st" "registered ?st = registered st" "s_seq ?st = s_seq st + 1"
    "st_clock ?st = Suc (st_clock st)"
    using Cons.prems(1) by (simp_all add: buffer_packet_sent_def sinks_ok_def registered_def)
  have "sink_packets s (st_events ?st) = sink_packets s (st_events st) @
        [(Some (buffer_header env level tag d (s_seq st) (st_clock st)), buffer_payload tag n off d)]"
    and "sink_idle s (st_events ?st)"
    using sink_packets_session [OF _ Cons.prems(2)] Cons.prems(1,3)
    by (simp_all add: buffer_packet_sent_def sinks_ok_def)
  then show ?case using Cons.IH [of ?st "off + length d"] Cons.prems(3) st by simp
qed

definition packet_bytes :: "packet \<Rightarrow> bytes" where
  "packet_bytes p = (case fst p of None \<Rightarrow> [] | Some h \<Rightarrow> h) @ snd p"

lemma parse_buffer_sent:
  assumes "ref_fits tag" and "length (ref_bytes tag) + 12 + length d \<le> ON9LOG_PAYLOAD_LEN_MAX"
    and "n < 4294967296" and "off < 4294967296"
  shows "\<exists>h. parse_buffer_packet (buffer_header env level tag d seq clock @ buffer_payload tag n off d) =
      Some (h, \<lparr>bf_tag = tag, bf_total = n, bf_offset = off, bf_data = d\<rparr>) \<and>
    ph_level h = unat level mod 16 \<and> ph_seq h = unat seq"
proof -
  have k: "unat (word_of_nat (length (ref_bytes tag) + 12 + length d) :: u16) =
      length (ref_bytes tag) + 12 + length d"
    using assms(2) by (simp add: unat_of_nat del: of_nat_add)
  have d: "take_bytes (length d) d = Some (d, [])" using take_bytes_append [of d "[]"] by simp
  show ?thesis
    using assms parse_ref_bytes [OF ref_fits_ok [OF assms(1)]] d
    by (simp add: parse_buffer_packet_def buffer_header_def parse_header_bytes k
        buffer_payload_def take_le_4 del: take_le_append of_nat_add)
qed

lemma reassemble_fragments:
  assumes tag: "ref_fits tag" and lvl: "unat level mod 16 = unat level" and n: "n < 4294967296"
  shows "length acc + length (concat ds) = n \<Longrightarrow>
     (\<And>d. d \<in> set ds \<Longrightarrow> length (ref_bytes tag) + 12 + length d \<le> ON9LOG_PAYLOAD_LEN_MAX) \<Longrightarrow>
     unat seq = k mod 65536 \<Longrightarrow>
     reassemble (unat level) tag n k acc
       (map packet_bytes (fragment_packets env level tag n seq clock (length acc) ds)) =
     Some (acc @ concat ds)"
proof (induction ds arbitrary: acc seq clock k)
  case Nil
  then show ?case by simp
next
  case (Cons d ds)
  have "length acc < 4294967296" using Cons.prems(1) n by simp
  then obtain h where h: "parse_buffer_packet (buffer_header env level tag d seq clock @
      buffer_payload tag n (length acc) d) =
      Some (h, \<lparr>bf_tag = tag, bf_total = n, bf_offset = length acc, bf_data = d\<rparr>)"
    "ph_level h = unat level mod 16" "ph_seq h = unat seq"
    using parse_buffer_sent [OF tag _ n, of d "length acc" env level seq clock] Cons.prems(2) by auto
  have "unat (seq + 1) = Suc k mod 65536"
    using Cons.prems(3) by (simp add: unat_word_ariths mod_simps)
  then show ?case using Cons.IH [of "acc @ d" "seq + 1" "Suc k" "Suc clock"] Cons.prems h lvl
    by (simp add: packet_bytes_def add.assoc)
qed

section \<open>Writing a buffer\<close>

text \<open>The room a packet has for data beside an inline tag, at least one byte.\<close>

definition chunk_room :: "on9log_env \<Rightarrow> wire_ref \<Rightarrow> nat" where
  "chunk_room env tag = max 1 (cfg_buffer_chunk_size env - length (ref_bytes tag))"

definition buffer_pieces :: "on9log_env \<Rightarrow> wire_ref \<Rightarrow> bytes \<Rightarrow> bytes list" where
  "buffer_pieces env tag bs = (if bs = [] then [[]] else fragments (chunk_room env tag) bs)"

lemma chunk_room_word:
  assumes "config_ok env"
  shows "unat (if length (ref_bytes tag) < cfg_buffer_chunk_size env
               then word_of_nat (cfg_buffer_chunk_size env - length (ref_bytes tag)) else (1 :: u32)) =
           chunk_room env tag"
proof -
  have "unat (word_of_nat (cfg_buffer_chunk_size env - length (ref_bytes tag)) :: u32) =
      cfg_buffer_chunk_size env - length (ref_bytes tag)"
    using assms unfolding config_ok_def by (intro unat_word_of_nat_u32) linarith
  then show ?thesis by (simp add: chunk_room_def del: of_nat_diff)
qed

lemma buffer_pieces_facts:
  "concat (buffer_pieces env tag bs) = bs" "buffer_pieces env tag bs \<noteq> []"
  "d \<in> set (buffer_pieces env tag bs) \<Longrightarrow> length d \<le> chunk_room env tag"
proof -
  have k: "chunk_room env tag > 0" by (simp add: chunk_room_def)
  show c: "concat (buffer_pieces env tag bs) = bs"
    by (simp add: buffer_pieces_def concat_fragments [OF k])
  show "buffer_pieces env tag bs \<noteq> []"
    using c by (cases "bs = []") (auto simp: buffer_pieces_def)
  show "d \<in> set (buffer_pieces env tag bs) \<Longrightarrow> length d \<le> chunk_room env tag"
    using fragments_bounds by (auto simp: buffer_pieces_def split: if_splits)
qed

lemma write_buffer_sends:
  assumes cfg: "config_ok env" and on: "on9log_level_enabled env m st level tagp = Some True"
    and tag: "ref_denotes env m tagp tag" and rd: "rd_bytes m data n = Some bs" and n: "n < 4294967296"
    and data: "data \<noteq> NULL \<or> n = 0"
    and fit: "length (ref_bytes tag) + 13 \<le> ON9LOG_PAYLOAD_LEN_MAX"
  shows "on9log_write_buffer_with_text_flags env m level tagp fl data n st =
           Some (send_fragments env level tag n 0 (buffer_pieces env tag bs) (report_dropped env st))"
proof -
  let ?k = "if length (ref_bytes tag) < cfg_buffer_chunk_size env
            then word_of_nat (cfg_buffer_chunk_size env - length (ref_bytes tag)) else (1 :: u32)"
  note T = ref_denotes_facts [OF tag cfg]
  have k: "unat ?k = chunk_room env tag" using cfg by (rule chunk_room_word)
  have len: "length bs = n" using rd by (rule length_rd_bytes)
  have small: "\<not> length (ref_bytes tag) + 12 + chunk_room env tag > ON9LOG_PAYLOAD_LEN_MAX"
    using cfg fit by (simp add: chunk_room_def config_ok_def max_def)
  have z: "((word_of_nat n :: u32) = 0) = (n = 0)"
    using unat_eq_zero [of "word_of_nat n :: u32"] by (simp only: unat_word_of_nat_u32 [OF n])
  have empty: "on9log_emit_buffer_packet env m level tagp (wire_of tag) data 0 0 0 s =
      Some (buffer_packet_sent env level tag 0 0 [] s)" for s
    using emit_buffer_packet_sent [OF T(2,1), of 0 0 "[]"] by simp
  have "0 < unat ?k" unfolding k by (simp add: chunk_room_def)
  from buffer_loop_sends [OF rd n this T(2,1), of 0 env level "report_dropped env st"]
  have loop: "buffer_loop env m level tagp (wire_of tag) data (word_of_nat n) ?k 0 (report_dropped env st) =
      Some (send_fragments env level tag n 0 (fragments (chunk_room env tag) bs) (report_dropped env st))"
    unfolding k by simp
  show ?thesis
  proof (cases "n = 0")
    case True
    then have "bs = []" "\<not> (data = NULL \<and> n \<noteq> 0 \<or> n > 4294967295)" using len by auto
    then show ?thesis unfolding on9log_write_buffer_with_text_flags_def on T(3) bind.bind_lunit Let_def
        wire_str_size_of [OF T(1)] k z
      using small True by (simp add: buffer_pieces_def empty)
  next
    case False
    then have "bs \<noteq> []" using len by auto
    moreover have "\<not> (data = NULL \<and> n \<noteq> 0 \<or> n > 4294967295)" using data n by auto
    ultimately show ?thesis unfolding on9log_write_buffer_with_text_flags_def on T(3) bind.bind_lunit Let_def
        wire_str_size_of [OF T(1)] k z loop
      using small False by (simp only: if_False simp_thms buffer_pieces_def)
  qed
qed

lemma fragment_packets_bounds:
  "p \<in> set (fragment_packets env level tag n seq clock off ds) \<Longrightarrow>
     \<exists>d \<in> set ds. length (packet_bytes p) = HEADER_SIZE + length (ref_bytes tag) + 12 + length d"
  by (induction ds arbitrary: seq clock off)
    (auto simp: packet_bytes_def buffer_header_def length_buffer_payload)

lemma write_buffer_delivers:
  assumes "config_ok env" and "sinks_ok st" and "sink_idle s (st_events st)" and "s \<in> set (registered st)"
    and "on9log_level_enabled env m st level tagp = Some True" and "ref_denotes env m tagp tag"
    and "rd_bytes m data n = Some bs" and "n < 4294967296" and "data \<noteq> NULL \<or> n = 0"
    and "length (ref_bytes tag) + 13 \<le> ON9LOG_PAYLOAD_LEN_MAX"
  shows "\<exists>st'. on9log_write_buffer_with_text_flags env m level tagp fl data n st = Some st' \<and>
     sink_packets s (st_events st') = sink_packets s (st_events st) @ dropped_packets env st @
       fragment_packets env level tag n (s_seq (report_dropped env st)) (st_clock (report_dropped env st)) 0
         (buffer_pieces env tag bs)"
proof -
  have st: "sinks_ok (report_dropped env st)" "s \<in> set (registered (report_dropped env st))"
    using assms(2,4) by (simp_all add: sinks_ok_def)
  note R = report_dropped_delivers [OF assms(2-4)]
  show ?thesis
    using write_buffer_sends [OF assms(1,5-10)] R(1) send_fragments_delivers [OF st(1) R(2) st(2)] by simp
qed

section \<open>Properties of buffer writes\<close>

lemma demo_buffer: "rd_bytes demo_mem 256 2 = Some [104, 105]"
  by (simp add: demo_mem_def mem_object_def)

lemma demo_tag: "ref_denotes on9log_default_env demo_mem 64 (ByAddress 64)"
  by (simp add: ref_denotes_def on9log_default_env_def)

text \<open>C21: A buffer write always returns, and every registered sink receives a series of BUFFER packets
  (after the DROPPED report, if any is due) from which a reader reassembles exactly the buffer: same
  level, tag and total length in each, consecutive sequence numbers, each offset where the previous
  packet ended. An empty buffer is one empty packet.\<close>

theorem write_buffer_roundtrip:
  assumes "config_ok env" and "sinks_ok st" and "sink_idle s (st_events st)" and "s \<in> set (registered st)"
    and "on9log_level_enabled env m st level tagp = Some True" and "ref_denotes env m tagp tag"
    and "rd_bytes m data n = Some bs" and "n < 4294967296" and "data \<noteq> NULL \<or> n = 0"
    and "length (ref_bytes tag) + 13 \<le> ON9LOG_PAYLOAD_LEN_MAX"
  shows "\<exists>st' packets. on9log_write_buffer_with_text_flags env m level tagp fl data n st = Some st' \<and>
     sink_packets s (st_events st') =
       sink_packets s (st_events st) @ dropped_packets env st @ packets \<and> packets \<noteq> [] \<and>
     reassemble (unat level) tag n (unat (s_seq (report_dropped env st))) [] (map packet_bytes packets) =
       Some bs"
proof -
  let ?ds = "buffer_pieces env tag bs"
  let ?ps = "fragment_packets env level tag n (s_seq (report_dropped env st))
               (st_clock (report_dropped env st)) 0 ?ds"
  have len: "length bs = n" using assms(7) by (rule length_rd_bytes)
  have "length (ref_bytes tag) + 12 + length d \<le> ON9LOG_PAYLOAD_LEN_MAX" if "d \<in> set ?ds" for d
    using buffer_pieces_facts(3) [OF that] assms(1,10) by (simp add: chunk_room_def config_ok_def max_def split: if_splits)
  moreover have "unat (s_seq (report_dropped env st)) = unat (s_seq (report_dropped env st)) mod 65536"
    using unat_u16_less by simp
  ultimately have "reassemble (unat level) tag n (unat (s_seq (report_dropped env st))) []
      (map packet_bytes ?ps) = Some bs"
    using reassemble_fragments [OF ref_denotes_facts(1) [OF assms(6,1)] enabled_level_small [OF assms(5)]
        assms(8), of "[]" ?ds] len
    by (simp add: buffer_pieces_facts(1))
  moreover have "?ps \<noteq> []" using buffer_pieces_facts(2) [of env tag bs] by (cases ?ds) auto
  ultimately show ?thesis using write_buffer_delivers [OF assms, of fl] by auto
qed

theorem write_buffer_roundtrip_witness:
  "\<exists>st' packets. on9log_write_buffer_with_text_flags on9log_default_env demo_mem 3 64 0 256 2 demo_state =
       Some st' \<and>
     sink_packets demo_sink (st_events st') = sink_packets demo_sink (st_events demo_state) @
       dropped_packets on9log_default_env demo_state @ packets \<and> packets \<noteq> [] \<and>
     reassemble (unat (3 :: u32)) (ByAddress 64) 2
       (unat (s_seq (report_dropped on9log_default_env demo_state))) [] (map packet_bytes packets) =
       Some [104, 105]"
  by (rule write_buffer_roundtrip [OF config_ok_default demo_state_ok demo_enabled demo_tag demo_buffer])
    (simp_all add: ref_bytes_def)

text \<open>Also: With a chunk size the transport was designed for (at most 3042, the default) and a tag that
  leaves room in a chunk, every BUFFER packet with its header fits the transports' frame payload
  limit, so no sink has to discard it.\<close>

theorem buffer_packets_fit_transport:
  assumes "config_ok env" and "sinks_ok st" and "sink_idle s (st_events st)" and "s \<in> set (registered st)"
    and "on9log_level_enabled env m st level tagp = Some True" and "ref_denotes env m tagp tag"
    and "rd_bytes m data n = Some bs" and "n < 4294967296" and "data \<noteq> NULL \<or> n = 0"
    and "cfg_buffer_chunk_size env \<le> 3042" and "length (ref_bytes tag) < cfg_buffer_chunk_size env"
  shows "\<exists>st' packets. on9log_write_buffer_with_text_flags env m level tagp fl data n st = Some st' \<and>
     sink_packets s (st_events st') =
       sink_packets s (st_events st) @ dropped_packets env st @ packets \<and>
     (\<forall>p \<in> set packets. length (packet_bytes p) \<le> ON9LOG_TRANSPORT_MAX_PAYLOAD)"
proof -
  let ?ps = "fragment_packets env level tag n (s_seq (report_dropped env st))
               (st_clock (report_dropped env st)) 0 (buffer_pieces env tag bs)"
  have "length (packet_bytes p) \<le> ON9LOG_TRANSPORT_MAX_PAYLOAD" if p: "p \<in> set ?ps" for p
  proof -
    obtain d where d: "d \<in> set (buffer_pieces env tag bs)"
      "length (packet_bytes p) = 18 + length (ref_bytes tag) + 12 + length d"
      using fragment_packets_bounds [OF p] by auto
    show ?thesis using buffer_pieces_facts(3) [OF d(1)] assms(10,11) unfolding d(2) chunk_room_def
      by linarith
  qed
  moreover have "length (ref_bytes tag) + 13 \<le> ON9LOG_PAYLOAD_LEN_MAX" using assms(10,11) by simp
  ultimately show ?thesis using write_buffer_delivers [OF assms(1-9), of fl] by auto
qed

theorem buffer_packets_fit_transport_witness:
  "\<exists>st' packets. on9log_write_buffer_with_text_flags on9log_default_env demo_mem 3 64 0 256 2 demo_state =
       Some st' \<and>
     sink_packets demo_sink (st_events st') = sink_packets demo_sink (st_events demo_state) @
       dropped_packets on9log_default_env demo_state @ packets \<and>
     (\<forall>p \<in> set packets. length (packet_bytes p) \<le> ON9LOG_TRANSPORT_MAX_PAYLOAD)"
  by (rule buffer_packets_fit_transport [OF config_ok_default demo_state_ok demo_enabled demo_tag demo_buffer])
    (simp_all add: ref_bytes_def on9log_default_env_def)

text \<open>Also: An unusable buffer (NULL with a length, or longer than a 32-bit length can say) is counted
  as one dropped message and nothing is sent.\<close>

theorem unusable_buffer_is_counted:
  assumes "on9log_level_enabled env m st level tagp = Some True"
    and "data = NULL \<and> n \<noteq> 0 \<or> n \<ge> 4294967296"
  shows "on9log_write_buffer env m level tagp data n st = Some (count_dropped st)"
proof -
  have "data = NULL \<and> n \<noteq> 0 \<or> n > 4294967295" using assms(2) by auto
  then show ?thesis using assms(1)
    by (simp only: on9log_write_buffer_def on9log_write_buffer_with_text_flags_def bind.bind_lunit
        simp_thms if_True if_False)
qed

theorem unusable_buffer_is_counted_witness:
  "on9log_write_buffer on9log_default_env demo_mem 3 64 NULL 5 demo_state = Some (count_dropped demo_state)"
  by (rule unusable_buffer_is_counted [OF demo_enabled]) simp

end
