(* ===== verification/PacketCorrect.thy ===== *)
theory PacketCorrect
  imports BufferCorrect
begin

text \<open>
  The DROPPED, BOOT and TIME_SYNC packets decode to what was reported, and a packet built
  elsewhere joins the sequence in \<open>on9log_dispatch_packet\<close>.
\<close>

section \<open>DROPPED\<close>

lemma take_le_exact [simp]: "v < 4294967296 \<Longrightarrow> take_le 4 (le_bytes 4 v) = Some (v, [])"
  using take_le_4 [of v "[]"] by simp

lemma parse_dropped_header:
  "parse_dropped_packet (dropped_header env st @ le_bytes 4 (unat (n :: u32))) =
     Some (\<lparr>ph_type = 1, ph_level = 0, ph_seq = unat (s_seq st),
            ph_time_ms = unat (port_timestamp_ms env (st_clock st)),
            ph_tag_id = 0, ph_fmt_id = 0, ph_payload_len = 4\<rparr>, unat n)"
  by (simp add: parse_dropped_packet_def dropped_header_def parse_header_bytes unat_u32_less)

text \<open>Also: When messages have been dropped, the next emitting call reports exactly their number in a
  DROPPED packet of its own sequence number, to every registered sink, and restarts the count.\<close>

theorem drops_are_reported:
  assumes "sinks_ok st" and "sink_idle s (st_events st)" and "s \<in> set (registered st)"
    and "s_dropped_count st \<noteq> 0"
  shows "\<exists>p h. sink_packets s (st_events (report_dropped env st)) = sink_packets s (st_events st) @ [p] \<and>
     parse_dropped_packet (packet_bytes p) = Some (h, unat (s_dropped_count st)) \<and>
     ph_seq h = unat (s_seq st) \<and> s_seq (report_dropped env st) = s_seq st + 1 \<and>
     on9log_get_dropped_count (report_dropped env st) = 0"
  using report_dropped_delivers(1) [OF assms(1-3)] assms(4)
  by (simp add: dropped_packets_def packet_bytes_def parse_dropped_header report_dropped_seq
      on9log_get_dropped_count_def)

theorem drops_are_reported_witness:
  "\<exists>p h. sink_packets demo_sink (st_events (report_dropped on9log_default_env demo_state)) =
       sink_packets demo_sink (st_events demo_state) @ [p] \<and>
     parse_dropped_packet (packet_bytes p) = Some (h, unat (s_dropped_count demo_state)) \<and>
     ph_seq h = unat (s_seq demo_state) \<and>
     s_seq (report_dropped on9log_default_env demo_state) = s_seq demo_state + 1 \<and>
     on9log_get_dropped_count (report_dropped on9log_default_env demo_state) = 0"
  by (rule drops_are_reported [OF demo_state_ok]) (simp add: demo_state_def)

section \<open>BOOT\<close>

lemma image_id_facts:
  "length (fst (on9log_image_id env)) \<le> 32"
  "snd (on9log_image_id env) = ON9LOG_IMAGE_ID_NONE \<longleftrightarrow> fst (on9log_image_id env) = []"
  by (auto simp: on9log_image_id_def Let_def split: prod.split)

definition boot_payload :: "on9log_env \<Rightarrow> u32 \<Rightarrow> on9log_reset_reason_t \<Rightarrow> bytes" where
  "boot_payload env boot_id reason =
     le_bytes 4 (unat boot_id) @ [reset_reason_code reason, 1, image_id_kind_code (snd (on9log_image_id env)),
       word_of_nat (length (fst (on9log_image_id env)))] @ fst (on9log_image_id env)"

definition boot_header :: "on9log_env \<Rightarrow> on9log_state \<Rightarrow> bytes" where
  "boot_header env st =
     header_bytes ON9LOG_PKT_BOOT 0 (s_seq st) (port_timestamp_ms env (st_clock st)) 0 0
       (word_of_nat (8 + length (fst (on9log_image_id env))))"

definition boot_chunks :: "on9log_env \<Rightarrow> u32 \<Rightarrow> on9log_reset_reason_t \<Rightarrow> chunk list" where
  "boot_chunks env boot_id reason =
     [(le_bytes 4 (unat boot_id), 0, ON9LOG_PAYLOAD_META_ARG_INDEX),
      ([reset_reason_code reason, 1, image_id_kind_code (snd (on9log_image_id env)),
        word_of_nat (length (fst (on9log_image_id env)))], 0, ON9LOG_PAYLOAD_META_ARG_INDEX),
      (fst (on9log_image_id env), 0, ON9LOG_PAYLOAD_META_ARG_INDEX)]"

lemma emit_boot_events:
  "on9log_emit_boot env boot_id reason st =
     (ON9LOG_OK, observe (session (registered st) (Some (boot_header env st))
        (boot_chunks env boot_id reason)) (next_header st))"
proof (cases "on9log_image_id env")
  case (Pair ident kind)
  then show ?thesis
    by (simp add: on9log_emit_boot_def Let_def stream_simps registered_def session_def boot_header_def
        boot_chunks_def next_header_def chunks_events_def)
qed

lemma parse_boot_sent:
  "parse_boot_packet (boot_header env st @ boot_payload env boot_id reason) =
     Some (\<lparr>ph_type = 3, ph_level = 0, ph_seq = unat (s_seq st),
            ph_time_ms = unat (port_timestamp_ms env (st_clock st)),
            ph_tag_id = 0, ph_fmt_id = 0, ph_payload_len = 8 + length (fst (on9log_image_id env))\<rparr>,
           \<lparr>bm_boot_id = unat boot_id, bm_reason = unat (reset_reason_code reason), bm_version = 1,
            bm_id_kind = unat (image_id_kind_code (snd (on9log_image_id env))),
            bm_id = fst (on9log_image_id env)\<rparr>)"
proof -
  let ?i = "fst (on9log_image_id env)"
  have n: "unat (word_of_nat (8 + length ?i) :: u16) = 8 + length ?i"
    "unat (word_of_nat (length ?i) :: u8) = length ?i"
    using image_id_facts(1) [of env] by (simp_all add: unat_of_nat del: of_nat_add)
  have "take_bytes (length ?i) ?i = Some (?i, [])" using take_bytes_append [of ?i "[]"] by simp
  then show ?thesis
    by (simp add: parse_boot_packet_def boot_header_def parse_header_bytes n boot_payload_def
        del: of_nat_add take_le_append)
qed

text \<open>
  What a reader is to be told of an image ID of the port: none if it is empty, longer than the 32 bytes
  given to the port, or of kind NONE; else its bytes and its kind as they are.
\<close>

definition usable_id :: "bytes \<times> on9log_image_id_kind_t \<Rightarrow> bool" where
  "usable_id answer \<longleftrightarrow> fst answer \<noteq> [] \<and> length (fst answer) \<le> 32 \<and> snd answer \<noteq> ON9LOG_IMAGE_ID_NONE"

text \<open>C32: A boot announcement succeeds and gives every registered sink one BOOT packet that decodes to
  the boot ID, the reset reason, the wire format version and the image's ID: the bytes and the kind the port
  answers when asked for at most 32 bytes, if they are usable; an empty ID of kind NONE if the answer is
  empty, too long or of kind NONE.\<close>

theorem boot_is_announced:
  assumes "sinks_ok st" and "sink_idle s (st_events st)" and "s \<in> set (registered st)"
  shows "\<exists>st' p h b. on9log_emit_boot env boot_id reason st = (ON9LOG_OK, st') \<and>
     sink_packets s (st_events st') = sink_packets s (st_events st) @ [p] \<and>
     parse_boot_packet (packet_bytes p) = Some (h, b) \<and> ph_seq h = unat (s_seq st) \<and>
     bm_boot_id b = unat boot_id \<and> bm_reason b = unat (reset_reason_code reason) \<and> bm_version b = 1 \<and>
     (bm_id b, bm_id_kind b) =
       (let (ident, kind) = port_image_id env 32
        in if usable_id (ident, kind) then (ident, unat (image_id_kind_code kind)) else ([], 0))"
proof -
  have "(fst (on9log_image_id env), unat (image_id_kind_code (snd (on9log_image_id env)))) =
      (let (ident, kind) = port_image_id env 32
       in if usable_id (ident, kind) then (ident, unat (image_id_kind_code kind)) else ([], 0))"
    by (cases "port_image_id env 32") (auto simp: on9log_image_id_def usable_id_def)
  moreover have "chunks_bytes (boot_chunks env boot_id reason) = boot_payload env boot_id reason"
    by (simp add: boot_chunks_def boot_payload_def)
  ultimately show ?thesis
    using sink_packets_session [OF _ assms(2)] assms(1,3)
    by (simp add: emit_boot_events sinks_ok_def packet_bytes_def parse_boot_sent)
qed

text \<open>A build ID of three bytes, and one that is longer than the room the port was given.\<close>

definition id_env :: "bytes \<Rightarrow> on9log_env" where
  "id_env ident = on9log_default_env\<lparr>port_image_id := (\<lambda>cap. (ident, ON9LOG_IMAGE_ID_GNU_BUILD_ID))\<rparr>"

theorem boot_is_announced_witness:
  "(\<exists>st' p h b. on9log_emit_boot (id_env [1, 2, 3]) 7 ON9LOG_RESET_PANIC demo_state = (ON9LOG_OK, st') \<and>
     sink_packets demo_sink (st_events st') = sink_packets demo_sink (st_events demo_state) @ [p] \<and>
     parse_boot_packet (packet_bytes p) = Some (h, b) \<and> bm_boot_id b = 7 \<and>
     bm_id b = [1, 2, 3] \<and> bm_id_kind b = unat (image_id_kind_code ON9LOG_IMAGE_ID_GNU_BUILD_ID)) \<and>
   (\<exists>st' p h b. on9log_emit_boot (id_env (replicate 33 9)) 7 ON9LOG_RESET_PANIC demo_state = (ON9LOG_OK, st') \<and>
     sink_packets demo_sink (st_events st') = sink_packets demo_sink (st_events demo_state) @ [p] \<and>
     parse_boot_packet (packet_bytes p) = Some (h, b) \<and> bm_boot_id b = 7 \<and> bm_id b = [] \<and> bm_id_kind b = 0)"
  using boot_is_announced [OF demo_state_ok, of "id_env [1, 2, 3]" 7 ON9LOG_RESET_PANIC]
    boot_is_announced [OF demo_state_ok, of "id_env (replicate 33 9)" 7 ON9LOG_RESET_PANIC]
  by (simp add: id_env_def usable_id_def) blast

section \<open>TIME_SYNC\<close>

definition time_sync_bytes :: "u32 \<Rightarrow> u32 \<Rightarrow> bytes" where
  "time_sync_bytes ms boot_id =
     header_bytes ON9LOG_PKT_TIME_SYNC 0 0 ms 0 0 4 @ le_bytes 4 (unat boot_id)"

lemma encode_time_sync_appends:
  assumes "cap \<le> length data"
  shows "\<exists>enc. enc_appends (enc_init cap data) (time_sync_bytes ms boot_id) enc \<and>
    on9log_put_u32 (on9log_put_header (enc_init cap data) ON9LOG_PKT_TIME_SYNC 0 0 ms 0 0 4) boot_id = enc"
  unfolding time_sync_bytes_def
  by (rule exI, rule conjI [OF _ refl], intro enc_appends_step enc_intros enc_init_ok assms)

text \<open>Also: Encoding a TIME_SYNC packet never writes past the capacity it is given. With room for the 22
  bytes it returns 22 and the buffer starts with a packet outside the log sequence (number 0) that
  decodes to the boot ID at the clock's reading; with less room it returns 0.\<close>

theorem time_sync_encoding:
  assumes "cap \<le> length data"
  shows "\<exists>n data' st'. on9log_encode_time_sync env (Some data) cap boot_id st = (n, Some data', st') \<and>
     length data' = length data \<and> drop cap data' = drop cap data \<and>
     n = (if cap < 22 then 0 else 22) \<and> s_seq st' = s_seq st \<and>
     (22 \<le> cap \<longrightarrow> parse_time_sync_packet (take n data') =
        Some (\<lparr>ph_type = 2, ph_level = 0, ph_seq = 0,
               ph_time_ms = unat (port_timestamp_ms env (st_clock st)),
               ph_tag_id = 0, ph_fmt_id = 0, ph_payload_len = 4\<rparr>, unat boot_id))"
proof -
  let ?ms = "port_timestamp_ms env (st_clock st)"
  obtain enc where a: "enc_appends (enc_init cap data) (time_sync_bytes ?ms boot_id) enc"
    and enc: "on9log_put_u32 (on9log_put_header (enc_init cap data) ON9LOG_PKT_TIME_SYNC 0 0 ?ms 0 0 4)
      boot_id = enc"
    using encode_time_sync_appends [OF assms] by blast
  have len: "length (time_sync_bytes ?ms boot_id) = 22" by (simp add: time_sync_bytes_def)
  have data: "length (enc_data enc) = length data" "drop cap (enc_data enc) = drop cap data"
    using a by (simp_all add: enc_appends_def enc_init_def)
  have "parse_time_sync_packet (time_sync_bytes ?ms boot_id) =
      Some (\<lparr>ph_type = 2, ph_level = 0, ph_seq = 0, ph_time_ms = unat ?ms, ph_tag_id = 0, ph_fmt_id = 0,
             ph_payload_len = 4\<rparr>, unat boot_id)"
    by (simp add: parse_time_sync_packet_def time_sync_bytes_def parse_header_bytes unat_u32_less)
  then show ?thesis
    using enc_init_appends [OF assms a] len data
    by (auto simp: on9log_encode_time_sync_def read_clock_def enc enc_out_def)
qed

theorem time_sync_encoding_witness:
  "\<exists>n data' st'. on9log_encode_time_sync on9log_default_env (Some (replicate 30 0)) 25 9 demo_state =
       (n, Some data', st') \<and>
     length data' = length (replicate 30 (0 :: u8)) \<and> drop 25 data' = drop 25 (replicate 30 0) \<and>
     n = (if (25 :: nat) < 22 then 0 else 22) \<and> s_seq st' = s_seq demo_state \<and>
     (22 \<le> (25 :: nat) \<longrightarrow> parse_time_sync_packet (take n data') =
        Some (\<lparr>ph_type = 2, ph_level = 0, ph_seq = 0,
               ph_time_ms = unat (port_timestamp_ms on9log_default_env (st_clock demo_state)),
               ph_tag_id = 0, ph_fmt_id = 0, ph_payload_len = 4\<rparr>, unat (9 :: u32)))"
  by (rule time_sync_encoding) simp

section \<open>Dispatch\<close>

definition packet_type_nibble :: "bytes \<Rightarrow> nat" where
  "packet_type_nibble p = unat (p ! 1) div 16"

text \<open>The packet as it joins the stream: bytes 2 and 3 replaced by the sequence number.\<close>

definition restamp :: "u16 \<Rightarrow> bytes \<Rightarrow> bytes" where
  "restamp seq p = take 2 p @ le_bytes 2 (unat seq) @ drop 4 p"

lemma restamp_header:
  assumes "length p \<ge> 18"
  shows "(take 18 p)[2 := a, 3 := b] @ drop 18 p = take 2 p @ [a, b] @ drop 4 p"
proof (rule nth_equalityI)
  fix i assume "i < length ((take 18 p)[2 := a, 3 := b] @ drop 18 p)"
  then have i: "i < length p" using assms by simp
  consider "i < 2" | "i = 2" | "i = 3" | "4 \<le> i" by linarith
  then show "((take 18 p)[2 := a, 3 := b] @ drop 18 p) ! i = (take 2 p @ [a, b] @ drop 4 p) ! i"
    using assms i by cases (simp_all add: nth_append nth_Cons')
qed (use assms in simp)

lemma type_nibble: "(drop_bit 4 (b :: u8) = 2) = (unat b div 16 = 2)"
proof -
  have "unat (2 :: u8) = 2" and "(2 :: nat) ^ 4 = 16" by simp_all
  then show ?thesis by (simp only: word_unat_eq_iff unat_drop_bit)
qed

lemma dispatch_accepted:
  assumes "length p \<ge> HEADER_SIZE" and "p ! 0 = ON9LOG_PACKET_MAGIC" and st: "st1 = report_dropped env st"
  shows "\<exists>hdr. on9log_dispatch_packet env (Some p) st =
     (ON9LOG_OK, observe (session (registered st) (Some hdr) [(drop HEADER_SIZE p, 0, ON9LOG_PAYLOAD_META_ARG_INDEX)])
        (if packet_type_nibble p = 2 then st1 else st1\<lparr>s_seq := s_seq st1 + 1\<rparr>)) \<and>
     hdr @ drop HEADER_SIZE p = (if packet_type_nibble p = 2 then p else restamp (s_seq st1) p)"
proof (cases "packet_type_nibble p = 2")
  case True
  then have "drop_bit 4 (p ! 1) = 2" by (simp add: type_nibble packet_type_nibble_def)
  then show ?thesis using assms True
    by (intro exI [of _ "take 18 p"])
      (simp add: on9log_dispatch_packet_def on9log_stream_open_def on9log_port_emit_lock_def Let_def
        on9log_stream_send_header_def stream_payload_events stream_end_events session_def registered_def
        observe_def)
next
  case False
  then have "drop_bit 4 (p ! 1) \<noteq> 2" by (simp add: type_nibble packet_type_nibble_def)
  then show ?thesis using assms False restamp_header [OF assms(1)] split_u16 [of "s_seq st1"]
    by (intro exI [of _ "(take 18 p)[2 := ucast (s_seq st1 AND 0xff), 3 := ucast (drop_bit 8 (s_seq st1))]"])
      (simp add: on9log_dispatch_packet_def on9log_stream_open_def on9log_port_emit_lock_def Let_def
        on9log_stream_send_header_def stream_payload_events stream_end_events session_def registered_def
        observe_def restamp_def)
qed

text \<open>Packets worth dispatching: at least a header, starting with the magic byte.\<close>

definition dispatchable :: "bytes option \<Rightarrow> bool" where
  "dispatchable packet \<longleftrightarrow>
     (case packet of None \<Rightarrow> False | Some p \<Rightarrow> length p \<ge> HEADER_SIZE \<and> p ! 0 = ON9LOG_PACKET_MAGIC)"

text \<open>Also: A packet built elsewhere (by an ISR, say) is refused, with nothing changed, exactly when it is
  NULL, shorter than a header or does not start with the magic byte.\<close>

theorem dispatch_rejects_malformed:
  "if dispatchable packet then fst (on9log_dispatch_packet env packet st) = ON9LOG_OK
   else on9log_dispatch_packet env packet st = (ON9LOG_ERR_INVALID_ARG, st)"
proof (cases packet)
  case None
  then show ?thesis by (simp add: on9log_dispatch_packet_def dispatchable_def)
next
  case (Some p)
  show ?thesis
  proof (cases "length p < HEADER_SIZE \<or> p ! 0 \<noteq> ON9LOG_PACKET_MAGIC")
    case True
    then show ?thesis using Some by (auto simp: on9log_dispatch_packet_def dispatchable_def)
  next
    case False
    then show ?thesis using dispatch_accepted [of p "report_dropped env st" env st] Some
      by (auto simp: dispatchable_def)
  qed
qed

lemma dispatch_renumbers_lemma:
  assumes "sinks_ok st" and "sink_idle s (st_events st)" and "s \<in> set (registered st)"
    and "length p \<ge> HEADER_SIZE" and "p ! 0 = ON9LOG_PACKET_MAGIC"
  shows "\<exists>st' q. on9log_dispatch_packet env (Some p) st = (ON9LOG_OK, st') \<and>
     sink_packets s (st_events st') =
       sink_packets s (st_events st) @ dropped_packets env st @ [q] \<and>
     packet_bytes q = (if packet_type_nibble p = 2 then p else restamp (s_seq (report_dropped env st)) p) \<and>
     s_seq st' = s_seq (report_dropped env st) + (if packet_type_nibble p = 2 then 0 else 1)"
proof -
  let ?st1 = "report_dropped env st"
  obtain hdr where d: "on9log_dispatch_packet env (Some p) st =
     (ON9LOG_OK, observe (session (registered st) (Some hdr) [(drop HEADER_SIZE p, 0, ON9LOG_PAYLOAD_META_ARG_INDEX)])
        (if packet_type_nibble p = 2 then ?st1 else ?st1\<lparr>s_seq := s_seq ?st1 + 1\<rparr>))"
    and q: "hdr @ drop HEADER_SIZE p = (if packet_type_nibble p = 2 then p else restamp (s_seq ?st1) p)"
    using dispatch_accepted [OF assms(4,5) refl] by blast
  have dist: "distinct (registered st)" using assms(1) by (simp add: sinks_ok_def)
  note R = report_dropped_delivers [OF assms(1-3), of env]
  show ?thesis unfolding d
    using sink_packets_session(1) [OF dist R(2), of "Some hdr"] R(1) q assms(3)
    by (intro exI [of _ "observe (session (registered st) (Some hdr) [(drop HEADER_SIZE p, 0, ON9LOG_PAYLOAD_META_ARG_INDEX)])
        (if packet_type_nibble p = 2 then ?st1 else ?st1\<lparr>s_seq := s_seq ?st1 + 1\<rparr>)"]
        exI [of _ "(Some hdr, drop HEADER_SIZE p)"])
      (simp add: packet_bytes_def)
qed

text \<open>C29: An accepted packet reaches every registered sink unchanged except for its sequence number,
  which becomes the next one of this logger when the packet is written; a TIME_SYNC packet is not
  renumbered and uses no number.\<close>

theorem dispatch_renumbers:
  assumes "sinks_ok st" and "sink_idle s (st_events st)" and "s \<in> set (registered st)"
    and "length p \<ge> HEADER_SIZE" and "p ! 0 = ON9LOG_PACKET_MAGIC"
  shows "\<exists>st' q. on9log_dispatch_packet env (Some p) st = (ON9LOG_OK, st') \<and>
     sink_packets s (st_events st') =
       sink_packets s (st_events st) @ dropped_packets env st @ [q] \<and>
     packet_bytes q = (if packet_type_nibble p = 2 then p else restamp (s_seq (report_dropped env st)) p) \<and>
     s_seq st' = s_seq (report_dropped env st) + (if packet_type_nibble p = 2 then 0 else 1)"
  by (rule dispatch_renumbers_lemma [OF assms])

definition demo_packet :: bytes where
  "demo_packet = header_bytes ON9LOG_PKT_LOG 3 0 5 64 128 1 @ [0]"

theorem dispatch_renumbers_witness:
  "\<exists>st' q. on9log_dispatch_packet on9log_default_env (Some demo_packet) demo_state = (ON9LOG_OK, st') \<and>
     sink_packets demo_sink (st_events st') = sink_packets demo_sink (st_events demo_state) @
       dropped_packets on9log_default_env demo_state @ [q] \<and>
     packet_bytes q = (if packet_type_nibble demo_packet = 2 then demo_packet
       else restamp (s_seq (report_dropped on9log_default_env demo_state)) demo_packet) \<and>
     s_seq st' = s_seq (report_dropped on9log_default_env demo_state) +
       (if packet_type_nibble demo_packet = 2 then 0 else 1)"
  by (rule dispatch_renumbers [OF demo_state_ok]) (simp_all add: demo_packet_def header_bytes_def)

end
