(* ===== verification/IsrWrite.thy ===== *)
theory IsrWrite
  imports PacketCorrect
begin

text \<open>
  Log calls from interrupt handlers, binary build: \<open>on9log_encode_isr_log_packet\<close> serialises the
  whole packet into a stack array, \<open>on9log_vwrite_isr\<close> hands it to the port's queue, and the
  drain task gives it to \<open>on9log_dispatch_packet\<close>. The queue itself belongs to the port:
  \<open>st_isr_queue\<close> holds the packets it has accepted, in order.
\<close>

section \<open>The code\<close>

primrec isr_put_types :: "nat \<Rightarrow> bytes option \<Rightarrow> nat \<Rightarrow> on9log_encoder \<Rightarrow> on9log_encoder option" where
  "isr_put_types 0 arg_types idx enc = Some enc"
| "isr_put_types (Suc left) arg_types idx enc =
     do { ty \<leftarrow> on9log_arg_type_at arg_types idx;
          isr_put_types left arg_types (Suc idx) (on9log_put_u8 enc ty) }"

definition isr_put_arg :: "u8 \<Rightarrow> va_list \<Rightarrow> on9log_encoder \<Rightarrow> (va_list \<times> on9log_encoder) option" where
  "isr_put_arg ty args enc =
     (if ty = ON9_LOG_ARGS_TYPE_32BITS
      then do { (v, args) \<leftarrow> va_arg_u32 args; Some (args, on9log_put_u32 enc v) }
      else if ty = ON9_LOG_ARGS_TYPE_64BITS
      then do { (v, args) \<leftarrow> va_arg_u64 args; Some (args, on9log_put_u64 enc v) }
      else if ty = ON9_LOG_ARGS_TYPE_POINTER
      then do { (p, args) \<leftarrow> va_arg_ptr args; Some (args, on9log_put_u32 enc (word_of_nat p)) }
      else Some (args, enc\<lparr>enc_overflow := True\<rparr>))"

primrec isr_put_args ::
    "nat \<Rightarrow> bytes option \<Rightarrow> nat \<Rightarrow> va_list \<Rightarrow> on9log_encoder \<Rightarrow> on9log_encoder option" where
  "isr_put_args 0 arg_types idx args enc = Some enc"
| "isr_put_args (Suc left) arg_types idx args enc =
     do { ty \<leftarrow> on9log_arg_type_at arg_types idx;
          (args, enc) \<leftarrow> isr_put_arg ty args enc;
          isr_put_args left arg_types (Suc idx) args enc }"

text \<open>The result: the returned flag, the array's contents and \<open>*packet_len\<close> (0 when not written).\<close>

definition on9log_encode_isr_log_packet ::
    "on9log_env \<Rightarrow> mem \<Rightarrow> bytes \<Rightarrow> nat \<Rightarrow> on9log_level_t \<Rightarrow> addr \<Rightarrow> addr \<Rightarrow> bytes option \<Rightarrow> va_list \<Rightarrow>
       (bool \<times> bytes \<times> nat) option" where
  "on9log_encode_isr_log_packet env m packet packet_cap level tag format arg_types args =
     do { arg_count \<leftarrow> on9log_arg_count arg_types;
          let inline_max = (if packet_cap < cfg_max_dynamic_string_len env then packet_cap
                            else cfg_max_dynamic_string_len env);
          tag_wire \<leftarrow> on9log_wire_str env m tag inline_max;
          format_wire \<leftarrow> on9log_wire_str env m format inline_max;
          let enc = on9log_put_header (enc_init packet_cap packet) ON9LOG_PKT_LOG level 0
                      (port_isr_timestamp_ms env) (ws_id tag_wire) (ws_id format_wire) 0;
          enc \<leftarrow> on9log_put_wire_str m enc tag tag_wire;
          enc \<leftarrow> on9log_put_wire_str m enc format format_wire;
          let enc = on9log_put_u8 enc arg_count;
          enc \<leftarrow> isr_put_types (unat arg_count) arg_types 0 enc;
          enc \<leftarrow> isr_put_args (unat arg_count) arg_types 0 args enc;
          if enc_overflow enc then Some (False, enc_data enc, 0)
          else
            (let payload_len = enc_len enc - HEADER_SIZE
             in Some (True, (enc_data enc)[HEADER_SIZE - 2 := word_of_nat payload_len AND 0xff,
                                           HEADER_SIZE - 1 := word_of_nat (payload_len div 256)],
                      enc_len enc)) }"

definition on9log_port_isr_enqueue_packet ::
    "on9log_env \<Rightarrow> bytes \<Rightarrow> on9log_state \<Rightarrow> bool \<times> on9log_state" where
  "on9log_port_isr_enqueue_packet env packet st =
     (if port_isr_enqueue_packet env (st_isr_queue st) packet
      then (True, st\<lparr>st_isr_queue := st_isr_queue st @ [packet]\<rparr>)
      else (False, st))"

text \<open>The array \<open>packet\<close> is uninitialised; only bytes written by the encoder are used.\<close>

definition on9log_vwrite_isr ::
    "on9log_env \<Rightarrow> mem \<Rightarrow> on9log_level_t \<Rightarrow> addr \<Rightarrow> addr \<Rightarrow> bytes option \<Rightarrow> va_list \<Rightarrow> on9log_state \<Rightarrow>
       (bool \<times> on9log_state) option" where
  "on9log_vwrite_isr env m level tag format arg_types args st =
     do { enabled \<leftarrow> on9log_level_enabled env m st level tag;
          if \<not> enabled then Some (True, st)
          else if \<not> port_isr_ready env then Some (True, st)
          else do {
            safe \<leftarrow> on9log_arg_types_are_isr_safe arg_types;
            if \<not> safe then Some (False, count_dropped st)
            else do {
              (ok, packet, packet_len) \<leftarrow>
                on9log_encode_isr_log_packet env m (replicate (cfg_isr_packet_max env) 0)
                  (cfg_isr_packet_max env) level tag format arg_types args;
              if \<not> ok then Some (False, count_dropped st)
              else
                (let (accepted, st) = on9log_port_isr_enqueue_packet env (take packet_len packet) st
                 in if accepted then Some (True, st) else Some (False, count_dropped st)) } } }"

definition on9log_write_isr where
  "on9log_write_isr env m level tag format arg_types args st =
     on9log_vwrite_isr env m level tag format arg_types args st"

definition on9log_write_isr_with_text_flags where
  "on9log_write_isr_with_text_flags env m level tag (text_flags :: u8) format arg_types args st =
     on9log_vwrite_isr env m level tag format arg_types args st"

text \<open>One round of the ESP drain task: the oldest packet is dispatched and released.\<close>

definition on9log_esp_isr_drain_step :: "on9log_env \<Rightarrow> on9log_state \<Rightarrow> on9log_state" where
  "on9log_esp_isr_drain_step env st =
     (case st_isr_queue st of
        [] \<Rightarrow> st
      | p # ps \<Rightarrow> (snd (on9log_dispatch_packet env (Some p) st))\<lparr>st_isr_queue := ps\<rparr>)"

section \<open>What the encoder writes\<close>

text \<open>The ISR path copies no string longer than the packet.\<close>

definition isr_env :: "on9log_env \<Rightarrow> on9log_env" where
  "isr_env env = env\<lparr>cfg_max_dynamic_string_len :=
     (if cfg_isr_packet_max env < cfg_max_dynamic_string_len env then cfg_isr_packet_max env
      else cfg_max_dynamic_string_len env)\<rparr>"

lemma isr_env_ok: "config_ok env \<Longrightarrow> config_ok (isr_env env)"
  by (simp add: config_ok_def isr_env_def)

lemma isr_wire_str:
  assumes "ref_denotes (isr_env env) m str r" and "config_ok env"
  shows "on9log_wire_str env m str (if cfg_isr_packet_max env < cfg_max_dynamic_string_len env
            then cfg_isr_packet_max env else cfg_max_dynamic_string_len env) = Some (wire_of r)"
  using ref_denotes_facts(3) [OF assms(1) isr_env_ok [OF assms(2)]]
  by (simp add: on9log_wire_str_def isr_env_def)

lemma put_wire_str_appends:
  assumes "enc_ok enc" and "ref_sent m str r" and "ref_fits r"
  shows "\<exists>enc'. on9log_put_wire_str m enc str (wire_of r) = Some enc' \<and> enc_appends enc (ref_bytes r) enc'"
proof (cases r)
  case (ByAddress a)
  then show ?thesis using assms
    by (simp add: on9log_put_wire_str_def wire_of_def ref_fits_def ref_bytes_def enc_appends_Nil)
next
  case (Inline s)
  then have len: "unat (word_of_nat (length s) :: u32) = length s"
    and rd: "rd_bytes m str (length s) = Some s"
    using assms by (simp_all add: ref_fits_def ref_sent_def unat_word_of_nat_u32)
  have a: "enc_appends enc (le_bytes 4 (length s)) (on9log_put_u32 enc (word_of_nat (length s)))"
    using put_u32_appends [OF assms(1), of "word_of_nat (length s)"] by (simp only: len)
  from put_bytes_appends [OF enc_appends_ok [OF a] rd] obtain enc' where
    b: "on9log_put_bytes m (on9log_put_u32 enc (word_of_nat (length s))) str (length s) = Some enc'"
    "enc_appends (on9log_put_u32 enc (word_of_nat (length s))) s enc'" by blast
  show ?thesis using b(1) enc_appends_trans [OF assms(1) a b(2)] Inline len
    by (simp add: on9log_put_wire_str_def wire_of_def ref_bytes_def)
qed

lemma isr_put_types_appends:
  "enc_ok enc \<Longrightarrow>
     \<exists>enc'. isr_put_types (length types) (Some (before @ types @ rest)) (length before) enc = Some enc' \<and>
       enc_appends enc types enc'"
proof (induction types arbitrary: before enc)
  case Nil
  then show ?case by (simp add: enc_appends_Nil)
next
  case (Cons ty types)
  have a: "enc_appends enc [ty] (on9log_put_u8 enc ty)" using Cons.prems by (rule put_u8_appends)
  from Cons.IH [OF enc_appends_ok [OF a], of "before @ [ty]"] obtain enc' where
    "isr_put_types (length types) (Some ((before @ [ty]) @ types @ rest)) (length (before @ [ty]))
      (on9log_put_u8 enc ty) = Some enc'" "enc_appends (on9log_put_u8 enc ty) types enc'" by blast
  then show ?case using enc_appends_trans [OF Cons.prems a] by (simp add: arg_type_at_append)
qed

lemma isr_put_arg_appends:
  assumes "enc_ok enc" and "arg_sent m ty va v" and "isr_safe_type ty"
  shows "\<exists>enc'. isr_put_arg ty (va # args) enc = Some (args, enc') \<and> enc_appends enc (arg_bytes v) enc'"
  using assms(2)
  by (cases rule: arg_sent.cases)
    (use assms(1,3) in \<open>simp_all add: isr_put_arg_def isr_safe_type_def put_u32_appends put_u64_appends\<close>)

lemma isr_put_args_appends:
  "enc_ok enc \<Longrightarrow> args_sent m types args vals \<Longrightarrow> list_all isr_safe_type types \<Longrightarrow>
     \<exists>enc'. isr_put_args (length types) (Some (before @ types @ rest)) (length before) args enc = Some enc' \<and>
       enc_appends enc (concat (map arg_bytes vals)) enc'"
proof (induction types arbitrary: before args vals enc)
  case Nil
  then show ?case by (simp add: enc_appends_Nil)
next
  case (Cons ty types)
  from Cons.prems(2) obtain va args' v vals' where va: "args = va # args'" "vals = v # vals'"
    "arg_sent m ty va v" "args_sent m types args' vals'"
    by (cases args; cases vals) auto
  have safe: "isr_safe_type ty" "list_all isr_safe_type types" using Cons.prems(3) by simp_all
  from isr_put_arg_appends [OF Cons.prems(1) va(3) safe(1)] obtain enc1 where
    a: "isr_put_arg ty (va # args') enc = Some (args', enc1)" "enc_appends enc (arg_bytes v) enc1" by blast
  from Cons.IH [OF enc_appends_ok [OF a(2)] va(4) safe(2), of "before @ [ty]"] obtain enc2 where
    "isr_put_args (length types) (Some ((before @ [ty]) @ types @ rest)) (length (before @ [ty])) args' enc1 =
      Some enc2" "enc_appends enc1 (concat (map arg_bytes vals')) enc2" by blast
  then show ?case using a enc_appends_trans [OF Cons.prems(1) a(2)]
    by (simp add: va(1,2) arg_type_at_append)
qed

text \<open>The packet before its length is patched in, and as it is handed over.\<close>

definition isr_packet_bytes ::
    "on9log_env \<Rightarrow> on9log_level_t \<Rightarrow> wire_ref \<Rightarrow> wire_ref \<Rightarrow> bytes \<Rightarrow> log_arg list \<Rightarrow> u16 \<Rightarrow> u16 \<Rightarrow> bytes" where
  "isr_packet_bytes env level tag fmt types vals seq n =
     header_bytes ON9LOG_PKT_LOG level seq (port_isr_timestamp_ms env) (ws_id (wire_of tag))
       (ws_id (wire_of fmt)) n @ log_payload_bytes tag fmt types vals"

lemma length_isr_packet [simp]:
  "length (isr_packet_bytes env level tag fmt types vals seq n) =
     18 + length (log_payload_bytes tag fmt types vals)"
  by (simp add: isr_packet_bytes_def)

lemma patch_length:
  assumes "length xs = 16"
  shows "(xs @ [a, b] @ ys)[16 := c, 17 := d] = xs @ [c, d] @ ys"
  using assms by (simp add: list_update_append)

lemma header_split:
  "header_bytes t l s ms tag fmt n =
     ([0x9a, word_of_nat (16 * unat (packet_type_code t) + unat l mod 16)] @ le_bytes 2 (unat s) @
      le_bytes 4 (unat ms) @ le_bytes 4 (unat tag) @ le_bytes 4 (unat fmt)) @ le_bytes 2 (unat n)"
  by (simp add: header_bytes_def)

lemma patch_isr_packet:
  assumes "n < 65536"
  shows "((isr_packet_bytes env level tag fmt types vals seq 0 @ rest)
            [16 := word_of_nat n AND 0xff, 17 := word_of_nat (n div 256)]) =
         isr_packet_bytes env level tag fmt types vals seq (word_of_nat n) @ rest"
proof -
  have n: "unat (word_of_nat n :: u16) = n" using assms by (simp add: unat_of_nat)
  have m: "(word_of_nat n AND 0xff :: u8) = word_of_nat n"
  proof -
    have "unat (word_of_nat n AND 0xff :: u8) = unat (word_of_nat n :: u8)"
      by (simp only: unat_and_ff unat_word_of_nat_u8 mod_mod_trivial)
    then show ?thesis by (simp only: word_unat_eq_iff)
  qed
  show ?thesis unfolding isr_packet_bytes_def header_split n m le_bytes_2 append_assoc
    using patch_length by (simp add: list_update_append)
qed

lemma encode_isr_packet:
  assumes cfg: "config_ok env" and small: "cfg_isr_packet_max env \<le> 65535"
    and tag: "ref_denotes (isr_env env) m tagp tag" and fmt: "ref_denotes (isr_env env) m fmtp fmt"
    and types: "0 \<notin> set types" "length types \<le> 255" "list_all isr_safe_type types"
    and args: "args_sent m types args vals" and buf: "length buf = cfg_isr_packet_max env"
  defines "plen \<equiv> 18 + length (log_payload_bytes tag fmt types vals)"
  shows "\<exists>ok packet n. on9log_encode_isr_log_packet env m buf (cfg_isr_packet_max env) level tagp fmtp
             (arg_table types) args = Some (ok, packet, n) \<and>
           length packet = length buf \<and>
           (ok \<longleftrightarrow> plen \<le> cfg_isr_packet_max env) \<and>
           (ok \<longrightarrow> take n packet = isr_packet_bytes env level tag fmt types vals 0 (word_of_nat (plen - 18)))"
proof -
  let ?cap = "cfg_isr_packet_max env"
  let ?wt = "wire_of tag" and ?wf = "wire_of fmt"
  let ?e0 = "enc_init ?cap buf"
  let ?e1 = "on9log_put_header ?e0 ON9LOG_PKT_LOG level 0 (port_isr_timestamp_ms env) (ws_id ?wt) (ws_id ?wf) 0"
  note T = ref_denotes_facts [OF tag isr_env_ok [OF cfg]] and F = ref_denotes_facts [OF fmt isr_env_ok [OF cfg]]
  have ok0: "enc_ok ?e0" using buf by (simp add: enc_init_ok)
  have a1: "enc_appends ?e0 (header_bytes ON9LOG_PKT_LOG level 0 (port_isr_timestamp_ms env) (ws_id ?wt) (ws_id ?wf) 0) ?e1"
    (is "enc_appends _ ?h _") using ok0 by (rule put_header_appends)
  obtain e2 where e2: "on9log_put_wire_str m ?e1 tagp ?wt = Some e2" "enc_appends ?e1 (ref_bytes tag) e2"
    using put_wire_str_appends [OF enc_appends_ok [OF a1] T(2,1)] by blast
  note a2 = enc_appends_trans [OF ok0 a1 e2(2)]
  obtain e3 where e3: "on9log_put_wire_str m e2 fmtp ?wf = Some e3" "enc_appends e2 (ref_bytes fmt) e3"
    using put_wire_str_appends [OF enc_appends_ok [OF a2] F(2,1)] by blast
  note a3 = enc_appends_trans [OF ok0 a2 e3(2)]
  let ?e4 = "on9log_put_u8 e3 (word_of_nat (length types))"
  note a4 = enc_appends_trans [OF ok0 a3 put_u8_appends [OF enc_appends_ok [OF a3], of "word_of_nat (length types)"]]
  obtain e5 where e5: "isr_put_types (length types) (Some (types @ [0])) 0 ?e4 = Some e5"
    "enc_appends ?e4 types e5"
    using isr_put_types_appends [OF enc_appends_ok [OF a4], of types "[]" "[0]"] by auto
  note a5 = enc_appends_trans [OF ok0 a4 e5(2)]
  obtain e6 where e6: "isr_put_args (length types) (Some (types @ [0])) 0 args e5 = Some e6"
    "enc_appends e5 (concat (map arg_bytes vals)) e6"
    using isr_put_args_appends [OF enc_appends_ok [OF a5] args types(3), of "[]" "[0]"] by auto
  note a6 = enc_appends_trans [OF ok0 a5 e6(2)]
  have all: "enc_appends ?e0 (isr_packet_bytes env level tag fmt types vals 0 0) e6"
    using a6 by (simp add: isr_packet_bytes_def log_payload_bytes_def)
  have ovf: "enc_overflow e6 \<longleftrightarrow> ?cap < plen"
    using enc_init_appends(1) [OF _ all] buf by (simp add: plen_def)
  have out: "enc_out e6 = isr_packet_bytes env level tag fmt types vals 0 0 \<and> enc_len e6 = plen"
    if "plen \<le> ?cap"
    using enc_init_appends(2) [OF _ all] buf that by (simp add: plen_def)
  have len: "length (enc_data e6) = length buf" using all by (simp add: enc_appends_def enc_init_def)
  have cnt: "unat (word_of_nat (length types) :: u8) = length types"
    using types(2) by (simp add: unat_word_of_nat_u8)
  have run: "on9log_encode_isr_log_packet env m buf ?cap level tagp fmtp (arg_table types) args =
      (if enc_overflow e6 then Some (False, enc_data e6, 0)
       else Some (True, (enc_data e6)[16 := word_of_nat (enc_len e6 - 18) AND 0xff,
                                      17 := word_of_nat ((enc_len e6 - 18) div 256)], enc_len e6))"
    by (simp add: on9log_encode_isr_log_packet_def on9log_arg_count_table [OF types(1,2)]
        isr_wire_str [OF tag cfg] isr_wire_str [OF fmt cfg] e2(1) e3(1) cnt e5(1) e6(1)
        arg_table_def [symmetric] e5(1) [folded arg_table_def] e6(1) [folded arg_table_def] Let_def)
  show ?thesis
  proof (cases "plen \<le> ?cap")
    case False
    then show ?thesis using run ovf len by auto
  next
    case True
    note o = out [OF True]
    have "enc_data e6 = isr_packet_bytes env level tag fmt types vals 0 0 @ drop plen (enc_data e6)"
      using o by (metis append_take_drop_id enc_out_def)
    moreover have "plen - 18 < 65536" using True small by simp
    ultimately have "(enc_data e6)[16 := word_of_nat (plen - 18) AND 0xff, 17 := word_of_nat ((plen - 18) div 256)] =
        isr_packet_bytes env level tag fmt types vals 0 (word_of_nat (plen - 18)) @ drop plen (enc_data e6)"
      using patch_isr_packet by metis
    then show ?thesis using run ovf len o True buf by (auto simp: plen_def intro!: exI [of _ True])
  qed
qed

section \<open>Properties of ISR log calls\<close>

text \<open>A well-formed ISR call: no strings among its arguments, at most 255 of them.\<close>

definition isr_call_denotes ::
    "on9log_env \<Rightarrow> mem \<Rightarrow> addr \<Rightarrow> addr \<Rightarrow> bytes \<Rightarrow> va_list \<Rightarrow> wire_ref \<Rightarrow> wire_ref \<Rightarrow> log_arg list \<Rightarrow> bool"
  where
  "isr_call_denotes env m tagp fmtp types args tag fmt vals \<longleftrightarrow>
     ref_denotes (isr_env env) m tagp tag \<and> ref_denotes (isr_env env) m fmtp fmt \<and>
     length types \<le> 255 \<and> list_all isr_safe_type types \<and> args_sent m types args vals"

lemma isr_safe_no_zero: "list_all isr_safe_type types \<Longrightarrow> 0 \<notin> set types"
  by (auto simp: list_all_iff isr_safe_type_def)

lemma isr_call_encodes:
  assumes "config_ok env" and "cfg_isr_packet_max env \<le> 65535"
    and "isr_call_denotes env m tagp fmtp types args tag fmt vals"
  obtains ok packet n where
    "on9log_encode_isr_log_packet env m (replicate (cfg_isr_packet_max env) 0) (cfg_isr_packet_max env)
       level tagp fmtp (arg_table types) args = Some (ok, packet, n)"
    and "ok \<longleftrightarrow> 18 + length (log_payload_bytes tag fmt types vals) \<le> cfg_isr_packet_max env"
    and "ok \<longrightarrow> take n packet = isr_packet_bytes env level tag fmt types vals 0
           (word_of_nat (length (log_payload_bytes tag fmt types vals)))"
  using encode_isr_packet [of env m tagp tag fmtp fmt types args vals
      "replicate (cfg_isr_packet_max env) 0" level] assms isr_safe_no_zero
  by (auto simp: isr_call_denotes_def)

lemma vwrite_isr_ready:
  assumes "config_ok env" and "cfg_isr_packet_max env \<le> 65535"
    and "on9log_level_enabled env m st level tagp = Some True" and "port_isr_ready env"
    and den: "isr_call_denotes env m tagp fmtp types args tag fmt vals"
    and p: "p = isr_packet_bytes env level tag fmt types vals 0
                  (word_of_nat (length (log_payload_bytes tag fmt types vals)))"
  shows "on9log_vwrite_isr env m level tagp fmtp (arg_table types) args st =
     Some (if length p \<le> cfg_isr_packet_max env \<and> port_isr_enqueue_packet env (st_isr_queue st) p
           then (True, st\<lparr>st_isr_queue := st_isr_queue st @ [p]\<rparr>)
           else (False, count_dropped st))"
proof -
  obtain ok packet n where
    e: "on9log_encode_isr_log_packet env m (replicate (cfg_isr_packet_max env) 0) (cfg_isr_packet_max env)
       level tagp fmtp (arg_table types) args = Some (ok, packet, n)"
    and ok: "ok \<longleftrightarrow> length p \<le> cfg_isr_packet_max env" and take: "ok \<longrightarrow> take n packet = p"
    using isr_call_encodes [OF assms(1,2) den, of level] unfolding p by auto
  have safe: "on9log_arg_types_are_isr_safe (arg_table types) = Some True"
    using den isr_safe_no_zero by (simp add: isr_call_denotes_def on9log_arg_types_are_isr_safe_table list_all_iff)
  show ?thesis using ok take
    by (auto simp: on9log_vwrite_isr_def assms(3,4) safe e on9log_port_isr_enqueue_packet_def)
qed

text \<open>Also: An enabled ISR log call on a ready port either queues one packet and returns true, or counts
  one dropped message and returns false; it queues exactly when the encoded packet fits the ISR
  packet limit and the port's queue accepts it. Nothing else of the logger's state changes, so no
  lock is taken and no sequence number is used in the interrupt.\<close>

theorem isr_call_queues_or_counts:
  assumes "config_ok env" and "cfg_isr_packet_max env \<le> 65535"
    and "on9log_level_enabled env m st level tagp = Some True" and "port_isr_ready env"
    and "isr_call_denotes env m tagp fmtp types args tag fmt vals"
  shows "\<exists>p. length p = 18 + length (log_payload_bytes tag fmt types vals) \<and>
     on9log_write_isr env m level tagp fmtp (arg_table types) args st =
     Some (if length p \<le> cfg_isr_packet_max env \<and> port_isr_enqueue_packet env (st_isr_queue st) p
           then (True, st\<lparr>st_isr_queue := st_isr_queue st @ [p]\<rparr>)
           else (False, count_dropped st))"
  using vwrite_isr_ready [OF assms refl] unfolding on9log_write_isr_def
  by (intro exI [of _ "isr_packet_bytes env level tag fmt types vals 0
        (word_of_nat (length (log_payload_bytes tag fmt types vals)))"]) simp

definition isr_demo_env :: on9log_env where
  "isr_demo_env = on9log_default_env\<lparr>port_isr_ready := True,
     port_isr_enqueue_packet := (\<lambda>q p. length q < 4), port_isr_timestamp_ms := 77\<rparr>"

lemma isr_demo_ok: "config_ok isr_demo_env" "cfg_isr_packet_max isr_demo_env \<le> 65535"
  "port_isr_ready isr_demo_env"
  by (simp_all add: isr_demo_env_def config_ok_def on9log_default_env_def)

lemma isr_demo_enabled: "on9log_level_enabled isr_demo_env demo_mem demo_state 3 64 = Some True"
  by (simp add: on9log_level_enabled_def on9log_filter_level_for_tag_def demo_state_def isr_demo_env_def
      on9log_initial_state_def on9log_default_env_def on9log_valid_level_def)

lemma isr_demo_call:
  "isr_call_denotes isr_demo_env demo_mem 64 128 [1, 2] [VA_u32 7, VA_u64 8] (ByAddress 64) (ByAddress 128)
     [Arg32 7, Arg64 8]"
  by (simp add: isr_call_denotes_def ref_denotes_def isr_env_def isr_demo_env_def on9log_default_env_def
      isr_safe_type_def sent_int32 sent_int64)

theorem isr_call_queues_or_counts_witness:
  "\<exists>p. length p = 18 + length (log_payload_bytes (ByAddress 64) (ByAddress 128) [1, 2] [Arg32 7, Arg64 8]) \<and>
     on9log_write_isr isr_demo_env demo_mem 3 64 128 (arg_table [1, 2]) [VA_u32 7, VA_u64 8] demo_state =
     Some (if length p \<le> cfg_isr_packet_max isr_demo_env \<and>
              port_isr_enqueue_packet isr_demo_env (st_isr_queue demo_state) p
           then (True, demo_state\<lparr>st_isr_queue := st_isr_queue demo_state @ [p]\<rparr>)
           else (False, count_dropped demo_state))"
  by (rule isr_call_queues_or_counts
      [OF isr_demo_ok(1,2) isr_demo_enabled isr_demo_ok(3) isr_demo_call])

lemma restamp_isr_packet:
  "restamp seq (isr_packet_bytes env level tag fmt types vals s n) =
     isr_packet_bytes env level tag fmt types vals seq n"
  by (simp add: restamp_def isr_packet_bytes_def header_bytes_def)

lemma isr_packet_type:
  "packet_type_nibble (isr_packet_bytes env level tag fmt types vals seq n) = 0"
  by (simp add: packet_type_nibble_def isr_packet_bytes_def header_bytes_def unat_word_of_nat_u8)

lemma args_sent_safe_small:
  "args_sent m types args vals \<Longrightarrow> list_all isr_safe_type types \<Longrightarrow> list_all arg_small vals"
proof (induction m types args vals rule: args_sent.induct)
  case (2 m ty types va args v vals)
  then have "arg_sent m ty va v" "isr_safe_type ty" by simp_all
  then have "arg_small v" by (cases rule: arg_sent.cases) (simp_all add: isr_safe_type_def)
  then show ?case using 2 by simp
qed simp_all

lemma parse_isr_packet:
  assumes "config_ok env" and den: "isr_call_denotes env m tagp fmtp types args tag fmt vals"
    and "18 + length (log_payload_bytes tag fmt types vals) \<le> 65535" and "unat level mod 16 = unat level"
  shows "parse_log_packet (isr_packet_bytes env level tag fmt types vals seq
           (word_of_nat (length (log_payload_bytes tag fmt types vals)))) =
     Some (\<lparr>ph_type = 0, ph_level = unat level, ph_seq = unat seq,
            ph_time_ms = unat (port_isr_timestamp_ms env),
            ph_tag_id = ws_id (wire_of tag), ph_fmt_id = ws_id (wire_of fmt),
            ph_payload_len = length (log_payload_bytes tag fmt types vals)\<rparr>,
           \<lparr>lm_tag = tag, lm_fmt = fmt, lm_args = vals\<rparr>)"
proof -
  let ?pl = "log_payload_bytes tag fmt types vals"
  have n: "unat (word_of_nat (length ?pl) :: u16) = length ?pl" using assms(3) by (simp add: unat_of_nat)
  have refs: "ref_fits tag" "ref_fits fmt" and args: "args_sent m types args vals"
    and types: "length types < 256" "list_all isr_safe_type types"
    using den ref_denotes_facts(1) [OF _ isr_env_ok [OF assms(1)]] by (auto simp: isr_call_denotes_def)
  let ?h = "\<lparr>ph_type = 0, ph_level = unat level, ph_seq = unat seq,
      ph_time_ms = unat (port_isr_timestamp_ms env), ph_tag_id = ws_id (wire_of tag),
      ph_fmt_id = ws_id (wire_of fmt), ph_payload_len = length ?pl\<rparr>"
  have "parse_log_payload ?h ?pl = Some \<lparr>lm_tag = tag, lm_fmt = fmt, lm_args = vals\<rparr>"
    by (rule parse_log_payload_bytes)
      (simp_all add: ref_fits_ok refs types args_sent_types [OF args] args_sent_safe_small [OF args types(2)])
  then show ?thesis
    by (simp add: parse_log_packet_def isr_packet_bytes_def parse_header_bytes n assms(4))
qed

text \<open>C22: From interrupt to sink. When an ISR call queues its packet on an empty queue and the drain task
  then runs, every registered sink receives one LOG packet which decodes to the call, with the ISR's
  timestamp and the sequence number that is next when the packet is written. This is the packet a
  task's log call would have sent, but for its time.\<close>

theorem isr_call_roundtrip:
  assumes "config_ok env" and "cfg_isr_packet_max env \<le> 65535"
    and "sinks_ok st" and "sink_idle s (st_events st)" and "s \<in> set (registered st)"
    and "on9log_level_enabled env m st level tagp = Some True" and "port_isr_ready env"
    and "isr_call_denotes env m tagp fmtp types args tag fmt vals" and "st_isr_queue st = []"
    and "on9log_write_isr env m level tagp fmtp (arg_table types) args st = Some (True, st')"
  shows "\<exists>q. sink_packets s (st_events (on9log_esp_isr_drain_step env st')) =
       sink_packets s (st_events st) @ dropped_packets env st @ [q] \<and>
     st_isr_queue (on9log_esp_isr_drain_step env st') = [] \<and>
     parse_log_packet (packet_bytes q) =
     Some (\<lparr>ph_type = 0, ph_level = unat level, ph_seq = unat (s_seq (report_dropped env st)),
            ph_time_ms = unat (port_isr_timestamp_ms env),
            ph_tag_id = ws_id (wire_of tag), ph_fmt_id = ws_id (wire_of fmt),
            ph_payload_len = length (log_payload_bytes tag fmt types vals)\<rparr>,
           \<lparr>lm_tag = tag, lm_fmt = fmt, lm_args = vals\<rparr>)"
proof -
  let ?p = "isr_packet_bytes env level tag fmt types vals 0
              (word_of_nat (length (log_payload_bytes tag fmt types vals)))"
  have st': "st' = st\<lparr>st_isr_queue := [?p]\<rparr>" and fit: "length ?p \<le> cfg_isr_packet_max env"
    using assms(10) vwrite_isr_ready [OF assms(1,2,6-8) refl] assms(9)
    unfolding on9log_write_isr_def by (auto split: if_splits)
  have same: "sinks_ok st'" "sink_idle s (st_events st')" "s \<in> set (registered st')"
    "report_dropped env st' = (report_dropped env st)\<lparr>st_isr_queue := [?p]\<rparr>"
    "dropped_packets env st' = dropped_packets env st"
    using assms(3-5) unfolding st'
    by (simp_all add: sinks_ok_def registered_def report_dropped_cases dropped_packets_def
        dropped_header_def next_header_def observe_def)
  have "?p ! 0 = ON9LOG_PACKET_MAGIC" by (simp add: isr_packet_bytes_def header_bytes_def)
  then obtain st'' q where d: "on9log_dispatch_packet env (Some ?p) st' = (ON9LOG_OK, st'')"
    "sink_packets s (st_events st'') = sink_packets s (st_events st) @ dropped_packets env st @ [q]"
    "packet_bytes q = restamp (s_seq (report_dropped env st)) ?p"
    using dispatch_renumbers_lemma [OF same(1-3), of ?p env] same(4,5) isr_packet_type
    by (auto simp: st')
  then show ?thesis
    using parse_isr_packet [OF assms(1,8) _ enabled_level_small [OF assms(6)]] fit assms(2)
    by (simp add: on9log_esp_isr_drain_step_def st' restamp_isr_packet)
qed

lemma isr_demo_accepted:
  "\<exists>st'. on9log_write_isr isr_demo_env demo_mem 3 64 128 (arg_table [1, 2]) [VA_u32 7, VA_u64 8] demo_state =
     Some (True, st')"
  using vwrite_isr_ready [OF isr_demo_ok(1,2) isr_demo_enabled isr_demo_ok(3) isr_demo_call refl]
  by (simp add: on9log_write_isr_def length_log_payload ref_bytes_def isr_demo_env_def
      on9log_default_env_def demo_state_def on9log_initial_state_def)

theorem isr_call_roundtrip_witness:
  "\<exists>st' q. sink_packets demo_sink (st_events (on9log_esp_isr_drain_step isr_demo_env st')) =
       sink_packets demo_sink (st_events demo_state) @ dropped_packets isr_demo_env demo_state @ [q] \<and>
     st_isr_queue (on9log_esp_isr_drain_step isr_demo_env st') = [] \<and>
     parse_log_packet (packet_bytes q) =
     Some (\<lparr>ph_type = 0, ph_level = unat (3 :: u32),
            ph_seq = unat (s_seq (report_dropped isr_demo_env demo_state)),
            ph_time_ms = unat (port_isr_timestamp_ms isr_demo_env),
            ph_tag_id = ws_id (wire_of (ByAddress 64)), ph_fmt_id = ws_id (wire_of (ByAddress 128)),
            ph_payload_len = length (log_payload_bytes (ByAddress 64) (ByAddress 128) [1, 2] [Arg32 7, Arg64 8])\<rparr>,
           \<lparr>lm_tag = ByAddress 64, lm_fmt = ByAddress 128, lm_args = [Arg32 7, Arg64 8]\<rparr>)"
proof -
  have empty: "st_isr_queue demo_state = []" by (simp add: demo_state_def on9log_initial_state_def)
  obtain st' where "on9log_write_isr isr_demo_env demo_mem 3 64 128 (arg_table [1, 2]) [VA_u32 7, VA_u64 8]
      demo_state = Some (True, st')" using isr_demo_accepted by blast
  from isr_call_roundtrip [OF isr_demo_ok(1,2) demo_state_ok isr_demo_enabled isr_demo_ok(3) isr_demo_call
      empty this] show ?thesis by blast
qed

text \<open>Also: An ISR call with a string argument (or an argument of a type the encoder does not know) is
  refused: it returns false, counts one dropped message and changes nothing else. Its argument list
  and strings are not touched.\<close>

theorem isr_call_refuses_strings:
  assumes "on9log_level_enabled env m st level tagp = Some True" and "port_isr_ready env"
    and "0 \<notin> set types" and "length types \<le> 255" and "\<not> list_all isr_safe_type types"
  shows "on9log_write_isr env m level tagp fmtp (arg_table types) args st = Some (False, count_dropped st)"
  using assms
  by (auto simp: on9log_write_isr_def on9log_vwrite_isr_def on9log_arg_types_are_isr_safe_table list_all_iff)

theorem isr_call_refuses_strings_witness:
  "on9log_write_isr isr_demo_env demo_mem 3 64 128 (arg_table [1, 4]) [] demo_state =
     Some (False, count_dropped demo_state)"
  by (rule isr_call_refuses_strings [OF isr_demo_enabled isr_demo_ok(3)]) (simp_all add: isr_safe_type_def)

text \<open>
  \<^verbatim>\<open>on9log.h\<close> says of \<open>ON9LOG_MAX_ARGS\<close> (32) that calls with more arguments are dropped and
  counted. The ISR path has no such check: with a large enough ISR packet limit (the Kconfig range
  reaches 3072) a call with 33 arguments is accepted.
\<close>

definition isr_big_env :: on9log_env where
  "isr_big_env = isr_demo_env\<lparr>cfg_isr_packet_max := 3072\<rparr>"

lemma isr_accepts_33_arguments:
  "\<exists>st'. on9log_write_isr isr_big_env demo_mem 3 64 128 (arg_table (replicate 33 1))
     (replicate 33 (VA_u32 5)) demo_state = Some (True, st')"
proof -
  have sent: "args_sent m (replicate k 1) (replicate k (VA_u32 5)) (replicate k (Arg32 5))" for m k
    by (induction k) (simp_all add: sent_int32)
  have den: "isr_call_denotes isr_big_env demo_mem 64 128 (replicate 33 1) (replicate 33 (VA_u32 5))
      (ByAddress 64) (ByAddress 128) (replicate 33 (Arg32 5))"
    using sent [of demo_mem 33]
    by (simp add: isr_call_denotes_def ref_denotes_def isr_env_def isr_big_env_def isr_demo_env_def
        on9log_default_env_def isr_safe_type_def list_all_iff)
  have ok: "config_ok isr_big_env" "cfg_isr_packet_max isr_big_env \<le> 65535" "port_isr_ready isr_big_env"
    by (simp_all add: isr_big_env_def isr_demo_env_def config_ok_def on9log_default_env_def)
  have on: "on9log_level_enabled isr_big_env demo_mem demo_state 3 64 = Some True"
    by (simp add: on9log_level_enabled_def on9log_filter_level_for_tag_def demo_state_def isr_big_env_def
        isr_demo_env_def on9log_initial_state_def on9log_default_env_def on9log_valid_level_def)
  have "args_size (replicate k (Arg32 5)) = k * 4" for k by (induction k) simp_all
  then show ?thesis using vwrite_isr_ready [OF ok(1,2) on ok(3) den refl]
    by (simp add: on9log_write_isr_def length_log_payload ref_bytes_def isr_big_env_def isr_demo_env_def
        on9log_default_env_def demo_state_def on9log_initial_state_def)
qed

end
