(* ===== verification/Crc.thy ===== *)
theory Crc
  imports Prelude
begin

text \<open>
  The two CRC-16/CCITT implementations of the transports: the table-driven one of
  \<^verbatim>\<open>esp_stdio_log_vfs.c\<close> and the bitwise one of \<^verbatim>\<open>on9log_unix_stdio.c\<close>. They are the same
  function, and it detects every error confined to two adjacent bytes.
\<close>

section \<open>The code\<close>

definition s_crc16_ccitt_table :: "u16 list" where
  "s_crc16_ccitt_table =
     [0x0000, 0x1021, 0x2042, 0x3063, 0x4084, 0x50a5, 0x60c6, 0x70e7,
      0x8108, 0x9129, 0xa14a, 0xb16b, 0xc18c, 0xd1ad, 0xe1ce, 0xf1ef,
      0x1231, 0x0210, 0x3273, 0x2252, 0x52b5, 0x4294, 0x72f7, 0x62d6,
      0x9339, 0x8318, 0xb37b, 0xa35a, 0xd3bd, 0xc39c, 0xf3ff, 0xe3de,
      0x2462, 0x3443, 0x0420, 0x1401, 0x64e6, 0x74c7, 0x44a4, 0x5485,
      0xa56a, 0xb54b, 0x8528, 0x9509, 0xe5ee, 0xf5cf, 0xc5ac, 0xd58d,
      0x3653, 0x2672, 0x1611, 0x0630, 0x76d7, 0x66f6, 0x5695, 0x46b4,
      0xb75b, 0xa77a, 0x9719, 0x8738, 0xf7df, 0xe7fe, 0xd79d, 0xc7bc,
      0x48c4, 0x58e5, 0x6886, 0x78a7, 0x0840, 0x1861, 0x2802, 0x3823,
      0xc9cc, 0xd9ed, 0xe98e, 0xf9af, 0x8948, 0x9969, 0xa90a, 0xb92b,
      0x5af5, 0x4ad4, 0x7ab7, 0x6a96, 0x1a71, 0x0a50, 0x3a33, 0x2a12,
      0xdbfd, 0xcbdc, 0xfbbf, 0xeb9e, 0x9b79, 0x8b58, 0xbb3b, 0xab1a,
      0x6ca6, 0x7c87, 0x4ce4, 0x5cc5, 0x2c22, 0x3c03, 0x0c60, 0x1c41,
      0xedae, 0xfd8f, 0xcdec, 0xddcd, 0xad2a, 0xbd0b, 0x8d68, 0x9d49,
      0x7e97, 0x6eb6, 0x5ed5, 0x4ef4, 0x3e13, 0x2e32, 0x1e51, 0x0e70,
      0xff9f, 0xefbe, 0xdfdd, 0xcffc, 0xbf1b, 0xaf3a, 0x9f59, 0x8f78,
      0x9188, 0x81a9, 0xb1ca, 0xa1eb, 0xd10c, 0xc12d, 0xf14e, 0xe16f,
      0x1080, 0x00a1, 0x30c2, 0x20e3, 0x5004, 0x4025, 0x7046, 0x6067,
      0x83b9, 0x9398, 0xa3fb, 0xb3da, 0xc33d, 0xd31c, 0xe37f, 0xf35e,
      0x02b1, 0x1290, 0x22f3, 0x32d2, 0x4235, 0x5214, 0x6277, 0x7256,
      0xb5ea, 0xa5cb, 0x95a8, 0x8589, 0xf56e, 0xe54f, 0xd52c, 0xc50d,
      0x34e2, 0x24c3, 0x14a0, 0x0481, 0x7466, 0x6447, 0x5424, 0x4405,
      0xa7db, 0xb7fa, 0x8799, 0x97b8, 0xe75f, 0xf77e, 0xc71d, 0xd73c,
      0x26d3, 0x36f2, 0x0691, 0x16b0, 0x6657, 0x7676, 0x4615, 0x5634,
      0xd94c, 0xc96d, 0xf90e, 0xe92f, 0x99c8, 0x89e9, 0xb98a, 0xa9ab,
      0x5844, 0x4865, 0x7806, 0x6827, 0x18c0, 0x08e1, 0x3882, 0x28a3,
      0xcb7d, 0xdb5c, 0xeb3f, 0xfb1e, 0x8bf9, 0x9bd8, 0xabbb, 0xbb9a,
      0x4a75, 0x5a54, 0x6a37, 0x7a16, 0x0af1, 0x1ad0, 0x2ab3, 0x3a92,
      0xfd2e, 0xed0f, 0xdd6c, 0xcd4d, 0xbdaa, 0xad8b, 0x9de8, 0x8dc9,
      0x7c26, 0x6c07, 0x5c64, 0x4c45, 0x3ca2, 0x2c83, 0x1ce0, 0x0cc1,
      0xef1f, 0xff3e, 0xcf5d, 0xdf7c, 0xaf9b, 0xbfba, 0x8fd9, 0x9ff8,
      0x6e17, 0x7e36, 0x4e55, 0x5e74, 0x2e93, 0x3eb2, 0x0ed1, 0x1ef0]"

definition crc16_table_step :: "u16 \<Rightarrow> u8 \<Rightarrow> u16" where
  "crc16_table_step crc b =
     push_bit 8 crc XOR s_crc16_ccitt_table ! unat ((drop_bit 8 crc XOR ucast b) AND 0xff)"

text \<open>\<open>esp_stdio_log_vfs_crc16_ccitt_update\<close>\<close>

definition esp_stdio_log_vfs_crc16_ccitt_update :: "u16 \<Rightarrow> bytes \<Rightarrow> u16" where
  "esp_stdio_log_vfs_crc16_ccitt_update crc data = foldl crc16_table_step crc data"

text \<open>One iteration of the Unix sink's bit loop.\<close>

definition crc16_bit :: "u16 \<Rightarrow> u16" where
  "crc16_bit crc = (if crc AND 0x8000 \<noteq> 0 then push_bit 1 crc XOR 0x1021 else push_bit 1 crc)"

definition on9log_unix_crc16_update :: "u16 \<Rightarrow> u8 \<Rightarrow> u16" where
  "on9log_unix_crc16_update crc b = (crc16_bit ^^ 8) (crc XOR push_bit 8 (ucast b))"

section \<open>The table holds the bitwise values\<close>

lemma crc_table_length: "length s_crc16_ccitt_table = 256"
  by (simp add: s_crc16_ccitt_table_def)

lemma crc16_bit_linear: "crc16_bit (a XOR b) = crc16_bit a XOR crc16_bit b"
proof -
  have top: "(c AND 0x8000 \<noteq> 0) = bit c 15" for c :: u16
    using and_exp_eq_0_iff_not_bit [of c 15] by simp
  show ?thesis
    by (simp only: crc16_bit_def top bit_xor_iff push_bit_xor) (auto simp: xor.assoc xor.left_commute xor.commute)
qed

lemma crc16_bits_linear: "(crc16_bit ^^ n) (a XOR b) = (crc16_bit ^^ n) a XOR (crc16_bit ^^ n) b"
  by (induction n) (simp_all add: crc16_bit_linear)

definition crc_byte :: "u16 \<Rightarrow> u16" where
  "crc_byte w = (crc16_bit ^^ 8) (push_bit 8 w)"

lemma crc_byte_linear: "crc_byte (a XOR b) = crc_byte a XOR crc_byte b"
  by (simp add: crc_byte_def push_bit_xor crc16_bits_linear)

lemma crc_byte_simp:
  "crc_byte w = crc16_bit (crc16_bit (crc16_bit (crc16_bit (crc16_bit (crc16_bit (crc16_bit (crc16_bit
     (push_bit 8 w))))))))"
  by (simp add: crc_byte_def numeral_eq_Suc)

lemma crc_byte_powers:
  "crc_byte 0 = 0" "crc_byte 1 = 0x1021" "crc_byte 2 = 0x2042" "crc_byte 4 = 0x4084" "crc_byte 8 = 0x8108"
  "crc_byte 16 = 0x1231" "crc_byte 32 = 0x2462" "crc_byte 64 = 0x48c4" "crc_byte 128 = 0x9188"
  by (simp_all add: crc_byte_simp crc16_bit_def)

text \<open>
  The table is built by doubling: the entries from \<open>2 ^ k\<close> on are the first \<open>2 ^ k\<close> ones, each
  combined with the entry of \<open>2 ^ k\<close>.
\<close>

lemma word_of_nat_double:
  assumes "i < 2 ^ k"
  shows "(word_of_nat (2 ^ k + i) :: u16) = word_of_nat (2 ^ k) XOR word_of_nat i"
proof -
  have i: "take_bit k i = i" using assms by (simp add: take_bit_nat_eq_self)
  have "(2 ^ k :: nat) AND i = 0"
  proof (rule bit_eqI)
    fix n
    have "bit i n \<Longrightarrow> n < k" using i by (metis bit_take_bit_iff)
    then have "\<not> (k = n \<and> bit i n)" by auto
    then show "bit ((2 ^ k :: nat) AND i) n = bit 0 n"
      by (simp only: bit_and_iff bit_exp_iff bit_0_eq bot_apply) auto
  qed
  then have "2 ^ k + i = 2 ^ k XOR i" by (rule disjunctive_add_eq_xor)
  then show ?thesis by (simp only: of_nat_xor_eq)
qed

definition crc_entries :: "nat \<Rightarrow> u16 list" where
  "crc_entries n = map (\<lambda>i. crc_byte (word_of_nat i)) [0..<n]"

lemma crc_entries_double:
  assumes "n = 2 ^ k"
  shows "crc_entries (n + n) = crc_entries n @ map (\<lambda>e. crc_byte (word_of_nat n) XOR e) (crc_entries n)"
proof -
  have "[0..<n + n] = [0..<n] @ map (\<lambda>i. n + i) [0..<n]"
  proof (rule nth_equalityI)
    fix i assume "i < length [0..<n + n]"
    then show "[0..<n + n] ! i = ([0..<n] @ map (\<lambda>i. n + i) [0..<n]) ! i" by (simp add: nth_append)
  qed simp
  moreover have "crc_byte (word_of_nat (n + i)) = crc_byte (word_of_nat n) XOR crc_byte (word_of_nat i)"
    if "i < n" for i
    unfolding assms word_of_nat_double [OF that [unfolded assms]] by (rule crc_byte_linear)
  ultimately show ?thesis by (simp add: crc_entries_def)
qed

lemma crc_entries_1: "crc_entries 1 = [0]"
  using crc_byte_powers(1) by (simp add: crc_entries_def)

lemma crc_entries_step:
  assumes "crc_entries n = es" and "n = 2 ^ k" and "crc_byte (word_of_nat n) = c" and "m = n + n"
  shows "crc_entries m = es @ map (\<lambda>e. c XOR e) es"
  using crc_entries_double [OF assms(2)] assms(1,3,4) by simp

lemma crc_entries_16:
  "crc_entries 16 =
     [0x0000, 0x1021, 0x2042, 0x3063, 0x4084, 0x50a5, 0x60c6, 0x70e7,
      0x8108, 0x9129, 0xa14a, 0xb16b, 0xc18c, 0xd1ad, 0xe1ce, 0xf1ef]"
proof -
  have "crc_entries 2 = [0x0000, 0x1021]"
    by (rule crc_entries_step [OF crc_entries_1, of 0 "0x1021", THEN trans])
      (simp_all add: crc_byte_powers)
  from crc_entries_step [OF this, of 1 "0x2042" 4]
  have "crc_entries 4 = [0x0000, 0x1021, 0x2042, 0x3063]" by (simp add: crc_byte_powers)
  from crc_entries_step [OF this, of 2 "0x4084" 8]
  have "crc_entries 8 = [0x0000, 0x1021, 0x2042, 0x3063, 0x4084, 0x50a5, 0x60c6, 0x70e7]"
    by (simp add: crc_byte_powers)
  from crc_entries_step [OF this, of 3 "0x8108" 16]
  show ?thesis by (simp add: crc_byte_powers)
qed

lemma crc_table_values: "crc_entries 256 = s_crc16_ccitt_table"
proof -
  from crc_entries_step [OF crc_entries_16, of 4 "0x1231" 32]
  have "crc_entries 32 = take 32 s_crc16_ccitt_table"
    by (simp add: crc_byte_powers s_crc16_ccitt_table_def)
  from crc_entries_step [OF this, of 5 "0x2462" 64]
  have "crc_entries 64 = take 64 s_crc16_ccitt_table"
    by (simp add: crc_byte_powers s_crc16_ccitt_table_def)
  from crc_entries_step [OF this, of 6 "0x48c4" 128]
  have "crc_entries 128 = take 128 s_crc16_ccitt_table"
    by (simp add: crc_byte_powers s_crc16_ccitt_table_def)
  from crc_entries_step [OF this, of 7 "0x9188" 256]
  show ?thesis by (simp add: crc_byte_powers s_crc16_ccitt_table_def)
qed

section \<open>The two updates agree\<close>

lemma bit_u16_range: "bit (w :: u16) n \<Longrightarrow> n < 16"
  using bit_imp_le_length [of w n] by simp

lemma crc16_bit_push: "\<not> bit c 15 \<Longrightarrow> crc16_bit c = push_bit 1 c"
  using and_exp_eq_0_iff_not_bit [of c 15] by (simp add: crc16_bit_def)

lemma crc16_bits_push:
  "n \<le> 16 \<Longrightarrow> take_bit (16 - n) c = c \<Longrightarrow> (crc16_bit ^^ n) c = push_bit n c"
proof (induction n)
  case 0
  then show ?case by simp
next
  case (Suc n)
  have c: "\<not> bit c k" if "16 - Suc n \<le> k" for k
    using Suc.prems(2) that by (metis bit_take_bit_iff leD)
  have "take_bit (16 - n) c = c"
  proof (rule bit_eqI)
    fix k
    have "bit c k \<Longrightarrow> k < 16 - n" using c [of k] by (cases "16 - Suc n \<le> k") auto
    then show "bit (take_bit (16 - n) c) k = bit c k" by (auto simp: bit_take_bit_iff)
  qed
  then have IH: "(crc16_bit ^^ n) c = push_bit n c" using Suc by simp
  have "\<not> bit (push_bit n c) 15" using c [of "15 - n"] Suc.prems(1) by (simp add: bit_push_bit_iff)
  then have "crc16_bit (push_bit n c) = push_bit 1 (push_bit n c)" by (rule crc16_bit_push)
  then show ?case using IH by simp
qed

lemma low_byte: "(w :: u16) AND 0xff = take_bit 8 w"
  by (simp add: take_bit_eq_mask mask_numeral)

lemma split_bytes: "(w :: u16) = push_bit 8 (drop_bit 8 w) XOR take_bit 8 w"
proof (rule bit_eqI)
  fix n
  show "bit w n = bit (push_bit 8 (drop_bit 8 w) XOR take_bit 8 w) n"
    using bit_u16_range [of w n]
    by (cases "n < 8") (auto simp: bit_xor_iff bit_push_bit_iff bit_drop_bit_eq bit_take_bit_iff)
qed

lemma push_low_byte: "push_bit 8 (take_bit 8 (w :: u16)) = push_bit 8 w"
proof (rule bit_eqI)
  fix n assume "possible_bit TYPE(u16) n"
  then have "n < 16" by simp
  then show "bit (push_bit 8 (take_bit 8 w)) n = bit (push_bit 8 w) n"
    by (auto simp: bit_push_bit_iff bit_take_bit_iff)
qed

lemma drop_byte_range: "take_bit 8 (drop_bit 8 (w :: u16)) = drop_bit 8 w"
proof (rule bit_eqI)
  fix n
  show "bit (take_bit 8 (drop_bit 8 w)) n = bit (drop_bit 8 w) n"
    using bit_u16_range [of w "8 + n"] by (auto simp: bit_take_bit_iff bit_drop_bit_eq)
qed

lemma ucast_byte_range: "take_bit 8 (ucast (b :: u8) :: u16) = ucast b"
  using bit_imp_le_length [of b]
  by (intro bit_eqI) (auto simp: bit_take_bit_iff bit_ucast_iff)

lemma crc_table_nth: "take_bit 8 w = w \<Longrightarrow> s_crc16_ccitt_table ! unat w = crc_byte w"
proof -
  assume w: "take_bit 8 w = w"
  have "unat (take_bit 8 w) < 256" by (simp add: unsigned_take_bit_eq take_bit_nat_def)
  then have "unat w < 256 - 0" by (simp only: w diff_zero)
  moreover have "word_of_nat (unat w) = w" by simp
  ultimately show ?thesis using nth_map_upt [of "unat w" 256 0 "\<lambda>i. crc_byte (word_of_nat i)"]
    by (simp only: crc_table_values [symmetric] crc_entries_def add_0)
qed

lemma crc16_step_agrees: "crc16_table_step crc b = on9log_unix_crc16_update crc b"
proof -
  let ?w = "drop_bit 8 crc XOR (ucast b :: u16)"
  have w: "take_bit 8 ?w = ?w" by (simp add: take_bit_xor drop_byte_range ucast_byte_range)
  have "crc XOR push_bit 8 (ucast b) =
      (push_bit 8 (drop_bit 8 crc) XOR take_bit 8 crc) XOR push_bit 8 (ucast b)"
    by (rule arg_cong [OF split_bytes])
  then have "crc XOR push_bit 8 (ucast b) = push_bit 8 ?w XOR take_bit 8 crc"
    by (simp only: push_bit_xor xor.assoc xor.commute xor.left_commute)
  then have "on9log_unix_crc16_update crc b = crc_byte ?w XOR (crc16_bit ^^ 8) (take_bit 8 crc)"
    by (simp only: on9log_unix_crc16_update_def crc16_bits_linear crc_byte_def)
  also have "(crc16_bit ^^ 8) (take_bit 8 crc) = push_bit 8 crc"
    using crc16_bits_push [of 8 "take_bit 8 crc"] by (simp add: push_low_byte)
  finally show ?thesis
    unfolding crc16_table_step_def low_byte w crc_table_nth [OF w] by (simp only: xor.commute)
qed

lemma crc16_updates_agree:
  "esp_stdio_log_vfs_crc16_ccitt_update crc data = foldl on9log_unix_crc16_update crc data"
  by (induction data arbitrary: crc)
    (simp_all add: esp_stdio_log_vfs_crc16_ccitt_update_def crc16_step_agrees)

section \<open>What the checksum detects\<close>

text \<open>
  The contract a byte-wise checksum needs for error detection: each step is injective in the
  running value, and two steps together determine the two bytes they took.
\<close>

locale byte_checksum =
  fixes update :: "'c \<Rightarrow> 'b \<Rightarrow> 'c"
  assumes update_inj: "update c b = update d b \<Longrightarrow> c = d"
    and two_bytes: "update (update c x1) x2 = update (update c y1) y2 \<Longrightarrow> x1 = y1 \<and> x2 = y2"
begin

lemma run_inj: "foldl update c msg = foldl update d msg \<Longrightarrow> c = d"
  by (induction msg arbitrary: c d) (auto dest: update_inj)

lemma burst_detected:
  assumes "(x1, x2) \<noteq> (y1, y2)"
  shows "foldl update c (pre @ [x1, x2] @ post) \<noteq> foldl update c (pre @ [y1, y2] @ post)"
proof
  assume "foldl update c (pre @ [x1, x2] @ post) = foldl update c (pre @ [y1, y2] @ post)"
  then have "update (update (foldl update c pre) x1) x2 = update (update (foldl update c pre) y1) y2"
    using run_inj by simp
  then show False using two_bytes assms by simp
qed

end

lemma xor_cancel_right: "(a :: u16) XOR x = b XOR x \<Longrightarrow> a = b"
proof -
  assume "a XOR x = b XOR x"
  then have "(a XOR x) XOR x = (b XOR x) XOR x" by simp
  then show "a = b" by (simp add: xor.assoc)
qed

lemma crc16_bit_inj: "crc16_bit a = crc16_bit b \<Longrightarrow> a = b"
proof -
  assume "crc16_bit a = crc16_bit b"
  then have z: "crc16_bit (a XOR b) = 0" by (simp add: crc16_bit_linear)
  define w where "w = a XOR b"
  have not15: "\<not> bit w 15"
  proof
    assume "bit w 15"
    then have "crc16_bit w = push_bit 1 w XOR 0x1021"
      using and_exp_eq_0_iff_not_bit [of w 15] by (simp add: crc16_bit_def)
    then have "bit (push_bit 1 w XOR 0x1021) 0 = bit (0 :: u16) 0" using z by (simp add: w_def)
    then show False by (simp only: bit_xor_iff bit_push_bit_iff) simp
  qed
  then have "push_bit 1 w = 0" using z crc16_bit_push [of w] by (simp add: w_def)
  then have "\<not> bit w n" for n
    using not15 bit_u16_range [of w n] bit_push_bit_iff [of 1 w "Suc n"] by (cases "n = 15") auto
  then have "w = 0" by (intro bit_eqI) simp
  then have "a XOR b = b XOR b" unfolding w_def by simp
  then show "a = b" by (rule xor_cancel_right)
qed

lemma crc16_bits_inj: "(crc16_bit ^^ n) a = (crc16_bit ^^ n) b \<Longrightarrow> a = b"
  by (induction n) (auto dest: crc16_bit_inj)

lemma ucast_byte_inj: "(ucast (a :: u8) :: u16) = ucast b \<Longrightarrow> a = b"
proof -
  assume "(ucast a :: u16) = ucast b"
  then have "unat (ucast a :: u16) = unat (ucast b :: u16)" by simp
  moreover have "unat (ucast c :: u16) = unat c" for c :: u8
  proof -
    have "unat c < 65536" using unat_u8_less [of c] by linarith
    then show ?thesis by (simp add: unsigned_ucast_eq take_bit_nat_def)
  qed
  ultimately show "a = b" by (simp add: word_unat_eq_iff)
qed


text \<open>Two steps are sixteen bit steps on the value with both bytes added at once.\<close>

lemma crc16_two_steps:
  "on9log_unix_crc16_update (on9log_unix_crc16_update c x1) x2 =
     (crc16_bit ^^ 16) (c XOR push_bit 8 (ucast x1) XOR ucast x2)"
proof -
  have "(crc16_bit ^^ 8) (ucast x2) = push_bit 8 (ucast x2)"
    using crc16_bits_push [of 8 "ucast x2"] by (simp add: ucast_byte_range)
  then have "on9log_unix_crc16_update (on9log_unix_crc16_update c x1) x2 =
      (crc16_bit ^^ 8) ((crc16_bit ^^ 8) (c XOR push_bit 8 (ucast x1) XOR ucast x2))"
    by (simp only: on9log_unix_crc16_update_def crc16_bits_linear xor.assoc)
  also have "\<dots> = (crc16_bit ^^ (8 + 8)) (c XOR push_bit 8 (ucast x1) XOR ucast x2)"
    by (simp only: funpow_add comp_apply)
  finally show ?thesis by simp
qed

lemma crc16_two_bytes:
  assumes "on9log_unix_crc16_update (on9log_unix_crc16_update c x1) x2 =
    on9log_unix_crc16_update (on9log_unix_crc16_update c y1) y2"
  shows "x1 = y1 \<and> x2 = y2"
proof -
  have "c XOR push_bit 8 (ucast x1) XOR ucast x2 = c XOR push_bit 8 (ucast y1) XOR ucast y2"
    using assms unfolding crc16_two_steps by (rule crc16_bits_inj)
  then have "c XOR (c XOR push_bit 8 (ucast x1) XOR ucast x2) =
      c XOR (c XOR push_bit 8 (ucast y1) XOR ucast y2)" by (rule arg_cong)
  then have e: "push_bit 8 (ucast x1) XOR ucast x2 = push_bit 8 (ucast y1) XOR (ucast y2 :: u16)"
    by (simp add: xor.assoc [symmetric])
  have lo: "take_bit 8 (push_bit 8 (ucast a) XOR ucast b :: u16) = ucast b" for a b :: u8
    by (simp add: take_bit_xor take_bit_push_bit ucast_byte_range)
  have "(ucast x2 :: u16) = ucast y2" using arg_cong [OF e, of "take_bit 8"] by (simp only: lo)
  then have x2: "x2 = y2" by (rule ucast_byte_inj)
  have hi: "drop_bit 8 (push_bit 8 (ucast a) :: u16) = ucast a" for a :: u8
  proof (rule bit_eqI)
    fix n
    show "bit (drop_bit 8 (push_bit 8 (ucast a) :: u16)) n = bit (ucast a :: u16) n"
      using bit_imp_le_length [of a n] by (auto simp: bit_drop_bit_eq bit_push_bit_iff bit_ucast_iff)
  qed
  have "(push_bit 8 (ucast x1) XOR ucast x2) XOR ucast x2 =
      (push_bit 8 (ucast y1) XOR ucast y2) XOR (ucast y2 :: u16)" using e x2 by simp
  then have "push_bit 8 (ucast x1) = (push_bit 8 (ucast y1) :: u16)"
    using x2 xor_cancel_right e by metis
  then have "(ucast x1 :: u16) = ucast y1" using hi by metis
  then have "x1 = y1" by (rule ucast_byte_inj)
  then show ?thesis using x2 by simp
qed

interpretation crc16_ccitt: byte_checksum on9log_unix_crc16_update
proof (unfold_locales, goal_cases)
  case (1 c b d)
  then have "c XOR push_bit 8 (ucast b) = d XOR push_bit 8 (ucast b)"
    unfolding on9log_unix_crc16_update_def by (rule crc16_bits_inj)
  then show ?case by (rule xor_cancel_right)
next
  case (2 c x1 x2 y1 y2)
  then show ?case by (rule crc16_two_bytes)
qed

text \<open>C20: The table-driven CRC of the ESP transport and the bitwise CRC of the Unix sink are the same function
  of a message: every entry of the 256-entry table is right.\<close>

theorem crc_implementations_agree:
  "esp_stdio_log_vfs_crc16_ccitt_update crc data = foldl on9log_unix_crc16_update crc data"
  by (rule crc16_updates_agree)

text \<open>Also: The checksum changes whenever two adjacent bytes of a message are replaced by any two others (so
  every error burst of up to 16 bits inside two bytes, and every single-byte error, is detected).\<close>

theorem crc_detects_bursts:
  assumes "(x1, x2) \<noteq> (y1, y2)"
  shows "esp_stdio_log_vfs_crc16_ccitt_update crc (pre @ [x1, x2] @ post) \<noteq>
         esp_stdio_log_vfs_crc16_ccitt_update crc (pre @ [y1, y2] @ post)"
  unfolding crc16_updates_agree by (rule crc16_ccitt.burst_detected [OF assms])

theorem crc_detects_bursts_witness:
  "esp_stdio_log_vfs_crc16_ccitt_update 0xffff ([1] @ [2, 3] @ [4]) \<noteq>
   esp_stdio_log_vfs_crc16_ccitt_update 0xffff ([1] @ [2, 7] @ [4])"
  by (rule crc_detects_bursts) simp

end
