(* ===== verification/Slip.thy ===== *)
theory Slip
  imports Crc
begin

text \<open>
  The framing of the serial transports, as the reader of the stream sees it: a frame is
  \<open>0xa5\<close>, the escaped type, payload and CRC, and \<open>0xc0\<close>. The reference decoder is independent
  of the code that writes frames; it resynchronises at every start marker.
\<close>

section \<open>Frames\<close>

definition slip_escape :: "u8 \<Rightarrow> bytes" where
  "slip_escape b =
     (if b = 0xa5 then [0xdb, 0xde]
      else if b = 0xc0 then [0xdb, 0xdc]
      else if b = 0xdb then [0xdb, 0xdd]
      else if b = 0x0d then [0xdb, 0xd0]
      else if b = 0x0a then [0xdb, 0xd1]
      else [b])"

definition crc16 :: "bytes \<Rightarrow> u16" where
  "crc16 msg = foldl on9log_unix_crc16_update 0xffff msg"

text \<open>What is escaped between the markers.\<close>

definition frame_content :: "u8 \<Rightarrow> bytes \<Rightarrow> bytes" where
  "frame_content ty payload = ty # payload @ le_bytes 2 (unat (crc16 (ty # payload)))"

definition slip_frame :: "u8 \<Rightarrow> bytes \<Rightarrow> bytes" where
  "slip_frame ty payload = [0xa5] @ concat (map slip_escape (frame_content ty payload)) @ [0xc0]"

section \<open>The decoder\<close>

fun slip_unescape :: "bytes \<Rightarrow> bytes option" where
  "slip_unescape [] = Some []"
| "slip_unescape [b] = (if b = 0xdb then None else Some [b])"
| "slip_unescape (b # c # bs) =
     (if b = 0xdb
      then (let x = (if c = 0xde then Some 0xa5 else if c = 0xdc then Some 0xc0
                     else if c = 0xdd then Some 0xdb else if c = 0xd0 then Some 0x0d
                     else if c = 0xd1 then Some 0x0a else None)
            in do { x \<leftarrow> x; rest \<leftarrow> slip_unescape bs; Some (x # rest) })
      else do { rest \<leftarrow> slip_unescape (c # bs); Some (b # rest) })"

text \<open>A content is a type, a payload and the CRC of both.\<close>

definition open_content :: "bytes \<Rightarrow> (u8 \<times> bytes) option" where
  "open_content cs =
     (if length cs < 3 then None
      else (let msg = take (length cs - 2) cs
            in if drop (length cs - 2) cs = le_bytes 2 (unat (crc16 msg))
               then Some (hd msg, tl msg) else None))"

definition decode_body :: "bytes \<Rightarrow> (u8 \<times> bytes) option" where
  "decode_body body = do { cs \<leftarrow> slip_unescape body; open_content cs }"

text \<open>Cutting a stream at the markers; \<open>cur\<close> is the frame being read, if any.\<close>

fun deframe :: "bytes option \<Rightarrow> bytes \<Rightarrow> bytes list" where
  "deframe cur [] = []"
| "deframe cur (b # bs) =
     (if b = 0xa5 then deframe (Some []) bs
      else if b = 0xc0
      then (case cur of None \<Rightarrow> deframe None bs | Some body \<Rightarrow> body # deframe None bs)
      else deframe (map_option (\<lambda>body. body @ [b]) cur) bs)"

definition decode_stream :: "bytes \<Rightarrow> (u8 \<times> bytes) list" where
  "decode_stream s = List.map_filter decode_body (deframe None s)"

text \<open>The CRC as the writers put it: low byte, then high byte.\<close>

lemma crc_escaped:
  "slip_escape (ucast (c AND 0xff)) @ slip_escape (ucast (drop_bit 8 (c :: u16))) =
     concat (map slip_escape (le_bytes 2 (unat c)))"
proof -
  have "[ucast (c AND 0xff), ucast (drop_bit 8 c)] = le_bytes 2 (unat c)" by (rule split_u16)
  then show ?thesis by (metis concat.simps list.map append_Nil2)
qed

section \<open>The decoder inverts the framing\<close>

lemma unescape_escape:
  "slip_unescape (slip_escape b @ rest) = map_option ((#) b) (slip_unescape rest)"
  by (cases rest) (auto simp: slip_escape_def map_option_case split: option.split)

lemma unescape_escapes: "slip_unescape (concat (map slip_escape bs)) = Some bs"
  by (induction bs) (simp_all add: unescape_escape)

lemma escape_no_marker: "b \<in> set (slip_escape c) \<Longrightarrow> b \<noteq> 0xa5 \<and> b \<noteq> 0xc0 \<and> b \<noteq> 0x0a \<and> b \<noteq> 0x0d"
  by (auto simp: slip_escape_def split: if_splits)

lemma deframe_body:
  "(\<And>b. b \<in> set body \<Longrightarrow> b \<noteq> 0xa5 \<and> b \<noteq> 0xc0) \<Longrightarrow>
     deframe (Some acc) (body @ 0xc0 # rest) = (acc @ body) # deframe None rest"
  by (induction body arbitrary: acc) auto

lemma deframe_frame:
  "deframe cur (slip_frame ty payload @ rest) =
     concat (map slip_escape (frame_content ty payload)) # deframe None rest"
  using deframe_body [of "concat (map slip_escape (frame_content ty payload))" "[]" rest] escape_no_marker
  by (auto simp: slip_frame_def)

lemma deframe_append: "\<exists>xs cur'. \<forall>rest. deframe cur (g @ rest) = xs @ deframe cur' rest"
proof (induction g arbitrary: cur)
  case Nil
  then show ?case by (intro exI [of _ "[]"] exI [of _ cur]) simp
next
  case (Cons b g)
  show ?case
  proof (cases "b = 0xc0 \<and> cur \<noteq> None")
    case True
    then obtain body where "cur = Some body" by blast
    moreover obtain xs cur' where "\<forall>rest. deframe None (g @ rest) = xs @ deframe cur' rest"
      using Cons.IH by blast
    ultimately show ?thesis using True by (intro exI [of _ "body # xs"] exI [of _ cur']) simp
  next
    case False
    then obtain next_cur where n: "\<forall>rest. deframe cur (b # g @ rest) = deframe next_cur (g @ rest)"
      by (cases "b = 0xa5"; cases "b = 0xc0") auto
    then show ?thesis using Cons.IH [of next_cur] by simp
  qed
qed

lemma open_frame_content: "open_content (frame_content ty payload) = Some (ty, payload)"
  by (simp add: open_content_def frame_content_def)

lemma decode_frame_body:
  "decode_body (concat (map slip_escape (frame_content ty payload))) = Some (ty, payload)"
  by (simp add: decode_body_def unescape_escapes open_frame_content)

lemma map_filter_append: "List.map_filter f (xs @ ys) = List.map_filter f xs @ List.map_filter f ys"
  by (simp add: List.map_filter_def)

lemma decode_stream_frame:
  "\<exists>before. \<forall>rest. decode_stream (g @ slip_frame ty payload @ rest) =
     before @ (ty, payload) # decode_stream rest"
proof -
  obtain xs cur where x: "\<forall>rest. deframe None (g @ rest) = xs @ deframe cur rest"
    using deframe_append by blast
  show ?thesis
    by (intro exI [of _ "List.map_filter decode_body xs"])
      (simp add: decode_stream_def x deframe_frame decode_frame_body map_filter_simps map_filter_append)
qed

lemma decode_stream_frames:
  "decode_stream (concat (map (\<lambda>(ty, p). slip_frame ty p) frames)) = frames"
proof -
  have "deframe None (concat (map (\<lambda>(ty, p). slip_frame ty p) frames)) =
      map (\<lambda>(ty, p). concat (map slip_escape (frame_content ty p))) frames"
    by (induction frames) (auto simp: deframe_frame)
  moreover have "List.map_filter decode_body (map (\<lambda>(ty, p). concat (map slip_escape (frame_content ty p))) fs) = fs" for fs
    by (induction fs) (auto simp: map_filter_simps decode_frame_body)
  ultimately show ?thesis by (simp add: decode_stream_def)
qed

section \<open>What a reader can rely on\<close>

text \<open>A frame has no byte a terminal or a line discipline would change, and is at most about twice its payload.\<close>

lemma frame_bytes_safe: "b \<in> set (slip_frame ty payload) \<Longrightarrow> b \<noteq> 0x0a \<and> b \<noteq> 0x0d"
  using escape_no_marker by (auto simp: slip_frame_def)

lemma length_slip_escapes: "length (concat (map slip_escape bs)) \<le> 2 * length bs"
  by (induction bs) (auto simp: slip_escape_def)

lemma length_slip_frame: "length (slip_frame ty payload) \<le> 2 * length payload + 8"
  using length_slip_escapes [of "frame_content ty payload"]
  by (simp add: slip_frame_def frame_content_def)

lemma le_bytes_u16_inj: "le_bytes 2 (unat (a :: u16)) = le_bytes 2 (unat b) \<Longrightarrow> a = b"
  by (metis le_val_le_bytes_u16 word_unat_eq_iff)

text \<open>A content whose type or payload was hit by an error burst inside two adjacent bytes is refused.\<close>

lemma burst_refused:
  assumes "(x1, x2) \<noteq> (y1, y2)"
  shows "open_content (pre @ [y1, y2] @ post @ le_bytes 2 (unat (crc16 (pre @ [x1, x2] @ post)))) = None"
proof -
  have "crc16 (pre @ [x1, x2] @ post) \<noteq> crc16 (pre @ [y1, y2] @ post)"
    unfolding crc16_def by (rule crc16_ccitt.burst_detected [OF assms])
  then have "le_bytes 2 (unat (crc16 (pre @ [x1, x2] @ post))) \<noteq>
      le_bytes 2 (unat (crc16 (pre @ [y1, y2] @ post)))"
    using le_bytes_u16_inj by blast
  then show ?thesis by (simp add: open_content_def Let_def)
qed

end
