(* ===== verification/EspTransport.thy ===== *)
theory EspTransport
  imports Slip
begin

text \<open>
  \<^verbatim>\<open>esp_stdio_log_vfs.c\<close>: frames and raw streams over a set of POSIX file descriptors, with a
  batching writer, a transport mutex and an owner mark that stops a task from entering twice.

  The operating system is a parameter: \<open>w k fd data\<close> is what the \<open>k\<close>-th call of \<open>write()\<close>
  does. \<open>io_out\<close> collects the bytes each descriptor has taken. \<open>None\<close> is a call that does not
  return: an endless retry, or waiting for a mutex that is held. Tasks are numbers, 0 the
  NULL handle (no task: the scheduler has not started).
\<close>

section \<open>The code\<close>

datatype esp_err_t =
    ESP_OK | ESP_FAIL | ESP_ERR_INVALID_ARG | ESP_ERR_INVALID_SIZE | ESP_ERR_INVALID_STATE
  | ESP_ERR_NO_MEM | ESP_ERR_NOT_FOUND

abbreviation (input) ESP_STDIO_LOG_VFS_MAX_OUTPUTS :: nat where "ESP_STDIO_LOG_VFS_MAX_OUTPUTS \<equiv> 3"
abbreviation (input) ESP_STDIO_LOG_VFS_WRITE_BATCH :: nat where "ESP_STDIO_LOG_VFS_WRITE_BATCH \<equiv> 128"
abbreviation (input) ESP_STDIO_LOG_VFS_FRAME_MAX_PAYLOAD :: nat where
  "ESP_STDIO_LOG_VFS_FRAME_MAX_PAYLOAD \<equiv> 3072"
abbreviation (input) ESP_STDIO_LOG_VFS_FRAME_TYPE_TEXT :: u8 where "ESP_STDIO_LOG_VFS_FRAME_TYPE_TEXT \<equiv> 2"
abbreviation (input) ESP_STDIO_LOG_VFS_FRAME_TYPE_ON9LOG :: u8 where "ESP_STDIO_LOG_VFS_FRAME_TYPE_ON9LOG \<equiv> 1"

datatype write_result = Interrupted | Failed | Wrote nat

type_synonym write_fn = "nat \<Rightarrow> int \<Rightarrow> bytes \<Rightarrow> write_result"

record esp_stdio_log_vfs_t =
  outputs :: "int list"
  output_count :: nat
  installed :: bool
  s_transport_owner :: nat
  s_transport_mutex :: "nat option"
  scheduler_started :: bool
  stdout_redirected :: bool
  stderr_redirected :: bool
  log_vprintf_set :: bool
  io_calls :: nat
  io_out :: "int \<Rightarrow> bytes"

text \<open>The static initialisers, with \<open>calls\<close> system calls made before.\<close>

definition esp_transport_initial :: "bool \<Rightarrow> nat \<Rightarrow> esp_stdio_log_vfs_t" where
  "esp_transport_initial started calls =
     \<lparr>outputs = [- 1, - 1, - 1], output_count = 0, installed = False, s_transport_owner = 0,
      s_transport_mutex = None, scheduler_started = started, stdout_redirected = False,
      stderr_redirected = False, log_vprintf_set = False, io_calls = calls, io_out = (\<lambda>_. [])\<rparr>"

definition esp_stdio_log_vfs_transport_lock :: "nat \<Rightarrow> esp_stdio_log_vfs_t \<Rightarrow> esp_stdio_log_vfs_t option" where
  "esp_stdio_log_vfs_transport_lock self st =
     (if \<not> scheduler_started st then Some st
      else (case s_transport_mutex st of
              None \<Rightarrow> Some (st\<lparr>s_transport_mutex := Some self\<rparr>)
            | Some holder \<Rightarrow> None))"

definition esp_stdio_log_vfs_transport_unlock :: "esp_stdio_log_vfs_t \<Rightarrow> esp_stdio_log_vfs_t" where
  "esp_stdio_log_vfs_transport_unlock st =
     (if \<not> scheduler_started st then st else st\<lparr>s_transport_mutex := None\<rparr>)"

definition note_write :: "int \<Rightarrow> bytes \<Rightarrow> esp_stdio_log_vfs_t \<Rightarrow> esp_stdio_log_vfs_t" where
  "note_write fd bs st =
     st\<lparr>io_calls := Suc (io_calls st), io_out := (io_out st)(fd := io_out st fd @ bs)\<rparr>"

partial_function (option) esp_stdio_log_vfs_write_all ::
    "write_fn \<Rightarrow> int \<Rightarrow> bytes \<Rightarrow> esp_stdio_log_vfs_t \<Rightarrow> (bool \<times> esp_stdio_log_vfs_t) option" where
  "esp_stdio_log_vfs_write_all w fd data st =
     (if data = [] then Some (True, st)
      else (case w (io_calls st) fd data of
              Interrupted \<Rightarrow> esp_stdio_log_vfs_write_all w fd data (note_write fd [] st)
            | Failed \<Rightarrow> Some (False, note_write fd [] st)
            | Wrote n \<Rightarrow>
                if n = 0 then Some (False, note_write fd [] st)
                else esp_stdio_log_vfs_write_all w fd (drop n data) (note_write fd (take n data) st)))"

primrec write_outputs ::
    "write_fn \<Rightarrow> int list \<Rightarrow> bytes \<Rightarrow> bool \<Rightarrow> esp_stdio_log_vfs_t \<Rightarrow> (bool \<times> esp_stdio_log_vfs_t) option"
  where
  "write_outputs w [] data ok st = Some (ok, st)"
| "write_outputs w (fd # fds) data ok st =
     (if fd \<ge> 0
      then do { (written, st) \<leftarrow> esp_stdio_log_vfs_write_all w fd data st;
                write_outputs w fds data (if written then ok else False) st }
      else write_outputs w fds data ok st)"

record esp_stdio_log_vfs_frame_writer_t =
  fw_bytes :: bytes
  fw_len :: nat
  fw_ok :: bool

type_synonym fw_state = "esp_stdio_log_vfs_frame_writer_t \<times> esp_stdio_log_vfs_t"

definition esp_stdio_log_vfs_frame_writer_flush :: "write_fn \<Rightarrow> fw_state \<Rightarrow> fw_state option" where
  "esp_stdio_log_vfs_frame_writer_flush w s =
     (case s of (writer, st) \<Rightarrow>
        if fw_len writer = 0 then Some (writer, st)
        else do {
          (ok, st) \<leftarrow> write_outputs w (take (output_count st) (outputs st))
                       (take (fw_len writer) (fw_bytes writer)) (fw_ok writer) st;
          Some (writer\<lparr>fw_ok := ok, fw_len := 0\<rparr>, st) })"

definition fw_store :: "bytes \<Rightarrow> esp_stdio_log_vfs_frame_writer_t \<Rightarrow> esp_stdio_log_vfs_frame_writer_t" where
  "fw_store bs writer =
     writer\<lparr>fw_bytes := take (fw_len writer) (fw_bytes writer) @ bs @
                         drop (fw_len writer + length bs) (fw_bytes writer),
            fw_len := fw_len writer + length bs\<rparr>"

partial_function (option) esp_stdio_log_vfs_frame_writer_put_raw ::
    "write_fn \<Rightarrow> bytes \<Rightarrow> fw_state \<Rightarrow> fw_state option" where
  "esp_stdio_log_vfs_frame_writer_put_raw w data s =
     (if data = [] then Some s
      else Option.bind
        (if fw_len (fst s) = ESP_STDIO_LOG_VFS_WRITE_BATCH
         then esp_stdio_log_vfs_frame_writer_flush w s else Some s)
        (\<lambda>s. let chunk = take (ESP_STDIO_LOG_VFS_WRITE_BATCH - fw_len (fst s)) data
             in esp_stdio_log_vfs_frame_writer_put_raw w
                  (drop (ESP_STDIO_LOG_VFS_WRITE_BATCH - fw_len (fst s)) data)
                  (fw_store chunk (fst s), snd s)))"

definition esp_stdio_log_vfs_frame_writer_put_raw_byte :: "write_fn \<Rightarrow> u8 \<Rightarrow> fw_state \<Rightarrow> fw_state option" where
  "esp_stdio_log_vfs_frame_writer_put_raw_byte w b s = esp_stdio_log_vfs_frame_writer_put_raw w [b] s"

definition esp_stdio_log_vfs_frame_writer_put_slip_byte :: "write_fn \<Rightarrow> u8 \<Rightarrow> fw_state \<Rightarrow> fw_state option" where
  "esp_stdio_log_vfs_frame_writer_put_slip_byte w b s =
     (if b = 0xa5 then esp_stdio_log_vfs_frame_writer_put_raw w [0xdb, 0xde] s
      else if b = 0xc0 then esp_stdio_log_vfs_frame_writer_put_raw w [0xdb, 0xdc] s
      else if b = 0xdb then esp_stdio_log_vfs_frame_writer_put_raw w [0xdb, 0xdd] s
      else if b = 0x0d then esp_stdio_log_vfs_frame_writer_put_raw w [0xdb, 0xd0] s
      else if b = 0x0a then esp_stdio_log_vfs_frame_writer_put_raw w [0xdb, 0xd1] s
      else esp_stdio_log_vfs_frame_writer_put_raw_byte w b s)"

primrec esp_stdio_log_vfs_frame_writer_put_slip :: "write_fn \<Rightarrow> bytes \<Rightarrow> fw_state \<Rightarrow> fw_state option" where
  "esp_stdio_log_vfs_frame_writer_put_slip w [] s = Some s"
| "esp_stdio_log_vfs_frame_writer_put_slip w (b # bs) s =
     do { s \<leftarrow> esp_stdio_log_vfs_frame_writer_put_slip_byte w b s;
          esp_stdio_log_vfs_frame_writer_put_slip w bs s }"

text \<open>The payload pointer is NULL (\<open>None\<close>) or its bytes; \<open>payload_len\<close> is their number, \<open>n\<close> for NULL.\<close>

definition esp_stdio_log_vfs_write_frame ::
    "write_fn \<Rightarrow> nat \<Rightarrow> u8 \<Rightarrow> bytes option \<Rightarrow> nat \<Rightarrow> esp_stdio_log_vfs_t \<Rightarrow>
       (esp_err_t \<times> esp_stdio_log_vfs_t) option" where
  "esp_stdio_log_vfs_write_frame w self type payload payload_len st =
     (if payload = None \<and> payload_len \<noteq> 0 then Some (ESP_ERR_INVALID_ARG, st)
      else if payload_len > ESP_STDIO_LOG_VFS_FRAME_MAX_PAYLOAD then Some (ESP_ERR_INVALID_SIZE, st)
      else if s_transport_owner st = self then Some (ESP_FAIL, st)
      else
        (let bs = (case payload of None \<Rightarrow> [] | Some bs \<Rightarrow> bs);
             crc = esp_stdio_log_vfs_crc16_ccitt_update 0xffff [type];
             crc = esp_stdio_log_vfs_crc16_ccitt_update crc bs;
             writer = \<lparr>fw_bytes = replicate 128 0, fw_len = 0, fw_ok = True\<rparr>
         in do {
           st \<leftarrow> esp_stdio_log_vfs_transport_lock self st;
           let st = st\<lparr>s_transport_owner := self\<rparr>;
           s \<leftarrow> esp_stdio_log_vfs_frame_writer_put_raw_byte w 0xa5 (writer, st);
           s \<leftarrow> esp_stdio_log_vfs_frame_writer_put_slip_byte w type s;
           s \<leftarrow> esp_stdio_log_vfs_frame_writer_put_slip w bs s;
           s \<leftarrow> esp_stdio_log_vfs_frame_writer_put_slip_byte w (ucast (crc AND 0xff)) s;
           s \<leftarrow> esp_stdio_log_vfs_frame_writer_put_slip_byte w (ucast (drop_bit 8 crc)) s;
           s \<leftarrow> esp_stdio_log_vfs_frame_writer_put_raw_byte w 0xc0 s;
           (writer, st) \<leftarrow> esp_stdio_log_vfs_frame_writer_flush w s;
           let st = st\<lparr>s_transport_owner := 0\<rparr>;
           let st = esp_stdio_log_vfs_transport_unlock st;
           Some (if fw_ok writer then ESP_OK else ESP_FAIL, st) }))"

definition esp_stdio_log_vfs_raw_stream_begin ::
    "nat \<Rightarrow> esp_stdio_log_vfs_t \<Rightarrow> (esp_err_t \<times> esp_stdio_log_vfs_t) option" where
  "esp_stdio_log_vfs_raw_stream_begin self st =
     (if s_transport_owner st = self then Some (ESP_FAIL, st)
      else do { st \<leftarrow> esp_stdio_log_vfs_transport_lock self st;
                Some (ESP_OK, st\<lparr>s_transport_owner := self\<rparr>) })"

definition esp_stdio_log_vfs_raw_stream_write ::
    "write_fn \<Rightarrow> nat \<Rightarrow> bytes option \<Rightarrow> nat \<Rightarrow> esp_stdio_log_vfs_t \<Rightarrow>
       (esp_err_t \<times> esp_stdio_log_vfs_t) option" where
  "esp_stdio_log_vfs_raw_stream_write w self data len st =
     (if data = None \<and> len \<noteq> 0 then Some (ESP_ERR_INVALID_ARG, st)
      else if s_transport_owner st \<noteq> self then Some (ESP_ERR_INVALID_STATE, st)
      else do { (ok, st) \<leftarrow> write_outputs w (take (output_count st) (outputs st))
                             (case data of None \<Rightarrow> [] | Some bs \<Rightarrow> bs) True st;
                Some (if ok then ESP_OK else ESP_FAIL, st) })"

definition esp_stdio_log_vfs_raw_stream_end ::
    "nat \<Rightarrow> esp_stdio_log_vfs_t \<Rightarrow> esp_err_t \<times> esp_stdio_log_vfs_t" where
  "esp_stdio_log_vfs_raw_stream_end self st =
     (if s_transport_owner st \<noteq> self then (ESP_ERR_INVALID_STATE, st)
      else (ESP_OK, esp_stdio_log_vfs_transport_unlock (st\<lparr>s_transport_owner := 0\<rparr>)))"

text \<open>\<open>open_result\<close> is what \<open>open()\<close> returns for the path; \<open>path_ok\<close> that the path is not NULL.\<close>

definition esp_stdio_log_vfs_add_output ::
    "nat \<Rightarrow> bool \<Rightarrow> int \<Rightarrow> esp_stdio_log_vfs_t \<Rightarrow> (esp_err_t \<times> esp_stdio_log_vfs_t) option" where
  "esp_stdio_log_vfs_add_output self path_ok open_result st =
     (if \<not> path_ok then Some (ESP_ERR_INVALID_ARG, st)
      else do {
        st \<leftarrow> esp_stdio_log_vfs_transport_lock self st;
        if output_count st \<ge> ESP_STDIO_LOG_VFS_MAX_OUTPUTS
        then Some (ESP_ERR_NO_MEM, esp_stdio_log_vfs_transport_unlock st)
        else
          (let st = (if open_result \<ge> 0
                     then st\<lparr>outputs := (outputs st)[output_count st := open_result],
                             output_count := Suc (output_count st)\<rparr>
                     else st)
           in Some (ESP_OK, esp_stdio_log_vfs_transport_unlock st)) })"

text \<open>The write callback of the device, binary build: text in frames of at most 3072 bytes.\<close>

function vfs_write_loop ::
    "write_fn \<Rightarrow> nat \<Rightarrow> bytes \<Rightarrow> esp_stdio_log_vfs_t \<Rightarrow> (esp_err_t \<times> esp_stdio_log_vfs_t) option" where
  "vfs_write_loop w self data st =
     (if data = [] then Some (ESP_OK, st)
      else
        (let chunk = take ESP_STDIO_LOG_VFS_FRAME_MAX_PAYLOAD data
         in case esp_stdio_log_vfs_write_frame w self ESP_STDIO_LOG_VFS_FRAME_TYPE_TEXT (Some chunk)
                   (length chunk) st of
              None \<Rightarrow> None
            | Some (err, st) \<Rightarrow>
                if err \<noteq> ESP_OK then Some (err, st)
                else vfs_write_loop w self (drop ESP_STDIO_LOG_VFS_FRAME_MAX_PAYLOAD data) st))"
  by pat_completeness auto
termination
  by (relation "measure (\<lambda>(w, self, data, st). length data)") auto

declare vfs_write_loop.simps [simp del]

definition esp_stdio_log_vfs_write ::
    "write_fn \<Rightarrow> nat \<Rightarrow> bytes option \<Rightarrow> nat \<Rightarrow> esp_stdio_log_vfs_t \<Rightarrow> (int \<times> esp_stdio_log_vfs_t) option"
  where
  "esp_stdio_log_vfs_write w self data n st =
     (case data of
        None \<Rightarrow> Some (if n \<noteq> 0 then (- 1, st) else (0, st))
      | Some bs \<Rightarrow> do { (err, st) \<leftarrow> vfs_write_loop w self bs st;
                        Some (if err \<noteq> ESP_OK then - 1 else int (length bs), st) })"

text \<open>The same callback in a plain-text build: one raw stream.\<close>

definition esp_stdio_log_vfs_write_plain ::
    "write_fn \<Rightarrow> nat \<Rightarrow> bytes option \<Rightarrow> nat \<Rightarrow> esp_stdio_log_vfs_t \<Rightarrow> (int \<times> esp_stdio_log_vfs_t) option"
  where
  "esp_stdio_log_vfs_write_plain w self data n st =
     (if data = None \<and> n \<noteq> 0 then Some (- 1, st)
      else do {
        (begin_err, st) \<leftarrow> esp_stdio_log_vfs_raw_stream_begin self st;
        if begin_err \<noteq> ESP_OK then Some (- 1, st)
        else do {
          (write_err, st) \<leftarrow> esp_stdio_log_vfs_raw_stream_write w self data n st;
          let (end_err, st) = esp_stdio_log_vfs_raw_stream_end self st;
          Some (if write_err = ESP_OK \<and> end_err = ESP_OK then int n else - 1, st) } })"

text \<open>\<open>sync_fails\<close>: the descriptors on which \<open>fsync()\<close> fails.\<close>

definition esp_stdio_log_vfs_fsync ::
    "(int \<Rightarrow> bool) \<Rightarrow> nat \<Rightarrow> esp_stdio_log_vfs_t \<Rightarrow> (int \<times> esp_stdio_log_vfs_t) option" where
  "esp_stdio_log_vfs_fsync sync_fails self st =
     do { st \<leftarrow> esp_stdio_log_vfs_transport_lock self st;
          let result = foldl (\<lambda>result fd. if fd \<ge> 0 \<and> sync_fails fd then - 1 else result) 0
                         (take (output_count st) (outputs st));
          Some (result, esp_stdio_log_vfs_transport_unlock st) }"

text \<open>
  Initialisation. What the platform answers is a parameter: the results of \<open>open()\<close> for the
  console devices the configuration selects, of \<open>esp_vfs_register()\<close>, and of the two
  \<open>freopen()\<close> calls. Flushing and the buffering mode of the C streams have no counterpart in the
  state.
\<close>

record esp_platform =
  console_opens :: "int list"
  register_result :: esp_err_t
  freopen_stdout :: bool
  freopen_stderr :: bool

primrec add_consoles :: "nat \<Rightarrow> int list \<Rightarrow> esp_stdio_log_vfs_t \<Rightarrow> esp_stdio_log_vfs_t option" where
  "add_consoles self [] st = Some st"
| "add_consoles self (fd # fds) st =
     do { (_, st) \<leftarrow> esp_stdio_log_vfs_add_output self True fd st; add_consoles self fds st }"

definition esp_stdio_log_vfs_init ::
    "esp_platform \<Rightarrow> nat \<Rightarrow> esp_stdio_log_vfs_t \<Rightarrow> (esp_err_t \<times> esp_stdio_log_vfs_t) option" where
  "esp_stdio_log_vfs_init plat self st =
     (if installed st then Some (ESP_OK, st)
      else do {
        st \<leftarrow> add_consoles self (console_opens plat) st;
        if register_result plat \<noteq> ESP_OK then Some (register_result plat, st)
        else if \<not> freopen_stdout plat then Some (ESP_FAIL, st)
        else (let st = st\<lparr>stdout_redirected := True\<rparr> in
          if \<not> freopen_stderr plat then Some (ESP_FAIL, st)
          else Some (ESP_OK, st\<lparr>stderr_redirected := True, log_vprintf_set := True, installed := True\<rparr>)) })"

text \<open>
  The other callbacks of the device answer the same whatever is asked, and the hook for ESP-IDF's own
  log output prints to \<open>stdout\<close>, which is this device once it is redirected.
\<close>

definition S_IFCHR :: nat where
  "S_IFCHR = 8192"

definition esp_stdio_log_vfs_open :: "string \<Rightarrow> nat \<Rightarrow> nat \<Rightarrow> int" where
  "esp_stdio_log_vfs_open path flags mode = 0"

definition esp_stdio_log_vfs_close :: "nat \<Rightarrow> int" where
  "esp_stdio_log_vfs_close fd = 0"

definition esp_stdio_log_vfs_fstat :: "nat \<Rightarrow> int \<times> nat" where
  "esp_stdio_log_vfs_fstat fd = (0, S_IFCHR)"

definition esp_stdio_log_vfs_vprintf ::
    "(string \<Rightarrow> 'args \<Rightarrow> bytes \<times> int) \<Rightarrow> (bytes \<Rightarrow> esp_stdio_log_vfs_t \<Rightarrow> esp_stdio_log_vfs_t option) \<Rightarrow>
       string \<Rightarrow> 'args \<Rightarrow> esp_stdio_log_vfs_t \<Rightarrow> (int \<times> esp_stdio_log_vfs_t) option" where
  "esp_stdio_log_vfs_vprintf format_args put_stdout fmt args st =
     (case format_args fmt args of (text, n) \<Rightarrow> map_option (Pair n) (put_stdout text st))"

end
