(* ===== verification/EspFrames.thy ===== *)
theory EspFrames
  imports EspTransport
begin

text \<open>
  What the ESP transport writes: when \<open>esp_stdio_log_vfs_write_frame\<close> reports success, every
  output has taken exactly the frame, in one piece.
\<close>

section \<open>Writing to one descriptor\<close>

text \<open>
  What is assumed of \<open>write()\<close>. That it never takes more than it was given is what POSIX says. That no
  call is interrupted for ever is an assumption on the system, which POSIX does not promise: the loop at
  \<^verbatim>\<open>src/esp_stdio_log_vfs.c\<close>, line 248, tries again after every \<open>EINTR\<close>, and without the assumption it
  need not end (\<open>endless_interrupts_never_return\<close>).
\<close>

definition write_ok :: "write_fn \<Rightarrow> bool" where
  "write_ok w \<longleftrightarrow>
     (\<forall>k fd data n. w k fd data = Wrote n \<longrightarrow> n \<le> length data) \<and>
     (\<forall>k fd data. \<exists>j. w (k + j) fd data \<noteq> Interrupted)"

text \<open>Where every retry is interrupted, the loop does not end; the callers hold the mutex meanwhile.\<close>

lemma write_all_answered:
  "esp_stdio_log_vfs_write_all w fd data st = Some r \<Longrightarrow> data = [] \<or> (\<exists>j. w (io_calls st + j) fd data \<noteq> Interrupted)"
proof (induction rule: esp_stdio_log_vfs_write_all.raw_induct [rotated, consumes 1, case_names call])
  case (call write_all w fd data st out)
  have later: "w (io_calls (note_write fd [] st) + j) fd data = w (io_calls st + Suc j) fd data" for j
    by (simp add: note_write_def)
  show ?case
  proof (cases "data = [] \<or> w (io_calls st + 0) fd data \<noteq> Interrupted")
    case False
    then have "write_all w fd data (note_write fd [] st) = Some out" using call(2) by simp
    from call(1) [OF this] show ?thesis unfolding later by blast
  qed blast
qed

lemma endless_interrupts_never_return:
  assumes "data \<noteq> []" and "\<And>j. w (io_calls st + j) fd data = Interrupted"
  shows "esp_stdio_log_vfs_write_all w fd data st = None"
  using assms write_all_answered [of w fd data st] by (cases "esp_stdio_log_vfs_write_all w fd data st") auto

text \<open>No write fails or takes nothing.\<close>

definition accepting :: "write_fn \<Rightarrow> bool" where
  "accepting w \<longleftrightarrow> (\<forall>k fd data. data \<noteq> [] \<longrightarrow> w k fd data \<noteq> Failed \<and> w k fd data \<noteq> Wrote 0)"

text \<open>\<open>io_step st st'\<close>: only the outside world has changed between the two.\<close>

definition io_step :: "esp_stdio_log_vfs_t \<Rightarrow> esp_stdio_log_vfs_t \<Rightarrow> bool" where
  "io_step st st' \<longleftrightarrow>
     outputs st' = outputs st \<and> output_count st' = output_count st \<and> installed st' = installed st \<and>
     s_transport_owner st' = s_transport_owner st \<and> s_transport_mutex st' = s_transport_mutex st \<and>
     scheduler_started st' = scheduler_started st \<and> stdout_redirected st' = stdout_redirected st \<and>
     stderr_redirected st' = stderr_redirected st \<and> log_vprintf_set st' = log_vprintf_set st"

lemma io_step_refl [simp]: "io_step st st"
  by (simp add: io_step_def)

lemma io_step_note [simp]: "io_step st (note_write fd bs st)"
  by (simp add: io_step_def note_write_def)

lemma io_step_trans: "io_step a b \<Longrightarrow> io_step b c \<Longrightarrow> io_step a c"
  by (simp add: io_step_def)

text \<open>The outcome of writing \<open>data\<close> to \<open>fd\<close>: only \<open>fd\<close> is touched; success means all of it was taken.\<close>

definition written_to ::
    "write_fn \<Rightarrow> int \<Rightarrow> bytes \<Rightarrow> esp_stdio_log_vfs_t \<Rightarrow> bool \<Rightarrow> esp_stdio_log_vfs_t \<Rightarrow> bool" where
  "written_to w fd data st ok st' \<longleftrightarrow>
     io_step st st' \<and> (\<forall>fd'. fd' \<noteq> fd \<longrightarrow> io_out st' fd' = io_out st fd') \<and>
     (ok \<longrightarrow> io_out st' fd = io_out st fd @ data) \<and> (accepting w \<longrightarrow> ok)"

lemma written_to_step:
  "written_to w fd rest (note_write fd bs st) ok st' \<Longrightarrow> written_to w fd (bs @ rest) st ok st'"
  by (auto simp: written_to_def note_write_def io_step_def)

abbreviation (input) write_all_done :: "write_fn \<Rightarrow> int \<Rightarrow> bytes \<Rightarrow> esp_stdio_log_vfs_t \<Rightarrow> bool" where
  "write_all_done w fd data st \<equiv>
     \<exists>ok st'. esp_stdio_log_vfs_write_all w fd data st = Some (ok, st') \<and> written_to w fd data st ok st'"

text \<open>A call that is not interrupted ends the loop or leaves less to write.\<close>

lemma write_all_progress:
  assumes w: "write_ok w" and "data \<noteq> []" and now: "w (io_calls st) fd data \<noteq> Interrupted"
    and shorter: "\<And>rest st. length rest < length data \<Longrightarrow> write_all_done w fd rest st"
  shows "write_all_done w fd data st"
proof (cases "w (io_calls st) fd data")
  case Interrupted
  then show ?thesis using now by simp
next
  case Failed
  then have "\<not> accepting w" using assms(2) by (auto simp: accepting_def)
  then show ?thesis using Failed assms(2)
    by (subst esp_stdio_log_vfs_write_all.simps)
      (auto simp: written_to_def note_write_def io_step_def intro!: exI [of _ False])
next
  case (Wrote n)
  then have n: "n \<le> length data" using w by (simp add: write_ok_def)
  show ?thesis
  proof (cases "n = 0")
    case True
    then have "\<not> accepting w" using assms(2) Wrote by (auto simp: accepting_def)
    then show ?thesis using assms(2) Wrote True
      by (subst esp_stdio_log_vfs_write_all.simps)
      (auto simp: written_to_def note_write_def io_step_def intro!: exI [of _ False])
  next
    case False
    then have "length (drop n data) < length data" using n assms(2) by simp
    from shorter [OF this, of "note_write fd (take n data) st"] obtain ok st' where
      "esp_stdio_log_vfs_write_all w fd (drop n data) (note_write fd (take n data) st) = Some (ok, st')"
      "written_to w fd (drop n data) (note_write fd (take n data) st) ok st'" by blast
    then show ?thesis using assms(2) Wrote False written_to_step [of w fd "drop n data" "take n data" st ok st']
      by (subst esp_stdio_log_vfs_write_all.simps) simp
  qed
qed

lemma write_all_result:
  assumes w: "write_ok w"
  shows "write_all_done w fd data st"
proof (induction "length data" arbitrary: data st rule: less_induct)
  case less
  show ?case
  proof (cases "data = []")
    case True
    then show ?thesis
      by (subst esp_stdio_log_vfs_write_all.simps) (auto simp: written_to_def intro!: exI [of _ True])
  next
    case False
    have retry: "w (io_calls st + j) fd data \<noteq> Interrupted \<Longrightarrow> write_all_done w fd data st" for j st
    proof (induction j arbitrary: st)
      case (0 st)
      then show ?case using write_all_progress [OF w False] less.hyps by simp
    next
      case (Suc j)
      show ?case
      proof (cases "w (io_calls st) fd data = Interrupted")
        case True
        have "w (io_calls (note_write fd [] st) + j) fd data \<noteq> Interrupted"
          using Suc.prems by (simp add: note_write_def)
        from Suc.IH [OF this] obtain ok st' where
          "esp_stdio_log_vfs_write_all w fd data (note_write fd [] st) = Some (ok, st')"
          "written_to w fd data (note_write fd [] st) ok st'" by blast
        then show ?thesis using True False written_to_step [of w fd data "[]" st ok st']
          by (subst esp_stdio_log_vfs_write_all.simps) simp
      next
        case no: False
        show ?thesis by (rule write_all_progress [OF w False no less.hyps])
      qed
    qed
    obtain j where "w (io_calls st + j) fd data \<noteq> Interrupted" using w unfolding write_ok_def by blast
    then show ?thesis by (rule retry)
  qed
qed

section \<open>Writing to all outputs\<close>

text \<open>The descriptors in use: pairwise distinct, as \<open>open()\<close> returns them.\<close>

definition active_outputs :: "esp_stdio_log_vfs_t \<Rightarrow> int list" where
  "active_outputs st = filter (\<lambda>fd. fd \<ge> 0) (take (output_count st) (outputs st))"

definition outputs_ok :: "esp_stdio_log_vfs_t \<Rightarrow> bool" where
  "outputs_ok st \<longleftrightarrow> length (outputs st) = 3 \<and> output_count st \<le> 3 \<and> distinct (active_outputs st)"

definition sent_to ::
    "write_fn \<Rightarrow> int list \<Rightarrow> bytes \<Rightarrow> bool \<Rightarrow> esp_stdio_log_vfs_t \<Rightarrow> bool \<Rightarrow> esp_stdio_log_vfs_t \<Rightarrow> bool" where
  "sent_to w fds data ok st ok' st' \<longleftrightarrow>
     io_step st st' \<and> (\<forall>fd. fd \<notin> set fds \<longrightarrow> io_out st' fd = io_out st fd) \<and>
     (ok' \<longrightarrow> ok \<and> (\<forall>fd \<in> set fds. io_out st' fd = io_out st fd @ data)) \<and> (accepting w \<longrightarrow> ok' = ok)"

lemma write_outputs_result:
  assumes w: "write_ok w"
  shows "distinct (filter (\<lambda>fd. fd \<ge> 0) fds) \<Longrightarrow>
     \<exists>ok' st'. write_outputs w fds data ok st = Some (ok', st') \<and>
       sent_to w (filter (\<lambda>fd. fd \<ge> 0) fds) data ok st ok' st'"
proof (induction fds arbitrary: ok st)
  case Nil
  then show ?case by (simp add: sent_to_def)
next
  case (Cons fd fds)
  show ?case
  proof (cases "fd \<ge> 0")
    case False
    then show ?thesis using Cons by simp
  next
    case True
    obtain ok1 st1 where one: "esp_stdio_log_vfs_write_all w fd data st = Some (ok1, st1)"
      "written_to w fd data st ok1 st1" using write_all_result [OF w] by blast
    have dist: "distinct (filter (\<lambda>fd. fd \<ge> 0) fds)" "fd \<notin> set (filter (\<lambda>fd. fd \<ge> 0) fds)"
      using Cons.prems True by auto
    obtain ok' st' where rest: "write_outputs w fds data (if ok1 then ok else False) st1 = Some (ok', st')"
      "sent_to w (filter (\<lambda>fd. fd \<ge> 0) fds) data (if ok1 then ok else False) st1 ok' st'"
      using Cons.IH [OF dist(1)] by blast
    have step: "io_step st st'" using one(2) rest(2) io_step_trans by (auto simp: written_to_def sent_to_def)
    have out: "\<forall>fd'. fd' \<notin> set (filter (\<lambda>fd. fd \<ge> 0) (fd # fds)) \<longrightarrow> io_out st' fd' = io_out st fd'"
      using one(2) rest(2) True by (auto simp: written_to_def sent_to_def)
    have all: "ok' \<longrightarrow> ok \<and> (\<forall>fd' \<in> set (filter (\<lambda>fd. fd \<ge> 0) (fd # fds)). io_out st' fd' = io_out st fd' @ data)"
    proof
      assume ok': "ok'"
      then have o: "ok1" "ok" "\<forall>fd' \<in> set (filter (\<lambda>fd. fd \<ge> 0) fds). io_out st' fd' = io_out st1 fd' @ data"
        using rest(2) by (auto simp: sent_to_def split: if_splits)
      have "io_out st' fd = io_out st fd @ data"
        using one(2) o(1) rest(2) dist(2) by (simp add: written_to_def sent_to_def)
      moreover have "io_out st' fd' = io_out st fd' @ data" if "fd' \<in> set (filter (\<lambda>fd. fd \<ge> 0) fds)" for fd'
        using o(3) that one(2) dist(2) by (auto simp: written_to_def)
      ultimately show "ok \<and> (\<forall>fd' \<in> set (filter (\<lambda>fd. fd \<ge> 0) (fd # fds)). io_out st' fd' = io_out st fd' @ data)"
        using o(2) True by auto
    qed
    have "accepting w \<longrightarrow> ok' = ok" using one(2) rest(2) by (auto simp: written_to_def sent_to_def)
    then show ?thesis using one(1) rest(1) step out all True
      by (simp only: write_outputs.simps if_True bind.bind_lunit prod.case sent_to_def) blast
  qed
qed

section \<open>The batching writer\<close>

definition fw_inv :: "fw_state \<Rightarrow> bool" where
  "fw_inv s \<longleftrightarrow> length (fw_bytes (fst s)) = 128 \<and> fw_len (fst s) \<le> 128 \<and> outputs_ok (snd s)"

definition pending :: "fw_state \<Rightarrow> bytes" where
  "pending s = take (fw_len (fst s)) (fw_bytes (fst s))"

text \<open>
  \<open>fw_puts w bs s s'\<close>: the writer has accepted \<open>bs\<close>. While no write has failed, what an output has
  taken followed by what is pending has grown by exactly \<open>bs\<close>.
\<close>

definition fw_puts :: "write_fn \<Rightarrow> bytes \<Rightarrow> fw_state \<Rightarrow> fw_state \<Rightarrow> bool" where
  "fw_puts w bs s s' \<longleftrightarrow>
     io_step (snd s) (snd s') \<and> fw_inv s' \<and>
     (\<forall>fd. fd \<notin> set (active_outputs (snd s)) \<longrightarrow> io_out (snd s') fd = io_out (snd s) fd) \<and>
     (fw_ok (fst s') \<longrightarrow> fw_ok (fst s) \<and>
        (\<forall>fd \<in> set (active_outputs (snd s)).
           io_out (snd s') fd @ pending s' = io_out (snd s) fd @ pending s @ bs)) \<and>
     (accepting w \<longrightarrow> fw_ok (fst s') = fw_ok (fst s))"

lemma io_step_active: "io_step st st' \<Longrightarrow> active_outputs st' = active_outputs st"
  by (simp add: io_step_def active_outputs_def)

lemma io_step_outputs_ok: "io_step st st' \<Longrightarrow> outputs_ok st' = outputs_ok st"
  by (simp add: io_step_def active_outputs_def outputs_ok_def)

lemma fw_puts_inv: "fw_puts w bs s s' \<Longrightarrow> fw_inv s'"
  by (simp add: fw_puts_def)

lemma fw_puts_Nil: "fw_inv s \<Longrightarrow> fw_puts w [] s s"
  by (simp add: fw_puts_def)

lemma fw_puts_trans:
  assumes "fw_puts w a s s1" and "fw_puts w b s1 s2"
  shows "fw_puts w (a @ b) s s2"
proof -
  have act: "active_outputs (snd s1) = active_outputs (snd s)"
    using assms(1) by (simp add: fw_puts_def io_step_active)
  have step: "io_step (snd s) (snd s2)" using assms io_step_trans by (auto simp: fw_puts_def)
  have "io_out (snd s2) fd @ pending s2 = io_out (snd s) fd @ pending s @ a @ b"
    if "fw_ok (fst s2)" and "fd \<in> set (active_outputs (snd s))" for fd
  proof -
    have "io_out (snd s2) fd @ pending s2 = (io_out (snd s1) fd @ pending s1) @ b"
      and "io_out (snd s1) fd @ pending s1 = io_out (snd s) fd @ pending s @ a"
      using assms that act by (auto simp: fw_puts_def)
    then show ?thesis by simp
  qed
  then show ?thesis using assms act step by (simp add: fw_puts_def)
qed

lemma flush_result:
  assumes w: "write_ok w" and inv: "fw_inv s"
  shows "\<exists>s'. esp_stdio_log_vfs_frame_writer_flush w s = Some s' \<and> fw_puts w [] s s' \<and> fw_len (fst s') = 0"
proof (cases "fw_len (fst s) = 0")
  case True
  then show ?thesis using inv
    by (cases s) (simp add: esp_stdio_log_vfs_frame_writer_flush_def fw_puts_Nil)
next
  case False
  obtain writer st where s: "s = (writer, st)" by (cases s)
  have "distinct (filter (\<lambda>fd. fd \<ge> 0) (take (output_count st) (outputs st)))"
    using inv s by (simp add: fw_inv_def outputs_ok_def active_outputs_def)
  from write_outputs_result [OF w this, of "take (fw_len writer) (fw_bytes writer)" "fw_ok writer" st]
  obtain ok st' where out: "write_outputs w (take (output_count st) (outputs st))
      (take (fw_len writer) (fw_bytes writer)) (fw_ok writer) st = Some (ok, st')"
    "sent_to w (active_outputs st) (take (fw_len writer) (fw_bytes writer)) (fw_ok writer) st ok st'"
    by (auto simp: active_outputs_def)
  then have "fw_puts w [] s (writer\<lparr>fw_ok := ok, fw_len := 0\<rparr>, st')"
    using inv by (auto simp: s fw_puts_def sent_to_def fw_inv_def pending_def io_step_outputs_ok)
  then show ?thesis using False out(1) by (simp add: s esp_stdio_log_vfs_frame_writer_flush_def)
qed

lemma fw_store_puts:
  assumes "fw_inv s" and "fw_len (fst s) + length bs \<le> 128"
  shows "fw_puts w bs s (fw_store bs (fst s), snd s)"
  using assms by (auto simp: fw_puts_def fw_inv_def fw_store_def pending_def)

lemma put_raw_result:
  assumes w: "write_ok w"
  shows "fw_inv s \<Longrightarrow> \<exists>s'. esp_stdio_log_vfs_frame_writer_put_raw w data s = Some s' \<and> fw_puts w data s s'"
proof (induction "length data" arbitrary: data s rule: less_induct)
  case less
  show ?case
  proof (cases "data = []")
    case True
    then show ?thesis using less.prems
      by (subst esp_stdio_log_vfs_frame_writer_put_raw.simps) (simp add: fw_puts_Nil)
  next
    case False
    obtain s1 where s1: "(if fw_len (fst s) = 128 then esp_stdio_log_vfs_frame_writer_flush w s else Some s) = Some s1"
      "fw_puts w [] s s1" "fw_len (fst s1) < 128"
    proof (cases "fw_len (fst s) = 128")
      case True
      then show ?thesis using flush_result [OF w less.prems] that by auto
    next
      case no: False
      then show ?thesis using that fw_puts_Nil less.prems by (simp add: fw_inv_def)
    qed
    let ?k = "128 - fw_len (fst s1)"
    let ?s2 = "(fw_store (take ?k data) (fst s1), snd s1)"
    have p2: "fw_puts w (take ?k data) s1 ?s2"
      using s1(3) by (intro fw_store_puts fw_puts_inv [OF s1(2)]) simp
    have "length (drop ?k data) < length data"
      using s1(3) False by (cases data) auto
    from less.hyps [OF this fw_puts_inv [OF p2]] obtain s' where
      r: "esp_stdio_log_vfs_frame_writer_put_raw w (drop ?k data) ?s2 = Some s'"
      "fw_puts w (drop ?k data) ?s2 s'" by blast
    have "fw_puts w data s s'"
      using fw_puts_trans [OF fw_puts_trans [OF s1(2) p2] r(2)] by simp
    then show ?thesis using r(1) s1(1) False
      by (subst esp_stdio_log_vfs_frame_writer_put_raw.simps) (simp add: Let_def)
  qed
qed

lemma put_raw_byte_result:
  "write_ok w \<Longrightarrow> fw_inv s \<Longrightarrow>
     \<exists>s'. esp_stdio_log_vfs_frame_writer_put_raw_byte w b s = Some s' \<and> fw_puts w [b] s s'"
  unfolding esp_stdio_log_vfs_frame_writer_put_raw_byte_def by (rule put_raw_result)

lemma put_slip_byte_result:
  "write_ok w \<Longrightarrow> fw_inv s \<Longrightarrow>
     \<exists>s'. esp_stdio_log_vfs_frame_writer_put_slip_byte w b s = Some s' \<and> fw_puts w (slip_escape b) s s'"
  unfolding esp_stdio_log_vfs_frame_writer_put_slip_byte_def slip_escape_def
  using put_raw_result put_raw_byte_result by auto

lemma put_slip_result:
  "write_ok w \<Longrightarrow> fw_inv s \<Longrightarrow>
     \<exists>s'. esp_stdio_log_vfs_frame_writer_put_slip w bs s = Some s' \<and>
       fw_puts w (concat (map slip_escape bs)) s s'"
proof (induction bs arbitrary: s)
  case Nil
  then show ?case by (simp add: fw_puts_Nil)
next
  case (Cons b bs)
  obtain s1 where s1: "esp_stdio_log_vfs_frame_writer_put_slip_byte w b s = Some s1"
    "fw_puts w (slip_escape b) s s1" using put_slip_byte_result [OF Cons.prems] by blast
  obtain s2 where s2: "esp_stdio_log_vfs_frame_writer_put_slip w bs s1 = Some s2"
    "fw_puts w (concat (map slip_escape bs)) s1 s2"
    using Cons.IH [OF Cons.prems(1) fw_puts_inv [OF s1(2)]] by blast
  show ?case using s1(1) s2(1) fw_puts_trans [OF s1(2) s2(2)] by simp
qed

section \<open>Frames\<close>

text \<open>A task may enter the transport when it is a task, is not inside already, and nobody holds the mutex.\<close>

definition may_enter :: "nat \<Rightarrow> esp_stdio_log_vfs_t \<Rightarrow> bool" where
  "may_enter self st \<longleftrightarrow>
     outputs_ok st \<and> s_transport_owner st = 0 \<and> s_transport_mutex st = None \<and> self \<noteq> 0"

lemma lock_free:
  "s_transport_mutex st = None \<Longrightarrow>
     esp_stdio_log_vfs_transport_lock self st =
       Some (st\<lparr>s_transport_mutex := (if scheduler_started st then Some self else None)\<rparr>)"
  by (cases st) (simp add: esp_stdio_log_vfs_transport_lock_def)

lemma active_outputs_cong:
  "active_outputs (st\<lparr>s_transport_mutex := mx\<rparr>) = active_outputs st"
  "active_outputs (st\<lparr>s_transport_owner := ow\<rparr>) = active_outputs st"
  "outputs_ok (st\<lparr>s_transport_mutex := mx\<rparr>) = outputs_ok st"
  "outputs_ok (st\<lparr>s_transport_owner := ow\<rparr>) = outputs_ok st"
  by (simp_all add: active_outputs_def outputs_ok_def)

lemma frame_crc_bytes:
  "crc16 (ty # bs) =
     esp_stdio_log_vfs_crc16_ccitt_update (esp_stdio_log_vfs_crc16_ccitt_update 0xffff [ty]) bs"
  by (simp add: crc16_updates_agree crc16_def)

lemma write_frame_result:
  assumes w: "write_ok w" and enter: "may_enter self st" and len: "length bs \<le> 3072"
  shows "\<exists>ok st'. esp_stdio_log_vfs_write_frame w self ty (Some bs) (length bs) st =
       Some (if ok then ESP_OK else ESP_FAIL, st') \<and>
     sent_to w (active_outputs st) (slip_frame ty bs) True st ok st'"
proof -
  let ?mx = "if scheduler_started st then Some self else None"
  have lock: "esp_stdio_log_vfs_transport_lock self st = Some (st\<lparr>s_transport_mutex := ?mx\<rparr>)"
    using enter by (intro lock_free) (simp add: may_enter_def)
  let ?st0 = "st\<lparr>s_transport_mutex := ?mx, s_transport_owner := self\<rparr>"
  let ?s0 = "(\<lparr>fw_bytes = replicate 128 0, fw_len = 0, fw_ok = True\<rparr>, ?st0)"
  let ?crc = "esp_stdio_log_vfs_crc16_ccitt_update (esp_stdio_log_vfs_crc16_ccitt_update 0xffff [ty]) bs"
  have inv0: "fw_inv ?s0" using enter by (simp add: fw_inv_def may_enter_def active_outputs_cong)
  obtain s1 where s1: "esp_stdio_log_vfs_frame_writer_put_raw_byte w 0xa5 ?s0 = Some s1" "fw_puts w [0xa5] ?s0 s1"
    using put_raw_byte_result [OF w inv0] by blast
  obtain s2 where s2: "esp_stdio_log_vfs_frame_writer_put_slip_byte w ty s1 = Some s2" "fw_puts w (slip_escape ty) s1 s2"
    using put_slip_byte_result [OF w fw_puts_inv [OF s1(2)]] by blast
  note p2 = fw_puts_trans [OF s1(2) s2(2)]
  obtain s3 where s3: "esp_stdio_log_vfs_frame_writer_put_slip w bs s2 = Some s3"
    "fw_puts w (concat (map slip_escape bs)) s2 s3"
    using put_slip_result [OF w fw_puts_inv [OF p2]] by blast
  note p3 = fw_puts_trans [OF p2 s3(2)]
  obtain s4 where s4: "esp_stdio_log_vfs_frame_writer_put_slip_byte w (ucast (?crc AND 0xff)) s3 = Some s4"
    "fw_puts w (slip_escape (ucast (?crc AND 0xff))) s3 s4"
    using put_slip_byte_result [OF w fw_puts_inv [OF p3]] by blast
  note p4 = fw_puts_trans [OF p3 s4(2)]
  obtain s5 where s5: "esp_stdio_log_vfs_frame_writer_put_slip_byte w (ucast (drop_bit 8 ?crc)) s4 = Some s5"
    "fw_puts w (slip_escape (ucast (drop_bit 8 ?crc))) s4 s5"
    using put_slip_byte_result [OF w fw_puts_inv [OF p4]] by blast
  note p5 = fw_puts_trans [OF p4 s5(2)]
  obtain s6 where s6: "esp_stdio_log_vfs_frame_writer_put_raw_byte w 0xc0 s5 = Some s6" "fw_puts w [0xc0] s5 s6"
    using put_raw_byte_result [OF w fw_puts_inv [OF p5]] by blast
  note p6 = fw_puts_trans [OF p5 s6(2)]
  obtain s7 where s7: "esp_stdio_log_vfs_frame_writer_flush w s6 = Some s7" "fw_puts w [] s6 s7" "fw_len (fst s7) = 0"
    using flush_result [OF w fw_puts_inv [OF p6]] by blast
  have "((((([0xa5] @ slip_escape ty) @ concat (map slip_escape bs)) @ slip_escape (ucast (?crc AND 0xff))) @
      slip_escape (ucast (drop_bit 8 ?crc))) @ [0xc0]) @ [] = slip_frame ty bs"
    using crc_escaped [of ?crc] by (simp add: slip_frame_def frame_content_def frame_crc_bytes)
  then have p7: "fw_puts w (slip_frame ty bs) ?s0 s7" using fw_puts_trans [OF p6 s7(2)] by (simp only:)
  obtain writer st7 where s7': "s7 = (writer, st7)" by (cases s7)
  let ?st' = "esp_stdio_log_vfs_transport_unlock (st7\<lparr>s_transport_owner := 0\<rparr>)"
  have run: "esp_stdio_log_vfs_write_frame w self ty (Some bs) (length bs) st =
      Some (if fw_ok writer then ESP_OK else ESP_FAIL, ?st')"
    using enter len lock s1(1) s2(1) s3(1) s4(1) s5(1) s6(1) s7(1)
    by (simp add: esp_stdio_log_vfs_write_frame_def may_enter_def Let_def s7')
  have io: "io_step ?st0 st7" using p7 by (simp add: fw_puts_def s7')
  then have "io_step st ?st'" using enter
    by (auto simp: io_step_def may_enter_def esp_stdio_log_vfs_transport_unlock_def)
  moreover have "io_out ?st' = io_out st7" by (simp add: esp_stdio_log_vfs_transport_unlock_def)
  moreover have "fw_len writer = 0" using s7(3) by (simp add: s7')
  ultimately have "sent_to w (active_outputs st) (slip_frame ty bs) True st (fw_ok writer) ?st'"
    using p7 by (simp add: fw_puts_def sent_to_def s7' active_outputs_cong pending_def)
  then show ?thesis using run by blast
qed

end
