(* ===== verification/EspCorrect.thy ===== *)
theory EspCorrect
  imports EspFrames
begin

text \<open>
  What the ESP transport promises its users: frames arrive whole and decode to what was written,
  the text device splits long writes and loses nothing, a raw stream has the outputs to itself,
  and the output table never overflows.
\<close>

section \<open>A transport for the witnesses\<close>

definition takes_all :: write_fn where
  "takes_all k fd data = Wrote (length data)"

lemma takes_all_ok: "write_ok takes_all" "accepting takes_all"
  by (auto simp: write_ok_def accepting_def takes_all_def)

text \<open>Every other call is interrupted, and no call takes more than 5 bytes.\<close>

definition takes_some :: write_fn where
  "takes_some k fd data = (if even k then Interrupted else Wrote (min 5 (length data)))"

lemma takes_some_ok: "write_ok takes_some" "accepting takes_some"
proof -
  have "\<exists>j. odd (k + j)" for k :: nat by (cases "even k") (auto intro: exI [of _ 0] exI [of _ 1])
  then show "write_ok takes_some" "accepting takes_some"
    by (auto simp: write_ok_def accepting_def takes_some_def)
qed

definition demo_transport :: esp_stdio_log_vfs_t where
  "demo_transport = (esp_transport_initial True 0)\<lparr>outputs := [4, 5, - 1], output_count := 2\<rparr>"

lemma demo_transport_enter: "may_enter 7 demo_transport"
  by (simp add: may_enter_def demo_transport_def esp_transport_initial_def outputs_ok_def
      active_outputs_def numeral_eq_Suc)

section \<open>Consequences of the frame lemma\<close>

lemma io_step_enter: "io_step st st' \<Longrightarrow> may_enter self st' = may_enter self st"
  by (simp add: may_enter_def io_step_outputs_ok) (simp add: io_step_def)

lemma sent_to_enter: "sent_to w fds data ok st ok' st' \<Longrightarrow> may_enter self st' = may_enter self st"
  by (simp add: sent_to_def io_step_enter)

lemma sent_to_out:
  "sent_to w (active_outputs st) data True st True st' \<Longrightarrow> fd \<in> set (active_outputs st) \<Longrightarrow>
     io_out st' fd = io_out st fd @ data"
  by (simp add: sent_to_def)

lemma sent_to_trans:
  assumes "sent_to w (active_outputs st) a ok st ok1 st1"
    and "sent_to w (active_outputs st1) b ok1 st1 ok2 st2"
  shows "sent_to w (active_outputs st) (a @ b) ok st ok2 st2"
proof -
  have "active_outputs st1 = active_outputs st" using assms(1) by (simp add: sent_to_def io_step_active)
  then show ?thesis using assms io_step_trans unfolding sent_to_def by auto
qed

lemma sent_to_Nil: "sent_to w fds [] ok st ok st"
  by (simp add: sent_to_def)

section \<open>The text device\<close>

function pieces :: "bytes \<Rightarrow> bytes list" where
  "pieces data = (if data = [] then [] else take 3072 data # pieces (drop 3072 data))"
  by pat_completeness auto
termination
  by (relation "measure length") auto

declare pieces.simps [simp del]

lemma concat_pieces: "concat (pieces data) = data"
  by (induction data rule: pieces.induct) (subst pieces.simps, simp)

lemma vfs_write_loop_result:
  assumes w: "write_ok w"
  shows "may_enter self st \<Longrightarrow>
     \<exists>ok st'. vfs_write_loop w self data st = Some (if ok then ESP_OK else ESP_FAIL, st') \<and>
       may_enter self st' \<and>
       (ok \<longrightarrow> sent_to w (active_outputs st) (concat (map (slip_frame 2) (pieces data))) True st True st') \<and>
       (accepting w \<longrightarrow> ok)"
proof (induction "length data" arbitrary: data st rule: less_induct)
  case less
  show ?case
  proof (cases "data = []")
    case True
    then show ?thesis using less.prems
      by (auto simp: vfs_write_loop.simps [of w self "[]"] pieces.simps [of "[]"] sent_to_Nil intro!: exI [of _ True])
  next
    case False
    obtain ok st1 where one: "esp_stdio_log_vfs_write_frame w self 2 (Some (take 3072 data))
        (length (take 3072 data)) st = Some (if ok then ESP_OK else ESP_FAIL, st1)"
      "sent_to w (active_outputs st) (slip_frame 2 (take 3072 data)) True st ok st1"
      using write_frame_result [OF w less.prems, of "take 3072 data" 2] by auto
    have enter: "may_enter self st1" using sent_to_enter [OF one(2)] less.prems by simp
    show ?thesis
    proof (cases ok)
      case False
      then show ?thesis using one enter \<open>data \<noteq> []\<close>
        by (subst vfs_write_loop.simps) (auto simp: sent_to_def intro!: exI [of _ False])
    next
      case True
      have "length (drop 3072 data) < length data" using False by simp
      from less.hyps [OF this enter] obtain ok' st' where rest:
        "vfs_write_loop w self (drop 3072 data) st1 = Some (if ok' then ESP_OK else ESP_FAIL, st')"
        "may_enter self st'" "accepting w \<longrightarrow> ok'"
        "ok' \<longrightarrow> sent_to w (active_outputs st1) (concat (map (slip_frame 2) (pieces (drop 3072 data)))) True st1 True st'"
        by blast
      have "pieces data = take 3072 data # pieces (drop 3072 data)" using False by (subst pieces.simps) simp
      then have "ok' \<longrightarrow> sent_to w (active_outputs st) (concat (map (slip_frame 2) (pieces data))) True st True st'"
        using rest(4) sent_to_trans one(2) True by fastforce
      then show ?thesis using one(1) rest(1-3) True False
        by (subst vfs_write_loop.simps) (auto intro!: exI [of _ ok'])
    qed
  qed
qed

section \<open>Raw streams\<close>

text \<open>Several writes inside one stream.\<close>

primrec raw_writes ::
    "write_fn \<Rightarrow> nat \<Rightarrow> bytes list \<Rightarrow> bool \<Rightarrow> esp_stdio_log_vfs_t \<Rightarrow> (bool \<times> esp_stdio_log_vfs_t) option"
  where
  "raw_writes w self [] ok st = Some (ok, st)"
| "raw_writes w self (c # cs) ok st =
     do { (err, st) \<leftarrow> esp_stdio_log_vfs_raw_stream_write w self (Some c) (length c) st;
          raw_writes w self cs (ok \<and> err = ESP_OK) st }"

definition inside_stream :: "nat \<Rightarrow> esp_stdio_log_vfs_t \<Rightarrow> bool" where
  "inside_stream self st \<longleftrightarrow>
     outputs_ok st \<and> s_transport_owner st = self \<and> self \<noteq> 0 \<and>
     s_transport_mutex st = (if scheduler_started st then Some self else None)"

lemma raw_begin_enters:
  assumes "may_enter self st"
  shows "\<exists>st1. esp_stdio_log_vfs_raw_stream_begin self st = Some (ESP_OK, st1) \<and> inside_stream self st1 \<and>
     active_outputs st1 = active_outputs st \<and> io_out st1 = io_out st"
  using assms lock_free [of st self]
  by (auto simp: esp_stdio_log_vfs_raw_stream_begin_def may_enter_def inside_stream_def active_outputs_cong)

lemma raw_end_leaves:
  assumes "inside_stream self st"
  shows "\<exists>st'. esp_stdio_log_vfs_raw_stream_end self st = (ESP_OK, st') \<and> may_enter self st' \<and>
     active_outputs st' = active_outputs st \<and> io_out st' = io_out st"
  using assms
  by (auto simp: esp_stdio_log_vfs_raw_stream_end_def inside_stream_def may_enter_def
      esp_stdio_log_vfs_transport_unlock_def active_outputs_cong)

lemma io_step_inside: "io_step st st' \<Longrightarrow> inside_stream self st' = inside_stream self st"
  by (simp add: inside_stream_def io_step_outputs_ok) (simp add: io_step_def)

lemma raw_write_result:
  assumes w: "write_ok w" and "inside_stream self st"
  shows "\<exists>ok st'. esp_stdio_log_vfs_raw_stream_write w self (Some c) (length c) st =
       Some (if ok then ESP_OK else ESP_FAIL, st') \<and> sent_to w (active_outputs st) c True st ok st'"
proof -
  have "distinct (filter (\<lambda>fd. fd \<ge> 0) (take (output_count st) (outputs st)))"
    using assms(2) by (simp add: inside_stream_def outputs_ok_def active_outputs_def)
  from write_outputs_result [OF w this, of c True st] obtain ok st' where
    "write_outputs w (take (output_count st) (outputs st)) c True st = Some (ok, st')"
    "sent_to w (active_outputs st) c True st ok st'" by (auto simp: active_outputs_def)
  moreover have "s_transport_owner st = self" using assms(2) by (simp add: inside_stream_def)
  ultimately show ?thesis
    by (intro exI [of _ ok] exI [of _ st']) (simp add: esp_stdio_log_vfs_raw_stream_write_def)
qed

lemma raw_writes_result:
  assumes w: "write_ok w"
  shows "inside_stream self st \<Longrightarrow>
     \<exists>ok' st'. raw_writes w self cs ok st = Some (ok', st') \<and> inside_stream self st' \<and>
       sent_to w (active_outputs st) (concat cs) ok st ok' st'"
proof (induction cs arbitrary: ok st)
  case Nil
  then show ?case by (simp add: sent_to_Nil)
next
  case (Cons c cs)
  obtain ok1 st1 where one: "esp_stdio_log_vfs_raw_stream_write w self (Some c) (length c) st =
       Some (if ok1 then ESP_OK else ESP_FAIL, st1)" "sent_to w (active_outputs st) c True st ok1 st1"
    using raw_write_result [OF w Cons.prems] by blast
  have ins: "inside_stream self st1" using one(2) Cons.prems io_step_inside [of st st1] unfolding sent_to_def by blast
  obtain ok' st' where rest: "raw_writes w self cs (ok \<and> ok1) st1 = Some (ok', st')" "inside_stream self st'"
    "sent_to w (active_outputs st1) (concat cs) (ok \<and> ok1) st1 ok' st'"
    using Cons.IH [OF ins] by blast
  have "sent_to w (active_outputs st) c ok st (ok \<and> ok1) st1" using one(2) by (auto simp: sent_to_def)
  from sent_to_trans [OF this rest(3)] show ?case using one(1) rest(1,2)
    by (cases ok1) auto
qed

section \<open>The output table\<close>

lemma active_snoc:
  assumes "outputs_ok st" and "output_count st < 3" and "fd \<ge> 0" and "fd \<notin> set (active_outputs st)"
  shows "active_outputs (st\<lparr>outputs := (outputs st)[output_count st := fd], output_count := Suc (output_count st)\<rparr>) =
      active_outputs st @ [fd]"
  using assms by (simp add: outputs_ok_def active_outputs_def take_Suc_conv_app_nth)

lemma lock_unlock_free:
  "s_transport_mutex st = None \<Longrightarrow>
     esp_stdio_log_vfs_transport_unlock (st\<lparr>s_transport_mutex := (if scheduler_started st then Some self else None)\<rparr>) = st"
  by (cases st) (simp add: esp_stdio_log_vfs_transport_unlock_def)

lemma add_output_cases:
  assumes "s_transport_mutex st = None"
  shows "esp_stdio_log_vfs_add_output self True fd st =
     Some (if output_count st \<ge> 3 then (ESP_ERR_NO_MEM, st)
           else if fd \<ge> 0
           then (ESP_OK, st\<lparr>outputs := (outputs st)[output_count st := fd],
                            output_count := Suc (output_count st)\<rparr>)
           else (ESP_OK, st))"
  using assms unfolding esp_stdio_log_vfs_add_output_def lock_free [OF assms]
  by (cases st) (auto simp: esp_stdio_log_vfs_transport_unlock_def)

section \<open>Properties\<close>

text \<open>C9: A task that finds the transport free writes a frame of at most 3072 payload bytes: the call
  returns, whatever the descriptors do short of being interrupted for ever, and leaves the transport
  free. When it reports success, every output has taken exactly one frame and no other descriptor
  anything; a reader of that output, whatever was on it before, finds the frame's type and payload
  next and goes on behind it. It reports success whenever the outputs accept what is written.\<close>

theorem write_frame_is_read_back:
  assumes "write_ok w" and "may_enter self st" and "length payload \<le> 3072"
  shows "\<exists>err st'. esp_stdio_log_vfs_write_frame w self type (Some payload) (length payload) st = Some (err, st') \<and>
     may_enter self st' \<and>
     (err = ESP_OK \<and> sent_to w (active_outputs st) (slip_frame type payload) True st True st' \<and>
        list_all (\<lambda>fd. \<exists>before. \<forall>rest. decode_stream (io_out st' fd @ rest) =
           before @ (type, payload) # decode_stream rest) (active_outputs st)
      \<or> err = ESP_FAIL \<and> accepting w = False)"
proof -
  obtain ok st' where run: "esp_stdio_log_vfs_write_frame w self type (Some payload) (length payload) st =
       Some (if ok then ESP_OK else ESP_FAIL, st')"
    and sent: "sent_to w (active_outputs st) (slip_frame type payload) True st ok st'"
    using write_frame_result [OF assms] by blast
  have "\<exists>before. \<forall>rest. decode_stream (io_out st' fd @ rest) = before @ (type, payload) # decode_stream rest"
    if "ok" and "fd \<in> set (active_outputs st)" for fd
  proof -
    have "io_out st' fd = io_out st fd @ slip_frame type payload"
      using sent that by (simp add: sent_to_def)
    then show ?thesis using decode_stream_frame [of "io_out st fd" type payload] by simp
  qed
  then show ?thesis using run sent sent_to_enter [OF sent, of self] assms(2)
    by (cases ok) (auto simp: sent_to_def list_all_iff)
qed

theorem write_frame_is_read_back_witness:
  "\<exists>err st'. esp_stdio_log_vfs_write_frame takes_some 7 1 (Some [0xa5, 10]) (length [0xa5, 10 :: u8])
       demo_transport = Some (err, st') \<and>
     may_enter 7 st' \<and>
     (err = ESP_OK \<and> sent_to takes_some (active_outputs demo_transport) (slip_frame 1 [0xa5, 10]) True
          demo_transport True st' \<and>
        list_all (\<lambda>fd. \<exists>before. \<forall>rest. decode_stream (io_out st' fd @ rest) =
           before @ (1, [0xa5, 10]) # decode_stream rest) (active_outputs demo_transport)
      \<or> err = ESP_FAIL \<and> accepting takes_some = False)"
  by (rule write_frame_is_read_back [OF takes_some_ok(1) demo_transport_enter]) simp

text \<open>C33: A write to the text device by a task that finds the transport free returns and leaves the
  transport free. When it reports the full length, every output has been given consecutive text
  frames whose payloads, put together, are the data; otherwise it reports -1, which it does not do
  while the outputs accept what is written.\<close>

theorem text_device_loses_nothing:
  assumes "write_ok w" and "may_enter self st"
  shows "\<exists>n st'. esp_stdio_log_vfs_write w self (Some data) (length data) st = Some (n, st') \<and>
     may_enter self st' \<and>
     (n = int (length data) \<and> (\<exists>parts. concat parts = data \<and>
        list_all (\<lambda>fd. io_out st' fd = io_out st fd @ concat (map (slip_frame 2) parts)) (active_outputs st))
      \<or> n = - 1 \<and> accepting w = False)"
proof -
  obtain ok st' where loop: "vfs_write_loop w self data st = Some (if ok then ESP_OK else ESP_FAIL, st')"
    and enter: "may_enter self st'" and acc: "accepting w \<longrightarrow> ok"
    and sent: "ok \<longrightarrow> sent_to w (active_outputs st) (concat (map (slip_frame 2) (pieces data))) True st True st'"
    using vfs_write_loop_result [OF assms] by blast
  have run: "esp_stdio_log_vfs_write w self (Some data) (length data) st =
      Some (if ok then int (length data) else - 1, st')"
    using loop by (simp add: esp_stdio_log_vfs_write_def)
  show ?thesis
  proof (cases ok)
    case True
    then have "list_all (\<lambda>fd. io_out st' fd = io_out st fd @ concat (map (slip_frame 2) (pieces data)))
        (active_outputs st)"
      using sent sent_to_out by (simp add: list_all_iff)
    then show ?thesis using True run enter concat_pieces [of data] by auto
  next
    case False
    then show ?thesis using run enter acc by auto
  qed
qed

theorem text_device_loses_nothing_witness:
  "\<exists>n st'. esp_stdio_log_vfs_write takes_some 7 (Some (replicate 4000 65)) (length (replicate 4000 (65 :: u8)))
       demo_transport = Some (n, st') \<and>
     may_enter 7 st' \<and>
     (n = int (length (replicate 4000 (65 :: u8))) \<and> (\<exists>parts. concat parts = replicate 4000 65 \<and>
        list_all (\<lambda>fd. io_out st' fd = io_out demo_transport fd @ concat (map (slip_frame 2) parts))
          (active_outputs demo_transport))
      \<or> n = - 1 \<and> accepting takes_some = False)"
  by (rule text_device_loses_nothing [OF takes_some_ok(1) demo_transport_enter])

text \<open>C19: With the scheduler running and outputs that fail no write, a raw stream gives its task the
  outputs to itself. Between begin and end, a frame or a second
  stream of the same task is refused and changes nothing; another task's frame waits (its call does
  not return in this state), and another task cannot write into the stream or
  end it. After the end, the outputs have taken exactly the bytes written and the transport is free.\<close>

theorem raw_stream_is_exclusive:
  assumes "write_ok w" and "may_enter self st" and "scheduler_started st"
    and "accepting w" and "other \<noteq> self" and "other \<noteq> 0" and "length payload \<le> 3072"
  shows "\<exists>st1 st2 st3.
     esp_stdio_log_vfs_raw_stream_begin self st = Some (ESP_OK, st1) \<and>
     raw_writes w self parts True st1 = Some (True, st2) \<and>
     esp_stdio_log_vfs_write_frame w self type (Some payload) (length payload) st2 = Some (ESP_FAIL, st2) \<and>
     esp_stdio_log_vfs_raw_stream_begin self st2 = Some (ESP_FAIL, st2) \<and>
     esp_stdio_log_vfs_write_frame w other type (Some payload) (length payload) st2 = None \<and>
     esp_stdio_log_vfs_raw_stream_write w other (Some payload) (length payload) st2 =
       Some (ESP_ERR_INVALID_STATE, st2) \<and>
     esp_stdio_log_vfs_raw_stream_end other st2 = (ESP_ERR_INVALID_STATE, st2) \<and>
     esp_stdio_log_vfs_raw_stream_end self st2 = (ESP_OK, st3) \<and> may_enter other st3 \<and>
     sent_to w (active_outputs st) (concat parts) True st True st3"
proof -
  obtain st1 where st1: "esp_stdio_log_vfs_raw_stream_begin self st = Some (ESP_OK, st1)" "inside_stream self st1"
    "active_outputs st1 = active_outputs st" "io_out st1 = io_out st" using raw_begin_enters [OF assms(2)] by blast
  obtain ok st2 where st2: "raw_writes w self parts True st1 = Some (ok, st2)" "inside_stream self st2"
    "sent_to w (active_outputs st1) (concat parts) True st1 ok st2"
    using raw_writes_result [OF assms(1) st1(2)] by blast
  obtain st3 where st3: "esp_stdio_log_vfs_raw_stream_end self st2 = (ESP_OK, st3)" "may_enter self st3"
    "io_out st3 = io_out st2" using raw_end_leaves [OF st2(2)] by blast
  have ok: ok using st2(3) assms(4) by (simp add: sent_to_def)
  have started: "scheduler_started st2"
    using st2(3) st1(1) assms(3) lock_free [of st self] assms(2)
    by (auto simp: sent_to_def io_step_def esp_stdio_log_vfs_raw_stream_begin_def may_enter_def split: if_splits)
  have inside: "s_transport_owner st2 = self" "s_transport_mutex st2 = Some self"
    using st2(2) started by (simp_all add: inside_stream_def)
  have same: "sent_to w (active_outputs st) (concat parts) True st True st3"
  proof -
    have "st1 = st\<lparr>s_transport_mutex := Some self, s_transport_owner := self\<rparr>"
      using st1(1) lock_free [of st self] assms(2,3)
      by (auto simp: esp_stdio_log_vfs_raw_stream_begin_def may_enter_def split: if_splits)
    moreover have "st3 = st2\<lparr>s_transport_owner := 0, s_transport_mutex := None\<rparr>"
      using st3(1) inside(1) started
      by (simp add: esp_stdio_log_vfs_raw_stream_end_def esp_stdio_log_vfs_transport_unlock_def)
    ultimately show ?thesis using st2(3) ok st1(3) assms(2)
      by (simp add: sent_to_def io_step_def may_enter_def)
  qed
  have other: "may_enter other st3" using st3(2) assms(6) by (simp add: may_enter_def)
  show ?thesis
    using st1(1) st2(1) st3(1) ok other same inside started assms(5,7)
    by (intro exI [of _ st1] exI [of _ st2] exI [of _ st3])
      (simp add: esp_stdio_log_vfs_write_frame_def esp_stdio_log_vfs_raw_stream_begin_def
        esp_stdio_log_vfs_raw_stream_write_def esp_stdio_log_vfs_raw_stream_end_def
        esp_stdio_log_vfs_transport_lock_def Let_def)
qed

theorem raw_stream_is_exclusive_witness:
  "\<exists>st1 st2 st3.
     esp_stdio_log_vfs_raw_stream_begin 7 demo_transport = Some (ESP_OK, st1) \<and>
     raw_writes takes_some 7 [[104], [105, 10]] True st1 = Some (True, st2) \<and>
     esp_stdio_log_vfs_write_frame takes_some 7 1 (Some [1]) (length [1 :: u8]) st2 = Some (ESP_FAIL, st2) \<and>
     esp_stdio_log_vfs_raw_stream_begin 7 st2 = Some (ESP_FAIL, st2) \<and>
     esp_stdio_log_vfs_write_frame takes_some 8 1 (Some [1]) (length [1 :: u8]) st2 = None \<and>
     esp_stdio_log_vfs_raw_stream_write takes_some 8 (Some [1]) (length [1 :: u8]) st2 =
       Some (ESP_ERR_INVALID_STATE, st2) \<and>
     esp_stdio_log_vfs_raw_stream_end 8 st2 = (ESP_ERR_INVALID_STATE, st2) \<and>
     esp_stdio_log_vfs_raw_stream_end 7 st2 = (ESP_OK, st3) \<and> may_enter 8 st3 \<and>
     sent_to takes_some (active_outputs demo_transport) (concat [[104], [105, 10]]) True demo_transport True st3"
  by (rule raw_stream_is_exclusive [OF takes_some_ok(1) demo_transport_enter _ takes_some_ok(2)])
    (simp_all add: demo_transport_def esp_transport_initial_def)

text \<open>Also: Outputs are added to the end of the table until its three slots are full. Every valid path
  whose device opens is used from then on; a path that does not open is ignored, with success; a
  full table is reported and left alone. No slot outside the table is ever written, and the transport
  is free again afterwards.\<close>

theorem add_output_fills_three_slots:
  assumes "may_enter self st" and "fd \<notin> set (active_outputs st)"
  shows "\<exists>err st'. esp_stdio_log_vfs_add_output self True fd st = Some (err, st') \<and> may_enter self st' \<and>
     io_out st' = io_out st \<and>
     active_outputs st' = (if output_count st < 3 \<and> fd \<ge> 0 then active_outputs st @ [fd] else active_outputs st) \<and>
     err = (if output_count st < 3 then ESP_OK else ESP_ERR_NO_MEM)"
proof -
  have free: "s_transport_mutex st = None" and ok: "outputs_ok st" using assms(1) by (auto simp: may_enter_def)
  show ?thesis
  proof (cases "output_count st < 3 \<and> fd \<ge> 0")
    case True
    let ?st' = "st\<lparr>outputs := (outputs st)[output_count st := fd], output_count := Suc (output_count st)\<rparr>"
    have act: "active_outputs ?st' = active_outputs st @ [fd]" using active_snoc [OF ok _ _ assms(2)] True by simp
    then have "outputs_ok ?st'" using ok True assms(2) by (simp add: outputs_ok_def)
    then show ?thesis using True act assms(1) add_output_cases [OF free] by (simp add: may_enter_def)
  next
    case False
    then show ?thesis using assms(1) add_output_cases [OF free] by auto
  qed
qed

theorem add_output_fills_three_slots_witness:
  "\<exists>err st'. esp_stdio_log_vfs_add_output 7 True 6 demo_transport = Some (err, st') \<and> may_enter 7 st' \<and>
     io_out st' = io_out demo_transport \<and>
     active_outputs st' = (if output_count demo_transport < 3 \<and> (6 :: int) \<ge> 0
        then active_outputs demo_transport @ [6] else active_outputs demo_transport) \<and>
     err = (if output_count demo_transport < 3 then ESP_OK else ESP_ERR_NO_MEM)"
  by (rule add_output_fills_three_slots [OF demo_transport_enter])
    (simp add: demo_transport_def esp_transport_initial_def active_outputs_def numeral_eq_Suc)

text \<open>Also: Without a current task (before the first task exists, where the lock is deliberately a
  no-op) the transport cannot be entered: the NULL handle equals the NULL owner, so every frame and
  every stream is refused as if it were re-entrant, and nothing reaches the outputs.\<close>

theorem no_frame_without_a_task:
  assumes "s_transport_owner st = 0" and "length payload \<le> 3072"
  shows "esp_stdio_log_vfs_write_frame w 0 type (Some payload) (length payload) st = Some (ESP_FAIL, st) \<and>
     esp_stdio_log_vfs_raw_stream_begin 0 st = Some (ESP_FAIL, st)"
  using assms by (simp add: esp_stdio_log_vfs_write_frame_def esp_stdio_log_vfs_raw_stream_begin_def)

theorem no_frame_without_a_task_witness:
  "esp_stdio_log_vfs_write_frame takes_all 0 1 (Some [1]) (length [1 :: u8]) (esp_transport_initial False 0) =
       Some (ESP_FAIL, esp_transport_initial False 0) \<and>
     esp_stdio_log_vfs_raw_stream_begin 0 (esp_transport_initial False 0) =
       Some (ESP_FAIL, esp_transport_initial False 0)"
  by (rule no_frame_without_a_task) (simp_all add: esp_transport_initial_def)

text \<open>The descriptors the table holds, and those of the consoles that open.\<close>

definition table_outputs :: "esp_stdio_log_vfs_t \<Rightarrow> int list" where
  "table_outputs st = take (output_count st) (outputs st)"

definition opened_consoles :: "esp_platform \<Rightarrow> int list" where
  "opened_consoles plat = filter (\<lambda>fd. 0 \<le> fd) (console_opens plat)"

definition init_fails :: "esp_platform \<Rightarrow> bool" where
  "init_fails plat \<longleftrightarrow> register_result plat \<noteq> ESP_OK \<or> \<not> freopen_stdout plat \<or> \<not> freopen_stderr plat"

text \<open>A table of three slots that is free to enter.\<close>

definition table_free :: "esp_stdio_log_vfs_t \<Rightarrow> bool" where
  "table_free st \<longleftrightarrow> s_transport_mutex st = None \<and> length (outputs st) = 3 \<and> output_count st \<le> 3"

lemma add_output_table:
  assumes "table_free st"
  shows "\<exists>err st'. esp_stdio_log_vfs_add_output self True fd st = Some (err, st') \<and> table_free st' \<and>
     installed st' = installed st \<and>
     table_outputs st' = take 3 (table_outputs st @ (if 0 \<le> fd then [fd] else []))"
proof -
  have free: "s_transport_mutex st = None" using assms by (simp add: table_free_def)
  consider "output_count st < 3" | "output_count st = 3" using assms by (fastforce simp: table_free_def)
  then show ?thesis using assms add_output_cases [OF free, of self fd]
    by cases (auto simp: table_free_def table_outputs_def take_Suc_conv_app_nth)
qed

lemma take_take_append: "take n (take n xs @ ys) = take n (xs @ ys)"
  by (cases "n \<le> length xs") simp_all

lemma add_consoles_table:
  "table_free st \<Longrightarrow> \<exists>st'. add_consoles self fds st = Some st' \<and> table_free st' \<and> installed st' = installed st \<and>
     table_outputs st' = take 3 (table_outputs st @ filter (\<lambda>fd. 0 \<le> fd) fds)"
proof (induction fds arbitrary: st)
  case Nil
  then show ?case by (simp add: table_free_def table_outputs_def)
next
  case (Cons fd fds)
  obtain err st1 where one: "esp_stdio_log_vfs_add_output self True fd st = Some (err, st1)" "table_free st1"
    "installed st1 = installed st" "table_outputs st1 = take 3 (table_outputs st @ (if 0 \<le> fd then [fd] else []))"
    using add_output_table [OF Cons.prems] by blast
  obtain st' where rest: "add_consoles self fds st1 = Some st'" "table_free st'" "installed st' = installed st1"
    "table_outputs st' = take 3 (table_outputs st1 @ filter (\<lambda>fd. 0 \<le> fd) fds)"
    using Cons.IH [OF one(2)] by blast
  have "table_outputs st' = take 3 (table_outputs st @ filter (\<lambda>fd. 0 \<le> fd) (fd # fds))"
    unfolding rest(4) one(4) take_take_append by (simp del: take_append)
  then show ?case using rest one by simp
qed

text \<open>C40: A failed initialisation is not undone. Whether registering the device, redirecting the standard
  output or redirecting the standard error fails, the outputs of all consoles opened so far stay in the
  table. Calling the initialisation again, as its documentation allows, opens and adds every console once
  more, as far as the three slots go, and then succeeds: a console that has two entries receives
  everything twice.\<close>

theorem failed_init_registers_twice:
  assumes "table_free st" and "\<not> installed st" and "init_fails plat" and "\<not> init_fails retry"
  shows "\<exists>err st1 st2. esp_stdio_log_vfs_init plat self st = Some (err, st1) \<and> err \<noteq> ESP_OK \<and> \<not> installed st1 \<and>
     table_outputs st1 = take 3 (table_outputs st @ opened_consoles plat) \<and>
     esp_stdio_log_vfs_init retry self st1 = Some (ESP_OK, st2) \<and> installed st2 \<and>
     table_outputs st2 = take 3 (table_outputs st @ opened_consoles plat @ opened_consoles retry)"
proof -
  obtain a where a: "add_consoles self (console_opens plat) st = Some a" "table_free a" "installed a = installed st"
    "table_outputs a = take 3 (table_outputs st @ opened_consoles plat)"
    using add_consoles_table [OF assms(1)] by (auto simp: opened_consoles_def)
  have "\<exists>err st1. esp_stdio_log_vfs_init plat self st = Some (err, st1) \<and> err \<noteq> ESP_OK \<and>
      (st1 = a \<or> st1 = a\<lparr>stdout_redirected := True\<rparr>)"
    using a(1) assms(2,3) by (simp add: esp_stdio_log_vfs_init_def init_fails_def Let_def)
  then obtain err st1 where st1: "esp_stdio_log_vfs_init plat self st = Some (err, st1)" "err \<noteq> ESP_OK"
    "st1 = a \<or> st1 = a\<lparr>stdout_redirected := True\<rparr>" by blast
  then have t1: "table_free st1" "installed st1 = installed st" "table_outputs st1 = table_outputs a"
    using a(2,3) by (auto simp: table_free_def table_outputs_def)
  obtain b where b: "add_consoles self (console_opens retry) st1 = Some b"
    "table_outputs b = take 3 (table_outputs st1 @ opened_consoles retry)"
    using add_consoles_table [OF t1(1)] by (auto simp: opened_consoles_def)
  let ?st2 = "b\<lparr>stdout_redirected := True, stderr_redirected := True, log_vprintf_set := True, installed := True\<rparr>"
  have "esp_stdio_log_vfs_init retry self st1 = Some (ESP_OK, ?st2)"
    using b(1) t1(2) assms(2,4) by (simp add: esp_stdio_log_vfs_init_def init_fails_def)
  moreover have "table_outputs ?st2 = take 3 (table_outputs st @ opened_consoles plat @ opened_consoles retry)"
    using b(2) unfolding t1(3) a(4) take_take_append by (simp add: table_outputs_def)
  ultimately show ?thesis using st1(1,2) t1(2,3) a(4) assms(2) by auto
qed

text \<open>A UART that does open and a second console that does not; redirecting the standard error fails at first.\<close>

theorem failed_init_registers_twice_witness:
  "\<exists>err st1 st2. esp_stdio_log_vfs_init \<lparr>console_opens = [4, - 1], register_result = ESP_OK, freopen_stdout = True,
         freopen_stderr = False\<rparr> 7 (esp_transport_initial True 0) = Some (err, st1) \<and> err \<noteq> ESP_OK \<and> \<not> installed st1 \<and>
     table_outputs st1 = [4] \<and>
     esp_stdio_log_vfs_init \<lparr>console_opens = [5, - 1], register_result = ESP_OK, freopen_stdout = True,
         freopen_stderr = True\<rparr> 7 st1 = Some (ESP_OK, st2) \<and> installed st2 \<and> table_outputs st2 = [4, 5]"
  using failed_init_registers_twice [of "esp_transport_initial True 0"
      "\<lparr>console_opens = [4, - 1], register_result = ESP_OK, freopen_stdout = True, freopen_stderr = False\<rparr>"
      "\<lparr>console_opens = [5, - 1], register_result = ESP_OK, freopen_stdout = True, freopen_stderr = True\<rparr>" 7]
  by (simp add: esp_transport_initial_def table_free_def table_outputs_def opened_consoles_def init_fails_def)

end
