(* ===== verification/PacketSink.thy ===== *)
theory PacketSink
  imports LogStream Slip
begin

text \<open>
  The contract between the core and a packet sink: what a sink that is called back as
  \<^verbatim>\<open>on9log_sink_t\<close> documents (\<open>start_cb\<close>, any number of \<open>payload_cb\<close>, \<open>end_cb\<close>) puts on each
  of its output channels. The ESP VFS sink and the Unix stdio sink, each in its binary and its
  plain-text build, are interpretations; what follows from the contract for whole packets, and
  for everything the core sends, is proved here once.
\<close>

definition header_bytes_of :: "bytes option \<Rightarrow> bytes" where
  "header_bytes_of h = (case h of None \<Rightarrow> [] | Some hdr \<Rightarrow> hdr)"

text \<open>The binary builds: one frame per packet, nothing for a packet that does not fit a frame.\<close>

definition fits_frame :: "bytes \<Rightarrow> bytes option" where
  "fits_frame bs = (if length bs \<le> ON9LOG_TRANSPORT_MAX_PAYLOAD then Some bs else None)"

definition binary_frame :: "bytes option \<Rightarrow> bytes \<Rightarrow> bytes" where
  "binary_frame h b =
     (case fits_frame (header_bytes_of h @ b) of None \<Rightarrow> [] | Some bs \<Rightarrow> slip_frame 1 bs)"

text \<open>The plain-text builds: the payload as it is.\<close>

definition plain_frame :: "bytes option \<Rightarrow> bytes \<Rightarrow> bytes" where
  "plain_frame h b = b"

text \<open>A packet the core sends: its sinks, header and chunks.\<close>

type_synonym session_desc = "on9log_stream_t \<times> bytes option \<times> chunk list"

definition events_of :: "session_desc list \<Rightarrow> event list" where
  "events_of ps = concat (map (\<lambda>(ts, h, cs). session ts h cs) ps)"

text \<open>
  \<open>during base s h b\<close>: in state \<open>s\<close> the sink is inside a packet that began in \<open>base\<close>, with header
  \<open>h\<close> and payload \<open>b\<close> so far. \<open>reliable\<close>: the system accepts everything that is written to it.
\<close>

locale packet_sink =
  fixes start :: "bytes option \<Rightarrow> 's \<Rightarrow> 's option"
    and payload :: "bytes \<Rightarrow> nat \<Rightarrow> nat \<Rightarrow> 's \<Rightarrow> 's option"
    and finish :: "'s \<Rightarrow> 's option"
    and ready :: "'s \<Rightarrow> bool"
    and during :: "'s \<Rightarrow> 's \<Rightarrow> bytes option \<Rightarrow> bytes \<Rightarrow> bool"
    and channels :: "'s \<Rightarrow> 'c set"
    and out :: "'s \<Rightarrow> 'c \<Rightarrow> bytes"
    and header_ok :: "bytes option \<Rightarrow> bool"
    and frame :: "bytes option \<Rightarrow> bytes \<Rightarrow> bytes"
    and reliable :: bool
  assumes start_law: "ready s \<Longrightarrow> header_ok h \<Longrightarrow> \<exists>s'. start h s = Some s' \<and> during s s' h []"
    and payload_law: "during base s h b \<Longrightarrow> \<exists>s'. payload p n i s = Some s' \<and> during base s' h (b @ p)"
    and finish_law: "during base s h b \<Longrightarrow>
      \<exists>s'. finish s = Some s' \<and> ready s' \<and> channels s' = channels base \<and>
        (reliable \<longrightarrow> (\<forall>c \<in> channels base. out s' c = out base c @ frame h b))"
begin

text \<open>One callback, addressed to the sink \<open>e\<close>.\<close>

fun callback :: "on9log_sink_entry \<Rightarrow> event \<Rightarrow> 's \<Rightarrow> 's option" where
  "callback e (StartCb t h) s = (if t = e then start h s else Some s)"
| "callback e (PayloadCb t p n i) s = (if t = e then payload p n i s else Some s)"
| "callback e (EndCb t) s = (if t = e then finish s else Some s)"
| "callback e EmitLock s = Some s"
| "callback e EmitUnlock s = Some s"

primrec feed :: "on9log_sink_entry \<Rightarrow> event list \<Rightarrow> 's \<Rightarrow> 's option" where
  "feed e [] s = Some s"
| "feed e (ev # evs) s = do { s \<leftarrow> callback e ev s; feed e evs s }"

lemma feed_append: "feed e (xs @ ys) s = do { s \<leftarrow> feed e xs s; feed e ys s }"
proof (induction xs arbitrary: s)
  case Nil
  then show ?case by simp
next
  case (Cons x xs)
  then show ?case by (cases "callback e x s") simp_all
qed

lemma feed_others:
  "e \<notin> set ts \<Longrightarrow> feed e (map (\<lambda>t. StartCb t h) ts) s = Some s"
  "e \<notin> set ts \<Longrightarrow> feed e (map (\<lambda>t. PayloadCb t p n i) ts) s = Some s"
  "e \<notin> set ts \<Longrightarrow> feed e (map EndCb ts) s = Some s"
  by (induction ts) auto

lemma feed_starts:
  "distinct ts \<Longrightarrow> e \<in> set ts \<Longrightarrow> feed e (map (\<lambda>t. StartCb t h) ts) s = start h s"
  by (induction ts) (auto simp: feed_others split: option.split)

lemma feed_payloads:
  "distinct ts \<Longrightarrow> e \<in> set ts \<Longrightarrow> feed e (map (\<lambda>t. PayloadCb t p n i) ts) s = payload p n i s"
  by (induction ts) (auto simp: feed_others split: option.split)

lemma feed_ends:
  "distinct ts \<Longrightarrow> e \<in> set ts \<Longrightarrow> feed e (map EndCb ts) s = finish s"
  by (induction ts) (auto simp: feed_others split: option.split)

lemma feed_chunks:
  assumes "distinct ts" and "e \<in> set ts"
  shows "during base s h b \<Longrightarrow>
     \<exists>s'. feed e (chunks_events ts cs) s = Some s' \<and> during base s' h (b @ chunks_bytes cs)"
proof (induction cs arbitrary: s b)
  case Nil
  then show ?case by simp
next
  case (Cons c cs)
  obtain p n i where c: "c = (p, n, i)" by (cases c)
  show ?case
  proof (cases "p = []")
    case True
    then show ?thesis using Cons by (simp add: c chunks_events_def)
  next
    case False
    obtain s1 where s1: "payload p n i s = Some s1" "during base s1 h (b @ p)"
      using payload_law [OF Cons.prems] by blast
    have "chunks_events ts (c # cs) = map (\<lambda>t. PayloadCb t p n i) ts @ chunks_events ts cs"
      using False by (simp add: c chunks_events_def)
    then show ?thesis using Cons.IH [OF s1(2)] s1(1) feed_payloads [OF assms]
      by (simp add: feed_append c)
  qed
qed

text \<open>One packet.\<close>

lemma feed_session:
  assumes "distinct ts" and "e \<in> set ts" and "ready s" and "header_ok h"
  shows "\<exists>s'. feed e (session ts h cs) s = Some s' \<and> ready s' \<and> channels s' = channels s \<and>
     (reliable \<longrightarrow> (\<forall>c \<in> channels s. out s' c = out s c @ frame h (chunks_bytes cs)))"
proof -
  obtain s1 where s1: "start h s = Some s1" "during s s1 h []" using start_law assms(3,4) by blast
  obtain s2 where s2: "feed e (chunks_events ts cs) s1 = Some s2" "during s s2 h (chunks_bytes cs)"
    using feed_chunks [OF assms(1,2) s1(2)] by auto
  obtain s3 where s3: "finish s2 = Some s3" "ready s3" "channels s3 = channels s"
    "reliable \<longrightarrow> (\<forall>c \<in> channels s. out s3 c = out s c @ frame h (chunks_bytes cs))"
    using finish_law [OF s2(2)] by blast
  then show ?thesis
    by (simp add: session_def feed_append feed_starts feed_ends assms(1,2) s1(1) s2(1))
qed

text \<open>Any number of packets. A sink that is not addressed sees none of them.\<close>

definition frames_for :: "on9log_sink_entry \<Rightarrow> session_desc list \<Rightarrow> bytes" where
  "frames_for e ps = concat (map (\<lambda>(ts, h, cs). if e \<in> set ts then frame h (chunks_bytes cs) else []) ps)"

lemma feed_session_other: "e \<notin> set ts \<Longrightarrow> feed e (session ts h cs) s = Some s"
proof -
  assume e: "e \<notin> set ts"
  have "feed e (chunks_events ts cs) s = Some s"
    by (induction cs) (auto simp: chunks_events_def feed_append feed_others e)
  then show ?thesis by (simp add: session_def feed_append feed_others e)
qed

lemma feed_sessions:
  "ready s \<Longrightarrow> list_all (\<lambda>(ts, h, cs). distinct ts \<and> header_ok h) ps \<Longrightarrow>
     \<exists>s'. feed e (events_of ps) s = Some s' \<and> ready s' \<and> channels s' = channels s \<and>
       (reliable \<longrightarrow> (\<forall>c \<in> channels s. out s' c = out s c @ frames_for e ps))"
proof (induction ps arbitrary: s)
  case Nil
  then show ?case by (simp add: events_of_def frames_for_def)
next
  case (Cons p ps)
  obtain ts h cs where p: "p = (ts, h, cs)" by (cases p)
  have ok: "distinct ts" "header_ok h" using Cons.prems(2) p by simp_all
  obtain s1 where s1: "feed e (session ts h cs) s = Some s1" "ready s1" "channels s1 = channels s"
    "reliable \<longrightarrow> (\<forall>c \<in> channels s. out s1 c = out s c @ (if e \<in> set ts then frame h (chunks_bytes cs) else []))"
  proof (cases "e \<in> set ts")
    case True
    then show ?thesis using feed_session [OF ok(1) True Cons.prems(1) ok(2), of cs] that by auto
  next
    case False
    then show ?thesis using feed_session_other [OF False] Cons.prems(1) that by simp
  qed
  show ?case using Cons.IH [OF s1(2)] s1 Cons.prems(2)
    by (auto simp: p events_of_def frames_for_def feed_append)
qed

end

end
