(* ===== verification/EspVfsSink.thy ===== *)
theory EspVfsSink
  imports EspCorrect PacketSink Sinks
begin

text \<open>
  \<^verbatim>\<open>on9log_esp_vfs.c\<close>: the sink that collects a packet in a 3072-byte buffer and writes it as
  one frame of the ESP transport; in a plain-text build it passes the text through a raw stream.
  The sink's state is paired with the transport's, which its callbacks call.
\<close>

section \<open>The code\<close>

record on9log_esp_vfs_t =
  ev_installed :: bool
  ev_raw_stream_active :: bool
  ev_overflow :: bool
  ev_len :: nat
  ev_data :: bytes

definition s_on9log_esp_vfs_initial :: on9log_esp_vfs_t where
  "s_on9log_esp_vfs_initial =
     \<lparr>ev_installed = False, ev_raw_stream_active = False, ev_overflow = False, ev_len = 0,
      ev_data = replicate 3072 0\<rparr>"

primrec esp_append_loop :: "bytes \<Rightarrow> on9log_esp_vfs_t \<Rightarrow> on9log_esp_vfs_t" where
  "esp_append_loop [] v = v"
| "esp_append_loop (b # bs) v =
     esp_append_loop bs (v\<lparr>ev_data := (ev_data v)[ev_len v := b], ev_len := Suc (ev_len v)\<rparr>)"

definition on9log_esp_vfs_append :: "bytes \<Rightarrow> on9log_esp_vfs_t \<Rightarrow> on9log_esp_vfs_t" where
  "on9log_esp_vfs_append data v =
     (if ev_overflow v then v
      else if length data > length (ev_data v) - ev_len v then v\<lparr>ev_overflow := True\<rparr>
      else esp_append_loop data v)"

type_synonym esp_sink_state = "on9log_esp_vfs_t \<times> esp_stdio_log_vfs_t"

text \<open>A NULL header comes with length 0, so nothing is read through it.\<close>

definition on9log_esp_vfs_start :: "bytes option \<Rightarrow> esp_sink_state \<Rightarrow> esp_sink_state option" where
  "on9log_esp_vfs_start header s =
     (case s of (v, st) \<Rightarrow>
        Some (on9log_esp_vfs_append (case header of None \<Rightarrow> [] | Some h \<Rightarrow> h)
                (v\<lparr>ev_overflow := False, ev_len := 0\<rparr>), st))"

definition on9log_esp_vfs_payload :: "bytes \<Rightarrow> nat \<Rightarrow> nat \<Rightarrow> esp_sink_state \<Rightarrow> esp_sink_state option" where
  "on9log_esp_vfs_payload payload total_arg_cnt curr_arg_index s =
     (case s of (v, st) \<Rightarrow> Some (on9log_esp_vfs_append payload v, st))"

definition on9log_esp_vfs_end :: "write_fn \<Rightarrow> nat \<Rightarrow> esp_sink_state \<Rightarrow> esp_sink_state option" where
  "on9log_esp_vfs_end w self s =
     (case s of (v, st) \<Rightarrow>
        if \<not> ev_overflow v
        then do { (_, st) \<leftarrow> esp_stdio_log_vfs_write_frame w self ESP_STDIO_LOG_VFS_FRAME_TYPE_ON9LOG
                               (Some (take (ev_len v) (ev_data v))) (ev_len v) st;
                  Some (v, st) }
        else Some (v, st))"

text \<open>The same callbacks in a plain-text build.\<close>

definition on9log_esp_vfs_start_plain :: "nat \<Rightarrow> bytes option \<Rightarrow> esp_sink_state \<Rightarrow> esp_sink_state option" where
  "on9log_esp_vfs_start_plain self header s =
     (case s of (v, st) \<Rightarrow>
        do { (err, st) \<leftarrow> esp_stdio_log_vfs_raw_stream_begin self st;
             Some (v\<lparr>ev_raw_stream_active := (err = ESP_OK)\<rparr>, st) })"

definition on9log_esp_vfs_payload_plain ::
    "write_fn \<Rightarrow> nat \<Rightarrow> bytes \<Rightarrow> nat \<Rightarrow> nat \<Rightarrow> esp_sink_state \<Rightarrow> esp_sink_state option" where
  "on9log_esp_vfs_payload_plain w self payload total_arg_cnt curr_arg_index s =
     (case s of (v, st) \<Rightarrow>
        if ev_raw_stream_active v
        then do { (_, st) \<leftarrow> esp_stdio_log_vfs_raw_stream_write w self (Some payload) (length payload) st;
                  Some (v, st) }
        else Some (v, st))"

definition on9log_esp_vfs_end_plain :: "nat \<Rightarrow> esp_sink_state \<Rightarrow> esp_sink_state option" where
  "on9log_esp_vfs_end_plain self s =
     (case s of (v, st) \<Rightarrow>
        if ev_raw_stream_active v
        then Some (v\<lparr>ev_raw_stream_active := False\<rparr>, snd (esp_stdio_log_vfs_raw_stream_end self st))
        else Some (v, st))"

definition on9log_esp_vfs_to_esp_err :: "on9log_err_t \<Rightarrow> esp_err_t" where
  "on9log_esp_vfs_to_esp_err err =
     (case err of
        ON9LOG_OK \<Rightarrow> ESP_OK
      | ON9LOG_ERR_INVALID_ARG \<Rightarrow> ESP_ERR_INVALID_ARG
      | ON9LOG_ERR_NO_MEM \<Rightarrow> ESP_ERR_NO_MEM
      | ON9LOG_ERR_NOT_FOUND \<Rightarrow> ESP_ERR_NOT_FOUND
      | ON9LOG_ERR_INVALID_SIZE \<Rightarrow> ESP_ERR_INVALID_SIZE
      | _ \<Rightarrow> ESP_FAIL)"

text \<open>
  Initialisation: \<open>init\<close> is what \<open>on9log_init()\<close> returns, \<open>sink\<close> and \<open>ctx\<close> are the addresses of
  the static descriptor and state.
\<close>

definition on9log_esp_vfs_init ::
    "(addr \<Rightarrow> on9log_sink_desc) \<Rightarrow> on9log_err_t \<Rightarrow> esp_platform \<Rightarrow> nat \<Rightarrow> addr \<Rightarrow> addr \<Rightarrow>
       esp_sink_state \<times> on9log_state \<Rightarrow> (esp_err_t \<times> esp_sink_state \<times> on9log_state) option" where
  "on9log_esp_vfs_init desc init plat self sink ctx s =
     (case s of ((v, st), core) \<Rightarrow>
        if ev_installed v then Some (ESP_OK, (v, st), core)
        else if init \<noteq> ON9LOG_OK then Some (on9log_esp_vfs_to_esp_err init, (v, st), core)
        else do {
          (err, st) \<leftarrow> esp_stdio_log_vfs_init plat self st;
          if err \<noteq> ESP_OK then Some (err, (v, st), core)
          else
            (let (on9_err, core) = on9log_add_sink desc sink ctx core
             in if on9_err \<noteq> ON9LOG_OK
                then Some (on9log_esp_vfs_to_esp_err on9_err, (v, st), core)
                else Some (ESP_OK, (v\<lparr>ev_installed := True\<rparr>, st), core)) })"

section \<open>The binary sink keeps the contract\<close>

text \<open>
  Ready for a packet: the system keeps to POSIX, the buffer is whole, and the task may enter the
  transport.
\<close>

definition esp_ready :: "write_fn \<Rightarrow> nat \<Rightarrow> esp_sink_state \<Rightarrow> bool" where
  "esp_ready w self s \<longleftrightarrow> write_ok w \<and> length (ev_data (fst s)) = 3072 \<and> may_enter self (snd s)"

text \<open>What the buffer holds; \<open>None\<close> after an overflow.\<close>

definition esp_collected :: "on9log_esp_vfs_t \<Rightarrow> bytes option" where
  "esp_collected v = (if ev_overflow v then None else Some (take (ev_len v) (ev_data v)))"

definition esp_holds :: "bytes \<Rightarrow> on9log_esp_vfs_t \<Rightarrow> bool" where
  "esp_holds bs v \<longleftrightarrow>
     length (ev_data v) = 3072 \<and> ev_len v \<le> 3072 \<and> esp_collected v = fits_frame bs"

definition esp_during :: "write_fn \<Rightarrow> nat \<Rightarrow> esp_sink_state \<Rightarrow> esp_sink_state \<Rightarrow> bytes option \<Rightarrow> bytes \<Rightarrow> bool" where
  "esp_during w self base s h b \<longleftrightarrow>
     write_ok w \<and> snd s = snd base \<and> may_enter self (snd base) \<and> esp_holds (header_bytes_of h @ b) (fst s)"

lemma append_loop_result:
  "ev_len v + length bs \<le> length (ev_data v) \<Longrightarrow>
     esp_append_loop bs v =
       v\<lparr>ev_data := array_store (ev_len v) bs (ev_data v), ev_len := ev_len v + length bs\<rparr>"
proof (induction bs arbitrary: v)
  case Nil
  then show ?case by (simp add: array_store_def)
next
  case (Cons b bs)
  then show ?case by (simp add: array_store_def upd_conv_take_nth_drop take_Suc_conv_app_nth add.commute)
qed

lemma append_holds:
  assumes "esp_holds bs v"
  shows "esp_holds (bs @ p) (on9log_esp_vfs_append p v)"
proof (cases "ev_overflow v")
  case True
  then show ?thesis using assms
    by (auto simp: esp_holds_def on9log_esp_vfs_append_def esp_collected_def fits_frame_def split: if_splits)
next
  case False
  then have bs: "length bs \<le> 3072" "take (ev_len v) (ev_data v) = bs" "length (ev_data v) = 3072" "ev_len v \<le> 3072"
    using assms by (auto simp: esp_holds_def esp_collected_def fits_frame_def split: if_splits)
  then have "ev_len v = length bs" by (metis length_take min_absorb2)
  then show ?thesis using False bs
    by (auto simp: esp_holds_def on9log_esp_vfs_append_def esp_collected_def fits_frame_def
        append_loop_result take_array_store)
qed

lemma reset_holds: "length (ev_data v) = 3072 \<Longrightarrow> esp_holds [] (v\<lparr>ev_overflow := False, ev_len := 0\<rparr>)"
  by (simp add: esp_holds_def esp_collected_def fits_frame_def)

lemma esp_end_result:
  assumes dur: "esp_during w self base s h b"
  shows "\<exists>s'. on9log_esp_vfs_end w self s = Some s' \<and> esp_ready w self s' \<and>
     set (active_outputs (snd s')) = set (active_outputs (snd base)) \<and>
     (accepting w \<longrightarrow> (\<forall>c \<in> set (active_outputs (snd base)).
        io_out (snd s') c = io_out (snd base) c @ binary_frame h b))"
proof -
  obtain v st where s: "s = (v, st)" by (cases s)
  have w: "write_ok w" and st: "st = snd base" "may_enter self st" and v: "esp_holds (header_bytes_of h @ b) v"
    using dur by (auto simp: esp_during_def s)
  have len: "length (ev_data v) = 3072" using v by (simp add: esp_holds_def)
  show ?thesis
  proof (cases "ev_overflow v")
    case True
    then have "binary_frame h b = []"
      using v by (auto simp: binary_frame_def esp_holds_def esp_collected_def)
    then show ?thesis using True w st len by (simp add: s on9log_esp_vfs_end_def esp_ready_def)
  next
    case False
    let ?p = "take (ev_len v) (ev_data v)"
    have "fits_frame (header_bytes_of h @ b) = Some ?p" using False v by (simp add: esp_holds_def esp_collected_def)
    then have frame: "binary_frame h b = slip_frame 1 ?p" by (simp add: binary_frame_def)
    have p: "length ?p = ev_len v" "ev_len v \<le> 3072" using v by (auto simp: esp_holds_def)
    obtain ok st' where run: "esp_stdio_log_vfs_write_frame w self 1 (Some ?p) (ev_len v) st =
         Some (if ok then ESP_OK else ESP_FAIL, st')"
      and sent: "sent_to w (active_outputs st) (slip_frame 1 ?p) True st ok st'"
      using write_frame_result [OF w st(2), of ?p 1] p by auto
    have act: "active_outputs st' = active_outputs st" using sent by (simp add: sent_to_def io_step_active)
    have out: "io_out st' c = io_out st c @ slip_frame 1 ?p" if "accepting w" "c \<in> set (active_outputs st)" for c
      using sent that by (simp add: sent_to_def)
    show ?thesis using False w run len sent_to_enter [OF sent, of self] act out st frame
      by (simp add: s on9log_esp_vfs_end_def esp_ready_def)
  qed
qed

interpretation esp_sink: packet_sink
  on9log_esp_vfs_start on9log_esp_vfs_payload "on9log_esp_vfs_end w self"
  "esp_ready w self" "esp_during w self"
  "\<lambda>s. set (active_outputs (snd s))" "\<lambda>s. io_out (snd s)"
  "\<lambda>_. True" binary_frame "accepting w"
  for w self
proof (unfold_locales, goal_cases)
  case (1 s h)
  then show ?case using append_holds [OF reset_holds, of "fst s" "header_bytes_of h"]
    by (cases s) (auto simp: esp_ready_def esp_during_def on9log_esp_vfs_start_def header_bytes_of_def)
next
  case (2 base s h b p n i)
  then show ?case using append_holds [of "header_bytes_of h @ b" "fst s" p]
    by (cases s) (auto simp: esp_during_def on9log_esp_vfs_payload_def)
next
  case (3 base s h b)
  then show ?case by (rule esp_end_result)
qed

section \<open>The plain-text sink keeps the contract\<close>

definition esp_ready_plain :: "write_fn \<Rightarrow> nat \<Rightarrow> esp_sink_state \<Rightarrow> bool" where
  "esp_ready_plain w self s \<longleftrightarrow> write_ok w \<and> may_enter self (snd s)"

definition esp_during_plain ::
    "write_fn \<Rightarrow> nat \<Rightarrow> esp_sink_state \<Rightarrow> esp_sink_state \<Rightarrow> bytes option \<Rightarrow> bytes \<Rightarrow> bool" where
  "esp_during_plain w self base s h b \<longleftrightarrow>
     write_ok w \<and> ev_raw_stream_active (fst s) \<and> inside_stream self (snd s) \<and>
     active_outputs (snd s) = active_outputs (snd base) \<and>
     (accepting w \<longrightarrow> (\<forall>c \<in> set (active_outputs (snd base)). io_out (snd s) c = io_out (snd base) c @ b))"

interpretation esp_text_sink: packet_sink
  "on9log_esp_vfs_start_plain self" "on9log_esp_vfs_payload_plain w self" "on9log_esp_vfs_end_plain self"
  "esp_ready_plain w self" "esp_during_plain w self"
  "\<lambda>s. set (active_outputs (snd s))" "\<lambda>s. io_out (snd s)"
  "\<lambda>_. True" plain_frame "accepting w"
  for w self
proof (unfold_locales, goal_cases)
  case (1 s h)
  then have "may_enter self (snd s)" by (simp add: esp_ready_plain_def)
  from raw_begin_enters [OF this] 1 show ?case
    by (cases s) (auto simp: on9log_esp_vfs_start_plain_def esp_ready_plain_def esp_during_plain_def)
next
  case (2 base s h b p n i)
  obtain v st where s: "s = (v, st)" by (cases s)
  have w: "write_ok w" and ins: "inside_stream self st" and v: "ev_raw_stream_active v"
    using 2 by (auto simp: esp_during_plain_def s)
  obtain ok st' where run: "esp_stdio_log_vfs_raw_stream_write w self (Some p) (length p) st =
      Some (if ok then ESP_OK else ESP_FAIL, st')" and sent: "sent_to w (active_outputs st) p True st ok st'"
    using raw_write_result [OF w ins] by blast
  have "inside_stream self st'" using sent ins io_step_inside [of st st'] unfolding sent_to_def by blast
  moreover have "active_outputs st' = active_outputs st" using sent by (simp add: sent_to_def io_step_active)
  moreover have "io_out st' c = io_out st c @ p" if "accepting w" "c \<in> set (active_outputs st)" for c
    using sent that by (simp add: sent_to_def)
  ultimately show ?case using run v 2
    by (auto simp: s on9log_esp_vfs_payload_plain_def esp_during_plain_def)
next
  case (3 base s h b)
  then have "inside_stream self (snd s)" by (simp add: esp_during_plain_def)
  from raw_end_leaves [OF this] 3 show ?case
    by (cases s) (auto simp: on9log_esp_vfs_end_plain_def esp_during_plain_def esp_ready_plain_def plain_frame_def)
qed

end
