(* ===== verification/UnixSink.thy ===== *)
theory UnixSink
  imports PacketSink Sinks
begin

text \<open>
  \<^verbatim>\<open>on9log_unix_stdio.c\<close>: the sink that writes packets to a C stream, one frame per packet, or
  the bare text in a plain-text build.

  The C library is a parameter: \<open>putc_ok k\<close> says whether the \<open>k\<close>-th write to the stream succeeds.
  \<open>stream_out\<close> is what the stream has taken, \<open>stream_locks\<close> how often the thread holds its lock;
  another thread that holds the lock only delays the start of a packet.
\<close>

section \<open>The code\<close>

record on9log_unix_stdio_state_t =
  us_stream :: addr
  us_crc :: u16
  us_frame_payload :: bytes
  us_frame_payload_len :: nat
  us_drop_frame :: bool
  us_write_failed :: bool
  us_calls :: nat
  stream_out :: bytes
  stream_locks :: nat

definition s_stdio_initial :: on9log_unix_stdio_state_t where
  "s_stdio_initial =
     \<lparr>us_stream = NULL, us_crc = 0, us_frame_payload = replicate 3072 0, us_frame_payload_len = 0,
      us_drop_frame = False, us_write_failed = False, us_calls = 0, stream_out = [], stream_locks = 0\<rparr>"

text \<open>One library call that writes \<open>bs\<close>, and does it or not.\<close>

definition stream_put :: "(nat \<Rightarrow> bool) \<Rightarrow> bytes \<Rightarrow> on9log_unix_stdio_state_t \<Rightarrow> bool \<times> on9log_unix_stdio_state_t" where
  "stream_put putc_ok bs s =
     (let s' = s\<lparr>us_calls := Suc (us_calls s)\<rparr>
      in if putc_ok (us_calls s) then (True, s'\<lparr>stream_out := stream_out s @ bs\<rparr>) else (False, s'))"

definition on9log_unix_write_raw ::
    "(nat \<Rightarrow> bool) \<Rightarrow> u8 \<Rightarrow> on9log_unix_stdio_state_t \<Rightarrow> on9log_unix_stdio_state_t" where
  "on9log_unix_write_raw putc_ok b s =
     (if \<not> us_write_failed s
      then (let (ok, s) = stream_put putc_ok [b] s in if \<not> ok then s\<lparr>us_write_failed := True\<rparr> else s)
      else s)"

definition on9log_unix_write_escaped ::
    "(nat \<Rightarrow> bool) \<Rightarrow> u8 \<Rightarrow> on9log_unix_stdio_state_t \<Rightarrow> on9log_unix_stdio_state_t" where
  "on9log_unix_write_escaped putc_ok b s =
     (if b = 0xa5 then on9log_unix_write_raw putc_ok 0xde (on9log_unix_write_raw putc_ok 0xdb s)
      else if b = 0xc0 then on9log_unix_write_raw putc_ok 0xdc (on9log_unix_write_raw putc_ok 0xdb s)
      else if b = 0xdb then on9log_unix_write_raw putc_ok 0xdd (on9log_unix_write_raw putc_ok 0xdb s)
      else if b = 0x0d then on9log_unix_write_raw putc_ok 0xd0 (on9log_unix_write_raw putc_ok 0xdb s)
      else if b = 0x0a then on9log_unix_write_raw putc_ok 0xd1 (on9log_unix_write_raw putc_ok 0xdb s)
      else on9log_unix_write_raw putc_ok b s)"

primrec on9log_unix_write_binary_bytes ::
    "(nat \<Rightarrow> bool) \<Rightarrow> bytes \<Rightarrow> on9log_unix_stdio_state_t \<Rightarrow> on9log_unix_stdio_state_t" where
  "on9log_unix_write_binary_bytes putc_ok [] s = s"
| "on9log_unix_write_binary_bytes putc_ok (b # bs) s =
     (let s = s\<lparr>us_crc := on9log_unix_crc16_update (us_crc s) b\<rparr>
      in on9log_unix_write_binary_bytes putc_ok bs (on9log_unix_write_escaped putc_ok b s))"

definition on9log_unix_stdio_start ::
    "bytes option \<Rightarrow> on9log_unix_stdio_state_t \<Rightarrow> on9log_unix_stdio_state_t" where
  "on9log_unix_stdio_start header s =
     (let s = s\<lparr>stream_locks := Suc (stream_locks s), us_write_failed := False,
                us_frame_payload_len := 0\<rparr>
      in case header of
           None \<Rightarrow> s\<lparr>us_drop_frame := True\<rparr>
         | Some h \<Rightarrow>
             if length h > ON9LOG_TRANSPORT_MAX_PAYLOAD then s\<lparr>us_drop_frame := True\<rparr>
             else s\<lparr>us_drop_frame := False,
                    us_frame_payload := array_store 0 h (us_frame_payload s),
                    us_frame_payload_len := length h\<rparr>)"

text \<open>The core never passes a NULL payload; \<open>payload\<close> are its bytes.\<close>

definition on9log_unix_stdio_payload ::
    "bytes \<Rightarrow> nat \<Rightarrow> nat \<Rightarrow> on9log_unix_stdio_state_t \<Rightarrow> on9log_unix_stdio_state_t" where
  "on9log_unix_stdio_payload payload total_arg_cnt curr_arg_index s =
     (if \<not> us_drop_frame s
      then if length payload > ON9LOG_TRANSPORT_MAX_PAYLOAD - us_frame_payload_len s
           then s\<lparr>us_drop_frame := True, us_frame_payload_len := 0\<rparr>
           else if length payload \<noteq> 0
           then s\<lparr>us_frame_payload := array_store (us_frame_payload_len s) payload (us_frame_payload s),
                  us_frame_payload_len := us_frame_payload_len s + length payload\<rparr>
           else s
      else s)"

definition on9log_unix_stdio_end ::
    "(nat \<Rightarrow> bool) \<Rightarrow> on9log_unix_stdio_state_t \<Rightarrow> on9log_unix_stdio_state_t" where
  "on9log_unix_stdio_end putc_ok s =
     (let s = (if \<not> us_drop_frame s
               then (let s = s\<lparr>us_crc := 0xffff\<rparr>;
                         s = on9log_unix_write_raw putc_ok 0xa5 s;
                         s = on9log_unix_write_binary_bytes putc_ok [1] s;
                         s = on9log_unix_write_binary_bytes putc_ok
                               (take (us_frame_payload_len s) (us_frame_payload s)) s;
                         s = on9log_unix_write_escaped putc_ok (ucast (us_crc s AND 0xff)) s;
                         s = on9log_unix_write_escaped putc_ok (ucast (drop_bit 8 (us_crc s))) s
                     in on9log_unix_write_raw putc_ok 0xc0 s)
               else s)
      in s\<lparr>stream_locks := stream_locks s - 1\<rparr>)"

text \<open>The same callbacks in a plain-text build.\<close>

definition on9log_unix_stdio_start_plain ::
    "bytes option \<Rightarrow> on9log_unix_stdio_state_t \<Rightarrow> on9log_unix_stdio_state_t" where
  "on9log_unix_stdio_start_plain header s =
     s\<lparr>stream_locks := Suc (stream_locks s), us_write_failed := False\<rparr>"

definition on9log_unix_stdio_payload_plain ::
    "(nat \<Rightarrow> bool) \<Rightarrow> bytes \<Rightarrow> nat \<Rightarrow> nat \<Rightarrow> on9log_unix_stdio_state_t \<Rightarrow> on9log_unix_stdio_state_t" where
  "on9log_unix_stdio_payload_plain putc_ok payload total_arg_cnt curr_arg_index s =
     (if \<not> us_write_failed s
      then (let (ok, s) = stream_put putc_ok payload s in if \<not> ok then s\<lparr>us_write_failed := True\<rparr> else s)
      else s)"

definition on9log_unix_stdio_end_plain :: "on9log_unix_stdio_state_t \<Rightarrow> on9log_unix_stdio_state_t" where
  "on9log_unix_stdio_end_plain s = s\<lparr>stream_locks := stream_locks s - 1\<rparr>"

text \<open>
  Initialisation: \<open>init\<close> is what \<open>on9log_init()\<close> returns, \<open>sink\<close> and \<open>ctx\<close> are the addresses of
  the static descriptor and state.
\<close>

definition on9log_unix_stdio_init_file ::
    "(addr \<Rightarrow> on9log_sink_desc) \<Rightarrow> on9log_err_t \<Rightarrow> addr \<Rightarrow> addr \<Rightarrow> addr \<Rightarrow>
       on9log_unix_stdio_state_t \<times> on9log_state \<Rightarrow>
       on9log_err_t \<times> on9log_unix_stdio_state_t \<times> on9log_state" where
  "on9log_unix_stdio_init_file desc init sink ctx stream s =
     (case s of (us, st) \<Rightarrow>
        if stream = NULL then (ON9LOG_ERR_INVALID_ARG, us, st)
        else if init \<noteq> ON9LOG_OK then (init, us, st)
        else if us_stream us \<noteq> NULL
        then (if us_stream us = stream then ON9LOG_OK else ON9LOG_ERR_INVALID_ARG, us, st)
        else
          (let us = us\<lparr>us_stream := stream\<rparr>;
               (err, st) = on9log_add_sink desc sink ctx st
           in (err, if err \<noteq> ON9LOG_OK then us\<lparr>us_stream := NULL\<rparr> else us, st)))"

section \<open>What is written while the stream accepts it\<close>

definition puts_all :: "(nat \<Rightarrow> bool) \<Rightarrow> bool" where
  "puts_all putc_ok \<longleftrightarrow> (\<forall>k. putc_ok k)"

text \<open>
  \<open>wrote bs s s'\<close>: only the stream, the CRC and the error mark have changed, and a reliable
  stream has taken \<open>bs\<close>.
\<close>

definition wrote ::
    "(nat \<Rightarrow> bool) \<Rightarrow> bytes \<Rightarrow> on9log_unix_stdio_state_t \<Rightarrow> on9log_unix_stdio_state_t \<Rightarrow> bool" where
  "wrote putc_ok bs s s' \<longleftrightarrow>
     us_stream s' = us_stream s \<and> us_frame_payload s' = us_frame_payload s \<and>
     us_frame_payload_len s' = us_frame_payload_len s \<and> us_drop_frame s' = us_drop_frame s \<and>
     stream_locks s' = stream_locks s \<and>
     (puts_all putc_ok \<and> \<not> us_write_failed s \<longrightarrow> \<not> us_write_failed s' \<and> stream_out s' = stream_out s @ bs)"

lemma wrote_refl: "wrote putc_ok [] s s"
  by (simp add: wrote_def)

lemma wrote_trans: "wrote p a s s1 \<Longrightarrow> wrote p b s1 s2 \<Longrightarrow> wrote p (a @ b) s s2"
  by (auto simp: wrote_def)

lemma write_raw_wrote: "wrote p [b] s (on9log_unix_write_raw p b s)"
  and write_raw_crc: "us_crc (on9log_unix_write_raw p b s) = us_crc s"
  by (simp_all add: wrote_def on9log_unix_write_raw_def stream_put_def Let_def puts_all_def)

lemma write_raw2_wrote: "wrote p [a, b] s (on9log_unix_write_raw p b (on9log_unix_write_raw p a s))"
  using wrote_trans [OF write_raw_wrote [of p a s] write_raw_wrote [of p b]] by simp

lemma write_escaped_wrote: "wrote p (slip_escape b) s (on9log_unix_write_escaped p b s)"
  by (simp add: on9log_unix_write_escaped_def slip_escape_def write_raw_wrote write_raw2_wrote)

lemma write_escaped_crc: "us_crc (on9log_unix_write_escaped p b s) = us_crc s"
  by (simp add: on9log_unix_write_escaped_def write_raw_crc)

lemma wrote_crc: "wrote p bs (s\<lparr>us_crc := c\<rparr>) s' \<longleftrightarrow> wrote p bs s s'"
  by (simp add: wrote_def)

lemma write_bytes_wrote:
  "wrote p (concat (map slip_escape bs)) s (on9log_unix_write_binary_bytes p bs s)"
proof (induction bs arbitrary: s)
  case Nil
  then show ?case by (simp add: wrote_refl)
next
  case (Cons b bs)
  let ?s1 = "s\<lparr>us_crc := on9log_unix_crc16_update (us_crc s) b\<rparr>"
  have "wrote p (slip_escape b) s (on9log_unix_write_escaped p b ?s1)"
    using write_escaped_wrote [of p b ?s1] by (simp only: wrote_crc)
  from wrote_trans [OF this Cons.IH] show ?case by (simp add: Let_def)
qed

lemma write_bytes_crc:
  "us_crc (on9log_unix_write_binary_bytes p bs s) = foldl on9log_unix_crc16_update (us_crc s) bs"
  by (induction bs arbitrary: s) (simp_all add: Let_def write_escaped_crc)

lemma end_wrote:
  assumes "\<not> us_drop_frame s"
  shows "\<exists>s'. on9log_unix_stdio_end p s = s'\<lparr>stream_locks := stream_locks s' - 1\<rparr> \<and>
     wrote p (slip_frame 1 (take (us_frame_payload_len s) (us_frame_payload s))) s s'"
proof -
  let ?bs = "take (us_frame_payload_len s) (us_frame_payload s)"
  let ?s1 = "on9log_unix_write_raw p 0xa5 (s\<lparr>us_crc := 0xffff\<rparr>)"
  let ?s2 = "on9log_unix_write_binary_bytes p [1] ?s1"
  let ?s3 = "on9log_unix_write_binary_bytes p ?bs ?s2"
  let ?c = "us_crc ?s3"
  let ?s4 = "on9log_unix_write_escaped p (ucast (?c AND 0xff)) ?s3"
  let ?s5 = "on9log_unix_write_escaped p (ucast (drop_bit 8 ?c)) ?s4"
  let ?s6 = "on9log_unix_write_raw p 0xc0 ?s5"
  have p1: "wrote p [0xa5] s ?s1" using write_raw_wrote [of p "0xa5" "s\<lparr>us_crc := 0xffff\<rparr>"] by (simp only: wrote_crc)
  note p2 = wrote_trans [OF p1 write_bytes_wrote [of p "[1]"]]
  note p3 = wrote_trans [OF p2 write_bytes_wrote [of p ?bs]]
  note p4 = wrote_trans [OF p3 write_escaped_wrote [of p "ucast (?c AND 0xff)"]]
  note p5 = wrote_trans [OF p4 write_escaped_wrote [of p "ucast (drop_bit 8 ?c)"]]
  note p6 = wrote_trans [OF p5 write_raw_wrote [of p "0xc0"]]
  have c: "?c = crc16 (1 # ?bs)" by (simp add: write_bytes_crc write_raw_crc crc16_def write_escaped_crc)
  have "((((([0xa5] @ concat (map slip_escape [1])) @ concat (map slip_escape ?bs)) @
      slip_escape (ucast (?c AND 0xff))) @ slip_escape (ucast (drop_bit 8 ?c))) @ [0xc0]) = slip_frame 1 ?bs"
    unfolding c [symmetric] slip_frame_def frame_content_def using crc_escaped [of ?c] by simp
  then have w: "wrote p (slip_frame 1 ?bs) s ?s6" using p6 by (simp only:)
  have "us_frame_payload ?s2 = us_frame_payload s" "us_frame_payload_len ?s2 = us_frame_payload_len s"
    using p2 by (simp_all add: wrote_def)
  then have "on9log_unix_stdio_end p s = ?s6\<lparr>stream_locks := stream_locks ?s6 - 1\<rparr>"
    using assms by (simp add: on9log_unix_stdio_end_def Let_def write_escaped_crc)
  then show ?thesis using w by blast
qed

section \<open>The binary sink keeps the contract\<close>

definition unix_ready :: "on9log_unix_stdio_state_t \<Rightarrow> bool" where
  "unix_ready s \<longleftrightarrow> length (us_frame_payload s) = 3072 \<and> stream_locks s = 0"

definition unix_collected :: "on9log_unix_stdio_state_t \<Rightarrow> bytes option" where
  "unix_collected s =
     (if us_drop_frame s then None else Some (take (us_frame_payload_len s) (us_frame_payload s)))"

definition unix_during ::
    "on9log_unix_stdio_state_t \<Rightarrow> on9log_unix_stdio_state_t \<Rightarrow> bytes option \<Rightarrow> bytes \<Rightarrow> bool" where
  "unix_during base s h b \<longleftrightarrow>
     h \<noteq> None \<and> length (us_frame_payload s) = 3072 \<and> us_frame_payload_len s \<le> 3072 \<and>
     stream_locks s = 1 \<and> \<not> us_write_failed s \<and> stream_out s = stream_out base \<and>
     unix_collected s = fits_frame (header_bytes_of h @ b)"

lemma unix_payload_during:
  assumes "unix_during base s h b"
  shows "unix_during base (on9log_unix_stdio_payload p n i s) h (b @ p)"
proof (cases "us_drop_frame s")
  case True
  then show ?thesis using assms
    by (auto simp: unix_during_def unix_collected_def on9log_unix_stdio_payload_def fits_frame_def split: if_splits)
next
  case False
  let ?all = "header_bytes_of h @ b"
  have all: "length ?all \<le> 3072" "take (us_frame_payload_len s) (us_frame_payload s) = ?all"
    "length (us_frame_payload s) = 3072" "us_frame_payload_len s \<le> 3072"
    using assms False by (auto simp: unix_during_def unix_collected_def fits_frame_def split: if_splits)
  then have len: "us_frame_payload_len s = length ?all" by (metis length_take min_absorb2)
  have sum: "length (header_bytes_of h @ b @ p) = us_frame_payload_len s + length p" by (simp add: len)
  have take: "take (us_frame_payload_len s + length p)
      (array_store (us_frame_payload_len s) p (us_frame_payload s)) = header_bytes_of h @ b @ p"
    using all by (simp add: take_array_store)
  show ?thesis using False all(3,4) assms take
    by (auto simp: unix_during_def sum on9log_unix_stdio_payload_def unix_collected_def fits_frame_def
        simp del: length_append)
qed

interpretation unix_sink: packet_sink
  "\<lambda>h s. Some (on9log_unix_stdio_start h s)" "\<lambda>p n i s. Some (on9log_unix_stdio_payload p n i s)"
  "\<lambda>s. Some (on9log_unix_stdio_end putc_ok s)"
  unix_ready unix_during "\<lambda>_. {()}" "\<lambda>s _. stream_out s" "\<lambda>h. h \<noteq> None" binary_frame "puts_all putc_ok"
  for putc_ok
proof (unfold_locales, goal_cases)
  case (1 s h)
  then obtain y where "h = Some y" by blast
  then show ?case using 1
    by (cases "length y \<le> 3072") (auto simp: unix_ready_def unix_during_def on9log_unix_stdio_start_def
        unix_collected_def fits_frame_def header_bytes_of_def Let_def)
next
  case (2 base s h b p n i)
  then show ?case using unix_payload_during by blast
next
  case (3 base s h b)
  then show ?case
  proof (cases "us_drop_frame s")
    case True
    then have "binary_frame h b = []"
      using 3 by (auto simp: binary_frame_def unix_during_def unix_collected_def)
    then show ?thesis using True 3
      by (simp add: on9log_unix_stdio_end_def unix_during_def unix_ready_def)
  next
    case False
    then have "fits_frame (header_bytes_of h @ b) = Some (take (us_frame_payload_len s) (us_frame_payload s))"
      using 3 by (simp add: unix_during_def unix_collected_def)
    then have f: "binary_frame h b = slip_frame 1 (take (us_frame_payload_len s) (us_frame_payload s))"
      by (simp add: binary_frame_def)
    obtain s' where "on9log_unix_stdio_end putc_ok s = s'\<lparr>stream_locks := stream_locks s' - 1\<rparr>"
      "wrote putc_ok (binary_frame h b) s s'" using end_wrote [OF False, of putc_ok] f by auto
    then show ?thesis using 3 by (simp add: wrote_def unix_during_def unix_ready_def)
  qed
qed

section \<open>The plain-text sink keeps the contract\<close>

definition unix_ready_plain :: "on9log_unix_stdio_state_t \<Rightarrow> bool" where
  "unix_ready_plain s \<longleftrightarrow> stream_locks s = 0"

definition unix_during_plain ::
    "(nat \<Rightarrow> bool) \<Rightarrow> on9log_unix_stdio_state_t \<Rightarrow> on9log_unix_stdio_state_t \<Rightarrow> bytes option \<Rightarrow> bytes \<Rightarrow> bool"
  where
  "unix_during_plain putc_ok base s h b \<longleftrightarrow>
     stream_locks s = 1 \<and>
     (puts_all putc_ok \<longrightarrow> \<not> us_write_failed s \<and> stream_out s = stream_out base @ b)"

interpretation unix_text_sink: packet_sink
  "\<lambda>h s. Some (on9log_unix_stdio_start_plain h s)" "\<lambda>p n i s. Some (on9log_unix_stdio_payload_plain putc_ok p n i s)"
  "\<lambda>s. Some (on9log_unix_stdio_end_plain s)"
  unix_ready_plain "unix_during_plain putc_ok" "\<lambda>_. {()}" "\<lambda>s _. stream_out s" "\<lambda>_. True" plain_frame
  "puts_all putc_ok"
  for putc_ok
proof (unfold_locales, goal_cases)
  case (1 s h)
  then show ?case by (simp add: unix_ready_plain_def unix_during_plain_def on9log_unix_stdio_start_plain_def)
next
  case (2 base s h b p n i)
  then show ?case
    by (auto simp: unix_during_plain_def on9log_unix_stdio_payload_plain_def stream_put_def Let_def puts_all_def)
next
  case (3 base s h b)
  then show ?case
    by (simp add: unix_during_plain_def on9log_unix_stdio_end_plain_def unix_ready_plain_def plain_frame_def)
qed

end
