(* ===== verification/SinkCorrect.thy ===== *)
theory SinkCorrect
  imports EspVfsSink UnixSink LogCorrect
begin

text \<open>
  From the core to the wire: what the registered sinks put on their outputs for the packets the
  core sends, and what a reader of an output gets back.
\<close>

section \<open>Readers of an output\<close>

text \<open>What a reader finds in the frames of a list of packets; packets too large for a frame are absent.\<close>

definition packets_on_wire :: "on9log_sink_entry \<Rightarrow> session_desc list \<Rightarrow> (u8 \<times> bytes) list" where
  "packets_on_wire e ps =
     List.map_filter (\<lambda>(ts, h, cs).
       if e \<in> set ts then map_option (Pair 1) (fits_frame (header_bytes_of h @ chunks_bytes cs)) else None) ps"

definition wire_bytes :: "on9log_sink_entry \<Rightarrow> session_desc list \<Rightarrow> bytes" where
  "wire_bytes e ps = concat (map (\<lambda>(ty, p). slip_frame ty p) (packets_on_wire e ps))"

lemma esp_frames: "esp_sink.frames_for e ps = wire_bytes e ps"
  and unix_frames: "unix_sink.frames_for e ps = wire_bytes e ps"
  by (induction ps) (auto simp: esp_sink.frames_for_def unix_sink.frames_for_def wire_bytes_def
      packets_on_wire_def map_filter_simps binary_frame_def split: option.splits if_splits)

lemma decode_stream_append_frames:
  "\<exists>before. \<forall>rest. decode_stream (g @ concat (map (\<lambda>(ty, p). slip_frame ty p) fs) @ slip_frame ty p @ rest) =
     before @ (ty, p) # decode_stream rest"
  using decode_stream_frame [of "g @ concat (map (\<lambda>(ty, p). slip_frame ty p) fs)" ty p] by simp

lemma decode_stream_more:
  "decode_stream (concat (map (\<lambda>(ty, p). slip_frame ty p) fs) @ rest) = fs @ decode_stream rest"
proof (induction fs)
  case Nil
  then show ?case by simp
next
  case (Cons f fs)
  obtain ty p where f: "f = (ty, p)" by (cases f)
  have "decode_stream (slip_frame ty p @ r) = (ty, p) # decode_stream r" for r
    by (simp add: decode_stream_def deframe_frame map_filter_simps decode_frame_body)
  then show ?case using Cons by (simp add: f)
qed

section \<open>What a log call makes the core send\<close>

text \<open>The packets of a call: the DROPPED report, if one is due, and the LOG packet.\<close>

definition call_sessions ::
    "on9log_env \<Rightarrow> on9log_level_t \<Rightarrow> wire_ref \<Rightarrow> wire_ref \<Rightarrow> bytes \<Rightarrow> log_arg list \<Rightarrow> on9log_state \<Rightarrow>
       session_desc list" where
  "call_sessions env level tag fmt types vals st =
     (if s_dropped_count st = 0 then []
      else [(registered st, Some (dropped_header env st), [(le_bytes 4 (unat (s_dropped_count st)), 1, 0)])]) @
     [(registered st, Some (log_header env level tag fmt types vals (report_dropped env st)),
       log_chunks tag fmt types vals)]"

lemma call_events:
  "st_events (log_sent env level tag fmt types vals (report_dropped env st)) =
     st_events st @ events_of (call_sessions env level tag fmt types vals st)"
  by (simp add: log_sent_def call_sessions_def events_of_def report_dropped_cases registered_def)

lemma call_sessions_ok:
  "sinks_ok st \<Longrightarrow> list_all (\<lambda>(ts, h, cs). distinct ts \<and> h \<noteq> None) (call_sessions env level tag fmt types vals st)"
  by (simp add: call_sessions_def sinks_ok_def)

lemma call_on_wire:
  assumes "e \<in> set (registered st)" and "length (log_payload_bytes tag fmt types vals) \<le> 3054"
  shows "packets_on_wire e (call_sessions env level tag fmt types vals st) =
     map (\<lambda>(h, b). (1, header_bytes_of h @ b)) (dropped_packets env st) @
     [(1, log_header env level tag fmt types vals (report_dropped env st) @ log_payload_bytes tag fmt types vals)]"
  using assms by (simp add: packets_on_wire_def call_sessions_def map_filter_simps header_bytes_of_def
      fits_frame_def dropped_packets_def dropped_header_def log_header_def log_chunks_bytes)

text \<open>The text of the packets addressed to a sink.\<close>

definition text_for :: "on9log_sink_entry \<Rightarrow> session_desc list \<Rightarrow> bytes" where
  "text_for e ps = concat (map (\<lambda>(ts, h, cs). if e \<in> set ts then chunks_bytes cs else []) ps)"

lemma esp_text_frames: "esp_text_sink.frames_for e ps = text_for e ps"
  and unix_text_frames: "unix_text_sink.frames_for e ps = text_for e ps"
  by (induction ps) (auto simp: esp_text_sink.frames_for_def unix_text_sink.frames_for_def text_for_def plain_frame_def)

section \<open>Sinks for the witnesses\<close>

definition demo_esp_sink :: esp_sink_state where
  "demo_esp_sink = (s_on9log_esp_vfs_initial, demo_transport)"

definition demo_unix_sink :: on9log_unix_stdio_state_t where
  "demo_unix_sink = s_stdio_initial\<lparr>us_stream := 32, stream_out := [0xa5, 1, 2]\<rparr>"

lemma demo_sinks_ready: "esp_ready takes_some 7 demo_esp_sink" "unix_ready demo_unix_sink"
  "esp_ready_plain takes_some 7 demo_esp_sink" "unix_ready_plain demo_unix_sink"
  using demo_transport_enter takes_some_ok(1)
  by (simp_all add: esp_ready_def unix_ready_def demo_esp_sink_def demo_unix_sink_def s_stdio_initial_def
      s_on9log_esp_vfs_initial_def esp_ready_plain_def unix_ready_plain_def)

definition demo_sessions :: "session_desc list" where
  "demo_sessions =
     [([demo_sink], Some (replicate 18 1), [([10, 20], 0, 0), ([30], 0, 0)]),
      ([], Some (replicate 18 2), [([1], 0, 0)]),
      ([demo_sink], Some (replicate 18 3), [(replicate 4000 4, 0, 0)])]"

lemma demo_sessions_ok: "list_all (\<lambda>(ts, h, cs). distinct ts \<and> h \<noteq> None) demo_sessions"
  by (simp add: demo_sessions_def)

lemma sessions_distinct:
  "list_all (\<lambda>(ts, h, cs). distinct ts \<and> h \<noteq> None) ps \<Longrightarrow> list_all (\<lambda>(ts, h, cs). distinct ts \<and> True) ps"
  by (induction ps) auto

lemma esp_sink_writes:
  assumes "esp_ready w self s" and "list_all (\<lambda>(ts, h, cs). distinct ts \<and> h \<noteq> None) ps"
  shows "\<exists>s'. esp_sink.feed w self e (events_of ps) s = Some s' \<and> esp_ready w self s' \<and>
     set (active_outputs (snd s')) = set (active_outputs (snd s)) \<and>
     (accepting w \<longrightarrow> (\<forall>fd \<in> set (active_outputs (snd s)). io_out (snd s') fd = io_out (snd s) fd @ wire_bytes e ps))"
  using esp_sink.feed_sessions [OF assms(1) sessions_distinct [OF assms(2)], of e] by (simp add: esp_frames)

lemma unix_sink_writes:
  assumes "unix_ready u" and "list_all (\<lambda>(ts, h, cs). distinct ts \<and> h \<noteq> None) ps"
  shows "\<exists>u'. unix_sink.feed putc_ok e (events_of ps) u = Some u' \<and> unix_ready u' \<and>
     (puts_all putc_ok \<longrightarrow> stream_out u' = stream_out u @ wire_bytes e ps)"
  using unix_sink.feed_sessions [OF assms, of putc_ok e] by (simp add: unix_frames)

lemma decode_wire_bytes: "decode_stream (wire_bytes e ps) = packets_on_wire e ps"
  by (simp add: wire_bytes_def decode_stream_frames)

section \<open>Properties\<close>

text \<open>C10: The binary ESP sink and the binary Unix sink, fed the same packets from the core, put the same
  bytes on their outputs: one frame for every packet that is addressed to them and fits 3072 bytes
  with its header, in order, and nothing for the others. The reference decoder finds exactly those
  packets in it. Both are ready for the next packet afterwards.\<close>

theorem binary_sinks_agree:
  assumes "esp_ready w self s" and "accepting w" and "unix_ready u" and "puts_all putc_ok"
    and "list_all (\<lambda>(ts, h, cs). distinct ts \<and> h \<noteq> None) ps"
  shows "\<exists>s' u' bs.
     esp_sink.feed w self e (events_of ps) s = Some s' \<and> esp_ready w self s' \<and>
     unix_sink.feed putc_ok e (events_of ps) u = Some u' \<and> unix_ready u' \<and>
     list_all (\<lambda>fd. io_out (snd s') fd = io_out (snd s) fd @ bs) (active_outputs (snd s)) \<and>
     stream_out u' = stream_out u @ bs \<and> decode_stream bs = packets_on_wire e ps"
  using esp_sink_writes [OF assms(1,5), of e] unix_sink_writes [OF assms(3,5), of putc_ok e] assms(2,4)
    decode_wire_bytes [of e ps]
  by (auto simp: list_all_iff)

theorem binary_sinks_agree_witness:
  "\<exists>s' u' bs.
     esp_sink.feed takes_some 7 demo_sink (events_of demo_sessions) demo_esp_sink = Some s' \<and>
     esp_ready takes_some 7 s' \<and>
     unix_sink.feed (\<lambda>_. True) demo_sink (events_of demo_sessions) demo_unix_sink = Some u' \<and> unix_ready u' \<and>
     list_all (\<lambda>fd. io_out (snd s') fd = io_out (snd demo_esp_sink) fd @ bs) (active_outputs (snd demo_esp_sink)) \<and>
     stream_out u' = stream_out demo_unix_sink @ bs \<and> decode_stream bs = packets_on_wire demo_sink demo_sessions"
  by (rule binary_sinks_agree [OF demo_sinks_ready(1) takes_some_ok(2) demo_sinks_ready(2) _ demo_sessions_ok])
    (simp add: puts_all_def)

text \<open>C18: Outputs that fail, take part of a write or interrupt it do not wedge the sinks: as long as no
  output interrupts the same write for ever (the ESP transport would then retry for ever, holding the
  mutex: \<open>endless_interrupts_never_return\<close>), every callback of every packet returns and both sinks are
  ready for the next packet: the ESP sink holds neither the transport's mutex nor its ownership and the
  Unix sink does not hold the stream's lock.\<close>

theorem failing_outputs_never_wedge_a_sink:
  assumes "\<And>k fd data n. w k fd data = Wrote n \<Longrightarrow> n \<le> length data"
    and "\<And>k fd data. \<exists>j. w (k + j) fd data \<noteq> Interrupted"
    and "length (ev_data (fst s)) = 3072" and "may_enter self (snd s)" and "unix_ready u"
    and "list_all (\<lambda>(ts, h, cs). distinct ts \<and> h \<noteq> None) ps"
  shows "\<exists>s' u'. esp_sink.feed w self e (events_of ps) s = Some s' \<and>
     s_transport_mutex (snd s') = None \<and> s_transport_owner (snd s') = 0 \<and> esp_ready w self s' \<and>
     unix_sink.feed putc_ok e (events_of ps) u = Some u' \<and> stream_locks u' = 0 \<and> unix_ready u'"
proof -
  have ready: "esp_ready w self s" using assms(1-4) by (simp add: esp_ready_def write_ok_def)
  have "esp_ready w self s' \<Longrightarrow> s_transport_mutex (snd s') = None \<and> s_transport_owner (snd s') = 0" for s'
    by (simp add: esp_ready_def may_enter_def)
  moreover have "unix_ready u' \<Longrightarrow> stream_locks u' = 0" for u' by (simp add: unix_ready_def)
  ultimately show ?thesis
    using esp_sink_writes [OF ready assms(6), of e] unix_sink_writes [OF assms(5,6), of putc_ok e] by blast
qed

definition fails_late :: write_fn where
  "fails_late k fd data = (if k < 3 then Wrote (min 5 (length data)) else Failed)"

lemma fails_late_results:
  "fails_late k fd data = Wrote n \<Longrightarrow> n \<le> length data" "\<exists>j. fails_late (k + j) fd data \<noteq> Interrupted"
  by (auto simp: fails_late_def split: if_splits)

theorem failing_outputs_never_wedge_a_sink_witness:
  "\<exists>s' u'. esp_sink.feed fails_late 7 demo_sink (events_of demo_sessions) demo_esp_sink = Some s' \<and>
     s_transport_mutex (snd s') = None \<and> s_transport_owner (snd s') = 0 \<and> esp_ready fails_late 7 s' \<and>
     unix_sink.feed (\<lambda>k. k < 4) demo_sink (events_of demo_sessions) demo_unix_sink = Some u' \<and>
     stream_locks u' = 0 \<and> unix_ready u'"
  by (rule failing_outputs_never_wedge_a_sink [OF fails_late_results _ _ demo_sinks_ready(2) demo_sessions_ok])
    (use demo_sinks_ready(1) in \<open>auto simp: esp_ready_def\<close>)

text \<open>Also: In the plain-text build both sinks pass the payloads of the packets addressed to them on,
  byte for byte and in order, without framing, to every output.\<close>

theorem text_sinks_pass_text:
  assumes "esp_ready_plain w self s" and "accepting w" and "unix_ready_plain u" and "puts_all putc_ok"
    and "list_all (\<lambda>(ts, h, cs). distinct ts \<and> True) ps"
  shows "\<exists>s' u' text.
     esp_text_sink.feed self w e (events_of ps) s = Some s' \<and> esp_ready_plain w self s' \<and>
     unix_text_sink.feed putc_ok e (events_of ps) u = Some u' \<and> unix_ready_plain u' \<and>
     list_all (\<lambda>fd. io_out (snd s') fd = io_out (snd s) fd @ text) (active_outputs (snd s)) \<and>
     stream_out u' = stream_out u @ text \<and>
     text = text_for e ps"
  using esp_text_sink.feed_sessions [OF assms(1,5), of e] unix_text_sink.feed_sessions [OF assms(3,5), of putc_ok e]
    assms(2,4)
  by (auto simp: esp_text_frames unix_text_frames list_all_iff)

theorem text_sinks_pass_text_witness:
  "\<exists>s' u' text.
     esp_text_sink.feed 7 takes_some demo_sink (events_of demo_sessions) demo_esp_sink = Some s' \<and>
     esp_ready_plain takes_some 7 s' \<and>
     unix_text_sink.feed (\<lambda>_. True) demo_sink (events_of demo_sessions) demo_unix_sink = Some u' \<and>
     unix_ready_plain u' \<and>
     list_all (\<lambda>fd. io_out (snd s') fd = io_out (snd demo_esp_sink) fd @ text) (active_outputs (snd demo_esp_sink)) \<and>
     stream_out u' = stream_out demo_unix_sink @ text \<and>
     text = text_for demo_sink demo_sessions"
  by (rule text_sinks_pass_text [OF demo_sinks_ready(3) takes_some_ok(2) demo_sinks_ready(4) _
        sessions_distinct [OF demo_sessions_ok]]) (simp add: puts_all_def)

text \<open>What a call makes the sinks write, and what a reader finds behind anything.\<close>

lemma vwrite_on_wire:
  assumes "config_ok env" and "sinks_ok st" and "e \<in> set (registered st)"
    and "on9log_level_enabled env m st level tagp = Some True"
    and "call_denotes env m tagp fmtp scan types dyn args tag fmt vals"
    and "length (log_payload_bytes tag fmt types vals) \<le> 3054"
  shows "\<exists>st' ps packet.
     on9log_vwrite env m m level tagp fmtp scan (Some (types @ rest)) (word_of_nat (length types)) dyn args st = Some st' \<and>
     st_events st' = st_events st @ events_of ps \<and> list_all (\<lambda>(ts, h, cs). distinct ts \<and> h \<noteq> None) ps \<and>
     (\<forall>g. \<exists>before. \<forall>later. decode_stream ((g @ wire_bytes e ps) @ later) = before @ (1, packet) # decode_stream later) \<and>
     parse_log_packet packet = Some (log_packet_header env level tag fmt (length packet - 18) st,
       \<lparr>lm_tag = tag, lm_fmt = fmt, lm_args = vals\<rparr>)"
proof -
  let ?ps = "call_sessions env level tag fmt types vals st"
  let ?h = "log_header env level tag fmt types vals (report_dropped env st)"
  let ?b = "log_payload_bytes tag fmt types vals"
  obtain msk where den: "ref_denotes env m tagp tag" "ref_denotes env m fmtp fmt" "length types \<le> 32"
    "args_denote env m msk 0 None types args vals"
    using assms(5) by (rule call_denotesE)
  have fit: "length ?b \<le> ON9LOG_PAYLOAD_LEN_MAX" using assms(6) by simp
  have types: "list_all2 arg_has_type vals types"
    by (rule args_sent_types [OF args_denote_sent [OF den(4)]])
  have len: "length (?h @ ?b) - 18 = length ?b" by (simp add: log_header_def)
  have parse: "parse_log_packet (?h @ ?b) = Some (log_packet_header env level tag fmt (length (?h @ ?b) - 18) st,
      \<lparr>lm_tag = tag, lm_fmt = fmt, lm_args = vals\<rparr>)"
    unfolding len using parse_log_sent [OF ref_denotes_facts(1) [OF den(1) assms(1)] ref_denotes_facts(1) [OF den(2) assms(1)]
        den(3) types args_denote_small [OF den(4) assms(1)] fit enabled_level_small [OF assms(4)]] .
  have run: "on9log_vwrite env m m level tagp fmtp scan (Some (types @ rest)) (word_of_nat (length types)) dyn
      args st = Some (log_sent env level tag fmt types vals (report_dropped env st))"
    by (rule vwrite_fits [OF assms(1,4,5) fit call_sent_same [OF assms(5,1)]])
  let ?fs = "map (\<lambda>(h, b). (1, header_bytes_of h @ b)) (dropped_packets env st)"
  have wire: "wire_bytes e ?ps = concat (map (\<lambda>(ty, p). slip_frame ty p) ?fs) @ slip_frame 1 (?h @ ?b)"
    unfolding wire_bytes_def call_on_wire [OF assms(3,6)] by simp
  have found: "\<exists>before. \<forall>later. decode_stream ((g @ wire_bytes e ?ps) @ later) = before @ (1, ?h @ ?b) # decode_stream later"
    for g using decode_stream_append_frames [of g ?fs 1 "?h @ ?b"] by (simp add: wire)
  show ?thesis
    by (intro exI [of _ "log_sent env level tag fmt types vals (report_dropped env st)"] exI [of _ ?ps] exI [of _ "?h @ ?b"]
        conjI allI run call_events call_sessions_ok [OF assms(2)] found parse)
qed

text \<open>C1: End to end. An enabled, well-formed log call whose packet fits a transport frame makes the core
  call its sinks such that the ESP sink and the Unix sink put a frame on each of their outputs; a
  reader of any such output, whatever was on it before, finds the packet, and decodes it to the
  level, the next sequence number, the tag, the format and every argument value of the call.\<close>

theorem log_call_reaches_the_wire:
  assumes "config_ok env" and "sinks_ok st" and "e \<in> set (registered st)"
    and "on9log_level_enabled env m st level tagp = Some True"
    and "call_denotes env m tagp fmtp scan types dyn args tag fmt vals"
    and "length (log_payload_bytes tag fmt types vals) \<le> 3054"
    and "esp_ready w self s" and "accepting w" and "unix_ready u" and "puts_all putc_ok"
  shows "\<exists>st' evs s' u' packet.
     on9log_vwrite env m m level tagp fmtp scan (Some (types @ rest)) (word_of_nat (length types)) dyn
       args st = Some st' \<and>
     st_events st' = st_events st @ evs \<and>
     esp_sink.feed w self e evs s = Some s' \<and> unix_sink.feed putc_ok e evs u = Some u' \<and>
     list_all (\<lambda>fd. \<exists>before. \<forall>later. decode_stream (io_out (snd s') fd @ later) =
       before @ (1, packet) # decode_stream later) (active_outputs (snd s)) \<and>
     (\<exists>before. \<forall>later. decode_stream (stream_out u' @ later) = before @ (1, packet) # decode_stream later) \<and>
     parse_log_packet packet =
       Some (log_packet_header env level tag fmt (length packet - 18) st,
             \<lparr>lm_tag = tag, lm_fmt = fmt, lm_args = vals\<rparr>)"
proof -
  obtain st' ps packet where run: "on9log_vwrite env m m level tagp fmtp scan (Some (types @ rest))
      (word_of_nat (length types)) dyn args st = Some st'" "st_events st' = st_events st @ events_of ps"
    and ok: "list_all (\<lambda>(ts, h, cs). distinct ts \<and> h \<noteq> None) ps"
    and found: "\<forall>g. \<exists>before. \<forall>later. decode_stream ((g @ wire_bytes e ps) @ later) = before @ (1, packet) # decode_stream later"
    and parse: "parse_log_packet packet = Some (log_packet_header env level tag fmt (length packet - 18) st,
      \<lparr>lm_tag = tag, lm_fmt = fmt, lm_args = vals\<rparr>)"
    using vwrite_on_wire [OF assms(1-6)] by blast
  obtain s' where s': "esp_sink.feed w self e (events_of ps) s = Some s'"
    "\<forall>fd \<in> set (active_outputs (snd s)). io_out (snd s') fd = io_out (snd s) fd @ wire_bytes e ps"
    using esp_sink_writes [OF assms(7) ok, of e] assms(8) by blast
  obtain u' where u': "unix_sink.feed putc_ok e (events_of ps) u = Some u'" "stream_out u' = stream_out u @ wire_bytes e ps"
    using unix_sink_writes [OF assms(9) ok, of putc_ok e] assms(10) by blast
  show ?thesis
    by (intro exI [of _ st'] exI [of _ "events_of ps"] exI [of _ s'] exI [of _ u'] exI [of _ packet] conjI run s'(1) u'(1) parse)
      (use s'(2) u'(2) found in \<open>simp_all add: list_all_iff\<close>)
qed

theorem log_call_reaches_the_wire_witness:
  "\<exists>st' evs s' u' packet.
     on9log_vwrite on9log_default_env demo_mem demo_mem 3 64 128 None (Some ([1, 4] @ [0]))
       (word_of_nat (length [1 :: u8, 4])) False [VA_u32 7, VA_ptr 256] demo_state = Some st' \<and>
     st_events st' = st_events demo_state @ evs \<and>
     esp_sink.feed takes_some 7 demo_sink evs demo_esp_sink = Some s' \<and>
     unix_sink.feed (\<lambda>_. True) demo_sink evs demo_unix_sink = Some u' \<and>
     list_all (\<lambda>fd. \<exists>before. \<forall>later. decode_stream (io_out (snd s') fd @ later) =
       before @ (1, packet) # decode_stream later) (active_outputs (snd demo_esp_sink)) \<and>
     (\<exists>before. \<forall>later. decode_stream (stream_out u' @ later) = before @ (1, packet) # decode_stream later) \<and>
     parse_log_packet packet =
       Some (log_packet_header on9log_default_env 3 (ByAddress 64) (ByAddress 128) (length packet - 18) demo_state,
             \<lparr>lm_tag = ByAddress 64, lm_fmt = ByAddress 128,
              lm_args = [Arg32 7, ArgStr (Some [104, 105])]\<rparr>)"
  by (rule log_call_reaches_the_wire [OF config_ok_default demo_state_ok(1,3) demo_enabled demo_call _
        demo_sinks_ready(1) takes_some_ok(2) demo_sinks_ready(2)])
    (simp_all add: puts_all_def length_log_payload ref_bytes_def)

text \<open>Also: The Unix sink is bound to one stream. Binding a fresh sink registers it with the core, unless
  the sink table is full, in which case the stream is unbound again and a later attempt may succeed.
  Once bound, binding the same stream again succeeds without effect and binding another one is
  refused without effect.\<close>

theorem unix_sink_binds_one_stream:
  assumes "sinks_ok st" and "sink_valid desc \<lparr>se_sink = sink, se_ctx = ctx\<rparr>"
    and "us_stream us = NULL" and "stream \<noteq> NULL" and "stream' \<noteq> NULL"
    and "\<lparr>se_sink = sink, se_ctx = ctx\<rparr> \<notin> set (registered st)"
  shows "\<exists>us' st'.
     on9log_unix_stdio_init_file desc ON9LOG_OK sink ctx stream (us, st) =
       (if card (set (registered st)) < length (s_sinks st) then ON9LOG_OK else ON9LOG_ERR_NO_MEM, us', st') \<and>
     (if card (set (registered st)) < length (s_sinks st)
      then us_stream us' = stream \<and>
           set (registered st') = insert \<lparr>se_sink = sink, se_ctx = ctx\<rparr> (set (registered st)) \<and>
           on9log_unix_stdio_init_file desc ON9LOG_OK sink ctx stream' (us', st') =
             (if stream' = stream then ON9LOG_OK else ON9LOG_ERR_INVALID_ARG, us', st')
      else us' = us \<and> set (registered st') = set (registered st))"
proof -
  let ?e = "\<lparr>se_sink = sink, se_ctx = ctx\<rparr>"
  obtain err st' where add: "on9log_add_sink desc sink ctx st = (err, st')" by (cases "on9log_add_sink desc sink ctx st")
  show ?thesis
  proof (cases "card (set (registered st)) < length (s_sinks st)")
    case True
    then have "err = ON9LOG_OK" "set (registered st') = insert ?e (set (registered st))"
      using sink_table.add_valid [OF assms(1,2)] add by simp_all
    then show ?thesis using True add assms(3-5) by (simp add: on9log_unix_stdio_init_file_def)
  next
    case False
    then have "err = ON9LOG_ERR_NO_MEM" "set (registered st') = set (registered st)"
      using sink_table.add_valid [OF assms(1,2)] add assms(6) by simp_all
    then show ?thesis using False add assms(3-5) by (simp add: on9log_unix_stdio_init_file_def)
  qed
qed

theorem unix_sink_binds_one_stream_witness:
  "\<exists>us' st'.
     on9log_unix_stdio_init_file (\<lambda>_. \<lparr>start_cb = 1, payload_cb = 2, end_cb = 3\<rparr>) ON9LOG_OK 8 9 32
         (s_stdio_initial, demo_state) =
       (if card (set (registered demo_state)) < length (s_sinks demo_state) then ON9LOG_OK
        else ON9LOG_ERR_NO_MEM, us', st') \<and>
     (if card (set (registered demo_state)) < length (s_sinks demo_state)
      then us_stream us' = 32 \<and>
           set (registered st') = insert \<lparr>se_sink = 8, se_ctx = 9\<rparr> (set (registered demo_state)) \<and>
           on9log_unix_stdio_init_file (\<lambda>_. \<lparr>start_cb = 1, payload_cb = 2, end_cb = 3\<rparr>) ON9LOG_OK 8 9 33 (us', st') =
             (if (33 :: addr) = 32 then ON9LOG_OK else ON9LOG_ERR_INVALID_ARG, us', st')
      else us' = s_stdio_initial \<and> set (registered st') = set (registered demo_state))"
  by (rule unix_sink_binds_one_stream [OF demo_state_ok(1)])
    (simp_all add: sink_valid_def s_stdio_initial_def demo_state_def demo_sink_def registered_def
      on9log_initial_state_def)

text \<open>Also: The ESP sink is installed once. A successful initialisation has redirected the standard streams
  and registered the sink; every further one succeeds without effect. When anything fails, the sink is
  not marked installed and the core's error reaches the caller under its ESP name.\<close>

theorem esp_sink_installs_once:
  assumes "on9log_esp_vfs_init desc init plat self sink ctx ((v, t), st) = Some (err, (v', t'), st')"
    and "sinks_ok st" and "sink_valid desc \<lparr>se_sink = sink, se_ctx = ctx\<rparr>"
    and "\<not> ev_installed v" and "\<not> installed t"
  shows "if err = ESP_OK
     then ev_installed v' \<and> installed t' \<and> stdout_redirected t' \<and> stderr_redirected t' \<and>
          \<lparr>se_sink = sink, se_ctx = ctx\<rparr> \<in> set (registered st') \<and>
          on9log_esp_vfs_init desc init2 plat2 self2 sink ctx ((v', t'), st') = Some (ESP_OK, (v', t'), st')
     else v' = v"
proof -
  obtain err2 core where add: "on9log_add_sink desc sink ctx st = (err2, core)"
    by (cases "on9log_add_sink desc sink ctx st")
  have reg: "\<lparr>se_sink = sink, se_ctx = ctx\<rparr> \<in> set (registered core)" if "err2 = ON9LOG_OK"
    using sink_table.add_valid [OF assms(2,3)] add that by (auto split: if_splits)
  have esp: "esp_stdio_log_vfs_init plat self t = Some (ESP_OK, t2) \<Longrightarrow>
      installed t2 \<and> stdout_redirected t2 \<and> stderr_redirected t2" for t2
    using assms(5) by (cases "add_consoles self (console_opens plat) t")
      (auto simp: esp_stdio_log_vfs_init_def Let_def split: if_splits)
  have not_ok: "on9log_esp_vfs_to_esp_err e \<noteq> ESP_OK" if "e \<noteq> ON9LOG_OK" for e
    using that by (cases e) (simp_all add: on9log_esp_vfs_to_esp_err_def)
  show ?thesis
  proof (cases "esp_stdio_log_vfs_init plat self t")
    case None
    then show ?thesis using assms(1,4) not_ok [of init] by (auto simp: on9log_esp_vfs_init_def split: if_splits)
  next
    case (Some r)
    obtain e t2 where r: "r = (e, t2)" by (cases r)
    show ?thesis
    proof (cases "init = ON9LOG_OK \<and> e = ESP_OK \<and> err2 = ON9LOG_OK")
      case True
      then have "err = ESP_OK" "v' = v\<lparr>ev_installed := True\<rparr>" "t' = t2" "st' = core"
        using assms(1,4) Some add by (simp_all add: r on9log_esp_vfs_init_def)
      then show ?thesis using True reg esp [of t2] Some by (simp add: r on9log_esp_vfs_init_def)
    next
      case False
      then have "err \<noteq> ESP_OK \<and> v' = v"
        using assms(1,4) Some add not_ok [of init] not_ok [of err2]
        by (cases "init = ON9LOG_OK"; cases "e = ESP_OK") (auto simp: r on9log_esp_vfs_init_def)
      then show ?thesis by simp
    qed
  qed
qed

definition demo_desc :: "addr \<Rightarrow> on9log_sink_desc" where
  "demo_desc a = \<lparr>start_cb = 1, payload_cb = 2, end_cb = 3\<rparr>"

definition demo_platform :: esp_platform where
  "demo_platform =
     \<lparr>console_opens = [4], register_result = ESP_OK, freopen_stdout = True, freopen_stderr = True\<rparr>"

theorem esp_sink_installs_once_witness:
  "case the (on9log_esp_vfs_init demo_desc ON9LOG_OK demo_platform 7 8 9
               ((s_on9log_esp_vfs_initial, esp_transport_initial True 0), demo_state)) of
     (err, (v', t'), st') \<Rightarrow> if err = ESP_OK
       then ev_installed v' \<and> installed t' \<and> stdout_redirected t' \<and> stderr_redirected t' \<and>
            \<lparr>se_sink = 8, se_ctx = 9\<rparr> \<in> set (registered st') \<and>
            on9log_esp_vfs_init demo_desc ON9LOG_OK demo_platform 7 8 9 ((v', t'), st') = Some (ESP_OK, (v', t'), st')
       else v' = s_on9log_esp_vfs_initial"
proof -
  let ?run = "on9log_esp_vfs_init demo_desc ON9LOG_OK demo_platform 7 8 9
      ((s_on9log_esp_vfs_initial, esp_transport_initial True 0), demo_state)"
  have ok: "sink_valid demo_desc \<lparr>se_sink = 8, se_ctx = 9\<rparr>" "\<not> ev_installed s_on9log_esp_vfs_initial"
    "\<not> installed (esp_transport_initial True 0)"
    by (simp_all add: demo_desc_def sink_valid_def s_on9log_esp_vfs_initial_def esp_transport_initial_def)
  have "?run \<noteq> None"
    by (simp add: on9log_esp_vfs_init_def demo_platform_def esp_stdio_log_vfs_init_def add_output_cases
        s_on9log_esp_vfs_initial_def esp_transport_initial_def Let_def split: prod.split)
  then obtain err v' t' st' where "?run = Some (err, (v', t'), st')" by auto
  from esp_sink_installs_once [OF this demo_state_ok(1) ok, of ON9LOG_OK demo_platform 7] this
  show ?thesis by simp
qed

end
