(* ===== verification/BuildId.thy ===== *)
theory BuildId
  imports Memory
begin

text \<open>
  \<open>on9log_find_gnu_build_id\<close> of \<^verbatim>\<open>on9log.c\<close>: the search for the GNU build ID in a segment of ELF
  notes. A note is three 32-bit words (the sizes of name and description, the type), the name
  and the description, both padded to the segment's alignment. The bytes come from outside the
  program, so the search must not trust any size in them.

  \<open>size_t\<close> is a natural number: no object is so large that adding a note's header and the
  padding to its length would wrap. The words are read as they lie in memory, which is little
  endian on every supported target.
\<close>

section \<open>The code\<close>

abbreviation (input) NOTE_GNU_BUILD_ID :: nat where "NOTE_GNU_BUILD_ID \<equiv> 3"
abbreviation (input) NOTE_HEADER_LEN :: nat where "NOTE_HEADER_LEN \<equiv> 12"

text \<open>\<^verbatim>\<open>(x + align - 1u) & ~(align - 1u)\<close>, for a power of two\<close>

definition align_up :: "nat \<Rightarrow> nat \<Rightarrow> nat" where
  "align_up align x = (x + align - 1) div align * align"

definition rd_u32 :: "mem \<Rightarrow> addr \<Rightarrow> nat option" where
  "rd_u32 m p = map_option le_val (rd_bytes m p 4)"

definition GNU_NAME :: bytes where
  "GNU_NAME = [71, 78, 85, 0]"

text \<open>
  \<^verbatim>\<open>while (left >= header_len)\<close>. The result is the returned length and the bytes copied to
  \<open>id\<close>; with an advance of 0 the loop would not end.
\<close>

partial_function (option) build_id_loop ::
    "mem \<Rightarrow> nat \<Rightarrow> nat \<Rightarrow> addr \<Rightarrow> nat \<Rightarrow> (nat \<times> bytes) option" where
  "build_id_loop m align cap p left =
     (if left \<ge> NOTE_HEADER_LEN
      then Option.bind (rd_u32 m p) (\<lambda>namesz.
           Option.bind (rd_u32 m (p + 4)) (\<lambda>descsz.
           Option.bind (rd_u32 m (p + 8)) (\<lambda>type.
             if namesz > left - NOTE_HEADER_LEN then Some (0, [])
             else
               (let desc_off = align_up align (NOTE_HEADER_LEN + namesz)
                in if desc_off > left \<or> descsz > left - desc_off then Some (0, [])
                   else Option.bind
                     (if type = NOTE_GNU_BUILD_ID \<and> namesz = 4
                      then map_option (\<lambda>name. name = GNU_NAME) (rd_bytes m (p + NOTE_HEADER_LEN) 4)
                      else Some False)
                     (\<lambda>found.
                        if found
                        then (if descsz = 0 \<or> descsz > cap then Some (0, [])
                              else map_option (Pair descsz) (rd_bytes m (p + desc_off) descsz))
                        else
                          (let next_off = align_up align (desc_off + descsz)
                           in if next_off \<ge> left then Some (0, [])
                              else build_id_loop m align cap (p + next_off) (left - next_off)))))))
      else Some (0, []))"

definition on9log_find_gnu_build_id ::
    "mem \<Rightarrow> addr \<Rightarrow> nat \<Rightarrow> nat \<Rightarrow> addr \<Rightarrow> nat \<Rightarrow> (nat \<times> bytes) option" where
  "on9log_find_gnu_build_id m notes len align ident cap =
     (if notes = NULL \<or> ident = NULL then Some (0, [])
      else build_id_loop m (if align \<noteq> 8 then 4 else align) cap notes len)"

section \<open>Notes\<close>

text \<open>The reference: a note, its bytes, and the build ID of a list of notes.\<close>

record elf_note =
  note_type :: nat
  note_name :: bytes
  note_desc :: bytes

definition pad_to :: "nat \<Rightarrow> bytes \<Rightarrow> bytes" where
  "pad_to align bs = bs @ replicate (align_up align (length bs) - length bs) 0"

definition note_bytes :: "nat \<Rightarrow> elf_note \<Rightarrow> bytes" where
  "note_bytes align n =
     pad_to align (pad_to align (le_bytes 4 (length (note_name n)) @ le_bytes 4 (length (note_desc n)) @
       le_bytes 4 (note_type n) @ note_name n) @ note_desc n)"

definition note_ok :: "elf_note \<Rightarrow> bool" where
  "note_ok n \<longleftrightarrow>
     length (note_name n) < 2 ^ 32 \<and> length (note_desc n) < 2 ^ 32 \<and> note_type n < 2 ^ 32"

definition is_build_id :: "elf_note \<Rightarrow> bool" where
  "is_build_id n \<longleftrightarrow> note_type n = NOTE_GNU_BUILD_ID \<and> note_name n = GNU_NAME"

fun first_build_id :: "nat \<Rightarrow> elf_note list \<Rightarrow> bytes" where
  "first_build_id cap [] = []"
| "first_build_id cap (n # ns) =
     (if is_build_id n then (if length (note_desc n) \<le> cap then note_desc n else [])
      else first_build_id cap ns)"

section \<open>Alignment and reading\<close>

text \<open>The two alignments the code uses.\<close>

definition align_ok :: "nat \<Rightarrow> bool" where
  "align_ok a \<longleftrightarrow> a = 4 \<or> a = 8"

lemma align_up_bounds: "align_ok a \<Longrightarrow> x \<le> align_up a x \<and> align_up a x < x + a"
  unfolding align_ok_def align_up_def by (elim disjE) (simp, presburger)+

lemma align_up_dvd: "align_ok a \<Longrightarrow> a dvd align_up a x"
  by (simp add: align_up_def)

lemma rd_bytes_sub:
  "rd_bytes m p n = Some bs \<Longrightarrow> k + j \<le> n \<Longrightarrow> rd_bytes m (p + k) j = Some (take j (drop k bs))"
proof (induction k arbitrary: p n bs)
  case 0
  then show ?case using rd_bytes_le by simp
next
  case (Suc k)
  then obtain n' where n: "n = Suc n'" by (cases n) auto
  with Suc.prems obtain b cs where b: "m p = Some b" "rd_bytes m (Suc p) n' = Some cs" "bs = b # cs"
    by (auto split: Option.bind_splits)
  then show ?case using Suc.IH [OF b(2)] Suc.prems(2) n by simp
qed

lemma rd_u32_sub:
  "rd_bytes m p n = Some bs \<Longrightarrow> k + 4 \<le> n \<Longrightarrow> rd_u32 m (p + k) = Some (le_val (take 4 (drop k bs)))"
  by (simp only: rd_u32_def rd_bytes_sub option.map)

lemma rd_u32_first: "rd_bytes m p n = Some bs \<Longrightarrow> 4 \<le> n \<Longrightarrow> rd_u32 m p = Some (le_val (take 4 bs))"
  using rd_u32_sub [of m p n bs 0] by simp

section \<open>The search ends and stays inside the segment\<close>

lemma build_id_loop_safe:
  assumes a: "align_ok a"
  shows "rd_bytes m p left = Some bs \<Longrightarrow>
     \<exists>ident. build_id_loop m a cap p left = Some (length ident, ident) \<and> length ident \<le> cap \<and>
       (\<exists>off. ident = take (length ident) (drop off bs))"
proof (induction left arbitrary: p bs rule: less_induct)
  case (less left)
  note rd = less.prems
  have none: "\<exists>ident. Some (0, []) = Some (length ident, ident) \<and> length ident \<le> cap \<and>
      (\<exists>off. ident = take (length ident) (drop off bs))"
    by (intro exI [of _ "[]"]) simp
  show ?case
  proof (cases "left \<ge> 12")
    case False
    then show ?thesis using none by (subst build_id_loop.simps) simp
  next
    case True
    let ?namesz = "le_val (take 4 bs)" and ?descsz = "le_val (take 4 (drop 4 bs))"
    let ?type = "le_val (take 4 (drop 8 bs))" and ?off = "align_up a (12 + le_val (take 4 bs))"
    let ?next = "align_up a (?off + ?descsz)"
    have hdr: "rd_u32 m p = Some ?namesz" "rd_u32 m (p + 4) = Some ?descsz" "rd_u32 m (p + 8) = Some ?type"
      using rd_u32_first [OF rd] rd_u32_sub [OF rd] True by simp_all
    show ?thesis
    proof (cases "?namesz > left - 12 \<or> ?off > left \<or> ?descsz > left - ?off")
      case True
      then show ?thesis using none hdr \<open>left \<ge> 12\<close> by (subst build_id_loop.simps) (auto simp: Let_def)
    next
      case fits: False
      obtain found where found: "(if ?type = 3 \<and> ?namesz = 4
          then map_option (\<lambda>name. name = GNU_NAME) (rd_bytes m (p + 12) 4) else Some False) = Some found"
        using rd_bytes_sub [OF rd, of 12 4] fits True by (cases "?type = 3 \<and> ?namesz = 4") auto
      show ?thesis
      proof (cases found)
        case True
        have "?off + ?descsz \<le> left" using fits by auto
        then have "rd_bytes m (p + ?off) ?descsz = Some (take ?descsz (drop ?off bs))"
          by (rule rd_bytes_sub [OF rd])
        moreover have "length (take ?descsz (drop ?off bs)) = ?descsz"
          using length_rd_bytes [OF rd] fits by simp
        ultimately show ?thesis using True found hdr fits \<open>left \<ge> 12\<close> none
          by (subst build_id_loop.simps)
            (auto simp: Let_def simp del: length_take intro!: exI [of _ "take ?descsz (drop ?off bs)"] exI [of _ ?off])
      next
        case False
        show ?thesis
        proof (cases "?next \<ge> left")
          case True
          then show ?thesis using found False hdr fits \<open>left \<ge> 12\<close> none
            by (subst build_id_loop.simps) (auto simp: Let_def)
        next
          case more: False
          have "12 \<le> ?next" using align_up_bounds [OF a, of "12 + ?namesz"] align_up_bounds [OF a, of "?off + ?descsz"] by simp
          then have "left - ?next < left" using more by simp
          moreover have "rd_bytes m (p + ?next) (left - ?next) = Some (drop ?next bs)"
            using rd_bytes_sub [OF rd, of ?next "left - ?next"] more length_rd_bytes [OF rd] by simp
          ultimately obtain ident off where
            i: "build_id_loop m a cap (p + ?next) (left - ?next) = Some (length ident, ident)"
            "length ident \<le> cap" "ident = take (length ident) (drop off (drop ?next bs))"
            using less.IH [of "left - ?next" "p + ?next" "drop ?next bs"] by auto
          then have "ident = take (length ident) (drop (off + ?next) bs)" by simp
          moreover have "build_id_loop m a cap p left = build_id_loop m a cap (p + ?next) (left - ?next)"
            using False hdr fits \<open>left \<ge> 12\<close> more found
            by (subst build_id_loop.simps) (simp add: hdr found Let_def)
          ultimately show ?thesis using i(1,2) by (intro exI [of _ ident] conjI exI [of _ "off + ?next"]) simp_all
        qed
      qed
    qed
  qed
qed

section \<open>The search finds the build ID\<close>

lemma length_pad_to: "align_ok a \<Longrightarrow> length (pad_to a bs) = align_up a (length bs)"
  using align_up_bounds [of a "length bs"] by (simp add: pad_to_def)

lemma pad_to_prefix: "take (length bs) (pad_to a bs) = bs"
  by (simp add: pad_to_def)

text \<open>Where the parts of a note lie.\<close>

lemma note_layout:
  assumes "align_ok a" and "note_ok n"
  defines "off \<equiv> align_up a (12 + length (note_name n))"
  shows "length (note_bytes a n) = align_up a (off + length (note_desc n))"
    and "le_val (take 4 (note_bytes a n @ rest)) = length (note_name n)"
    and "le_val (take 4 (drop 4 (note_bytes a n @ rest))) = length (note_desc n)"
    and "le_val (take 4 (drop 8 (note_bytes a n @ rest))) = note_type n"
    and "take (length (note_name n)) (drop 12 (note_bytes a n @ rest)) = note_name n"
    and "take (length (note_desc n)) (drop off (note_bytes a n @ rest)) = note_desc n"
proof -
  let ?head = "le_bytes 4 (length (note_name n)) @ le_bytes 4 (length (note_desc n)) @
       le_bytes 4 (note_type n) @ note_name n"
  have len: "length ?head = 12 + length (note_name n)" by simp
  then have head: "length (pad_to a ?head) = off" by (simp add: length_pad_to assms)
  then show "length (note_bytes a n) = align_up a (off + length (note_desc n))"
    using assms(1) by (simp add: note_bytes_def length_pad_to)
  obtain pad where pad: "pad_to a ?head = ?head @ pad" by (simp add: pad_to_def)
  obtain pad2 where all: "note_bytes a n @ rest = (pad_to a ?head @ note_desc n) @ pad2"
    by (simp add: note_bytes_def pad_to_def)
  have val: "le_val (le_bytes 4 v) = v" if "v < 2 ^ 32" for v using that by (simp add: le_val_le_bytes)
  show "le_val (take 4 (note_bytes a n @ rest)) = length (note_name n)"
    "le_val (take 4 (drop 4 (note_bytes a n @ rest))) = length (note_desc n)"
    "le_val (take 4 (drop 8 (note_bytes a n @ rest))) = note_type n"
    "take (length (note_name n)) (drop 12 (note_bytes a n @ rest)) = note_name n"
    using assms(2) unfolding all pad by (simp_all add: note_ok_def val)
  show "take (length (note_desc n)) (drop off (note_bytes a n @ rest)) = note_desc n"
    unfolding all using head by simp
qed

lemma build_id_loop_0: "build_id_loop m a cap p 0 = Some (0, [])"
  by (subst build_id_loop.simps) simp

lemma build_id_loop_finds:
  assumes a: "align_ok a"
  shows "list_all note_ok ns \<Longrightarrow> rd_bytes m p (length (concat (map (note_bytes a) ns))) = Some (concat (map (note_bytes a) ns)) \<Longrightarrow>
     build_id_loop m a cap p (length (concat (map (note_bytes a) ns))) =
       Some (length (first_build_id cap ns), first_build_id cap ns)"
proof (induction ns arbitrary: p)
  case Nil
  then show ?case by (subst build_id_loop.simps) simp
next
  case (Cons n ns)
  let ?rest = "concat (map (note_bytes a) ns)"
  let ?bs = "note_bytes a n @ ?rest"
  let ?off = "align_up a (12 + length (note_name n))"
  let ?next = "align_up a (?off + length (note_desc n))"
  have ok: "note_ok n" and rd: "rd_bytes m p (length ?bs) = Some ?bs" using Cons.prems by simp_all
  note L = note_layout(1) [OF a ok] note_layout(2-6) [OF a ok, of ?rest]
  have b: "12 + length (note_name n) \<le> ?off" "?off + length (note_desc n) \<le> ?next"
    using align_up_bounds [OF a] by simp_all
  have len: "length ?bs = ?next + length ?rest" using L(1) by simp
  then have "12 \<le> length ?bs" using b by simp
  then have hdr: "rd_u32 m p = Some (length (note_name n))" "rd_u32 m (p + 4) = Some (length (note_desc n))"
    "rd_u32 m (p + 8) = Some (note_type n)"
    using rd_u32_first [OF rd] rd_u32_sub [OF rd] L(2-4) by simp_all
  have found: "(if note_type n = 3 \<and> length (note_name n) = 4
      then map_option (\<lambda>name. name = GNU_NAME) (rd_bytes m (p + 12) 4) else Some False) = Some (is_build_id n)"
    using rd_bytes_sub [OF rd, of 12 4] L(5) b len by (auto simp: is_build_id_def GNU_NAME_def)
  have desc: "rd_bytes m (p + ?off) (length (note_desc n)) = Some (note_desc n)"
    using rd_bytes_sub [OF rd, of ?off "length (note_desc n)"] L(6) b len by simp
  have tail: "rd_bytes m (p + ?next) (length ?rest) = Some ?rest"
    using rd_bytes_sub [OF rd, of ?next "length ?rest"] L(1) len by simp
  have next_loop: "build_id_loop m a cap (p + ?next) (length ?rest) =
      Some (length (first_build_id cap ns), first_build_id cap ns)"
    using Cons.IH [OF _ tail] Cons.prems by simp
  have last: "first_build_id cap ns = []" if "length ?rest = 0"
    using next_loop build_id_loop_0 [of m a cap "p + ?next"] unfolding that by simp
  then show ?case
    using found hdr desc next_loop b len
    by (subst build_id_loop.simps) (auto simp: Let_def)
qed

end
