(* ===== verification/UnixPort.thy ===== *)
theory UnixPort
  imports BuildId PacketOps
begin

text \<open>
  The Linux and macOS port, \<^verbatim>\<open>on9log_unix_port.c\<close>: the clock, the question whether the host can
  resolve a string from its address, and the ID of the running image. The port hooks become
  the \<open>port_\<close> fields of an \<open>on9log_env\<close>, so that the core's lemmas apply to this port.

  What the loader reports about the process is a list of objects, the main executable first;
  \<open>dl_iterate_phdr\<close> is the C library's iteration over it. Addresses are 64-bit words
  (\<open>uintptr_t\<close> of the 64-bit hosts) and their sums wrap. The mutexes and \<open>sched_yield\<close> are not
  modelled here: the core's model performs the operations they protect one at a time.
\<close>

section \<open>The clock\<close>

record timespec =
  tv_sec :: int
  tv_nsec :: int

text \<open>\<open>None\<close>: \<open>clock_gettime\<close> failed.\<close>

definition on9log_port_timestamp_ms_unix :: "timespec option \<Rightarrow> u32" where
  "on9log_port_timestamp_ms_unix now =
     (case now of
        None \<Rightarrow> 0
      | Some ts \<Rightarrow>
          (let milliseconds = (word_of_int (tv_sec ts) :: u64) * 1000;
               milliseconds = milliseconds + word_of_int (tv_nsec ts) div 1000000
           in ucast milliseconds))"

section \<open>The read-only ranges of the main executable\<close>

record elf_phdr =
  p_type :: u32
  p_flags :: u32
  p_vaddr :: u64
  p_memsz :: u64
  p_align :: u64

record dl_phdr_info =
  dlpi_addr :: u64
  dlpi_phdr :: "elf_phdr list"

abbreviation (input) PT_LOAD :: u32 where "PT_LOAD \<equiv> 1"
abbreviation (input) PT_NOTE :: u32 where "PT_NOTE \<equiv> 4"
abbreviation (input) PF_W :: u32 where "PF_W \<equiv> 2"

text \<open>
  The C library's iteration: the callback is called for each object in turn until it returns a
  value other than 0. The callback updates the state \<open>d\<close> it reaches through its pointer; \<open>None\<close>
  is undefined behaviour in it.
\<close>

fun dl_iterate_phdr ::
    "(dl_phdr_info \<Rightarrow> 'd \<Rightarrow> (int \<times> 'd) option) \<Rightarrow> dl_phdr_info list \<Rightarrow> 'd \<Rightarrow> (int \<times> 'd) option" where
  "dl_iterate_phdr callback [] d = Some (0, d)"
| "dl_iterate_phdr callback (info # infos) d =
     do { (r, d) \<leftarrow> callback info d;
          if r \<noteq> 0 then Some (r, d) else dl_iterate_phdr callback infos d }"

abbreviation (input) ON9LOG_UNIX_MAX_IMAGE_RANGES :: nat where "ON9LOG_UNIX_MAX_IMAGE_RANGES \<equiv> 8"

record on9log_unix_range_t =
  range_start :: u64
  range_end :: u64

text \<open>The ranges in use; \<open>s_image_range_count\<close> is the list's length.\<close>

record on9log_unix_image =
  s_image_ranges :: "on9log_unix_range_t list"
  s_image_ranges_once :: bool

definition unix_image_initial :: on9log_unix_image where
  "unix_image_initial = \<lparr>s_image_ranges = [], s_image_ranges_once = False\<rparr>"

primrec collect_ranges :: "u64 \<Rightarrow> elf_phdr list \<Rightarrow> on9log_unix_range_t list \<Rightarrow> on9log_unix_range_t list" where
  "collect_ranges base [] ranges = ranges"
| "collect_ranges base (phdr # phdrs) ranges =
     collect_ranges base phdrs
       (if p_type phdr = PT_LOAD \<and> p_flags phdr AND PF_W = 0 \<and>
           length ranges < ON9LOG_UNIX_MAX_IMAGE_RANGES
        then (let start = base + p_vaddr phdr
              in ranges @ [\<lparr>range_start = start, range_end = start + p_memsz phdr\<rparr>])
        else ranges)"

definition on9log_unix_collect_ranges ::
    "dl_phdr_info \<Rightarrow> on9log_unix_image \<Rightarrow> (int \<times> on9log_unix_image) option" where
  "on9log_unix_collect_ranges info img =
     Some (1, img\<lparr>s_image_ranges := collect_ranges (dlpi_addr info) (dlpi_phdr info) (s_image_ranges img)\<rparr>)"

definition on9log_unix_find_image_ranges ::
    "dl_phdr_info list \<Rightarrow> on9log_unix_image \<Rightarrow> on9log_unix_image" where
  "on9log_unix_find_image_ranges objs img =
     (case dl_iterate_phdr on9log_unix_collect_ranges objs img of None \<Rightarrow> img | Some (r, img) \<Rightarrow> img)"

text \<open>The macOS build: the segment \<open>getsegmentdata\<close> reports, if there is one.\<close>

definition on9log_unix_find_image_ranges_macos ::
    "(u64 \<times> u64) option \<Rightarrow> on9log_unix_image \<Rightarrow> on9log_unix_image" where
  "on9log_unix_find_image_ranges_macos segment img =
     (case segment of
        None \<Rightarrow> img
      | Some (text, sz) \<Rightarrow>
          if text \<noteq> 0 \<and> sz \<noteq> 0
          then img\<lparr>s_image_ranges := [\<lparr>range_start = text, range_end = text + sz\<rparr>]\<rparr>
          else img)"

primrec in_ranges :: "u64 \<Rightarrow> on9log_unix_range_t list \<Rightarrow> bool" where
  "in_ranges a [] = False"
| "in_ranges a (r # rs) = (if a \<ge> range_start r \<and> a < range_end r then True else in_ranges a rs)"

text \<open>\<open>linux\<close> is the conditional compilation, \<open>finder\<close> the routine \<open>pthread_once\<close> runs.\<close>

definition on9log_port_addr_in_image_unix ::
    "bool \<Rightarrow> (on9log_unix_image \<Rightarrow> on9log_unix_image) \<Rightarrow> u64 \<Rightarrow> on9log_unix_image \<Rightarrow>
       bool \<times> on9log_unix_image" where
  "on9log_port_addr_in_image_unix linux finder a img =
     (if linux \<and> a > 0xffffffff then (False, img)
      else
        (let img = (if s_image_ranges_once img then img else (finder img)\<lparr>s_image_ranges_once := True\<rparr>)
         in (in_ranges a (s_image_ranges img), img)))"

section \<open>The image ID\<close>

record on9log_unix_build_id_t =
  bi_id :: addr
  bi_cap :: nat
  bi_len :: nat
  bi_bytes :: bytes

text \<open>\<open>bi_bytes\<close> is what has been written at \<open>bi_id\<close>.\<close>

primrec build_id_phdrs ::
    "mem \<Rightarrow> u64 \<Rightarrow> elf_phdr list \<Rightarrow> on9log_unix_build_id_t \<Rightarrow> on9log_unix_build_id_t option" where
  "build_id_phdrs m base [] result = Some result"
| "build_id_phdrs m base (phdr # phdrs) result =
     (if bi_len result \<noteq> 0 then Some result
      else if p_type phdr = PT_NOTE
      then do { (len, bs) \<leftarrow> on9log_find_gnu_build_id m (unat (base + p_vaddr phdr)) (unat (p_memsz phdr))
                               (unat (p_align phdr)) (bi_id result) (bi_cap result);
                build_id_phdrs m base phdrs
                  (result\<lparr>bi_len := len, bi_bytes := (if len = 0 then bi_bytes result else bs)\<rparr>) }
      else build_id_phdrs m base phdrs result)"

definition on9log_unix_find_build_id ::
    "mem \<Rightarrow> dl_phdr_info \<Rightarrow> on9log_unix_build_id_t \<Rightarrow> (int \<times> on9log_unix_build_id_t) option" where
  "on9log_unix_find_build_id m info result =
     do { result \<leftarrow> build_id_phdrs m (dlpi_addr info) (dlpi_phdr info) result; Some (1, result) }"

text \<open>\<open>kind\<close> is an in-out parameter; the bytes are those written to the caller's array.\<close>

definition on9log_port_image_id_linux ::
    "mem \<Rightarrow> dl_phdr_info list \<Rightarrow> addr \<Rightarrow> nat \<Rightarrow> on9log_image_id_kind_t \<Rightarrow>
       (nat \<times> bytes \<times> on9log_image_id_kind_t) option" where
  "on9log_port_image_id_linux m objs ident cap kind =
     do { (_, result) \<leftarrow> dl_iterate_phdr (on9log_unix_find_build_id m) objs
                           \<lparr>bi_id = ident, bi_cap = cap, bi_len = 0, bi_bytes = []\<rparr>;
          Some (bi_len result, bi_bytes result,
                if bi_len result \<noteq> 0 then ON9LOG_IMAGE_ID_GNU_BUILD_ID else kind) }"

text \<open>macOS: the load commands follow the 32-byte header; \<open>cmd\<close> and \<open>cmdsize\<close> lead each one.\<close>

abbreviation (input) LC_UUID :: nat where "LC_UUID \<equiv> 27"

primrec uuid_loop ::
    "nat \<Rightarrow> mem \<Rightarrow> addr \<Rightarrow> nat \<Rightarrow> on9log_image_id_kind_t \<Rightarrow> (bytes \<times> on9log_image_id_kind_t) option" where
  "uuid_loop 0 m cmd cap kind = Some ([], kind)"
| "uuid_loop (Suc left) m cmd cap kind =
     do { c \<leftarrow> rd_u32 m cmd;
          if c = LC_UUID
          then (if cap < 16 then Some ([], kind)
                else do { uuid \<leftarrow> rd_bytes m (cmd + 8) 16; Some (uuid, ON9LOG_IMAGE_ID_MACHO_UUID) })
          else do { cmdsize \<leftarrow> rd_u32 m (cmd + 4);
                    uuid_loop left m (cmd + cmdsize) cap kind } }"

definition on9log_port_image_id_macos ::
    "mem \<Rightarrow> addr \<Rightarrow> nat \<Rightarrow> on9log_image_id_kind_t \<Rightarrow> (bytes \<times> on9log_image_id_kind_t) option" where
  "on9log_port_image_id_macos m header cap kind =
     (if header = NULL then Some ([], kind)
      else do { ncmds \<leftarrow> rd_u32 m (header + 16); uuid_loop ncmds m (header + 32) cap kind })"

text \<open>A system that is neither: every address counts as one of the image, which has no ID. No Unix knows why it was reset.\<close>

definition on9log_port_addr_in_image_other :: "addr \<Rightarrow> bool" where
  "on9log_port_addr_in_image_other address = True"

definition on9log_port_image_id_other ::
    "addr \<Rightarrow> nat \<Rightarrow> on9log_image_id_kind_t \<Rightarrow> nat \<times> bytes \<times> on9log_image_id_kind_t" where
  "on9log_port_image_id_other ident cap kind = (0, [], kind)"

definition on9log_port_reset_reason_unix :: on9log_reset_reason_t where
  "on9log_port_reset_reason_unix = ON9LOG_RESET_UNKNOWN"

section \<open>The port as an environment of the core\<close>

text \<open>
  A process: its memory, the loader's list, and the answers of the monotonic clock. The hooks
  for ISR logging always refuse. The caller's ID array is never NULL. An address of the core's
  model is a number; the port sees it as a 64-bit word.
\<close>

record unix_process =
  up_mem :: mem
  up_objects :: "dl_phdr_info list"
  up_clock :: "nat \<Rightarrow> timespec option"

definition unix_env :: "unix_process \<Rightarrow> on9log_env \<Rightarrow> on9log_env" where
  "unix_env p env = env\<lparr>
     port_addr_in_image :=
       (\<lambda>a. fst (on9log_port_addr_in_image_unix True (on9log_unix_find_image_ranges (up_objects p))
                   (word_of_nat a) unix_image_initial)),
     port_image_id :=
       (\<lambda>cap. case on9log_port_image_id_linux (up_mem p) (up_objects p) (Suc 0) cap ON9LOG_IMAGE_ID_NONE of
                None \<Rightarrow> ([], ON9LOG_IMAGE_ID_NONE) | Some (len, bs, kind) \<Rightarrow> (bs, kind)),
     port_timestamp_ms := (\<lambda>k. on9log_port_timestamp_ms_unix (up_clock p k)),
     port_isr_ready := False,
     port_isr_enqueue_packet := (\<lambda>_ _. False)\<rparr>"

lemma config_ok_unix_env [simp]: "config_ok (unix_env p env) = config_ok env"
  by (simp add: config_ok_def unix_env_def)

section \<open>The clock counts milliseconds modulo \<open>2 ^ 32\<close>\<close>

lemma ucast_word_of_int: "(ucast (word_of_int x :: u64) :: u32) = word_of_int x"
  by transfer (simp add: take_bit_take_bit)

lemma unix_timestamp:
  assumes "0 \<le> tv_nsec ts" and "tv_nsec ts < 1000000000"
  shows "on9log_port_timestamp_ms_unix (Some ts) = word_of_int (tv_sec ts * 1000 + tv_nsec ts div 1000000)"
proof -
  have "(word_of_int (tv_nsec ts) :: u64) div 1000000 = word_of_int (tv_nsec ts div 1000000)"
    using assms by (simp add: word_div_def uint_word_of_int)
  then have "(word_of_int (tv_sec ts) :: u64) * 1000 + word_of_int (tv_nsec ts) div 1000000 =
      word_of_int (tv_sec ts * 1000 + tv_nsec ts div 1000000)"
    by simp
  then show ?thesis by (simp only: on9log_port_timestamp_ms_unix_def option.case Let_def ucast_word_of_int)
qed

section \<open>Which addresses the host can resolve\<close>

definition is_read_only_load :: "elf_phdr \<Rightarrow> bool" where
  "is_read_only_load phdr \<longleftrightarrow> p_type phdr = PT_LOAD \<and> p_flags phdr AND PF_W = 0"

definition segment_range :: "u64 \<Rightarrow> elf_phdr \<Rightarrow> on9log_unix_range_t" where
  "segment_range base phdr =
     \<lparr>range_start = base + p_vaddr phdr, range_end = base + p_vaddr phdr + p_memsz phdr\<rparr>"

text \<open>The reference: the first eight read-only segments of the first object.\<close>

fun read_only_ranges :: "dl_phdr_info list \<Rightarrow> on9log_unix_range_t list" where
  "read_only_ranges [] = []"
| "read_only_ranges (info # infos) =
     take ON9LOG_UNIX_MAX_IMAGE_RANGES
       (map (segment_range (dlpi_addr info)) (filter is_read_only_load (dlpi_phdr info)))"

definition in_range :: "u64 \<Rightarrow> on9log_unix_range_t \<Rightarrow> bool" where
  "in_range a r \<longleftrightarrow> range_start r \<le> a \<and> a < range_end r"

lemma in_ranges_list_ex: "in_ranges a rs = list_ex (in_range a) rs"
  by (induction rs) (auto simp: in_range_def)

lemma collect_ranges_segments:
  "length ranges \<le> 8 \<Longrightarrow> collect_ranges base phdrs ranges =
     take 8 (ranges @ map (segment_range base) (filter is_read_only_load phdrs))"
proof (induction phdrs arbitrary: ranges)
  case (Cons phdr phdrs)
  show ?case
  proof (cases "is_read_only_load phdr")
    case True
    then show ?thesis
      using Cons by (cases "length ranges < 8") (simp_all add: is_read_only_load_def segment_range_def Let_def take_Cons')
  next
    case False
    then have "collect_ranges base (phdr # phdrs) ranges = collect_ranges base phdrs ranges"
      by (auto simp: is_read_only_load_def)
    then show ?thesis using Cons False by simp
  qed
qed simp

lemma find_image_ranges:
  "on9log_unix_find_image_ranges objs unix_image_initial = unix_image_initial\<lparr>s_image_ranges := read_only_ranges objs\<rparr>"
  by (cases objs) (simp_all add: on9log_unix_find_image_ranges_def on9log_unix_collect_ranges_def
      unix_image_initial_def collect_ranges_segments)

text \<open>The states between calls: nothing found yet, or everything.\<close>

definition image_state_ok :: "dl_phdr_info list \<Rightarrow> on9log_unix_image \<Rightarrow> bool" where
  "image_state_ok objs img \<longleftrightarrow> img = unix_image_initial \<or>
     img = \<lparr>s_image_ranges = read_only_ranges objs, s_image_ranges_once = True\<rparr>"

lemma addr_in_image_step:
  assumes "image_state_ok objs img"
  shows "\<exists>img'. on9log_port_addr_in_image_unix True (on9log_unix_find_image_ranges objs) a img =
     (a \<le> 0xffffffff \<and> list_ex (in_range a) (read_only_ranges objs), img') \<and> image_state_ok objs img'"
proof -
  have "(on9log_unix_find_image_ranges objs unix_image_initial)\<lparr>s_image_ranges_once := True\<rparr> =
      \<lparr>s_image_ranges = read_only_ranges objs, s_image_ranges_once = True\<rparr>"
    unfolding find_image_ranges by (simp add: unix_image_initial_def)
  moreover have "s_image_ranges (on9log_unix_find_image_ranges objs unix_image_initial) = read_only_ranges objs"
    unfolding find_image_ranges by simp
  moreover have "\<not> s_image_ranges_once unix_image_initial" by (simp add: unix_image_initial_def)
  ultimately show ?thesis
    using assms by (cases "a > 0xffffffff")
      (auto simp: on9log_port_addr_in_image_unix_def image_state_ok_def in_ranges_list_ex not_less)
qed

primrec ask_all ::
    "(on9log_unix_image \<Rightarrow> on9log_unix_image) \<Rightarrow> u64 list \<Rightarrow> on9log_unix_image \<Rightarrow> bool list" where
  "ask_all finder [] img = []"
| "ask_all finder (a # as) img =
     (let (answer, img) = on9log_port_addr_in_image_unix True finder a img in answer # ask_all finder as img)"

lemma ask_all_ok:
  "image_state_ok objs img \<Longrightarrow> ask_all (on9log_unix_find_image_ranges objs) as img =
     map (\<lambda>a. a \<le> 0xffffffff \<and> list_ex (in_range a) (read_only_ranges objs)) as"
proof (induction as arbitrary: img)
  case (Cons a as)
  then show ?case using addr_in_image_step [OF Cons.prems, of a] by auto
qed simp

lemma unix_env_addr:
  "port_addr_in_image (unix_env p env) a \<longleftrightarrow>
     (word_of_nat a :: u64) \<le> 0xffffffff \<and> list_ex (in_range (word_of_nat a)) (read_only_ranges (up_objects p))"
  using addr_in_image_step [of "up_objects p" unix_image_initial "word_of_nat a"]
  by (auto simp: unix_env_def image_state_ok_def)

text \<open>Also: On Linux the question whether an address lies in the image is answered the same way however
  many questions came before: yes exactly for addresses below 4 GB in one of the first eight
  read-only segments of the main executable.\<close>

theorem linux_image_addresses:
  "ask_all (on9log_unix_find_image_ranges objs) as unix_image_initial =
     map (\<lambda>a. a \<le> 0xffffffff \<and> list_ex (in_range a) (read_only_ranges objs)) as"
  by (rule ask_all_ok) (simp add: image_state_ok_def)

text \<open>Also: A tag or format sent by address from a Linux process is sent with its whole address, and that
  address lies in a read-only segment of the main executable, the one file the host reads.\<close>

theorem linux_ids_resolve:
  assumes "on9log_wire_str (unix_env p env) m str max_len = Some w"
    and "str \<noteq> NULL" and "str < 2 ^ 64" and "ws_id w \<noteq> ON9LOG_ID_INLINE"
  shows "unat (ws_id w) = str \<and>
    list_ex (in_range (word_of_nat str)) (read_only_ranges (up_objects p))"
proof -
  have img: "port_addr_in_image (unix_env p env) str"
    using assms(1,2,4) by (auto simp: on9log_wire_str_def split: if_splits Option.bind_splits)
  then have w: "ws_id w = word_of_nat str" using assms(1) by (auto simp: on9log_wire_str_def)
  have "(word_of_nat str :: u64) \<le> 0xffffffff" using img unix_env_addr by simp
  then have "str \<le> 0xffffffff"
    using assms(3) by (simp add: word_le_nat_alt unat_of_nat)
  then show ?thesis using img unix_env_addr w by (simp add: unat_of_nat)
qed

text \<open>
  The same of what a call's tag or format denotes, for a pointer that is not NULL. (An address of all
  ones is the mark of an inline string, so it is sent as an empty one.)
\<close>

definition string_pointer :: "addr \<Rightarrow> bool" where
  "string_pointer a \<longleftrightarrow> a \<noteq> NULL \<and> a < 2 ^ 64 \<and> a \<noteq> 0xffffffff"

definition host_resolves :: "nat \<Rightarrow> mem \<Rightarrow> dl_phdr_info list \<Rightarrow> addr \<Rightarrow> wire_ref \<Rightarrow> bool" where
  "host_resolves lim m objs a r \<longleftrightarrow>
     (case r of Inline s \<Rightarrow> text_at m a lim s
              | ByAddress i \<Rightarrow> unat i = a \<and> list_ex (in_range (ucast i)) (read_only_ranges objs))"

lemma unix_env_reference:
  assumes "ref_denotes (unix_env p env) m a r" and "string_pointer a"
  shows "host_resolves (cfg_max_dynamic_string_len (unix_env p env)) m (up_objects p) a r"
proof (cases "port_addr_in_image (unix_env p env) a")
  case False
  then show ?thesis using assms by (auto simp: ref_denotes_def string_pointer_def host_resolves_def)
next
  case True
  then have rng: "(word_of_nat a :: u64) \<le> 0xffffffff" "list_ex (in_range (word_of_nat a)) (read_only_ranges (up_objects p))"
    by (simp_all add: unix_env_addr)
  then have a: "a < 0xffffffff" using assms(2) by (simp add: word_le_nat_alt unat_of_nat string_pointer_def)
  then have u: "unat (word_of_nat a :: u32) = a" by (simp add: unat_of_nat)
  then have "(ucast (word_of_nat a :: u32) :: u64) = word_of_nat a" by (simp add: unsigned_of_nat word_eq_iff_unsigned)
  then show ?thesis using assms(1) True rng u a by (auto simp: ref_denotes_def host_resolves_def split: if_splits)
qed

section \<open>The image's build ID\<close>

definition note_align :: "elf_phdr \<Rightarrow> nat" where
  "note_align phdr = (if unat (p_align phdr) \<noteq> 8 then 4 else 8)"

definition note_addr :: "u64 \<Rightarrow> elf_phdr \<Rightarrow> addr" where
  "note_addr base phdr = unat (base + p_vaddr phdr)"

abbreviation note_phdrs :: "elf_phdr list \<Rightarrow> elf_phdr list" where
  "note_phdrs phdrs \<equiv> filter (\<lambda>ph. p_type ph = PT_NOTE) phdrs"

lemma align_ok_note_align [simp]: "align_ok (note_align phdr)"
  by (simp add: align_ok_def note_align_def)

lemma find_in_segment:
  "ident \<noteq> NULL \<Longrightarrow> note_addr base phdr \<noteq> NULL \<Longrightarrow>
     on9log_find_gnu_build_id m (unat (base + p_vaddr phdr)) n (unat (p_align phdr)) ident cap =
       build_id_loop m (note_align phdr) cap (note_addr base phdr) n"
  by (simp add: on9log_find_gnu_build_id_def note_align_def note_addr_def)

lemma find_gnu_build_id_safe:
  assumes "rd_bytes m notes len = Some bs"
  shows "\<exists>ident. on9log_find_gnu_build_id m notes len align dst cap = Some (length ident, ident) \<and>
     length ident \<le> cap \<and> (\<exists>off. ident = take (length ident) (drop off bs))"
proof (cases "notes = NULL \<or> dst = NULL")
  case True
  then show ?thesis by (intro exI [of _ "[]"]) (simp add: on9log_find_gnu_build_id_def)
next
  case False
  then show ?thesis
    using build_id_loop_safe [OF _ assms, of "if align \<noteq> 8 then 4 else align" cap]
    by (simp add: on9log_find_gnu_build_id_def align_ok_def)
qed

text \<open>Note segments that can be read, whatever is in them.\<close>

definition notes_readable :: "mem \<Rightarrow> u64 \<Rightarrow> elf_phdr \<Rightarrow> bool" where
  "notes_readable m base phdr \<longleftrightarrow> rd_bytes m (note_addr base phdr) (unat (p_memsz phdr)) \<noteq> None"

definition id_result_ok :: "on9log_unix_build_id_t \<Rightarrow> bool" where
  "id_result_ok r \<longleftrightarrow> bi_len r = length (bi_bytes r) \<and> bi_len r \<le> bi_cap r"

lemma build_id_phdrs_safe:
  "list_all (notes_readable m base) (note_phdrs phdrs) \<Longrightarrow> id_result_ok r \<Longrightarrow>
     \<exists>r'. build_id_phdrs m base phdrs r = Some r' \<and> id_result_ok r' \<and> bi_cap r' = bi_cap r"
proof (induction phdrs arbitrary: r)
  case (Cons phdr phdrs)
  show ?case
  proof (cases "bi_len r = 0 \<and> p_type phdr = PT_NOTE")
    case True
    then obtain bs where "rd_bytes m (unat (base + p_vaddr phdr)) (unat (p_memsz phdr)) = Some bs"
      using Cons.prems(1) by (auto simp: notes_readable_def note_addr_def)
    from find_gnu_build_id_safe [OF this] obtain ident where
      i: "on9log_find_gnu_build_id m (unat (base + p_vaddr phdr)) (unat (p_memsz phdr))
        (unat (p_align phdr)) (bi_id r) (bi_cap r) = Some (length ident, ident)" "length ident \<le> bi_cap r"
      by blast
    let ?r = "r\<lparr>bi_len := length ident, bi_bytes := (if length ident = 0 then bi_bytes r else ident)\<rparr>"
    have "id_result_ok ?r" using i(2) Cons.prems(2) True by (simp add: id_result_ok_def)
    then show ?thesis using Cons.IH [of ?r] Cons.prems(1) True i(1) by simp
  qed (use Cons in \<open>auto simp del: bind_eq_Some_conv\<close>)
qed simp

lemma image_id_linux_eq:
  "on9log_port_image_id_linux m (info # infos) ident cap kind =
     map_option (\<lambda>r. (bi_len r, bi_bytes r, if bi_len r \<noteq> 0 then ON9LOG_IMAGE_ID_GNU_BUILD_ID else kind))
       (build_id_phdrs m (dlpi_addr info) (dlpi_phdr info) \<lparr>bi_id = ident, bi_cap = cap, bi_len = 0, bi_bytes = []\<rparr>)"
  by (simp add: on9log_port_image_id_linux_def on9log_unix_find_build_id_def map_conv_bind_option
      bind_assoc split: Option.bind_splits)

text \<open>C34: However malformed the notes of the executable are, as long as they can be read the search for
  the build ID returns, reads nothing outside them, and reports an ID that fits the caller's
  array; the kind is set exactly when there is an ID.\<close>

theorem linux_image_id_returns:
  assumes "list_all (notes_readable m (dlpi_addr info)) (note_phdrs (dlpi_phdr info))"
  shows "\<exists>bs k. on9log_port_image_id_linux m (info # infos) ident cap kind = Some (length bs, bs, k) \<and>
     length bs \<le> cap \<and> k = (if bs = [] then kind else ON9LOG_IMAGE_ID_GNU_BUILD_ID)"
proof -
  let ?r = "\<lparr>bi_id = ident, bi_cap = cap, bi_len = 0, bi_bytes = []\<rparr>"
  obtain r' where "build_id_phdrs m (dlpi_addr info) (dlpi_phdr info) ?r = Some r'" "id_result_ok r'" "bi_cap r' = cap"
    using build_id_phdrs_safe [OF assms, of ?r] by (auto simp: id_result_ok_def)
  then show ?thesis
    by (intro exI [of _ "bi_bytes r'"]) (simp add: image_id_linux_eq id_result_ok_def)
qed

text \<open>Segments that hold well-formed notes.\<close>

definition holds_notes :: "mem \<Rightarrow> u64 \<Rightarrow> elf_phdr \<Rightarrow> elf_note list \<Rightarrow> bool" where
  "holds_notes m base phdr ns \<longleftrightarrow> list_all note_ok ns \<and> note_addr base phdr \<noteq> NULL \<and>
     (let bs = concat (map (note_bytes (note_align phdr)) ns)
      in unat (p_memsz phdr) = length bs \<and> rd_bytes m (note_addr base phdr) (length bs) = Some bs)"

primrec first_nonempty :: "bytes list \<Rightarrow> bytes" where
  "first_nonempty [] = []"
| "first_nonempty (x # xs) = (if x \<noteq> [] then x else first_nonempty xs)"

lemma first_build_id_le: "length (first_build_id cap ns) \<le> cap"
  by (induction ns) auto

lemma build_id_phdrs_finds:
  "list_all2 (holds_notes m base) (note_phdrs phdrs) notess \<Longrightarrow> bi_id r \<noteq> NULL \<Longrightarrow> bi_len r = length (bi_bytes r) \<Longrightarrow>
     \<exists>r'. build_id_phdrs m base phdrs r = Some r' \<and> bi_len r' = length (bi_bytes r') \<and>
       bi_bytes r' = first_nonempty (bi_bytes r # map (first_build_id (bi_cap r)) notess)"
proof (induction phdrs arbitrary: r notess)
  case (Cons phdr phdrs)
  show ?case
  proof (cases "bi_len r = 0 \<and> p_type phdr = PT_NOTE")
    case True
    then obtain ns nss where n: "notess = ns # nss" "holds_notes m base phdr ns"
      "list_all2 (holds_notes m base) (note_phdrs phdrs) nss"
      using Cons.prems(1) by (auto simp: list_all2_Cons1)
    let ?i = "first_build_id (bi_cap r) ns"
    have i: "on9log_find_gnu_build_id m (unat (base + p_vaddr phdr)) (unat (p_memsz phdr))
        (unat (p_align phdr)) (bi_id r) (bi_cap r) = Some (length ?i, ?i)"
      using n(2) Cons.prems(2) build_id_loop_finds [OF align_ok_note_align [of phdr], of ns]
      by (simp add: find_in_segment holds_notes_def Let_def)
    let ?r = "r\<lparr>bi_len := length ?i, bi_bytes := (if length ?i = 0 then bi_bytes r else ?i)\<rparr>"
    have len: "bi_len ?r = length (bi_bytes ?r)" and dst: "bi_id ?r \<noteq> NULL" and cap: "bi_cap ?r = bi_cap r"
      using Cons.prems(2,3) True by simp_all
    obtain r' where r': "build_id_phdrs m base phdrs ?r = Some r'" "bi_len r' = length (bi_bytes r')"
      "bi_bytes r' = first_nonempty (bi_bytes ?r # map (first_build_id (bi_cap ?r)) nss)"
      using Cons.IH [OF n(3) dst len] by blast
    have "build_id_phdrs m base (phdr # phdrs) r = Some r'" using True i r'(1) by simp
    moreover have "bi_bytes r = []" using True Cons.prems(3) by simp
    ultimately show ?thesis using r'(2,3) unfolding n(1) cap by (intro exI [of _ r']) simp
  next
    case False
    show ?thesis
    proof (cases "bi_len r = 0")
      case True
      then show ?thesis using False Cons.prems Cons.IH [of notess r] by simp
    qed (use Cons.prems(3) in auto)
  qed
qed auto

text \<open>C35: A Linux process whose executable carries a GNU build ID of at most 32 bytes announces it: the
  image ID of the BOOT packet is the first build ID of the executable's note segments.\<close>

theorem linux_build_id_is_announced:
  assumes "up_objects p = info # infos"
    and "list_all2 (holds_notes (up_mem p) (dlpi_addr info)) (note_phdrs (dlpi_phdr info)) notess"
    and "ident = first_nonempty (map (first_build_id ON9LOG_IMAGE_ID_MAX_LEN) notess)" and "ident \<noteq> []"
  shows "on9log_image_id (unix_env p env) = (ident, ON9LOG_IMAGE_ID_GNU_BUILD_ID)"
proof -
  let ?r = "\<lparr>bi_id = Suc 0, bi_cap = ON9LOG_IMAGE_ID_MAX_LEN, bi_len = 0, bi_bytes = []\<rparr>"
  obtain r' where r': "build_id_phdrs (up_mem p) (dlpi_addr info) (dlpi_phdr info) ?r = Some r'"
    "bi_len r' = length ident" "bi_bytes r' = ident"
    using build_id_phdrs_finds [OF assms(2), of ?r] assms(3) by auto
  have "length ident \<le> ON9LOG_IMAGE_ID_MAX_LEN"
    unfolding assms(3) by (induction notess) (auto intro: first_build_id_le)
  then show ?thesis using r' assms(1,4)
    by (simp add: on9log_image_id_def unix_env_def image_id_linux_eq)
qed

section \<open>A concrete process\<close>

text \<open>
  An executable at 4 MB with a read-only, a writable and a note segment; the notes are an ABI
  tag and a build ID of four bytes.
\<close>

definition demo_notes :: "elf_note list" where
  "demo_notes = [\<lparr>note_type = Suc 0, note_name = GNU_NAME, note_desc = [0, 0, 0, 0]\<rparr>,
                 \<lparr>note_type = 3, note_name = GNU_NAME, note_desc = [222, 173, 190, 239]\<rparr>]"

definition demo_info :: dl_phdr_info where
  "demo_info = \<lparr>dlpi_addr = 0x400000, dlpi_phdr =
     [\<lparr>p_type = PT_LOAD, p_flags = 4, p_vaddr = 0, p_memsz = 0x1000, p_align = 0x1000\<rparr>,
      \<lparr>p_type = PT_LOAD, p_flags = 6, p_vaddr = 0x1000, p_memsz = 0x1000, p_align = 0x1000\<rparr>,
      \<lparr>p_type = PT_NOTE, p_flags = 4, p_vaddr = 0x200, p_memsz = 40, p_align = 4\<rparr>]\<rparr>"

definition demo_process :: "unix_process" where
  "demo_process = \<lparr>up_mem = mem_object 0x400200 (concat (map (note_bytes 4) demo_notes)) (\<lambda>_. None),
     up_objects = [demo_info], up_clock = (\<lambda>_. None)\<rparr>"

lemma le_bytes_numeral:
  "le_bytes (numeral k) v = word_of_nat v # le_bytes (pred_numeral k) (v div 256)"
  by (simp only: numeral_eq_Suc [of k] le_bytes.simps)

lemma demo_notes_bytes: "concat (map (note_bytes 4) demo_notes) =
   [4, 0, 0, 0, 4, 0, 0, 0, 1, 0, 0, 0, 71, 78, 85, 0, 0, 0, 0, 0,
    4, 0, 0, 0, 4, 0, 0, 0, 3, 0, 0, 0, 71, 78, 85, 0, 222, 173, 190, 239]"
  by (simp add: demo_notes_def note_bytes_def pad_to_def align_up_def GNU_NAME_def le_bytes_numeral)

lemma demo_holds_notes:
  "list_all2 (holds_notes (up_mem demo_process) (dlpi_addr demo_info)) (note_phdrs (dlpi_phdr demo_info)) [demo_notes]"
proof -
  have "list_all note_ok demo_notes" by (simp add: demo_notes_def note_ok_def GNU_NAME_def)
  then show ?thesis
    by (simp add: demo_info_def holds_notes_def note_align_def note_addr_def demo_notes_bytes demo_process_def
        mem_object_def)
qed

theorem linux_build_id_is_announced_witness:
  "on9log_image_id (unix_env demo_process on9log_default_env) =
     ([222, 173, 190, 239], ON9LOG_IMAGE_ID_GNU_BUILD_ID)"
  by (rule linux_build_id_is_announced [OF _ demo_holds_notes])
    (simp_all add: demo_process_def demo_notes_def is_build_id_def)

text \<open>Notes whose first name claims to be 4 GB long.\<close>

definition bad_notes_mem :: mem where
  "bad_notes_mem = mem_object 0x400200 (replicate 40 255) (\<lambda>_. None)"

theorem linux_image_id_returns_witness:
  "\<exists>bs k. on9log_port_image_id_linux bad_notes_mem [demo_info] 7 32 ON9LOG_IMAGE_ID_NONE = Some (length bs, bs, k) \<and>
     length bs \<le> 32 \<and> k = (if bs = [] then ON9LOG_IMAGE_ID_NONE else ON9LOG_IMAGE_ID_GNU_BUILD_ID)"
  by (rule linux_image_id_returns)
    (simp add: notes_readable_def note_addr_def demo_info_def bad_notes_mem_def mem_object_def)

theorem linux_ids_resolve_witness:
  "unat (0x400010 :: u32) = 0x400010 \<and>
    list_ex (in_range (word_of_nat 0x400010)) (read_only_ranges (up_objects demo_process))"
  using linux_ids_resolve [where p = demo_process and env = on9log_default_env and m = "\<lambda>_. None"
      and str = "0x400010" and max_len = 100 and w = "\<lparr>ws_id = 0x400010, ws_len = 0\<rparr>"]
  by (simp add: on9log_wire_str_def unix_env_addr demo_process_def demo_info_def is_read_only_load_def
      segment_range_def in_range_def)

end
