(* ===== verification/EspPort.thy ===== *)
theory EspPort
  imports UnixPort IsrWrite EspTransport "HOL-Library.Signed_Division"
begin

text \<open>
  The ESP-IDF port, \<^verbatim>\<open>on9log_esp_port.c\<close>, and the ring buffer behind ISR logging,
  \<^verbatim>\<open>on9log_esp_isr.c\<close>. What ESP-IDF and FreeRTOS answer (the timer, the app descriptor, the
  linker script's symbols, the reset reason, whether a ring buffer or task could be created and
  whether an item fits) are arguments. Pointers are 32-bit words.
\<close>

section \<open>The emission lock\<close>

text \<open>
  \<open>emit_mutex\<close>: \<open>None\<close> before the constructor ran, then whether the mutex is taken. Taking a
  taken mutex blocks for ever when nobody else runs: \<open>None\<close>.
\<close>

record esp_emit =
  s_emit_mutex :: "bool option"
  emit_scheduler_started :: bool

definition on9log_esp_port_create_emit_mutex :: "esp_emit \<Rightarrow> esp_emit" where
  "on9log_esp_port_create_emit_mutex st = st\<lparr>s_emit_mutex := Some False\<rparr>"

definition on9log_port_emit_lock_esp :: "esp_emit \<Rightarrow> esp_emit option" where
  "on9log_port_emit_lock_esp st =
     (if s_emit_mutex st = None \<or> \<not> emit_scheduler_started st then Some st
      else if s_emit_mutex st = Some True then None
      else Some (st\<lparr>s_emit_mutex := Some True\<rparr>))"

definition on9log_port_emit_unlock_esp :: "esp_emit \<Rightarrow> esp_emit" where
  "on9log_port_emit_unlock_esp st =
     (if s_emit_mutex st = None \<or> \<not> emit_scheduler_started st then st
      else st\<lparr>s_emit_mutex := Some False\<rparr>)"

lemma emit_lock_balanced:
  "s_emit_mutex st \<noteq> Some True \<Longrightarrow>
     \<exists>st'. on9log_port_emit_lock_esp st = Some st' \<and> on9log_port_emit_unlock_esp st' = st"
  by (cases "s_emit_mutex st") (auto simp: on9log_port_emit_lock_esp_def on9log_port_emit_unlock_esp_def)

section \<open>Clock, image and reset reason\<close>

text \<open>\<open>esp_timer_get_time()\<close> is a signed 64-bit count of microseconds; C division truncates.\<close>

definition on9log_port_timestamp_ms_esp :: "int \<Rightarrow> u32" where
  "on9log_port_timestamp_ms_esp time_us = word_of_int (time_us sdiv 1000)"

text \<open>\<open>app_elf_sha256\<close> of the app descriptor. The loop's accumulator is \<open>all_zero\<close>.\<close>

primrec sha_all_zero :: "bytes \<Rightarrow> bool \<Rightarrow> bool" where
  "sha_all_zero [] all_zero = all_zero"
| "sha_all_zero (b # bs) all_zero = sha_all_zero bs (all_zero \<and> b = 0)"

definition on9log_port_image_id_esp ::
    "bytes \<Rightarrow> nat \<Rightarrow> on9log_image_id_kind_t \<Rightarrow> bytes \<times> on9log_image_id_kind_t" where
  "on9log_port_image_id_esp app_elf_sha256 cap kind =
     (let len = length app_elf_sha256
      in if cap < len then ([], kind)
         else if sha_all_zero app_elf_sha256 True then ([], kind)
         else (app_elf_sha256, ON9LOG_IMAGE_ID_ELF_SHA256))"

record esp_image =
  rodata_reserved_start :: u32
  rodata_reserved_end :: u32
  noload_keep_in_elf_start :: u32
  noload_keep_in_elf_end :: u32

definition on9log_port_addr_in_image_esp :: "esp_image \<Rightarrow> u32 \<Rightarrow> bool" where
  "on9log_port_addr_in_image_esp img a \<longleftrightarrow>
     a \<ge> rodata_reserved_start img \<and> a < rodata_reserved_end img \<or>
     a \<ge> noload_keep_in_elf_start img \<and> a < noload_keep_in_elf_end img"

text \<open>The reset reasons of ESP-IDF the code names; every other value is \<open>ESP_RST_UNNAMED\<close>.\<close>

datatype esp_reset_reason_t =
    ESP_RST_POWERON | ESP_RST_EXT | ESP_RST_SW | ESP_RST_PANIC | ESP_RST_INT_WDT
  | ESP_RST_TASK_WDT | ESP_RST_WDT | ESP_RST_DEEPSLEEP | ESP_RST_BROWNOUT | ESP_RST_SDIO
  | ESP_RST_USB | ESP_RST_JTAG | ESP_RST_EFUSE | ESP_RST_PWR_GLITCH | ESP_RST_CPU_LOCKUP
  | ESP_RST_UNNAMED

primrec on9log_port_reset_reason_esp :: "esp_reset_reason_t \<Rightarrow> on9log_reset_reason_t" where
  "on9log_port_reset_reason_esp ESP_RST_POWERON = ON9LOG_RESET_POWER_ON"
| "on9log_port_reset_reason_esp ESP_RST_EXT = ON9LOG_RESET_EXTERNAL"
| "on9log_port_reset_reason_esp ESP_RST_SW = ON9LOG_RESET_SOFTWARE"
| "on9log_port_reset_reason_esp ESP_RST_PANIC = ON9LOG_RESET_PANIC"
| "on9log_port_reset_reason_esp ESP_RST_INT_WDT = ON9LOG_RESET_INT_WDT"
| "on9log_port_reset_reason_esp ESP_RST_TASK_WDT = ON9LOG_RESET_TASK_WDT"
| "on9log_port_reset_reason_esp ESP_RST_WDT = ON9LOG_RESET_OTHER_WDT"
| "on9log_port_reset_reason_esp ESP_RST_DEEPSLEEP = ON9LOG_RESET_DEEP_SLEEP"
| "on9log_port_reset_reason_esp ESP_RST_BROWNOUT = ON9LOG_RESET_BROWNOUT"
| "on9log_port_reset_reason_esp ESP_RST_SDIO = ON9LOG_RESET_SDIO"
| "on9log_port_reset_reason_esp ESP_RST_USB = ON9LOG_RESET_USB"
| "on9log_port_reset_reason_esp ESP_RST_JTAG = ON9LOG_RESET_JTAG"
| "on9log_port_reset_reason_esp ESP_RST_EFUSE = ON9LOG_RESET_EFUSE"
| "on9log_port_reset_reason_esp ESP_RST_PWR_GLITCH = ON9LOG_RESET_POWER_GLITCH"
| "on9log_port_reset_reason_esp ESP_RST_CPU_LOCKUP = ON9LOG_RESET_CPU_LOCKUP"
| "on9log_port_reset_reason_esp ESP_RST_UNNAMED = ON9LOG_RESET_UNKNOWN"

section \<open>The ISR ring buffer\<close>

record on9log_esp_isr_t =
  isr_ringbuf :: addr
  isr_task :: addr
  isr_installed :: bool

text \<open>The module's static state with the ring buffers FreeRTOS holds for it.\<close>

record esp_isr_world =
  s_on9log_esp_isr :: on9log_esp_isr_t
  live_ringbufs :: "addr list"

definition esp_isr_initial :: esp_isr_world where
  "esp_isr_initial =
     \<lparr>s_on9log_esp_isr = \<lparr>isr_ringbuf = NULL, isr_task = NULL, isr_installed = False\<rparr>, live_ringbufs = []\<rparr>"

definition on9log_port_isr_ready_esp :: "on9log_esp_isr_t \<Rightarrow> bool" where
  "on9log_port_isr_ready_esp isr \<longleftrightarrow> isr_ringbuf isr \<noteq> NULL"

text \<open>
  \<open>send from_isr p\<close> is the answer of \<open>xRingbufferSendFromISR\<close> or \<open>xRingbufferSend\<close>, and for the
  former whether a task of higher priority was woken. The result adds whether the ISR yields.
\<close>

definition on9log_port_isr_enqueue_packet_esp ::
    "(bool \<Rightarrow> bytes \<Rightarrow> bool \<times> bool) \<Rightarrow> bool \<Rightarrow> bytes option \<Rightarrow> nat \<Rightarrow> on9log_esp_isr_t \<Rightarrow> bool \<times> bool" where
  "on9log_port_isr_enqueue_packet_esp send in_isr packet len isr =
     (if isr_ringbuf isr = NULL \<or> packet = None \<and> len \<noteq> 0 then (False, False)
      else
        (let item = (case packet of None \<Rightarrow> [] | Some p \<Rightarrow> take len p)
         in if in_isr then (let (ok, woken) = send True item in (ok, woken))
            else (fst (send False item), False)))"

text \<open>
  \<open>created\<close> is what \<open>xRingbufferCreate\<close> returns, NULL on failure; \<open>task\<close> is the handle
  \<open>xTaskCreate\<close> stores, \<open>None\<close> on failure. \<open>ringbuf_size\<close> is the configured size.
\<close>

definition on9log_esp_isr_init ::
    "on9log_env \<Rightarrow> nat \<Rightarrow> addr \<Rightarrow> addr option \<Rightarrow> esp_isr_world \<Rightarrow> esp_err_t \<times> esp_isr_world" where
  "on9log_esp_isr_init env ringbuf_size created task w =
     (if isr_installed (s_on9log_esp_isr w) then (ESP_OK, w)
      else if ringbuf_size < cfg_isr_packet_max env * 2 + 16 then (ESP_ERR_INVALID_SIZE, w)
      else if created = NULL then (ESP_ERR_NO_MEM, w)
      else
        (let w = w\<lparr>live_ringbufs := created # live_ringbufs w\<rparr>
         in case task of
              None \<Rightarrow> (ESP_ERR_NO_MEM, w\<lparr>live_ringbufs := removeAll created (live_ringbufs w)\<rparr>)
            | Some handle \<Rightarrow>
                (ESP_OK, w\<lparr>s_on9log_esp_isr :=
                   \<lparr>isr_ringbuf = created, isr_task = handle, isr_installed = True\<rparr>\<rparr>)))"

section \<open>The port as an environment of the core\<close>

definition esp_env ::
    "esp_image \<Rightarrow> bytes \<Rightarrow> (nat \<Rightarrow> int) \<Rightarrow> int \<Rightarrow> (bytes list \<Rightarrow> bool \<Rightarrow> bytes \<Rightarrow> bool \<times> bool) \<Rightarrow> bool \<Rightarrow> on9log_esp_isr_t \<Rightarrow>
       on9log_env \<Rightarrow> on9log_env" where
  "esp_env img sha clock isr_time send in_isr isr env = env\<lparr>
     port_addr_in_image := (\<lambda>a. on9log_port_addr_in_image_esp img (word_of_nat a)),
     port_image_id := (\<lambda>cap. on9log_port_image_id_esp sha cap ON9LOG_IMAGE_ID_NONE),
     port_timestamp_ms := (\<lambda>k. on9log_port_timestamp_ms_esp (clock k)),
     port_isr_timestamp_ms := on9log_port_timestamp_ms_esp isr_time,
     port_isr_ready := on9log_port_isr_ready_esp isr,
     port_isr_enqueue_packet :=
       (\<lambda>q p. fst (on9log_port_isr_enqueue_packet_esp (send q) in_isr (Some p) (length p) isr))\<rparr>"

section \<open>Facts\<close>

lemma sha_all_zero: "sha_all_zero bs z \<longleftrightarrow> z \<and> bs = replicate (length bs) 0"
  by (induction bs arbitrary: z) auto

lemma esp_image_id:
  assumes "length sha = 32"
  shows "on9log_image_id (esp_env img sha clock t send in_isr isr env) =
    (if sha = replicate 32 0 then ([], ON9LOG_IMAGE_ID_NONE) else (sha, ON9LOG_IMAGE_ID_ELF_SHA256))"
  using assms by (auto simp: on9log_image_id_def esp_env_def on9log_port_image_id_esp_def sha_all_zero)

lemma reset_reason_code_inj: "reset_reason_code r = reset_reason_code r' \<longleftrightarrow> r = r'"
  by (cases r; cases r') simp_all

lemma esp_reset_reasons_distinct:
  "reset_reason_code (on9log_port_reset_reason_esp r) = reset_reason_code (on9log_port_reset_reason_esp r') \<longleftrightarrow> r = r'"
  unfolding reset_reason_code_inj by (cases r; cases r') simp_all

section \<open>Wrap-around of the clocks\<close>

definition unix_ms :: "timespec \<Rightarrow> int" where
  "unix_ms ts = tv_sec ts * 1000 + tv_nsec ts div 1000000"

definition timespec_ok :: "timespec \<Rightarrow> bool" where
  "timespec_ok ts \<longleftrightarrow> 0 \<le> tv_nsec ts \<and> tv_nsec ts < 1000000000"

lemma elapsed_word:
  fixes a b :: int
  assumes "0 \<le> b - a" and "b - a < 2 ^ 32"
  shows "uint ((word_of_int b :: u32) - word_of_int a) = b - a"
proof -
  have "(word_of_int b :: u32) - word_of_int a = word_of_int (b - a)" by simp
  then show ?thesis using assms by (simp only: uint_word_of_int) simp
qed

lemma esp_timestamp: "0 \<le> t \<Longrightarrow> on9log_port_timestamp_ms_esp t = word_of_int (t div 1000)"
  by (cases "t = 0") (simp_all add: on9log_port_timestamp_ms_esp_def signed_divide_int_def)

text \<open>Also: Both ports' clocks count milliseconds and may wrap around any number of times: the difference
  of two timestamps, as a 32-bit subtraction, is the time that passed between them, as long as
  that is less than \<open>2 ^ 32\<close> ms.\<close>

theorem timestamps_survive_wrap_around:
  assumes "timespec_ok ts" and "timespec_ok ts'" and "unix_ms ts' - unix_ms ts = d"
    and "0 \<le> us" and "us \<le> us'" and "us' div 1000 - us div 1000 = d" and "0 \<le> d" and "d < 2 ^ 32"
  shows "uint (on9log_port_timestamp_ms_unix (Some ts') - on9log_port_timestamp_ms_unix (Some ts)) = d \<and>
    uint (on9log_port_timestamp_ms_esp us' - on9log_port_timestamp_ms_esp us) = d"
proof
  have "on9log_port_timestamp_ms_unix (Some ts) = word_of_int (unix_ms ts)"
    "on9log_port_timestamp_ms_unix (Some ts') = word_of_int (unix_ms ts')"
    using assms(1,2) by (simp_all only: unix_timestamp timespec_ok_def unix_ms_def)
  then show "uint (on9log_port_timestamp_ms_unix (Some ts') - on9log_port_timestamp_ms_unix (Some ts)) = d"
    using elapsed_word [of "unix_ms ts'" "unix_ms ts"] assms(3,7,8) by simp
  show "uint (on9log_port_timestamp_ms_esp us' - on9log_port_timestamp_ms_esp us) = d"
    using elapsed_word [of "us' div 1000" "us div 1000"] assms(4-8) by (simp add: esp_timestamp)
qed

text \<open>A Unix clock passing \<open>2 ^ 32\<close> ms, 50 days after boot.\<close>

theorem timestamps_survive_wrap_around_witness:
  "uint (on9log_port_timestamp_ms_unix (Some \<lparr>tv_sec = 4294970, tv_nsec = 5000000\<rparr>) -
      on9log_port_timestamp_ms_unix (Some \<lparr>tv_sec = 4294960, tv_nsec = 0\<rparr>)) = 10005 \<and>
    uint (on9log_port_timestamp_ms_esp 4294970000000 - on9log_port_timestamp_ms_esp 4294959995000) = 10005"
  by (rule timestamps_survive_wrap_around) (simp_all add: timespec_ok_def unix_ms_def)

section \<open>The ISR ring buffer is created once and never leaked\<close>

fun isr_init_all ::
    "on9log_env \<Rightarrow> nat \<Rightarrow> (addr \<times> addr option) list \<Rightarrow> esp_isr_world \<Rightarrow> esp_err_t list \<times> esp_isr_world" where
  "isr_init_all env sz [] w = ([], w)"
| "isr_init_all env sz ((created, task) # attempts) w =
     (let (err, w) = on9log_esp_isr_init env sz created task w;
          (errs, w) = isr_init_all env sz attempts w
      in (err # errs, w))"

text \<open>An attempt that gets both its ring buffer and its task.\<close>

definition attempt_ok :: "on9log_env \<Rightarrow> nat \<Rightarrow> addr \<times> addr option \<Rightarrow> bool" where
  "attempt_ok env sz a \<longleftrightarrow> cfg_isr_packet_max env * 2 + 16 \<le> sz \<and> fst a \<noteq> NULL \<and> snd a \<noteq> None"

text \<open>The error of the \<open>i\<close>-th attempt follows from the attempts up to it.\<close>

primrec init_errors :: "on9log_env \<Rightarrow> nat \<Rightarrow> bool \<Rightarrow> (addr \<times> addr option) list \<Rightarrow> esp_err_t list" where
  "init_errors env sz inst [] = []"
| "init_errors env sz inst (a # as) =
     (if inst \<or> attempt_ok env sz a then ESP_OK
      else if sz < cfg_isr_packet_max env * 2 + 16 then ESP_ERR_INVALID_SIZE else ESP_ERR_NO_MEM) #
     init_errors env sz (inst \<or> attempt_ok env sz a) as"

definition isr_world_ok :: "esp_isr_world \<Rightarrow> bool" where
  "isr_world_ok w \<longleftrightarrow>
     live_ringbufs w = (if isr_installed (s_on9log_esp_isr w) then [isr_ringbuf (s_on9log_esp_isr w)] else []) \<and>
     isr_installed (s_on9log_esp_isr w) = on9log_port_isr_ready_esp (s_on9log_esp_isr w)"

lemma isr_init_step:
  assumes "isr_world_ok w" and "on9log_esp_isr_init env sz created task w = (err, w')"
  shows "isr_world_ok w' \<and>
     isr_installed (s_on9log_esp_isr w') = (isr_installed (s_on9log_esp_isr w) \<or> attempt_ok env sz (created, task)) \<and>
     [err] = init_errors env sz (isr_installed (s_on9log_esp_isr w)) [(created, task)]"
  using assms
  by (auto simp: on9log_esp_isr_init_def isr_world_ok_def attempt_ok_def on9log_port_isr_ready_esp_def Let_def
      split: if_splits option.splits)

lemma isr_init_all_ok:
  "isr_world_ok w \<Longrightarrow> \<exists>w'. isr_init_all env sz attempts w =
       (init_errors env sz (isr_installed (s_on9log_esp_isr w)) attempts, w') \<and> isr_world_ok w' \<and>
     isr_installed (s_on9log_esp_isr w') = (isr_installed (s_on9log_esp_isr w) \<or> list_ex (attempt_ok env sz) attempts)"
proof (induction attempts arbitrary: w)
  case (Cons a attempts)
  obtain created task where a: "a = (created, task)" by (cases a)
  obtain err w1 where s: "on9log_esp_isr_init env sz created task w = (err, w1)" by force
  from isr_init_step [OF Cons.prems s] Cons.IH [of w1] show ?case by (auto simp: a s)
qed simp

text \<open>Also: However often ISR logging is initialised and whatever fails, FreeRTOS holds one ring buffer for
  it when it is installed and none otherwise, the ISR backend is ready exactly when installed,
  and it is installed exactly when some attempt got its ring buffer and its task. Attempts after
  that return OK, those before it INVALID_SIZE or NO_MEM.\<close>

theorem isr_init_leaks_nothing:
  "\<exists>isr. isr_init_all env sz attempts esp_isr_initial =
     (init_errors env sz False attempts,
      \<lparr>s_on9log_esp_isr = isr,
       live_ringbufs = (if list_ex (attempt_ok env sz) attempts then [isr_ringbuf isr] else [])\<rparr>) \<and>
     on9log_port_isr_ready_esp isr = list_ex (attempt_ok env sz) attempts \<and>
     isr_installed isr = list_ex (attempt_ok env sz) attempts"
proof -
  have "isr_world_ok esp_isr_initial"
    by (simp add: isr_world_ok_def esp_isr_initial_def on9log_port_isr_ready_esp_def)
  from isr_init_all_ok [OF this, of env sz attempts] obtain w where
    w: "isr_init_all env sz attempts esp_isr_initial = (init_errors env sz False attempts, w)"
    "isr_world_ok w" "isr_installed (s_on9log_esp_isr w) = list_ex (attempt_ok env sz) attempts"
    by (auto simp: esp_isr_initial_def)
  obtain isr live where "w = \<lparr>s_on9log_esp_isr = isr, live_ringbufs = live\<rparr>" by (cases w)
  then show ?thesis using w by (auto simp: isr_world_ok_def)
qed

end
