(* ===== verification/TextLine.thy ===== *)
theory TextLine
  imports PacketOps IsrWrite
begin

text \<open>
  The plain-text build of \<^verbatim>\<open>on9log.c\<close> (\<open>ON9LOG_PLAIN_TEXT\<close>): instead of packets the sinks
  receive formatted lines. A line is a prefix (colour, timestamp, level, tag), a body written by
  a formatter, and a suffix; all of it passes a filter that turns LF into CR LF.

  An output callback \<^verbatim>\<open>on9log_text_output_cb_t\<close> with its context is a function of type
  \<open>bytes \<Rightarrow> 's \<Rightarrow> 's\<close> that updates the state it writes to: the core's state for a stream, an
  encoder for an ISR line, the filter's \<open>last_char\<close> with either of them. A formatter is a
  function that is given such a callback. \<open>vfprintf\<close> on the unbuffered cookie stream and
  \<open>vsnprintf\<close> are the C library's: what they produce is an argument (\<open>printf_out\<close>).
  \<open>None\<close> is undefined behaviour, among it a store outside a local array.
\<close>

section \<open>Text and flags\<close>

definition ascii :: "string \<Rightarrow> bytes" where
  "ascii s = map (\<lambda>c. of_char c) s"

abbreviation (input) TEXT_PRETTY :: u8 where "TEXT_PRETTY \<equiv> 1"
abbreviation (input) TEXT_PRETTYLINE :: u8 where "TEXT_PRETTYLINE \<equiv> 2"
abbreviation (input) TEXT_SHOWLEVEL :: u8 where "TEXT_SHOWLEVEL \<equiv> 4"
abbreviation (input) TEXT_SHOWTOPIC :: u8 where "TEXT_SHOWTOPIC \<equiv> 8"
abbreviation (input) TEXT_SHOWTIMESTAMP :: u8 where "TEXT_SHOWTIMESTAMP \<equiv> 16"
abbreviation (input) TEXT_CR :: u8 where "TEXT_CR \<equiv> 32"

abbreviation (input) CR :: u8 where "CR \<equiv> 13"
abbreviation (input) LF :: u8 where "LF \<equiv> 10"

text \<open>\<^verbatim>\<open>"\033..."\<close>\<close>

definition ansi :: "string \<Rightarrow> bytes" where
  "ansi s = 27 # ascii s"

definition ON9LOG_ANSI_RED :: bytes where "ON9LOG_ANSI_RED = ansi ''[0;31m''"
definition ON9LOG_ANSI_GREEN :: bytes where "ON9LOG_ANSI_GREEN = ansi ''[0;32m''"
definition ON9LOG_ANSI_YELLOW :: bytes where "ON9LOG_ANSI_YELLOW = ansi ''[0;33m''"
definition ON9LOG_ANSI_CYAN :: bytes where "ON9LOG_ANSI_CYAN = ansi ''[0;36m''"
definition ON9LOG_ANSI_WHITE :: bytes where "ON9LOG_ANSI_WHITE = ansi ''[0;37m''"
definition ON9LOG_ANSI_BOLD :: bytes where "ON9LOG_ANSI_BOLD = ansi ''[1m''"
definition ON9LOG_ANSI_NORMAL :: bytes where "ON9LOG_ANSI_NORMAL = ansi ''[22m''"
definition ON9LOG_ANSI_RESET :: bytes where "ON9LOG_ANSI_RESET = ansi ''[0m''"

type_synonym 's text_output_cb = "bytes \<Rightarrow> 's \<Rightarrow> 's"
type_synonym 's text_formatter_cb = "'s text_output_cb \<Rightarrow> 's \<Rightarrow> 's option"

section \<open>The callbacks\<close>

definition on9log_text_stream_output :: "on9log_stream_t \<Rightarrow> on9log_state text_output_cb" where
  "on9log_text_stream_output stream data st =
     on9log_stream_payload stream data 0 ON9LOG_PAYLOAD_META_ARG_INDEX st"

text \<open>\<open>on9log_put_bytes\<close> of bytes that lie in a local array or a literal.\<close>

definition on9log_text_encoder_output :: "on9log_encoder text_output_cb" where
  "on9log_text_encoder_output data enc =
     (if data = [] then enc
      else if length data > enc_cap enc - enc_len enc then enc\<lparr>enc_overflow := True\<rparr>
      else enc_store enc data)"

text \<open>
  \<open>on9log_text_filter_t\<close>: the callback and the flags are arguments, the state is \<open>last_char\<close>
  and the state behind the callback. \<open>filter_loop\<close> is the \<open>for\<close> loop with \<open>left = len - i\<close>.
\<close>

type_synonym 's filter_state = "u8 \<times> 's"

primrec filter_loop ::
    "nat \<Rightarrow> 's text_output_cb \<Rightarrow> bytes \<Rightarrow> nat \<Rightarrow> nat \<Rightarrow> u8 \<Rightarrow> 's \<Rightarrow> nat \<times> u8 \<times> 's" where
  "filter_loop 0 out data i chunk_start last_char s = (chunk_start, last_char, s)"
| "filter_loop (Suc left) out data i chunk_start last_char s =
     (if data ! i = LF \<and> last_char \<noteq> CR
      then (let s = (if i \<noteq> chunk_start then out (take (i - chunk_start) (drop chunk_start data)) s else s)
            in filter_loop left out data (Suc i) i (data ! i) (out [CR] s))
      else filter_loop left out data (Suc i) chunk_start (data ! i) s)"

definition on9log_text_filtered_output ::
    "'s text_output_cb \<Rightarrow> u8 \<Rightarrow> 's filter_state text_output_cb" where
  "on9log_text_filtered_output out flags data fs =
     (let (last_char, s) = fs
      in if flags AND TEXT_CR = 0
         then (if data \<noteq> [] then data ! (length data - 1) else last_char, out data s)
         else
           (let (chunk_start, last_char, s) = filter_loop (length data) out data 0 0 last_char s
            in (last_char,
                if chunk_start \<noteq> length data then out (drop chunk_start data) s else s)))"

section \<open>Pieces of a line\<close>

definition on9log_text_level_color :: "on9log_level_t \<Rightarrow> bytes" where
  "on9log_text_level_color level =
     (if level = ON9_LOG_LEVEL_ERROR then ON9LOG_ANSI_RED
      else if level = ON9_LOG_LEVEL_WARN then ON9LOG_ANSI_YELLOW
      else if level = ON9_LOG_LEVEL_INFO then ON9LOG_ANSI_GREEN
      else if level = ON9_LOG_LEVEL_DEBUG then ON9LOG_ANSI_CYAN
      else ON9LOG_ANSI_WHITE)"

definition on9log_text_level_letter :: "on9log_level_t \<Rightarrow> u8" where
  "on9log_text_level_letter level =
     (if level \<ge> ON9_LOG_LEVEL_ERROR \<and> level \<le> ON9_LOG_LEVEL_VERBOSE
      then ascii ''?EWIDV'' ! unat level else of_char CHR ''?'')"

text \<open>\<open>digits\<close> has ten elements; a store behind them is \<open>None\<close>.\<close>

abbreviation (input) DIGITS :: nat where "DIGITS \<equiv> 10"

definition digit_char :: "u32 \<Rightarrow> u8" where
  "digit_char v = 48 + ucast (v mod 10)"

function digits_loop :: "bytes \<Rightarrow> nat \<Rightarrow> u32 \<Rightarrow> (bytes \<times> nat) option" where
  "digits_loop digits len value =
     (if len \<ge> DIGITS then None
      else
        (let digits = digits[len := digit_char value];
             len = Suc len;
             value = value div 10
         in if value \<noteq> 0 then digits_loop digits len value else Some (digits, len)))"
  by pat_completeness auto
termination
  by (relation "measure (\<lambda>(digits, len, value). DIGITS - len)") auto

declare digits_loop.simps [simp del]

function swap_loop :: "bytes \<Rightarrow> nat \<Rightarrow> nat \<Rightarrow> bytes" where
  "swap_loop digits left right =
     (if left < right
      then swap_loop (digits[left := digits ! right, right := digits ! left]) (Suc left) (right - 1)
      else digits)"
  by pat_completeness auto
termination
  by (relation "measure (\<lambda>(digits, left, right). right - left)") auto

declare swap_loop.simps [simp del]

definition on9log_text_output_u32 :: "'s text_output_cb \<Rightarrow> u32 \<Rightarrow> 's \<Rightarrow> 's option" where
  "on9log_text_output_u32 out value s =
     do { (digits, len) \<leftarrow> digits_loop (replicate DIGITS 0) 0 value;
          let digits = swap_loop digits 0 (len - 1);
          Some (out (take len digits) s) }"

primrec pad_loop :: "nat \<Rightarrow> bytes \<Rightarrow> u32 \<Rightarrow> bytes" where
  "pad_loop 0 digits value = digits"
| "pad_loop (Suc i) digits value = pad_loop i (digits[i := digit_char value]) (value div 10)"

definition on9log_text_output_padded :: "'s text_output_cb \<Rightarrow> u32 \<Rightarrow> nat \<Rightarrow> 's \<Rightarrow> 's option" where
  "on9log_text_output_padded out value width s =
     (if width > DIGITS then None
      else Some (out (take width (pad_loop width (replicate DIGITS 0) value)) s))"

definition text_timestamp_fields :: "'s text_output_cb \<Rightarrow> u32 \<Rightarrow> 's \<Rightarrow> 's option" where
  "text_timestamp_fields out timestamp_ms s =
     (let hours = timestamp_ms div 3600000;
          remainder = timestamp_ms mod 3600000;
          minutes = remainder div 60000;
          remainder = remainder mod 60000;
          seconds = remainder div 1000;
          millis = remainder mod 1000
      in do { s \<leftarrow> (if hours < 100 then on9log_text_output_padded out hours 2 s
                    else on9log_text_output_u32 out hours s);
              s \<leftarrow> on9log_text_output_padded out minutes 2 (out (ascii '':'') s);
              s \<leftarrow> on9log_text_output_padded out seconds 2 (out (ascii '':'') s);
              on9log_text_output_padded out millis 3 (out (ascii ''.'') s) })"

text \<open>\<open>strlen(safe_tag)\<close> and the bytes; NULL is the empty string.\<close>

definition rd_tag :: "mem \<Rightarrow> addr \<Rightarrow> bytes option" where
  "rd_tag m tag = (if tag = NULL then Some [] else do { n \<leftarrow> c_strlen m tag; rd_bytes m tag n })"

definition on9log_text_output_prefix ::
    "mem \<Rightarrow> 's text_output_cb \<Rightarrow> on9log_level_t \<Rightarrow> u32 \<Rightarrow> addr \<Rightarrow> u8 \<Rightarrow> 's \<Rightarrow> 's option" where
  "on9log_text_output_prefix m out level timestamp_ms tag flags s =
     (let has_field = False;
          s = (if flags AND (TEXT_PRETTY OR TEXT_PRETTYLINE) \<noteq> 0
               then out (on9log_text_level_color level) (out ON9LOG_ANSI_BOLD s) else s)
      in do {
        (has_field, s) \<leftarrow>
          (if flags AND TEXT_SHOWTIMESTAMP \<noteq> 0
           then map_option (Pair True) (text_timestamp_fields out timestamp_ms s)
           else Some (has_field, s));
        let (has_field, s) =
          (if flags AND TEXT_SHOWLEVEL \<noteq> 0
           then (True, out [on9log_text_level_letter level] (if has_field then out (ascii '' '') s else s))
           else (has_field, s));
        (has_field, s) \<leftarrow>
          (if flags AND TEXT_SHOWTOPIC \<noteq> 0
           then do { name \<leftarrow> rd_tag m tag;
                     Some (True, out (ascii '']'') (out name (out (ascii ''['')
                                   (if has_field then out (ascii '' '') s else s)))) }
           else Some (has_field, s));
        let s = (if has_field then out (ascii '': '') s else s);
        Some (if flags AND TEXT_PRETTYLINE \<noteq> 0 then out ON9LOG_ANSI_NORMAL s
              else if flags AND TEXT_PRETTY \<noteq> 0 then out ON9LOG_ANSI_RESET s else s) })"

definition on9log_text_output_suffix :: "'s text_output_cb \<Rightarrow> u8 \<Rightarrow> 's \<Rightarrow> 's" where
  "on9log_text_output_suffix out flags s =
     (let s = out [LF] s
      in if flags AND TEXT_PRETTYLINE \<noteq> 0 then out ON9LOG_ANSI_RESET s else s)"

section \<open>Lines to the sinks\<close>

type_synonym line_formatter = "on9log_state filter_state text_formatter_cb"

definition on9log_dispatch_text_line ::
    "on9log_env \<Rightarrow> mem \<Rightarrow> on9log_level_t \<Rightarrow> addr \<Rightarrow> u8 \<Rightarrow> line_formatter option \<Rightarrow> on9log_state \<Rightarrow>
       on9log_state option" where
  "on9log_dispatch_text_line env m level tag flags formatter st =
     (let (stream, st) = on9log_stream_open st;
          st = on9log_stream_send_header stream None st;
          (timestamp_ms, st) = read_clock env st;
          out = on9log_text_filtered_output (on9log_text_stream_output stream) flags
      in do { fs \<leftarrow> on9log_text_output_prefix m out level timestamp_ms tag flags (0, st);
              fs \<leftarrow> (case formatter of None \<Rightarrow> Some fs | Some format \<Rightarrow> format out fs);
              let (last_char, st) = on9log_text_output_suffix out flags fs;
              Some (on9log_stream_end stream st) })"

text \<open>The tag of the core's own lines is a string literal, an object of its own.\<close>

abbreviation (input) literal_addr :: addr where "literal_addr \<equiv> 4"

definition literal_mem :: mem where
  "literal_mem = mem_object literal_addr (ascii ''on9log'' @ [0]) (\<lambda>_. None)"

definition on9log_dropped_text_formatter :: "u32 \<Rightarrow> 's text_formatter_cb" where
  "on9log_dropped_text_formatter cnt out s =
     do { s \<leftarrow> on9log_text_output_u32 out cnt s;
          Some (out (ascii '' log message(s) dropped'') s) }"

definition on9log_emit_dropped_text :: "on9log_env \<Rightarrow> u32 \<Rightarrow> on9log_state \<Rightarrow> on9log_state option" where
  "on9log_emit_dropped_text env dropped_count st =
     on9log_dispatch_text_line env literal_mem ON9_LOG_LEVEL_WARN literal_addr ON9LOG_TEXT_DEFAULT_FLAGS
       (Some (on9log_dropped_text_formatter dropped_count)) st"

definition report_dropped_text :: "on9log_env \<Rightarrow> on9log_state \<Rightarrow> on9log_state option" where
  "report_dropped_text env st =
     (let dropped_count = s_dropped_count st;
          st = st\<lparr>s_dropped_count := 0\<rparr>
      in if dropped_count \<noteq> 0 then on9log_emit_dropped_text env dropped_count st else Some st)"

definition on9log_write_text_with_flags ::
    "on9log_env \<Rightarrow> mem \<Rightarrow> on9log_level_t \<Rightarrow> addr \<Rightarrow> u8 \<Rightarrow> line_formatter option \<Rightarrow> on9log_state \<Rightarrow>
       on9log_state option" where
  "on9log_write_text_with_flags env m level tag text_flags formatter st =
     do { enabled \<leftarrow> on9log_level_enabled env m st level tag;
          if \<not> enabled then Some st
          else do { st \<leftarrow> report_dropped_text env st;
                    on9log_dispatch_text_line env m level tag text_flags formatter st } }"

definition on9log_write_text where
  "on9log_write_text env m level tag formatter st =
     on9log_write_text_with_flags env m level tag ON9LOG_TEXT_DEFAULT_FLAGS formatter st"

section \<open>Boot announcement and buffers\<close>

definition hex_chars :: "u8 \<Rightarrow> bytes" where
  "hex_chars b =
     (let hex = ascii ''0123456789abcdef'' in [hex ! unat (drop_bit 4 b), hex ! unat (b AND 0x0f)])"

primrec boot_hex_loop :: "bytes \<Rightarrow> 's text_output_cb \<Rightarrow> 's \<Rightarrow> 's" where
  "boot_hex_loop [] out s = s"
| "boot_hex_loop (b # bs) out s = boot_hex_loop bs out (out (hex_chars b) s)"

definition on9log_boot_text_formatter ::
    "u32 \<Rightarrow> u32 \<Rightarrow> on9log_image_id_kind_t \<Rightarrow> bytes \<Rightarrow> 's text_formatter_cb" where
  "on9log_boot_text_formatter boot_id reason id_kind ident out s =
     do { s \<leftarrow> on9log_text_output_u32 out boot_id (out (ascii ''boot id='') s);
          s \<leftarrow> on9log_text_output_u32 out reason (out (ascii '' reset reason='') s);
          let s = out (ascii '' image id='') s;
          if ident = [] then Some (out (ascii ''none'') s)
          else do { s \<leftarrow> on9log_text_output_u32 out (ucast (image_id_kind_code id_kind)) s;
                    Some (boot_hex_loop ident out (out (ascii '':'') s)) } }"

definition on9log_emit_boot_text ::
    "on9log_env \<Rightarrow> u32 \<Rightarrow> on9log_reset_reason_t \<Rightarrow> on9log_state \<Rightarrow> (on9log_err_t \<times> on9log_state) option" where
  "on9log_emit_boot_text env boot_id reason st =
     (let (ident, id_kind) = on9log_image_id env
      in map_option (Pair ON9LOG_OK)
           (on9log_dispatch_text_line env literal_mem ON9_LOG_LEVEL_INFO literal_addr
              ON9LOG_TEXT_DEFAULT_FLAGS
              (Some (on9log_boot_text_formatter boot_id (ucast (reset_reason_code reason)) id_kind ident))
              st))"

text \<open>
  \<open>encoded\<close> stands for the first \<open>encoded_len\<close> bytes of the array of 96; it is flushed when it
  is full, so a triple always fits.
\<close>

abbreviation (input) ENCODED_SIZE :: nat where "ENCODED_SIZE \<equiv> 96"

primrec buffer_text_loop :: "bytes \<Rightarrow> bytes \<Rightarrow> 's text_output_cb \<Rightarrow> 's \<Rightarrow> (bytes \<times> 's) option" where
  "buffer_text_loop [] encoded out s = Some (encoded, s)"
| "buffer_text_loop (b # bs) encoded out s =
     (let encoded = encoded @ ascii '' '' @ hex_chars b
      in if length encoded > ENCODED_SIZE then None
         else if length encoded = ENCODED_SIZE then buffer_text_loop bs [] out (out encoded s)
         else buffer_text_loop bs encoded out s)"

definition on9log_buffer_text_formatter :: "mem \<Rightarrow> addr \<Rightarrow> u32 \<Rightarrow> 's text_formatter_cb" where
  "on9log_buffer_text_formatter m data len out s =
     do { s \<leftarrow> on9log_text_output_u32 out len (out (ascii ''buffer['') s);
          let s = out (ascii '']:'') s;
          bs \<leftarrow> rd_bytes m data (unat len);
          (encoded, s) \<leftarrow> buffer_text_loop bs [] out s;
          Some (if encoded \<noteq> [] then out encoded s else s) }"

definition on9log_write_buffer_text ::
    "on9log_env \<Rightarrow> mem \<Rightarrow> on9log_level_t \<Rightarrow> addr \<Rightarrow> u8 \<Rightarrow> addr \<Rightarrow> nat \<Rightarrow> on9log_state \<Rightarrow>
       on9log_state option" where
  "on9log_write_buffer_text env m level tag text_flags data buffer_len st =
     do { enabled \<leftarrow> on9log_level_enabled env m st level tag;
          if \<not> enabled then Some st
          else if data = NULL \<and> buffer_len \<noteq> 0 \<or> buffer_len > 0xffffffff
          then Some (count_dropped st)
          else on9log_write_text_with_flags env m level tag text_flags
                 (Some (on9log_buffer_text_formatter m data (word_of_nat buffer_len))) st }"

end
