(* ===== verification/TextWrite.thy ===== *)
theory TextWrite
  imports TextLine
begin

text \<open>
  Log calls of the plain-text build: \<open>on9log_init\<close> and the cookie stream \<open>vfprintf\<close> writes to,
  task calls, ISR calls and the dispatch of queued ISR lines.
\<close>

section \<open>The cookie stream\<close>

text \<open>
  \<open>s_on9log_printf_stream\<close>; \<open>port_locked\<close> whether \<open>on9log_port_lock\<close> is held, \<open>open_streams\<close>
  the \<open>FILE\<close>s created and not closed.
\<close>

record on9log_printf_t =
  s_on9log_printf_stream :: addr
  port_locked :: bool
  open_streams :: "addr list"

definition on9log_printf_initial :: on9log_printf_t where
  "on9log_printf_initial = \<lparr>s_on9log_printf_stream = NULL, port_locked = False, open_streams = []\<rparr>"

text \<open>
  \<open>opened\<close> is the result of \<open>funopen\<close> or \<open>fopencookie\<close> (NULL on failure), \<open>unbuffered\<close> that of
  \<open>setvbuf\<close> (0 on success). The first test runs without the lock, the second with it. Taking the
  non-recursive lock twice does not return: \<open>None\<close>.
\<close>

definition printf_port_lock :: "on9log_printf_t \<Rightarrow> on9log_printf_t option" where
  "printf_port_lock p = (if port_locked p then None else Some (p\<lparr>port_locked := True\<rparr>))"

definition printf_port_unlock :: "on9log_printf_t \<Rightarrow> on9log_printf_t" where
  "printf_port_unlock p = p\<lparr>port_locked := False\<rparr>"

definition on9log_init :: "addr \<Rightarrow> int \<Rightarrow> on9log_printf_t \<Rightarrow> (on9log_err_t \<times> on9log_printf_t) option" where
  "on9log_init opened unbuffered p =
     (if s_on9log_printf_stream p \<noteq> NULL then Some (ON9LOG_OK, p)
      else do {
        p \<leftarrow> printf_port_lock p;
        if s_on9log_printf_stream p \<noteq> NULL then Some (ON9LOG_OK, printf_port_unlock p)
        else if opened = NULL then Some (ON9LOG_ERR_NO_MEM, printf_port_unlock p)
        else
          (let p = p\<lparr>open_streams := opened # open_streams p\<rparr>
           in if unbuffered \<noteq> 0
              then Some (ON9LOG_ERR_FAIL,
                         printf_port_unlock (p\<lparr>open_streams := removeAll opened (open_streams p)\<rparr>))
              else Some (ON9LOG_OK, printf_port_unlock (p\<lparr>s_on9log_printf_stream := opened\<rparr>))) })"

text \<open>
  The binary build's \<open>on9log_init\<close> has nothing to do, and this build encodes no TIME_SYNC packet: it
  leaves the caller's buffer as it is.
\<close>

definition on9log_init_binary :: on9log_err_t where
  "on9log_init_binary = ON9LOG_OK"

definition on9log_encode_time_sync_plain :: "bytes option \<Rightarrow> nat \<Rightarrow> u32 \<Rightarrow> nat \<times> bytes option" where
  "on9log_encode_time_sync_plain buf cap boot_id = (0, buf)"

text \<open>
  \<open>on9log_printf_cookie_write\<close>: the cookie's callback is given the data, all of it counts as
  written. \<open>vfprintf\<close> on the unbuffered stream calls it any number of times: \<open>printf_out\<close> maps
  the format (contents, after the NULL test) and the arguments to the chunks.
\<close>

type_synonym printf_out = "mem \<Rightarrow> addr option \<Rightarrow> va_list \<Rightarrow> bytes list"

definition on9log_printf_cookie_write :: "'s text_output_cb \<Rightarrow> bytes \<Rightarrow> 's \<Rightarrow> nat \<times> 's" where
  "on9log_printf_cookie_write out data s = (length data, out data s)"

definition format_or_empty :: "addr \<Rightarrow> addr option" where
  "format_or_empty format = (if format \<noteq> NULL then Some format else None)"

definition on9log_printf_formatter ::
    "printf_out \<Rightarrow> addr \<Rightarrow> mem \<Rightarrow> addr \<Rightarrow> va_list \<Rightarrow> 's text_formatter_cb" where
  "on9log_printf_formatter vfprintf stream m format args out s =
     (if stream = NULL then Some s
      else Some (fold (\<lambda>data s. snd (on9log_printf_cookie_write out data s))
                   (vfprintf m (format_or_empty format) args) s))"

section \<open>Task calls\<close>

text \<open>\<open>format_scan\<close>, the type table and the counts are ignored by the plain-text build.\<close>

definition on9log_vwrite_text ::
    "on9log_env \<Rightarrow> printf_out \<Rightarrow> addr \<Rightarrow> mem \<Rightarrow> on9log_level_t \<Rightarrow> addr \<Rightarrow> u8 \<Rightarrow> addr \<Rightarrow> va_list \<Rightarrow>
       on9log_state \<Rightarrow> on9log_state option" where
  "on9log_vwrite_text env vfprintf stream m level tag text_flags format args st =
     (if stream = NULL
      then do { enabled \<leftarrow> on9log_level_enabled env m st level tag;
                Some (if enabled then count_dropped st else st) }
      else on9log_write_text_with_flags env m level tag text_flags
             (Some (on9log_printf_formatter vfprintf stream m format args)) st)"

definition on9log_dispatch_packet_text ::
    "on9log_env \<Rightarrow> bytes option \<Rightarrow> on9log_state \<Rightarrow> (on9log_err_t \<times> on9log_state) option" where
  "on9log_dispatch_packet_text env packet st =
     (case packet of
        None \<Rightarrow> Some (ON9LOG_ERR_INVALID_ARG, st)
      | Some p \<Rightarrow>
          if p = [] then Some (ON9LOG_ERR_INVALID_ARG, st)
          else do {
            st \<leftarrow> report_dropped_text env st;
            let (stream, st) = on9log_stream_open st;
            let st = on9log_stream_send_header stream None st;
            let st = on9log_stream_payload stream p 0 ON9LOG_PAYLOAD_META_ARG_INDEX st;
            Some (ON9LOG_OK, on9log_stream_end stream st) })"

section \<open>ISR calls\<close>

text \<open>
  \<open>text\<close> is the caller's pointer, given by the contents it points to. The array \<open>packet\<close> starts
  uninitialised; only what the encoder wrote is queued.
\<close>

definition on9log_write_text_isr_with_flags ::
    "on9log_env \<Rightarrow> mem \<Rightarrow> on9log_level_t \<Rightarrow> addr \<Rightarrow> u8 \<Rightarrow> bytes option \<Rightarrow> nat \<Rightarrow> on9log_state \<Rightarrow>
       (bool \<times> on9log_state) option" where
  "on9log_write_text_isr_with_flags env m level tag text_flags txt text_len st =
     do { enabled \<leftarrow> on9log_level_enabled env m st level tag;
          if \<not> enabled then Some (True, st)
          else if \<not> port_isr_ready env then Some (True, st)
          else if txt = None \<and> text_len \<noteq> 0 then Some (False, count_dropped st)
          else do {
            let enc = enc_init (cfg_isr_packet_max env) (replicate (cfg_isr_packet_max env) 0);
            let out = on9log_text_filtered_output on9log_text_encoder_output text_flags;
            fs \<leftarrow> on9log_text_output_prefix m out level (port_isr_timestamp_ms env) tag text_flags (0, enc);
            let fs = out (take text_len (case txt of None \<Rightarrow> [] | Some t \<Rightarrow> t)) fs;
            let (last_char, enc) = on9log_text_output_suffix out text_flags fs;
            if enc_overflow enc then Some (False, count_dropped st)
            else
              (let (accepted, st) = on9log_port_isr_enqueue_packet env (take (enc_len enc) (enc_data enc)) st
               in if accepted then Some (True, st) else Some (False, count_dropped st)) } }"

definition on9log_write_text_isr where
  "on9log_write_text_isr env m level tag txt text_len st =
     on9log_write_text_isr_with_flags env m level tag ON9LOG_TEXT_DEFAULT_FLAGS txt text_len st"

text \<open>
  \<open>vsnprintf n\<close> with a buffer of \<open>n\<close> bytes: the length the whole text has (negative on failure)
  and the text that was stored, cut to \<open>n - 1\<close> bytes.
\<close>

type_synonym snprintf_out = "nat \<Rightarrow> mem \<Rightarrow> addr option \<Rightarrow> va_list \<Rightarrow> int \<times> bytes"

definition on9log_vwrite_isr_text ::
    "on9log_env \<Rightarrow> snprintf_out \<Rightarrow> mem \<Rightarrow> on9log_level_t \<Rightarrow> addr \<Rightarrow> u8 \<Rightarrow> addr \<Rightarrow> bytes option \<Rightarrow> va_list \<Rightarrow>
       on9log_state \<Rightarrow> (bool \<times> on9log_state) option" where
  "on9log_vwrite_isr_text env vsnprintf m level tag text_flags format arg_types args st =
     do { enabled \<leftarrow> on9log_level_enabled env m st level tag;
          if \<not> enabled then Some (True, st)
          else if \<not> port_isr_ready env then Some (True, st)
          else do {
            safe \<leftarrow> on9log_arg_types_are_isr_safe arg_types;
            if \<not> safe then Some (False, count_dropped st)
            else
              (let (text_len, txt) = vsnprintf (cfg_isr_packet_max env) m (format_or_empty format) args
               in if text_len < 0 \<or> nat text_len \<ge> cfg_isr_packet_max env
                  then Some (False, count_dropped st)
                  else on9log_write_text_isr_with_flags env m level tag text_flags (Some txt)
                         (nat text_len) st) } }"

section \<open>The cookie stream is created once\<close>

primrec printf_init_all ::
    "(addr \<times> int) list \<Rightarrow> on9log_printf_t \<Rightarrow> (on9log_err_t list \<times> on9log_printf_t) option" where
  "printf_init_all [] p = Some ([], p)"
| "printf_init_all (a # as) p =
     do { (err, p) \<leftarrow> on9log_init (fst a) (snd a) p;
          (errs, p) \<leftarrow> printf_init_all as p;
          Some (err # errs, p) }"

primrec printf_errors :: "bool \<Rightarrow> (addr \<times> int) list \<Rightarrow> on9log_err_t list" where
  "printf_errors inst [] = []"
| "printf_errors inst (a # as) =
     (if inst \<or> fst a \<noteq> NULL \<and> snd a = 0 then ON9LOG_OK
      else if fst a = NULL then ON9LOG_ERR_NO_MEM else ON9LOG_ERR_FAIL) #
     printf_errors (inst \<or> fst a \<noteq> NULL \<and> snd a = 0) as"

definition printf_ok :: "on9log_printf_t \<Rightarrow> bool" where
  "printf_ok p \<longleftrightarrow> \<not> port_locked p \<and>
     open_streams p = (if s_on9log_printf_stream p = NULL then [] else [s_on9log_printf_stream p])"

lemma printf_init_step:
  assumes "printf_ok p"
  shows "\<exists>err p'. on9log_init opened unbuffered p = Some (err, p') \<and> printf_ok p' \<and>
     (s_on9log_printf_stream p' \<noteq> NULL) = (s_on9log_printf_stream p \<noteq> NULL \<or> opened \<noteq> NULL \<and> unbuffered = 0) \<and>
     [err] = printf_errors (s_on9log_printf_stream p \<noteq> NULL) [(opened, unbuffered)] \<and>
     (s_on9log_printf_stream p \<noteq> NULL \<longrightarrow> p' = p)"
  using assms
  by (cases "s_on9log_printf_stream p = NULL")
    (auto simp: on9log_init_def printf_ok_def printf_port_lock_def printf_port_unlock_def Let_def)

lemma printf_init_all_ok:
  "printf_ok p \<Longrightarrow> \<exists>p'. printf_init_all attempts p = Some (printf_errors (s_on9log_printf_stream p \<noteq> NULL) attempts, p') \<and>
     printf_ok p' \<and> (s_on9log_printf_stream p' \<noteq> NULL) =
       (s_on9log_printf_stream p \<noteq> NULL \<or> list_ex (\<lambda>a. fst a \<noteq> NULL \<and> snd a = 0) attempts)"
proof (induction attempts arbitrary: p)
  case (Cons a attempts)
  obtain err p1 where s: "on9log_init (fst a) (snd a) p = Some (err, p1)" "printf_ok p1"
    "(s_on9log_printf_stream p1 \<noteq> NULL) = (s_on9log_printf_stream p \<noteq> NULL \<or> fst a \<noteq> NULL \<and> snd a = 0)"
    "[err] = printf_errors (s_on9log_printf_stream p \<noteq> NULL) [(fst a, snd a)]"
    using printf_init_step [OF Cons.prems, of "fst a" "snd a"] by blast
  obtain p2 where "printf_init_all attempts p1 = Some (printf_errors (s_on9log_printf_stream p1 \<noteq> NULL) attempts, p2)"
    "printf_ok p2" "(s_on9log_printf_stream p2 \<noteq> NULL) =
       (s_on9log_printf_stream p1 \<noteq> NULL \<or> list_ex (\<lambda>a. fst a \<noteq> NULL \<and> snd a = 0) attempts)"
    using Cons.IH [OF s(2)] by blast
  then show ?case using s(1,3,4) by simp
qed simp

text \<open>Also: However often the plain-text logger is initialised and whatever fails: the call returns with
  the lock released, at most one stream exists and it is the one \<open>vfprintf\<close> will use; it exists
  exactly when some attempt could open and unbuffer it, and the results say which.\<close>

theorem text_init_opens_one_stream:
  "\<exists>p. printf_init_all attempts on9log_printf_initial = Some (printf_errors False attempts, p) \<and>
     \<not> port_locked p \<and>
     open_streams p = (if s_on9log_printf_stream p = NULL then [] else [s_on9log_printf_stream p]) \<and>
     (s_on9log_printf_stream p \<noteq> NULL) = list_ex (\<lambda>a. fst a \<noteq> NULL \<and> snd a = 0) attempts"
  using printf_init_all_ok [of on9log_printf_initial attempts]
  by (simp add: on9log_printf_initial_def printf_ok_def)

end
