(* ===== verification/TextSpec.thy ===== *)
theory TextSpec
  imports TextWrite
begin

text \<open>
  What a line of the plain-text build is, as one byte string, and the contract of output
  callbacks: whoever is given one (the prefix, the formatters, the suffix, the CR filter) appends
  its text to whatever the callback writes to, in pieces of any size. The pieces do not show in
  the result, so the line is a function of level, time, tag, flags and body.
\<close>

section \<open>Decimal numbers\<close>

definition dec_char :: "nat \<Rightarrow> u8" where
  "dec_char n = word_of_nat (48 + n mod 10)"

fun dec_digits :: "nat \<Rightarrow> bytes" where
  "dec_digits n = (if n < 10 then [dec_char n] else dec_digits (n div 10) @ [dec_char n])"

declare dec_digits.simps [simp del]

primrec pad_digits :: "nat \<Rightarrow> nat \<Rightarrow> bytes" where
  "pad_digits 0 n = []"
| "pad_digits (Suc w) n = pad_digits w (n div 10) @ [dec_char n]"

definition dec_val :: "bytes \<Rightarrow> nat" where
  "dec_val bs = foldl (\<lambda>v b. 10 * v + (unat b - 48)) 0 bs"

lemma dec_val_snoc: "dec_val (bs @ [b]) = 10 * dec_val bs + (unat b - 48)"
  by (simp add: dec_val_def)

lemma unat_dec_char: "unat (dec_char n) = 48 + n mod 10"
proof -
  have "n mod 10 < 10" by simp
  then have "48 + n mod 10 < 256" by linarith
  then show ?thesis by (simp only: dec_char_def unat_word_of_nat_u8 mod_less)
qed

lemma dec_val_dec_digits [simp]: "dec_val (dec_digits n) = n"
proof (induction n rule: dec_digits.induct)
  case (1 n)
  then show ?case
    by (cases "n < 10"; subst dec_digits.simps) (simp_all add: dec_val_def unat_dec_char)
qed

lemma length_pad_digits [simp]: "length (pad_digits w n) = w"
  by (induction w arbitrary: n) simp_all

lemma dec_val_pad_digits [simp]: "dec_val (pad_digits w n) = n mod 10 ^ w"
proof (induction w arbitrary: n)
  case 0
  then show ?case by (simp add: dec_val_def)
next
  case (Suc w)
  show ?case by (simp add: dec_val_snoc Suc unat_dec_char mod_mult2_eq)
qed

lemma length_dec_digits: "0 < k \<Longrightarrow> n < 10 ^ k \<Longrightarrow> length (dec_digits n) \<le> k"
proof (induction k arbitrary: n)
  case (Suc k)
  show ?case
  proof (cases "n < 10")
    case True
    then show ?thesis by (subst dec_digits.simps) simp
  next
    case False
    then have "k \<noteq> 0" using Suc.prems(2) by (cases k) auto
    moreover have "n div 10 < 10 ^ k" using Suc.prems(2) by (simp add: div_less_iff_less_mult mult.commute)
    ultimately have "length (dec_digits (n div 10)) \<le> k" using Suc.IH by simp
    then show ?thesis using False by (subst dec_digits.simps) simp
  qed
qed simp

lemma dec_digits_nonempty: "0 < length (dec_digits n)"
  by (subst dec_digits.simps) simp

section \<open>The loops of the code compute them\<close>

lemma digit_char_eq: "digit_char v = dec_char (unat v)"
proof -
  have "unat (v mod 10) = unat v mod 10" by (simp add: unat_mod)
  then show ?thesis by (simp add: digit_char_def dec_char_def ucast_u8_nat)
qed

lemma unat_div_10: "unat (v div 10 :: u32) = unat v div 10"
  by (simp add: unat_div)

lemma digits_loop_writes:
  "length digits = DIGITS \<Longrightarrow> len + length (dec_digits (unat v)) \<le> DIGITS \<Longrightarrow>
     \<exists>digits'. digits_loop digits len v = Some (digits', len + length (dec_digits (unat v))) \<and>
       length digits' = DIGITS \<and>
       take (len + length (dec_digits (unat v))) digits' = take len digits @ rev (dec_digits (unat v))"
proof (induction digits len v rule: digits_loop.induct)
  case (1 digits len v)
  have room: "len < DIGITS" using "1.prems"(2) dec_digits_nonempty [of "unat v"] by linarith
  let ?digits = "digits[len := digit_char v]"
  have head: "take (Suc len) ?digits = take len digits @ [dec_char (unat v)]"
    using room "1.prems"(1) by (simp add: take_append_drop_Cons digit_char_eq)
  have small: "v div 10 = 0 \<longleftrightarrow> unat v < 10"
    by (metis div_eq_0_iff unat_0 unat_div_10 unat_eq_zero zero_neq_numeral)
  show ?case
  proof (cases "unat v < 10")
    case True
    then have "v div 10 = 0" using small by simp
    then show ?thesis using room head True "1.prems"(1)
      by (subst digits_loop.simps, subst (1 2 3) dec_digits.simps) (simp add: Let_def)
  next
    case False
    then have big: "v div 10 \<noteq> 0" using small by simp
    have d: "dec_digits (unat v) = dec_digits (unat (v div 10)) @ [dec_char (unat v)]"
      using False by (subst dec_digits.simps) (simp add: unat_div_10)
    have "Suc len + length (dec_digits (unat (v div 10))) \<le> DIGITS" using "1.prems"(2) d by simp
    then obtain digits' where
      "digits_loop ?digits (Suc len) (v div 10) = Some (digits', Suc len + length (dec_digits (unat (v div 10))))"
      "length digits' = DIGITS"
      "take (Suc len + length (dec_digits (unat (v div 10)))) digits' =
        take (Suc len) ?digits @ rev (dec_digits (unat (v div 10)))"
      using "1.IH" [OF _ refl refl refl big] room "1.prems"(1) by auto
    then show ?thesis using room big head by (subst digits_loop.simps) (simp add: Let_def d)
  qed
qed

lemma swap_loop_rev: "swap_loop (a @ mid @ b) (length a) (length a + length mid - 1) = a @ rev mid @ b"
proof (induction "length mid" arbitrary: a mid b rule: less_induct)
  case less
  show ?case
  proof (cases mid)
    case Nil
    have "\<not> length a < length a - 1" by linarith
    then show ?thesis using Nil by (subst swap_loop.simps) (simp del: not_less)
  next
    case (Cons x xs)
    show ?thesis
    proof (cases xs rule: rev_cases)
      case Nil
      then show ?thesis using Cons by (subst swap_loop.simps) simp
    next
      case (snoc ys y)
      have mid: "mid = x # ys @ [y]" using Cons snoc by simp
      have "(a @ mid @ b)[length a := (a @ mid @ b) ! (length a + length mid - 1),
          length a + length mid - 1 := (a @ mid @ b) ! length a] = (a @ [y]) @ ys @ (x # b)"
        by (simp add: mid nth_append list_update_append)
      moreover have "swap_loop ((a @ [y]) @ ys @ (x # b)) (length (a @ [y])) (length (a @ [y]) + length ys - 1) =
          (a @ [y]) @ rev ys @ (x # b)"
        using less [of ys "a @ [y]" "x # b"] mid by simp
      ultimately show ?thesis
        by (subst swap_loop.simps) (simp add: mid)
    qed
  qed
qed

lemma pad_loop_writes: "w \<le> length digits \<Longrightarrow> pad_loop w digits v = pad_digits w (unat v) @ drop w digits"
proof (induction w arbitrary: digits v)
  case (Suc w)
  have "drop w (digits[w := digit_char v]) = dec_char (unat v) # drop (Suc w) digits"
    using Suc.prems by (simp add: drop_update_swap digit_char_eq Cons_nth_drop_Suc [symmetric])
  then show ?case using Suc by (simp add: unat_div_10)
qed simp

section \<open>The line\<close>

text \<open>LF becomes CR LF unless a CR precedes it, \<open>l\<close> being the byte before.\<close>

fun crlf :: "u8 \<Rightarrow> bytes \<Rightarrow> bytes" where
  "crlf l [] = []"
| "crlf l (b # bs) = (if b = LF \<and> l \<noteq> CR then [CR, LF] else [b]) @ crlf b bs"

lemma crlf_append: "crlf l (a @ b) = crlf l a @ crlf (last (l # a)) b"
  by (induction a arbitrary: l) auto

definition text_filtered :: "u8 \<Rightarrow> u8 \<Rightarrow> bytes \<Rightarrow> bytes" where
  "text_filtered flags l bs = (if flags AND TEXT_CR = 0 then bs else crlf l bs)"

lemma text_filtered_append:
  "text_filtered flags l (a @ b) = text_filtered flags l a @ text_filtered flags (last (l # a)) b"
  by (simp add: text_filtered_def crlf_append)

definition text_timestamp :: "nat \<Rightarrow> bytes" where
  "text_timestamp ms =
     (let hours = ms div 3600000; remainder = ms mod 3600000
      in (if hours < 100 then pad_digits 2 hours else dec_digits hours) @ ascii '':'' @
         pad_digits 2 (remainder div 60000) @ ascii '':'' @
         pad_digits 2 (remainder mod 60000 div 1000) @ ascii ''.'' @
         pad_digits 3 (remainder mod 60000 mod 1000))"

definition text_fields :: "on9log_level_t \<Rightarrow> nat \<Rightarrow> bytes \<Rightarrow> u8 \<Rightarrow> bytes list" where
  "text_fields level ms name flags =
     (if flags AND TEXT_SHOWTIMESTAMP \<noteq> 0 then [text_timestamp ms] else []) @
     (if flags AND TEXT_SHOWLEVEL \<noteq> 0 then [[on9log_text_level_letter level]] else []) @
     (if flags AND TEXT_SHOWTOPIC \<noteq> 0 then [ascii ''['' @ name @ ascii '']''] else [])"

fun joined :: "bytes list \<Rightarrow> bytes" where
  "joined [] = []"
| "joined [f] = f @ ascii '': ''"
| "joined (f # fs) = f @ ascii '' '' @ joined fs"

definition text_prefix :: "on9log_level_t \<Rightarrow> nat \<Rightarrow> bytes \<Rightarrow> u8 \<Rightarrow> bytes" where
  "text_prefix level ms name flags =
     (if flags AND (TEXT_PRETTY OR TEXT_PRETTYLINE) \<noteq> 0
      then ON9LOG_ANSI_BOLD @ on9log_text_level_color level else []) @
     joined (text_fields level ms name flags) @
     (if flags AND TEXT_PRETTYLINE \<noteq> 0 then ON9LOG_ANSI_NORMAL
      else if flags AND TEXT_PRETTY \<noteq> 0 then ON9LOG_ANSI_RESET else [])"

definition text_suffix :: "u8 \<Rightarrow> bytes" where
  "text_suffix flags = [LF] @ (if flags AND TEXT_PRETTYLINE \<noteq> 0 then ON9LOG_ANSI_RESET else [])"

definition text_line :: "on9log_level_t \<Rightarrow> nat \<Rightarrow> bytes \<Rightarrow> u8 \<Rightarrow> bytes \<Rightarrow> bytes" where
  "text_line level ms name flags body =
     text_filtered flags 0 (text_prefix level ms name flags @ body @ text_suffix flags)"

text \<open>The bodies of the core's own lines.\<close>

definition dropped_body :: "u32 \<Rightarrow> bytes" where
  "dropped_body n = dec_digits (unat n) @ ascii '' log message(s) dropped''"

definition buffer_body :: "bytes \<Rightarrow> bytes" where
  "buffer_body bs = ascii ''buffer['' @ dec_digits (length bs) @ ascii '']:'' @
     concat (map (\<lambda>b. ascii '' '' @ hex_chars b) bs)"

definition boot_body :: "u32 \<Rightarrow> on9log_reset_reason_t \<Rightarrow> bytes \<times> on9log_image_id_kind_t \<Rightarrow> bytes" where
  "boot_body boot_id reason img =
     ascii ''boot id='' @ dec_digits (unat boot_id) @
     ascii '' reset reason='' @ dec_digits (unat (reset_reason_code reason)) @ ascii '' image id='' @
     (if fst img = [] then ascii ''none''
      else dec_digits (unat (image_id_kind_code (snd img))) @ ascii '':'' @ concat (map hex_chars (fst img)))"

section \<open>Output callbacks\<close>

text \<open>
  \<open>appended s bs s'\<close>: writing has taken \<open>s\<close> to \<open>s'\<close> and added the bytes \<open>bs\<close>.
\<close>

locale text_output =
  fixes out :: "bytes \<Rightarrow> 's \<Rightarrow> 's"
    and ok :: "'s \<Rightarrow> bool"
    and appended :: "'s \<Rightarrow> bytes \<Rightarrow> 's \<Rightarrow> bool"
  assumes out_law: "ok s \<Longrightarrow> appended s bs (out bs s)"
    and nil_law: "ok s \<Longrightarrow> appended s [] s"
    and trans_law: "ok s \<Longrightarrow> appended s a s1 \<Longrightarrow> appended s1 b s2 \<Longrightarrow> appended s (a @ b) s2"
    and ok_law: "ok s \<Longrightarrow> appended s a s1 \<Longrightarrow> ok s1"
begin

definition emits :: "('s \<Rightarrow> 's option) \<Rightarrow> bytes \<Rightarrow> bool" where
  "emits f bs \<longleftrightarrow> (\<forall>s. ok s \<longrightarrow> (\<exists>s'. f s = Some s' \<and> appended s bs s'))"

lemma emits_run: "emits f bs \<Longrightarrow> ok s \<Longrightarrow> \<exists>s'. f s = Some s' \<and> appended s bs s' \<and> ok s'"
  unfolding emits_def using ok_law by blast

lemma emits_Some: "emits Some []"
  by (simp add: emits_def nil_law)

lemma emits_then: "emits f a \<Longrightarrow> emits g b \<Longrightarrow> emits (\<lambda>s. Option.bind (f s) g) (a @ b)"
  unfolding emits_def by (metis bind.bind_lunit trans_law ok_law)

lemma emits_out: "emits g b \<Longrightarrow> emits (\<lambda>s. g (out a s)) (a @ b)"
  unfolding emits_def by (meson out_law ok_law trans_law)

lemma emits_last_out: "emits (\<lambda>s. Some (out a s)) a"
  by (simp add: emits_def out_law)

lemma emits_u32: "emits (on9log_text_output_u32 out v) (dec_digits (unat v))"
proof -
  let ?d = "dec_digits (unat v)"
  have "unat v < 10 ^ 10" using unat_u32_less [of v] by simp
  then have len: "length ?d \<le> DIGITS" using length_dec_digits [of DIGITS] by simp
  obtain digits where d: "digits_loop (replicate DIGITS 0) 0 v = Some (digits, length ?d)"
    "length digits = DIGITS" "take (length ?d) digits = rev ?d"
    using digits_loop_writes [of "replicate DIGITS 0" 0 v] len by auto
  have "digits = rev ?d @ drop (length ?d) digits"
    using append_take_drop_id [of "length ?d" digits] d(3) by simp
  then have "swap_loop digits 0 (length ?d - 1) = ?d @ drop (length ?d) digits"
    using swap_loop_rev [of "[]" "rev ?d" "drop (length ?d) digits"] by simp
  then show ?thesis using out_law by (simp add: emits_def on9log_text_output_u32_def d(1))
qed

lemma emits_padded: "w \<le> DIGITS \<Longrightarrow> emits (\<lambda>s. on9log_text_output_padded out v w s) (pad_digits w (unat v))"
  using out_law by (simp add: emits_def on9log_text_output_padded_def pad_loop_writes)

lemma emits_timestamp: "emits (text_timestamp_fields out ms) (text_timestamp (unat ms))"
proof -
  let ?h = "ms div 3600000" and ?r = "ms mod 3600000"
  have u: "unat ?h = unat ms div 3600000" "unat ?r = unat ms mod 3600000"
    "unat (?r div 60000) = unat ms mod 3600000 div 60000"
    "unat (?r mod 60000 div 1000) = unat ms mod 3600000 mod 60000 div 1000"
    "unat (?r mod 60000 mod 1000) = unat ms mod 3600000 mod 60000 mod 1000"
    by (simp_all add: unat_div unat_mod)
  have small: "?h < 100 \<longleftrightarrow> unat ms div 3600000 < 100" by (simp add: word_less_nat_alt u(1))
  have hours: "emits (\<lambda>s. if ?h < 100 then on9log_text_output_padded out ?h 2 s else on9log_text_output_u32 out ?h s)
      (if unat ms div 3600000 < 100 then pad_digits 2 (unat ms div 3600000) else dec_digits (unat ms div 3600000))"
    using emits_padded [of 2 ?h] emits_u32 [of ?h] by (auto simp: small u(1))
  note rest = emits_out [OF emits_padded [of 3 "?r mod 60000 mod 1000", unfolded u]]
  note rest = emits_then [OF emits_padded [of 2 "?r mod 60000 div 1000", unfolded u] rest]
  note rest = emits_then [OF emits_padded [of 2 "?r div 60000", unfolded u] emits_out [OF rest]]
  show ?thesis
    using emits_then [OF hours emits_out [OF rest]]
    by (simp add: text_timestamp_fields_def [abs_def] text_timestamp_def Let_def)
qed


lemma appended_if: "ok s \<Longrightarrow> appended s (if c then a else []) (if c then out a s else s)"
  by (simp add: out_law nil_law)

lemma appended_out2: "ok s \<Longrightarrow> appended s0 a s \<Longrightarrow> ok s0 \<Longrightarrow> appended s0 (a @ b) (out b s)"
  by (blast intro: trans_law out_law)

lemma ok_out: "ok s \<Longrightarrow> ok (out a s)"
  using out_law ok_law by blast

lemma appended_first: "ok s \<Longrightarrow> appended (out a s) b s2 \<Longrightarrow> appended s (a @ b) s2"
  by (blast intro: trans_law out_law)

lemma emits_prefix:
  assumes "flags AND TEXT_SHOWTOPIC \<noteq> 0 \<Longrightarrow> rd_tag m tag = Some name"
  shows "emits (on9log_text_output_prefix m out level ms tag flags) (text_prefix level (unat ms) name flags)"
  unfolding emits_def
proof (intro allI impI)
  fix s
  assume s: "ok s"
  define time where "time = (flags AND TEXT_SHOWTIMESTAMP \<noteq> 0)"
  define lvl where "lvl = (flags AND TEXT_SHOWLEVEL \<noteq> 0)"
  define topic where "topic = (flags AND TEXT_SHOWTOPIC \<noteq> 0)"
  define T where "T = (if time then text_timestamp (unat ms) else [])"
  define L where "L = (if lvl then (if time then ascii '' '' else []) @ [on9log_text_level_letter level] else [])"
  define P where "P = (if topic then (if time \<or> lvl then ascii '' '' else []) @ ascii ''['' @ name @ ascii '']'' else [])"
  define C where "C = (if flags AND (TEXT_PRETTY OR TEXT_PRETTYLINE) \<noteq> 0
    then ON9LOG_ANSI_BOLD @ on9log_text_level_color level else [])"
  define E where "E = (if flags AND TEXT_PRETTYLINE \<noteq> 0 then ON9LOG_ANSI_NORMAL
      else if flags AND TEXT_PRETTY \<noteq> 0 then ON9LOG_ANSI_RESET else [])"
  define s1 where "s1 = (if flags AND (TEXT_PRETTY OR TEXT_PRETTYLINE) \<noteq> 0
    then out (on9log_text_level_color level) (out ON9LOG_ANSI_BOLD s) else s)"
  have a1: "appended s C s1" unfolding s1_def C_def using s by (auto intro: nil_law appended_out2 out_law ok_law)
  then have ok1: "ok s1" using s ok_law by blast
  obtain s2 where s2: "(if time then map_option (Pair True) (text_timestamp_fields out ms s1)
      else Some (False, s1)) = Some (time, s2)" and a2: "appended s1 T s2" and ok2: "ok s2"
    using emits_run [OF emits_timestamp ok1] nil_law [OF ok1] ok1 unfolding T_def by (cases time) auto
  define s3 where "s3 = (if lvl then out [on9log_text_level_letter level] (if time then out (ascii '' '') s2 else s2) else s2)"
  have a3: "appended s2 L s3" unfolding s3_def L_def
    using ok2 appended_if [OF ok2, of time "ascii '' ''"] by (auto intro: nil_law appended_out2 out_law ok_law)
  then have ok3: "ok s3" using ok2 ok_law by blast
  define s4 where "s4 = (if topic then out (ascii '']'') (out name (out (ascii ''['')
    (if time \<or> lvl then out (ascii '' '') s3 else s3))) else s3)"
  have a4: "appended s3 P s4"
  proof (cases topic)
    case True
    let ?a = "if time \<or> lvl then ascii '' '' else []" and ?s = "if time \<or> lvl then out (ascii '' '') s3 else s3"
    have b: "appended s3 ?a ?s" by (rule appended_if [OF ok3])
    have c: "appended s3 (?a @ ascii ''['') (out (ascii ''['') ?s)" using b ok3 by (blast intro: appended_out2 ok_law)
    have d: "appended s3 ((?a @ ascii ''['') @ name) (out name (out (ascii ''['') ?s))" using c ok3 by (blast intro: appended_out2 ok_law)
    have "s4 = out (ascii '']'') (out name (out (ascii ''['') ?s))" using True s4_def by simp
    then have "appended s3 (((?a @ ascii ''['') @ name) @ ascii '']'') s4"
      using d ok3 by (blast intro: appended_out2 ok_law)
    then show ?thesis using True by (simp add: P_def)
  qed (simp add: P_def s4_def nil_law ok3)
  then have ok4: "ok s4" using ok3 ok_law by blast
  define s5 where "s5 = (if time \<or> lvl \<or> topic then out (ascii '': '') s4 else s4)"
  have a5: "appended s4 (if time \<or> lvl \<or> topic then ascii '': '' else []) s5"
    unfolding s5_def by (rule appended_if [OF ok4])
  then have ok5: "ok s5" using ok4 ok_law by blast
  define s6 where "s6 = (if flags AND TEXT_PRETTYLINE \<noteq> 0 then out ON9LOG_ANSI_NORMAL s5
      else if flags AND TEXT_PRETTY \<noteq> 0 then out ON9LOG_ANSI_RESET s5 else s5)"
  have a6: "appended s5 E s6" unfolding s6_def E_def by (simp add: out_law nil_law ok5)
  have "appended s (C @ T @ L @ P @ (if time \<or> lvl \<or> topic then ascii '': '' else []) @ E) s6"
    by (rule trans_law [OF s a1], rule trans_law [OF ok1 a2], rule trans_law [OF ok2 a3],
        rule trans_law [OF ok3 a4], rule trans_law [OF ok4 a5], rule a6)
  moreover have "text_prefix level (unat ms) name flags =
      C @ T @ L @ P @ (if time \<or> lvl \<or> topic then ascii '': '' else []) @ E"
    unfolding text_prefix_def text_fields_def C_def E_def T_def L_def P_def
      time_def [symmetric] lvl_def [symmetric] topic_def [symmetric]
    by (cases time; cases lvl; cases topic) simp_all
  moreover have "on9log_text_output_prefix m out level ms tag flags s = Some s6"
    unfolding on9log_text_output_prefix_def Let_def s1_def [symmetric]
      time_def [symmetric] lvl_def [symmetric] topic_def [symmetric] s2 s6_def s5_def s4_def s3_def
    using assms topic_def by (cases lvl; cases topic) simp_all
  ultimately show "\<exists>s'. on9log_text_output_prefix m out level ms tag flags s = Some s' \<and>
      appended s (text_prefix level (unat ms) name flags) s'"
    by metis
qed

lemma suffix_appends: "ok s \<Longrightarrow> appended s (text_suffix flags) (on9log_text_output_suffix out flags s)"
  using appended_first [OF _ out_law [OF ok_out], of s "[LF]" ON9LOG_ANSI_RESET] out_law [of s "[LF]"]
  by (simp add: on9log_text_output_suffix_def text_suffix_def Let_def)

lemma emits_dropped: "emits (on9log_dropped_text_formatter n out) (dropped_body n)"
  using emits_then [OF emits_u32 emits_last_out] by (simp add: on9log_dropped_text_formatter_def [abs_def] dropped_body_def)

text \<open>A formatter whose chunks go straight to the callback, such as \<open>vfprintf\<close>'s.\<close>

lemma fold_appends: "ok s \<Longrightarrow> appended s (concat chunks) (fold out chunks s)"
proof (induction chunks arbitrary: s)
  case (Cons c chunks)
  then show ?case by (simp add: appended_first ok_out)
qed (simp add: nil_law)

lemma emits_printf:
  "stream \<noteq> NULL \<Longrightarrow>
     emits (on9log_printf_formatter vfprintf stream m format args out) (concat (vfprintf m (format_or_empty format) args))"
  by (simp add: emits_def on9log_printf_formatter_def on9log_printf_cookie_write_def fold_appends)

lemma boot_hex_appends: "ok s \<Longrightarrow> appended s (concat (map hex_chars bs)) (boot_hex_loop bs out s)"
proof (induction bs arbitrary: s)
  case (Cons b bs)
  then show ?case by (simp add: appended_first ok_out)
qed (simp add: nil_law)

lemma emits_boot:
  "emits (on9log_boot_text_formatter boot_id (ucast (reset_reason_code reason)) k ident out)
     (boot_body boot_id reason (ident, k))"
proof -
  have u: "unat (ucast (v :: u8) :: u32) = unat v" for v
  proof -
    have "unat v < 4294967296" by (rule less_trans [OF unat_u8_less]) simp
    then show ?thesis by (simp add: unsigned_ucast_eq take_bit_nat_def)
  qed
  have hex: "emits (\<lambda>s. Some (boot_hex_loop ident out s)) (concat (map hex_chars ident))"
    by (simp add: emits_def boot_hex_appends)
  have "emits (\<lambda>s. if ident = [] then Some (out (ascii ''none'') s)
      else Option.bind (on9log_text_output_u32 out (ucast (image_id_kind_code k)) s)
             (\<lambda>s. Some (boot_hex_loop ident out (out (ascii '':'') s))))
     (if ident = [] then ascii ''none''
      else dec_digits (unat (image_id_kind_code k)) @ ascii '':'' @ concat (map hex_chars ident))"
    using emits_last_out emits_then [OF emits_u32 [of "ucast (image_id_kind_code k)"] emits_out [OF hex, of "ascii '':''"]]
    by (simp add: u)
  note body = this
  from emits_out [OF emits_then [OF emits_u32 [of boot_id]
        emits_out [OF emits_then [OF emits_u32 [of "ucast (reset_reason_code reason)"] emits_out [OF body, of "ascii '' image id=''"]],
          of "ascii '' reset reason=''"]], of "ascii ''boot id=''"]
  show ?thesis
    by (cases "ident = []") (simp_all add: on9log_boot_text_formatter_def [abs_def] boot_body_def u Let_def)
qed

lemma buffer_text_loop_appends:
  "ok s \<Longrightarrow> length encoded < ENCODED_SIZE \<Longrightarrow> 3 dvd length encoded \<Longrightarrow>
     \<exists>encoded' s' pre. buffer_text_loop bs encoded out s = Some (encoded', s') \<and> appended s pre s' \<and>
       pre @ encoded' = encoded @ concat (map (\<lambda>b. ascii '' '' @ hex_chars b) bs)"
proof (induction bs arbitrary: encoded s)
  case Nil
  then show ?case using nil_law by auto
next
  case (Cons b bs)
  let ?e = "encoded @ ascii '' '' @ hex_chars b"
  have len: "length ?e = length encoded + 3" by (simp add: ascii_def hex_chars_def Let_def)
  then have small: "length ?e \<le> ENCODED_SIZE" and div: "3 dvd length ?e"
    using Cons.prems(2,3) by (presburger, simp)
  show ?case
  proof (cases "length ?e = ENCODED_SIZE")
    case True
    have "ok (out ?e s)" using out_law ok_law Cons.prems(1) by blast
    then obtain encoded' s' pre where *: "buffer_text_loop bs [] out (out ?e s) = Some (encoded', s')"
      "appended (out ?e s) pre s'" "pre @ encoded' = concat (map (\<lambda>b. ascii '' '' @ hex_chars b) bs)"
      using Cons.IH [of "out ?e s" "[]"] by auto
    have "appended s (?e @ pre) s'" using trans_law [OF Cons.prems(1) out_law [OF Cons.prems(1)] *(2)] .
    then show ?thesis using *(1,3) True by (auto simp: Let_def)
  next
    case False
    then show ?thesis using Cons.IH [OF Cons.prems(1), of ?e] small div by (simp add: Let_def)
  qed
qed

lemma emits_buffer:
  assumes "rd_bytes m data (unat len) = Some bs"
  shows "emits (on9log_buffer_text_formatter m data len out) (buffer_body bs)"
proof -
  let ?hex = "concat (map (\<lambda>b. ascii '' '' @ hex_chars b) bs)"
  have "emits (\<lambda>s. Option.bind (buffer_text_loop bs [] out s)
      (\<lambda>(encoded, s). Some (if encoded \<noteq> [] then out encoded s else s))) ?hex"
    unfolding emits_def
  proof (intro allI impI)
    fix s assume s: "ok s"
    obtain encoded s' pre where *: "buffer_text_loop bs [] out s = Some (encoded, s')" "appended s pre s'"
      "pre @ encoded = ?hex"
      using buffer_text_loop_appends [OF s, of "[]" bs] by auto
    have "appended s ?hex (if encoded \<noteq> [] then out encoded s' else s')"
      unfolding *(3) [symmetric] using *(2) s trans_law [OF s *(2)] ok_law out_law by auto
    then show "\<exists>s''. Option.bind (buffer_text_loop bs [] out s)
        (\<lambda>(encoded, s). Some (if encoded \<noteq> [] then out encoded s else s)) = Some s'' \<and> appended s ?hex s''"
      by (simp add: *(1))
  qed
  from emits_out [OF emits_then [OF emits_u32 [of len] emits_out [OF this, of "ascii '']:''"]], of "ascii ''buffer[''"]
  show ?thesis using length_rd_bytes [OF assms]
    by (simp add: on9log_buffer_text_formatter_def [abs_def] buffer_body_def assms Let_def)
qed

end


section \<open>The CR filter\<close>

text \<open>
  The filter in front of a callback is a callback itself, on the state extended by the last byte
  it has seen, and it appends the filtered text.
\<close>

locale filtered_output = base: text_output out ok appended
  for out :: "bytes \<Rightarrow> 's \<Rightarrow> 's" and ok :: "'s \<Rightarrow> bool" and appended :: "'s \<Rightarrow> bytes \<Rightarrow> 's \<Rightarrow> bool" +
  fixes flags :: u8
begin

definition line_ok :: "u8 \<times> 's \<Rightarrow> bool" where
  "line_ok fs \<longleftrightarrow> ok (snd fs)"

definition line_appended :: "u8 \<times> 's \<Rightarrow> bytes \<Rightarrow> u8 \<times> 's \<Rightarrow> bool" where
  "line_appended fs bs fs' \<longleftrightarrow>
     appended (snd fs) (text_filtered flags (fst fs) bs) (snd fs') \<and> fst fs' = last (fst fs # bs)"

lemma filter_loop_appends:
  "ok s \<Longrightarrow> i + left = length data \<Longrightarrow> cs \<le> i \<Longrightarrow>
     \<exists>cs' s' pre. filter_loop left out data i cs l s = (cs', last (l # drop i data), s') \<and>
       cs' \<le> length data \<and> appended s pre s' \<and> ok s' \<and>
       pre @ drop cs' data = take (i - cs) (drop cs data) @ crlf l (drop i data)"
proof (induction left arbitrary: i cs l s)
  case 0
  then show ?case using base.nil_law by (auto intro!: exI [of _ "[]"])
next
  case (Suc left)
  let ?b = "data ! i"
  have i: "i < length data" using Suc.prems(2) by simp
  then have tail: "drop i data = ?b # drop (Suc i) data" by (simp add: Cons_nth_drop_Suc)
  have lst: "last (l # drop i data) = last (?b # drop (Suc i) data)" by (simp add: tail)
  show ?case
  proof (cases "?b = LF \<and> l \<noteq> CR")
    case True
    let ?seg = "take (i - cs) (drop cs data)"
    define s1 where "s1 = (if i \<noteq> cs then out ?seg s else s)"
    have "?seg = (if i \<noteq> cs then ?seg else [])" by simp
    then have a1: "appended s ?seg s1" and ok1: "ok s1"
      unfolding s1_def using base.appended_if [OF Suc.prems(1), of "i \<noteq> cs" ?seg] Suc.prems(1) base.ok_out by auto
    obtain cs' s' pre where *: "filter_loop left out data (Suc i) i ?b (out [CR] s1) = (cs', last (?b # drop (Suc i) data), s')"
      "cs' \<le> length data" "appended (out [CR] s1) pre s'" "ok s'"
      "pre @ drop cs' data = take (Suc i - i) (drop i data) @ crlf ?b (drop (Suc i) data)"
      using Suc.IH [of "out [CR] s1" "Suc i" i ?b] base.ok_out [OF ok1] Suc.prems(2) by auto
    have "appended s (?seg @ [CR] @ pre) s'"
      using base.trans_law [OF Suc.prems(1) a1 base.appended_first [OF ok1 *(3)]] .
    moreover have "(?seg @ [CR] @ pre) @ drop cs' data = ?seg @ crlf l (drop i data)"
      using *(5) True by (simp add: tail)
    ultimately show ?thesis using * True lst by (auto simp: Let_def s1_def)
  next
    case False
    obtain cs' s' pre where *: "filter_loop left out data (Suc i) cs ?b s = (cs', last (?b # drop (Suc i) data), s')"
      "cs' \<le> length data" "appended s pre s'" "ok s'"
      "pre @ drop cs' data = take (Suc i - cs) (drop cs data) @ crlf ?b (drop (Suc i) data)"
      using Suc.IH [of s "Suc i" cs ?b] Suc.prems by auto
    have "take (Suc i - cs) (drop cs data) = take (i - cs) (drop cs data) @ [?b]"
      using i Suc.prems(3) by (simp add: Suc_diff_le take_Suc_conv_app_nth)
    then have "pre @ drop cs' data = take (i - cs) (drop cs data) @ crlf l (drop i data)"
      using *(5) False by (auto simp: tail)
    then show ?thesis using * False lst by auto
  qed
qed

lemma filtered_output_appends:
  assumes "line_ok fs"
  shows "line_appended fs data (on9log_text_filtered_output out flags data fs)"
proof (cases "flags AND TEXT_CR = 0")
  case True
  then show ?thesis using base.out_law assms
    by (cases fs; cases "data = []")
      (auto simp: on9log_text_filtered_output_def line_appended_def line_ok_def text_filtered_def last_conv_nth)
next
  case False
  obtain l s where fs: "fs = (l, s)" by (cases fs)
  obtain cs' s' pre where *: "filter_loop (length data) out data 0 0 l s = (cs', last (l # data), s')"
    "cs' \<le> length data" "appended s pre s'" "ok s'" "pre @ drop cs' data = crlf l data"
    using filter_loop_appends [of s 0 "length data" data 0 l] assms by (auto simp: fs line_ok_def)
  have "appended s (crlf l data) (if cs' \<noteq> length data then out (drop cs' data) s' else s')"
    unfolding *(5) [symmetric]
    using base.trans_law [OF _ *(3) base.out_law [OF *(4)], of "drop cs' data"] assms *(3)
    by (auto simp: fs line_ok_def)
  then show ?thesis using False *(1)
    by (simp add: on9log_text_filtered_output_def line_appended_def text_filtered_def fs)
qed

end

sublocale filtered_output \<subseteq> line: text_output "on9log_text_filtered_output out flags" line_ok line_appended
proof
  show "line_ok fs \<Longrightarrow> line_appended fs bs (on9log_text_filtered_output out flags bs fs)" for fs bs
    by (rule filtered_output_appends)
  show "line_ok fs \<Longrightarrow> line_appended fs [] fs" for fs
    using base.nil_law by (simp add: line_ok_def line_appended_def text_filtered_def)
  show "line_ok fs \<Longrightarrow> line_appended fs a fs1 \<Longrightarrow> line_appended fs1 b fs2 \<Longrightarrow> line_appended fs (a @ b) fs2" for fs fs1 fs2 a b
    using base.trans_law by (auto simp: line_ok_def line_appended_def text_filtered_append)
  show "line_ok fs \<Longrightarrow> line_appended fs a fs1 \<Longrightarrow> line_ok fs1" for fs fs1 a
    using base.ok_law by (auto simp: line_ok_def line_appended_def)
qed

context filtered_output begin

text \<open>A whole line: prefix, a formatter that emits \<open>body\<close>, suffix.\<close>

lemma whole_line:
  assumes "ok s" and "flags AND TEXT_SHOWTOPIC \<noteq> 0 \<Longrightarrow> rd_tag m tag = Some name" and "line.emits f body"
  shows "\<exists>fs1 fs2 l s'. on9log_text_output_prefix m (on9log_text_filtered_output out flags) level ms tag flags (0, s) = Some fs1 \<and>
     f fs1 = Some fs2 \<and> on9log_text_output_suffix (on9log_text_filtered_output out flags) flags fs2 = (l, s') \<and>
     appended s (text_line level (unat ms) name flags body) s'"
proof -
  have s: "line_ok (0, s)" by (simp add: line_ok_def assms(1))
  obtain fs1 where p: "on9log_text_output_prefix m (on9log_text_filtered_output out flags) level ms tag flags (0, s) = Some fs1"
    "line_appended (0, s) (text_prefix level (unat ms) name flags) fs1" "line_ok fs1"
    using line.emits_run [OF line.emits_prefix s] assms(2) by blast
  obtain fs2 where f: "f fs1 = Some fs2" "line_appended fs1 body fs2" "line_ok fs2"
    using line.emits_run [OF assms(3) p(3)] by blast
  have "line_appended (0, s) (text_prefix level (unat ms) name flags @ body @ text_suffix flags)
      (on9log_text_output_suffix (on9log_text_filtered_output out flags) flags fs2)"
    by (rule line.trans_law [OF s p(2)], rule line.trans_law [OF p(3) f(2)], rule line.suffix_appends [OF f(3)])
  then show ?thesis using p(1) f(1)
    unfolding line_appended_def text_line_def fst_conv snd_conv by (metis prod.collapse)
qed

end

section \<open>The callbacks of the code\<close>

definition stream_appended :: "on9log_stream_t \<Rightarrow> on9log_state \<Rightarrow> bytes \<Rightarrow> on9log_state \<Rightarrow> bool" where
  "stream_appended stream st bs st' \<longleftrightarrow>
     (\<exists>cs. chunks_bytes cs = bs \<and> st' = observe (chunks_events stream cs) st)"

lemma stream_text_output:
  "text_output (on9log_text_stream_output stream) (\<lambda>_. True) (stream_appended stream)"
proof
  show "stream_appended stream st bs (on9log_text_stream_output stream bs st)" for st bs
    unfolding stream_appended_def on9log_text_stream_output_def stream_payload_events
    by (rule exI, rule conjI [OF _ refl]) simp
  show "stream_appended stream st [] st" for st
    unfolding stream_appended_def by (rule exI [of _ "[]"]) simp
  show "stream_appended stream st a st1 \<Longrightarrow> stream_appended stream st1 b st2 \<Longrightarrow> stream_appended stream st (a @ b) st2"
    for st a st1 b st2
    unfolding stream_appended_def by (auto intro: exI [of _ "_ @ _"])
qed simp

interpretation stream_text: text_output "on9log_text_stream_output stream" "\<lambda>_. True" "stream_appended stream"
  for stream
  by (rule stream_text_output)

interpretation stream_line: filtered_output "on9log_text_stream_output stream" "\<lambda>_. True" "stream_appended stream" flags
  for stream flags
  by unfold_locales

lemma encoder_text_output: "text_output on9log_text_encoder_output enc_ok enc_appends"
proof
  show "enc_ok enc \<Longrightarrow> enc_appends enc bs (on9log_text_encoder_output bs enc)" for enc bs
    using enc_store_appends [of enc bs] enc_appends_Nil [of enc]
    by (auto simp: on9log_text_encoder_output_def enc_appends_def enc_ok_def enc_out_def)
qed (auto intro: enc_appends_Nil enc_appends_trans enc_appends_ok)

interpretation encoder_text: text_output on9log_text_encoder_output enc_ok enc_appends
  by (rule encoder_text_output)

interpretation encoder_line: filtered_output on9log_text_encoder_output enc_ok enc_appends flags
  for flags
  by unfold_locales

end
