(* ===== verification/TextCorrect.thy ===== *)
theory TextCorrect
  imports TextSpec SinkCorrect
begin

text \<open>
  What the plain-text build delivers: every line, whatever writes its body and in however many
  pieces, reaches the outputs of both text sinks as the one byte string \<open>text_line\<close>; what a
  reader gets back from it; and ISR lines, which are queued whole or counted.
\<close>

section \<open>Lines as sessions\<close>

text \<open>A formatter that writes \<open>body\<close>, whatever callback of the core it is given.\<close>

definition formatter_writes :: "line_formatter \<Rightarrow> u8 \<Rightarrow> bytes \<Rightarrow> bool" where
  "formatter_writes f flags body \<longleftrightarrow>
     (\<forall>stream. stream_line.line.emits stream flags
        (f (on9log_text_filtered_output (on9log_text_stream_output stream) flags)) body)"

lemma core_formatters:
  "formatter_writes (on9log_dropped_text_formatter n) flags (dropped_body n)"
  "formatter_writes (on9log_boot_text_formatter boot_id (ucast (reset_reason_code reason)) k ident) flags
     (boot_body boot_id reason (ident, k))"
  "stream \<noteq> NULL \<Longrightarrow> formatter_writes (on9log_printf_formatter vfprintf stream m format args) flags
     (concat (vfprintf m (format_or_empty format) args))"
  "rd_bytes m data (unat len) = Some bs \<Longrightarrow>
     formatter_writes (on9log_buffer_text_formatter m data len) flags (buffer_body bs)"
  unfolding formatter_writes_def
  by (simp_all add: stream_line.line.emits_dropped stream_line.line.emits_boot stream_line.line.emits_printf
      stream_line.line.emits_buffer)

lemma dispatch_text_line_sends:
  assumes "flags AND TEXT_SHOWTOPIC \<noteq> 0 \<Longrightarrow> rd_tag m tag = Some name" and "formatter_writes f flags body"
  shows "\<exists>cs. on9log_dispatch_text_line env m level tag flags (Some f) st =
      Some (observe (session (registered st) None cs) (st\<lparr>st_clock := Suc (st_clock st)\<rparr>)) \<and>
    chunks_bytes cs = text_line level (unat (port_timestamp_ms env (st_clock st))) name flags body"
proof -
  let ?stream = "registered st" and ?ms = "port_timestamp_ms env (st_clock st)"
  let ?out = "on9log_text_filtered_output (on9log_text_stream_output ?stream) flags"
  let ?st = "observe (EmitLock # map (\<lambda>s. StartCb s None) ?stream) (st\<lparr>st_clock := Suc (st_clock st)\<rparr>)"
  obtain fs1 fs2 l st' where *: "on9log_text_output_prefix m ?out level ?ms tag flags (0, ?st) = Some fs1"
    "f ?out fs1 = Some fs2" "on9log_text_output_suffix ?out flags fs2 = (l, st')"
    "stream_appended ?stream ?st (text_line level (unat ?ms) name flags body) st'"
    using stream_line.whole_line [where s = ?st and f = "f ?out"] assms unfolding formatter_writes_def by blast
  obtain cs where cs: "chunks_bytes cs = text_line level (unat ?ms) name flags body"
    "st' = observe (chunks_events ?stream cs) ?st"
    using *(4) by (auto simp: stream_appended_def)
  have start: "on9log_stream_open st = (?stream, observe [EmitLock] st)"
    by (simp add: on9log_stream_open_def on9log_port_emit_lock_def registered_def Let_def)
  have header: "read_clock env (on9log_stream_send_header ?stream None (observe [EmitLock] st)) = (?ms, ?st)"
    by (simp add: read_clock_def on9log_stream_send_header_def observe_def)
  have "on9log_dispatch_text_line env m level tag flags (Some f) st = Some (on9log_stream_end ?stream st')"
    unfolding on9log_dispatch_text_line_def start Let_def prod.case header
    using *(1-3) by simp
  then show ?thesis using cs by (auto simp: stream_end_events session_def)
qed

text \<open>The sessions of a call carry the text \<open>t\<close> to every registered sink.\<close>

definition carries_text :: "on9log_state \<Rightarrow> session_desc list \<Rightarrow> bytes \<Rightarrow> bool" where
  "carries_text st ps t \<longleftrightarrow>
     list_all (\<lambda>(ts, h, cs). ts = registered st \<and> h = None) ps \<and>
     concat (map (\<lambda>(ts, h, cs). chunks_bytes cs) ps) = t"

definition due_text :: "on9log_env \<Rightarrow> on9log_state \<Rightarrow> bytes" where
  "due_text env st =
     (if s_dropped_count st = 0 then []
      else text_line ON9_LOG_LEVEL_WARN (unat (port_timestamp_ms env (st_clock st))) (ascii ''on9log'')
             ON9LOG_TEXT_DEFAULT_FLAGS (dropped_body (s_dropped_count st)))"

definition line_clock :: "on9log_state \<Rightarrow> nat" where
  "line_clock st = (if s_dropped_count st = 0 then st_clock st else Suc (st_clock st))"

definition text_sent :: "nat \<Rightarrow> session_desc list \<Rightarrow> on9log_state \<Rightarrow> on9log_state" where
  "text_sent clock ps st = observe (events_of ps) (st\<lparr>s_dropped_count := 0, st_clock := clock\<rparr>)"

lemma rd_tag_cstr: "cstr m tag name \<Longrightarrow> tag \<noteq> NULL \<Longrightarrow> rd_tag m tag = Some name"
  using rd_bytes_cstr [of m tag name "length name"] by (simp add: rd_tag_def c_strlen_cstr)

lemma literal_tag: "rd_tag literal_mem literal_addr = Some (ascii ''on9log'')"
  by (rule rd_tag_cstr) (simp_all add: literal_mem_def mem_object_def ascii_def)

lemma report_dropped_text_sends:
  "\<exists>ps. report_dropped_text env st = Some (text_sent (line_clock st) ps st) \<and> carries_text st ps (due_text env st)"
proof (cases "s_dropped_count st = 0")
  case True
  then have "st\<lparr>s_dropped_count := 0, st_clock := st_clock st\<rparr> = st\<lparr>s_dropped_count := 0\<rparr>" by simp
  then show ?thesis using True
    by (intro exI [of _ "[]"]) (simp add: report_dropped_text_def text_sent_def line_clock_def due_text_def
        carries_text_def events_of_def Let_def)
next
  case False
  let ?st = "st\<lparr>s_dropped_count := 0\<rparr>"
  obtain cs where cs: "on9log_dispatch_text_line env literal_mem ON9_LOG_LEVEL_WARN literal_addr ON9LOG_TEXT_DEFAULT_FLAGS
      (Some (on9log_dropped_text_formatter (s_dropped_count st))) ?st =
      Some (observe (session (registered ?st) None cs) (?st\<lparr>st_clock := Suc (st_clock ?st)\<rparr>))"
    "chunks_bytes cs = due_text env st"
    using dispatch_text_line_sends [OF literal_tag core_formatters(1) [of "s_dropped_count st"], where st = ?st
        and env = env and level = ON9_LOG_LEVEL_WARN and flags = ON9LOG_TEXT_DEFAULT_FLAGS] False
    by (auto simp: due_text_def)
  then show ?thesis using False
    by (intro exI [of _ "[(registered st, None, cs)]"])
      (simp add: report_dropped_text_def on9log_emit_dropped_text_def text_sent_def line_clock_def
        carries_text_def events_of_def registered_def Let_def)
qed

lemma text_sent_facts [simp]:
  "registered (text_sent clock ps st) = registered st" "st_clock (text_sent clock ps st) = clock"
  "st_events (text_sent clock ps st) = st_events st @ events_of ps"
  by (simp_all add: text_sent_def registered_def)

lemma write_text_sends:
  assumes "on9log_level_enabled env m st level tag = Some True"
    and "flags AND TEXT_SHOWTOPIC \<noteq> 0 \<Longrightarrow> rd_tag m tag = Some name" and "formatter_writes f flags body"
  shows "\<exists>ps. on9log_write_text_with_flags env m level tag flags (Some f) st =
      Some (text_sent (Suc (line_clock st)) ps st) \<and>
    carries_text st ps (due_text env st @
      text_line level (unat (port_timestamp_ms env (line_clock st))) name flags body)"
proof -
  obtain ps where ps: "report_dropped_text env st = Some (text_sent (line_clock st) ps st)"
    "carries_text st ps (due_text env st)"
    using report_dropped_text_sends by blast
  let ?st = "text_sent (line_clock st) ps st"
  obtain cs where cs: "on9log_dispatch_text_line env m level tag flags (Some f) ?st =
      Some (observe (session (registered ?st) None cs) (?st\<lparr>st_clock := Suc (st_clock ?st)\<rparr>))"
    "chunks_bytes cs = text_line level (unat (port_timestamp_ms env (st_clock ?st))) name flags body"
    using dispatch_text_line_sends [OF assms(2,3)] by blast
  have "observe (session (registered ?st) None cs) (?st\<lparr>st_clock := Suc (st_clock ?st)\<rparr>) =
      text_sent (Suc (line_clock st)) (ps @ [(registered st, None, cs)]) st"
    by (simp add: text_sent_def events_of_def observe_def registered_def)
  then show ?thesis using ps cs assms(1)
    by (intro exI [of _ "ps @ [(registered st, None, cs)]"])
      (simp add: on9log_write_text_with_flags_def carries_text_def)
qed

text \<open>Both text sinks put that text on their outputs.\<close>

lemma carries_text_outputs:
  assumes "carries_text st ps t" and "sinks_ok st" and "e \<in> set (registered st)"
    and "esp_ready_plain w self s" and "accepting w" and "unix_ready_plain u" and "puts_all putc_ok"
  shows "\<exists>s' u'. esp_text_sink.feed self w e (events_of ps) s = Some s' \<and>
     unix_text_sink.feed putc_ok e (events_of ps) u = Some u' \<and>
     list_all (\<lambda>fd. io_out (snd s') fd = io_out (snd s) fd @ t) (active_outputs (snd s)) \<and>
     stream_out u' = stream_out u @ t"
proof -
  have ok: "list_all (\<lambda>(ts, h, cs). distinct ts \<and> True) ps"
    using assms(1,2) by (auto simp: carries_text_def sinks_ok_def list_all_iff)
  have "text_for e qs = concat (map (\<lambda>(ts, h, cs). chunks_bytes cs) qs)"
    if "list_all (\<lambda>(ts, h, cs). ts = registered st \<and> h = None) qs" for qs
    using that assms(3) by (induction qs) (auto simp: text_for_def)
  then have t: "text_for e ps = t" using assms(1) by (simp add: carries_text_def)
  show ?thesis
    using esp_text_sink.feed_sessions [OF assms(4) ok, of e] unix_text_sink.feed_sessions [OF assms(6) ok, of putc_ok e]
      assms(5,7) t
    by (auto simp: esp_text_frames unix_text_frames list_all_iff)
qed


section \<open>Reading a line back\<close>

text \<open>The timestamp \<open>HH:MM:SS.mmm\<close>; the hours may have more than two digits.\<close>

definition read_timestamp :: "bytes \<Rightarrow> nat" where
  "read_timestamp bs =
     (let h = length bs - 10;
          field = (\<lambda>off n. dec_val (take n (drop (h + off) bs)))
      in dec_val (take h bs) * 3600000 + field 1 2 * 60000 + field 4 2 * 1000 + field 7 3)"

lemma length_ascii [simp]: "length (ascii s) = length s"
  by (simp add: ascii_def)

lemma read_timestamp_text: "read_timestamp (text_timestamp ms) = ms"
proof -
  let ?h = "ms div 3600000" and ?r = "ms mod 3600000"
  let ?hs = "if ?h < 100 then pad_digits 2 ?h else dec_digits ?h"
  have h: "dec_val ?hs = ?h" by simp
  have m: "?r div 60000 < 100" "?r mod 60000 div 1000 < 100" "?r mod 60000 mod 1000 < 1000"
    by (simp_all add: div_less_iff_less_mult less_trans [OF mod_less_divisor])
  have "ms = ?h * 3600000 + ?r" by simp
  moreover have "?r = ?r div 60000 * 60000 + ?r mod 60000" by simp
  moreover have "?r mod 60000 = ?r mod 60000 div 1000 * 1000 + ?r mod 60000 mod 1000" by simp
  ultimately have sum: "?h * 3600000 + ?r div 60000 * 60000 + ?r mod 60000 div 1000 * 1000 + ?r mod 60000 mod 1000 = ms"
    by linarith
  have t: "text_timestamp ms = ?hs @ ascii '':'' @ pad_digits 2 (?r div 60000) @ ascii '':'' @
      pad_digits 2 (?r mod 60000 div 1000) @ ascii ''.'' @ pad_digits 3 (?r mod 60000 mod 1000)"
    by (simp add: text_timestamp_def Let_def)
  have len: "length (text_timestamp ms) - 10 = length ?hs" by (simp add: t)
  show ?thesis
    unfolding read_timestamp_def len Let_def unfolding t using m sum h by simp
qed

text \<open>The body of a buffer line.\<close>

definition hex_val :: "u8 \<Rightarrow> nat" where
  "hex_val c = (if unat c \<ge> 97 then unat c - 87 else unat c - 48)"

fun read_triples :: "bytes \<Rightarrow> bytes" where
  "read_triples (_ # a # b # rest) = word_of_nat (16 * hex_val a + hex_val b) # read_triples rest"
| "read_triples _ = []"

definition read_buffer_body :: "bytes \<Rightarrow> bytes option" where
  "read_buffer_body body =
     (let rest = drop (length ''buffer['') body;
          n = dec_val (takeWhile (\<lambda>c. c \<noteq> 93) rest);
          bs = read_triples (drop (length '']:'') (dropWhile (\<lambda>c. c \<noteq> 93) rest))
      in if n = length bs then Some bs else None)"


lemma hex_val_digit: "n < 16 \<Longrightarrow> hex_val (ascii ''0123456789abcdef'' ! n) = n"
proof -
  have "list_all (\<lambda>n. hex_val (ascii ''0123456789abcdef'' ! n) = n) [0..<16]" by code_simp
  then show "n < 16 \<Longrightarrow> hex_val (ascii ''0123456789abcdef'' ! n) = n" by (simp add: list_all_iff)
qed

lemma hex_chars_nibbles:
  "hex_chars b = [ascii ''0123456789abcdef'' ! (unat b div 16), ascii ''0123456789abcdef'' ! (unat b mod 16)]"
proof -
  have "b AND 0x0f = take_bit 4 b" by (simp add: take_bit_eq_mask mask_numeral)
  then have "unat (b AND 0x0f) = unat b mod 16" by (simp add: unsigned_take_bit_eq take_bit_nat_def)
  then show ?thesis by (simp add: hex_chars_def Let_def unat_drop_bit)
qed

lemma read_triples_hex: "read_triples (concat (map (\<lambda>b. ascii '' '' @ hex_chars b) bs)) = bs"
proof (induction bs)
  case (Cons b bs)
  have n: "unat b div 16 < 16" by (simp add: div_less_iff_less_mult)
  have v: "16 * hex_val (ascii ''0123456789abcdef'' ! (unat b div 16)) +
      hex_val (ascii ''0123456789abcdef'' ! (unat b mod 16)) = unat b"
    by (simp add: hex_val_digit [OF n] hex_val_digit)
  have "(word_of_nat (16 * hex_val (ascii ''0123456789abcdef'' ! (unat b div 16)) +
      hex_val (ascii ''0123456789abcdef'' ! (unat b mod 16))) :: u8) = b"
    unfolding v by simp
  moreover have "ascii '' '' = [32]" by (simp add: ascii_def)
  ultimately show ?case using Cons by (simp only: list.map concat.simps hex_chars_nibbles) simp
qed simp

lemma dec_char_range: "c \<in> set (dec_digits n) \<Longrightarrow> 48 \<le> unat c \<and> unat c < 58"
proof (induction n rule: dec_digits.induct)
  case (1 n)
  then show ?case
    by (cases "n < 10"; subst (asm) (2) dec_digits.simps) (auto simp: unat_dec_char)
qed

lemma dec_char_not: "c \<in> set (dec_digits n) \<Longrightarrow> c \<noteq> LF \<and> c \<noteq> 93"
  using dec_char_range [of c n] by auto

lemma hex_char_not: "c \<in> set (hex_chars b) \<Longrightarrow> c \<noteq> LF"
proof -
  have "list_all (\<lambda>n. ascii ''0123456789abcdef'' ! n \<noteq> LF) [0..<16]" by code_simp
  then have h: "n < 16 \<Longrightarrow> ascii ''0123456789abcdef'' ! n \<noteq> LF" for n by (simp add: list_all_iff)
  have "unat b div 16 < 16" by (simp add: div_less_iff_less_mult)
  then show "c \<in> set (hex_chars b) \<Longrightarrow> c \<noteq> LF" using h by (auto simp: hex_chars_nibbles)
qed

lemma buffer_body_no_LF: "LF \<notin> set (buffer_body bs)"
proof -
  have "LF \<notin> set (ascii ''buffer['')" "LF \<notin> set (ascii '']:'')" "LF \<notin> set (ascii '' '')"
    by (simp_all add: ascii_def)
  then show ?thesis using dec_char_not hex_char_not by (auto simp: buffer_body_def)
qed

lemma crlf_no_LF: "LF \<notin> set bs \<Longrightarrow> crlf l bs = bs"
  by (induction bs arbitrary: l) auto

lemma text_line_body:
  assumes "LF \<notin> set body"
  shows "\<exists>p q. text_line level ms name flags body = p @ body @ q"
proof -
  have "text_filtered flags l body = body" for l using assms by (simp add: text_filtered_def crlf_no_LF)
  then show ?thesis unfolding text_line_def text_filtered_append by blast
qed

lemma read_buffer_body: "read_buffer_body (buffer_body bs) = Some bs"
proof -
  let ?hex = "concat (map (\<lambda>b. ascii '' '' @ hex_chars b) bs)"
  have tail: "ascii '']:'' @ ?hex = 93 # 58 # ?hex" by (simp add: ascii_def)
  have rest: "drop (length ''buffer['') (buffer_body bs) = dec_digits (length bs) @ 93 # 58 # ?hex"
    unfolding buffer_body_def tail by simp
  have digits: "\<And>c. c \<in> set (dec_digits (length bs)) \<Longrightarrow> c \<noteq> 93" using dec_char_not by blast
  have "takeWhile (\<lambda>c. c \<noteq> 93) (dec_digits (length bs) @ 93 # 58 # ?hex) = dec_digits (length bs)"
    "dropWhile (\<lambda>c. c \<noteq> 93) (dec_digits (length bs) @ 93 # 58 # ?hex) = 93 # 58 # ?hex"
    using digits by (simp_all add: takeWhile_append2 dropWhile_append2)
  then show ?thesis unfolding read_buffer_body_def rest Let_def by (simp add: read_triples_hex)
qed

section \<open>Properties\<close>

text \<open>C11: A plain-text log call that is enabled reaches every output of both text sinks as one line:
  the report of dropped messages, if one is due, then prefix, formatted message and suffix with
  line ends turned into CR LF where the flags ask for it, whatever the pieces were in which \<open>vfprintf\<close> produced the message.
  The line's timestamp is the clock's reading while the emission lock is held.\<close>

theorem text_call_reaches_the_outputs:
  assumes "on9log_level_enabled env m st level tag = Some True" and "cstr m tag name" and "tag \<noteq> NULL"
    and "stream \<noteq> NULL" and "sinks_ok st" and "e \<in> set (registered st)"
    and "esp_ready_plain w self s" and "accepting w" and "unix_ready_plain u" and "puts_all putc_ok"
  shows "\<exists>st' evs s' u' text. on9log_vwrite_text env vfprintf stream m level tag flags format args st = Some st' \<and>
     st_events st' = st_events st @ evs \<and> s_dropped_count st' = 0 \<and>
     esp_text_sink.feed self w e evs s = Some s' \<and> unix_text_sink.feed putc_ok e evs u = Some u' \<and>
     list_all (\<lambda>fd. io_out (snd s') fd = io_out (snd s) fd @ text) (active_outputs (snd s)) \<and>
     stream_out u' = stream_out u @ text \<and>
     text = due_text env st @ text_line level (unat (port_timestamp_ms env (line_clock st))) name flags
              (concat (vfprintf m (format_or_empty format) args))"
proof -
  obtain ps where ps: "on9log_write_text_with_flags env m level tag flags
      (Some (on9log_printf_formatter vfprintf stream m format args)) st = Some (text_sent (Suc (line_clock st)) ps st)"
    "carries_text st ps (due_text env st @ text_line level (unat (port_timestamp_ms env (line_clock st))) name flags
       (concat (vfprintf m (format_or_empty format) args)))"
    using write_text_sends [OF assms(1) rd_tag_cstr [OF assms(2,3)] core_formatters(3) [OF assms(4)]] by blast
  then show ?thesis
    using carries_text_outputs [OF ps(2) assms(5-10)] assms(4)
    by (auto simp: on9log_vwrite_text_def text_sent_def)
qed

text \<open>C36: A buffer written in the plain-text build can be read back from the outputs: the line
  contains, unaltered by the CR filter, a body from which the length and every byte are recovered.\<close>

theorem text_buffer_roundtrip:
  assumes "on9log_level_enabled env m st level tag = Some True" and "cstr m tag name" and "tag \<noteq> NULL"
    and "rd_bytes m data n = Some bs" and "data \<noteq> NULL" and "n \<le> 0xffffffff"
    and "sinks_ok st" and "e \<in> set (registered st)"
    and "esp_ready_plain w self s" and "accepting w" and "unix_ready_plain u" and "puts_all putc_ok"
  shows "\<exists>st' evs s' u' before body after. on9log_write_buffer_text env m level tag flags data n st = Some st' \<and>
     st_events st' = st_events st @ evs \<and>
     esp_text_sink.feed self w e evs s = Some s' \<and> unix_text_sink.feed putc_ok e evs u = Some u' \<and>
     list_all (\<lambda>fd. io_out (snd s') fd = io_out (snd s) fd @ before @ body @ after) (active_outputs (snd s)) \<and>
     stream_out u' = stream_out u @ before @ body @ after \<and> read_buffer_body body = Some bs"
proof -
  have len: "unat (word_of_nat n :: u32) = n" using assms(6) by (intro unat_word_of_nat_u32) linarith
  obtain p q where line: "text_line level (unat (port_timestamp_ms env (line_clock st))) name flags (buffer_body bs) =
      p @ buffer_body bs @ q"
    using text_line_body [OF buffer_body_no_LF] by blast
  have rd: "rd_bytes m data (unat (word_of_nat n :: u32)) = Some bs" using assms(4) len by simp
  obtain ps where ps: "on9log_write_text_with_flags env m level tag flags
      (Some (on9log_buffer_text_formatter m data (word_of_nat n))) st = Some (text_sent (Suc (line_clock st)) ps st)"
    "carries_text st ps ((due_text env st @ p) @ buffer_body bs @ q)"
    using write_text_sends [where flags = flags, OF assms(1) rd_tag_cstr [OF assms(2,3)] core_formatters(4) [OF rd]]
    by (auto simp: line)
  have w: "on9log_write_buffer_text env m level tag flags data n st = Some (text_sent (Suc (line_clock st)) ps st)"
    using ps(1) assms(1,5,6) by (simp add: on9log_write_buffer_text_def)
  obtain s' u' where out: "esp_text_sink.feed self w e (events_of ps) s = Some s'"
    "unix_text_sink.feed putc_ok e (events_of ps) u = Some u'"
    "list_all (\<lambda>fd. io_out (snd s') fd = io_out (snd s) fd @ (due_text env st @ p) @ buffer_body bs @ q) (active_outputs (snd s))"
    "stream_out u' = stream_out u @ (due_text env st @ p) @ buffer_body bs @ q"
    using carries_text_outputs [OF ps(2) assms(7-12)] by blast
  show ?thesis
    by (intro exI conjI, rule w, rule text_sent_facts, rule out(1), rule out(2), rule out(3), rule out(4), rule read_buffer_body)
qed

text \<open>Also: The timestamp of a text line loses nothing: reading hours, minutes, seconds and milliseconds
  gives the 32-bit clock value back, and all of it was written through local arrays of ten digits
  without overrunning them, whatever the callback.\<close>

theorem text_timestamp_roundtrip:
  "\<exists>text fs. text_timestamp_fields (on9log_text_filtered_output (on9log_text_stream_output stream) flags) ms (0, st) =
       Some fs \<and>
     (\<exists>cs. snd fs = observe (chunks_events stream cs) st \<and> chunks_bytes cs = text) \<and>
     read_timestamp text = unat ms"
proof -
  have lf: "LF \<notin> set (text_timestamp n)" for n
  proof -
    have "c \<in> set (pad_digits w k) \<Longrightarrow> 48 \<le> unat c" for c w k
      by (induction w arbitrary: k) (auto simp: unat_dec_char)
    then have pad: "LF \<notin> set (pad_digits w k)" for w k by fastforce
    have "LF \<notin> set (ascii '':'')" "LF \<notin> set (ascii ''.'')" by (simp_all add: ascii_def)
    then show ?thesis using pad dec_char_not by (auto simp: text_timestamp_def Let_def)
  qed
  have "stream_line.line_ok (0, st)" by (simp add: stream_line.line_ok_def)
  then obtain fs where fs: "text_timestamp_fields (on9log_text_filtered_output (on9log_text_stream_output stream) flags) ms
      (0, st) = Some fs" "stream_line.line_appended stream flags (0, st) (text_timestamp (unat ms)) fs"
    using stream_line.line.emits_run [OF stream_line.line.emits_timestamp] by blast
  then show ?thesis
    using read_timestamp_text [of "unat ms"] crlf_no_LF [OF lf]
    by (auto simp: stream_line.line_appended_def stream_appended_def text_filtered_def split: if_splits)
qed


text \<open>Also: An ISR line is queued whole or counted as dropped. It is queued exactly when the whole line
  fits the ISR packet buffer and the queue accepts it; nothing is ever cut off, and nothing but the
  queue or the drop count changes.\<close>

theorem text_isr_line_is_whole:
  assumes "on9log_level_enabled env m st level tag = Some True" and "port_isr_ready env"
    and "cstr m tag name" and "tag \<noteq> NULL"
  shows "on9log_write_text_isr_with_flags env m level tag flags (Some txt) n st =
    (let line = text_line level (unat (port_isr_timestamp_ms env)) name flags (take n txt)
     in if length line \<le> cfg_isr_packet_max env \<and> port_isr_enqueue_packet env (st_isr_queue st) line
        then Some (True, st\<lparr>st_isr_queue := st_isr_queue st @ [line]\<rparr>)
        else Some (False, count_dropped st))"
proof -
  let ?cap = "cfg_isr_packet_max env"
  let ?enc = "enc_init ?cap (replicate ?cap 0)"
  let ?out = "on9log_text_filtered_output on9log_text_encoder_output flags"
  let ?line = "text_line level (unat (port_isr_timestamp_ms env)) name flags (take n txt)"
  have ok: "enc_ok ?enc" by (simp add: enc_init_ok)
  have body: "encoder_line.line.emits flags (\<lambda>s. Some (?out (take n txt) s)) (take n txt)"
    by (rule encoder_line.line.emits_last_out)
  obtain fs1 fs2 l enc where *: "on9log_text_output_prefix m ?out level (port_isr_timestamp_ms env) tag flags (0, ?enc) = Some fs1"
    "Some (?out (take n txt) fs1) = Some fs2" "on9log_text_output_suffix ?out flags fs2 = (l, enc)"
    "enc_appends ?enc ?line enc"
    using encoder_line.whole_line [OF ok rd_tag_cstr [OF assms(3,4)] body] by blast
  have cap: "?cap \<le> length (replicate ?cap 0)" by simp
  have "enc_overflow enc \<longleftrightarrow> ?cap < length ?line" by (rule enc_init_appends(1) [OF cap *(4)])
  moreover have "length ?line \<le> ?cap \<Longrightarrow> take (enc_len enc) (enc_data enc) = ?line"
    using enc_init_appends(2) [OF cap *(4)] unfolding enc_out_def by blast
  ultimately show ?thesis
    using assms(1,2) *(1-3)
    by (auto simp: on9log_write_text_isr_with_flags_def Let_def on9log_port_isr_enqueue_packet_def)
qed

section \<open>Concrete calls\<close>

definition text_mem :: mem where
  "text_mem = mem_object 64 [116, 0] (mem_object 128 [1, 255, 10] Map.empty)"

lemma text_enabled: "on9log_level_enabled on9log_default_env text_mem demo_state 3 64 = Some True"
  by (simp add: on9log_level_enabled_def on9log_filter_level_for_tag_def demo_state_def
      on9log_initial_state_def on9log_default_env_def on9log_valid_level_def)

lemma text_tag: "cstr text_mem 64 [116]"
  by (simp add: text_mem_def mem_object_def)

text \<open>A message in three pieces, one of them empty.\<close>

definition demo_printf :: printf_out where
  "demo_printf m f args = [[104], [], [105, 10, 106]]"

lemma puts_all_True: "puts_all (\<lambda>_. True)"
  by (simp add: puts_all_def)

theorem text_call_reaches_the_outputs_witness:
  "\<exists>st' evs s' u' text. on9log_vwrite_text on9log_default_env demo_printf 32 text_mem 3 64 57 80 [] demo_state = Some st' \<and>
     st_events st' = st_events demo_state @ evs \<and> s_dropped_count st' = 0 \<and>
     esp_text_sink.feed 7 takes_some demo_sink evs demo_esp_sink = Some s' \<and>
     unix_text_sink.feed (\<lambda>_. True) demo_sink evs demo_unix_sink = Some u' \<and>
     list_all (\<lambda>fd. io_out (snd s') fd = io_out (snd demo_esp_sink) fd @ text) (active_outputs (snd demo_esp_sink)) \<and>
     stream_out u' = stream_out demo_unix_sink @ text \<and>
     text = due_text on9log_default_env demo_state @
       text_line 3 (unat (port_timestamp_ms on9log_default_env (line_clock demo_state))) [116] 57
         (concat (demo_printf text_mem (format_or_empty 80) []))"
  by (rule text_call_reaches_the_outputs [OF text_enabled text_tag _ _ demo_state_ok(1,3) demo_sinks_ready(3) takes_some_ok(2)
        demo_sinks_ready(4) puts_all_True]) simp_all

theorem text_buffer_roundtrip_witness:
  "\<exists>st' evs s' u' before body after. on9log_write_buffer_text on9log_default_env text_mem 3 64 57 128 3 demo_state = Some st' \<and>
     st_events st' = st_events demo_state @ evs \<and>
     esp_text_sink.feed 7 takes_some demo_sink evs demo_esp_sink = Some s' \<and>
     unix_text_sink.feed (\<lambda>_. True) demo_sink evs demo_unix_sink = Some u' \<and>
     list_all (\<lambda>fd. io_out (snd s') fd = io_out (snd demo_esp_sink) fd @ before @ body @ after) (active_outputs (snd demo_esp_sink)) \<and>
     stream_out u' = stream_out demo_unix_sink @ before @ body @ after \<and> read_buffer_body body = Some [1, 255, 10]"
  by (rule text_buffer_roundtrip [OF text_enabled text_tag _ _ _ _ demo_state_ok(1,3) demo_sinks_ready(3) takes_some_ok(2)
        demo_sinks_ready(4) puts_all_True]) (simp_all add: text_mem_def mem_object_def)

theorem text_isr_line_is_whole_witness:
  "on9log_write_text_isr_with_flags isr_demo_env text_mem 3 64 0 (Some [104, 105]) 2 demo_state =
     Some (True, demo_state\<lparr>st_isr_queue := [[104, 105, 10]]\<rparr>)"
proof -
  have on: "on9log_level_enabled isr_demo_env text_mem demo_state 3 64 = Some True"
    by (simp add: on9log_level_enabled_def on9log_filter_level_for_tag_def demo_state_def isr_demo_env_def
        on9log_initial_state_def on9log_default_env_def on9log_valid_level_def)
  have line: "text_line 3 t [116] 0 [104, 105] = [104, 105, 10]" for t
    by (simp add: text_line_def text_filtered_def text_prefix_def text_fields_def text_suffix_def)
  have q: "st_isr_queue demo_state = []" by (simp add: demo_state_def on9log_initial_state_def)
  show ?thesis
    using text_isr_line_is_whole [OF on isr_demo_ok(3) text_tag, of 0 "[104, 105]" 2]
    by (simp add: line q isr_demo_env_def on9log_default_env_def)
qed

end
