(* ===== verification/CxxWrapper.thy ===== *)
theory CxxWrapper
  imports IsrWrite TextCorrect
begin

text \<open>
  The C++ wrapper \<^verbatim>\<open>on9log.hpp\<close>: how typed arguments become the type table and the variadic
  arguments of the C interface, the compile-time level check, the choice between printf and fmt
  formats in the plain-text build, and the methods of \<open>Logger\<close>.

  A C++ type is what the wrapper's traits can tell about it; a template instantiated with a list
  of types is a function of that list. A \<open>static_assert\<close> that fails is \<open>None\<close>: there is no such
  program. The fmt library is not under \<^verbatim>\<open>src\<close>: the text it produces is an argument.
\<close>

section \<open>Types and values\<close>

text \<open>
  \<open>CxxStringView\<close> is \<open>std::string_view\<close> or \<open>std::string\<close>; \<open>CxxFloat n\<close>, \<open>CxxInt n signed\<close> and
  \<open>CxxEnum n signed\<close> carry \<open>sizeof\<close> (of the underlying type, for an enumeration).
\<close>

datatype cxx_type =
    CxxStringView
  | CxxCharPtr
  | CxxCharArray
  | CxxArray
  | CxxNullPtr
  | CxxObjPtr
  | CxxFunPtr
  | CxxFloat nat
  | CxxInt nat bool
  | CxxEnum nat bool
  | CxxOther

text \<open>A pointer is its address (arrays decay), a floating-point value the bits of it as a double.\<close>

datatype cxx_value =
    CxxText on9log_string_view
  | CxxAddr addr
  | CxxReal u64
  | CxxNumber int

primrec arg_type_code :: "cxx_type \<Rightarrow> u8 option" where
  "arg_type_code CxxStringView = Some ON9_LOG_ARGS_TYPE_DYNAMIC_STRING_VIEW"
| "arg_type_code CxxCharPtr = Some ON9_LOG_ARGS_TYPE_DYNAMIC_STRING"
| "arg_type_code CxxCharArray = Some ON9_LOG_ARGS_TYPE_DYNAMIC_STRING"
| "arg_type_code CxxArray = Some ON9_LOG_ARGS_TYPE_POINTER"
| "arg_type_code CxxNullPtr = Some ON9_LOG_ARGS_TYPE_POINTER"
| "arg_type_code CxxObjPtr = Some ON9_LOG_ARGS_TYPE_POINTER"
| "arg_type_code CxxFunPtr = None"
| "arg_type_code (CxxFloat n) = (if n \<le> 8 then Some ON9_LOG_ARGS_TYPE_64BITS else None)"
| "arg_type_code (CxxInt n sgnd) =
     (if n > 4 then (if n \<le> 8 then Some ON9_LOG_ARGS_TYPE_64BITS else None)
      else Some ON9_LOG_ARGS_TYPE_32BITS)"
| "arg_type_code (CxxEnum n sgnd) =
     (if n > 4 then (if n \<le> 8 then Some ON9_LOG_ARGS_TYPE_64BITS else None)
      else Some ON9_LOG_ARGS_TYPE_32BITS)"
| "arg_type_code CxxOther = None"

fun codes :: "cxx_type list \<Rightarrow> bytes option" where
  "codes [] = Some []"
| "codes (t # ts) = do { c \<leftarrow> arg_type_code t; cs \<leftarrow> codes ts; Some (c # cs) }"

definition arg_types :: "cxx_type list \<Rightarrow> bytes option" where
  "arg_types ts =
     (if length ts \<le> ON9LOG_MAX_ARGS
      then do { cs \<leftarrow> codes ts; Some (cs @ [ON9_LOG_ARGS_TYPE_NONE]) }
      else None)"

section \<open>Packing\<close>

text \<open>The result type of \<open>wire_arg\<close>, which is deduced.\<close>

datatype cxx_wire =
    WireView on9log_string_view
  | WireCharPtr addr
  | WireVoidPtr addr
  | WireU32 u32
  | WireU64 u64

text \<open>\<open>static_cast\<close> of an integer to an unsigned type is reduction modulo its size.\<close>

definition integer_bits :: "cxx_type \<Rightarrow> int \<Rightarrow> cxx_wire option" where
  "integer_bits t value =
     (case t of
        CxxEnum n sgnd \<Rightarrow> Some (if n > 4 then WireU64 (word_of_int value) else WireU32 (word_of_int value))
      | CxxInt n sgnd \<Rightarrow> Some (if n > 4 then WireU64 (word_of_int value) else WireU32 (word_of_int value))
      | _ \<Rightarrow> None)"

definition float_bits :: "u64 \<Rightarrow> u64" where
  "float_bits value = value"

fun wire_arg :: "cxx_type \<Rightarrow> cxx_value \<Rightarrow> cxx_wire option" where
  "wire_arg CxxStringView (CxxText v) = Some (WireView \<lparr>sv_data = sv_data v, sv_len = sv_len v\<rparr>)"
| "wire_arg CxxCharPtr (CxxAddr p) = Some (WireCharPtr p)"
| "wire_arg CxxCharArray (CxxAddr p) = Some (WireCharPtr p)"
| "wire_arg CxxArray (CxxAddr p) = Some (WireVoidPtr p)"
| "wire_arg CxxNullPtr (CxxAddr p) = Some (WireVoidPtr NULL)"
| "wire_arg CxxObjPtr (CxxAddr p) = Some (WireVoidPtr p)"
| "wire_arg (CxxFloat n) (CxxReal bits) = Some (WireU64 (float_bits bits))"
| "wire_arg (CxxInt n sgnd) (CxxNumber i) = integer_bits (CxxInt n sgnd) i"
| "wire_arg (CxxEnum n sgnd) (CxxNumber i) = integer_bits (CxxEnum n sgnd) i"
| "wire_arg _ _ = None"

text \<open>A string view is passed as the address of its descriptor in the tuple.\<close>

primrec vararg_value :: "cxx_wire \<Rightarrow> va_value" where
  "vararg_value (WireView v) = VA_view (Some v)"
| "vararg_value (WireCharPtr p) = VA_ptr p"
| "vararg_value (WireVoidPtr p) = VA_ptr p"
| "vararg_value (WireU32 v) = VA_u32 v"
| "vararg_value (WireU64 v) = VA_u64 v"

fun with_wire_args :: "cxx_type list \<Rightarrow> cxx_value list \<Rightarrow> va_list option" where
  "with_wire_args [] [] = Some []"
| "with_wire_args (t # ts) (v # vs) =
     do { w \<leftarrow> wire_arg t v; args \<leftarrow> with_wire_args ts vs; Some (vararg_value w # args) }"
| "with_wire_args _ _ = None"

section \<open>Binary calls\<close>

definition level_enabled :: "on9log_env \<Rightarrow> on9log_level_t \<Rightarrow> bool" where
  "level_enabled env level \<longleftrightarrow> level \<noteq> ON9_LOG_LEVEL_NONE \<and> level \<le> cfg_unit_level env"

definition write_log ::
    "on9log_env \<Rightarrow> mem \<Rightarrow> mem \<Rightarrow> on9log_level_t \<Rightarrow> addr \<Rightarrow> u8 \<Rightarrow> addr \<Rightarrow> cxx_type list \<Rightarrow> cxx_value list \<Rightarrow>
       on9log_state \<Rightarrow> on9log_state option" where
  "write_log env m m' level tag text_flags format ts vs st =
     (if level_enabled env level
      then do { types \<leftarrow> arg_types ts;
                args \<leftarrow> with_wire_args ts vs;
                on9log_write env m m' level tag format (Some types) args st }
      else Some st)"

text \<open>
  The two \<open>static_assert\<close>s of the ISR variant; asking for the code of an argument already rejects the
  types that have none.
\<close>

definition isr_types_ok :: "cxx_type list \<Rightarrow> bool" where
  "isr_types_ok ts \<longleftrightarrow>
     list_all (\<lambda>t. arg_type_code t \<noteq> None) ts \<and>
     list_all (\<lambda>t. arg_type_code t \<noteq> Some ON9_LOG_ARGS_TYPE_DYNAMIC_STRING) ts \<and>
     list_all (\<lambda>t. arg_type_code t \<noteq> Some ON9_LOG_ARGS_TYPE_DYNAMIC_STRING_VIEW) ts"

definition write_log_isr ::
    "on9log_env \<Rightarrow> mem \<Rightarrow> on9log_level_t \<Rightarrow> addr \<Rightarrow> u8 \<Rightarrow> addr \<Rightarrow> cxx_type list \<Rightarrow> cxx_value list \<Rightarrow>
       on9log_state \<Rightarrow> (bool \<times> on9log_state) option" where
  "write_log_isr env m level tag text_flags format ts vs st =
     (if \<not> level_enabled env level then Some (True, st)
      else if \<not> isr_types_ok ts then None
      else do { types \<leftarrow> arg_types ts;
                args \<leftarrow> with_wire_args ts vs;
                on9log_write_isr env m level tag format (Some types) args st })"

definition write_buffer ::
    "on9log_env \<Rightarrow> mem \<Rightarrow> on9log_level_t \<Rightarrow> addr \<Rightarrow> u8 \<Rightarrow> addr \<Rightarrow> nat \<Rightarrow> on9log_state \<Rightarrow> on9log_state option"
  where
  "write_buffer env m level tag text_flags buffer len st =
     (if level_enabled env level
      then on9log_write_buffer_with_text_flags env m level tag text_flags buffer len st
      else Some st)"

section \<open>\<open>Logger\<close>\<close>

record logger_target =
  lt_tag :: addr
  lt_text_flags :: u8

text \<open>
  The overloads of a method differ in where the format comes from: a pointer the caller gives, or
  the address of the \<^verbatim>\<open>.noload\<close> storage of a literal.
\<close>

datatype log_format = PlainFormat addr | TokenFormat addr

primrec format_pointer :: "log_format \<Rightarrow> addr" where
  "format_pointer (PlainFormat p) = p"
| "format_pointer (TokenFormat p) = p"

definition Logger_DefaultFlags :: u8 where
  "Logger_DefaultFlags = TEXT_PRETTY OR TEXT_SHOWTOPIC OR TEXT_SHOWTIMESTAMP OR TEXT_CR"

definition Logger_init :: "addr \<Rightarrow> u8 \<Rightarrow> logger_target" where
  "Logger_init tag flags = \<lparr>lt_tag = tag, lt_text_flags = flags\<rparr>"

definition Logger_set_tag :: "addr \<Rightarrow> logger_target \<Rightarrow> logger_target" where
  "Logger_set_tag tag lg = lg\<lparr>lt_tag := tag\<rparr>"

type_synonym logger_method =
  "on9log_env \<Rightarrow> mem \<Rightarrow> mem \<Rightarrow> logger_target \<Rightarrow> log_format \<Rightarrow> cxx_type list \<Rightarrow> cxx_value list \<Rightarrow>
     on9log_state \<Rightarrow> on9log_state option"

definition Logger_log :: "on9log_level_t \<Rightarrow> logger_method" where
  "Logger_log level env m m' lg format ts vs st =
     write_log env m m' level (lt_tag lg) (lt_text_flags lg) (format_pointer format) ts vs st"

definition Logger_error :: logger_method where "Logger_error = Logger_log ON9_LOG_LEVEL_ERROR"
definition Logger_warn :: logger_method where "Logger_warn = Logger_log ON9_LOG_LEVEL_WARN"
definition Logger_info :: logger_method where "Logger_info = Logger_log ON9_LOG_LEVEL_INFO"
definition Logger_debug :: logger_method where "Logger_debug = Logger_log ON9_LOG_LEVEL_DEBUG"
definition Logger_verbose :: logger_method where "Logger_verbose = Logger_log ON9_LOG_LEVEL_VERBOSE"
definition Logger_e :: logger_method where "Logger_e = Logger_log ON9_LOG_LEVEL_ERROR"
definition Logger_w :: logger_method where "Logger_w = Logger_log ON9_LOG_LEVEL_WARN"
definition Logger_i :: logger_method where "Logger_i = Logger_log ON9_LOG_LEVEL_INFO"
definition Logger_d :: logger_method where "Logger_d = Logger_log ON9_LOG_LEVEL_DEBUG"
definition Logger_v :: logger_method where "Logger_v = Logger_log ON9_LOG_LEVEL_VERBOSE"

type_synonym logger_isr_method =
  "on9log_env \<Rightarrow> mem \<Rightarrow> logger_target \<Rightarrow> log_format \<Rightarrow> cxx_type list \<Rightarrow> cxx_value list \<Rightarrow>
     on9log_state \<Rightarrow> (bool \<times> on9log_state) option"

definition Logger_isr_log :: "on9log_level_t \<Rightarrow> logger_isr_method" where
  "Logger_isr_log level env m lg format ts vs st =
     write_log_isr env m level (lt_tag lg) (lt_text_flags lg) (format_pointer format) ts vs st"

definition Logger_isr_error :: logger_isr_method where "Logger_isr_error = Logger_isr_log ON9_LOG_LEVEL_ERROR"
definition Logger_isr_warn :: logger_isr_method where "Logger_isr_warn = Logger_isr_log ON9_LOG_LEVEL_WARN"
definition Logger_isr_info :: logger_isr_method where "Logger_isr_info = Logger_isr_log ON9_LOG_LEVEL_INFO"
definition Logger_isr_debug :: logger_isr_method where "Logger_isr_debug = Logger_isr_log ON9_LOG_LEVEL_DEBUG"
definition Logger_isr_verbose :: logger_isr_method where "Logger_isr_verbose = Logger_isr_log ON9_LOG_LEVEL_VERBOSE"

type_synonym logger_buffer_method =
  "on9log_env \<Rightarrow> mem \<Rightarrow> logger_target \<Rightarrow> addr \<Rightarrow> nat \<Rightarrow> on9log_state \<Rightarrow> on9log_state option"

definition Logger_buffer :: "on9log_level_t \<Rightarrow> logger_buffer_method" where
  "Logger_buffer level env m lg buffer len st =
     write_buffer env m level (lt_tag lg) (lt_text_flags lg) buffer len st"

definition Logger_buffer_error :: logger_buffer_method where "Logger_buffer_error = Logger_buffer ON9_LOG_LEVEL_ERROR"
definition Logger_buffer_warn :: logger_buffer_method where "Logger_buffer_warn = Logger_buffer ON9_LOG_LEVEL_WARN"
definition Logger_buffer_info :: logger_buffer_method where "Logger_buffer_info = Logger_buffer ON9_LOG_LEVEL_INFO"
definition Logger_buffer_debug :: logger_buffer_method where "Logger_buffer_debug = Logger_buffer ON9_LOG_LEVEL_DEBUG"
definition Logger_buffer_verbose :: logger_buffer_method where "Logger_buffer_verbose = Logger_buffer ON9_LOG_LEVEL_VERBOSE"

text \<open>The overloads for arrays, which know their size: \<open>n\<close> elements of \<open>sz\<close> bytes.\<close>

definition Logger_buffer_info_array :: "on9log_env \<Rightarrow> mem \<Rightarrow> logger_target \<Rightarrow> addr \<Rightarrow> nat \<Rightarrow> nat \<Rightarrow> on9log_state \<Rightarrow> on9log_state option" where
  "Logger_buffer_info_array env m lg buffer sz n st = Logger_buffer_info env m lg buffer (sz * n) st"

definition Logger_buffer_debug_array :: "on9log_env \<Rightarrow> mem \<Rightarrow> logger_target \<Rightarrow> addr \<Rightarrow> nat \<Rightarrow> nat \<Rightarrow> on9log_state \<Rightarrow> on9log_state option" where
  "Logger_buffer_debug_array env m lg buffer sz n st = Logger_buffer_debug env m lg buffer (sz * n) st"

section \<open>Static methods\<close>

definition Logger_set_level :: "on9log_level_t \<Rightarrow> on9log_state \<Rightarrow> on9log_state" where
  "Logger_set_level level st = on9log_set_level level st"

definition Logger_level :: "on9log_state \<Rightarrow> on9log_level_t" where
  "Logger_level st = on9log_get_level st"

definition Logger_set_tag_level ::
    "mem \<Rightarrow> (on9log_state \<Rightarrow> on9log_state) \<Rightarrow> bool \<Rightarrow> bool \<Rightarrow> addr \<Rightarrow> on9log_level_t \<Rightarrow> on9log_state \<Rightarrow>
       (on9log_err_t \<times> on9log_state) option" where
  "Logger_set_tag_level m between malloc_ok calloc_ok tag level st =
     on9log_set_tag_level m between malloc_ok calloc_ok tag level st"

definition Logger_clear_tag_level :: "mem \<Rightarrow> addr \<Rightarrow> on9log_state \<Rightarrow> (on9log_err_t \<times> on9log_state) option" where
  "Logger_clear_tag_level m tag st = on9log_clear_tag_level m tag st"

end
