(* ===== verification/CxxCorrect.thy ===== *)
theory CxxCorrect
  imports CxxWrapper
begin

text \<open>
  The plain-text half of \<^verbatim>\<open>on9log.hpp\<close> (the scanners that tell printf formats from fmt formats, and
  the two ways a message is formatted), and what holds of both halves: a C++ call's arguments
  always match their type table and come back from the packet with the values they had, and the
  scanners stay inside the format.
\<close>

section \<open>Formats\<close>

text \<open>
  A format is given by the bytes from the pointer on, its NUL included; running past them would be
  a read outside the string: \<open>None\<close>.
\<close>

definition fmt_field_start :: "u8 \<Rightarrow> bool" where
  "fmt_field_start c \<longleftrightarrow> c = 125 \<or> c = 58 \<or> c = 95 \<or> 48 \<le> c \<and> c \<le> 57 \<or> 65 \<le> c \<and> c \<le> 90 \<or> 97 \<le> c \<and> c \<le> 122"

fun fmt_loop :: "bytes \<Rightarrow> bool option" where
  "fmt_loop [] = None"
| "fmt_loop (c # p) =
     (if c = 0 then Some False
      else if c \<noteq> 123 then fmt_loop p
      else (case p of
              [] \<Rightarrow> None
            | next # q \<Rightarrow>
                if next = 123 then fmt_loop q
                else if fmt_field_start next then Some True
                else fmt_loop p))"

definition has_fmt_replacement :: "bytes option \<Rightarrow> bool option" where
  "has_fmt_replacement format = (case format of None \<Rightarrow> Some False | Some p \<Rightarrow> fmt_loop p)"

definition cxx_is_flag :: "u8 \<Rightarrow> bool" where
  "cxx_is_flag c \<longleftrightarrow> c = 45 \<or> c = 43 \<or> c = 32 \<or> c = 35 \<or> c = 48 \<or> c = 39"

primrec skip_while :: "(u8 \<Rightarrow> bool) \<Rightarrow> bytes \<Rightarrow> bytes option" where
  "skip_while P [] = None"
| "skip_while P (c # p) = (if P c then skip_while P p else Some (c # p))"

definition skip_number :: "bytes \<Rightarrow> bytes option" where
  "skip_number p =
     (case p of [] \<Rightarrow> None | c # q \<Rightarrow> if c = 42 then Some q else skip_while is_digit p)"

definition skip_precision :: "bytes \<Rightarrow> bytes option" where
  "skip_precision p = (case p of [] \<Rightarrow> None | c # q \<Rightarrow> if c = 46 then skip_number q else Some p)"

definition skip_length :: "bytes \<Rightarrow> bytes option" where
  "skip_length p =
     (case p of
        [] \<Rightarrow> None
      | c # q \<Rightarrow>
          if c = 104 \<or> c = 108
          then (case q of [] \<Rightarrow> None | d # r \<Rightarrow> if d = c then Some r else Some q)
          else if c = 106 \<or> c = 122 \<or> c = 116 \<or> c = 76 then Some q
          else Some p)"

definition is_conversion :: "u8 \<Rightarrow> bool" where
  "is_conversion c \<longleftrightarrow>
     c = 100 \<or> c = 105 \<or> c = 111 \<or> c = 117 \<or> c = 120 \<or> c = 88 \<or> c = 102 \<or> c = 70 \<or> c = 101 \<or>
     c = 69 \<or> c = 103 \<or> c = 71 \<or> c = 97 \<or> c = 65 \<or> c = 99 \<or> c = 115 \<or> c = 112 \<or> c = 110"

text \<open>From behind the percent sign to the conversion character.\<close>

definition skip_directive :: "bytes \<Rightarrow> bytes option" where
  "skip_directive p =
     do { p \<leftarrow> skip_while cxx_is_flag p;
          p \<leftarrow> skip_number p;
          p \<leftarrow> skip_precision p;
          skip_length p }"

lemma skip_while_length: "skip_while P p = Some q \<Longrightarrow> length q \<le> length p"
  by (induction p) (auto split: if_splits)

lemma skip_number_length: "skip_number p = Some q \<Longrightarrow> length q \<le> length p"
  by (auto simp: skip_number_def split: list.splits if_splits dest: skip_while_length)

lemma skip_directive_length: "skip_directive p = Some q \<Longrightarrow> length q \<le> length p"
proof -
  have "skip_precision p = Some q \<Longrightarrow> length q \<le> length p" for p q
    by (auto simp: skip_precision_def split: list.splits if_splits dest: skip_number_length)
  moreover have "skip_length p = Some q \<Longrightarrow> length q \<le> length p" for p q
    by (auto simp: skip_length_def split: list.splits if_splits)
  ultimately show "skip_directive p = Some q \<Longrightarrow> length q \<le> length p"
    unfolding skip_directive_def
    by (auto split: Option.bind_splits) (meson le_trans skip_number_length skip_while_length)
qed

function printf_loop :: "bytes \<Rightarrow> bool option" where
  "printf_loop [] = None"
| "printf_loop (c # p) =
     (if c = 0 then Some False
      else if c \<noteq> 37 then printf_loop p
      else (case p of
              [] \<Rightarrow> None
            | d # _ \<Rightarrow>
                if d = 37 then Some True
                else (case skip_directive p of
                        None \<Rightarrow> None
                      | Some [] \<Rightarrow> None
                      | Some (k # r) \<Rightarrow>
                          if is_conversion k then Some True
                          else if k = 0 then Some False
                          else printf_loop r)))"
  by pat_completeness auto
termination
  by (relation "measure length") (auto dest: skip_directive_length)

definition has_printf_conversion :: "bytes option \<Rightarrow> bool option" where
  "has_printf_conversion format = (case format of None \<Rightarrow> Some False | Some p \<Rightarrow> printf_loop p)"

definition uses_printf_format :: "bytes option \<Rightarrow> bool option" where
  "uses_printf_format format =
     do { f \<leftarrow> has_fmt_replacement format;
          if f then Some False else has_printf_conversion format }"

section \<open>Plain-text calls\<close>

primrec is_printf_arg :: "cxx_type \<Rightarrow> bool" where
  "is_printf_arg CxxStringView = False"
| "is_printf_arg CxxCharPtr = True"
| "is_printf_arg CxxCharArray = True"
| "is_printf_arg CxxArray = True"
| "is_printf_arg CxxNullPtr = True"
| "is_printf_arg CxxObjPtr = True"
| "is_printf_arg CxxFunPtr = True"
| "is_printf_arg (CxxFloat n) = True"
| "is_printf_arg (CxxInt n sgnd) = True"
| "is_printf_arg (CxxEnum n sgnd) = True"
| "is_printf_arg CxxOther = False"

text \<open>
  \<open>printf_arg\<close>: an enumeration as its underlying type, \<open>nullptr\<close> as a null pointer, everything
  else as it is; the default promotions of a variadic call then make it 32 or 64 bits wide. Numbers
  wider than that (\<open>long double\<close>, \<open>__int128\<close>) have no value in this model.
\<close>

fun printf_arg :: "cxx_type \<Rightarrow> cxx_value \<Rightarrow> va_value option" where
  "printf_arg CxxNullPtr v = Some (VA_ptr NULL)"
| "printf_arg (CxxEnum n sgnd) (CxxNumber i) =
     (if n > 8 then None else Some (if n > 4 then VA_u64 (word_of_int i) else VA_u32 (word_of_int i)))"
| "printf_arg (CxxInt n sgnd) (CxxNumber i) =
     (if n > 8 then None else Some (if n > 4 then VA_u64 (word_of_int i) else VA_u32 (word_of_int i)))"
| "printf_arg t (CxxAddr p) = Some (VA_ptr p)"
| "printf_arg (CxxFloat n) (CxxReal bits) = (if n > 8 then None else Some (VA_u64 bits))"
| "printf_arg _ _ = None"

fun printf_args :: "cxx_type list \<Rightarrow> cxx_value list \<Rightarrow> va_list option" where
  "printf_args [] [] = Some []"
| "printf_args (t # ts) (v # vs) =
     do { a \<leftarrow> printf_arg t v; args \<leftarrow> printf_args ts vs; Some (a # args) }"
| "printf_args _ _ = None"

text \<open>
  The fmt library appends its output to \<open>text_output_container\<close>, a character (\<open>push_back\<close>) or a
  range (\<open>append\<close>) at a time; \<open>fmt_out\<close> gives these pieces.
\<close>

type_synonym fmt_out = "mem \<Rightarrow> addr option \<Rightarrow> (cxx_type \<times> cxx_value) list \<Rightarrow> bytes list"

definition format_text ::
    "fmt_out \<Rightarrow> mem \<Rightarrow> addr \<Rightarrow> (cxx_type \<times> cxx_value) list \<Rightarrow> 's text_formatter_cb" where
  "format_text fmt m format args out s = Some (fold out (fmt m (format_or_empty format) args) s)"

text \<open>The format string a scanner walks over, up to and including its NUL.\<close>

definition format_bytes :: "mem \<Rightarrow> addr \<Rightarrow> bytes option option" where
  "format_bytes m format =
     (if format = NULL then Some None
      else do { n \<leftarrow> c_strlen m format; bs \<leftarrow> rd_bytes m format (Suc n); Some (Some bs) })"

text \<open>Whether \<open>if constexpr\<close> and the test of the format choose printf.\<close>

definition chooses_printf :: "mem \<Rightarrow> addr \<Rightarrow> cxx_type list \<Rightarrow> bool option" where
  "chooses_printf m format ts =
     (if list_all is_printf_arg ts
      then do { f \<leftarrow> format_bytes m format; uses_printf_format f }
      else Some False)"

text \<open>
  Both ways are compiled, whichever the format chooses, so \<open>plain_text_arg\<close> rejects function pointers
  in either case.
\<close>

definition plain_text_types_ok :: "cxx_type list \<Rightarrow> bool" where
  "plain_text_types_ok ts \<longleftrightarrow> list_all (\<lambda>t. t \<noteq> CxxFunPtr) ts"

definition write_log_text ::
    "on9log_env \<Rightarrow> printf_out \<Rightarrow> addr \<Rightarrow> fmt_out \<Rightarrow> mem \<Rightarrow> on9log_level_t \<Rightarrow> addr \<Rightarrow> u8 \<Rightarrow> addr \<Rightarrow>
       cxx_type list \<Rightarrow> cxx_value list \<Rightarrow> on9log_state \<Rightarrow> on9log_state option" where
  "write_log_text env vfprintf stream fmt m level tag text_flags format ts vs st =
     (if \<not> level_enabled env level then Some st
      else if \<not> plain_text_types_ok ts then None
      else do {
        printf \<leftarrow> chooses_printf m format ts;
        if printf
        then do { args \<leftarrow> printf_args ts vs;
                  on9log_vwrite_text env vfprintf stream m level tag text_flags format args st }
        else on9log_write_text_with_flags env m level tag text_flags
               (Some (format_text fmt m format (zip ts vs))) st })"

text \<open>
  \<open>fmt::format_to_n\<close> into a buffer of \<open>n\<close> bytes: the length of the whole text, and the first \<open>n\<close>
  bytes of it at most.
\<close>

type_synonym fmt_n_out = "nat \<Rightarrow> mem \<Rightarrow> addr option \<Rightarrow> (cxx_type \<times> cxx_value) list \<Rightarrow> nat \<times> bytes"

definition write_log_isr_text ::
    "on9log_env \<Rightarrow> snprintf_out \<Rightarrow> fmt_n_out \<Rightarrow> mem \<Rightarrow> on9log_level_t \<Rightarrow> addr \<Rightarrow> u8 \<Rightarrow> addr \<Rightarrow>
       cxx_type list \<Rightarrow> cxx_value list \<Rightarrow> on9log_state \<Rightarrow> (bool \<times> on9log_state) option" where
  "write_log_isr_text env vsnprintf fmt_n m level tag text_flags format ts vs st =
     (if \<not> level_enabled env level then Some (True, st)
      else if \<not> isr_types_ok ts then None
      else do {
        printf \<leftarrow> chooses_printf m format ts;
        if printf
        then do { types \<leftarrow> arg_types ts;
                  args \<leftarrow> printf_args ts vs;
                  on9log_vwrite_isr_text env vsnprintf m level tag text_flags format (Some types) args st }
        else
          (let (sz, txt) = fmt_n (cfg_isr_packet_max env) m (format_or_empty format) (zip ts vs)
           in if sz > cfg_isr_packet_max env then Some (False, st)
              else on9log_write_text_isr_with_flags env m level tag text_flags (Some txt) sz st) })"


section \<open>The scanners stay inside the format\<close>

text \<open>A position inside a NUL-terminated format.\<close>

definition terminated :: "bytes \<Rightarrow> bool" where
  "terminated p \<longleftrightarrow> (\<exists>s. p = s @ [0] \<and> 0 \<notin> set s)"

lemma terminated_Nil [simp]: "\<not> terminated []"
  by (simp add: terminated_def)

lemma terminated_Cons: "terminated (c # p) \<longleftrightarrow> (if c = 0 then p = [] else terminated p)"
proof
  assume "terminated (c # p)"
  then obtain s where s: "c # p = s @ [0]" "0 \<notin> set s" by (auto simp: terminated_def)
  then show "if c = 0 then p = [] else terminated p" by (cases s) (auto simp: terminated_def)
next
  assume "if c = 0 then p = [] else terminated p"
  then show "terminated (c # p)"
    by (auto simp: terminated_def split: if_splits intro: exI [of _ "c # _"])
qed

lemma skip_while_terminated: "terminated p \<Longrightarrow> \<not> P 0 \<Longrightarrow> \<exists>q. skip_while P p = Some q \<and> terminated q"
  by (induction p) (auto simp: terminated_Cons split: if_splits)

lemma skip_number_terminated: "terminated p \<Longrightarrow> \<exists>q. skip_number p = Some q \<and> terminated q"
  using skip_while_terminated [of p is_digit]
  by (cases p) (auto simp: skip_number_def terminated_Cons is_digit_def split: if_splits)

lemma skip_directive_terminated:
  assumes "terminated p"
  shows "\<exists>q. skip_directive p = Some q \<and> terminated q"
proof -
  obtain p1 where p1: "skip_while cxx_is_flag p = Some p1" "terminated p1"
    using skip_while_terminated [OF assms, of cxx_is_flag] by (auto simp: cxx_is_flag_def)
  obtain p2 where p2: "skip_number p1 = Some p2" "terminated p2"
    using skip_number_terminated [OF p1(2)] by blast
  have "\<exists>p3. skip_precision p2 = Some p3 \<and> terminated p3"
    using p2(2) skip_number_terminated by (cases p2) (auto simp: skip_precision_def terminated_Cons split: if_splits)
  then obtain p3 where p3: "skip_precision p2 = Some p3" "terminated p3" by blast
  have "\<exists>q. skip_length p3 = Some q \<and> terminated q"
    using p3(2) by (cases p3) (auto simp: skip_length_def terminated_Cons split: list.splits if_splits)
  then show ?thesis using p1(1) p2(1) p3(1) by (simp add: skip_directive_def)
qed

lemma fmt_loop_terminated: "terminated p \<Longrightarrow> \<exists>b. fmt_loop p = Some b"
proof (induction p rule: fmt_loop.induct)
  case (2 c p)
  then show ?case by (cases p) (auto simp: terminated_Cons split: if_splits)
qed simp

lemma printf_loop_terminated: "terminated p \<Longrightarrow> \<exists>b. printf_loop p = Some b"
proof (induction p rule: printf_loop.induct)
  case (2 c p)
  show ?case
  proof (cases "c = 0 \<or> c \<noteq> 37")
    case True
    then show ?thesis using 2 by (auto simp: terminated_Cons)
  next
    case False
    then have p: "terminated p" using "2.prems" by (simp add: terminated_Cons)
    then obtain d ds where d: "p = d # ds" by (cases p) auto
    obtain k r where k: "skip_directive p = Some (k # r)" "terminated (k # r)"
      using skip_directive_terminated [OF p] by (metis neq_Nil_conv terminated_Nil)
    then have "k \<noteq> 0 \<Longrightarrow> terminated r" by (simp add: terminated_Cons)
    then show ?thesis using "2.IH"(2) [OF _ _ d _ k(1) refl] False d k(1) by auto
  qed
qed simp

text \<open>Also: Deciding between printf and fmt reads nothing outside the format: for every NUL-terminated
  format, malformed directives included, the scan ends with an answer.\<close>

theorem cxx_format_scan_ends:
  assumes "0 \<notin> set s"
  shows "\<exists>b. uses_printf_format (Some (s @ [0])) = Some b"
proof -
  have "terminated (s @ [0])" using assms by (auto simp: terminated_def)
  then show ?thesis
    using fmt_loop_terminated printf_loop_terminated
    by (fastforce simp: uses_printf_format_def has_fmt_replacement_def has_printf_conversion_def)
qed

text \<open>A percent sign at the very end.\<close>

theorem cxx_format_scan_ends_witness: "\<exists>b. uses_printf_format (Some ([37, 108, 104, 37] @ [0])) = Some b"
  by (rule cxx_format_scan_ends) simp

section \<open>Arguments come back with their values\<close>

text \<open>
  What a decoded argument says about the value that was logged: integers of any width and sign
  read back as the same number, at the width the type table gives them.
\<close>

inductive cxx_means :: "on9log_env \<Rightarrow> mem \<Rightarrow> cxx_type \<Rightarrow> cxx_value \<Rightarrow> log_arg \<Rightarrow> bool" for env m where
  int_small: "n \<le> 4 \<Longrightarrow> (if sgnd then sint w else uint w) = i \<Longrightarrow>
    cxx_means env m (CxxInt n sgnd) (CxxNumber i) (Arg32 w)"
| int_wide: "4 < n \<Longrightarrow> n \<le> 8 \<Longrightarrow> (if sgnd then sint v else uint v) = i \<Longrightarrow>
    cxx_means env m (CxxInt n sgnd) (CxxNumber i) (Arg64 v)"
| enum_small: "n \<le> 4 \<Longrightarrow> (if sgnd then sint w else uint w) = i \<Longrightarrow>
    cxx_means env m (CxxEnum n sgnd) (CxxNumber i) (Arg32 w)"
| enum_wide: "4 < n \<Longrightarrow> n \<le> 8 \<Longrightarrow> (if sgnd then sint v else uint v) = i \<Longrightarrow>
    cxx_means env m (CxxEnum n sgnd) (CxxNumber i) (Arg64 v)"
| real: "n \<le> 8 \<Longrightarrow> cxx_means env m (CxxFloat n) (CxxReal v) (Arg64 v)"
| array: "cxx_means env m CxxArray (CxxAddr p) (ArgPtr (word_of_nat p))"
| object: "cxx_means env m CxxObjPtr (CxxAddr p) (ArgPtr (word_of_nat p))"
| null: "cxx_means env m CxxNullPtr (CxxAddr p) (ArgPtr 0)"
| null_text: "cxx_means env m CxxCharPtr (CxxAddr NULL) (ArgStr None)"
| text_ptr: "p \<noteq> NULL \<Longrightarrow> text_at m p (cfg_max_dynamic_string_len env) s \<Longrightarrow>
    cxx_means env m CxxCharPtr (CxxAddr p) (ArgStr (Some s))"
| text_array: "p \<noteq> NULL \<Longrightarrow> text_at m p (cfg_max_dynamic_string_len env) s \<Longrightarrow>
    cxx_means env m CxxCharArray (CxxAddr p) (ArgStr (Some s))"
| text_view: "sv_data v \<noteq> NULL \<or> sv_len v = 0 \<Longrightarrow>
    rd_bytes m (sv_data v) (min (sv_len v) (cfg_max_dynamic_string_len env)) = Some s \<Longrightarrow>
    cxx_means env m CxxStringView (CxxText v) (ArgStr (Some s))"

fun cxx_args_mean :: "on9log_env \<Rightarrow> mem \<Rightarrow> cxx_type list \<Rightarrow> cxx_value list \<Rightarrow> log_arg list \<Rightarrow> bool" where
  "cxx_args_mean env m [] vs vals \<longleftrightarrow> vs = [] \<and> vals = []"
| "cxx_args_mean env m (t # ts) (v # vs) (a # vals) \<longleftrightarrow> cxx_means env m t v a \<and> cxx_args_mean env m ts vs vals"
| "cxx_args_mean env m _ _ _ \<longleftrightarrow> False"

text \<open>Every value of a type of at most eight bytes has such a meaning.\<close>

lemma integers_have_meaning:
  assumes "0 < n" and "n \<le> 8"
    and "if sgnd then - (2 ^ (8 * n - 1)) \<le> i \<and> i < 2 ^ (8 * n - 1) else 0 \<le> i \<and> i < 2 ^ (8 * n)"
  shows "\<exists>a. cxx_means env m (CxxInt n sgnd) (CxxNumber i) a"
proof (cases "n \<le> 4")
  case True
  have "(2 :: int) ^ (8 * n - 1) \<le> 2 ^ 31" "(2 :: int) ^ (8 * n) \<le> 2 ^ 32"
    using True by (intro power_increasing; simp)+
  then have "(if sgnd then sint (word_of_int i :: u32) else uint (word_of_int i :: u32)) = i"
    using assms(3) by (auto simp: sint_sbintrunc' uint_word_of_int signed_take_bit_int_eq_self take_bit_int_eq_self split: if_splits)
  then show ?thesis using True by (blast intro: int_small)
next
  case False
  have "(2 :: int) ^ (8 * n - 1) \<le> 2 ^ 63" "(2 :: int) ^ (8 * n) \<le> 2 ^ 64"
    using assms(2) by (intro power_increasing; simp)+
  then have "(if sgnd then sint (word_of_int i :: u64) else uint (word_of_int i :: u64)) = i"
    using assms(3) by (auto simp: sint_sbintrunc' uint_word_of_int signed_take_bit_int_eq_self take_bit_int_eq_self split: if_splits)
  then show ?thesis using False assms(2) by (intro exI [of _ "Arg64 (word_of_int i)"] int_wide) simp_all
qed

lemma word_of_reading: "(if sgnd then sint w else uint w) = i \<Longrightarrow> word_of_int i = w"
  by (auto split: if_splits)

lemma cxx_means_packs:
  assumes "cxx_means env m t v a"
  shows "\<exists>code w. arg_type_code t = Some code \<and> code \<noteq> 0 \<and> wire_arg t v = Some w \<and>
     arg_denotes env m None code (vararg_value w) a"
  using assms
proof (cases rule: cxx_means.cases)
  case (text_ptr p s)
  then show ?thesis using arg_denotes.c_string [of p m env s None] by (simp add: clip_def)
next
  case (text_array p s)
  then show ?thesis using arg_denotes.c_string [of p m env s None] by (simp add: clip_def)
qed (auto simp: integer_bits_def float_bits_def dest: word_of_reading intro: arg_denotes.intros
    arg_denotes.pointer [of env m None NULL, simplified])

lemma cxx_args_pack:
  "cxx_args_mean env m ts vs vals \<Longrightarrow>
     \<exists>types args. codes ts = Some types \<and> 0 \<notin> set types \<and> length types = length ts \<and>
       with_wire_args ts vs = Some args \<and> args_denote env m 0 idx prev types args vals"
proof (induction env m ts vs vals arbitrary: idx prev rule: cxx_args_mean.induct)
  case (2 env m t ts v vs a vals)
  obtain code w where c: "arg_type_code t = Some code" "code \<noteq> 0" "wire_arg t v = Some w"
    "arg_denotes env m None code (vararg_value w) a"
    using cxx_means_packs 2(2) by (meson cxx_args_mean.simps(2))
  obtain types args where "codes ts = Some types" "0 \<notin> set types" "length types = length ts"
    "with_wire_args ts vs = Some args"
    "args_denote env m 0 (Suc idx) (va_int (vararg_value w)) types args vals"
    using 2(1) 2(2) by (meson cxx_args_mean.simps(2))
  moreover have "precision_of 0 idx prev = None" by (simp add: precision_of_def split: option.split)
  ultimately show ?case using c by simp
qed auto


section \<open>Calls\<close>

text \<open>Each method with the level its name says.\<close>

definition logger_methods :: "(logger_method \<times> on9log_level_t) list" where
  "logger_methods =
     [(Logger_error, 1), (Logger_warn, 2), (Logger_info, 3), (Logger_debug, 4), (Logger_verbose, 5),
      (Logger_e, 1), (Logger_w, 2), (Logger_i, 3), (Logger_d, 4), (Logger_v, 5)]"

lemma logger_method_level: "(method, level) \<in> set logger_methods \<Longrightarrow> method = Logger_log level"
  by (auto simp: logger_methods_def Logger_error_def Logger_warn_def Logger_info_def Logger_debug_def
      Logger_verbose_def Logger_e_def Logger_w_def Logger_i_def Logger_d_def Logger_v_def)

lemma cxx_call_is_vwrite:
  assumes "(method, level) \<in> set logger_methods" and "level_enabled env level"
    and "ref_denotes env m (lt_tag lg) tag" and "ref_denotes env m (format_pointer format) fmt"
    and "cxx_args_mean env m ts vs vals" and "length ts \<le> 32" and "codes ts = Some types"
  shows "\<exists>args. call_denotes env m (lt_tag lg) (format_pointer format) None types False args tag fmt vals \<and>
     method env m m lg format ts vs st =
       on9log_vwrite env m m level (lt_tag lg) (format_pointer format) None (Some (types @ [0]))
         (word_of_nat (length types)) False args st"
proof -
  obtain args where a: "0 \<notin> set types" "length types = length ts" "with_wire_args ts vs = Some args"
    "args_denote env m 0 0 None types args vals"
    using cxx_args_pack [OF assms(5), of 0 None] assms(7) by auto
  have "call_denotes env m (lt_tag lg) (format_pointer format) None types False args tag fmt vals"
    using a(2,4) assms(3,4,6) by (simp add: call_denotes_def precision_mask_def)
  moreover have "method env m m lg format ts vs st =
      on9log_vwrite env m m level (lt_tag lg) (format_pointer format) None (Some (types @ [0]))
        (word_of_nat (length types)) False args st"
    using on9log_arg_count_table [OF a(1)] a(2,3) assms(2,6,7) unfolding logger_method_level [OF assms(1)]
    by (simp add: Logger_log_def write_log_def arg_types_def on9log_write_def arg_table_def)
  ultimately show ?thesis by blast
qed

text \<open>C5: A call of a \<open>Logger\<close> method with arguments of any supported C++ types passes the C core a type
  table and variadic arguments that agree (no argument is ever fetched at a wrong type), and every
  sink receives one LOG packet at the method's level that decodes to the values: integers and
  enumerations of every width and sign, floating-point bits, pointers and text.\<close>

theorem cxx_log_call_roundtrip:
  assumes "config_ok env" and "sinks_ok st" and "sink_idle s (st_events st)" and "s \<in> set (registered st)"
    and "(method, level) \<in> set logger_methods" and "level_enabled env level"
    and "on9log_level_enabled env m st level (lt_tag lg) = Some True"
    and "ref_denotes env m (lt_tag lg) tag" and "ref_denotes env m (format_pointer format) fmt"
    and "cxx_args_mean env m ts vs vals" and "length ts \<le> 32" and "codes ts = Some types"
    and "length (log_payload_bytes tag fmt types vals) \<le> ON9LOG_PAYLOAD_LEN_MAX"
  shows "\<exists>st' hdr payload. method env m m lg format ts vs st = Some st' \<and>
     sink_packets s (st_events st') =
       sink_packets s (st_events st) @ dropped_packets env st @ [(Some hdr, payload)] \<and>
     parse_log_packet (hdr @ payload) =
       Some (log_packet_header env level tag fmt (length payload) st,
             \<lparr>lm_tag = tag, lm_fmt = fmt, lm_args = vals\<rparr>)"
proof -
  obtain args where den: "call_denotes env m (lt_tag lg) (format_pointer format) None types False args tag fmt vals"
    and "method env m m lg format ts vs st =
       on9log_vwrite env m m level (lt_tag lg) (format_pointer format) None (Some (types @ [0]))
         (word_of_nat (length types)) False args st"
    using cxx_call_is_vwrite [OF assms(5,6,8-12)] by blast
  then show ?thesis
    using vwrite_delivers [OF assms(1-4,7) den assms(13) call_sent_same [OF den assms(1)], of "[0]"] by simp
qed

text \<open>A signed char of -1, an unsigned 64-bit number, a string literal.\<close>

lemma cxx_demo_args:
  "cxx_args_mean on9log_default_env demo_mem [CxxInt 1 True, CxxInt 8 False, CxxCharArray]
     [CxxNumber (- 1), CxxNumber 4294967296, CxxAddr 256] [Arg32 0xffffffff, Arg64 4294967296, ArgStr (Some [104, 105])]"
  using demo_text by (auto intro!: cxx_means.int_small cxx_means.int_wide cxx_means.text_array simp: on9log_default_env_def)

theorem cxx_log_call_roundtrip_witness:
  "\<exists>st' hdr payload.
     Logger_i on9log_default_env demo_mem demo_mem (Logger_init 64 57) (PlainFormat 128)
       [CxxInt 1 True, CxxInt 8 False, CxxCharArray] [CxxNumber (- 1), CxxNumber 4294967296, CxxAddr 256] demo_state = Some st' \<and>
     sink_packets demo_sink (st_events st') =
       sink_packets demo_sink (st_events demo_state) @ dropped_packets on9log_default_env demo_state @ [(Some hdr, payload)] \<and>
     parse_log_packet (hdr @ payload) =
       Some (log_packet_header on9log_default_env 3 (ByAddress 64) (ByAddress 128) (length payload) demo_state,
             \<lparr>lm_tag = ByAddress 64, lm_fmt = ByAddress 128,
              lm_args = [Arg32 0xffffffff, Arg64 4294967296, ArgStr (Some [104, 105])]\<rparr>)"
  by (rule cxx_log_call_roundtrip [where types = "[1, 2, 4]",
        OF config_ok_default demo_state_ok _ _ _ _ _ cxx_demo_args])
    (use demo_enabled in \<open>simp_all add: logger_methods_def level_enabled_def Logger_init_def ref_denotes_def
       on9log_default_env_def length_log_payload ref_bytes_def\<close>)

text \<open>The message of a plain-text call.\<close>

definition cxx_text ::
    "printf_out \<Rightarrow> fmt_out \<Rightarrow> mem \<Rightarrow> addr \<Rightarrow> cxx_type list \<Rightarrow> cxx_value list \<Rightarrow> bytes option" where
  "cxx_text vfprintf fmt m format ts vs =
     (if \<not> plain_text_types_ok ts then None
      else do {
        printf \<leftarrow> chooses_printf m format ts;
        if printf
        then map_option (\<lambda>args. concat (vfprintf m (format_or_empty format) args)) (printf_args ts vs)
        else Some (concat (fmt m (format_or_empty format) (zip ts vs))) })"

text \<open>C37: In the plain-text build a C++ call prints one line on every output, whichever library formats
  the message: \<open>vfprintf\<close> when the arguments and the format allow it, fmt otherwise, in whatever
  pieces they write.\<close>

theorem cxx_text_call_prints_one_line:
  assumes "level_enabled env level" and "on9log_level_enabled env m st level tag = Some True"
    and "cstr m tag name" and "tag \<noteq> NULL" and "stream \<noteq> NULL"
    and "cxx_text vfprintf fmt m format ts vs = Some body"
    and "sinks_ok st" and "e \<in> set (registered st)"
    and "esp_ready_plain w self s" and "accepting w" and "unix_ready_plain u" and "puts_all putc_ok"
  shows "\<exists>st' evs s' u' text. write_log_text env vfprintf stream fmt m level tag flags format ts vs st = Some st' \<and>
     st_events st' = st_events st @ evs \<and>
     esp_text_sink.feed self w e evs s = Some s' \<and> unix_text_sink.feed putc_ok e evs u = Some u' \<and>
     list_all (\<lambda>fd. io_out (snd s') fd = io_out (snd s) fd @ text) (active_outputs (snd s)) \<and>
     stream_out u' = stream_out u @ text \<and>
     text = due_text env st @ text_line level (unat (port_timestamp_ms env (line_clock st))) name flags body"
proof -
  obtain printf where p: "chooses_printf m format ts = Some printf"
    using assms(6) by (auto simp: cxx_text_def split: Option.bind_splits if_splits)
  have ok: "plain_text_types_ok ts" using assms(6) by (simp add: cxx_text_def split: if_splits)
  obtain args where body: "printf \<Longrightarrow> printf_args ts vs = Some args \<and> body = concat (vfprintf m (format_or_empty format) args)"
    "\<not> printf \<Longrightarrow> body = concat (fmt m (format_or_empty format) (zip ts vs))"
    using assms(6) p ok by (cases printf) (auto simp: cxx_text_def)
  let ?f = "if printf then on9log_printf_formatter vfprintf stream m format args else format_text fmt m format (zip ts vs)"
  have "formatter_writes (format_text fmt m format (zip ts vs)) flags (concat (fmt m (format_or_empty format) (zip ts vs)))"
    unfolding formatter_writes_def
    by (simp add: stream_line.line.emits_def stream_line.line.fold_appends format_text_def)
  then have f: "formatter_writes ?f flags body" using core_formatters(3) [OF assms(5)] body by (cases printf) simp_all
  obtain ps where ps: "on9log_write_text_with_flags env m level tag flags (Some ?f) st =
      Some (text_sent (Suc (line_clock st)) ps st)"
    "carries_text st ps (due_text env st @ text_line level (unat (port_timestamp_ms env (line_clock st))) name flags body)"
    using write_text_sends [OF assms(2) rd_tag_cstr [OF assms(3,4)] f] by blast
  have w: "write_log_text env vfprintf stream fmt m level tag flags format ts vs st = Some (text_sent (Suc (line_clock st)) ps st)"
    using ps(1) assms(1,5) p body ok by (cases printf) (simp_all add: write_log_text_def on9log_vwrite_text_def)
  obtain s' u' where out: "esp_text_sink.feed self w e (events_of ps) s = Some s'"
    "unix_text_sink.feed putc_ok e (events_of ps) u = Some u'"
    "list_all (\<lambda>fd. io_out (snd s') fd = io_out (snd s) fd @ due_text env st @
      text_line level (unat (port_timestamp_ms env (line_clock st))) name flags body) (active_outputs (snd s))"
    "stream_out u' = stream_out u @ due_text env st @
      text_line level (unat (port_timestamp_ms env (line_clock st))) name flags body"
    using carries_text_outputs [OF ps(2) assms(7-12)] by blast
  show ?thesis
    by (intro exI conjI, rule w, rule text_sent_facts, rule out(1), rule out(2), rule out(3), rule out(4), rule refl)
qed

text \<open>The format \<open>{}\<close> with an integer, which the fmt library writes character by character.\<close>

definition cxx_demo_mem :: mem where
  "cxx_demo_mem = mem_object 80 [123, 125, 0] text_mem"

definition demo_fmt :: fmt_out where
  "demo_fmt m f args = [[52], [50]]"

theorem cxx_text_call_prints_one_line_witness:
  "\<exists>st' evs s' u' text.
     write_log_text on9log_default_env demo_printf 32 demo_fmt cxx_demo_mem 3 64 57 80 [CxxInt 4 True] [CxxNumber 42]
       demo_state = Some st' \<and>
     st_events st' = st_events demo_state @ evs \<and>
     esp_text_sink.feed 7 takes_some demo_sink evs demo_esp_sink = Some s' \<and>
     unix_text_sink.feed (\<lambda>_. True) demo_sink evs demo_unix_sink = Some u' \<and>
     list_all (\<lambda>fd. io_out (snd s') fd = io_out (snd demo_esp_sink) fd @ text) (active_outputs (snd demo_esp_sink)) \<and>
     stream_out u' = stream_out demo_unix_sink @ text \<and>
     text = due_text on9log_default_env demo_state @
       text_line 3 (unat (port_timestamp_ms on9log_default_env (line_clock demo_state))) [116] 57 [52, 50]"
proof -
  have on: "on9log_level_enabled on9log_default_env cxx_demo_mem demo_state 3 64 = Some True"
    by (simp add: on9log_level_enabled_def on9log_filter_level_for_tag_def demo_state_def
        on9log_initial_state_def on9log_default_env_def on9log_valid_level_def)
  have tag: "cstr cxx_demo_mem 64 [116]" by (simp add: cxx_demo_mem_def text_mem_def mem_object_def)
  have f: "cstr cxx_demo_mem 80 [123, 125]" by (simp add: cxx_demo_mem_def mem_object_def)
  have "cxx_demo_mem 80 = Some 123" "cxx_demo_mem 81 = Some 125" "cxx_demo_mem 82 = Some 0"
    by (simp_all add: cxx_demo_mem_def mem_object_def)
  then have fb: "format_bytes cxx_demo_mem 80 = Some (Some [123, 125, 0])"
    using c_strlen_cstr [OF f] by (simp add: format_bytes_def)
  have body: "cxx_text demo_printf demo_fmt cxx_demo_mem 80 [CxxInt 4 True] [CxxNumber 42] = Some [52, 50]"
    by (simp add: cxx_text_def plain_text_types_ok_def chooses_printf_def fb uses_printf_format_def has_fmt_replacement_def
        fmt_field_start_def demo_fmt_def)
  have "level_enabled on9log_default_env 3" by (simp add: level_enabled_def on9log_default_env_def)
  then show ?thesis
    by (rule cxx_text_call_prints_one_line [OF _ on tag _ _ body demo_state_ok(1,3) demo_sinks_ready(3) takes_some_ok(2)
          demo_sinks_ready(4) puts_all_True]) simp_all
qed

text \<open>
  An ISR message formatted by fmt that is longer than the packet buffer is refused without being
  counted, even when the tag's level or a missing ISR backend would have suppressed it; the same
  message formatted by printf is counted (\<open>on9log_vwrite_isr_text\<close>).
\<close>

lemma cxx_isr_long_text_is_not_counted:
  assumes "level_enabled env level" and "isr_types_ok ts" and "chooses_printf m format ts = Some False"
    and "fst (fmt_n (cfg_isr_packet_max env) m (format_or_empty format) (zip ts vs)) > cfg_isr_packet_max env"
  shows "write_log_isr_text env vsnprintf fmt_n m level tag flags format ts vs st = Some (False, st)"
  using assms by (cases "fmt_n (cfg_isr_packet_max env) m (format_or_empty format) (zip ts vs)")
    (simp add: write_log_isr_text_def)

end
