(* ===== verification/LogMacros.thy ===== *)
theory LogMacros
  imports CxxCorrect
begin

text \<open>
  The logging macros of \<^verbatim>\<open>on9log.h\<close>: how a macro finds the type of an argument (\<open>_Generic\<close> in C,
  template specialisations in C++), builds the type table and counts the arguments at compile
  time, and which function it calls; and that the macros and the C++ wrapper make the same call
  wherever they classify the arguments alike, the ABI defines the variadic arguments of the macro, and
  the format scanner of the macro is off or has no string to cut.

  A call the compiler rejects is \<open>None\<close>, as is one that reads an argument at a type it was not
  passed with.
\<close>

section \<open>Types\<close>

text \<open>
  What the two ABIs differ in: the size of \<open>long\<close>, and whether a variadic \<open>double\<close> is passed where
  a 64-bit integer would be (on x86-64 and AArch64 it is not).
\<close>

record c_abi =
  abi_long :: nat
  abi_fp_slots :: bool

definition ilp32 :: c_abi where
  "ilp32 = \<lparr>abi_long = 4, abi_fp_slots = True\<rparr>"

definition lp64 :: c_abi where
  "lp64 = \<lparr>abi_long = 8, abi_fp_slots = False\<rparr>"

text \<open>
  The types the selections tell apart. \<open>C_Int n signed\<close> is any other integer or enumeration of \<open>n\<close>
  bytes, \<open>C_OtherPtr\<close> and \<open>C_OtherArray\<close> point to or hold anything but \<open>char\<close>, \<open>uint8_t\<close> and \<open>void\<close>.
\<close>

datatype c_type =
    C_ArgsEnd
  | C_CharPtr
  | C_ConstCharPtr
  | C_VoidPtr
  | C_ConstVoidPtr
  | C_U8Ptr
  | C_ConstU8Ptr
  | C_OtherPtr
  | C_CharArray
  | C_ConstCharArray
  | C_U8Array
  | C_ConstU8Array
  | C_OtherArray
  | C_NullPtr
  | C_Int nat bool
  | C_Long bool
  | C_LongLong bool
  | C_Float
  | C_Double
  | C_LongDouble
  | C_Other

text \<open>\<open>_Generic\<close> converts its operand first: an array is a pointer to its first element.\<close>

fun lvalue_conversion :: "c_type \<Rightarrow> c_type" where
  "lvalue_conversion C_CharArray = C_CharPtr"
| "lvalue_conversion C_ConstCharArray = C_ConstCharPtr"
| "lvalue_conversion C_U8Array = C_U8Ptr"
| "lvalue_conversion C_ConstU8Array = C_ConstU8Ptr"
| "lvalue_conversion C_OtherArray = C_OtherPtr"
| "lvalue_conversion t = t"

definition ON9_LOG_DETECT_TYPE :: "c_type \<Rightarrow> u8" where
  "ON9_LOG_DETECT_TYPE arg =
     (case lvalue_conversion arg of
        C_ArgsEnd \<Rightarrow> ON9_LOG_ARGS_TYPE_NONE
      | C_CharPtr \<Rightarrow> ON9_LOG_ARGS_TYPE_DYNAMIC_STRING
      | C_ConstCharPtr \<Rightarrow> ON9_LOG_ARGS_TYPE_DYNAMIC_STRING
      | C_VoidPtr \<Rightarrow> ON9_LOG_ARGS_TYPE_POINTER
      | C_ConstVoidPtr \<Rightarrow> ON9_LOG_ARGS_TYPE_POINTER
      | C_U8Ptr \<Rightarrow> ON9_LOG_ARGS_TYPE_POINTER
      | C_ConstU8Ptr \<Rightarrow> ON9_LOG_ARGS_TYPE_POINTER
      | C_LongLong _ \<Rightarrow> ON9_LOG_ARGS_TYPE_64BITS
      | C_Double \<Rightarrow> ON9_LOG_ARGS_TYPE_64BITS
      | C_Float \<Rightarrow> ON9_LOG_ARGS_TYPE_64BITS
      | _ \<Rightarrow> ON9_LOG_ARGS_TYPE_32BITS)"

text \<open>In C++ the operand keeps its array type, which has specialisations of its own.\<close>

fun On9LogArgType :: "c_type \<Rightarrow> u8" where
  "On9LogArgType C_ArgsEnd = ON9_LOG_ARGS_TYPE_NONE"
| "On9LogArgType C_CharPtr = ON9_LOG_ARGS_TYPE_DYNAMIC_STRING"
| "On9LogArgType C_ConstCharPtr = ON9_LOG_ARGS_TYPE_DYNAMIC_STRING"
| "On9LogArgType C_VoidPtr = ON9_LOG_ARGS_TYPE_POINTER"
| "On9LogArgType C_ConstVoidPtr = ON9_LOG_ARGS_TYPE_POINTER"
| "On9LogArgType C_U8Ptr = ON9_LOG_ARGS_TYPE_POINTER"
| "On9LogArgType C_ConstU8Ptr = ON9_LOG_ARGS_TYPE_POINTER"
| "On9LogArgType C_CharArray = ON9_LOG_ARGS_TYPE_DYNAMIC_STRING"
| "On9LogArgType C_ConstCharArray = ON9_LOG_ARGS_TYPE_DYNAMIC_STRING"
| "On9LogArgType C_U8Array = ON9_LOG_ARGS_TYPE_POINTER"
| "On9LogArgType C_ConstU8Array = ON9_LOG_ARGS_TYPE_POINTER"
| "On9LogArgType (C_LongLong _) = ON9_LOG_ARGS_TYPE_64BITS"
| "On9LogArgType C_Double = ON9_LOG_ARGS_TYPE_64BITS"
| "On9LogArgType C_Float = ON9_LOG_ARGS_TYPE_64BITS"
| "On9LogArgType _ = ON9_LOG_ARGS_TYPE_32BITS"

definition ON9_LOG_DETECT_TYPE_IMPL :: "bool \<Rightarrow> c_type \<Rightarrow> u8" where
  "ON9_LOG_DETECT_TYPE_IMPL is_constant t = (if is_constant then On9LogArgType t else On9LogArgType t)"

text \<open>The macro expands the same in C and in C++.\<close>

lemma detect_type_cxx: "ON9_LOG_DETECT_TYPE_IMPL is_constant t = ON9_LOG_DETECT_TYPE t"
  by (cases t) (simp_all add: ON9_LOG_DETECT_TYPE_IMPL_def ON9_LOG_DETECT_TYPE_def)

section \<open>Arguments\<close>

text \<open>\<open>ON9_LOG_VA_NARG\<close> counts to 16; with more arguments the expansion is not valid C.\<close>

definition ON9_LOG_VA_NARG :: "nat \<Rightarrow> nat option" where
  "ON9_LOG_VA_NARG n = (if n \<le> 16 then Some n else None)"

definition ON9_LOG_INIT_ARG_TYPE :: "c_type list \<Rightarrow> bytes" where
  "ON9_LOG_INIT_ARG_TYPE ts = map ON9_LOG_DETECT_TYPE ts"

definition ON9_LOG_ARGS_TYPE :: "c_type list \<Rightarrow> bytes option" where
  "ON9_LOG_ARGS_TYPE ts =
     do { n \<leftarrow> ON9_LOG_VA_NARG (length ts); Some (ON9_LOG_INIT_ARG_TYPE ts @ [0]) }"

primrec macro_string_loop :: "nat \<Rightarrow> bytes \<Rightarrow> bool option" where
  "macro_string_loop 0 p = Some False"
| "macro_string_loop (Suc n) p =
     (case p of
        [] \<Rightarrow> None
      | ty # p \<Rightarrow>
          if ty = ON9_LOG_ARGS_TYPE_NONE then Some False
          else if ty = ON9_LOG_ARGS_TYPE_DYNAMIC_STRING \<or> ty = ON9_LOG_ARGS_TYPE_DYNAMIC_STRING_VIEW
          then Some True
          else macro_string_loop n p)"

definition ON9_LOG_ARGS_HAVE_STRING :: "bytes option \<Rightarrow> bool option" where
  "ON9_LOG_ARGS_HAVE_STRING types =
     (case types of None \<Rightarrow> Some False | Some p \<Rightarrow> macro_string_loop 255 p)"

definition ON9_LOG_FORMAT_SCAN_HINT :: "bool \<Rightarrow> bytes option \<Rightarrow> bool \<Rightarrow> bytes option" where
  "ON9_LOG_FORMAT_SCAN_HINT enable_hint format has_string =
     (if enable_hint then (if has_string then format else None) else None)"

definition ON9_PTR :: "c_type \<times> cxx_value \<Rightarrow> c_type \<times> cxx_value" where
  "ON9_PTR x = (C_ConstVoidPtr, snd x)"

definition ON9_LOG_ENABLED :: "on9log_env \<Rightarrow> on9log_level_t \<Rightarrow> bool" where
  "ON9_LOG_ENABLED env level \<longleftrightarrow> level \<noteq> ON9_LOG_LEVEL_NONE \<and> level \<le> cfg_unit_level env"

text \<open>
  A variadic call promotes its arguments: small integers to \<open>int\<close>, \<open>float\<close> to \<open>double\<close> (given by its
  bits), arrays to pointers.
\<close>

fun c_promote :: "c_abi \<Rightarrow> c_type \<Rightarrow> cxx_value \<Rightarrow> va_value option" where
  "c_promote abi (C_Int n sgnd) (CxxNumber i) =
     (if n > 8 then None else Some (if n > 4 then VA_u64 (word_of_int i) else VA_u32 (word_of_int i)))"
| "c_promote abi (C_Long sgnd) (CxxNumber i) =
     Some (if abi_long abi > 4 then VA_u64 (word_of_int i) else VA_u32 (word_of_int i))"
| "c_promote abi (C_LongLong sgnd) (CxxNumber i) = Some (VA_u64 (word_of_int i))"
| "c_promote abi C_Float (CxxReal bits) = Some (VA_u64 bits)"
| "c_promote abi C_Double (CxxReal bits) = Some (VA_u64 bits)"
| "c_promote abi C_NullPtr (CxxAddr p) = Some (VA_ptr NULL)"
| "c_promote abi C_CharPtr (CxxAddr p) = Some (VA_ptr p)"
| "c_promote abi C_ConstCharPtr (CxxAddr p) = Some (VA_ptr p)"
| "c_promote abi C_VoidPtr (CxxAddr p) = Some (VA_ptr p)"
| "c_promote abi C_ConstVoidPtr (CxxAddr p) = Some (VA_ptr p)"
| "c_promote abi C_U8Ptr (CxxAddr p) = Some (VA_ptr p)"
| "c_promote abi C_ConstU8Ptr (CxxAddr p) = Some (VA_ptr p)"
| "c_promote abi C_OtherPtr (CxxAddr p) = Some (VA_ptr p)"
| "c_promote abi C_CharArray (CxxAddr p) = Some (VA_ptr p)"
| "c_promote abi C_ConstCharArray (CxxAddr p) = Some (VA_ptr p)"
| "c_promote abi C_U8Array (CxxAddr p) = Some (VA_ptr p)"
| "c_promote abi C_ConstU8Array (CxxAddr p) = Some (VA_ptr p)"
| "c_promote abi C_OtherArray (CxxAddr p) = Some (VA_ptr p)"
| "c_promote abi _ _ = None"

fun c_promote_all :: "c_abi \<Rightarrow> c_type list \<Rightarrow> cxx_value list \<Rightarrow> va_list option" where
  "c_promote_all abi [] [] = Some []"
| "c_promote_all abi (t # ts) (v # vs) =
     do { a \<leftarrow> c_promote abi t v; args \<leftarrow> c_promote_all abi ts vs; Some (a # args) }"
| "c_promote_all abi _ _ = None"

text \<open>The binary encoder fetches a \<open>double\<close> as a 64-bit integer, which needs the ABI to allow it.\<close>

definition c_va_args :: "c_abi \<Rightarrow> c_type list \<Rightarrow> cxx_value list \<Rightarrow> va_list option" where
  "c_va_args abi ts vs =
     (if abi_fp_slots abi \<or> list_all (\<lambda>t. t \<noteq> C_Float \<and> t \<noteq> C_Double) ts then c_promote_all abi ts vs else None)"

section \<open>The macros\<close>

text \<open>
  \<open>format\<close> is the address the packet names; \<open>literal\<close> the format itself, NUL included, which a build
  with the scan hint keeps as well.
\<close>

type_synonym log_macro =
  "c_abi \<Rightarrow> bool \<Rightarrow> on9log_env \<Rightarrow> mem \<Rightarrow> mem \<Rightarrow> addr \<Rightarrow> addr \<Rightarrow> bytes \<Rightarrow> c_type list \<Rightarrow> cxx_value list \<Rightarrow>
     on9log_state \<Rightarrow> on9log_state option"

definition ON9_LOG_LEVEL :: "on9log_level_t \<Rightarrow> log_macro" where
  "ON9_LOG_LEVEL level abi enable_hint env m m' tag format literal ts vs st =
     do { types \<leftarrow> ON9_LOG_ARGS_TYPE ts;
          n \<leftarrow> ON9_LOG_VA_NARG (length ts);
          if ON9_LOG_ENABLED env level
          then do {
            has_string \<leftarrow> ON9_LOG_ARGS_HAVE_STRING (Some types);
            args \<leftarrow> c_va_args abi ts vs;
            on9log_write_with_format_scan_metadata env m m' level tag format
              (ON9_LOG_FORMAT_SCAN_HINT enable_hint (Some literal) has_string)
              (Some types) (word_of_nat n) (if has_string then 1 else 0) args st }
          else Some st }"

text \<open>A format known only at run time is scanned where it is (\<open>None\<close> if it has no end).\<close>

type_synonym runtime_macro =
  "c_abi \<Rightarrow> bool \<Rightarrow> on9log_env \<Rightarrow> mem \<Rightarrow> mem \<Rightarrow> addr \<Rightarrow> addr \<Rightarrow> c_type list \<Rightarrow> cxx_value list \<Rightarrow>
     on9log_state \<Rightarrow> on9log_state option"

definition ON9_LOG_RUNTIME_LEVEL :: "on9log_level_t \<Rightarrow> runtime_macro" where
  "ON9_LOG_RUNTIME_LEVEL level abi enable_hint env m m' tag format ts vs st =
     do { types \<leftarrow> ON9_LOG_ARGS_TYPE ts;
          n \<leftarrow> ON9_LOG_VA_NARG (length ts);
          if ON9_LOG_ENABLED env level
          then do {
            has_string \<leftarrow> ON9_LOG_ARGS_HAVE_STRING (Some types);
            args \<leftarrow> c_va_args abi ts vs;
            scan \<leftarrow> (if enable_hint \<and> has_string then format_bytes m format else Some None);
            on9log_write_with_format_scan_metadata env m m' level tag format
              (ON9_LOG_FORMAT_SCAN_HINT enable_hint scan has_string)
              (Some types) (word_of_nat n) (if has_string then 1 else 0) args st }
          else Some st }"

definition ON9_LOG_RUNTIMEE :: runtime_macro where "ON9_LOG_RUNTIMEE = ON9_LOG_RUNTIME_LEVEL ON9_LOG_LEVEL_ERROR"
definition ON9_LOG_RUNTIMEW :: runtime_macro where "ON9_LOG_RUNTIMEW = ON9_LOG_RUNTIME_LEVEL ON9_LOG_LEVEL_WARN"
definition ON9_LOG_RUNTIMEI :: runtime_macro where "ON9_LOG_RUNTIMEI = ON9_LOG_RUNTIME_LEVEL ON9_LOG_LEVEL_INFO"
definition ON9_LOG_RUNTIMED :: runtime_macro where "ON9_LOG_RUNTIMED = ON9_LOG_RUNTIME_LEVEL ON9_LOG_LEVEL_DEBUG"
definition ON9_LOG_RUNTIMEV :: runtime_macro where "ON9_LOG_RUNTIMEV = ON9_LOG_RUNTIME_LEVEL ON9_LOG_LEVEL_VERBOSE"

definition ON9_LOGE :: log_macro where "ON9_LOGE = ON9_LOG_LEVEL ON9_LOG_LEVEL_ERROR"
definition ON9_LOGW :: log_macro where "ON9_LOGW = ON9_LOG_LEVEL ON9_LOG_LEVEL_WARN"
definition ON9_LOGI :: log_macro where "ON9_LOGI = ON9_LOG_LEVEL ON9_LOG_LEVEL_INFO"
definition ON9_LOGD :: log_macro where "ON9_LOGD = ON9_LOG_LEVEL ON9_LOG_LEVEL_DEBUG"
definition ON9_LOGV :: log_macro where "ON9_LOGV = ON9_LOG_LEVEL ON9_LOG_LEVEL_VERBOSE"

text \<open>The plain-text build passes no type table.\<close>

definition ON9_LOG_LEVEL_text ::
    "on9log_level_t \<Rightarrow> c_abi \<Rightarrow> on9log_env \<Rightarrow> printf_out \<Rightarrow> addr \<Rightarrow> mem \<Rightarrow> addr \<Rightarrow> addr \<Rightarrow> c_type list \<Rightarrow>
       cxx_value list \<Rightarrow> on9log_state \<Rightarrow> on9log_state option" where
  "ON9_LOG_LEVEL_text level abi env vfprintf stream m tag format ts vs st =
     (if ON9_LOG_ENABLED env level
      then do { args \<leftarrow> c_promote_all abi ts vs;
                on9log_vwrite_text env vfprintf stream m level tag Logger_DefaultFlags format args st }
      else Some st)"

definition ON9_LOG_RUNTIME_LEVEL_text ::
    "on9log_level_t \<Rightarrow> c_abi \<Rightarrow> on9log_env \<Rightarrow> printf_out \<Rightarrow> addr \<Rightarrow> mem \<Rightarrow> addr \<Rightarrow> addr \<Rightarrow> c_type list \<Rightarrow>
       cxx_value list \<Rightarrow> on9log_state \<Rightarrow> on9log_state option" where
  "ON9_LOG_RUNTIME_LEVEL_text level abi env vfprintf stream m tag format ts vs st =
     (if ON9_LOG_ENABLED env level
      then do { args \<leftarrow> c_promote_all abi ts vs;
                on9log_vwrite_text env vfprintf stream m level tag Logger_DefaultFlags format args st }
      else Some st)"

text \<open>The ISR macro throws the result away; string arguments are refused at run time.\<close>

type_synonym isr_macro =
  "c_abi \<Rightarrow> on9log_env \<Rightarrow> mem \<Rightarrow> addr \<Rightarrow> addr \<Rightarrow> c_type list \<Rightarrow> cxx_value list \<Rightarrow> on9log_state \<Rightarrow>
     on9log_state option"

definition ON9_ISR_LOG_LEVEL :: "on9log_level_t \<Rightarrow> isr_macro" where
  "ON9_ISR_LOG_LEVEL level abi env m tag format ts vs st =
     do { types \<leftarrow> ON9_LOG_ARGS_TYPE ts;
          if ON9_LOG_ENABLED env level
          then do { args \<leftarrow> c_va_args abi ts vs;
                    (_, st) \<leftarrow> on9log_write_isr env m level tag format (Some types) args st;
                    Some st }
          else Some st }"

definition ON9_ISR_LOGE :: isr_macro where "ON9_ISR_LOGE = ON9_ISR_LOG_LEVEL ON9_LOG_LEVEL_ERROR"
definition ON9_ISR_LOGW :: isr_macro where "ON9_ISR_LOGW = ON9_ISR_LOG_LEVEL ON9_LOG_LEVEL_WARN"
definition ON9_ISR_LOGI :: isr_macro where "ON9_ISR_LOGI = ON9_ISR_LOG_LEVEL ON9_LOG_LEVEL_INFO"
definition ON9_ISR_LOGD :: isr_macro where "ON9_ISR_LOGD = ON9_ISR_LOG_LEVEL ON9_LOG_LEVEL_DEBUG"
definition ON9_ISR_LOGV :: isr_macro where "ON9_ISR_LOGV = ON9_ISR_LOG_LEVEL ON9_LOG_LEVEL_VERBOSE"

type_synonym buffer_macro = "on9log_env \<Rightarrow> mem \<Rightarrow> addr \<Rightarrow> addr \<Rightarrow> nat \<Rightarrow> on9log_state \<Rightarrow> on9log_state option"

definition ON9_LOG_BUF_LEVEL :: "on9log_level_t \<Rightarrow> buffer_macro" where
  "ON9_LOG_BUF_LEVEL level env m tag buffer buffer_len st =
     (if ON9_LOG_ENABLED env level then on9log_write_buffer env m level tag buffer buffer_len st else Some st)"

definition ON9_LOG_BUFE :: buffer_macro where "ON9_LOG_BUFE = ON9_LOG_BUF_LEVEL ON9_LOG_LEVEL_ERROR"
definition ON9_LOG_BUFW :: buffer_macro where "ON9_LOG_BUFW = ON9_LOG_BUF_LEVEL ON9_LOG_LEVEL_WARN"
definition ON9_LOG_BUFI :: buffer_macro where "ON9_LOG_BUFI = ON9_LOG_BUF_LEVEL ON9_LOG_LEVEL_INFO"
definition ON9_LOG_BUFD :: buffer_macro where "ON9_LOG_BUFD = ON9_LOG_BUF_LEVEL ON9_LOG_LEVEL_DEBUG"
definition ON9_LOG_BUFV :: buffer_macro where "ON9_LOG_BUFV = ON9_LOG_BUF_LEVEL ON9_LOG_LEVEL_VERBOSE"

section \<open>Macros and wrapper\<close>

text \<open>The type an argument of the macros has for the wrapper.\<close>

primrec cxx_type_of :: "c_abi \<Rightarrow> c_type \<Rightarrow> cxx_type" where
  "cxx_type_of abi C_ArgsEnd = CxxOther"
| "cxx_type_of abi C_CharPtr = CxxCharPtr"
| "cxx_type_of abi C_ConstCharPtr = CxxCharPtr"
| "cxx_type_of abi C_VoidPtr = CxxObjPtr"
| "cxx_type_of abi C_ConstVoidPtr = CxxObjPtr"
| "cxx_type_of abi C_U8Ptr = CxxObjPtr"
| "cxx_type_of abi C_ConstU8Ptr = CxxObjPtr"
| "cxx_type_of abi C_OtherPtr = CxxObjPtr"
| "cxx_type_of abi C_CharArray = CxxCharArray"
| "cxx_type_of abi C_ConstCharArray = CxxCharArray"
| "cxx_type_of abi C_U8Array = CxxArray"
| "cxx_type_of abi C_ConstU8Array = CxxArray"
| "cxx_type_of abi C_OtherArray = CxxArray"
| "cxx_type_of abi C_NullPtr = CxxNullPtr"
| "cxx_type_of abi (C_Int n sgnd) = CxxInt n sgnd"
| "cxx_type_of abi (C_Long sgnd) = CxxInt (abi_long abi) sgnd"
| "cxx_type_of abi (C_LongLong sgnd) = CxxInt 8 sgnd"
| "cxx_type_of abi C_Float = CxxFloat 4"
| "cxx_type_of abi C_Double = CxxFloat 8"
| "cxx_type_of abi C_LongDouble = CxxFloat 16"
| "cxx_type_of abi C_Other = CxxOther"

definition classified_alike :: "c_abi \<Rightarrow> c_type \<Rightarrow> bool" where
  "classified_alike abi t \<longleftrightarrow> arg_type_code (cxx_type_of abi t) = Some (ON9_LOG_DETECT_TYPE t)"

text \<open>Which types those are: not \<open>long\<close> where it has 64 bits, nor pointers the selection does not list.\<close>

lemma classified_alike_iff:
  "classified_alike abi t \<longleftrightarrow>
     (case t of
        C_ArgsEnd \<Rightarrow> False | C_OtherPtr \<Rightarrow> False | C_OtherArray \<Rightarrow> False | C_NullPtr \<Rightarrow> False | C_LongDouble \<Rightarrow> False
      | C_Other \<Rightarrow> False | C_Int n _ \<Rightarrow> n \<le> 4 | C_Long _ \<Rightarrow> abi_long abi \<le> 4 | _ \<Rightarrow> True)"
  by (cases t) (auto simp: classified_alike_def ON9_LOG_DETECT_TYPE_def split: if_splits)

lemma classified_alike_lists:
  "classified_alike ilp32 (C_Long s)" "\<not> classified_alike lp64 (C_Long s)"
  by (simp_all add: classified_alike_iff ilp32_def lp64_def)

text \<open>On such a host the macros announce a \<open>long\<close> as 32 bits, and fetching it so is undefined.\<close>

lemma lp64_long_is_misread:
  "ON9_LOG_DETECT_TYPE (C_Long s) = ON9_LOG_ARGS_TYPE_32BITS"
  "c_promote lp64 (C_Long s) (CxxNumber i) = Some (VA_u64 (word_of_int i))"
  "va_arg_u32 (VA_u64 (word_of_int i) # ap) = None"
  by (simp_all add: ON9_LOG_DETECT_TYPE_def lp64_def)

lemma alike_codes:
  "list_all (classified_alike abi) ts \<Longrightarrow> codes (map (cxx_type_of abi) ts) = Some (ON9_LOG_INIT_ARG_TYPE ts)"
  by (induction ts) (simp_all add: classified_alike_def ON9_LOG_INIT_ARG_TYPE_def)

lemma alike_wire_arg:
  "classified_alike abi t \<Longrightarrow> c_promote abi t v = Some va \<Longrightarrow>
     \<exists>w. wire_arg (cxx_type_of abi t) v = Some w \<and> vararg_value w = va"
  by (cases t; cases v) (auto simp: classified_alike_iff integer_bits_def float_bits_def split: if_splits)

lemma alike_args:
  "list_all (classified_alike abi) ts \<Longrightarrow> c_promote_all abi ts vs = Some args \<Longrightarrow>
     with_wire_args (map (cxx_type_of abi) ts) vs = Some args"
proof (induction abi ts vs arbitrary: args rule: c_promote_all.induct)
  case (2 abi t ts v vs)
  then obtain a rest where a: "c_promote abi t v = Some a" "c_promote_all abi ts vs = Some rest" "args = a # rest"
    by (auto split: Option.bind_splits)
  then show ?case using "2.IH" [of a rest] "2.prems"(1) alike_wire_arg [of abi t v a] by auto
qed simp_all

lemma alike_no_end: "classified_alike abi t \<Longrightarrow> ON9_LOG_DETECT_TYPE t \<noteq> 0"
  by (cases t) (simp_all add: classified_alike_iff ON9_LOG_DETECT_TYPE_def)

lemma alike_table: "list_all (classified_alike abi) ts \<Longrightarrow> 0 \<notin> set (ON9_LOG_INIT_ARG_TYPE ts)"
  using alike_no_end by (fastforce simp: ON9_LOG_INIT_ARG_TYPE_def list_all_iff)

lemma length_init_arg_type [simp]: "length (ON9_LOG_INIT_ARG_TYPE ts) = length ts"
  by (simp add: ON9_LOG_INIT_ARG_TYPE_def)

lemma macro_string_loop_table:
  "0 \<notin> set types \<Longrightarrow> length types \<le> n \<Longrightarrow>
     macro_string_loop n (types @ [0]) = Some (\<exists>ty \<in> set types. ty = 4 \<or> ty = 5)"
proof (induction n arbitrary: types)
  case (Suc n)
  then show ?case by (cases types) auto
qed simp

lemma have_string_table:
  "list_all (classified_alike abi) ts \<Longrightarrow> length ts \<le> 16 \<Longrightarrow>
     ON9_LOG_ARGS_HAVE_STRING (Some (ON9_LOG_INIT_ARG_TYPE ts @ [0])) =
       Some (\<exists>t \<in> set ts. ON9_LOG_DETECT_TYPE t = 4 \<or> ON9_LOG_DETECT_TYPE t = 5)"
  using macro_string_loop_table [OF alike_table, of abi ts 255]
  by (simp add: ON9_LOG_ARGS_HAVE_STRING_def) (auto simp: ON9_LOG_INIT_ARG_TYPE_def)

lemma vwrite_without_scan:
  "on9log_vwrite env m m' level tag format None types n dyn args st =
     on9log_vwrite env m m' level tag format None types n False args st"
proof -
  have pm: "precision_mask None n dyn = Some 0" for dyn by (simp add: precision_mask_def)
  show ?thesis unfolding on9log_vwrite_def pm by (rule refl)
qed

lemma macro_is_wrapper:
  assumes "list_all (classified_alike abi) ts" and "c_va_args abi ts vs = Some args" and "length ts \<le> 16"
    and "\<not> enable_hint \<or> list_all (\<lambda>t. ON9_LOG_DETECT_TYPE t \<noteq> ON9_LOG_ARGS_TYPE_DYNAMIC_STRING) ts"
  shows "ON9_LOG_LEVEL level abi enable_hint env m m' tag format literal ts vs st =
     write_log env m m' level tag flags format (map (cxx_type_of abi) ts) vs st"
proof -
  let ?types = "ON9_LOG_INIT_ARG_TYPE ts"
  have args: "with_wire_args (map (cxx_type_of abi) ts) vs = Some args"
    using alike_args [OF assms(1)] assms(2) by (simp add: c_va_args_def split: if_splits)
  have not5: "ON9_LOG_DETECT_TYPE t \<noteq> 5" for t
    by (cases t) (simp_all add: ON9_LOG_DETECT_TYPE_def)
  obtain has where has: "ON9_LOG_ARGS_HAVE_STRING (Some (?types @ [0])) = Some has"
      "has = (\<exists>t \<in> set ts. ON9_LOG_DETECT_TYPE t = 4 \<or> ON9_LOG_DETECT_TYPE t = 5)"
    using have_string_table [OF assms(1,3)] by blast
  have hint: "ON9_LOG_FORMAT_SCAN_HINT enable_hint (Some literal) has = None"
    using assms(4) not5 has(2) by (auto simp: ON9_LOG_FORMAT_SCAN_HINT_def list_all_iff)
  show ?thesis
    using assms(3) on9log_arg_count_table [OF alike_table [OF assms(1)]] alike_codes [OF assms(1)]
    by (simp add: ON9_LOG_LEVEL_def ON9_LOG_ARGS_TYPE_def ON9_LOG_VA_NARG_def has(1) hint assms(2) args
        write_log_def arg_types_def on9log_write_def on9log_write_with_format_scan_metadata_def arg_table_def
        ON9_LOG_ENABLED_def level_enabled_def vwrite_without_scan [of env m m' level tag format _ _ "_ \<noteq> 0"])
qed

text \<open>C17: A C macro and the C++ wrapper make the same log call (packet, drops, undefined reads) of up to
  16 arguments under three conditions. Both classify every argument alike, as they do on an ILP32
  target all types but \<open>nullptr\<close> and pointers to other types than \<open>char\<close>, \<open>uint8_t\<close> and \<open>void\<close>. The
  values reach the logger's \<open>va_arg\<close> at the type it asks for (\<open>c_va_args\<close>), which a \<open>double\<close> does not on
  x86-64 or AArch64. And the macro was compiled without the format scan hint or has no string argument:
  with the hint a \<open>%.*s\<close> cuts a string that the wrapper, which has no hint, sends whole. Then the types
  \<open>_Generic\<close> finds, the count and the "has a string" flag the macro computes at compile time lead to the
  packet the wrapper's templates lead to.\<close>

theorem macro_and_wrapper_agree:
  assumes "list_all (classified_alike abi) ts" and "c_va_args abi ts vs = Some args" and "length ts \<le> 16"
    and "\<not> enable_hint \<or> list_all (\<lambda>t. ON9_LOG_DETECT_TYPE t \<noteq> ON9_LOG_ARGS_TYPE_DYNAMIC_STRING) ts"
  shows "ON9_LOG_LEVEL level abi enable_hint env m m' tag format literal ts vs st =
     write_log env m m' level tag flags format (map (cxx_type_of abi) ts) vs st"
  by (rule macro_is_wrapper [OF assms])

text \<open>A number, a string, a \<open>long\<close> and a \<open>float\<close> on an ILP32 target.\<close>

theorem macro_and_wrapper_agree_witness:
  "ON9_LOG_LEVEL 3 ilp32 False on9log_default_env demo_mem demo_mem 64 128 []
      [C_Int 2 True, C_ConstCharArray, C_Long False, C_Float]
      [CxxNumber (- 1), CxxAddr 256, CxxNumber 7, CxxReal 0x3ff0000000000000] demo_state =
   write_log on9log_default_env demo_mem demo_mem 3 64 57 128
      (map (cxx_type_of ilp32) [C_Int 2 True, C_ConstCharArray, C_Long False, C_Float])
      [CxxNumber (- 1), CxxAddr 256, CxxNumber 7, CxxReal 0x3ff0000000000000] demo_state"
  by (rule macro_and_wrapper_agree [where args = "[VA_u32 0xffffffff, VA_ptr 256, VA_u32 7, VA_u64 0x3ff0000000000000]"])
    (simp_all add: classified_alike_iff c_va_args_def ilp32_def)

text \<open>The same of the ISR calls, whose string arguments only the wrapper rejects at compile time.\<close>

theorem isr_macro_and_wrapper_agree:
  assumes "list_all (classified_alike abi) ts" and "c_va_args abi ts vs = Some args" and "length ts \<le> 16"
    and "isr_types_ok (map (cxx_type_of abi) ts)"
  shows "ON9_ISR_LOG_LEVEL level abi env m tag format ts vs st =
     map_option snd (write_log_isr env m level tag flags format (map (cxx_type_of abi) ts) vs st)"
proof -
  have args: "with_wire_args (map (cxx_type_of abi) ts) vs = Some args"
    using alike_args [OF assms(1)] assms(2) by (simp add: c_va_args_def split: if_splits)
  show ?thesis
    using assms(3,4) alike_codes [OF assms(1)]
    by (cases "on9log_write_isr env m level tag format (Some (ON9_LOG_INIT_ARG_TYPE ts @ [0])) args st")
      (auto simp: ON9_ISR_LOG_LEVEL_def ON9_LOG_ARGS_TYPE_def ON9_LOG_VA_NARG_def assms(2) args write_log_isr_def
        arg_types_def ON9_LOG_ENABLED_def level_enabled_def)
qed

end
