(* ===== verification/Tasks.thy ===== *)
theory Tasks
  imports PacketCorrect BufferCorrect IsrWrite
begin

text \<open>
  Any number of tasks and interrupt handlers at once. The other theories perform an operation on
  the core in one step; here the steps are those another task can see: the emission lock, each
  atomic access to \<open>s_seq\<close> and \<open>s_dropped_count\<close>, the reading of the clock, the ISR queue and
  every single call of a sink callback. The steps interleave in any order.

  A task is the list of the calls it makes; an interrupt handler is one whose calls are ISR calls.
  Of a call the level check, the report of drops, the counting of a message that is not sent and
  each emission are steps of their own; what the task does in between it does to its own variables
  only. So the bytes of a message are given with the call: the theorems on single calls show which
  they are, and \<open>vwrite_alone\<close>, \<open>write_buffer_alone\<close> and \<open>drain_alone\<close> below that the
  steps of one call make up the function of the other theories. A section under the lock that calls
  no sink (adding and removing one) is one step.
\<close>

section \<open>Tasks\<close>

text \<open>The arguments of \<open>on9log_emit_header\<close> and the payload calls that follow it.\<close>

record emission =
  em_type :: on9log_packet_type_t
  em_level :: on9log_level_t
  em_tag_id :: u32
  em_fmt_id :: u32
  em_len :: u16
  em_chunks :: "chunk list"

text \<open>A packet is built here, or was built elsewhere and is dispatched.\<close>

datatype packet_source = Built emission | Given bytes

text \<open>
  What becomes of a message once its level is enabled: packets (several for a buffer), a message no
  packet can hold, or a buffer that cannot be read.
\<close>

datatype message = Sends "emission list" | Too_Large | Unusable

text \<open>
  \<open>Isr_Call\<close> carries the packet the interrupt handler encodes, if it can. The last six are what a call
  turns into: \<open>Report\<close> is the \<open>atomic_exchange_explicit(&s_dropped_count, 0)\<close> in front of an
  emission, \<open>Count_Drop\<close> the \<open>atomic_fetch_add_explicit\<close> of a dropped message, \<open>Release\<close> gives an item
  back to the ring buffer.
\<close>

datatype task_op =
    Log_Call on9log_level_t addr message
  | Boot emission
  | Isr_Call on9log_level_t addr "bytes option"
  | Dispatch "bytes option"
  | Drain
  | Set_Level on9log_level_t
  | Add_Sink addr addr
  | Remove_Sink addr addr
  | Report
  | Emit packet_source
  | Count_Drop
  | Enqueue bytes
  | Release

text \<open>Where a task is: between two operations, or holding the lock inside an emission.\<close>

datatype task_pc =
    Ready "task_op list"
  | Take_Seq on9log_stream_t packet_source "task_op list"
  | Read_Clock on9log_stream_t u16 emission "task_op list"
  | Calling "event list" "task_op list"

record tasks_state =
  tk_core :: on9log_state
  tk_owner :: "nat option"
  tk_pcs :: "task_pc list"

definition dropped_emission :: "u32 \<Rightarrow> emission" where
  "dropped_emission n =
     \<lparr>em_type = ON9LOG_PKT_DROPPED, em_level = ON9_LOG_LEVEL_NONE, em_tag_id = 0, em_fmt_id = 0, em_len = 4,
      em_chunks = [(le_bytes 4 (unat n), 1, 0)]\<rparr>"

definition em_header :: "emission \<Rightarrow> u16 \<Rightarrow> u32 \<Rightarrow> bytes" where
  "em_header em seq ms = header_bytes (em_type em) (em_level em) seq ms (em_tag_id em) (em_fmt_id em) (em_len em)"

text \<open>A dispatched packet keeps its header but for the sequence number; TIME_SYNC keeps that too.\<close>

definition keeps_seq :: "bytes \<Rightarrow> bool" where
  "keeps_seq p \<longleftrightarrow> drop_bit 4 (take HEADER_SIZE p ! 1) = packet_type_code ON9LOG_PKT_TIME_SYNC"

definition given_header :: "u16 \<Rightarrow> bytes \<Rightarrow> bytes" where
  "given_header seq p =
     (if keeps_seq p then take HEADER_SIZE p
      else (take HEADER_SIZE p)[2 := ucast (seq AND 0xff), 3 := ucast (drop_bit 8 seq)])"

definition given_chunks :: "bytes \<Rightarrow> chunk list" where
  "given_chunks p = [(drop HEADER_SIZE p, 0, ON9LOG_PAYLOAD_META_ARG_INDEX)]"

definition packet_calls :: "on9log_stream_t \<Rightarrow> bytes \<Rightarrow> chunk list \<Rightarrow> event list" where
  "packet_calls stream header chunks =
     map (\<lambda>s. StartCb s (Some header)) stream @ chunks_events stream chunks @ map EndCb stream"

definition message_ops :: "message \<Rightarrow> task_op list" where
  "message_ops msg =
     (case msg of
        Sends ems \<Rightarrow> Report # map (\<lambda>em. Emit (Built em)) ems
      | Too_Large \<Rightarrow> [Report, Count_Drop]
      | Unusable \<Rightarrow> [Count_Drop])"

definition report_ops :: "u32 \<Rightarrow> task_op list" where
  "report_ops n = (if n \<noteq> 0 then [Emit (Built (dropped_emission n))] else [])"

definition isr_ops :: "bool \<Rightarrow> bytes option \<Rightarrow> task_op list" where
  "isr_ops ready packet =
     (if \<not> ready then []
      else case packet of None \<Rightarrow> [Count_Drop] | Some p \<Rightarrow> [Enqueue p])"

definition dispatch_ops :: "bytes option \<Rightarrow> task_op list" where
  "dispatch_ops packet =
     (case packet of
        None \<Rightarrow> []
      | Some p \<Rightarrow> if length p < HEADER_SIZE \<or> p ! 0 \<noteq> ON9LOG_PACKET_MAGIC then [] else [Report, Emit (Given p)])"

text \<open>One round of the drain task: it waits for a packet, dispatches it and gives it back.\<close>

definition drain_ops :: "bytes list \<Rightarrow> task_op list option" where
  "drain_ops queue =
     (case queue of [] \<Rightarrow> None | p # ps \<Rightarrow> Some (dispatch_ops (Some p) @ [Release]))"

declare drain_ops_def [simp]

text \<open>
  What an operation turns into, decided in the state it takes effect in. It cannot take effect
  (\<open>None\<close>) while the drain task waits for a packet, or if the tag of a call cannot be read.
\<close>

primrec next_ops :: "on9log_env \<Rightarrow> mem \<Rightarrow> task_op \<Rightarrow> on9log_state \<Rightarrow> task_op list option" where
  "next_ops env m (Log_Call level tag msg) st =
     do { enabled \<leftarrow> on9log_level_enabled env m st level tag;
          Some (if enabled then message_ops msg else []) }"
| "next_ops env m (Boot em) st = Some [Emit (Built em)]"
| "next_ops env m (Isr_Call level tag packet) st =
     do { enabled \<leftarrow> on9log_level_enabled env m st level tag;
          Some (if enabled then isr_ops (port_isr_ready env) packet else []) }"
| "next_ops env m (Dispatch packet) st = Some (dispatch_ops packet)"
| "next_ops env m Drain st = drain_ops (st_isr_queue st)"
| "next_ops env m (Set_Level level) st = Some []"
| "next_ops env m (Add_Sink sink ctx) st = Some []"
| "next_ops env m (Remove_Sink sink ctx) st = Some []"
| "next_ops env m Report st = Some (report_ops (s_dropped_count st))"
| "next_ops env m (Emit src) st = Some []"
| "next_ops env m Count_Drop st = Some []"
| "next_ops env m (Enqueue p) st =
     Some (if fst (on9log_port_isr_enqueue_packet env p st) then [] else [Count_Drop])"
| "next_ops env m Release st = Some []"

section \<open>Whole operations\<close>

text \<open>A packet, by the functions of the core.\<close>

definition emit_packet :: "on9log_env \<Rightarrow> emission \<Rightarrow> on9log_state \<Rightarrow> on9log_state" where
  "emit_packet env em st =
     (let (stream, st) = on9log_emit_header env (em_type em) (em_level em) (em_tag_id em) (em_fmt_id em) (em_len em) st;
          st = fold (\<lambda>(p, n, i). on9log_stream_payload stream p n i) (em_chunks em) st
      in on9log_stream_end stream st)"

text \<open>The locked part of \<open>on9log_dispatch_packet\<close>.\<close>

definition next_given :: "bytes \<Rightarrow> on9log_state \<Rightarrow> on9log_state" where
  "next_given p st = (if keeps_seq p then st else st\<lparr>s_seq := s_seq st + 1\<rparr>)"

definition relay_packet :: "bytes \<Rightarrow> on9log_state \<Rightarrow> on9log_state" where
  "relay_packet p st =
     (let (stream, st) = on9log_stream_open st;
          header = given_header (s_seq st) p;
          st = next_given p st;
          st = on9log_stream_send_header stream (Some header) st;
          st = on9log_stream_payload stream (drop HEADER_SIZE p) 0 ON9LOG_PAYLOAD_META_ARG_INDEX st
      in on9log_stream_end stream st)"

primrec send_packet :: "on9log_env \<Rightarrow> packet_source \<Rightarrow> on9log_state \<Rightarrow> on9log_state" where
  "send_packet env (Built em) = emit_packet env em"
| "send_packet env (Given p) = relay_packet p"

text \<open>What an operation does to the core, done whole.\<close>

primrec task_apply ::
    "on9log_env \<Rightarrow> (addr \<Rightarrow> on9log_sink_desc) \<Rightarrow> task_op \<Rightarrow> on9log_state \<Rightarrow> on9log_state" where
  "task_apply env desc (Log_Call level tag msg) st = st"
| "task_apply env desc (Boot em) st = st"
| "task_apply env desc (Isr_Call level tag packet) st = st"
| "task_apply env desc (Dispatch packet) st = st"
| "task_apply env desc Drain st = st"
| "task_apply env desc (Set_Level level) st = on9log_set_level level st"
| "task_apply env desc (Add_Sink sink ctx) st = snd (on9log_add_sink desc sink ctx st)"
| "task_apply env desc (Remove_Sink sink ctx) st = snd (on9log_remove_sink sink ctx st)"
| "task_apply env desc Report st = st\<lparr>s_dropped_count := 0\<rparr>"
| "task_apply env desc (Emit src) st = send_packet env src st"
| "task_apply env desc Count_Drop st = count_dropped st"
| "task_apply env desc (Enqueue p) st = snd (on9log_port_isr_enqueue_packet env p st)"
| "task_apply env desc Release st = st\<lparr>st_isr_queue := tl (st_isr_queue st)\<rparr>"

text \<open>
  The machine of whole operations: a sequence of them, each the next one of its task, from a state of
  the core and the operations the tasks still have to do.
\<close>

definition whole_step ::
    "on9log_env \<Rightarrow> mem \<Rightarrow> (addr \<Rightarrow> on9log_sink_desc) \<Rightarrow> nat \<times> task_op \<Rightarrow> on9log_state \<times> task_op list list \<Rightarrow>
       (on9log_state \<times> task_op list list) option" where
  "whole_step env m desc label c =
     (case (label, c) of ((i, op), (core, rests)) \<Rightarrow>
        if i < length rests \<and> rests ! i \<noteq> [] \<and> hd (rests ! i) = op
        then do { new \<leftarrow> next_ops env m op core;
                  Some (task_apply env desc op core, rests[i := new @ tl (rests ! i)]) }
        else None)"

primrec whole_run ::
    "on9log_env \<Rightarrow> mem \<Rightarrow> (addr \<Rightarrow> on9log_sink_desc) \<Rightarrow> (nat \<times> task_op) list \<Rightarrow> on9log_state \<times> task_op list list \<Rightarrow>
       (on9log_state \<times> task_op list list) option" where
  "whole_run env m desc [] c = Some c"
| "whole_run env m desc (l # ls) c = do { c \<leftarrow> whole_step env m desc l c; whole_run env m desc ls c }"

text \<open>One task with no other beside it.\<close>

inductive alone ::
    "on9log_env \<Rightarrow> mem \<Rightarrow> (addr \<Rightarrow> on9log_sink_desc) \<Rightarrow> task_op list \<Rightarrow> on9log_state \<Rightarrow> on9log_state \<Rightarrow> bool"
  for env m desc where
  alone_done: "alone env m desc [] st st"
| alone_op: "next_ops env m op st = Some new \<Longrightarrow> alone env m desc (new @ ops) (task_apply env desc op st) st' \<Longrightarrow>
    alone env m desc (op # ops) st st'"

section \<open>Steps\<close>

text \<open>
  A refused argument makes \<open>on9log_add_sink\<close> and \<open>on9log_remove_sink\<close> return before they take the
  lock.
\<close>

primrec needs_lock :: "(addr \<Rightarrow> on9log_sink_desc) \<Rightarrow> task_op \<Rightarrow> bool" where
  "needs_lock desc (Log_Call level tag msg) = False"
| "needs_lock desc (Boot em) = False"
| "needs_lock desc (Isr_Call level tag packet) = False"
| "needs_lock desc (Dispatch packet) = False"
| "needs_lock desc Drain = False"
| "needs_lock desc (Set_Level level) = False"
| "needs_lock desc (Add_Sink sink ctx) = sink_valid desc \<lparr>se_sink = sink, se_ctx = ctx\<rparr>"
| "needs_lock desc (Remove_Sink sink ctx) = (sink \<noteq> NULL)"
| "needs_lock desc Report = False"
| "needs_lock desc (Emit src) = True"
| "needs_lock desc Count_Drop = False"
| "needs_lock desc (Enqueue p) = False"
| "needs_lock desc Release = False"

definition pc_at :: "tasks_state \<Rightarrow> nat \<Rightarrow> task_pc \<Rightarrow> bool" where
  "pc_at s i pc \<longleftrightarrow> i < length (tk_pcs s) \<and> tk_pcs s ! i = pc"

definition goes :: "nat \<Rightarrow> task_pc \<Rightarrow> on9log_state \<Rightarrow> tasks_state \<Rightarrow> tasks_state" where
  "goes i pc core s = s\<lparr>tk_core := core, tk_pcs := (tk_pcs s)[i := pc]\<rparr>"

text \<open>
  A step is labelled with the operation that takes effect in it. An emission takes effect when the
  lock is taken; the holder of the lock then makes its calls one by one.
\<close>

inductive task_step ::
    "on9log_env \<Rightarrow> mem \<Rightarrow> (addr \<Rightarrow> on9log_sink_desc) \<Rightarrow> tasks_state \<Rightarrow> (nat \<times> task_op) list \<Rightarrow> tasks_state \<Rightarrow> bool"
  for env m desc where
  atomic: "pc_at s i (Ready (op # ops)) \<Longrightarrow> \<forall>src. op \<noteq> Emit src \<Longrightarrow>
    (needs_lock desc op \<longrightarrow> tk_owner s = None) \<Longrightarrow> next_ops env m op (tk_core s) = Some new \<Longrightarrow>
    task_step env m desc s [(i, op)] (goes i (Ready (new @ ops)) (task_apply env desc op (tk_core s)) s)"
| stream_open: "pc_at s i (Ready (Emit src # ops)) \<Longrightarrow> tk_owner s = None \<Longrightarrow>
    on9log_stream_open (tk_core s) = (stream, core) \<Longrightarrow>
    task_step env m desc s [(i, Emit src)] (goes i (Take_Seq stream src ops) core (s\<lparr>tk_owner := Some i\<rparr>))"
| take_seq: "pc_at s i (Take_Seq stream (Built em) ops) \<Longrightarrow>
    task_step env m desc s []
      (goes i (Read_Clock stream (s_seq (tk_core s)) em ops) (tk_core s\<lparr>s_seq := s_seq (tk_core s) + 1\<rparr>) s)"
| restamp_header: "pc_at s i (Take_Seq stream (Given p) ops) \<Longrightarrow>
    task_step env m desc s []
      (goes i (Calling (packet_calls stream (given_header (s_seq (tk_core s)) p) (given_chunks p)) ops)
        (next_given p (tk_core s)) s)"
| clock: "pc_at s i (Read_Clock stream seq em ops) \<Longrightarrow> read_clock env (tk_core s) = (ms, core) \<Longrightarrow>
    task_step env m desc s [] (goes i (Calling (packet_calls stream (em_header em seq ms) (em_chunks em)) ops) core s)"
| callback: "pc_at s i (Calling (ev # evs) ops) \<Longrightarrow>
    task_step env m desc s [] (goes i (Calling evs ops) (observe [ev] (tk_core s)) s)"
| unlock: "pc_at s i (Calling [] ops) \<Longrightarrow>
    task_step env m desc s [] (goes i (Ready ops) (on9log_port_emit_unlock (tk_core s)) (s\<lparr>tk_owner := None\<rparr>))"

text \<open>All tasks at their beginning; the operations that have taken effect, in that order.\<close>

inductive task_runs ::
    "on9log_env \<Rightarrow> mem \<Rightarrow> (addr \<Rightarrow> on9log_sink_desc) \<Rightarrow> task_op list list \<Rightarrow> on9log_state \<Rightarrow> (nat \<times> task_op) list \<Rightarrow>
       tasks_state \<Rightarrow> bool"
  for env m desc progs st0 where
  start: "task_runs env m desc progs st0 [] \<lparr>tk_core = st0, tk_owner = None, tk_pcs = map Ready progs\<rparr>"
| step: "task_runs env m desc progs st0 ops s \<Longrightarrow> task_step env m desc s new s' \<Longrightarrow>
    task_runs env m desc progs st0 (ops @ new) s'"

lemma fold_payloads:
  "fold (\<lambda>(p, n, i). on9log_stream_payload stream p n i) cs st = observe (chunks_events stream cs) st"
proof (induction cs arbitrary: st)
  case (Cons c cs)
  then show ?case using chunks_events_simps(2) [of stream "[c]" cs] by (cases c) (simp add: stream_payload_events)
qed simp

lemma emit_packet_events:
  "emit_packet env em st =
     observe (session (registered st) (Some (em_header em (s_seq st) (port_timestamp_ms env (st_clock st)))) (em_chunks em))
       (next_header st)"
  by (simp add: emit_packet_def emit_header_events fold_payloads stream_end_events session_def em_header_def
      registered_def next_header_def)

lemma relay_packet_events:
  "relay_packet p st =
     observe (session (registered st) (Some (given_header (s_seq st) p)) (given_chunks p)) (next_given p st)"
  by (simp add: relay_packet_def on9log_stream_open_def on9log_port_emit_lock_def Let_def given_chunks_def
      on9log_stream_send_header_def stream_payload_events stream_end_events session_def registered_def
      observe_def next_given_def)

section \<open>What a call of the other theories does\<close>

lemma alone_emits:
  "alone env m desc ops (fold (send_packet env) srcs st) st' \<Longrightarrow>
     alone env m desc (map Emit srcs @ ops) st st'"
proof (induction srcs arbitrary: st)
  case (Cons src srcs)
  then show ?case by (auto intro!: alone.alone_op)
qed simp

lemma report_dropped_alone:
  assumes "alone env m desc ops (report_dropped env st) st'"
  shows "alone env m desc (Report # ops) st st'"
proof (rule alone.alone_op)
  show "next_ops env m Report st = Some (report_ops (s_dropped_count st))" by simp
  have "report_dropped env st =
      fold (send_packet env) (if s_dropped_count st = 0 then [] else [Built (dropped_emission (s_dropped_count st))])
        (st\<lparr>s_dropped_count := 0\<rparr>)"
    by (simp add: report_dropped_cases emit_packet_events dropped_emission_def em_header_def
        dropped_header_def registered_def next_header_def)
  from alone_emits [OF assms [unfolded this]]
  show "alone env m desc (report_ops (s_dropped_count st) @ ops) (task_apply env desc Report st) st'"
    by (simp add: report_ops_def split: if_splits)
qed

definition log_emission ::
    "on9log_level_t \<Rightarrow> wire_ref \<Rightarrow> wire_ref \<Rightarrow> bytes \<Rightarrow> log_arg list \<Rightarrow> emission" where
  "log_emission level tag fmt types vals =
     \<lparr>em_type = ON9LOG_PKT_LOG, em_level = level, em_tag_id = ws_id (wire_of tag),
      em_fmt_id = ws_id (wire_of fmt), em_len = word_of_nat (length (log_payload_bytes tag fmt types vals)),
      em_chunks = log_chunks tag fmt types vals\<rparr>"

lemma log_sent_emits: "log_sent env level tag fmt types vals st = emit_packet env (log_emission level tag fmt types vals) st"
  by (simp add: log_sent_def emit_packet_events em_header_def log_header_def log_emission_def)

lemma message_alone:
  assumes "on9log_level_enabled env m st level tag = Some True"
  shows "alone env m desc [Log_Call level tag (Sends ems)] st
     (fold (send_packet env) (map Built ems) (report_dropped env st))"
proof (rule alone.alone_op)
  show "next_ops env m (Log_Call level tag (Sends ems)) st = Some (message_ops (Sends ems))"
    using assms by simp
  show "alone env m desc (message_ops (Sends ems) @ []) (task_apply env desc (Log_Call level tag (Sends ems)) st)
      (fold (send_packet env) (map Built ems) (report_dropped env st))"
    using alone_emits [OF alone.alone_done, of env m desc "map Built ems" "report_dropped env st"] report_dropped_alone
    by (simp add: message_ops_def comp_def)
qed

lemma vwrite_alone:
  assumes "config_ok env" and on: "on9log_level_enabled env m st level tagp = Some True"
    and "call_denotes env m tagp fmtp scan types dyn args tag fmt vals"
    and "length (log_payload_bytes tag fmt types vals) \<le> ON9LOG_PAYLOAD_LEN_MAX"
    and "call_sent m' tagp fmtp types args (tag, fmt, vals) (tag', fmt', vals')"
  shows "\<exists>st'. on9log_vwrite env m m' level tagp fmtp scan (Some (types @ rest))
           (word_of_nat (length types)) dyn args st = Some st' \<and>
         alone env m desc [Log_Call level tagp (Sends [log_emission level tag' fmt' types vals'])] st st'"
  using vwrite_fits [OF assms] message_alone [OF on, of desc "[log_emission level tag' fmt' types vals']"]
  by (simp add: log_sent_emits)

definition buffer_emission :: "on9log_level_t \<Rightarrow> wire_ref \<Rightarrow> nat \<Rightarrow> nat \<Rightarrow> bytes \<Rightarrow> emission" where
  "buffer_emission level tag n off d =
     \<lparr>em_type = ON9LOG_PKT_BUFFER, em_level = level, em_tag_id = ws_id (wire_of tag), em_fmt_id = 0,
      em_len = word_of_nat (length (ref_bytes tag) + 12 + length d), em_chunks = buffer_chunks tag n off d\<rparr>"

primrec buffer_emissions :: "on9log_level_t \<Rightarrow> wire_ref \<Rightarrow> nat \<Rightarrow> nat \<Rightarrow> bytes list \<Rightarrow> emission list" where
  "buffer_emissions level tag n off [] = []"
| "buffer_emissions level tag n off (d # ds) =
     buffer_emission level tag n off d # buffer_emissions level tag n (off + length d) ds"

lemma send_fragments_emits:
  "send_fragments env level tag n off ds st =
     fold (send_packet env) (map Built (buffer_emissions level tag n off ds)) st"
proof (induction ds arbitrary: off st)
  case (Cons d ds)
  have "buffer_packet_sent env level tag n off d st = emit_packet env (buffer_emission level tag n off d) st"
    by (simp add: buffer_packet_sent_def emit_packet_events em_header_def buffer_header_def buffer_emission_def)
  then show ?case using Cons.IH by simp
qed simp

lemma write_buffer_alone:
  assumes "config_ok env" and on: "on9log_level_enabled env m st level tagp = Some True"
    and "ref_denotes env m tagp tag" and "rd_bytes m data n = Some bs" and "n < 4294967296"
    and "data \<noteq> NULL \<or> n = 0" and "length (ref_bytes tag) + 13 \<le> ON9LOG_PAYLOAD_LEN_MAX"
  shows "\<exists>st'. on9log_write_buffer_with_text_flags env m level tagp fl data n st = Some st' \<and>
     alone env m desc
       [Log_Call level tagp (Sends (buffer_emissions level tag n 0 (buffer_pieces env tag bs)))] st st'"
  using write_buffer_sends [OF assms]
    message_alone [OF on, of desc "buffer_emissions level tag n 0 (buffer_pieces env tag bs)"]
  by (simp add: send_fragments_emits)

lemma dispatch_is_relay:
  "snd (on9log_dispatch_packet env packet st) =
     (case packet of
        None \<Rightarrow> st
      | Some p \<Rightarrow> if length p < HEADER_SIZE \<or> p ! 0 \<noteq> ON9LOG_PACKET_MAGIC then st
                  else relay_packet p (report_dropped env st))"
  by (cases packet)
    (simp_all add: on9log_dispatch_packet_def relay_packet_def given_header_def keeps_seq_def next_given_def Let_def
      split: prod.split)

lemma dispatch_alone:
  assumes "alone env m desc ops (snd (on9log_dispatch_packet env packet st)) st'"
  shows "alone env m desc (dispatch_ops packet @ ops) st st'"
proof (cases packet)
  case (Some p)
  then show ?thesis using assms alone_emits [of env m desc ops "[Given p]" "report_dropped env st" st']
    by (auto simp: dispatch_is_relay dispatch_ops_def intro!: report_dropped_alone split: if_splits)
qed (use assms in \<open>simp add: dispatch_is_relay dispatch_ops_def\<close>)

text \<open>One round of the drain task; the functions it calls leave the queue alone.\<close>

lemma dispatch_queue: "st_isr_queue (snd (on9log_dispatch_packet env packet st)) = st_isr_queue st"
  by (simp add: dispatch_is_relay relay_packet_events next_given_def observe_def report_dropped_cases next_header_def
      split: option.split)

lemma drain_alone:
  assumes "st_isr_queue st = p # ps"
  shows "alone env m desc [Drain] st (on9log_esp_isr_drain_step env st)"
proof (rule alone.alone_op)
  show "next_ops env m Drain st = Some (dispatch_ops (Some p) @ [Release])" using assms by simp
  have "on9log_esp_isr_drain_step env st = task_apply env desc Release (snd (on9log_dispatch_packet env (Some p) st))"
    using assms by (simp add: on9log_esp_isr_drain_step_def dispatch_queue)
  then have "alone env m desc [Release] (snd (on9log_dispatch_packet env (Some p) st)) (on9log_esp_isr_drain_step env st)"
    by (simp add: alone.alone_op [where new = "[]"] alone.alone_done)
  from dispatch_alone [OF this]
  show "alone env m desc ((dispatch_ops (Some p) @ [Release]) @ []) (task_apply env desc Drain st)
      (on9log_esp_isr_drain_step env st)" by simp
qed

section \<open>The lock holder's remaining steps\<close>

definition complete :: "on9log_env \<Rightarrow> task_pc \<Rightarrow> on9log_state \<Rightarrow> on9log_state" where
  "complete env pc core =
     (case pc of
        Ready ops \<Rightarrow> core
      | Take_Seq stream src ops \<Rightarrow>
          (case src of
             Built em \<Rightarrow>
               observe (packet_calls stream (em_header em (s_seq core) (port_timestamp_ms env (st_clock core)))
                   (em_chunks em) @ [EmitUnlock])
                 (next_header core)
           | Given p \<Rightarrow>
               observe (packet_calls stream (given_header (s_seq core) p) (given_chunks p) @ [EmitUnlock])
                 (next_given p core))
      | Read_Clock stream seq em ops \<Rightarrow>
          observe (packet_calls stream (em_header em seq (port_timestamp_ms env (st_clock core))) (em_chunks em) @ [EmitUnlock])
            (core\<lparr>st_clock := Suc (st_clock core)\<rparr>)
      | Calling evs ops \<Rightarrow> observe (evs @ [EmitUnlock]) core)"

definition completed :: "on9log_env \<Rightarrow> tasks_state \<Rightarrow> on9log_state" where
  "completed env s =
     (case tk_owner s of None \<Rightarrow> tk_core s | Some i \<Rightarrow> complete env (tk_pcs s ! i) (tk_core s))"

primrec busy :: "task_pc \<Rightarrow> bool" where
  "busy (Ready ops) = False"
| "busy (Take_Seq stream em ops) = True"
| "busy (Read_Clock stream seq em ops) = True"
| "busy (Calling evs ops) = True"

text \<open>Exactly the holder of the lock is inside an emission.\<close>

definition tasks_ok :: "tasks_state \<Rightarrow> bool" where
  "tasks_ok s \<longleftrightarrow> (\<forall>i < length (tk_pcs s). busy (tk_pcs s ! i) \<longleftrightarrow> tk_owner s = Some i) \<and>
     (\<forall>i. tk_owner s = Some i \<longrightarrow> i < length (tk_pcs s))"

lemma complete_fields:
  "complete env pc (core\<lparr>s_dropped_count := n\<rparr>) = (complete env pc core)\<lparr>s_dropped_count := n\<rparr>"
  "complete env pc (core\<lparr>s_default_level := level\<rparr>) = (complete env pc core)\<lparr>s_default_level := level\<rparr>"
  "complete env pc (core\<lparr>st_isr_queue := q\<rparr>) = (complete env pc core)\<lparr>st_isr_queue := q\<rparr>"
  by (cases pc; simp add: complete_def observe_def next_header_def next_given_def split: packet_source.split)+

lemma complete_sel [simp]:
  "s_dropped_count (complete env pc core) = s_dropped_count core"
  "s_default_level (complete env pc core) = s_default_level core"
  "s_tag_filters (complete env pc core) = s_tag_filters core"
  "s_active_tag_filter_count (complete env pc core) = s_active_tag_filter_count core"
  "st_isr_queue (complete env pc core) = st_isr_queue core"
  by (cases pc; simp add: complete_def observe_def next_header_def next_given_def split: packet_source.split)+

lemma goes_sel [simp]:
  "tk_core (goes i pc core s) = core"
  "tk_owner (goes i pc core s) = tk_owner s"
  "tk_pcs (goes i pc core s) = (tk_pcs s)[i := pc]"
  by (simp_all add: goes_def)

text \<open>A step of a task outside an emission that the lock holder does not notice.\<close>

lemma completed_ready:
  assumes "tasks_ok s" and "pc_at s i (Ready ops)"
  shows "tasks_ok (goes i (Ready ops') core s)"
    and "completed env (goes i (Ready ops') core s) = completed env (s\<lparr>tk_core := core\<rparr>)"
  using assms by (auto simp: tasks_ok_def pc_at_def completed_def nth_list_update split: option.split)

text \<open>A step of the lock holder inside an emission.\<close>

lemma completed_busy:
  assumes "tasks_ok s" and "pc_at s i pc" and "busy pc"
  shows "tk_owner s = Some i" and "completed env s = complete env pc (tk_core s)"
    and "busy pc' \<Longrightarrow> tasks_ok (goes i pc' core s)"
    and "completed env (goes i pc' core s) = complete env pc' core"
proof -
  show o: "tk_owner s = Some i" using assms by (auto simp: tasks_ok_def pc_at_def)
  show "completed env s = complete env pc (tk_core s)"
    and "completed env (goes i pc' core s) = complete env pc' core"
    using assms(2) o by (simp_all add: completed_def pc_at_def)
  show "busy pc' \<Longrightarrow> tasks_ok (goes i pc' core s)"
    using assms o by (auto simp: tasks_ok_def pc_at_def nth_list_update)
qed

lemma completed_free: "tk_owner s = None \<Longrightarrow> completed env s = tk_core s"
  by (simp add: completed_def)

lemma complete_open:
  assumes "on9log_stream_open st = (stream, core)"
  shows "complete env (Take_Seq stream src ops) core = send_packet env src st"
  using assms
  by (auto simp: complete_def on9log_stream_open_def on9log_port_emit_lock_def emit_packet_events session_def
      relay_packet_events next_given_def packet_calls_def registered_def next_header_def observe_def
      split: packet_source.split)

lemma needs_no_lock_apply:
  assumes "\<not> needs_lock desc op"
  shows "complete env pc (task_apply env desc op core) = task_apply env desc op (complete env pc core)"
  using assms
  by (cases op) (simp_all add: complete_fields count_dropped_def on9log_set_level_def on9log_remove_sink_def
      on9log_add_sink_def sink_valid_def on9log_port_isr_enqueue_packet_def)

lemma level_enabled_complete:
  "on9log_level_enabled env m (complete env' pc core) level tag = on9log_level_enabled env m core level tag"
  by (simp only: on9log_level_enabled_def on9log_filter_level_for_tag_def complete_sel)

lemma next_ops_complete: "next_ops env m op (complete env pc core) = next_ops env m op core"
  by (cases op) (simp_all add: level_enabled_complete on9log_port_isr_enqueue_packet_def)

lemma atomic_completed:
  assumes "tasks_ok s" and "needs_lock desc op \<longrightarrow> tk_owner s = None"
  shows "completed env (s\<lparr>tk_core := task_apply env desc op (tk_core s)\<rparr>) = task_apply env desc op (completed env s)"
    and "next_ops env m op (completed env s) = next_ops env m op (tk_core s)"
  using assms(2) by (auto simp: completed_def needs_no_lock_apply next_ops_complete split: option.split)

primrec pc_rest :: "task_pc \<Rightarrow> task_op list" where
  "pc_rest (Ready ops) = ops"
| "pc_rest (Take_Seq stream em ops) = ops"
| "pc_rest (Read_Clock stream seq em ops) = ops"
| "pc_rest (Calling evs ops) = ops"

definition abstract_state :: "on9log_env \<Rightarrow> tasks_state \<Rightarrow> on9log_state \<times> task_op list list" where
  "abstract_state env s = (completed env s, map pc_rest (tk_pcs s))"

lemma same_rest: "pc_at s i pc \<Longrightarrow> pc_rest pc' = pc_rest pc \<Longrightarrow> map pc_rest ((tk_pcs s)[i := pc']) = map pc_rest (tk_pcs s)"
  by (rule nth_equalityI) (auto simp: pc_at_def nth_list_update)

lemma whole_step_head:
  assumes "pc_at s i (Ready (op # ops))" and "next_ops env m op (completed env s) = Some new"
  shows "whole_step env m desc (i, op) (abstract_state env s) =
     Some (task_apply env desc op (completed env s), (map pc_rest (tk_pcs s))[i := new @ ops])"
  using assms by (simp add: whole_step_def abstract_state_def pc_at_def)

text \<open>Each step is a whole operation, or none, of the abstract machine.\<close>

lemma task_step_simulates:
  assumes "task_step env m desc s new s'" and "tasks_ok s"
  shows "tasks_ok s' \<and> whole_run env m desc new (abstract_state env s) = Some (abstract_state env s')"
  using assms(1)
proof cases
  case (atomic i op ops more)
  note A = atomic_completed [OF assms(2) atomic(5), of env]
  show ?thesis using atomic completed_ready [OF assms(2) atomic(3)] whole_step_head [OF atomic(3), of env m more desc] A
    by (simp add: abstract_state_def map_update)
next
  case (stream_open i src ops stream core)
  have "tasks_ok s'" using assms(2) stream_open
    by (auto simp: tasks_ok_def pc_at_def nth_list_update)
  moreover have "completed env s' = send_packet env src (completed env s)"
    using stream_open complete_open [OF stream_open(5), of env src ops] by (simp add: completed_def pc_at_def)
  ultimately show ?thesis using stream_open whole_step_head [OF stream_open(3), of env m "[]" desc]
    by (simp add: abstract_state_def map_update)
next
  case (take_seq i stream em ops)
  then show ?thesis using completed_busy [OF assms(2) take_seq(3)] same_rest [OF take_seq(3)]
    by (simp add: abstract_state_def complete_def next_header_def observe_def)
next
  case (restamp_header i stream p ops)
  then show ?thesis using completed_busy [OF assms(2) restamp_header(3)] same_rest [OF restamp_header(3)]
    by (simp add: abstract_state_def complete_def)
next
  case (clock i stream seq em ops ms core)
  then show ?thesis using completed_busy [OF assms(2) clock(3)] same_rest [OF clock(3)]
    by (auto simp: abstract_state_def complete_def read_clock_def)
next
  case (callback i ev evs ops)
  then show ?thesis using completed_busy [OF assms(2) callback(3)] same_rest [OF callback(3)]
    by (simp add: abstract_state_def complete_def)
next
  case (unlock i ops)
  have "tasks_ok s'" using assms(2) unlock completed_busy(1) [OF assms(2) unlock(3)]
    by (auto simp: tasks_ok_def pc_at_def nth_list_update)
  then show ?thesis using unlock completed_busy(2) [OF assms(2) unlock(3)] same_rest [OF unlock(3)]
    by (simp add: abstract_state_def completed_def complete_def on9log_port_emit_unlock_def)
qed

lemma whole_run_append: "whole_run env m desc (a @ b) c = Option.bind (whole_run env m desc a c) (whole_run env m desc b)"
  by (induction a arbitrary: c) (simp_all split: bind_split)

lemma runs_simulate:
  "task_runs env m desc progs st0 ops s \<Longrightarrow>
     tasks_ok s \<and> whole_run env m desc ops (st0, progs) = Some (abstract_state env s)"
proof (induction rule: task_runs.induct)
  case start
  show ?case by (simp add: tasks_ok_def completed_def abstract_state_def comp_def)
next
  case (step ops s new s')
  then show ?case using task_step_simulates [OF step(2)] by (simp add: whole_run_append)
qed

lemma complete_events: "\<exists>rest. st_events (complete env pc core) = st_events core @ rest"
  by (cases pc) (auto simp: complete_def next_given_def split: packet_source.split)

text \<open>C12: However the steps of tasks and interrupt handlers interleave, the operations that took effect, in
  that order, are a run of the machine of whole operations from the same state to the operations still
  left; the calls the sinks have seen are the beginning of those that run makes, and while nobody holds
  the lock the core is in the very state that run leads to.\<close>

theorem tasks_are_sequential:
  assumes "task_runs env m desc progs st0 ops s"
  shows "\<exists>core rest. whole_run env m desc ops (st0, progs) = Some (core, map pc_rest (tk_pcs s)) \<and>
     st_events core = st_events (tk_core s) @ rest \<and> (tk_owner s = None \<longrightarrow> core = tk_core s)"
proof -
  have "\<exists>rest. st_events (completed env s) = st_events (tk_core s) @ rest"
    unfolding completed_def using complete_events by (cases "tk_owner s") simp_all
  then show ?thesis using runs_simulate [OF assms] completed_free by (auto simp: abstract_state_def)
qed

end
