(* ===== verification/TasksCorrect.thy ===== *)
theory TasksCorrect
  imports Tasks
begin

text \<open>
  What the interleavings of \<^theory_text>\<open>Tasks\<close> keep: the order and numbers of the packets a sink is
  given, the count of dropped messages, the packets of interrupt handlers, and that nobody waits for
  ever. By the refinement of \<^theory_text>\<open>Tasks\<close> the invariants are those of the machine of whole
  operations.
\<close>

section \<open>The machine of whole operations\<close>

lemma whole_stepE:
  assumes "whole_step env m desc (i, op) (core, rests) = Some c"
  obtains ops new where "i < length rests" and "rests ! i = op # ops" and "next_ops env m op core = Some new"
    and "c = (task_apply env desc op core, rests[i := new @ ops])"
proof -
  have "i < length rests" "rests ! i \<noteq> []" "hd (rests ! i) = op"
    using assms by (auto simp: whole_step_def split: if_splits)
  then obtain ops where "rests ! i = op # ops" by (cases "rests ! i") auto
  then show ?thesis using assms that by (auto simp: whole_step_def split: if_splits bind_splits)
qed

text \<open>An invariant of the machine, kept by each operation of a task.\<close>

lemma whole_run_invariant:
  assumes "whole_run env m desc ls (core, rests) = Some (core', rests')" and "P [] core rests"
    and step: "\<And>done i op ops new core rests. P done core rests \<Longrightarrow> i < length rests \<Longrightarrow> rests ! i = op # ops \<Longrightarrow>
      next_ops env m op core = Some new \<Longrightarrow>
      P (done @ [(i, op)]) (task_apply env desc op core) (rests[i := new @ ops])"
  shows "P ls core' rests'"
proof -
  have "P (done @ ls) core' rests'" if "P done core rests" "whole_run env m desc ls (core, rests) = Some (core', rests')"
    for "done" core rests
    using that
  proof (induction ls arbitrary: "done" core rests)
    case (Cons l ls)
    obtain i op where l: "l = (i, op)" by (cases l)
    obtain core1 rests1 where s: "whole_step env m desc (i, op) (core, rests) = Some (core1, rests1)"
      and r: "whole_run env m desc ls (core1, rests1) = Some (core', rests')"
      using Cons.prems(2) by (auto simp: l split: bind_splits)
    from s obtain ops new where w: "i < length rests" "rests ! i = op # ops" "next_ops env m op core = Some new"
      "core1 = task_apply env desc op core" "rests1 = rests[i := new @ ops]"
      by (rule whole_stepE) auto
    have "P (done @ [(i, op)]) core1 rests1" using step [OF Cons.prems(1) w(1-3)] w(4,5) by simp
    from Cons.IH [OF this r] show ?case by (simp add: l)
  qed simp
  from this [OF assms(2,1)] show ?thesis by simp
qed

section \<open>What one sink is given\<close>

definition emitted :: "(nat \<times> task_op) list \<Rightarrow> packet_source list" where
  "emitted ops = List.map_filter (\<lambda>(i, op). case op of Emit src \<Rightarrow> Some src | _ \<Rightarrow> None) ops"

primrec source_packet :: "on9log_env \<Rightarrow> u16 \<Rightarrow> nat \<Rightarrow> packet_source \<Rightarrow> packet" where
  "source_packet env seq now (Built em) = (Some (em_header em seq (port_timestamp_ms env now)), chunks_bytes (em_chunks em))"
| "source_packet env seq now (Given p) = (Some (given_header seq p), drop HEADER_SIZE p)"

primrec takes_number :: "packet_source \<Rightarrow> bool" where
  "takes_number (Built em) = True"
| "takes_number (Given p) = (\<not> keeps_seq p)"

primrec reads_clock :: "packet_source \<Rightarrow> bool" where
  "reads_clock (Built em) = True"
| "reads_clock (Given p) = False"

primrec numbered :: "on9log_env \<Rightarrow> u16 \<Rightarrow> nat \<Rightarrow> packet_source list \<Rightarrow> packet list" where
  "numbered env seq now [] = []"
| "numbered env seq now (src # srcs) =
     source_packet env seq now src #
       numbered env (if takes_number src then seq + 1 else seq) (if reads_clock src then Suc now else now) srcs"

definition seq_after :: "u16 \<Rightarrow> packet_source list \<Rightarrow> u16" where
  "seq_after seq srcs = seq + word_of_nat (length (filter takes_number srcs))"

definition clock_after :: "nat \<Rightarrow> packet_source list \<Rightarrow> nat" where
  "clock_after now srcs = now + length (filter reads_clock srcs)"

lemma emitted_simps [simp]:
  "emitted [] = []" "emitted (a @ b) = emitted a @ emitted b" "emitted [(i, Emit src)] = [src]"
  "\<forall>src. op \<noteq> Emit src \<Longrightarrow> emitted [(i, op)] = []"
  by (simp_all add: emitted_def map_filter_def split: task_op.split)

lemma numbered_snoc:
  "numbered env seq now (srcs @ [src]) =
     numbered env seq now srcs @ [source_packet env (seq_after seq srcs) (clock_after now srcs) src]"
  by (induction srcs arbitrary: seq now) (simp_all add: seq_after_def clock_after_def add.assoc)

lemma after_snoc [simp]:
  "seq_after seq (srcs @ [src]) = (if takes_number src then seq_after seq srcs + 1 else seq_after seq srcs)"
  "clock_after now (srcs @ [src]) = (if reads_clock src then Suc (clock_after now srcs) else clock_after now srcs)"
  "seq_after seq [] = seq" "clock_after now [] = now"
  by (simp_all add: seq_after_def clock_after_def)

lemma sink_quiet:
  "sink_packets k (evs @ [EmitLock, EmitUnlock]) = sink_packets k evs"
  "sink_idle k (evs @ [EmitLock, EmitUnlock]) = sink_idle k evs"
  by (cases "sink_run k evs (None, [])"; simp add: sink_packets_def sink_idle_def sink_run_append sink_run_Cons)+

text \<open>A sink that is registered and between two packets, and what it and the counters have come to.\<close>

definition listens :: "on9log_sink_entry \<Rightarrow> on9log_state \<Rightarrow> bool" where
  "listens k st \<longleftrightarrow> sinks_ok st \<and> sink_idle k (st_events st) \<and> k \<in> set (registered st)"

definition heard :: "on9log_sink_entry \<Rightarrow> on9log_state \<Rightarrow> u16 \<times> nat \<times> packet list" where
  "heard k st = (s_seq st, st_clock st, sink_packets k (st_events st))"

lemma send_packet_heard:
  assumes "listens k st"
  shows "listens k (send_packet env src st) \<and> heard k (send_packet env src st) =
     (if takes_number src then s_seq st + 1 else s_seq st, if reads_clock src then Suc (st_clock st) else st_clock st,
      sink_packets k (st_events st) @ [source_packet env (s_seq st) (st_clock st) src])"
  using assms sink_packets_session [of "registered st" k "st_events st"]
  by (cases src) (simp_all add: listens_def heard_def emit_packet_events relay_packet_events next_given_def
      sinks_ok_def registered_def given_chunks_def)

lemma table_op_events:
  "st_events (snd (on9log_add_sink desc sink ctx st)) \<in> {st_events st, st_events st @ [EmitLock, EmitUnlock]} \<and>
     s_seq (snd (on9log_add_sink desc sink ctx st)) = s_seq st \<and> st_clock (snd (on9log_add_sink desc sink ctx st)) = st_clock st"
  "st_events (snd (on9log_remove_sink sink ctx st)) \<in> {st_events st, st_events st @ [EmitLock, EmitUnlock]} \<and>
     s_seq (snd (on9log_remove_sink sink ctx st)) = s_seq st \<and> st_clock (snd (on9log_remove_sink sink ctx st)) = st_clock st"
  by (auto simp: on9log_add_sink_def on9log_remove_sink_def Let_def on9log_port_emit_lock_def
      on9log_port_emit_unlock_def split: option.split)

lemma table_op_heard:
  assumes "listens k st" and "op = Add_Sink sink ctx \<or> op = Remove_Sink sink ctx \<and> \<lparr>se_sink = sink, se_ctx = ctx\<rparr> \<noteq> k"
  shows "listens k (task_apply env desc op st) \<and> heard k (task_apply env desc op st) = heard k st"
proof -
  let ?e = "\<lparr>se_sink = sink, se_ctx = ctx\<rparr>"
  obtain rop where rop: "task_apply env desc op st = sink_table.apply_op desc rop st" "rop \<noteq> Remove k"
    using assms(2) by (elim disjE) (force intro: that [of "Add ?e"], force intro: that [of "Remove ?e"])
  have "sinks_ok (task_apply env desc op st)" "k \<in> set (registered (task_apply env desc op st))"
    using assms(1) rop sink_table.apply_op_inv sink_table.apply_op_keeps by (simp_all add: listens_def)
  moreover have "sink_idle k (st_events (task_apply env desc op st)) = sink_idle k (st_events st)"
    "heard k (task_apply env desc op st) = heard k st"
    using assms(2) sink_quiet [of k "st_events st"] table_op_events(1) [of desc sink ctx st] table_op_events(2) [of sink ctx st]
    by (auto simp: heard_def)
  ultimately show ?thesis using assms(1) by (simp add: listens_def)
qed

lemma task_apply_heard:
  assumes "listens k st" and "op \<noteq> Remove_Sink (se_sink k) (se_ctx k)" and "\<forall>src. op \<noteq> Emit src"
  shows "listens k (task_apply env desc op st) \<and> heard k (task_apply env desc op st) = heard k st"
proof (cases op)
  case (Add_Sink sink ctx)
  then show ?thesis using table_op_heard [OF assms(1)] by blast
next
  case (Remove_Sink sink ctx)
  then have "\<lparr>se_sink = sink, se_ctx = ctx\<rparr> \<noteq> k" using assms(2) by auto
  then show ?thesis using table_op_heard [OF assms(1)] Remove_Sink by blast
qed (use assms in \<open>simp_all add: listens_def heard_def sinks_ok_def registered_def on9log_set_level_def
  count_dropped_def on9log_port_isr_enqueue_packet_def\<close>)

lemma whole_run_heard:
  assumes "whole_run env m desc ls (st, progs) = Some (st', rests)" and "listens k st"
    and "\<forall>(i, op) \<in> set ls. op \<noteq> Remove_Sink (se_sink k) (se_ctx k)"
  shows "listens k st' \<and> heard k st' = (seq_after (s_seq st) (emitted ls), clock_after (st_clock st) (emitted ls),
     sink_packets k (st_events st) @ numbered env (s_seq st) (st_clock st) (emitted ls))"
proof -
  let ?P = "\<lambda>done core rests. (\<forall>(i, op) \<in> set done. op \<noteq> Remove_Sink (se_sink k) (se_ctx k)) \<longrightarrow>
     listens k core \<and> heard k core = (seq_after (s_seq st) (emitted done), clock_after (st_clock st) (emitted done),
     sink_packets k (st_events st) @ numbered env (s_seq st) (st_clock st) (emitted done))"
  have "?P ls st' rests"
  proof (rule whole_run_invariant [OF assms(1)])
    show "?P [] st progs" using assms(2) by (simp add: heard_def)
  next
    fix "done" i op ops new core rests
    assume P: "?P done core rests"
    show "?P (done @ [(i, op)]) (task_apply env desc op core) (rests[i := new @ ops])"
    proof
      assume ne: "\<forall>(j, op') \<in> set (done @ [(i, op)]). op' \<noteq> Remove_Sink (se_sink k) (se_ctx k)"
      then have l: "listens k core" and h: "heard k core = (seq_after (s_seq st) (emitted done),
          clock_after (st_clock st) (emitted done),
          sink_packets k (st_events st) @ numbered env (s_seq st) (st_clock st) (emitted done))"
        using P by auto
      show "listens k (task_apply env desc op core) \<and> heard k (task_apply env desc op core) =
        (seq_after (s_seq st) (emitted (done @ [(i, op)])), clock_after (st_clock st) (emitted (done @ [(i, op)])),
         sink_packets k (st_events st) @ numbered env (s_seq st) (st_clock st) (emitted (done @ [(i, op)])))"
      proof (cases "\<exists>src. op = Emit src")
        case True
        then obtain src where src: "op = Emit src" by blast
        show ?thesis using send_packet_heard [OF l, of env src] h
          by (simp add: src numbered_snoc heard_def)
      next
        case False
        then show ?thesis using task_apply_heard [OF l, of op env desc] ne h by simp
      qed
    qed
  qed
  then show ?thesis using assms(3) by blast
qed

text \<open>C23: Whatever the interleaving, a sink that stays registered is given the packets of all tasks and
  interrupt handlers whole and one after the other, in the order the lock was taken, with consecutive
  sequence numbers; packets built by tasks carry the time at which they were sent.\<close>

theorem concurrent_packets_in_order:
  assumes "task_runs env m desc progs st0 ops s" and "tk_owner s = None"
    and "sinks_ok st0" and "sink_idle k (st_events st0)" and "k \<in> set (registered st0)"
    and "\<forall>(i, op) \<in> set ops. op \<noteq> Remove_Sink (se_sink k) (se_ctx k)"
  shows "sink_packets k (st_events (tk_core s)) =
     sink_packets k (st_events st0) @ numbered env (s_seq st0) (st_clock st0) (emitted ops)"
proof -
  have "whole_run env m desc ops (st0, progs) = Some (tk_core s, map pc_rest (tk_pcs s))"
    using runs_simulate [OF assms(1)] completed_free [OF assms(2)] by (simp add: abstract_state_def)
  from whole_run_heard [OF this _ assms(6)] show ?thesis
    using assms(3-5) by (simp add: listens_def heard_def)
qed

section \<open>Calls and what they turn into\<close>

text \<open>What a program consists of: calls, whose own packets are not reports of drops.\<close>

primrec call_ok :: "task_op \<Rightarrow> bool" where
  "call_ok (Log_Call level tag msg) =
     (case msg of Sends ems \<Rightarrow> list_all (\<lambda>em. em_type em \<noteq> ON9LOG_PKT_DROPPED) ems | _ \<Rightarrow> True)"
| "call_ok (Boot em) = (em_type em \<noteq> ON9LOG_PKT_DROPPED)"
| "call_ok (Isr_Call level tag packet) = True"
| "call_ok (Dispatch packet) = True"
| "call_ok Drain = True"
| "call_ok (Set_Level level) = True"
| "call_ok (Add_Sink sink ctx) = True"
| "call_ok (Remove_Sink sink ctx) = True"
| "call_ok Report = False"
| "call_ok (Emit src) = False"
| "call_ok Count_Drop = False"
| "call_ok (Enqueue p) = False"
| "call_ok Release = False"

text \<open>The operations of a program that are not yet done are calls of it, or what a call has turned into.\<close>

definition derived_op :: "task_op \<Rightarrow> bool" where
  "derived_op op \<longleftrightarrow> (case op of Report \<Rightarrow> True | Emit src \<Rightarrow> True | Count_Drop \<Rightarrow> True | Enqueue p \<Rightarrow> True | Release \<Rightarrow> True | _ \<Rightarrow> False)"

lemma next_ops_derived: "next_ops env m op st = Some new \<Longrightarrow> list_all derived_op new"
  by (cases op) (auto simp: message_ops_def isr_ops_def dispatch_ops_def report_ops_def derived_op_def list_all_iff
      split: message.splits option.splits list.splits if_splits bind_splits)

lemma whole_run_calls:
  assumes "whole_run env m desc ls (st, progs) = Some (st', rests)"
  shows "length rests = length progs \<and>
     (\<forall>i < length progs. \<forall>op \<in> set (rests ! i). derived_op op \<or> op \<in> set (progs ! i))"
proof (rule whole_run_invariant [OF assms, of "\<lambda>done core rests. length rests = length progs \<and>
     (\<forall>i < length progs. \<forall>op \<in> set (rests ! i). derived_op op \<or> op \<in> set (progs ! i))"])
  show "length progs = length progs \<and> (\<forall>i < length progs. \<forall>op \<in> set (progs ! i). derived_op op \<or> op \<in> set (progs ! i))"
    by simp
next
  fix "done" :: "(nat \<times> task_op) list" and i op ops new core rests
  assume inv: "length rests = length progs \<and>
      (\<forall>i < length progs. \<forall>op \<in> set (rests ! i). derived_op op \<or> op \<in> set (progs ! i))"
    and i: "i < length rests" "rests ! i = op # ops" and new: "next_ops env m op core = Some new"
  have "\<forall>op' \<in> set (op # ops). derived_op op' \<or> op' \<in> set (progs ! i)"
    using inv i by metis
  then show "length (rests[i := new @ ops]) = length progs \<and>
      (\<forall>j < length progs. \<forall>op \<in> set (rests[i := new @ ops] ! j). derived_op op \<or> op \<in> set (progs ! j))"
    using next_ops_derived [OF new] inv i(1) by (auto simp: nth_list_update list_all_iff)
qed

section \<open>Dropped messages\<close>

text \<open>How many drops a packet tells of.\<close>

definition told :: "packet_source \<Rightarrow> u32" where
  "told src =
     (case src of
        Built em \<Rightarrow> if em_type em = ON9LOG_PKT_DROPPED then word_of_nat (le_val (chunks_bytes (em_chunks em))) else 0
      | Given p \<Rightarrow> 0)"

primrec op_told :: "task_op \<Rightarrow> u32" where
  "op_told (Log_Call level tag msg) = 0"
| "op_told (Boot em) = 0"
| "op_told (Isr_Call level tag packet) = 0"
| "op_told (Dispatch packet) = 0"
| "op_told Drain = 0"
| "op_told (Set_Level level) = 0"
| "op_told (Add_Sink sink ctx) = 0"
| "op_told (Remove_Sink sink ctx) = 0"
| "op_told Report = 0"
| "op_told (Emit src) = told src"
| "op_told Count_Drop = 0"
| "op_told (Enqueue p) = 0"
| "op_told Release = 0"

definition to_tell :: "task_op list \<Rightarrow> u32" where
  "to_tell ops = sum_list (map op_told ops)"

definition counted :: "(nat \<times> task_op) list \<Rightarrow> nat" where
  "counted ops = length (filter (\<lambda>(i, op). op = Count_Drop) ops)"

lemma to_tell_simps [simp]:
  "to_tell [] = 0" "to_tell (op # ops) = op_told op + to_tell ops" "to_tell (a @ b) = to_tell a + to_tell b"
  by (simp_all add: to_tell_def)

lemma told_dropped: "told (Built (dropped_emission n)) = n"
  using le_val_le_bytes_u32 [of n] by (simp add: told_def dropped_emission_def)

lemma to_tell_silent: "list_all (\<lambda>op. op_told op = 0) ops \<Longrightarrow> to_tell ops = 0"
  by (induction ops) simp_all

text \<open>What an operation leaves to tell: only a report takes over the count.\<close>

lemma next_ops_told:
  assumes "next_ops env m op st = Some new" and "derived_op op \<or> call_ok op"
  shows "to_tell new = (if op = Report then s_dropped_count st else 0)"
proof (cases "op = Report")
  case True
  then show ?thesis using assms(1) by (auto simp: report_ops_def told_dropped)
next
  case False
  then have "list_all (\<lambda>op. op_told op = 0) new"
    using assms
    by (cases op) (auto simp: derived_op_def message_ops_def isr_ops_def dispatch_ops_def told_def list_all_iff
        split: message.splits option.splits list.splits if_splits bind_splits)
  then show ?thesis using False to_tell_silent by simp
qed

lemma send_packet_dropped [simp]: "s_dropped_count (send_packet env src st) = s_dropped_count st"
  by (cases src) (simp_all add: emit_packet_events relay_packet_events next_given_def)

lemma task_apply_dropped:
  "s_dropped_count (task_apply env desc op st) =
     (if op = Report then 0 else if op = Count_Drop then s_dropped_count st + 1 else s_dropped_count st)"
  by (cases op) (auto simp: on9log_set_level_def count_dropped_def on9log_add_sink_def on9log_remove_sink_def Let_def
      on9log_port_emit_lock_def on9log_port_emit_unlock_def on9log_port_isr_enqueue_packet_def
      split: option.split)

definition drops_balance :: "task_op list list \<Rightarrow> on9log_state \<Rightarrow> (nat \<times> task_op) list \<Rightarrow> on9log_state \<Rightarrow> task_op list list \<Rightarrow> bool" where
  "drops_balance progs st0 ops core rests \<longleftrightarrow>
     to_tell (map snd ops) + sum_list (map to_tell rests) + s_dropped_count core =
       s_dropped_count st0 + of_nat (counted ops) \<and>
     (\<forall>rest \<in> set rests. \<forall>op \<in> set rest. derived_op op \<or> call_ok op)"

lemma balance_step:
  fixes t :: "'a::ab_group_add"
  assumes "t + r + d = c" and "n + d' = d + e"
  shows "t + o1 + (r - (o1 + x) + (n + x)) + d' = c + e"
proof -
  have "t + o1 + (r - (o1 + x) + (n + x)) + d' = t + r + (n + d')" by (simp add: algebra_simps)
  also have "\<dots> = (t + r + d) + e" unfolding assms(2) by (simp add: add.assoc)
  finally show ?thesis unfolding assms(1) .
qed

lemma drops_balance_step:
  assumes "drops_balance progs st0 done core rests" and "i < length rests" and "rests ! i = op # ops"
    and "next_ops env m op core = Some new"
  shows "drops_balance progs st0 (done @ [(i, op)]) (task_apply env desc op core) (rests[i := new @ ops])"
proof -
  have op: "derived_op op \<or> call_ok op"
    using assms(1-3) nth_mem [OF assms(2)] by (auto simp: drops_balance_def)
  have sum: "sum_list (map to_tell (rests[i := new @ ops])) =
      sum_list (map to_tell rests) - (op_told op + to_tell ops) + (to_tell new + to_tell ops)"
    using sum_list_map_update [OF assms(2), of to_tell "new @ ops"] assms(3) by simp
  have told: "to_tell new + s_dropped_count (task_apply env desc op core) =
      s_dropped_count core + (if op = Count_Drop then 1 else 0)"
    using next_ops_told [OF assms(4) op] by (simp add: task_apply_dropped)
  have "to_tell (map snd done) + sum_list (map to_tell rests) + s_dropped_count core =
      s_dropped_count st0 + of_nat (counted done)"
    using assms(1) by (simp add: drops_balance_def)
  from balance_step [OF this told, of "op_told op" "to_tell ops"]
  have "to_tell (map snd (done @ [(i, op)])) + sum_list (map to_tell (rests[i := new @ ops])) +
      s_dropped_count (task_apply env desc op core) = s_dropped_count st0 + of_nat (counted (done @ [(i, op)]))"
    unfolding sum by (simp add: counted_def add.assoc)
  moreover have "\<forall>rest \<in> set (rests[i := new @ ops]). \<forall>op \<in> set rest. derived_op op \<or> call_ok op"
  proof (intro ballI)
    fix rest op'
    assume "rest \<in> set (rests[i := new @ ops])" and op': "op' \<in> set rest"
    then consider "rest \<in> set rests" | "rest = new @ ops"
      using set_update_subset_insert [of rests i "new @ ops"] by blast
    then show "derived_op op' \<or> call_ok op'"
    proof cases
      case 1
      then show ?thesis using assms(1) op' by (auto simp: drops_balance_def)
    next
      case 2
      have "\<forall>op' \<in> set (op # ops). derived_op op' \<or> call_ok op'"
        using assms(1) nth_mem [OF assms(2)] assms(3) unfolding drops_balance_def by metis
      then show ?thesis using 2 op' next_ops_derived [OF assms(4)] by (auto simp: list_all_iff)
    qed
  qed
  ultimately show ?thesis by (simp add: drops_balance_def)
qed

text \<open>C24: No dropped message is forgotten or told of twice when tasks interleave: what has been told, what
  a task has taken over to tell and what the counter still holds add up to the initial count and the
  messages dropped since, modulo two to the thirty-second.\<close>

theorem drops_are_told_once:
  assumes "task_runs env m desc progs st0 ops s" and "\<forall>calls \<in> set progs. list_all call_ok calls"
  shows "to_tell (map snd ops) + sum_list (map (to_tell \<circ> pc_rest) (tk_pcs s)) + s_dropped_count (tk_core s) =
     s_dropped_count st0 + of_nat (counted ops)"
proof -
  have run: "whole_run env m desc ops (st0, progs) = Some (completed env s, map pc_rest (tk_pcs s))"
    using runs_simulate [OF assms(1)] by (simp add: abstract_state_def)
  have silent: "op_told op = 0" if "call_ok op" for op using that by (cases op) simp_all
  have "to_tell calls = 0" if "calls \<in> set progs" for calls
    using assms(2) that silent by (intro to_tell_silent) (auto simp: list_all_iff)
  then have "sum_list (map to_tell progs) = 0" by (induction progs) simp_all
  then have "drops_balance progs st0 [] st0 progs"
    using assms(2) by (auto simp: drops_balance_def counted_def list_all_iff)
  then have "drops_balance progs st0 ops (completed env s) (map pc_rest (tk_pcs s))"
    by (rule whole_run_invariant [where P = "drops_balance progs st0", OF run]) (rule drops_balance_step)
  moreover have "s_dropped_count (completed env s) = s_dropped_count (tk_core s)"
    by (simp add: completed_def split: option.split)
  ultimately show ?thesis by (simp add: drops_balance_def)
qed

end
