(* ===== verification/TasksIsr.thy ===== *)
theory TasksIsr
  imports TasksCorrect
begin

text \<open>
  The packets of interrupt handlers in \<^theory_text>\<open>Tasks\<close>: with one drain task, what the ring buffer
  accepts is what the sinks are given, each packet once and in that order, however the handlers, the
  drain task and the other tasks interleave.
\<close>

section \<open>What passes through the queue\<close>

text \<open>The packets the ring buffer accepts, those the drain task takes the lock for, those released.\<close>

primrec accepted_now :: "on9log_env \<Rightarrow> task_op \<Rightarrow> on9log_state \<Rightarrow> bytes list" where
  "accepted_now env (Log_Call level tag msg) st = []"
| "accepted_now env (Boot em) st = []"
| "accepted_now env (Isr_Call level tag packet) st = []"
| "accepted_now env (Dispatch packet) st = []"
| "accepted_now env Drain st = []"
| "accepted_now env (Set_Level level) st = []"
| "accepted_now env (Add_Sink sink ctx) st = []"
| "accepted_now env (Remove_Sink sink ctx) st = []"
| "accepted_now env Report st = []"
| "accepted_now env (Emit src) st = []"
| "accepted_now env Count_Drop st = []"
| "accepted_now env (Enqueue p) st = (if port_isr_enqueue_packet env (st_isr_queue st) p then [p] else [])"
| "accepted_now env Release st = []"

fun accepted ::
    "on9log_env \<Rightarrow> (addr \<Rightarrow> on9log_sink_desc) \<Rightarrow> (nat \<times> task_op) list \<Rightarrow> on9log_state \<Rightarrow> bytes list" where
  "accepted env desc [] st = []"
| "accepted env desc ((i, op) # ops) st = accepted_now env op st @ accepted env desc ops (task_apply env desc op st)"

definition relayed :: "(nat \<times> task_op) list \<Rightarrow> bytes list" where
  "relayed ops = List.map_filter (\<lambda>(i, op). case op of Emit (Given p) \<Rightarrow> Some p | _ \<Rightarrow> None) ops"

definition released :: "(nat \<times> task_op) list \<Rightarrow> nat" where
  "released ops = length (filter (\<lambda>(i, op). op = Release) ops)"

lemma accepted_snoc:
  "accepted env desc (ops @ [(i, op)]) st =
     accepted env desc ops st @ accepted_now env op (fold (task_apply env desc) (map snd ops) st)"
  by (induction ops arbitrary: st) auto

text \<open>The operations of the drain task that concern the queue.\<close>

definition queue_op :: "task_op \<Rightarrow> bool" where
  "queue_op op \<longleftrightarrow> (case op of Drain \<Rightarrow> True | Release \<Rightarrow> True | Emit (Given p) \<Rightarrow> True | _ \<Rightarrow> False)"

lemma queue_op_simps [simp]:
  "queue_op Drain" "queue_op Release" "queue_op (Emit (Given p))" "\<not> queue_op (Emit (Built em))"
  by (simp_all add: queue_op_def)

text \<open>ISR packets are well formed, and nothing else is dispatched.\<close>

definition isr_op_ok :: "task_op \<Rightarrow> bool" where
  "isr_op_ok op \<longleftrightarrow>
     (case op of
        Dispatch packet \<Rightarrow> False
      | Isr_Call level tag packet \<Rightarrow> packet = None \<or> dispatchable packet
      | Enqueue p \<Rightarrow> dispatchable (Some p)
      | _ \<Rightarrow> True)"

lemma isr_next_ops:
  assumes "next_ops env m op core = Some new" and "isr_op_ok op"
  shows "list_all isr_op_ok new" and "op \<noteq> Drain \<Longrightarrow> filter queue_op new = []"
proof -
  show "list_all isr_op_ok new"
    using assms by (cases op) (auto simp: message_ops_def isr_ops_def dispatch_ops_def report_ops_def isr_op_ok_def
        list_all_iff split: message.splits option.splits list.splits if_splits bind_splits)
  show "filter queue_op new = []" if "op \<noteq> Drain"
    using assms that by (cases op) (auto simp: message_ops_def isr_ops_def report_ops_def isr_op_ok_def queue_op_def
        filter_empty_conv split: message.splits option.splits list.splits if_splits bind_splits)
qed

lemma send_packet_queue [simp]: "st_isr_queue (send_packet env src st) = st_isr_queue st"
  by (cases src) (simp_all add: emit_packet_events relay_packet_events next_given_def next_header_def observe_def)

lemma task_apply_queue:
  "st_isr_queue (task_apply env desc op st) =
     (if op = Release then tl (st_isr_queue st) else st_isr_queue st @ accepted_now env op st)"
  by (cases op) (auto simp: on9log_set_level_def count_dropped_def on9log_add_sink_def on9log_remove_sink_def Let_def
      on9log_port_emit_lock_def on9log_port_emit_unlock_def observe_def on9log_port_isr_enqueue_packet_def
      split: option.split)

section \<open>The invariant\<close>

text \<open>How far the drain task has come with its round, when \<open>r\<close> packets of \<open>all\<close> have been released.\<close>

definition drain_stage :: "bytes list \<Rightarrow> nat \<Rightarrow> bytes list \<Rightarrow> task_op list \<Rightarrow> bool" where
  "drain_stage all r sent rest \<longleftrightarrow>
     (\<exists>n. filter queue_op rest = replicate n Drain \<and> sent = take r all) \<or>
     (\<exists>n p. filter queue_op rest = Emit (Given p) # Release # replicate n Drain \<and> sent = take r all \<and>
        r < length all \<and> all ! r = p) \<or>
     (\<exists>n. filter queue_op rest = Release # replicate n Drain \<and> sent = take (Suc r) all \<and> r < length all)"

definition isr_inv ::
    "on9log_env \<Rightarrow> (addr \<Rightarrow> on9log_sink_desc) \<Rightarrow> nat \<Rightarrow> on9log_state \<Rightarrow> (nat \<times> task_op) list \<Rightarrow> on9log_state \<Rightarrow>
       task_op list list \<Rightarrow> bool" where
  "isr_inv env desc d st0 ops core rests \<longleftrightarrow>
     (let all = st_isr_queue st0 @ accepted env desc ops st0
      in core = fold (task_apply env desc) (map snd ops) st0 \<and> d < length rests \<and>
         released ops \<le> length all \<and> st_isr_queue core = drop (released ops) all \<and>
         list_all (\<lambda>p. dispatchable (Some p)) all \<and>
         (\<forall>rest \<in> set rests. list_all isr_op_ok rest) \<and>
         (\<forall>i < length rests. i \<noteq> d \<longrightarrow> filter queue_op (rests ! i) = []) \<and>
         drain_stage all (released ops) (relayed ops) (rests ! d))"

lemma drain_stage_longer:
  "drain_stage all r sent rest \<Longrightarrow> r \<le> length all \<Longrightarrow> filter queue_op rest' = filter queue_op rest \<Longrightarrow>
     drain_stage (all @ added) r sent rest'"
  by (auto simp: drain_stage_def nth_append)

lemma released_snoc: "released (ops @ [(i, op)]) = released ops + (if op = Release then 1 else 0)"
  by (simp add: released_def)

lemma relayed_snoc:
  "relayed (ops @ [(i, op)]) = relayed ops @ (case op of Emit (Given p) \<Rightarrow> [p] | _ \<Rightarrow> [])"
  by (simp add: relayed_def map_filter_def split: task_op.split packet_source.split)

lemma dispatch_queue_ops:
  "dispatchable (Some p) \<Longrightarrow> filter queue_op (dispatch_ops (Some p)) = [Emit (Given p)]"
  by (auto simp: dispatchable_def dispatch_ops_def queue_op_def not_less)

text \<open>The drain task's own steps, by the stage it is in.\<close>

lemma drain_stage_step:
  assumes stage: "drain_stage all r sent (op # ops)" and "next_ops env m op core = Some new" and "isr_op_ok op"
    and queue: "st_isr_queue core = drop r all" and wf: "list_all (\<lambda>p. dispatchable (Some p)) all"
    and r: "r \<le> length all" and "op = Release \<longrightarrow> added = []"
  shows "drain_stage (all @ added) (r + (if op = Release then 1 else 0))
     (sent @ (case op of Emit (Given p) \<Rightarrow> [p] | _ \<Rightarrow> [])) (new @ ops)"
proof (cases "queue_op op")
  case False
  then have "filter queue_op (new @ ops) = filter queue_op (op # ops)"
    using isr_next_ops(2) [OF assms(2,3)] by (cases "op = Drain") auto
  moreover have "op \<noteq> Release" "(case op of Emit (Given p) \<Rightarrow> [p] | _ \<Rightarrow> []) = []"
    using False by (auto simp: queue_op_def split: task_op.split packet_source.split)
  ultimately show ?thesis using drain_stage_longer [OF stage r] by simp
next
  case True
  then consider "op = Drain" | "op = Release" | p where "op = Emit (Given p)"
    by (auto simp: queue_op_def split: task_op.splits packet_source.splits)
  then show ?thesis
  proof cases
    case 1
    then obtain n where ops: "filter queue_op ops = replicate n Drain" and sent: "sent = take r all"
      using stage by (auto simp: drain_stage_def Cons_replicate_eq)
    obtain p ps where q: "drop r all = p # ps" and new: "new = dispatch_ops (Some p) @ [Release]"
      using assms(2) queue 1 by (auto split: list.splits)
    have rl: "r < length all" "all ! r = p"
      using q by (metis drop_eq_Nil2 leI list.distinct(1), metis nth_via_drop)
    then have "dispatchable (Some p)" using wf by (auto simp: list_all_iff)
    then have "filter queue_op (new @ ops) = Emit (Given p) # Release # replicate n Drain"
      by (simp add: new ops dispatch_queue_ops)
    then show ?thesis using 1 sent rl by (auto simp: drain_stage_def nth_append)
  next
    case 2
    then obtain n where "filter queue_op ops = replicate n Drain" "sent = take (Suc r) all" "new = []" "added = []"
      using stage assms(2,7) by (auto simp: drain_stage_def Cons_replicate_eq)
    then show ?thesis using 2 by (auto simp: drain_stage_def)
  next
    case (3 p)
    then obtain n where "filter queue_op ops = Release # replicate n Drain" "sent = take r all" "r < length all"
      "all ! r = p" "new = []"
      using stage assms(2) by (auto simp: drain_stage_def Cons_replicate_eq)
    then show ?thesis using 3 by (auto simp: drain_stage_def take_Suc_conv_app_nth)
  qed
qed

lemma isr_inv_step:
  assumes inv: "isr_inv env desc d st0 done core rests" and i: "i < length rests" "rests ! i = op # ops"
    and new: "next_ops env m op core = Some new"
  shows "isr_inv env desc d st0 (done @ [(i, op)]) (task_apply env desc op core) (rests[i := new @ ops])"
proof -
  let ?all = "st_isr_queue st0 @ accepted env desc done st0" and ?r = "released done" and ?added = "accepted_now env op core"
  have core: "core = fold (task_apply env desc) (map snd done) st0" and d: "d < length rests" and r: "?r \<le> length ?all"
    and queue: "st_isr_queue core = drop ?r ?all" and wf: "list_all (\<lambda>p. dispatchable (Some p)) ?all"
    and ok: "\<forall>rest \<in> set rests. list_all isr_op_ok rest"
    and quiet: "\<forall>j < length rests. j \<noteq> d \<longrightarrow> filter queue_op (rests ! j) = []"
    and stage: "drain_stage ?all ?r (relayed done) (rests ! d)"
    using inv unfolding isr_inv_def Let_def by blast+
  have all: "st_isr_queue st0 @ accepted env desc (done @ [(i, op)]) st0 = ?all @ ?added"
    by (simp add: accepted_snoc core)
  have okr: "list_all isr_op_ok (op # ops)" using ok i by (metis nth_mem)
  then have okop: "isr_op_ok op" by simp
  have added: "op = Release \<longrightarrow> ?added = []" by auto
  have wf': "list_all (\<lambda>p. dispatchable (Some p)) (?all @ ?added)"
    using wf okop by (cases op) (auto simp: isr_op_ok_def)
  have ok': "\<forall>rest \<in> set (rests[i := new @ ops]). list_all isr_op_ok rest"
    using ok okr isr_next_ops(1) [OF new okop] set_update_subset_insert [of rests i "new @ ops"] by auto
  have stage': "drain_stage (?all @ ?added) (?r + (if op = Release then 1 else 0))
      (relayed (done @ [(i, op)])) (rests[i := new @ ops] ! d)"
  proof (cases "i = d")
    case True
    then show ?thesis
      using drain_stage_step [OF _ new okop queue wf r added] stage i by (simp add: relayed_snoc)
  next
    case False
    then have "\<not> queue_op op" using quiet i by (metis filter.simps(2) list.distinct(1))
    then have "op \<noteq> Release" "relayed (done @ [(i, op)]) = relayed done"
      by (auto simp: relayed_snoc queue_op_def split: task_op.split packet_source.split)
    then show ?thesis using drain_stage_longer [OF stage r, of "rests ! d" ?added] False by simp
  qed
  have r': "?r + (if op = Release then 1 else 0) \<le> length (?all @ ?added)"
  proof (cases "op = Release")
    case True
    then have "i = d" using quiet i by (metis filter.simps(2) list.distinct(1) queue_op_simps(2))
    then have "?r < length ?all" using stage i True by (auto simp: drain_stage_def Cons_replicate_eq)
    then show ?thesis using True by simp
  qed (use r in simp)
  have queue': "st_isr_queue (task_apply env desc op core) =
      drop (?r + (if op = Release then 1 else 0)) (?all @ ?added)"
  proof (cases "op = Release")
    case True
    then show ?thesis using queue by (simp add: task_apply_queue tl_drop [symmetric] drop_Suc del: drop_append)
  next
    case False
    then show ?thesis using queue r drop_append [of ?r ?all ?added] by (simp add: task_apply_queue del: drop_append)
  qed
  have quiet': "\<forall>j < length (rests[i := new @ ops]). j \<noteq> d \<longrightarrow> filter queue_op (rests[i := new @ ops] ! j) = []"
  proof (intro allI impI)
    fix j assume j: "j < length (rests[i := new @ ops])" "j \<noteq> d"
    show "filter queue_op (rests[i := new @ ops] ! j) = []"
    proof (cases "j = i")
      case True
      then have "filter queue_op (op # ops) = []" using quiet j i by (metis length_list_update)
      then have "\<not> queue_op op" "filter queue_op ops = []" by (simp_all split: if_splits)
      moreover from this have "op \<noteq> Drain" by auto
      ultimately show ?thesis using True i isr_next_ops(2) [OF new okop] by simp
    qed (use quiet j in simp)
  qed
  show ?thesis
    unfolding isr_inv_def Let_def all released_snoc
    using d r' queue' wf' ok' quiet' stage' core by simp
qed

text \<open>C13: With one drain task, however it, the interrupt handlers and the other tasks interleave: the
  packets dispatched so far are the first of those the ring buffer has accepted, in the order it accepted
  them and each once; those still in the ring buffer are the rest, but for one that is being dispatched.
  So once the ring buffer is empty, every accepted packet has been dispatched.\<close>

theorem isr_packets_in_order:
  assumes "task_runs env m desc progs st0 ops s" and "d < length progs"
    and "\<forall>i < length progs. \<forall>op \<in> set (progs ! i). call_ok op \<and> isr_op_ok op \<and> (op = Drain \<longrightarrow> i = d)"
    and "list_all (\<lambda>p. dispatchable (Some p)) (st_isr_queue st0)"
    and "arrived = st_isr_queue st0 @ accepted env desc ops st0"
  shows "relayed ops \<in> {take (released ops) arrived, take (Suc (released ops)) arrived} \<and>
     st_isr_queue (tk_core s) = drop (released ops) arrived \<and>
     (st_isr_queue (tk_core s) = [] \<longrightarrow> relayed ops = arrived)"
proof -
  have run: "whole_run env m desc ops (st0, progs) = Some (completed env s, map pc_rest (tk_pcs s))"
    using runs_simulate [OF assms(1)] by (simp add: abstract_state_def)
  have q: "filter queue_op (progs ! i) = filter ((=) Drain) (progs ! i)" if "i < length progs" for i
    using assms(3) that by (intro filter_cong refl) (fastforce simp: queue_op_def split: task_op.splits)
  have "filter queue_op (progs ! d) = replicate (length (filter ((=) Drain) (progs ! d))) Drain"
    using q [OF assms(2)] by (simp add: replicate_length_same)
  then have "drain_stage (st_isr_queue st0) 0 [] (progs ! d)" by (auto simp: drain_stage_def)
  moreover have "filter queue_op (progs ! i) = []" if "i < length progs" "i \<noteq> d" for i
    using q [OF that(1)] assms(3) that by (auto simp: filter_empty_conv)
  moreover have "\<forall>rest \<in> set progs. list_all isr_op_ok rest"
    using assms(3) by (metis in_set_conv_nth list_all_iff)
  ultimately have "isr_inv env desc d st0 [] st0 progs"
    using assms(2,4) by (simp add: isr_inv_def released_def relayed_def map_filter_simps)
  then have "isr_inv env desc d st0 ops (completed env s) (map pc_rest (tk_pcs s))"
    by (rule whole_run_invariant [where P = "isr_inv env desc d st0", OF run]) (rule isr_inv_step)
  then have inv: "drain_stage arrived (released ops) (relayed ops) (map pc_rest (tk_pcs s) ! d)"
    and queue: "st_isr_queue (completed env s) = drop (released ops) arrived"
    unfolding isr_inv_def Let_def assms(5) by blast+
  have "st_isr_queue (completed env s) = st_isr_queue (tk_core s)"
    by (simp add: completed_def split: option.split)
  then show ?thesis using inv queue by (auto simp: drain_stage_def)
qed

end
