(* ===== verification/TasksFinish.thy ===== *)
theory TasksFinish
  imports TasksIsr
begin

text \<open>
  Nobody waits for ever in \<^theory_text>\<open>Tasks\<close>: every interleaving of programs ends, and it ends only when
  all calls are done, but for a drain task that waits for a packet.
\<close>

section \<open>Every step uses up some of the work left\<close>

text \<open>Upper bounds on the steps a packet and an operation take while the table has \<open>n\<close> slots.\<close>

primrec source_weight :: "nat \<Rightarrow> packet_source \<Rightarrow> nat" where
  "source_weight n (Built em) = 3 + n * (2 + length (em_chunks em))"
| "source_weight n (Given p) = 2 + n * 3"

primrec message_weight :: "nat \<Rightarrow> message \<Rightarrow> nat" where
  "message_weight n (Sends ems) = sum_list (map (\<lambda>em. 1 + source_weight n (Built em)) ems)"
| "message_weight n Too_Large = 0"
| "message_weight n Unusable = 0"

primrec op_weight :: "nat \<Rightarrow> task_op \<Rightarrow> nat" where
  "op_weight n (Log_Call level tag msg) = 8 + n * 3 + message_weight n msg"
| "op_weight n (Boot em) = 2 + source_weight n (Built em)"
| "op_weight n (Isr_Call level tag packet) = 4"
| "op_weight n (Dispatch packet) = 10 + n * 6"
| "op_weight n Drain = 12 + n * 6"
| "op_weight n (Set_Level level) = 1"
| "op_weight n (Add_Sink sink ctx) = 1"
| "op_weight n (Remove_Sink sink ctx) = 1"
| "op_weight n Report = 5 + n * 3"
| "op_weight n (Emit src) = 1 + source_weight n src"
| "op_weight n Count_Drop = 1"
| "op_weight n (Enqueue p) = 2"
| "op_weight n Release = 1"

definition ops_weight :: "nat \<Rightarrow> task_op list \<Rightarrow> nat" where
  "ops_weight n ops = sum_list (map (op_weight n) ops)"

lemma ops_weight_simps [simp]:
  "ops_weight n [] = 0" "ops_weight n (op # ops) = op_weight n op + ops_weight n ops"
  "ops_weight n (a @ b) = ops_weight n a + ops_weight n b"
  by (simp_all add: ops_weight_def)

primrec pc_weight :: "nat \<Rightarrow> task_pc \<Rightarrow> nat" where
  "pc_weight n (Ready ops) = ops_weight n ops"
| "pc_weight n (Take_Seq stream src ops) = source_weight (length stream) src + ops_weight n ops"
| "pc_weight n (Read_Clock stream seq em ops) =
     2 + length stream * (2 + length (em_chunks em)) + ops_weight n ops"
| "pc_weight n (Calling evs ops) = 1 + length evs + ops_weight n ops"

definition tasks_weight :: "tasks_state \<Rightarrow> nat" where
  "tasks_weight s = sum_list (map (pc_weight (length (s_sinks (tk_core s)))) (tk_pcs s))"

lemma chunks_events_length: "length (chunks_events stream cs) \<le> length stream * length cs"
  by (induction cs) (auto simp: chunks_events_def)

lemma packet_calls_length: "length (packet_calls stream header cs) \<le> length stream * (2 + length cs)"
  using chunks_events_length [of stream cs] by (simp add: packet_calls_def algebra_simps)

lemma source_weight_mono: "a \<le> b \<Longrightarrow> source_weight a src \<le> source_weight b src"
  by (cases src) (auto intro!: add_mono mult_le_mono)

lemma message_ops_weight: "ops_weight n (message_ops msg) < op_weight n (Log_Call level tag msg)"
  by (cases msg) (simp_all add: message_ops_def ops_weight_def comp_def)

lemma next_ops_weight: "next_ops env m op st = Some new \<Longrightarrow> ops_weight n new < op_weight n op"
  using message_ops_weight
  by (cases op) (auto simp: isr_ops_def dispatch_ops_def report_ops_def dropped_emission_def
      split: option.splits list.splits if_splits bind_splits)

lemma task_apply_table:
  "\<forall>src. op \<noteq> Emit src \<Longrightarrow> length (s_sinks (task_apply env desc op st)) = length (s_sinks st)"
  using sink_table.add_capacity [of desc _ st] sink_table.remove_capacity [of _ st]
  by (cases op) (auto simp: on9log_set_level_def count_dropped_def on9log_port_isr_enqueue_packet_def
      on9log_add_sink_def on9log_remove_sink_def Let_def on9log_port_emit_lock_def on9log_port_emit_unlock_def
      split: option.split)

lemma task_step_weight:
  assumes "task_step env m desc s new s'"
  shows "\<exists>i pc pc'. pc_at s i pc \<and> tk_pcs s' = (tk_pcs s)[i := pc'] \<and>
     length (s_sinks (tk_core s')) = length (s_sinks (tk_core s)) \<and>
     pc_weight (length (s_sinks (tk_core s))) pc' < pc_weight (length (s_sinks (tk_core s))) pc"
  using assms
proof cases
  case (atomic i op ops new_ops)
  show ?thesis
    using atomic next_ops_weight [OF atomic(6)] task_apply_table [OF atomic(4)]
    by (intro exI [of _ i] exI [of _ "Ready (op # ops)"] exI [of _ "Ready (new_ops @ ops)"]) simp
next
  case (stream_open i src ops stream core)
  then have "length stream \<le> length (s_sinks (tk_core s))" and s: "s_sinks core = s_sinks (tk_core s)"
    using capture_length by (auto simp: on9log_stream_open_def on9log_port_emit_lock_def)
  then have "pc_weight (length (s_sinks (tk_core s))) (Take_Seq stream src ops) <
      pc_weight (length (s_sinks (tk_core s))) (Ready (Emit src # ops))"
    by (simp add: source_weight_mono less_Suc_eq_le)
  then show ?thesis using stream_open(2,3) s
    by (intro exI [of _ i] exI [of _ "Ready (Emit src # ops)"] exI [of _ "Take_Seq stream src ops"]) simp
next
  case (take_seq i stream em ops)
  then show ?thesis by force
next
  case (restamp_header i stream p ops)
  then show ?thesis using packet_calls_length [of stream _ "given_chunks p"]
    by (force simp: given_chunks_def next_given_def less_Suc_eq_le)
next
  case (clock i stream seq em ops ms core)
  then show ?thesis using packet_calls_length [of stream _ "em_chunks em"]
    by (force simp: read_clock_def less_Suc_eq_le)
next
  case (callback i ev evs ops)
  then show ?thesis by (force simp: observe_def)
next
  case (unlock i ops)
  then show ?thesis by (force simp: on9log_port_emit_unlock_def observe_def)
qed

lemma task_step_lighter: "task_step env m desc s new s' \<Longrightarrow> tasks_weight s' < tasks_weight s"
  using task_step_weight [of env m desc s new s'] sum_list_update_less
  by (fastforce simp: tasks_weight_def pc_at_def)

section \<open>Somebody can go on\<close>

text \<open>The tags are read through the filter list, which no step here changes.\<close>

lemma task_apply_filters:
  "s_tag_filters (task_apply env desc op st) = s_tag_filters st \<and>
     s_active_tag_filter_count (task_apply env desc op st) = s_active_tag_filter_count st"
proof (cases op)
  case (Emit src)
  then show ?thesis
    by (cases src) (simp_all add: emit_packet_events relay_packet_events next_given_def next_header_def observe_def)
qed (auto simp: on9log_set_level_def count_dropped_def on9log_port_isr_enqueue_packet_def on9log_add_sink_def
    on9log_remove_sink_def Let_def on9log_port_emit_lock_def on9log_port_emit_unlock_def observe_def split: option.split)

lemma whole_run_filters:
  "whole_run env m desc ls (st, progs) = Some (st', rests) \<Longrightarrow>
     s_tag_filters st' = s_tag_filters st \<and> s_active_tag_filter_count st' = s_active_tag_filter_count st"
  by (rule whole_run_invariant [where P = "\<lambda>done core rests. s_tag_filters core = s_tag_filters st \<and>
        s_active_tag_filter_count core = s_active_tag_filter_count st"])
    (simp_all add: task_apply_filters)

definition tag_readable :: "mem \<Rightarrow> on9log_state \<Rightarrow> task_op \<Rightarrow> bool" where
  "tag_readable m st op \<longleftrightarrow>
     (case op of
        Log_Call level tag msg \<Rightarrow> on9log_filter_level_for_tag m st tag \<noteq> None
      | Isr_Call level tag packet \<Rightarrow> on9log_filter_level_for_tag m st tag \<noteq> None
      | _ \<Rightarrow> True)"

text \<open>Only an empty ring buffer keeps an operation from taking effect.\<close>

lemma next_ops_ready:
  assumes "tag_readable m st0 op" and "s_tag_filters st = s_tag_filters st0"
    and "s_active_tag_filter_count st = s_active_tag_filter_count st0"
    and "next_ops env m op st = None"
  shows "op = Drain \<and> st_isr_queue st = []"
proof -
  have "on9log_level_enabled env m st level tag \<noteq> None"
    if "on9log_filter_level_for_tag m st0 tag \<noteq> None" for level tag
  proof -
    have "\<exists>l. on9log_filter_level_for_tag m st tag = Some l"
      using assms(2,3) that by (auto simp: on9log_filter_level_for_tag_def split: if_splits bind_splits)
    then show ?thesis by (auto simp: on9log_level_enabled_def)
  qed
  then have unreadable: "on9log_filter_level_for_tag m st0 tag = None" if "on9log_level_enabled env m st level tag = None"
    for level tag using that by blast
  show ?thesis using assms(1,4)
    by (cases op) (auto simp: tag_readable_def bind_eq_None_conv dest: unreadable split: list.splits)
qed

lemma busy_steps:
  assumes "pc_at s i pc" and "busy pc"
  shows "\<exists>new s'. task_step env m desc s new s'"
proof (cases pc)
  case (Take_Seq stream src ops)
  then show ?thesis using assms(1) task_step.take_seq task_step.restamp_header by (cases src) blast+
next
  case (Read_Clock stream seq em ops)
  then show ?thesis using assms(1) task_step.clock by (cases "read_clock env (tk_core s)") blast
next
  case (Calling evs ops)
  then show ?thesis using assms(1) task_step.callback task_step.unlock by (cases evs) blast+
qed (use assms(2) in simp)

lemma ready_steps:
  assumes "pc_at s i (Ready (op # ops))" and "tk_owner s = None" and "next_ops env m op (tk_core s) = Some new"
  shows "\<exists>new s'. task_step env m desc s new s'"
proof (cases "\<exists>src. op = Emit src")
  case True
  then show ?thesis using assms(1,2) task_step.stream_open by (cases "on9log_stream_open (tk_core s)") blast
next
  case False
  then show ?thesis using assms task_step.atomic [of s i op ops desc env m new] by blast
qed

text \<open>C25: No task waits for ever. There is no endless interleaving, and as long as a task has something
  left to do, some task can make a step, but for a drain task whose ring buffer is empty.\<close>

theorem tasks_finish:
  assumes "task_runs env m desc progs st0 ops s" and "\<forall>calls \<in> set progs. list_all (tag_readable m st0) calls"
  shows "wfp (\<lambda>s'' s'. \<exists>new. task_step env m desc s' new s'') \<and>
     ((\<forall>pc \<in> set (tk_pcs s). pc = Ready [] \<or> (\<exists>rest. pc = Ready (Drain # rest)) \<and> st_isr_queue (tk_core s) = []) \<or>
      (\<exists>new s'. task_step env m desc s new s'))"
proof (intro conjI disjCI)
  show "wfp (\<lambda>s'' s'. \<exists>new. task_step env m desc s' new s'')"
    by (rule wfp_if_convertible_to_nat [of _ tasks_weight]) (auto dest: task_step_lighter)
  assume stuck: "\<not> (\<exists>new s'. task_step env m desc s new s')"
  have ok: "tasks_ok s" and run: "whole_run env m desc ops (st0, progs) = Some (completed env s, map pc_rest (tk_pcs s))"
    using runs_simulate [OF assms(1)] by (simp_all add: abstract_state_def)
  have free: "tk_owner s = None"
    using ok busy_steps [of s] stuck by (cases "tk_owner s") (auto simp: tasks_ok_def pc_at_def)
  have filters: "s_tag_filters (tk_core s) = s_tag_filters st0"
    "s_active_tag_filter_count (tk_core s) = s_active_tag_filter_count st0"
    using whole_run_filters [OF run] completed_free [OF free] by simp_all
  show "\<forall>pc \<in> set (tk_pcs s). pc = Ready [] \<or> (\<exists>rest. pc = Ready (Drain # rest)) \<and> st_isr_queue (tk_core s) = []"
  proof
    fix pc assume "pc \<in> set (tk_pcs s)"
    then obtain i where i: "i < length (tk_pcs s)" "tk_pcs s ! i = pc" by (auto simp: in_set_conv_nth)
    then obtain rest where pc: "pc = Ready rest" using ok free by (cases pc) (force simp: tasks_ok_def)+
    show "pc = Ready [] \<or> (\<exists>rest. pc = Ready (Drain # rest)) \<and> st_isr_queue (tk_core s) = []"
    proof (cases rest)
      case (Cons op others)
      have "next_ops env m op (tk_core s) = None"
        using ready_steps [of s i op others env m] stuck free i pc Cons
        by (cases "next_ops env m op (tk_core s)") (auto simp: pc_at_def)
      moreover have "derived_op op \<or> op \<in> set (progs ! i)" and "i < length progs"
        using whole_run_calls [OF run] i pc Cons by (auto simp: nth_map)
      moreover have "tag_readable m st0 op" if "derived_op op"
        using that by (cases op) (simp_all add: derived_op_def tag_readable_def)
      moreover have "tag_readable m st0 op" if "op \<in> set (progs ! i)" "i < length progs"
        using assms(2) that nth_mem by (auto simp: list_all_iff)
      ultimately show ?thesis using next_ops_ready [OF _ filters] pc Cons by blast
    qed (use pc in simp)
  qed
qed

end
