(* ===== verification/TasksDemo.thy ===== *)
theory TasksDemo
  imports TasksFinish
begin

text \<open>
  Executing a schedule of the tasks of \<^theory_text>\<open>Tasks\<close>, and the theorems on interleavings applied to
  one: four tasks that log, drop, relay an ISR packet and wait for each other's emissions.
\<close>

section \<open>A schedule, executed\<close>

text \<open>The step of task \<open>i\<close>, if it can make one.\<close>

definition task_next ::
    "on9log_env \<Rightarrow> mem \<Rightarrow> (addr \<Rightarrow> on9log_sink_desc) \<Rightarrow> nat \<Rightarrow> tasks_state \<Rightarrow>
       ((nat \<times> task_op) list \<times> tasks_state) option" where
  "task_next env m desc i s =
     (let core = tk_core s
      in if \<not> i < length (tk_pcs s) then None
         else case tk_pcs s ! i of
           Ready [] \<Rightarrow> None
         | Ready (op # ops) \<Rightarrow>
             (if needs_lock desc op \<and> tk_owner s \<noteq> None then None
              else case op of
                Emit src \<Rightarrow>
                  (case on9log_stream_open core of (stream, core) \<Rightarrow>
                     Some ([(i, op)], goes i (Take_Seq stream src ops) core (s\<lparr>tk_owner := Some i\<rparr>)))
              | _ \<Rightarrow>
                  (case next_ops env m op core of
                     None \<Rightarrow> None
                   | Some new \<Rightarrow> Some ([(i, op)], goes i (Ready (new @ ops)) (task_apply env desc op core) s)))
         | Take_Seq stream src ops \<Rightarrow>
             (case src of
                Built em \<Rightarrow>
                  Some ([], goes i (Read_Clock stream (s_seq core) em ops) (core\<lparr>s_seq := s_seq core + 1\<rparr>) s)
              | Given p \<Rightarrow>
                  Some ([], goes i (Calling (packet_calls stream (given_header (s_seq core) p) (given_chunks p)) ops)
                              (next_given p core) s))
         | Read_Clock stream seq em ops \<Rightarrow>
             (case read_clock env core of (ms, core) \<Rightarrow>
                Some ([], goes i (Calling (packet_calls stream (em_header em seq ms) (em_chunks em)) ops) core s))
         | Calling [] ops \<Rightarrow>
             Some ([], goes i (Ready ops) (on9log_port_emit_unlock core) (s\<lparr>tk_owner := None\<rparr>))
         | Calling (ev # evs) ops \<Rightarrow> Some ([], goes i (Calling evs ops) (observe [ev] core) s))"

lemma task_next_ready:
  assumes "task_next env m desc i s = Some (new, s')" and at: "pc_at s i (Ready (op # ops))"
  shows "task_step env m desc s new s'"
proof (cases "\<exists>src. op = Emit src")
  case True
  then show ?thesis using assms task_step.stream_open [of s i _ ops]
    by (auto simp: task_next_def pc_at_def Let_def split: prod.splits if_splits)
next
  case False
  then have "needs_lock desc op \<longrightarrow> tk_owner s = None"
    and "\<exists>more. next_ops env m op (tk_core s) = Some more \<and> new = [(i, op)] \<and>
      s' = goes i (Ready (more @ ops)) (task_apply env desc op (tk_core s)) s"
    using assms by (auto simp: task_next_def pc_at_def Let_def split: if_splits task_op.splits option.splits)
  then show ?thesis using task_step.atomic [OF at] False by blast
qed

lemma task_next_sound:
  assumes "task_next env m desc i s = Some (new, s')"
  shows "task_step env m desc s new s'"
proof -
  have "i < length (tk_pcs s)" using assms by (auto simp: task_next_def Let_def split: if_splits)
  then have at: "pc_at s i (tk_pcs s ! i)" by (simp add: pc_at_def)
  show ?thesis
  proof (cases "tk_pcs s ! i")
    case (Ready ops)
    then show ?thesis using assms at task_next_ready
      by (cases ops) (auto simp: task_next_def Let_def split: if_splits)
  next
    case (Take_Seq stream src ops)
    then show ?thesis using assms at task_step.take_seq [of s i stream _ ops] task_step.restamp_header [of s i stream _ ops]
      by (cases src) (auto simp: task_next_def Let_def split: if_splits)
  next
    case (Read_Clock stream seq em ops)
    then show ?thesis using assms at task_step.clock [of s i stream seq em ops]
      by (auto simp: task_next_def Let_def split: if_splits prod.splits)
  next
    case (Calling evs ops)
    then show ?thesis using assms at task_step.callback [of s i _ _ ops] task_step.unlock [of s i ops]
      by (cases evs) (auto simp: task_next_def Let_def split: if_splits)
  qed
qed

primrec run_schedule ::
    "on9log_env \<Rightarrow> mem \<Rightarrow> (addr \<Rightarrow> on9log_sink_desc) \<Rightarrow> nat list \<Rightarrow> (nat \<times> task_op) list \<times> tasks_state \<Rightarrow>
       ((nat \<times> task_op) list \<times> tasks_state) option" where
  "run_schedule env m desc [] r = Some r"
| "run_schedule env m desc (i # is) r =
     (case task_next env m desc i (snd r) of
        None \<Rightarrow> None
      | Some (new, s) \<Rightarrow> run_schedule env m desc is (fst r @ new, s))"

lemma run_schedule_runs:
  "task_runs env m desc progs st0 (fst r) (snd r) \<Longrightarrow> run_schedule env m desc is r = Some (ops, s) \<Longrightarrow>
     task_runs env m desc progs st0 ops s"
proof (induction "is" arbitrary: r)
  case (Cons i "is")
  then obtain new s1 where "task_next env m desc i (snd r) = Some (new, s1)"
    "run_schedule env m desc is (fst r @ new, s1) = Some (ops, s)"
    by (auto split: option.splits prod.splits)
  then show ?case using Cons.IH [of "(fst r @ new, s1)"] Cons.prems(1)
      task_runs.step [OF _ task_next_sound, of env m desc progs st0 "fst r" "snd r" i new s1] by simp
qed simp

text \<open>
  Four tasks: one sends a message; one has a message that does not fit, changes the level and sends
  another; one is an interrupt handler; one drains the ring buffer. The second waits for the lock while
  the first is in its emission, and counts its drop meanwhile.
\<close>

definition demo_emission :: "u32 \<Rightarrow> emission" where
  "demo_emission fmt =
     \<lparr>em_type = ON9LOG_PKT_LOG, em_level = 3, em_tag_id = 64, em_fmt_id = fmt, em_len = 1,
      em_chunks = [([0], 0, ON9LOG_PAYLOAD_META_ARG_INDEX)]\<rparr>"

definition demo_progs :: "task_op list list" where
  "demo_progs =
     [[Log_Call 3 64 (Sends [demo_emission 128])],
      [Log_Call 3 64 Too_Large, Set_Level 4, Log_Call 3 64 (Sends [demo_emission 256])],
      [Isr_Call 3 64 (Some demo_packet)],
      [Drain]]"

definition demo_tasks :: "nat list \<Rightarrow> ((nat \<times> task_op) list \<times> tasks_state) option" where
  "demo_tasks sched =
     run_schedule isr_demo_env (\<lambda>_. None) full_desc sched
       ([], \<lparr>tk_core = one_sink_state, tk_owner = None, tk_pcs = map Ready demo_progs\<rparr>)"

definition demo_schedule :: "nat list" where
  "demo_schedule =
     [0, 1, 0, 0, 1, 0, 2, 1, 0, 2, 1, 3, 0, 1, 0, 1, 0, 0,
      3, 3, 3, 3, 3, 3, 3, 3,
      1, 1, 1, 1, 1, 1, 1, 1, 1, 1, 1, 1, 1, 1]"

lemmas run_simps = task_next_def goes_def message_ops_def report_ops_def isr_ops_def dispatch_ops_def Let_def
  count_dropped_def on9log_stream_open_def on9log_port_emit_lock_def on9log_port_emit_unlock_def
  read_clock_def packet_calls_def chunks_events_def observe_def on9log_set_level_def on9log_valid_level_def
  on9log_level_enabled_def on9log_filter_level_for_tag_def on9log_port_isr_enqueue_packet_def
  given_chunks_def next_given_def keeps_seq_def

lemma demo_packet_facts [simp]:
  "length demo_packet = 19" "demo_packet ! 0 = ON9LOG_PACKET_MAGIC" "drop HEADER_SIZE demo_packet = [0]"
  "drop_bit 4 (take HEADER_SIZE demo_packet ! 1) = (0 :: u8)"
  by (simp_all add: demo_packet_def header_bytes_def)


lemma demo_tasks_end:
  "\<exists>ops s. demo_tasks demo_schedule = Some (ops, s) \<and> tk_owner s = None \<and> list_all (\<lambda>pc. pc = Ready []) (tk_pcs s) \<and>
     list_all (\<lambda>(i, op). op \<noteq> Remove_Sink 16 0) ops \<and> length (emitted ops) = 4 \<and> counted ops = 1 \<and>
     relayed ops = [demo_packet] \<and> released ops = 1"
  by (simp add: demo_tasks_def demo_schedule_def run_simps demo_progs_def demo_emission_def dropped_emission_def
      one_sink_state_def on9log_initial_state_def on9log_default_env_def isr_demo_env_def le_bytes_Nil
      emitted_def counted_def relayed_def released_def map_filter_simps)

lemma demo_runs:
  obtains ops s where "task_runs isr_demo_env (\<lambda>_. None) full_desc demo_progs one_sink_state ops s"
    and "tk_owner s = None" and "list_all (\<lambda>(i, op). op \<noteq> Remove_Sink 16 0) ops" and "length (emitted ops) = 4"
    and "counted ops = 1" and "relayed ops = [demo_packet]" and "released ops = 1"
proof -
  obtain ops s where r: "demo_tasks demo_schedule = Some (ops, s)" "tk_owner s = None"
    "list_all (\<lambda>(i, op). op \<noteq> Remove_Sink 16 0) ops" "length (emitted ops) = 4" "counted ops = 1"
    "relayed ops = [demo_packet]" "released ops = 1"
    using demo_tasks_end by blast
  have "task_runs isr_demo_env (\<lambda>_. None) full_desc demo_progs one_sink_state ops s"
    by (rule run_schedule_runs [OF _ r(1) [unfolded demo_tasks_def]]) (simp add: task_runs.start)
  then show ?thesis using r(2-) by (rule that)
qed

theorem tasks_are_sequential_witness:
  "\<exists>ops (s :: tasks_state). length (emitted ops) = 4 \<and> counted ops = 1 \<and>
     whole_run isr_demo_env (\<lambda>_. None) full_desc ops (one_sink_state, demo_progs) =
       Some (tk_core s, map pc_rest (tk_pcs s))"
proof (rule demo_runs)
  fix ops s
  assume r: "task_runs isr_demo_env (\<lambda>_. None) full_desc demo_progs one_sink_state ops s"
    and "tk_owner s = None" "length (emitted ops) = 4" "counted ops = 1"
  then show ?thesis using tasks_are_sequential [OF r] by blast
qed

theorem concurrent_packets_in_order_witness:
  "\<exists>ops (s :: tasks_state). length (emitted ops) = 4 \<and>
     sink_packets \<lparr>se_sink = 16, se_ctx = 0\<rparr> (st_events (tk_core s)) =
     sink_packets \<lparr>se_sink = 16, se_ctx = 0\<rparr> (st_events one_sink_state) @
       numbered isr_demo_env (s_seq one_sink_state) (st_clock one_sink_state) (emitted ops)"
proof (rule demo_runs)
  fix ops s
  assume r: "task_runs isr_demo_env (\<lambda>_. None) full_desc demo_progs one_sink_state ops s"
    and "tk_owner s = None" "length (emitted ops) = 4" "list_all (\<lambda>(i, op). op \<noteq> Remove_Sink 16 0) ops"
  moreover have "sink_idle \<lparr>se_sink = 16, se_ctx = 0\<rparr> (st_events one_sink_state)"
    and "\<lparr>se_sink = 16, se_ctx = 0\<rparr> \<in> set (registered one_sink_state)"
    by (simp_all add: one_sink_state_def on9log_initial_state_def registered_def)
  ultimately show ?thesis
    using concurrent_packets_in_order [OF r _ one_sink_ok, of "\<lparr>se_sink = 16, se_ctx = 0\<rparr>"]
    by (auto simp: list_all_iff)
qed

theorem drops_are_told_once_witness:
  "\<exists>ops (s :: tasks_state). counted ops = 1 \<and>
     to_tell (map snd ops) + sum_list (map (to_tell \<circ> pc_rest) (tk_pcs s)) + s_dropped_count (tk_core s) =
     s_dropped_count one_sink_state + of_nat (counted ops)"
proof (rule demo_runs)
  fix ops s
  assume r: "task_runs isr_demo_env (\<lambda>_. None) full_desc demo_progs one_sink_state ops s"
    and "counted ops = 1"
  moreover have "\<forall>calls \<in> set demo_progs. list_all call_ok calls"
    by (simp add: demo_progs_def demo_emission_def)
  ultimately show ?thesis using drops_are_told_once [OF r] by blast
qed

lemma demo_isr_progs:
  assumes "i < length demo_progs"
  shows "\<forall>op \<in> set (demo_progs ! i). call_ok op \<and> isr_op_ok op \<and> (op = Drain \<longrightarrow> i = 3)"
proof -
  have "dispatchable (Some demo_packet)" by (simp add: dispatchable_def)
  moreover have "i = 0 \<or> i = 1 \<or> i = 2 \<or> i = 3" using assms by (auto simp: demo_progs_def)
  ultimately show ?thesis
    by (elim disjE) (simp_all add: demo_progs_def demo_emission_def isr_op_ok_def)
qed

theorem isr_packets_in_order_witness:
  "\<exists>ops (s :: tasks_state). relayed ops = [demo_packet] \<and>
     st_isr_queue (tk_core s) = drop (released ops) (accepted isr_demo_env full_desc ops one_sink_state)"
proof (rule demo_runs)
  fix ops s
  assume r: "task_runs isr_demo_env (\<lambda>_. None) full_desc demo_progs one_sink_state ops s"
    and relayed: "relayed ops = [demo_packet]"
  have q: "st_isr_queue one_sink_state = []" by (simp add: one_sink_state_def on9log_initial_state_def)
  have d: "3 < length demo_progs" by (simp add: demo_progs_def)
  have "list_all (\<lambda>p. dispatchable (Some p)) (st_isr_queue one_sink_state)" by (simp add: q)
  from isr_packets_in_order [OF r d _ this refl] demo_isr_progs
  have "st_isr_queue (tk_core s) =
      drop (released ops) (st_isr_queue one_sink_state @ accepted isr_demo_env full_desc ops one_sink_state)" by blast
  then have "st_isr_queue (tk_core s) = drop (released ops) (accepted isr_demo_env full_desc ops one_sink_state)"
    by (simp only: q append_Nil)
  then show ?thesis using relayed by blast
qed

theorem tasks_finish_witness:
  "(\<forall>pc \<in> set (map Ready demo_progs). pc = Ready [] \<or>
       (\<exists>rest. pc = Ready (Drain # rest)) \<and> st_isr_queue one_sink_state = []) \<or>
     (\<exists>new s'. task_step isr_demo_env (\<lambda>_. None) full_desc
        \<lparr>tk_core = one_sink_state, tk_owner = None, tk_pcs = map Ready demo_progs\<rparr> new s')"
proof -
  have "\<forall>calls \<in> set demo_progs. list_all (tag_readable (\<lambda>_. None) one_sink_state) calls"
    by (simp add: demo_progs_def tag_readable_def on9log_filter_level_for_tag_def one_sink_state_def
        on9log_initial_state_def)
  from tasks_finish [OF task_runs.start this, of isr_demo_env full_desc] show ?thesis by simp
qed

end
