(* ===== verification/EspBatches.thy ===== *)
theory EspBatches
  imports EspCorrect
begin

text \<open>
  The \<open>write()\<close> calls of a frame, exactly: the batching writer hands every output the frame in
  pieces of 128 bytes, one output after the other for each piece.
\<close>

section \<open>Batches\<close>

function batches :: "bytes \<Rightarrow> bytes list" where
  "batches data = (if data = [] then [] else take 128 data # batches (drop 128 data))"
  by pat_completeness auto
termination
  by (relation "measure length") auto

declare batches.simps [simp del]

lemma batches_Nil [simp]: "batches [] = []"
  by (subst batches.simps) simp

lemma batches_short: "data \<noteq> [] \<Longrightarrow> length data \<le> 128 \<Longrightarrow> batches data = [data]"
  by (subst batches.simps) simp

lemma batches_not_Nil: "data \<noteq> [] \<Longrightarrow> batches data \<noteq> []"
  by (subst batches.simps) simp

lemma concat_batches: "concat (batches data) = data"
proof (induction data rule: batches.induct)
  case (1 data)
  then show ?case by (subst batches.simps) simp
qed

lemma batches_length: "b \<in> set (batches data) \<Longrightarrow> b \<noteq> [] \<and> length b \<le> 128"
proof (induction data rule: batches.induct)
  case (1 data)
  then show ?case using batches.simps [of data] set_take_subset by (auto split: if_splits)
qed

text \<open>What more bytes do to the batches: they fill the last one, or begin another.\<close>

lemma batches_append:
  assumes "data \<noteq> []" and "chunk \<noteq> []" and "length (last (batches data)) + length chunk \<le> 128"
  shows "batches (data @ chunk) = butlast (batches data) @ [last (batches data) @ chunk]"
  using assms(1,3)
proof (induction data rule: batches.induct)
  case (1 data)
  show ?case
  proof (cases "length data \<le> 128")
    case True
    then have "batches data = [data]" using 1(2) batches_short by blast
    then show ?thesis using 1(3) by (simp add: batches_short 1(2))
  next
    case False
    then have "drop 128 data \<noteq> []" by simp
    moreover have b: "batches data = take 128 data # batches (drop 128 data)"
      using 1(2) by (subst batches.simps) simp
    ultimately have "batches (drop 128 data @ chunk) =
        butlast (batches (drop 128 data)) @ [last (batches (drop 128 data)) @ chunk]"
      using 1 batches_not_Nil by simp
    moreover have "batches (data @ chunk) = take 128 data # batches (drop 128 data @ chunk)"
      using 1(2) False by (subst batches.simps) simp
    ultimately show ?thesis using b batches_not_Nil [OF \<open>drop 128 data \<noteq> []\<close>] by simp
  qed
qed

lemma batches_append_full:
  assumes "data \<noteq> []" and "chunk \<noteq> []" and "length (last (batches data)) = 128" and "length chunk \<le> 128"
  shows "batches (data @ chunk) = batches data @ [chunk]"
  using assms(1,3)
proof (induction data rule: batches.induct)
  case (1 data)
  show ?case
  proof (cases "length data \<le> 128")
    case True
    then have "batches data = [data]" using 1(2) batches_short by blast
    moreover from this have "batches (data @ chunk) = data # batches chunk"
      using 1(2,3) by (subst batches.simps) simp
    ultimately show ?thesis using assms(2,4) by (simp add: batches_short)
  next
    case False
    then have d: "drop 128 data \<noteq> []" by simp
    have b: "batches data = take 128 data # batches (drop 128 data)"
      using 1(2) by (subst batches.simps) simp
    have "batches (data @ chunk) = take 128 data # batches (drop 128 data @ chunk)"
      using 1(2) False by (subst batches.simps) simp
    then show ?thesis using 1 d b batches_not_Nil [OF d] by simp
  qed
qed

section \<open>The writer by its batches\<close>

primrec write_batches ::
    "write_fn \<Rightarrow> int list \<Rightarrow> bytes list \<Rightarrow> bool \<Rightarrow> esp_stdio_log_vfs_t \<Rightarrow> (bool \<times> esp_stdio_log_vfs_t) option" where
  "write_batches w fds [] ok st = Some (ok, st)"
| "write_batches w fds (b # bs) ok st =
     do { (ok, st) \<leftarrow> write_outputs w fds b ok st; write_batches w fds bs ok st }"

lemma write_batches_append:
  "write_batches w fds (a @ b) ok st =
     do { (ok, st) \<leftarrow> write_batches w fds a ok st; write_batches w fds b ok st }"
  by (induction a arbitrary: ok st) (auto split: bind_split)

text \<open>Whatever the system does, writing changes only what the outside has taken.\<close>

lemma write_all_io_step: "esp_stdio_log_vfs_write_all w fd data st = Some r \<Longrightarrow> io_step st (snd r)"
proof (induction rule: esp_stdio_log_vfs_write_all.raw_induct [rotated, consumes 1, case_names call])
  case (call write_all w fd data st out)
  have "io_step st (snd out)" if "write_all w fd d (note_write fd bs st) = Some out" for d bs
    using call(1) [OF that] io_step_trans [OF io_step_note] by blast
  then show ?case using call(2) by (auto split: if_splits write_result.splits)
qed

lemma write_outputs_io_step: "write_outputs w fds data ok st = Some (ok', st') \<Longrightarrow> io_step st st'"
  by (induction fds arbitrary: ok st)
    (auto split: if_splits bind_splits dest: write_all_io_step intro: io_step_trans)

lemma write_batches_io_step: "write_batches w fds bs ok st = Some (ok', st') \<Longrightarrow> io_step st st'"
  by (induction bs arbitrary: ok st)
    (auto split: bind_splits dest: write_outputs_io_step intro: io_step_trans)

lemma write_outputs_returns: "write_ok w \<Longrightarrow> \<exists>r. write_outputs w fds data ok st = Some r"
proof (induction fds arbitrary: ok st)
  case (Cons fd fds)
  then show ?case using write_all_result [OF Cons.prems, of fd data st] by auto
qed simp

lemma write_batches_returns: "write_ok w \<Longrightarrow> \<exists>r. write_batches w fds bs ok st = Some r"
proof (induction bs arbitrary: ok st)
  case (Cons b bs)
  obtain ok1 st1 where "write_outputs w fds b ok st = Some (ok1, st1)"
    using write_outputs_returns [OF Cons.prems] by fastforce
  then show ?case using Cons by simp
qed simp

text \<open>
  The writer when it has been given \<open>data\<close>: all batches but the last have been written, the last is
  still in the buffer.
\<close>

definition buffers :: "write_fn \<Rightarrow> esp_stdio_log_vfs_t \<Rightarrow> bytes \<Rightarrow> fw_state \<Rightarrow> bool" where
  "buffers w st data s \<longleftrightarrow>
     write_batches w (take (output_count st) (outputs st)) (butlast (batches data)) True st =
       Some (fw_ok (fst s), snd s) \<and>
     length (fw_bytes (fst s)) = 128 \<and> fw_len (fst s) \<le> 128 \<and>
     take (fw_len (fst s)) (fw_bytes (fst s)) = (if data = [] then [] else last (batches data))"

lemma buffers_len:
  "buffers w st data s \<Longrightarrow> fw_len (fst s) = (if data = [] then 0 else length (last (batches data)))"
proof -
  assume "buffers w st data s"
  then have "length (take (fw_len (fst s)) (fw_bytes (fst s))) = length (if data = [] then [] else last (batches data))"
    and "fw_len (fst s) \<le> length (fw_bytes (fst s))"
    unfolding buffers_def by (simp_all only:)
  then show ?thesis by (auto split: if_splits)
qed

lemma buffers_outputs:
  "buffers w st data s \<Longrightarrow> take (output_count (snd s)) (outputs (snd s)) = take (output_count st) (outputs st)"
  using write_batches_io_step by (fastforce simp: buffers_def io_step_def)

lemma flush_batches:
  assumes "write_ok w" and "buffers w st data s"
  shows "\<exists>s'. esp_stdio_log_vfs_frame_writer_flush w s = Some s' \<and>
     write_batches w (take (output_count st) (outputs st)) (batches data) True st = Some (fw_ok (fst s'), snd s') \<and>
     length (fw_bytes (fst s')) = 128 \<and> fw_len (fst s') = 0"
proof (cases "data = []")
  case True
  then show ?thesis using assms(2) buffers_len [OF assms(2)]
    by (cases s) (simp add: esp_stdio_log_vfs_frame_writer_flush_def buffers_def)
next
  case False
  let ?fds = "take (output_count st) (outputs st)"
  have b: "batches data = butlast (batches data) @ [last (batches data)]"
    using batches_not_Nil [OF False] by simp
  have "fw_len (fst s) \<noteq> 0"
    using buffers_len [OF assms(2)] False batches_length [OF last_in_set [OF batches_not_Nil [OF False]]] by simp
  moreover obtain ok' st' where "write_outputs w ?fds (last (batches data)) (fw_ok (fst s)) (snd s) = Some (ok', st')"
    using write_outputs_returns [OF assms(1)] by fastforce
  ultimately show ?thesis using assms(2) False buffers_outputs [OF assms(2)]
    by (subst b) (cases s, simp add: esp_stdio_log_vfs_frame_writer_flush_def buffers_def write_batches_append)
qed

lemma put_raw_batches:
  assumes w: "write_ok w"
  shows "buffers w st data s \<Longrightarrow>
     \<exists>s'. esp_stdio_log_vfs_frame_writer_put_raw w rest s = Some s' \<and> buffers w st (data @ rest) s'"
proof (induction "length rest" arbitrary: data rest s rule: less_induct)
  case less
  show ?case
  proof (cases "rest = []")
    case True
    then show ?thesis using less.prems by (subst esp_stdio_log_vfs_frame_writer_put_raw.simps) simp
  next
    case False
    obtain s1 where s1: "(if fw_len (fst s) = 128 then esp_stdio_log_vfs_frame_writer_flush w s else Some s) = Some s1"
      and room: "fw_len (fst s1) < 128"
      and buf: "\<And>chunk. chunk \<noteq> [] \<Longrightarrow> fw_len (fst s1) + length chunk \<le> 128 \<Longrightarrow>
        buffers w st (data @ chunk) (fw_store chunk (fst s1), snd s1)"
    proof (cases "fw_len (fst s) = 128")
      case True
      then have d: "data \<noteq> []" "length (last (batches data)) = 128"
        using buffers_len [OF less.prems] by (auto split: if_splits)
      obtain s1 where "esp_stdio_log_vfs_frame_writer_flush w s = Some s1"
        "write_batches w (take (output_count st) (outputs st)) (batches data) True st = Some (fw_ok (fst s1), snd s1)"
        "length (fw_bytes (fst s1)) = 128" "fw_len (fst s1) = 0"
        using flush_batches [OF w less.prems] by blast
      then show ?thesis using True d batches_append_full [OF d(1) _ d(2)]
        by (intro that) (auto simp: buffers_def fw_store_def)
    next
      case False
      then show ?thesis using less.prems buffers_len [OF less.prems]
        by (intro that) (auto simp: buffers_def fw_store_def batches_append batches_short split: if_splits)
    qed
    let ?k = "128 - fw_len (fst s1)"
    let ?s2 = "(fw_store (take ?k rest) (fst s1), snd s1)"
    have "buffers w st (data @ take ?k rest) ?s2" using room False by (intro buf) auto
    moreover have "length (drop ?k rest) < length rest" using room False by (cases rest) auto
    ultimately obtain s' where "esp_stdio_log_vfs_frame_writer_put_raw w (drop ?k rest) ?s2 = Some s'"
      and "buffers w st ((data @ take ?k rest) @ drop ?k rest) s'"
      using less.hyps by blast
    then show ?thesis using s1 False
      by (subst esp_stdio_log_vfs_frame_writer_put_raw.simps) (simp add: Let_def)
  qed
qed

lemma put_slip_byte_batches:
  "write_ok w \<Longrightarrow> buffers w st data s \<Longrightarrow>
     \<exists>s'. esp_stdio_log_vfs_frame_writer_put_slip_byte w b s = Some s' \<and> buffers w st (data @ slip_escape b) s'"
  unfolding esp_stdio_log_vfs_frame_writer_put_slip_byte_def slip_escape_def
    esp_stdio_log_vfs_frame_writer_put_raw_byte_def
  using put_raw_batches by auto

lemma put_slip_batches:
  "write_ok w \<Longrightarrow> buffers w st data s \<Longrightarrow>
     \<exists>s'. esp_stdio_log_vfs_frame_writer_put_slip w bs s = Some s' \<and>
       buffers w st (data @ concat (map slip_escape bs)) s'"
proof (induction bs arbitrary: data s)
  case (Cons b bs)
  obtain s1 where s1: "esp_stdio_log_vfs_frame_writer_put_slip_byte w b s = Some s1"
    "buffers w st (data @ slip_escape b) s1" using put_slip_byte_batches [OF Cons.prems] by blast
  then show ?case using Cons.IH [OF Cons.prems(1) s1(2)] by simp
qed simp

section \<open>A frame by its batches\<close>

definition frame_batches :: "u8 \<Rightarrow> bytes \<Rightarrow> bytes list" where
  "frame_batches ty bs = batches (slip_frame ty bs)"

lemma write_frame_batches:
  assumes w: "write_ok w" and "length bs \<le> 3072" and "s_transport_owner st \<noteq> self"
  shows "esp_stdio_log_vfs_write_frame w self ty (Some bs) (length bs) st =
     do { st \<leftarrow> esp_stdio_log_vfs_transport_lock self st;
          (ok, st) \<leftarrow> write_batches w (take (output_count st) (outputs st)) (frame_batches ty bs) True
                       (st\<lparr>s_transport_owner := self\<rparr>);
          Some (if ok then ESP_OK else ESP_FAIL, esp_stdio_log_vfs_transport_unlock (st\<lparr>s_transport_owner := 0\<rparr>)) }"
proof (cases "esp_stdio_log_vfs_transport_lock self st")
  case None
  then show ?thesis using assms(2,3) by (simp add: esp_stdio_log_vfs_write_frame_def Let_def)
next
  case (Some st1)
  let ?st = "st1\<lparr>s_transport_owner := self\<rparr>"
  let ?s0 = "(\<lparr>fw_bytes = replicate 128 0, fw_len = 0, fw_ok = True\<rparr>, ?st)"
  let ?crc = "esp_stdio_log_vfs_crc16_ccitt_update (esp_stdio_log_vfs_crc16_ccitt_update 0xffff [ty]) bs"
  have b0: "buffers w ?st [] ?s0" by (simp add: buffers_def)
  obtain s1 where s1: "esp_stdio_log_vfs_frame_writer_put_raw_byte w 0xa5 ?s0 = Some s1" "buffers w ?st ([] @ [0xa5]) s1"
    using put_raw_batches [OF w b0] unfolding esp_stdio_log_vfs_frame_writer_put_raw_byte_def by blast
  obtain s2 where s2: "esp_stdio_log_vfs_frame_writer_put_slip_byte w ty s1 = Some s2"
    "buffers w ?st (([] @ [0xa5]) @ slip_escape ty) s2" using put_slip_byte_batches [OF w s1(2)] by blast
  obtain s3 where s3: "esp_stdio_log_vfs_frame_writer_put_slip w bs s2 = Some s3"
    "buffers w ?st ((([] @ [0xa5]) @ slip_escape ty) @ concat (map slip_escape bs)) s3"
    using put_slip_batches [OF w s2(2)] by blast
  obtain s4 where s4: "esp_stdio_log_vfs_frame_writer_put_slip_byte w (ucast (?crc AND 0xff)) s3 = Some s4"
    and b4: "buffers w ?st (((([] @ [0xa5]) @ slip_escape ty) @ concat (map slip_escape bs)) @
      slip_escape (ucast (?crc AND 0xff))) s4" using put_slip_byte_batches [OF w s3(2)] by blast
  obtain s5 where s5: "esp_stdio_log_vfs_frame_writer_put_slip_byte w (ucast (drop_bit 8 ?crc)) s4 = Some s5"
    and b5: "buffers w ?st ((((([] @ [0xa5]) @ slip_escape ty) @ concat (map slip_escape bs)) @
      slip_escape (ucast (?crc AND 0xff))) @ slip_escape (ucast (drop_bit 8 ?crc))) s5"
    using put_slip_byte_batches [OF w b4] by blast
  obtain s6 where s6: "esp_stdio_log_vfs_frame_writer_put_raw_byte w 0xc0 s5 = Some s6"
    and b6: "buffers w ?st (((((([] @ [0xa5]) @ slip_escape ty) @ concat (map slip_escape bs)) @
      slip_escape (ucast (?crc AND 0xff))) @ slip_escape (ucast (drop_bit 8 ?crc))) @ [0xc0]) s6"
    using put_raw_batches [OF w b5] unfolding esp_stdio_log_vfs_frame_writer_put_raw_byte_def by blast
  have "(((((([] @ [0xa5]) @ slip_escape ty) @ concat (map slip_escape bs)) @
      slip_escape (ucast (?crc AND 0xff))) @ slip_escape (ucast (drop_bit 8 ?crc))) @ [0xc0]) = slip_frame ty bs"
    using crc_escaped [of ?crc] by (simp add: slip_frame_def frame_content_def frame_crc_bytes)
  from flush_batches [OF w b6 [unfolded this]] obtain s7 where s7: "esp_stdio_log_vfs_frame_writer_flush w s6 = Some s7"
    "write_batches w (take (output_count st1) (outputs st1)) (frame_batches ty bs) True ?st = Some (fw_ok (fst s7), snd s7)"
    by (auto simp: frame_batches_def)
  show ?thesis using assms(2,3) Some s1(1) s2(1) s3(1) s4 s5 s6 s7
    by (cases s7) (simp add: esp_stdio_log_vfs_write_frame_def Let_def)
qed

end
