(* ===== verification/EspTasks.thy ===== *)
theory EspTasks
  imports EspBatches
begin

text \<open>
  Any number of tasks on the ESP transport at once. In \<^theory_text>\<open>EspTransport\<close> a call is one step; here
  the steps are those another task can see: each access to \<open>s_transport_mutex\<close>, the critical section
  in which it is created once, taking and giving the mutex, each access to the owner mark, which is
  read without the mutex, and every single call of \<open>write()\<close>. The steps interleave in any order.

  The scheduler runs (before that there is one task). Task \<open>i\<close> has the handle \<open>Suc i\<close>; a task is the
  list of the calls it makes. The field \<open>s_transport_mutex\<close> of the shared state is the holder of the
  mutex, that is, the content of \<open>s_transport_mutex_storage\<close>, which creation resets.
\<close>

section \<open>Tasks\<close>

text \<open>The argument of \<open>Add_Output\<close> is what \<open>open()\<close> returns for its path.\<close>

datatype esp_call =
    Write_Frame u8 bytes
  | Stream_Begin
  | Stream_Write bytes
  | Stream_End
  | Add_Output int
  | Fsync

text \<open>
  Where a task is: between two calls; in \<open>esp_stdio_log_vfs_get_transport_mutex\<close> (four places in its
  slow path); at \<open>xSemaphoreTake\<close>; behind it; writing, for a frame or for a stream; giving the mutex.
\<close>

datatype esp_pc =
    Idle "esp_call list"
  | Get_Mutex esp_call "esp_call list"
  | Want_Critical esp_call "esp_call list"
  | Create_Check esp_call "esp_call list"
  | Publish esp_call "esp_call list"
  | Leave_Critical esp_call "esp_call list"
  | Take_Mutex esp_call "esp_call list"
  | Holding esp_call "esp_call list"
  | Writing "(int \<times> bytes) list" bool bool "esp_call list"
  | Giving "esp_call list"

record esp_tasks =
  es_core :: esp_stdio_log_vfs_t
  es_handle :: bool
  es_created :: nat
  es_critical :: "nat option"
  es_pcs :: "esp_pc list"

text \<open>A call that returns before it takes the mutex or writes anything.\<close>

primrec refused :: "nat \<Rightarrow> esp_stdio_log_vfs_t \<Rightarrow> esp_call \<Rightarrow> bool" where
  "refused self st (Write_Frame ty bs) =
     (length bs > ESP_STDIO_LOG_VFS_FRAME_MAX_PAYLOAD \<or> s_transport_owner st = self)"
| "refused self st Stream_Begin = (s_transport_owner st = self)"
| "refused self st (Stream_Write bs) = (s_transport_owner st \<noteq> self)"
| "refused self st Stream_End = (s_transport_owner st \<noteq> self)"
| "refused self st (Add_Output fd) = False"
| "refused self st Fsync = False"

primrec takes_mutex :: "esp_call \<Rightarrow> bool" where
  "takes_mutex (Write_Frame ty bs) = True"
| "takes_mutex Stream_Begin = True"
| "takes_mutex (Stream_Write bs) = False"
| "takes_mutex Stream_End = False"
| "takes_mutex (Add_Output fd) = True"
| "takes_mutex Fsync = True"

text \<open>The writes of a frame, and of a piece of a stream: each batch to each output.\<close>

definition batch_writes :: "int list \<Rightarrow> bytes list \<Rightarrow> (int \<times> bytes) list" where
  "batch_writes fds bs = concat (map (\<lambda>b. map (\<lambda>fd. (fd, b)) fds) bs)"

definition put_output :: "int \<Rightarrow> esp_stdio_log_vfs_t \<Rightarrow> esp_stdio_log_vfs_t" where
  "put_output fd st =
     (if output_count st \<ge> ESP_STDIO_LOG_VFS_MAX_OUTPUTS \<or> fd < 0 then st
      else st\<lparr>outputs := (outputs st)[output_count st := fd], output_count := Suc (output_count st)\<rparr>)"

text \<open>What the holder of the mutex does next.\<close>

primrec holder_next ::
    "nat \<Rightarrow> esp_stdio_log_vfs_t \<Rightarrow> esp_call list \<Rightarrow> esp_call \<Rightarrow> esp_pc \<times> esp_stdio_log_vfs_t" where
  "holder_next self st rest (Write_Frame ty bs) =
     (Writing (batch_writes (active_outputs st) (frame_batches ty bs)) True True rest, st\<lparr>s_transport_owner := self\<rparr>)"
| "holder_next self st rest Stream_Begin = (Idle rest, st\<lparr>s_transport_owner := self\<rparr>)"
| "holder_next self st rest (Stream_Write bs) = (Giving rest, st)"
| "holder_next self st rest Stream_End = (Giving rest, st)"
| "holder_next self st rest (Add_Output fd) = (Giving rest, put_output fd st)"
| "holder_next self st rest Fsync = (Giving rest, st)"

text \<open>One call of \<open>write()\<close> in \<open>esp_stdio_log_vfs_write_all\<close>.\<close>

definition write_call ::
    "write_fn \<Rightarrow> int \<Rightarrow> bytes \<Rightarrow> (int \<times> bytes) list \<Rightarrow> bool \<Rightarrow> esp_stdio_log_vfs_t \<Rightarrow>
       (int \<times> bytes) list \<times> bool \<times> esp_stdio_log_vfs_t" where
  "write_call w fd data ws ok st =
     (case w (io_calls st) fd data of
        Interrupted \<Rightarrow> ((fd, data) # ws, ok, note_write fd [] st)
      | Failed \<Rightarrow> (ws, False, note_write fd [] st)
      | Wrote n \<Rightarrow>
          if n = 0 then (ws, False, note_write fd [] st)
          else ((fd, drop n data) # ws, ok, note_write fd (take n data) st))"

definition es_at :: "esp_tasks \<Rightarrow> nat \<Rightarrow> esp_pc \<Rightarrow> bool" where
  "es_at s i pc \<longleftrightarrow> i < length (es_pcs s) \<and> es_pcs s ! i = pc"

definition es_goes :: "nat \<Rightarrow> esp_pc \<Rightarrow> esp_stdio_log_vfs_t \<Rightarrow> esp_tasks \<Rightarrow> esp_tasks" where
  "es_goes i pc st s = s\<lparr>es_core := st, es_pcs := (es_pcs s)[i := pc]\<rparr>"

text \<open>
  A step is labelled with the call that takes effect in it: one that takes the mutex does when it has
  it, any other when it looks at the owner mark.
\<close>

inductive esp_step :: "write_fn \<Rightarrow> esp_tasks \<Rightarrow> (nat \<times> esp_call) list \<Rightarrow> esp_tasks \<Rightarrow> bool" for w where
  refuse: "es_at s i (Idle (c # cs)) \<Longrightarrow> refused (Suc i) (es_core s) c \<Longrightarrow>
    esp_step w s [(i, c)] (es_goes i (Idle cs) (es_core s) s)"
| enter: "es_at s i (Idle (c # cs)) \<Longrightarrow> \<not> refused (Suc i) (es_core s) c \<Longrightarrow> takes_mutex c \<Longrightarrow>
    esp_step w s [] (es_goes i (Get_Mutex c cs) (es_core s) s)"
| stream_write: "es_at s i (Idle (Stream_Write bs # cs)) \<Longrightarrow> \<not> refused (Suc i) (es_core s) (Stream_Write bs) \<Longrightarrow>
    esp_step w s [(i, Stream_Write bs)]
      (es_goes i (Writing (batch_writes (active_outputs (es_core s)) [bs]) True False cs) (es_core s) s)"
| stream_end: "es_at s i (Idle (Stream_End # cs)) \<Longrightarrow> \<not> refused (Suc i) (es_core s) Stream_End \<Longrightarrow>
    esp_step w s [(i, Stream_End)] (es_goes i (Giving cs) (es_core s\<lparr>s_transport_owner := 0\<rparr>) s)"
| get_mutex: "es_at s i (Get_Mutex c cs) \<Longrightarrow>
    esp_step w s [] (es_goes i (if es_handle s then Take_Mutex c cs else Want_Critical c cs) (es_core s) s)"
| enter_critical: "es_at s i (Want_Critical c cs) \<Longrightarrow> es_critical s = None \<Longrightarrow>
    esp_step w s [] (es_goes i (Create_Check c cs) (es_core s) (s\<lparr>es_critical := Some i\<rparr>))"
| created_before: "es_at s i (Create_Check c cs) \<Longrightarrow> es_handle s \<Longrightarrow>
    esp_step w s [] (es_goes i (Leave_Critical c cs) (es_core s) s)"
| create: "es_at s i (Create_Check c cs) \<Longrightarrow> \<not> es_handle s \<Longrightarrow>
    esp_step w s [] (es_goes i (Publish c cs) (es_core s\<lparr>s_transport_mutex := None\<rparr>)
      (s\<lparr>es_created := Suc (es_created s)\<rparr>))"
| publish: "es_at s i (Publish c cs) \<Longrightarrow>
    esp_step w s [] (es_goes i (Leave_Critical c cs) (es_core s) (s\<lparr>es_handle := True\<rparr>))"
| leave_critical: "es_at s i (Leave_Critical c cs) \<Longrightarrow>
    esp_step w s [] (es_goes i (Take_Mutex c cs) (es_core s) (s\<lparr>es_critical := None\<rparr>))"
| take_mutex: "es_at s i (Take_Mutex c cs) \<Longrightarrow> s_transport_mutex (es_core s) = None \<Longrightarrow>
    esp_step w s [(i, c)] (es_goes i (Holding c cs) (es_core s\<lparr>s_transport_mutex := Some (Suc i)\<rparr>) s)"
| hold: "es_at s i (Holding c cs) \<Longrightarrow> holder_next (Suc i) (es_core s) cs c = (pc, st) \<Longrightarrow>
    esp_step w s [] (es_goes i pc st s)"
| write_one: "es_at s i (Writing ((fd, data) # ws) ok gives cs) \<Longrightarrow> data \<noteq> [] \<Longrightarrow>
    write_call w fd data ws ok (es_core s) = (ws', ok', st) \<Longrightarrow>
    esp_step w s [] (es_goes i (Writing ws' ok' gives cs) st s)"
| write_done: "es_at s i (Writing ((fd, []) # ws) ok gives cs) \<Longrightarrow>
    esp_step w s [] (es_goes i (Writing ws ok gives cs) (es_core s) s)"
| written_all: "es_at s i (Writing [] ok gives cs) \<Longrightarrow>
    esp_step w s [] (if gives then es_goes i (Giving cs) (es_core s\<lparr>s_transport_owner := 0\<rparr>) s
                     else es_goes i (Idle cs) (es_core s) s)"
| give: "es_at s i (Giving cs) \<Longrightarrow>
    esp_step w s [] (es_goes i (Idle cs) (es_core s\<lparr>s_transport_mutex := None\<rparr>) s)"

text \<open>All tasks at their beginning, in a state the transport may be in; the calls that have taken effect.\<close>

inductive esp_runs ::
    "write_fn \<Rightarrow> esp_call list list \<Rightarrow> esp_stdio_log_vfs_t \<Rightarrow> (nat \<times> esp_call) list \<Rightarrow> esp_tasks \<Rightarrow> bool"
  for w progs st0 where
  esp_start: "esp_runs w progs st0 [] \<lparr>es_core = st0, es_handle = False, es_created = 0, es_critical = None,
    es_pcs = map Idle progs\<rparr>"
| esp_go: "esp_runs w progs st0 ops s \<Longrightarrow> esp_step w s new s' \<Longrightarrow> esp_runs w progs st0 (ops @ new) s'"

section \<open>Whole calls\<close>

primrec whole_call :: "write_fn \<Rightarrow> nat \<Rightarrow> esp_call \<Rightarrow> esp_stdio_log_vfs_t \<Rightarrow> esp_stdio_log_vfs_t option" where
  "whole_call w self (Write_Frame ty bs) st =
     map_option snd (esp_stdio_log_vfs_write_frame w self ty (Some bs) (length bs) st)"
| "whole_call w self Stream_Begin st = map_option snd (esp_stdio_log_vfs_raw_stream_begin self st)"
| "whole_call w self (Stream_Write bs) st =
     map_option snd (esp_stdio_log_vfs_raw_stream_write w self (Some bs) (length bs) st)"
| "whole_call w self Stream_End st = Some (snd (esp_stdio_log_vfs_raw_stream_end self st))"
| "whole_call w self (Add_Output fd) st = map_option snd (esp_stdio_log_vfs_add_output self True fd st)"
| "whole_call w self Fsync st = map_option snd (esp_stdio_log_vfs_fsync (\<lambda>_. False) self st)"

primrec whole_calls ::
    "write_fn \<Rightarrow> (nat \<times> esp_call) list \<Rightarrow> esp_stdio_log_vfs_t \<Rightarrow> esp_stdio_log_vfs_t option" where
  "whole_calls w [] st = Some st"
| "whole_calls w (op # ops) st = do { st \<leftarrow> whole_call w (Suc (fst op)) (snd op) st; whole_calls w ops st }"

lemma whole_calls_append:
  "whole_calls w (a @ b) st = do { st \<leftarrow> whole_calls w a st; whole_calls w b st }"
  by (induction a arbitrary: st) (auto split: bind_split)

section \<open>Writing, call by call\<close>

primrec run_writes ::
    "write_fn \<Rightarrow> (int \<times> bytes) list \<Rightarrow> bool \<Rightarrow> esp_stdio_log_vfs_t \<Rightarrow> (bool \<times> esp_stdio_log_vfs_t) option" where
  "run_writes w [] ok st = Some (ok, st)"
| "run_writes w (x # ws) ok st =
     do { (written, st) \<leftarrow> esp_stdio_log_vfs_write_all w (fst x) (snd x) st;
          run_writes w ws (written \<and> ok) st }"

lemma run_writes_append:
  "run_writes w (a @ b) ok st = do { (ok, st) \<leftarrow> run_writes w a ok st; run_writes w b ok st }"
  by (induction a arbitrary: ok st) (auto split: bind_split)

lemma write_outputs_run:
  "write_outputs w fds data ok st = run_writes w (map (\<lambda>fd. (fd, data)) (filter (\<lambda>fd. fd \<ge> 0) fds)) ok st"
proof (induction fds arbitrary: ok st)
  case (Cons fd fds)
  have "(if written then ok else False) = (written \<and> ok)" for written by simp
  then show ?case using Cons by (simp split: bind_split)
qed simp

lemma write_batches_run:
  "write_batches w fds bs ok st = run_writes w (batch_writes (filter (\<lambda>fd. fd \<ge> 0) fds) bs) ok st"
  by (induction bs arbitrary: ok st)
    (auto simp: batch_writes_def write_outputs_run run_writes_append split: bind_split)

lemma run_writes_call:
  assumes "data \<noteq> []" and "write_call w fd data ws ok st = (ws', ok', st')"
  shows "run_writes w ws' ok' st' = run_writes w ((fd, data) # ws) ok st"
  using assms esp_stdio_log_vfs_write_all.simps [of w fd data st]
  by (auto simp: write_call_def simp del: split_paired_All split: write_result.splits if_splits cong: if_cong)

lemma run_writes_done: "run_writes w ((fd, []) # ws) ok st = run_writes w ws ok st"
  by (simp add: esp_stdio_log_vfs_write_all.simps)

lemma run_writes_io_step: "run_writes w ws ok st = Some (ok', st') \<Longrightarrow> io_step st st'"
  by (induction ws arbitrary: ok st)
    (auto split: bind_splits dest!: write_all_io_step intro: io_step_trans)

lemma run_writes_returns: "write_ok w \<Longrightarrow> \<exists>r. run_writes w ws ok st = Some r"
proof (induction ws arbitrary: ok st)
  case (Cons x ws)
  then show ?case using write_all_result [OF Cons.prems, of "fst x" "snd x" st] by auto
qed simp

end
