(* ===== verification/EspTasksCorrect.thy ===== *)
theory EspTasksCorrect
  imports EspTasks
begin

text \<open>
  What the interleavings of \<^theory_text>\<open>EspTasks\<close> keep: the mutex is created once, only its holder writes,
  and whatever the order of the steps, the transport is in the state some sequence of whole calls
  leads to. So frames of different tasks never mix on an output.
\<close>

section \<open>The invariant\<close>

primrec lockable :: "esp_call \<Rightarrow> bool" where
  "lockable (Write_Frame ty bs) = (length bs \<le> ESP_STDIO_LOG_VFS_FRAME_MAX_PAYLOAD)"
| "lockable Stream_Begin = True"
| "lockable (Stream_Write bs) = False"
| "lockable Stream_End = False"
| "lockable (Add_Output fd) = True"
| "lockable Fsync = True"

text \<open>What is true of the shared state while task \<open>i\<close> is where it is.\<close>

primrec esp_pc_ok :: "esp_tasks \<Rightarrow> nat \<Rightarrow> esp_pc \<Rightarrow> bool" where
  "esp_pc_ok s i (Idle cs) \<longleftrightarrow> (s_transport_mutex (es_core s) = Some (Suc i) \<longrightarrow> s_transport_owner (es_core s) = Suc i)"
| "esp_pc_ok s i (Get_Mutex c cs) \<longleftrightarrow> lockable c \<and>
     (s_transport_mutex (es_core s) = Some (Suc i) \<longrightarrow> s_transport_owner (es_core s) = Suc i)"
| "esp_pc_ok s i (Want_Critical c cs) \<longleftrightarrow> lockable c \<and>
     (s_transport_mutex (es_core s) = Some (Suc i) \<longrightarrow> s_transport_owner (es_core s) = Suc i)"
| "esp_pc_ok s i (Create_Check c cs) \<longleftrightarrow> lockable c \<and> es_critical s = Some i \<and>
     (s_transport_mutex (es_core s) = Some (Suc i) \<longrightarrow> s_transport_owner (es_core s) = Suc i)"
| "esp_pc_ok s i (Publish c cs) \<longleftrightarrow> lockable c \<and> es_critical s = Some i \<and> \<not> es_handle s \<and> es_created s = 1"
| "esp_pc_ok s i (Leave_Critical c cs) \<longleftrightarrow> lockable c \<and> es_critical s = Some i \<and> es_handle s \<and>
     (s_transport_mutex (es_core s) = Some (Suc i) \<longrightarrow> s_transport_owner (es_core s) = Suc i)"
| "esp_pc_ok s i (Take_Mutex c cs) \<longleftrightarrow> lockable c \<and> es_handle s \<and>
     (s_transport_mutex (es_core s) = Some (Suc i) \<longrightarrow> s_transport_owner (es_core s) = Suc i)"
| "esp_pc_ok s i (Holding c cs) \<longleftrightarrow> lockable c \<and> s_transport_mutex (es_core s) = Some (Suc i) \<and>
     s_transport_owner (es_core s) = 0"
| "esp_pc_ok s i (Writing ws ok gives cs) \<longleftrightarrow> s_transport_mutex (es_core s) = Some (Suc i) \<and>
     s_transport_owner (es_core s) = Suc i"
| "esp_pc_ok s i (Giving cs) \<longleftrightarrow> s_transport_mutex (es_core s) = Some (Suc i) \<and> s_transport_owner (es_core s) = 0"

definition publishing :: "esp_pc \<Rightarrow> bool" where
  "publishing pc \<longleftrightarrow> (case pc of Publish c cs \<Rightarrow> True | _ \<Rightarrow> False)"

definition in_critical :: "esp_pc \<Rightarrow> bool" where
  "in_critical pc \<longleftrightarrow>
     (case pc of Create_Check c cs \<Rightarrow> True | Publish c cs \<Rightarrow> True | Leave_Critical c cs \<Rightarrow> True | _ \<Rightarrow> False)"

definition esp_shared_ok :: "esp_tasks \<Rightarrow> bool" where
  "esp_shared_ok s \<longleftrightarrow>
     scheduler_started (es_core s) \<and>
     (s_transport_owner (es_core s) \<noteq> 0 \<longrightarrow> s_transport_mutex (es_core s) = Some (s_transport_owner (es_core s))) \<and>
     (\<forall>h. s_transport_mutex (es_core s) = Some h \<longrightarrow> 0 < h \<and> h \<le> length (es_pcs s)) \<and>
     (s_transport_mutex (es_core s) \<noteq> None \<longrightarrow> es_handle s) \<and>
     (es_handle s \<longrightarrow> es_created s = 1) \<and>
     (\<not> es_handle s \<longrightarrow> es_created s = (if \<exists>i < length (es_pcs s). publishing (es_pcs s ! i) then 1 else 0)) \<and>
     (\<forall>i. es_critical s = Some i \<longrightarrow> i < length (es_pcs s) \<and> in_critical (es_pcs s ! i))"

definition esp_tasks_ok :: "esp_tasks \<Rightarrow> bool" where
  "esp_tasks_ok s \<longleftrightarrow> esp_shared_ok s \<and> (\<forall>i < length (es_pcs s). esp_pc_ok s i (es_pcs s ! i))"

lemma es_goes_sel [simp]:
  "es_core (es_goes i pc st s) = st" "es_handle (es_goes i pc st s) = es_handle s"
  "es_created (es_goes i pc st s) = es_created s" "es_critical (es_goes i pc st s) = es_critical s"
  "es_pcs (es_goes i pc st s) = (es_pcs s)[i := pc]"
  by (simp_all add: es_goes_def)

lemma pc_sets [simp]:
  "publishing (Publish c cs)" "\<not> publishing (Idle cs)" "\<not> publishing (Get_Mutex c cs)" "\<not> publishing (Want_Critical c cs)"
  "\<not> publishing (Create_Check c cs)" "\<not> publishing (Leave_Critical c cs)" "\<not> publishing (Take_Mutex c cs)"
  "\<not> publishing (Holding c cs)" "\<not> publishing (Writing ws ok gives cs)" "\<not> publishing (Giving cs)"
  "in_critical (Publish c cs)" "in_critical (Create_Check c cs)" "in_critical (Leave_Critical c cs)"
  "\<not> in_critical (Idle cs)" "\<not> in_critical (Get_Mutex c cs)" "\<not> in_critical (Want_Critical c cs)"
  "\<not> in_critical (Take_Mutex c cs)" "\<not> in_critical (Holding c cs)" "\<not> in_critical (Writing ws ok gives cs)"
  "\<not> in_critical (Giving cs)"
  by (simp_all add: publishing_def in_critical_def)

lemma write_call_io_step: "write_call w fd data ws ok st = (ws', ok', st') \<Longrightarrow> io_step st st'"
  by (auto simp: write_call_def split: write_result.splits if_splits)

lemma put_output_sel [simp]:
  "scheduler_started (put_output fd st) = scheduler_started st"
  "s_transport_owner (put_output fd st) = s_transport_owner st"
  "s_transport_mutex (put_output fd st) = s_transport_mutex st"
  by (simp_all add: put_output_def)

lemma lockable_not_refused: "\<not> refused self st c \<Longrightarrow> takes_mutex c \<Longrightarrow> lockable c"
  by (cases c) auto

text \<open>Any other task's part of the invariant speaks of its own hold on the mutex only.\<close>

lemma pc_ok_cong:
  assumes "esp_pc_ok s i pc" and "es_critical s = Some i \<longrightarrow> es_critical s' = Some i"
    and "es_handle s \<longrightarrow> es_handle s'" and "publishing pc \<longrightarrow> es_handle s' = es_handle s \<and> es_created s' = es_created s"
    and "s_transport_mutex (es_core s) = Some (Suc i) \<longleftrightarrow> s_transport_mutex (es_core s') = Some (Suc i)"
    and "s_transport_mutex (es_core s) = Some (Suc i) \<longrightarrow> s_transport_owner (es_core s') = s_transport_owner (es_core s)"
  shows "esp_pc_ok s' i pc"
  using assms by (cases pc) auto

lemma tasks_ok_step:
  assumes "esp_tasks_ok s" and "es_at s i pc" and "es_pcs s' = (es_pcs s)[i := pc']" and "esp_shared_ok s'"
    and "esp_pc_ok s' i pc'" and "es_handle s \<longrightarrow> es_handle s'"
    and "\<And>j. j \<noteq> i \<Longrightarrow> es_critical s = Some j \<Longrightarrow> es_critical s' = Some j"
    and "\<And>j. j \<noteq> i \<Longrightarrow> j < length (es_pcs s) \<Longrightarrow> publishing (es_pcs s ! j) \<Longrightarrow>
      es_handle s' = es_handle s \<and> es_created s' = es_created s"
    and "\<And>j. j \<noteq> i \<Longrightarrow> s_transport_mutex (es_core s) = Some (Suc j) \<longleftrightarrow> s_transport_mutex (es_core s') = Some (Suc j)"
    and "\<And>j. j \<noteq> i \<Longrightarrow> s_transport_mutex (es_core s) = Some (Suc j) \<Longrightarrow>
      s_transport_owner (es_core s') = s_transport_owner (es_core s)"
  shows "esp_tasks_ok s'"
proof -
  have "esp_pc_ok s' j (es_pcs s' ! j)" if j: "j < length (es_pcs s')" for j
  proof (cases "j = i")
    case True
    then show ?thesis using assms(2,3,5) by (simp add: es_at_def)
  next
    case False
    then show ?thesis using pc_ok_cong [of s j "es_pcs s ! j" s'] assms j
      by (simp add: esp_tasks_ok_def)
  qed
  then show ?thesis using assms(4) by (simp add: esp_tasks_ok_def)
qed

text \<open>A step that changes nothing but where the task is.\<close>

lemma quiet_step_ok:
  assumes ok: "esp_tasks_ok s" and at: "es_at s i pc" and pc': "esp_pc_ok s i pc'"
    and "publishing pc' = publishing pc" and "in_critical pc \<longrightarrow> in_critical pc'"
  shows "esp_tasks_ok (es_goes i pc' (es_core s) s)"
proof (rule tasks_ok_step [OF ok at])
  let ?s = "es_goes i pc' (es_core s) s"
  show "esp_pc_ok ?s i pc'" using pc' by (cases pc') simp_all
  have "(\<exists>j < length (es_pcs s). publishing ((es_pcs s)[i := pc'] ! j)) = (\<exists>j < length (es_pcs s). publishing (es_pcs s ! j))"
    using assms(4) at by (auto simp: es_at_def nth_list_update)
  moreover have "in_critical ((es_pcs s)[i := pc'] ! j)" if "es_critical s = Some j" for j
    using ok that assms(5) at by (auto simp: esp_tasks_ok_def esp_shared_ok_def es_at_def nth_list_update)
  ultimately show "esp_shared_ok ?s"
    using ok by (simp add: esp_tasks_ok_def esp_shared_ok_def)
qed simp_all

text \<open>A step of the holder on the shared state: the mutex and the owner mark stay its own.\<close>

lemma holder_step_ok:
  assumes ok: "esp_tasks_ok s" and at: "es_at s i pc" and pc: "\<not> publishing pc" "\<not> in_critical pc"
    and pc': "\<not> publishing pc'" "esp_pc_ok (es_goes i pc' st s) i pc'"
    and mine: "s_transport_mutex (es_core s) \<in> {None, Some (Suc i)}" "s_transport_mutex st \<in> {None, Some (Suc i)}"
    and st: "scheduler_started st" "s_transport_owner st \<noteq> 0 \<longrightarrow> s_transport_mutex st = Some (s_transport_owner st)"
      "s_transport_mutex st \<noteq> None \<longrightarrow> es_handle s"
  shows "esp_tasks_ok (es_goes i pc' st s)"
proof (rule tasks_ok_step [OF ok at])
  let ?s = "es_goes i pc' st s"
  have eq: "(\<exists>j < length (es_pcs s). publishing ((es_pcs s)[i := pc'] ! j)) = (\<exists>j < length (es_pcs s). publishing (es_pcs s ! j))"
    using pc pc' at by (auto simp: es_at_def nth_list_update)
  have "in_critical ((es_pcs s)[i := pc'] ! j)" if "es_critical s = Some j" for j
    using ok that pc at by (auto simp: esp_tasks_ok_def esp_shared_ok_def es_at_def nth_list_update)
  moreover have "0 < h \<and> h \<le> length (es_pcs s)" if "s_transport_mutex st = Some h" for h
    using that mine at by (auto simp: es_at_def)
  ultimately show "esp_shared_ok ?s"
    using ok st unfolding esp_shared_ok_def esp_tasks_ok_def es_goes_sel length_list_update eq by blast
  fix j assume "j \<noteq> i"
  then show "s_transport_mutex (es_core s) = Some (Suc j) \<longleftrightarrow> s_transport_mutex (es_core ?s) = Some (Suc j)"
    using mine by auto
  show "s_transport_mutex (es_core s) = Some (Suc j) \<Longrightarrow> s_transport_owner (es_core ?s) = s_transport_owner (es_core s)"
    using mine \<open>j \<noteq> i\<close> by auto
qed (use pc' in simp_all)

lemma tasks_okD:
  assumes "esp_tasks_ok s"
  shows "scheduler_started (es_core s)"
    and "s_transport_owner (es_core s) \<noteq> 0 \<Longrightarrow> s_transport_mutex (es_core s) = Some (s_transport_owner (es_core s))"
    and "s_transport_mutex (es_core s) \<noteq> None \<Longrightarrow> es_handle s"
    and "s_transport_mutex (es_core s) = None \<Longrightarrow> s_transport_owner (es_core s) = 0"
    and "es_at s i pc \<Longrightarrow> esp_pc_ok s i pc"
  using assms unfolding esp_tasks_ok_def esp_shared_ok_def es_at_def by (simp_all, metis option.distinct(1))

text \<open>The steps in the critical section: one task at a time, and only the first creates the mutex.\<close>

lemma nobody_else_publishes:
  assumes "esp_tasks_ok s" and "es_critical s \<in> {None, Some i}" and "j \<noteq> i" and "j < length (es_pcs s)"
  shows "\<not> publishing (es_pcs s ! j)"
proof
  assume "publishing (es_pcs s ! j)"
  moreover have "esp_pc_ok s j (es_pcs s ! j)" using assms by (simp add: esp_tasks_ok_def)
  ultimately show False using assms(2,3) by (cases "es_pcs s ! j") auto
qed

lemma created_count:
  assumes "esp_tasks_ok s" and "es_at s i pc" and "es_critical s \<in> {None, Some i}"
  shows "es_handle s \<Longrightarrow> es_created s = 1" and "\<not> es_handle s \<Longrightarrow> es_created s = (if publishing pc then 1 else 0)"
proof -
  have "(\<exists>j < length (es_pcs s). publishing (es_pcs s ! j)) = publishing pc"
    using nobody_else_publishes [OF assms(1,3)] assms(2) unfolding es_at_def by metis
  then show "es_handle s \<Longrightarrow> es_created s = 1" and "\<not> es_handle s \<Longrightarrow> es_created s = (if publishing pc then 1 else 0)"
    using assms(1) by (simp_all add: esp_tasks_ok_def esp_shared_ok_def)
qed

lemma critical_step_ok:
  assumes ok: "esp_tasks_ok s" and at: "es_at s i pc" and s': "s' = es_goes i pc' (es_core s) s0"
    and s0: "es_core s0 = es_core s" "es_pcs s0 = es_pcs s" "es_handle s \<longrightarrow> es_handle s0"
    and pc': "esp_pc_ok s' i pc'"
    and alone: "es_critical s \<in> {None, Some i}" "es_critical s0 = (if in_critical pc' then Some i else None)"
    and created: "es_handle s0 \<longrightarrow> es_created s0 = 1"
      "\<not> es_handle s0 \<longrightarrow> es_created s0 = (if publishing pc' then 1 else 0)"
  shows "esp_tasks_ok s'"
proof (rule tasks_ok_step [OF ok at])
  note other = nobody_else_publishes [OF ok alone(1)]
  have eq: "(\<exists>j < length (es_pcs s). publishing ((es_pcs s)[i := pc'] ! j)) = publishing pc'"
    using at other by (auto simp: es_at_def nth_list_update)
  have "i < length (es_pcs s)" using at by (simp add: es_at_def)
  then have "in_critical ((es_pcs s)[i := pc'] ! j) \<and> j < length (es_pcs s)" if "es_critical s0 = Some j" for j
    using that alone(2) by (auto split: if_splits)
  then show "esp_shared_ok s'"
    using ok created s0(3) unfolding s' esp_shared_ok_def esp_tasks_ok_def es_goes_sel s0(1,2) length_list_update eq
    by blast
  show "es_handle s' = es_handle s \<and> es_created s' = es_created s"
    if "j \<noteq> i" "j < length (es_pcs s)" "publishing (es_pcs s ! j)" for j
    using other that by blast
qed (use s' s0 pc' alone in auto)

lemma esp_step_ok:
  assumes "esp_step w s new s'" and ok: "esp_tasks_ok s"
  shows "esp_tasks_ok s'"
  using assms(1)
proof cases
  case (refuse i c cs)
  then show ?thesis using tasks_okD(5) [OF ok refuse(3)]
    by (simp only:) (intro quiet_step_ok [OF ok refuse(3)]; simp)
next
  case (enter i c cs)
  then show ?thesis using tasks_okD(5) [OF ok enter(3)] lockable_not_refused [OF enter(4,5)]
    by (simp only:) (intro quiet_step_ok [OF ok enter(3)]; simp)
next
  case (stream_write i bs cs)
  then show ?thesis using tasks_okD(2) [OF ok]
    by (simp only:) (intro quiet_step_ok [OF ok stream_write(3)]; simp)
next
  case (stream_end i cs)
  then show ?thesis using tasks_okD(1-3) [OF ok]
    by (simp only:) (intro holder_step_ok [OF ok stream_end(3)]; simp)
next
  case (get_mutex i c cs)
  then show ?thesis using tasks_okD(5) [OF ok get_mutex(3)]
    by (simp only:) (intro quiet_step_ok [OF ok get_mutex(3)]; simp)
next
  case (enter_critical i c cs)
  then show ?thesis using tasks_okD(5) [OF ok enter_critical(3)] created_count [OF ok enter_critical(3)]
    by (intro critical_step_ok [OF ok enter_critical(3) enter_critical(2)]) simp_all
next
  case (create i c cs)
  have "s_transport_mutex (es_core s) = None" using tasks_okD(3) [OF ok] create(4) by blast
  then have s': "s' = es_goes i (Publish c cs) (es_core s) (s\<lparr>es_created := Suc (es_created s)\<rparr>)"
    unfolding create by (cases "es_core s") simp
  show ?thesis using create tasks_okD(5) [OF ok create(3)] created_count [OF ok create(3)]
    by (intro critical_step_ok [OF ok create(3) s']) (simp_all add: s')
next
  case (publish i c cs)
  have "s_transport_mutex (es_core s) = None" using tasks_okD(3) [OF ok] tasks_okD(5) [OF ok publish(3)] by fastforce
  then show ?thesis using publish tasks_okD(5) [OF ok publish(3)] created_count [OF ok publish(3)]
    by (intro critical_step_ok [OF ok publish(3) publish(2)]) simp_all
next
  case (leave_critical i c cs)
  then show ?thesis using tasks_okD(5) [OF ok leave_critical(3)] created_count [OF ok leave_critical(3)]
    by (intro critical_step_ok [OF ok leave_critical(3) leave_critical(2)]) simp_all
next
  case (created_before i c cs)
  then show ?thesis using tasks_okD(5) [OF ok created_before(3)]
    by (simp only:) (intro quiet_step_ok [OF ok created_before(3)]; simp)
next
  case (take_mutex i c cs)
  then show ?thesis using tasks_okD(1,4) [OF ok] tasks_okD(5) [OF ok take_mutex(3)]
    by (simp only:) (intro holder_step_ok [OF ok take_mutex(3)]; simp)
next
  case (hold i c cs pc st)
  then show ?thesis using tasks_okD(1,3) [OF ok] tasks_okD(5) [OF ok hold(3)]
    by (simp only:) (cases c; intro holder_step_ok [OF ok hold(3)]; auto)
next
  case (write_one i fd data ws ok' gives cs ws' ok'' st)
  then show ?thesis using tasks_okD(1,3) [OF ok] tasks_okD(5) [OF ok write_one(3)] write_call_io_step [OF write_one(5)]
    by (simp only:) (intro holder_step_ok [OF ok write_one(3)]; simp add: io_step_def)
next
  case (write_done i fd ws ok' gives cs)
  then show ?thesis using tasks_okD(5) [OF ok write_done(3)]
    by (simp only:) (intro quiet_step_ok [OF ok write_done(3)]; simp)
next
  case (written_all i ok' gives cs)
  show ?thesis
  proof (cases gives)
    case True
    then show ?thesis using written_all tasks_okD(1,3) [OF ok] tasks_okD(5) [OF ok written_all(3)]
      by (simp only: if_True) (intro holder_step_ok [OF ok written_all(3)]; simp)
  next
    case False
    then show ?thesis using written_all tasks_okD(5) [OF ok written_all(3)]
      by (simp only: if_False) (intro quiet_step_ok [OF ok written_all(3)]; simp)
  qed
next
  case (give i cs)
  then show ?thesis using tasks_okD(1) [OF ok] tasks_okD(5) [OF ok give(3)]
    by (simp only:) (intro holder_step_ok [OF ok give(3)]; simp)
qed

section \<open>The holder's remaining steps\<close>

definition finish_writes :: "write_fn \<Rightarrow> esp_stdio_log_vfs_t \<Rightarrow> esp_pc \<Rightarrow> esp_stdio_log_vfs_t option" where
  "finish_writes w st pc =
     (case pc of
        Writing ws ok gives cs \<Rightarrow>
          do { (ok, st) \<leftarrow> run_writes w ws ok st;
               Some (if gives then st\<lparr>s_transport_owner := 0, s_transport_mutex := None\<rparr> else st) }
      | Giving cs \<Rightarrow> Some (st\<lparr>s_transport_mutex := None\<rparr>)
      | _ \<Rightarrow> Some st)"

definition finish :: "write_fn \<Rightarrow> nat \<Rightarrow> esp_stdio_log_vfs_t \<Rightarrow> esp_pc \<Rightarrow> esp_stdio_log_vfs_t option" where
  "finish w self st pc =
     (case pc of
        Holding c cs \<Rightarrow> (case holder_next self st cs c of (pc, st) \<Rightarrow> finish_writes w st pc)
      | _ \<Rightarrow> finish_writes w st pc)"

definition esp_completed :: "write_fn \<Rightarrow> esp_tasks \<Rightarrow> esp_stdio_log_vfs_t option" where
  "esp_completed w s =
     (case s_transport_mutex (es_core s) of
        None \<Rightarrow> Some (es_core s)
      | Some h \<Rightarrow> finish w h (es_core s) (es_pcs s ! (h - 1)))"

lemma finish_simps [simp]:
  "finish w self st (Idle cs) = Some st" "finish w self st (Get_Mutex c cs) = Some st"
  "finish w self st (Want_Critical c cs) = Some st" "finish w self st (Create_Check c cs) = Some st"
  "finish w self st (Publish c cs) = Some st" "finish w self st (Leave_Critical c cs) = Some st"
  "finish w self st (Take_Mutex c cs) = Some st" "finish w self st (Giving cs) = Some (st\<lparr>s_transport_mutex := None\<rparr>)"
  "finish w self st (Writing ws ok gives cs) =
     do { (ok, st) \<leftarrow> run_writes w ws ok st;
          Some (if gives then st\<lparr>s_transport_owner := 0, s_transport_mutex := None\<rparr> else st) }"
  by (simp_all add: finish_def finish_writes_def)

lemma finish_hold: "holder_next self st cs c = (pc, st') \<Longrightarrow> finish w self st (Holding c cs) = finish w self st' pc"
  by (cases c) (auto simp: finish_def finish_writes_def)

lemma finish_owner: "finish w h st pc = Some a \<Longrightarrow> s_transport_owner a \<in> {0, h, s_transport_owner st}"
proof (cases pc)
  case (Holding c cs)
  assume "finish w h st pc = Some a"
  then show ?thesis using Holding
    by (cases c) (auto simp: finish_def finish_writes_def split: bind_splits dest!: run_writes_io_step simp: io_step_def)
next
  case (Writing ws ok gives cs)
  assume "finish w h st pc = Some a"
  then show ?thesis using Writing
    by (auto split: bind_splits if_splits dest!: run_writes_io_step simp: io_step_def)
qed auto

text \<open>Steps of the holder, and steps the holder does not notice.\<close>

lemma completed_holder:
  "s_transport_mutex (es_core s) = Some (Suc i) \<Longrightarrow> es_at s i pc \<Longrightarrow> esp_completed w s = finish w (Suc i) (es_core s) pc"
  by (simp add: esp_completed_def es_at_def)

lemma completed_quiet:
  assumes "es_at s i pc" and "es_core s' = es_core s" and "es_pcs s' = (es_pcs s)[i := pc']"
    and "s_transport_mutex (es_core s) = Some (Suc i) \<Longrightarrow> finish w (Suc i) (es_core s) pc' = finish w (Suc i) (es_core s) pc"
    and "esp_tasks_ok s"
  shows "esp_completed w s' = esp_completed w s"
proof (cases "s_transport_mutex (es_core s)")
  case (Some h)
  then have "0 < h" using assms(5) by (simp add: esp_tasks_ok_def esp_shared_ok_def)
  then show ?thesis using assms(1-4) Some
    by (cases "h - 1 = i") (auto simp: esp_completed_def es_at_def)
qed (use assms(2) in \<open>simp add: esp_completed_def\<close>)

lemma completed_goes:
  assumes "es_at s i pc" and "s_transport_mutex st = Some (Suc i)"
  shows "esp_completed w (es_goes i pc' st s) = finish w (Suc i) st pc'"
  using assms by (simp add: esp_completed_def es_at_def)

lemma refused_whole: "refused self st c \<Longrightarrow> whole_call w self c st = Some st"
  by (cases c) (auto simp: esp_stdio_log_vfs_write_frame_def esp_stdio_log_vfs_raw_stream_begin_def
      esp_stdio_log_vfs_raw_stream_write_def esp_stdio_log_vfs_raw_stream_end_def)

lemma refused_completed:
  assumes ok: "esp_tasks_ok s" and at: "es_at s i (Idle cs)" and "refused (Suc i) (es_core s) c"
    and "esp_completed w s = Some a"
  shows "refused (Suc i) a c"
proof (cases "s_transport_mutex (es_core s) = Some (Suc i)")
  case True
  then show ?thesis using completed_holder [OF True at, of w] assms(3,4) by simp
next
  case False
  then have "s_transport_owner (es_core s) \<noteq> Suc i" using tasks_okD(2) [OF ok] by auto
  moreover from this have "s_transport_owner a \<noteq> Suc i"
    using assms(4) False finish_owner [of w _ "es_core s" _ a]
    by (cases "s_transport_mutex (es_core s)") (auto simp: esp_completed_def)
  ultimately show ?thesis using assms(3) by (cases c) auto
qed

text \<open>Taking the mutex is where a call takes effect.\<close>

lemma takes_effect:
  assumes w: "write_ok w" and "lockable c" and "scheduler_started st" and "s_transport_mutex st = None"
    and "s_transport_owner st = 0"
  shows "finish w (Suc i) (st\<lparr>s_transport_mutex := Some (Suc i)\<rparr>) (Holding c cs) = whole_call w (Suc i) c st"
proof (cases c)
  case (Write_Frame ty bs)
  have "esp_stdio_log_vfs_transport_unlock (st'\<lparr>s_transport_owner := 0\<rparr>) =
      st'\<lparr>s_transport_owner := 0, s_transport_mutex := None\<rparr>"
    if "run_writes w ws ok (st\<lparr>s_transport_mutex := Some (Suc i), s_transport_owner := Suc i\<rparr>) = Some (ok', st')"
    for ws ok ok' st'
    using run_writes_io_step [OF that] assms(3) by (simp add: io_step_def esp_stdio_log_vfs_transport_unlock_def)
  then show ?thesis using assms Write_Frame
    by (auto simp: finish_hold write_frame_batches esp_stdio_log_vfs_transport_lock_def write_batches_run
        active_outputs_def map_option_bind comp_def split: prod.split intro!: Option.bind_cong)
qed (use assms in \<open>auto simp: finish_hold esp_stdio_log_vfs_raw_stream_begin_def esp_stdio_log_vfs_transport_lock_def
    esp_stdio_log_vfs_add_output_def esp_stdio_log_vfs_transport_unlock_def put_output_def
    esp_stdio_log_vfs_fsync_def Let_def\<close>)

lemma finish_batches:
  assumes "scheduler_started st" and "s_transport_owner st = self"
  shows "finish w self st (Writing (batch_writes (active_outputs st) [bs]) True False cs) =
     whole_call w self (Stream_Write bs) st"
  using assms write_batches_run [of w "take (output_count st) (outputs st)" "[bs]" True st]
  by (auto simp: esp_stdio_log_vfs_raw_stream_write_def active_outputs_def map_option_bind comp_def
      split: prod.split intro!: Option.bind_cong)

text \<open>Each step does to the completed state what the call it is labelled with does, or nothing.\<close>

lemma esp_step_simulates:
  assumes "esp_step w s new s'" and ok: "esp_tasks_ok s" and w: "write_ok w"
  shows "esp_completed w s' = do { st \<leftarrow> esp_completed w s; whole_calls w new st }"
  using assms(1)
proof cases
  case (refuse i c cs)
  have "esp_completed w s' = esp_completed w s"
    using completed_quiet [OF refuse(3), of s' "Idle cs" w] refuse(2) ok by simp
  then show ?thesis using refuse(1) refused_whole refused_completed [OF ok refuse(3,4)]
    by (cases "esp_completed w s") simp_all
next
  case (enter i c cs)
  have "esp_completed w s' = esp_completed w s"
    using completed_quiet [OF enter(3), of s' "Get_Mutex c cs" w] enter(2) ok by simp
  then show ?thesis using enter(1) by simp
next
  case (stream_write i bs cs)
  have o: "s_transport_owner (es_core s) = Suc i" and m: "s_transport_mutex (es_core s) = Some (Suc i)"
    using stream_write tasks_okD(2) [OF ok] by auto
  show ?thesis
    using finish_batches [OF tasks_okD(1) [OF ok] o, of w bs cs] completed_holder [OF m stream_write(3), of w]
      completed_goes [OF stream_write(3) m] stream_write(1,2) by simp
next
  case (stream_end i cs)
  have o: "s_transport_owner (es_core s) = Suc i" and m: "s_transport_mutex (es_core s) = Some (Suc i)"
    using stream_end tasks_okD(2) [OF ok] by auto
  then show ?thesis
    using completed_holder [OF m stream_end(3), of w] completed_goes [OF stream_end(3), of "es_core s\<lparr>s_transport_owner := 0\<rparr>"]
      stream_end(1,2) tasks_okD(1) [OF ok]
    by (simp add: esp_stdio_log_vfs_raw_stream_end_def esp_stdio_log_vfs_transport_unlock_def)
next
  case (get_mutex i c cs)
  have "esp_completed w s' = esp_completed w s"
    using completed_quiet [OF get_mutex(3), of s' "if es_handle s then Take_Mutex c cs else Want_Critical c cs" w] get_mutex(2) ok by simp
  then show ?thesis using get_mutex(1) by simp
next
  case (enter_critical i c cs)
  have "esp_completed w s' = esp_completed w s"
    using completed_quiet [OF enter_critical(3), of s' "Create_Check c cs" w] enter_critical(2) ok by simp
  then show ?thesis using enter_critical(1) by simp
next
  case (created_before i c cs)
  have "esp_completed w s' = esp_completed w s"
    using completed_quiet [OF created_before(3), of s' "Leave_Critical c cs" w] created_before(2) ok by simp
  then show ?thesis using created_before(1) by simp
next
  case (create i c cs)
  have "s_transport_mutex (es_core s) = None" using tasks_okD(3) [OF ok] create(4) by blast
  then have "esp_completed w s' = esp_completed w s"
    unfolding create by (simp add: esp_completed_def)
  then show ?thesis using create(1) by simp
next
  case (publish i c cs)
  have "esp_completed w s' = esp_completed w s"
    using completed_quiet [OF publish(3), of s' "Leave_Critical c cs" w] publish(2) ok by simp
  then show ?thesis using publish(1) by simp
next
  case (leave_critical i c cs)
  have "esp_completed w s' = esp_completed w s"
    using completed_quiet [OF leave_critical(3), of s' "Take_Mutex c cs" w] leave_critical(2) ok by simp
  then show ?thesis using leave_critical(1) by simp
next
  case (take_mutex i c cs)
  have "lockable c" using tasks_okD(5) [OF ok take_mutex(3)] by simp
  then show ?thesis
    using takes_effect [OF w _ tasks_okD(1) [OF ok] take_mutex(4) tasks_okD(4) [OF ok take_mutex(4)], of c i cs]
      take_mutex completed_goes [OF take_mutex(3), of "es_core s\<lparr>s_transport_mutex := Some (Suc i)\<rparr>" w]
    by (simp add: esp_completed_def)
next
  case (hold i c cs pc st)
  have m: "s_transport_mutex (es_core s) = Some (Suc i)" using tasks_okD(5) [OF ok hold(3)] by simp
  then have "s_transport_mutex st = Some (Suc i)" using hold(4) by (cases c) auto
  then show ?thesis using completed_holder [OF m hold(3), of w] completed_goes [OF hold(3)] finish_hold [OF hold(4)] hold(1,2)
    by simp
next
  case (write_one i fd data ws ok' gives cs ws' ok'' st)
  have m: "s_transport_mutex (es_core s) = Some (Suc i)" using tasks_okD(5) [OF ok write_one(3)] by simp
  then have "s_transport_mutex st = Some (Suc i)" using write_call_io_step [OF write_one(5)] by (simp add: io_step_def)
  then show ?thesis
    using completed_holder [OF m write_one(3), of w] completed_goes [OF write_one(3)] run_writes_call [OF write_one(4,5)]
      write_one(1,2) by simp
next
  case (write_done i fd ws ok' gives cs)
  have "esp_completed w s' = esp_completed w s"
    using completed_quiet [OF write_done(3), of s' "Writing ws ok' gives cs" w] write_done(2) ok
    by (simp add: run_writes_done del: run_writes.simps)
  then show ?thesis using write_done(1) by simp
next
  case (written_all i ok' gives cs)
  have m: "s_transport_mutex (es_core s) = Some (Suc i)" using tasks_okD(5) [OF ok written_all(3)] by simp
  then show ?thesis
    using completed_holder [OF m written_all(3), of w] completed_goes [OF written_all(3)] written_all(1,2)
    by (cases gives) simp_all
next
  case (give i cs)
  have m: "s_transport_mutex (es_core s) = Some (Suc i)" using tasks_okD(5) [OF ok give(3)] by simp
  then show ?thesis using completed_holder [OF m give(3), of w] give(1,2)
    by (simp add: esp_completed_def)
qed

text \<open>The calls of a task that have taken effect, and those it still has to make.\<close>

definition calls_by :: "nat \<Rightarrow> (nat \<times> esp_call) list \<Rightarrow> esp_call list" where
  "calls_by i ops = map snd (filter (\<lambda>op. fst op = i) ops)"

primrec calls_left :: "esp_pc \<Rightarrow> esp_call list" where
  "calls_left (Idle cs) = cs"
| "calls_left (Get_Mutex c cs) = c # cs"
| "calls_left (Want_Critical c cs) = c # cs"
| "calls_left (Create_Check c cs) = c # cs"
| "calls_left (Publish c cs) = c # cs"
| "calls_left (Leave_Critical c cs) = c # cs"
| "calls_left (Take_Mutex c cs) = c # cs"
| "calls_left (Holding c cs) = cs"
| "calls_left (Writing ws ok gives cs) = cs"
| "calls_left (Giving cs) = cs"

lemma esp_step_calls:
  assumes "esp_step w s new s'"
  shows "length (es_pcs s') = length (es_pcs s) \<and> (\<forall>op \<in> set new. fst op < length (es_pcs s)) \<and>
     (\<forall>i < length (es_pcs s). calls_by i new @ calls_left (es_pcs s' ! i) = calls_left (es_pcs s ! i))"
proof -
  have left: "calls_left pc = cs" if "holder_next self st cs c = (pc, st')" for self st c cs pc st'
    using that by (cases c) auto
  show ?thesis using assms
    by cases (auto simp: es_at_def calls_by_def nth_list_update dest: left)
qed

lemma esp_runs_invariant:
  assumes "esp_runs w progs st0 ops s" and w: "write_ok w" and "scheduler_started st0"
    and "s_transport_owner st0 = 0" and "s_transport_mutex st0 = None"
  shows "esp_tasks_ok s \<and> esp_completed w s = whole_calls w ops st0 \<and> length (es_pcs s) = length progs \<and>
     (\<forall>op \<in> set ops. fst op < length progs) \<and>
     (\<forall>i < length progs. calls_by i ops @ calls_left (es_pcs s ! i) = progs ! i)"
  using assms(1)
proof (induction rule: esp_runs.induct)
  case esp_start
  then show ?case using assms(3-5) by (simp add: esp_tasks_ok_def esp_shared_ok_def esp_completed_def calls_by_def)
next
  case (esp_go ops s new s')
  then show ?case
    using esp_step_ok [OF esp_go(2)] esp_step_simulates [OF esp_go(2) _ w] esp_step_calls [OF esp_go(2)]
    by (simp add: whole_calls_append calls_by_def) blast
qed

text \<open>C14: Any number of tasks write frames and streams, add outputs and flush at once, on a transport
  whose mutex does not exist yet. In every interleaving of their steps the mutex is created at most
  once; the calls that took effect, in that order, can be made whole one after the other; and while
  nobody holds the mutex the transport is in the very state that leads to. The calls of each task
  take effect in the order of its program.\<close>

theorem esp_tasks_are_sequential:
  assumes "esp_runs w progs st0 ops s" and "write_ok w" and "scheduler_started st0"
    and "s_transport_owner st0 = 0" and "s_transport_mutex st0 = None"
  shows "(s_transport_mutex (es_core s) = None \<longrightarrow> whole_calls w ops st0 = Some (es_core s)) \<and>
     whole_calls w ops st0 \<noteq> None \<and> es_created s \<le> 1 \<and>
     (\<forall>i < length progs. calls_by i ops @ calls_left (es_pcs s ! i) = progs ! i)"
proof -
  note inv = esp_runs_invariant [OF assms]
  have "\<exists>st. finish_writes w st1 pc = Some st" for st1 pc
    using run_writes_returns [OF assms(2)]
    by (cases pc) (auto simp: finish_writes_def split: bind_split)
  then have "\<exists>st. finish w h st1 pc = Some st" for h st1 pc
    by (cases pc) (auto simp: finish_def split: prod.split)
  then have "\<exists>st. esp_completed w s = Some st"
    by (cases "s_transport_mutex (es_core s)") (simp_all add: esp_completed_def)
  moreover have "es_created s \<le> 1"
    using inv by (cases "es_handle s") (auto simp: esp_tasks_ok_def esp_shared_ok_def)
  ultimately show ?thesis using inv by (auto simp: esp_completed_def)
qed

section \<open>Frames\<close>

definition frames_of :: "(nat \<times> esp_call) list \<Rightarrow> (u8 \<times> bytes) list" where
  "frames_of ops = List.map_filter (\<lambda>(i, c). case c of Write_Frame ty bs \<Rightarrow> Some (ty, bs) | _ \<Rightarrow> None) ops"

primrec sends_frame :: "esp_call \<Rightarrow> bool" where
  "sends_frame (Write_Frame ty bs) = (length bs \<le> ESP_STDIO_LOG_VFS_FRAME_MAX_PAYLOAD)"
| "sends_frame Stream_Begin = False"
| "sends_frame (Stream_Write bs) = False"
| "sends_frame Stream_End = False"
| "sends_frame (Add_Output fd) = False"
| "sends_frame Fsync = True"

lemma fsync_free:
  assumes "may_enter self st"
  shows "whole_call w self Fsync st = Some st"
  using assms lock_free [of st self] lock_unlock_free [of st self]
  by (simp add: may_enter_def esp_stdio_log_vfs_fsync_def Let_def)

lemma frames_sent:
  assumes w: "write_ok w" "accepting w"
  shows "may_enter 1 st0 \<Longrightarrow> list_all (\<lambda>op. sends_frame (snd op)) ops \<Longrightarrow>
     \<exists>st. whole_calls w ops st0 = Some st \<and>
       sent_to w (active_outputs st0) (concat (map (\<lambda>(ty, p). slip_frame ty p) (frames_of ops))) True st0 True st"
proof (induction ops arbitrary: st0)
  case Nil
  then show ?case by (simp add: frames_of_def map_filter_simps sent_to_Nil)
next
  case (Cons op ops)
  obtain i c where op: "op = (i, c)" by (cases op)
  have enter: "may_enter (Suc i) st0" using Cons.prems(1) by (simp add: may_enter_def)
  show ?case
  proof (cases c)
    case (Write_Frame ty bs)
    then have len: "length bs \<le> 3072" using Cons.prems(2) op by simp
    obtain ok st1 where run: "esp_stdio_log_vfs_write_frame w (Suc i) ty (Some bs) (length bs) st0 =
        Some (if ok then ESP_OK else ESP_FAIL, st1)"
      and sent: "sent_to w (active_outputs st0) (slip_frame ty bs) True st0 ok st1"
      using write_frame_result [OF w(1) enter len] by blast
    have ok: "ok" using sent w(2) by (simp add: sent_to_def)
    have act: "active_outputs st1 = active_outputs st0" using sent by (simp add: sent_to_def io_step_active)
    obtain st where rest: "whole_calls w ops st1 = Some st" and
      "sent_to w (active_outputs st1) (concat (map (\<lambda>(ty, p). slip_frame ty p) (frames_of ops))) True st1 True st"
      using Cons.IH [of st1] Cons.prems sent_to_enter [OF sent] by auto
    then have "sent_to w (active_outputs st0) (slip_frame ty bs @ concat (map (\<lambda>(ty, p). slip_frame ty p) (frames_of ops)))
        True st0 True st"
      using sent_to_trans [OF sent [unfolded ok [THEN eqTrueI]]] act by simp
    then show ?thesis using run rest ok by (simp add: op Write_Frame frames_of_def map_filter_simps)
  next
    case Fsync
    have "whole_calls w (op # ops) st0 = whole_calls w ops st0"
      using fsync_free [OF enter, of w] by (simp only: whole_calls.simps op Fsync fst_conv snd_conv bind.bind_lunit)
    moreover have "frames_of (op # ops) = frames_of ops" by (simp add: frames_of_def map_filter_simps op Fsync)
    ultimately show ?thesis using Cons op by (simp del: whole_calls.simps)
  qed (use Cons.prems op in simp_all)
qed

lemma decode_after_garbage:
  "\<exists>before. decode_stream (g @ concat (map (\<lambda>(ty, p). slip_frame ty p) frames)) = before @ frames"
proof (cases frames)
  case (Cons f rest)
  obtain before where "\<forall>r. decode_stream (g @ slip_frame (fst f) (snd f) @ r) = before @ (fst f, snd f) # decode_stream r"
    using decode_stream_frame by blast
  then show ?thesis using decode_stream_frames [of rest] by (cases f) (simp add: Cons)
qed simp

text \<open>C15: While any number of tasks send frames of their own (and flush), in every interleaving and
  whatever was on an output before, a reader of it is given the frames of all tasks, none torn by
  another and none lost, in the order in which the tasks took the mutex.\<close>

theorem concurrent_frames_are_read_back:
  assumes "esp_runs w progs st0 ops s" and "write_ok w" and "accepting w" and "scheduler_started st0"
    and "may_enter 1 st0" and "list_all (list_all sends_frame) progs"
    and "s_transport_mutex (es_core s) = None" and "fd \<in> set (active_outputs st0)"
  shows "\<exists>before. decode_stream (io_out (es_core s) fd) = before @ frames_of ops"
proof -
  have free: "s_transport_owner st0 = 0" "s_transport_mutex st0 = None" using assms(5) by (simp_all add: may_enter_def)
  note inv = esp_runs_invariant [OF assms(1,2,4) free]
  have "sends_frame (snd op)" if "op \<in> set ops" for op
  proof -
    have i: "fst op < length progs" using inv that by blast
    moreover have "snd op \<in> set (calls_by (fst op) ops)" using that by (auto simp: calls_by_def)
    ultimately have "snd op \<in> set (progs ! fst op)" using inv by (metis Un_iff set_append)
    then show ?thesis using assms(6) i by (auto simp: list_all_iff)
  qed
  then obtain st where "whole_calls w ops st0 = Some st" and
    "sent_to w (active_outputs st0) (concat (map (\<lambda>(ty, p). slip_frame ty p) (frames_of ops))) True st0 True st"
    using frames_sent [OF assms(2,3,5), of ops] by (auto simp: list_all_iff)
  moreover from this have "es_core s = st"
    using inv assms(7) by (simp add: esp_completed_def)
  ultimately show ?thesis using assms(8) decode_after_garbage by (simp add: sent_to_def)
qed

end
