(* ===== verification/EspTasksFinish.thy ===== *)
theory EspTasksFinish
  imports EspTasksCorrect
begin

text \<open>
  Tasks on the ESP transport never block each other for ever, as long as each ends the streams it
  begins and neither adds outputs nor flushes before it does; and a schedule, executed, to which the
  theorems on interleavings are applied.
\<close>

section \<open>Programs with self-contained streams\<close>

text \<open>
  \<open>inside\<close>: the task has begun a stream. Until it ends that stream it may write to it, and send frames
  or begin another one (both are refused), but it may not add outputs or flush: those take the mutex
  without a look at the owner mark (\<^verbatim>\<open>src/esp_stdio_log_vfs.c\<close>, lines 509 and 608), and the task holds
  it already, so it would wait for itself (\<open>flush_inside_a_stream_never_returns\<close>). A program has
  self-contained streams if it keeps to this and ends every stream it begins.
\<close>

primrec call_balance :: "bool \<Rightarrow> esp_call \<Rightarrow> bool" where
  "call_balance inside (Write_Frame ty bs) = True"
| "call_balance inside Stream_Begin = True"
| "call_balance inside (Stream_Write bs) = True"
| "call_balance inside Stream_End = True"
| "call_balance inside (Add_Output fd) = (\<not> inside)"
| "call_balance inside Fsync = (\<not> inside)"

primrec goes_inside :: "bool \<Rightarrow> esp_call \<Rightarrow> bool" where
  "goes_inside inside (Write_Frame ty bs) = inside"
| "goes_inside inside Stream_Begin = True"
| "goes_inside inside (Stream_Write bs) = inside"
| "goes_inside inside Stream_End = False"
| "goes_inside inside (Add_Output fd) = inside"
| "goes_inside inside Fsync = inside"

fun streams_self_contained :: "bool \<Rightarrow> esp_call list \<Rightarrow> bool" where
  "streams_self_contained inside [] = (\<not> inside)"
| "streams_self_contained inside (c # cs) = (call_balance inside c \<and> streams_self_contained (goes_inside inside c) cs)"

primrec balanced_pc :: "esp_tasks \<Rightarrow> nat \<Rightarrow> esp_pc \<Rightarrow> bool" where
  "balanced_pc s i (Idle cs) = streams_self_contained (s_transport_owner (es_core s) = Suc i) cs"
| "balanced_pc s i (Get_Mutex c cs) = (s_transport_owner (es_core s) \<noteq> Suc i \<and> streams_self_contained False (c # cs))"
| "balanced_pc s i (Want_Critical c cs) = (s_transport_owner (es_core s) \<noteq> Suc i \<and> streams_self_contained False (c # cs))"
| "balanced_pc s i (Create_Check c cs) = (s_transport_owner (es_core s) \<noteq> Suc i \<and> streams_self_contained False (c # cs))"
| "balanced_pc s i (Publish c cs) = (s_transport_owner (es_core s) \<noteq> Suc i \<and> streams_self_contained False (c # cs))"
| "balanced_pc s i (Leave_Critical c cs) = (s_transport_owner (es_core s) \<noteq> Suc i \<and> streams_self_contained False (c # cs))"
| "balanced_pc s i (Take_Mutex c cs) = (s_transport_owner (es_core s) \<noteq> Suc i \<and> streams_self_contained False (c # cs))"
| "balanced_pc s i (Holding c cs) = streams_self_contained False (c # cs)"
| "balanced_pc s i (Writing ws ok gives cs) = streams_self_contained (\<not> gives) cs"
| "balanced_pc s i (Giving cs) = streams_self_contained False cs"

definition balanced_tasks :: "esp_tasks \<Rightarrow> bool" where
  "balanced_tasks s \<longleftrightarrow> (\<forall>i < length (es_pcs s). balanced_pc s i (es_pcs s ! i))"

lemma balanced_step:
  assumes "balanced_tasks s" and "es_at s i pc" and "es_pcs s' = (es_pcs s)[i := pc']" and "balanced_pc s' i pc'"
    and "\<And>j. j \<noteq> i \<Longrightarrow> s_transport_owner (es_core s') = Suc j \<longleftrightarrow> s_transport_owner (es_core s) = Suc j"
  shows "balanced_tasks s'"
proof -
  have "balanced_pc s' j (es_pcs s' ! j)" if "j < length (es_pcs s')" for j
  proof (cases "j = i")
    case False
    have "balanced_pc s' j pc = balanced_pc s j pc" for pc using assms(5) [OF False] by (cases pc) simp_all
    then show ?thesis using assms(1,3) that False by (simp add: balanced_tasks_def)
  qed (use assms(2-4) in \<open>simp add: es_at_def\<close>)
  then show ?thesis by (simp add: balanced_tasks_def)
qed

lemma holder_next_balanced:
  assumes "holder_next (Suc i) (es_core s) cs c = (pc', st)" and "streams_self_contained False (c # cs)" and "lockable c"
    and "s_transport_owner (es_core s) = 0"
  shows "balanced_pc (es_goes i pc' st s) i pc'" and "s_transport_owner st \<in> {0, Suc i}"
  using assms by (cases c; auto)+

lemma esp_step_balanced:
  assumes "esp_step w s new s'" and bal: "balanced_tasks s" and ok: "esp_tasks_ok s"
  shows "balanced_tasks s'"
proof -
  have b: "es_at s i pc \<Longrightarrow> balanced_pc s i pc" for i pc using bal by (auto simp: balanced_tasks_def es_at_def)
  show ?thesis using assms(1)
  proof cases
    case (refuse i c cs)
    have "streams_self_contained (s_transport_owner (es_core s) = Suc i) cs"
      using b [OF refuse(3)] refuse(4) by (cases c) (auto split: if_splits)
    then show ?thesis by (intro balanced_step [OF bal refuse(3), of s' "Idle cs"]) (simp_all add: refuse(2))
  next
    case (enter i c cs)
    have "s_transport_owner (es_core s) \<noteq> Suc i"
      using b [OF enter(3)] enter(4,5) by (cases c) auto
    then show ?thesis using b [OF enter(3)]
      by (intro balanced_step [OF bal enter(3), of s' "Get_Mutex c cs"]) (simp_all add: enter(2))
  next
    case (stream_write i bs cs)
    then show ?thesis using b [OF stream_write(3)]
      by (intro balanced_step [OF bal stream_write(3), of s' "Writing (batch_writes (active_outputs (es_core s)) [bs]) True False cs"])
        simp_all
  next
    case (stream_end i cs)
    then show ?thesis using b [OF stream_end(3)]
      by (intro balanced_step [OF bal stream_end(3), of s' "Giving cs"]) simp_all
  next
    case (get_mutex i c cs)
    then show ?thesis using b [OF get_mutex(3)]
      by (intro balanced_step [OF bal get_mutex(3), of s' "if es_handle s then Take_Mutex c cs else Want_Critical c cs"]) simp_all
  next
    case (enter_critical i c cs)
    then show ?thesis using b [OF enter_critical(3)]
      by (intro balanced_step [OF bal enter_critical(3), of s' "Create_Check c cs"]) simp_all
  next
    case (created_before i c cs)
    then show ?thesis using b [OF created_before(3)]
      by (intro balanced_step [OF bal created_before(3), of s' "Leave_Critical c cs"]) simp_all
  next
    case (create i c cs)
    then show ?thesis using b [OF create(3)]
      by (intro balanced_step [OF bal create(3), of s' "Publish c cs"]) simp_all
  next
    case (publish i c cs)
    then show ?thesis using b [OF publish(3)]
      by (intro balanced_step [OF bal publish(3), of s' "Leave_Critical c cs"]) simp_all
  next
    case (leave_critical i c cs)
    then show ?thesis using b [OF leave_critical(3)]
      by (intro balanced_step [OF bal leave_critical(3), of s' "Take_Mutex c cs"]) simp_all
  next
    case (take_mutex i c cs)
    then show ?thesis using b [OF take_mutex(3)]
      by (intro balanced_step [OF bal take_mutex(3), of s' "Holding c cs"]) simp_all
  next
    case (hold i c cs pc st)
    then show ?thesis using b [OF hold(3)] tasks_okD(5) [OF ok hold(3)] holder_next_balanced [OF hold(4)]
      by (intro balanced_step [OF bal hold(3), of s' pc]) auto
  next
    case (write_one i fd data ws ok' gives cs ws' ok'' st)
    then show ?thesis using b [OF write_one(3)] write_call_io_step [OF write_one(5)]
      by (intro balanced_step [OF bal write_one(3), of s' "Writing ws' ok'' gives cs"]) (simp_all add: io_step_def)
  next
    case (write_done i fd ws ok' gives cs)
    then show ?thesis using b [OF write_done(3)]
      by (intro balanced_step [OF bal write_done(3), of s' "Writing ws ok' gives cs"]) simp_all
  next
    case (written_all i ok' gives cs)
    then show ?thesis using b [OF written_all(3)] tasks_okD(5) [OF ok written_all(3)]
      by (intro balanced_step [OF bal written_all(3), of s' "if gives then Giving cs else Idle cs"]) (cases gives; simp)+
  next
    case (give i cs)
    then show ?thesis using b [OF give(3)] tasks_okD(5) [OF ok give(3)]
      by (intro balanced_step [OF bal give(3), of s' "Idle cs"]) simp_all
  qed
qed

section \<open>Somebody can go on\<close>

text \<open>Only a task that is done, waits for the mutex or waits for the critical section cannot step.\<close>

lemma esp_can_step:
  assumes "es_at s i pc" and stuck: "\<And>new s'. \<not> esp_step w s new s'"
  shows "pc = Idle [] \<or> (\<exists>c cs. pc = Want_Critical c cs \<and> es_critical s \<noteq> None) \<or>
     (\<exists>c cs. pc = Take_Mutex c cs \<and> s_transport_mutex (es_core s) \<noteq> None)"
proof (cases pc)
  case (Idle cs)
  show ?thesis
  proof (cases cs)
    case (Cons c cs')
    have "\<exists>new s'. esp_step w s new s'"
    proof (cases "refused (Suc i) (es_core s) c")
      case True
      then show ?thesis using assms(1) Idle Cons esp_step.refuse by blast
    next
      case False
      moreover have "takes_mutex c \<or> (\<exists>bs. c = Stream_Write bs) \<or> c = Stream_End" by (cases c) simp_all
      ultimately show ?thesis
        using assms(1) Idle Cons esp_step.enter esp_step.stream_write esp_step.stream_end by blast
    qed
    then show ?thesis using assms(2) by blast
  qed (use Idle in simp)
next
  case (Create_Check c cs)
  then show ?thesis using assms(1) stuck esp_step.create [of s i c cs w] esp_step.created_before [of s i c cs w]
    by (cases "es_handle s") simp_all
next
  case (Holding c cs)
  then show ?thesis using assms esp_step.hold by (cases "holder_next (Suc i) (es_core s) cs c") blast
next
  case (Writing ws ok gives cs)
  show ?thesis
  proof (cases ws)
    case Nil
    then show ?thesis using assms Writing esp_step.written_all by blast
  next
    case (Cons x ws')
    obtain fd data where x: "x = (fd, data)" by (cases x)
    show ?thesis
    proof (cases "data = []")
      case True
      then show ?thesis using assms Writing Cons x esp_step.write_done by blast
    next
      case False
      then show ?thesis using assms Writing Cons x esp_step.write_one
        by (cases "write_call w fd data ws' ok (es_core s)") blast
    qed
  qed
next
  case (Get_Mutex c cs)
  then show ?thesis using assms(1) stuck esp_step.get_mutex [of s i c cs w] by simp
next
  case (Want_Critical c cs)
  then show ?thesis using assms(1) stuck esp_step.enter_critical [of s i c cs w] by auto
next
  case (Publish c cs)
  then show ?thesis using assms(1) stuck esp_step.publish [of s i c cs w] by simp
next
  case (Leave_Critical c cs)
  then show ?thesis using assms(1) stuck esp_step.leave_critical [of s i c cs w] by simp
next
  case (Take_Mutex c cs)
  then show ?thesis using assms(1) stuck esp_step.take_mutex [of s i c cs w] by auto
next
  case (Giving cs)
  then show ?thesis using assms(1) stuck esp_step.give [of s i cs w] by simp
qed

text \<open>C16: No deadlock on the ESP transport: while tasks with self-contained streams have calls left to
  make, some task can make a step, whatever the system does with their writes. Self-contained means
  that a task ends every stream it begins and, in between, neither adds an output nor flushes; without
  the second condition the code does deadlock (\<open>flush_inside_a_stream_never_returns\<close>).\<close>

theorem esp_tasks_go_on:
  assumes "esp_runs w progs st0 ops s" and "write_ok w" and "scheduler_started st0"
    and "s_transport_owner st0 = 0" and "s_transport_mutex st0 = None" and "list_all (streams_self_contained False) progs"
  shows "(\<exists>new s'. esp_step w s new s') \<or> list_all (\<lambda>pc. pc = Idle []) (es_pcs s)"
proof (rule disjCI)
  assume "\<not> list_all (\<lambda>pc. pc = Idle []) (es_pcs s)"
  then obtain i where i: "i < length (es_pcs s)" "es_pcs s ! i \<noteq> Idle []" by (auto simp: list_all_length)
  have bal: "balanced_tasks s" using assms(1)
  proof (induction rule: esp_runs.induct)
    case esp_start
    then show ?case using assms(4,6) by (simp add: balanced_tasks_def list_all_length)
  next
    case (esp_go ops s new s')
    then show ?case using esp_step_balanced esp_runs_invariant [OF esp_go(1) assms(2-5)] by blast
  qed
  have ok: "esp_tasks_ok s" using esp_runs_invariant [OF assms(1-5)] by simp
  show "\<exists>new s'. esp_step w s new s'"
  proof (rule ccontr)
    assume stuck: "\<not> (\<exists>new s'. esp_step w s new s')"
    then have can: "es_at s i pc \<Longrightarrow> pc = Idle [] \<or> (\<exists>c cs. pc = Want_Critical c cs \<and> es_critical s \<noteq> None) \<or>
        (\<exists>c cs. pc = Take_Mutex c cs \<and> s_transport_mutex (es_core s) \<noteq> None)" for i pc using esp_can_step by blast
    have crit: "es_critical s = None"
    proof (cases "es_critical s")
      case (Some j)
      then have j: "es_at s j (es_pcs s ! j)" "in_critical (es_pcs s ! j)"
        using ok by (auto simp: esp_tasks_ok_def esp_shared_ok_def es_at_def)
      then show ?thesis using can [OF j(1)] by auto
    qed
    have "s_transport_mutex (es_core s) = None"
    proof (cases "s_transport_mutex (es_core s)")
      case (Some h)
      then obtain j where j: "h = Suc j" "es_at s j (es_pcs s ! j)"
        using ok by (cases h) (auto simp: esp_tasks_ok_def esp_shared_ok_def es_at_def)
      have pc: "esp_pc_ok s j (es_pcs s ! j)" "balanced_pc s j (es_pcs s ! j)"
        using tasks_okD(5) [OF ok j(2)] bal j(2) by (simp_all add: balanced_tasks_def es_at_def)
      from can [OF j(2)] show ?thesis
        using pc Some j(1) crit by auto
    qed simp
    then show False using can [of i] crit i by (auto simp: es_at_def)
  qed
qed

text \<open>What happens otherwise: a task that flushes inside its own stream waits for itself.\<close>

lemma flush_inside_a_stream_never_returns:
  assumes "esp_stdio_log_vfs_raw_stream_begin self st = Some (ESP_OK, st')" and "scheduler_started st"
  shows "esp_stdio_log_vfs_fsync sync_fails self st' = None" and "esp_stdio_log_vfs_add_output self True fd st' = None"
  using assms
  by (auto simp: esp_stdio_log_vfs_raw_stream_begin_def esp_stdio_log_vfs_transport_lock_def esp_stdio_log_vfs_fsync_def
      esp_stdio_log_vfs_add_output_def split: if_splits option.splits)

section \<open>A schedule, executed\<close>

text \<open>The step of task \<open>i\<close>, if it can make one.\<close>

definition esp_next :: "write_fn \<Rightarrow> nat \<Rightarrow> esp_tasks \<Rightarrow> ((nat \<times> esp_call) list \<times> esp_tasks) option" where
  "esp_next w i s =
     (let st = es_core s
      in if \<not> i < length (es_pcs s) then None
         else case es_pcs s ! i of
           Idle [] \<Rightarrow> None
         | Idle (c # cs) \<Rightarrow>
             if refused (Suc i) st c then Some ([(i, c)], es_goes i (Idle cs) st s)
             else if takes_mutex c then Some ([], es_goes i (Get_Mutex c cs) st s)
             else (case c of
                     Stream_Write bs \<Rightarrow>
                       Some ([(i, c)], es_goes i (Writing (batch_writes (active_outputs st) [bs]) True False cs) st s)
                   | Stream_End \<Rightarrow> Some ([(i, c)], es_goes i (Giving cs) (st\<lparr>s_transport_owner := 0\<rparr>) s)
                   | _ \<Rightarrow> None)
         | Get_Mutex c cs \<Rightarrow> Some ([], es_goes i (if es_handle s then Take_Mutex c cs else Want_Critical c cs) st s)
         | Want_Critical c cs \<Rightarrow>
             if es_critical s = None then Some ([], es_goes i (Create_Check c cs) st (s\<lparr>es_critical := Some i\<rparr>)) else None
         | Create_Check c cs \<Rightarrow>
             if es_handle s then Some ([], es_goes i (Leave_Critical c cs) st s)
             else Some ([], es_goes i (Publish c cs) (st\<lparr>s_transport_mutex := None\<rparr>) (s\<lparr>es_created := Suc (es_created s)\<rparr>))
         | Publish c cs \<Rightarrow> Some ([], es_goes i (Leave_Critical c cs) st (s\<lparr>es_handle := True\<rparr>))
         | Leave_Critical c cs \<Rightarrow> Some ([], es_goes i (Take_Mutex c cs) st (s\<lparr>es_critical := None\<rparr>))
         | Take_Mutex c cs \<Rightarrow>
             if s_transport_mutex st = None
             then Some ([(i, c)], es_goes i (Holding c cs) (st\<lparr>s_transport_mutex := Some (Suc i)\<rparr>) s) else None
         | Holding c cs \<Rightarrow> (case holder_next (Suc i) st cs c of (pc, st) \<Rightarrow> Some ([], es_goes i pc st s))
         | Writing [] ok gives cs \<Rightarrow>
             Some ([], if gives then es_goes i (Giving cs) (st\<lparr>s_transport_owner := 0\<rparr>) s else es_goes i (Idle cs) st s)
         | Writing (x # ws) ok gives cs \<Rightarrow>
             if snd x = [] then Some ([], es_goes i (Writing ws ok gives cs) st s)
             else (case write_call w (fst x) (snd x) ws ok st of (ws, ok, st) \<Rightarrow> Some ([], es_goes i (Writing ws ok gives cs) st s))
         | Giving cs \<Rightarrow> Some ([], es_goes i (Idle cs) (st\<lparr>s_transport_mutex := None\<rparr>) s))"

lemma esp_next_sound:
  assumes "esp_next w i s = Some (new, s')"
  shows "esp_step w s new s'"
proof -
  have "i < length (es_pcs s)" using assms by (auto simp: esp_next_def Let_def split: if_splits)
  then have at: "es_at s i (es_pcs s ! i)" by (simp add: es_at_def)
  show ?thesis
  proof (cases "es_pcs s ! i")
    case (Idle cs)
    show ?thesis
    proof (cases cs)
      case (Cons c cs')
      have "refused (Suc i) (es_core s) c \<or> takes_mutex c \<or> (\<exists>bs. c = Stream_Write bs) \<or> c = Stream_End"
        by (cases c) simp_all
      then show ?thesis using assms at Idle Cons esp_step.refuse [of s i c cs' w] esp_step.enter [of s i c cs' w]
          esp_step.stream_write [of s i _ cs' w] esp_step.stream_end [of s i cs' w]
        by (auto simp: esp_next_def Let_def split: if_splits)
    qed (use assms Idle in \<open>simp add: esp_next_def Let_def split: if_splits\<close>)
  next
    case (Get_Mutex c cs)
    then show ?thesis using assms at esp_step.get_mutex [of s i c cs w] by (auto simp: esp_next_def Let_def split: if_splits)
  next
    case (Want_Critical c cs)
    then show ?thesis using assms at esp_step.enter_critical [of s i c cs w]
      by (auto simp: esp_next_def Let_def split: if_splits)
  next
    case (Create_Check c cs)
    then show ?thesis using assms at esp_step.create [of s i c cs w] esp_step.created_before [of s i c cs w]
      by (auto simp: esp_next_def Let_def split: if_splits)
  next
    case (Publish c cs)
    then show ?thesis using assms at esp_step.publish [of s i c cs w] by (auto simp: esp_next_def Let_def split: if_splits)
  next
    case (Leave_Critical c cs)
    then show ?thesis using assms at esp_step.leave_critical [of s i c cs w]
      by (auto simp: esp_next_def Let_def split: if_splits)
  next
    case (Take_Mutex c cs)
    then show ?thesis using assms at esp_step.take_mutex [of s i c cs w] by (auto simp: esp_next_def Let_def split: if_splits)
  next
    case (Holding c cs)
    then show ?thesis using assms at esp_step.hold [of s i c cs _ _ w]
      by (auto simp: esp_next_def Let_def split: if_splits prod.splits)
  next
    case (Writing ws ok gives cs)
    show ?thesis
    proof (cases ws)
      case Nil
      then show ?thesis using assms at Writing esp_step.written_all [of s i ok gives cs w]
        by (auto simp: esp_next_def Let_def split: if_splits)
    next
      case (Cons x ws')
      then show ?thesis using assms at Writing esp_step.write_one [of s i "fst x" "snd x" ws' ok gives cs w]
          esp_step.write_done [of s i "fst x" ws' ok gives cs w]
        by (cases x) (auto simp: esp_next_def Let_def split: if_splits prod.splits)
    qed
  next
    case (Giving cs)
    then show ?thesis using assms at esp_step.give [of s i cs w] by (auto simp: esp_next_def Let_def split: if_splits)
  qed
qed

primrec esp_schedule ::
    "write_fn \<Rightarrow> nat list \<Rightarrow> (nat \<times> esp_call) list \<times> esp_tasks \<Rightarrow> ((nat \<times> esp_call) list \<times> esp_tasks) option" where
  "esp_schedule w [] r = Some r"
| "esp_schedule w (i # is) r =
     (case esp_next w i (snd r) of None \<Rightarrow> None | Some (new, s) \<Rightarrow> esp_schedule w is (fst r @ new, s))"

lemma esp_schedule_runs:
  "esp_runs w progs st0 (fst r) (snd r) \<Longrightarrow> esp_schedule w is r = Some (ops, s) \<Longrightarrow> esp_runs w progs st0 ops s"
proof (induction "is" arbitrary: r)
  case (Cons i "is")
  then obtain new s1 where "esp_next w i (snd r) = Some (new, s1)" "esp_schedule w is (fst r @ new, s1) = Some (ops, s)"
    by (auto split: option.splits prod.splits)
  then show ?case using Cons.IH [of "(fst r @ new, s1)"] Cons.prems(1)
      esp_runs.esp_go [OF _ esp_next_sound, of w progs st0 "fst r" "snd r" i new s1] by simp
qed simp

text \<open>
  Two tasks send a frame each, both find the mutex missing, and the second creates it while the first
  waits for the critical section.
\<close>

definition demo_esp_progs :: "esp_call list list" where
  "demo_esp_progs = [[Write_Frame 1 [165]], [Write_Frame 2 [10]]]"

definition demo_esp_schedule :: "nat list" where
  "demo_esp_schedule =
     [0, 0, 1, 1, 1, 1, 1, 1, 0, 0, 0, 1, 1, 1, 1, 1, 1, 1, 1, 0, 0, 0, 0, 0, 0, 0, 0]"

definition demo_esp_tasks :: "nat list \<Rightarrow> ((nat \<times> esp_call) list \<times> esp_tasks) option" where
  "demo_esp_tasks sched =
     esp_schedule takes_all sched
       ([], \<lparr>es_core = demo_transport, es_handle = False, es_created = 0, es_critical = None,
             es_pcs = map Idle demo_esp_progs\<rparr>)"

lemma short_frame:
  assumes "length bs \<le> 60"
  shows "frame_batches ty bs = [slip_frame ty bs]"
  unfolding frame_batches_def using length_slip_frame [of ty bs] assms
  by (intro batches_short) (simp_all add: slip_frame_def)

lemma slip_frame_not_Nil: "slip_frame ty bs \<noteq> []"
  by (simp add: slip_frame_def)

lemma demo_esp_end:
  "\<exists>s. demo_esp_tasks demo_esp_schedule = Some ([(1, Write_Frame 2 [10]), (0, Write_Frame 1 [165])], s) \<and>
     es_pcs s = [Idle [], Idle []] \<and> s_transport_mutex (es_core s) = None \<and> es_created s = 1"
  by (simp add: demo_esp_tasks_def demo_esp_schedule_def demo_esp_progs_def demo_transport_def
      esp_transport_initial_def esp_next_def es_goes_def active_outputs_def short_frame batch_writes_def
      write_call_def takes_all_def note_write_def slip_frame_not_Nil numeral_2_eq_2)

lemma demo_esp_runs:
  obtains s where "esp_runs takes_all demo_esp_progs demo_transport [(1, Write_Frame 2 [10]), (0, Write_Frame 1 [165])] s"
    and "s_transport_mutex (es_core s) = None" and "es_created s = 1"
proof -
  obtain s where s: "demo_esp_tasks demo_esp_schedule = Some ([(1, Write_Frame 2 [10]), (0, Write_Frame 1 [165])], s)"
    "s_transport_mutex (es_core s) = None" "es_created s = 1"
    using demo_esp_end by blast
  have "esp_runs takes_all demo_esp_progs demo_transport [(1, Write_Frame 2 [10]), (0, Write_Frame 1 [165])] s"
    by (rule esp_schedule_runs [OF _ s(1) [unfolded demo_esp_tasks_def]]) (simp add: esp_runs.esp_start)
  then show ?thesis using s(2,3) by (rule that)
qed

lemma demo_transport_free:
  "scheduler_started demo_transport" "s_transport_owner demo_transport = 0" "s_transport_mutex demo_transport = None"
  "may_enter 1 demo_transport"
  using demo_transport_enter
  by (simp_all add: may_enter_def) (simp add: demo_transport_def esp_transport_initial_def)

theorem esp_tasks_are_sequential_witness:
  "\<exists>s :: esp_tasks. es_created s = 1 \<and>
     whole_calls takes_all [(1, Write_Frame 2 [10]), (0, Write_Frame 1 [165])] demo_transport = Some (es_core s)"
proof (rule demo_esp_runs)
  fix s
  assume r: "esp_runs takes_all demo_esp_progs demo_transport [(1, Write_Frame 2 [10]), (0, Write_Frame 1 [165])] s"
    and "s_transport_mutex (es_core s) = None" "es_created s = 1"
  then show ?thesis
    using esp_tasks_are_sequential [OF r takes_all_ok(1) demo_transport_free(1-3)] by blast
qed

theorem concurrent_frames_are_read_back_witness:
  "\<exists>(s :: esp_tasks) before. decode_stream (io_out (es_core s) 5) = before @ [(2, [10]), (1, [165])]"
proof (rule demo_esp_runs)
  fix s
  assume r: "esp_runs takes_all demo_esp_progs demo_transport [(1, Write_Frame 2 [10]), (0, Write_Frame 1 [165])] s"
    and free: "s_transport_mutex (es_core s) = None"
  have "list_all (list_all sends_frame) demo_esp_progs" by (simp add: demo_esp_progs_def)
  moreover have "5 \<in> set (active_outputs demo_transport)"
    by (simp add: demo_transport_def esp_transport_initial_def active_outputs_def numeral_2_eq_2)
  ultimately show ?thesis
    using concurrent_frames_are_read_back [OF r takes_all_ok demo_transport_free(1,4) _ free, of 5]
    by (auto simp: frames_of_def map_filter_simps)
qed

theorem esp_tasks_go_on_witness:
  "\<exists>new s'. esp_step takes_all \<lparr>es_core = demo_transport, es_handle = False, es_created = 0, es_critical = None,
     es_pcs = map Idle [[Stream_Begin, Stream_Write [1], Stream_End], [Fsync]]\<rparr> new s'"
proof -
  have "list_all (streams_self_contained False) [[Stream_Begin, Stream_Write [1], Stream_End], [Fsync]]" by simp
  from esp_tasks_go_on [OF esp_runs.esp_start takes_all_ok(1) demo_transport_free(1-3) this] show ?thesis by simp
qed

end
