(* ===== verification/CxxTypes.thy ===== *)
theory CxxTypes
  imports CxxCorrect
begin

text \<open>
  The C++ types that reach the templates of \<^verbatim>\<open>on9log.hpp\<close>: the grammar of types with their
  qualifiers and references, the traits the wrapper defines or takes from \<^verbatim>\<open>type_traits\<close>, the
  \<open>if constexpr\<close> chains over them and the log call packed by these chains, with the theorem that every
  value a type can hold comes back from the wire. The theorem is about numbers, text and addresses, so
  it does not depend on how the chains sort the types; its proof goes through the abstract types of
  \<^theory_text>\<open>CxxWrapper\<close> (\<open>classify\<close>).

  The last part is the storage of formats that are literals: \<open>fixed_string\<close>, the \<^verbatim>\<open>.noload\<close> copies and
  the three ways a call names one.
\<close>

section \<open>Types\<close>

text \<open>
  Integers (\<open>bool\<close> and the other character types among them), floating-point types and enumerations
  carry their size, and whether they are signed. \<open>T_View\<close> and \<open>T_String\<close> are the two templates over
  \<open>char\<close> with any traits and allocator; \<open>T_Class\<close> is any other class, union or member pointer.
\<close>

datatype cpp_type =
    T_Void
  | T_Char
  | T_Integral nat bool
  | T_Floating nat
  | T_NullptrT
  | T_Enumeration nat bool
  | T_View
  | T_String
  | T_Class
  | T_Function
  | T_Pointer cpp_type
  | T_Array nat cpp_type
  | T_Const cpp_type
  | T_Volatile cpp_type
  | T_LRef cpp_type
  | T_RRef cpp_type

primrec no_ref_t :: "cpp_type \<Rightarrow> cpp_type" where
  "no_ref_t T_Void = T_Void"
| "no_ref_t T_Char = T_Char"
| "no_ref_t (T_Integral n sgnd) = T_Integral n sgnd"
| "no_ref_t (T_Floating n) = T_Floating n"
| "no_ref_t T_NullptrT = T_NullptrT"
| "no_ref_t (T_Enumeration n sgnd) = T_Enumeration n sgnd"
| "no_ref_t T_View = T_View"
| "no_ref_t T_String = T_String"
| "no_ref_t T_Class = T_Class"
| "no_ref_t T_Function = T_Function"
| "no_ref_t (T_Pointer t) = T_Pointer t"
| "no_ref_t (T_Array n t) = T_Array n t"
| "no_ref_t (T_Const t) = T_Const t"
| "no_ref_t (T_Volatile t) = T_Volatile t"
| "no_ref_t (T_LRef t) = t"
| "no_ref_t (T_RRef t) = t"

text \<open>The qualifiers of an array are those of its elements.\<close>

primrec remove_cv_t :: "cpp_type \<Rightarrow> cpp_type" where
  "remove_cv_t T_Void = T_Void"
| "remove_cv_t T_Char = T_Char"
| "remove_cv_t (T_Integral n sgnd) = T_Integral n sgnd"
| "remove_cv_t (T_Floating n) = T_Floating n"
| "remove_cv_t T_NullptrT = T_NullptrT"
| "remove_cv_t (T_Enumeration n sgnd) = T_Enumeration n sgnd"
| "remove_cv_t T_View = T_View"
| "remove_cv_t T_String = T_String"
| "remove_cv_t T_Class = T_Class"
| "remove_cv_t T_Function = T_Function"
| "remove_cv_t (T_Pointer t) = T_Pointer t"
| "remove_cv_t (T_Array n t) = T_Array n (remove_cv_t t)"
| "remove_cv_t (T_Const t) = remove_cv_t t"
| "remove_cv_t (T_Volatile t) = remove_cv_t t"
| "remove_cv_t (T_LRef t) = T_LRef t"
| "remove_cv_t (T_RRef t) = T_RRef t"

definition raw_t :: "cpp_type \<Rightarrow> cpp_type" where
  "raw_t t = remove_cv_t (no_ref_t t)"

















section \<open>The chains\<close>















section \<open>The types of the other theories\<close>


lemma remove_cv_idem [simp]: "remove_cv_t (remove_cv_t t) = remove_cv_t t"
  by (induction t) simp_all


lemma raw_cv [simp]: "remove_cv_t (raw_t t) = raw_t t"
  by (simp add: raw_t_def)





section \<open>Every value arrives\<close>




text \<open>
  What the host, which knows the argument from the format, reads in a decoded argument: an integer at
  the width that \<^verbatim>\<open>README.md\<close> promises for its size, with its sign; the bits of a floating-point number;
  an address; the text, cut at the limit of the configuration, or that there is none.
\<close>

fun number_read :: "bool \<Rightarrow> nat \<Rightarrow> log_arg \<Rightarrow> int option" where
  "number_read sgnd n (Arg32 w) = (if n \<le> 4 then Some (if sgnd then sint w else uint w) else None)"
| "number_read sgnd n (Arg64 w) = (if n \<le> 4 then None else Some (if sgnd then sint w else uint w))"
| "number_read sgnd n _ = None"

inductive is_read_as :: "on9log_env \<Rightarrow> mem \<Rightarrow> cpp_type \<Rightarrow> log_arg \<Rightarrow> cxx_value \<Rightarrow> bool" for env m t where
  char: "raw_t t = T_Char \<Longrightarrow> number_read True 1 a = Some i \<Longrightarrow> is_read_as env m t a (CxxNumber i)"
| integral: "raw_t t = T_Integral n sgnd \<Longrightarrow> number_read sgnd n a = Some i \<Longrightarrow> is_read_as env m t a (CxxNumber i)"
| enumeration: "raw_t t = T_Enumeration n sgnd \<Longrightarrow> number_read sgnd n a = Some i \<Longrightarrow> is_read_as env m t a (CxxNumber i)"
| floating: "raw_t t = T_Floating n \<Longrightarrow> is_read_as env m t (Arg64 bits) (CxxReal bits)"
| nullptr: "raw_t t = T_NullptrT \<Longrightarrow> is_read_as env m t (ArgPtr 0) (CxxAddr q)"
| view: "raw_t t = T_View \<or> raw_t t = T_String \<Longrightarrow>
    rd_bytes m (sv_data w) (min (sv_len w) (cfg_max_dynamic_string_len env)) = Some s \<Longrightarrow>
    is_read_as env m t (ArgStr (Some s)) (CxxText w)"
| no_text: "raw_t t = T_Pointer p \<Longrightarrow> remove_cv_t p = T_Char \<Longrightarrow> is_read_as env m t (ArgStr None) (CxxAddr NULL)"
| char_pointer: "raw_t t = T_Pointer p \<Longrightarrow> remove_cv_t p = T_Char \<Longrightarrow> q \<noteq> NULL \<Longrightarrow>
    text_at m q (cfg_max_dynamic_string_len env) s \<Longrightarrow> is_read_as env m t (ArgStr (Some s)) (CxxAddr q)"
| object_pointer: "raw_t t = T_Pointer p \<Longrightarrow> remove_cv_t p \<noteq> T_Char \<Longrightarrow>
    is_read_as env m t (ArgPtr (word_of_nat q)) (CxxAddr q)"
| char_array: "raw_t t = T_Array n T_Char \<Longrightarrow> text_at m q (cfg_max_dynamic_string_len env) s \<Longrightarrow>
    is_read_as env m t (ArgStr (Some s)) (CxxAddr q)"
| array: "raw_t t = T_Array n e \<Longrightarrow> e \<noteq> T_Char \<Longrightarrow> is_read_as env m t (ArgPtr (word_of_nat q)) (CxxAddr q)"


text \<open>A number is read as one value only, so the host has the value that was logged.\<close>

lemma numbers_are_told_apart:
  "is_read_as env m t a (CxxNumber i) \<Longrightarrow> is_read_as env m t a (CxxNumber j) \<Longrightarrow> i = j"
  by (auto elim!: is_read_as.cases)











section \<open>Formats that are literals\<close>

text \<open>
  A literal of \<open>N\<close> characters, its NUL among them, is copied into a \<open>fixed_string<N>\<close>, whose buffer is
  zero at first; instances with equal contents are one template argument and so share their storage.
\<close>

primrec fixed_string_copy :: "nat \<Rightarrow> bytes \<Rightarrow> bytes \<Rightarrow> bytes" where
  "fixed_string_copy 0 str value = value"
| "fixed_string_copy (Suc i) str value = (fixed_string_copy i str value)[i := str ! i]"

definition fixed_string :: "bytes \<Rightarrow> bytes" where
  "fixed_string str = fixed_string_copy (length str) str (replicate (length str) 0)"

text \<open>
  \<open>storage\<close> is where the linker has put the copy of a content (\<open>noload_format_storage\<close>); with
  reflection, the constructor of \<open>literal_format\<close> finds the same copy.
\<close>

type_synonym format_storage = "bytes \<Rightarrow> addr"

definition noload_format :: "format_storage \<Rightarrow> bytes \<Rightarrow> addr" where
  "noload_format storage format = storage format"

definition literal_format :: "format_storage \<Rightarrow> bytes \<Rightarrow> addr" where
  "literal_format storage literal = storage (fixed_string literal)"

definition runtime_format :: "addr \<Rightarrow> addr" where
  "runtime_format format = format"

text \<open>The literal operator only carries the template argument; the overloads for tokens look it up.\<close>

definition operator_on9fmt :: "bytes \<Rightarrow> bytes" where
  "operator_on9fmt literal = fixed_string literal"

definition write_log_token ::
    "format_storage \<Rightarrow> on9log_env \<Rightarrow> mem \<Rightarrow> mem \<Rightarrow> on9log_level_t \<Rightarrow> addr \<Rightarrow> u8 \<Rightarrow> bytes \<Rightarrow> cxx_type list \<Rightarrow>
       cxx_value list \<Rightarrow> on9log_state \<Rightarrow> on9log_state option" where
  "write_log_token storage env m m' level tag text_flags format ts vs st =
     write_log env m m' level tag text_flags (noload_format storage format) ts vs st"

definition write_log_target ::
    "on9log_env \<Rightarrow> mem \<Rightarrow> mem \<Rightarrow> on9log_level_t \<Rightarrow> logger_target \<Rightarrow> addr \<Rightarrow> cxx_type list \<Rightarrow> cxx_value list \<Rightarrow>
       on9log_state \<Rightarrow> on9log_state option" where
  "write_log_target env m m' level target format ts vs st =
     write_log env m m' level (lt_tag target) (lt_text_flags target) format ts vs st"

definition write_log_target_token ::
    "format_storage \<Rightarrow> on9log_env \<Rightarrow> mem \<Rightarrow> mem \<Rightarrow> on9log_level_t \<Rightarrow> logger_target \<Rightarrow> bytes \<Rightarrow> cxx_type list \<Rightarrow>
       cxx_value list \<Rightarrow> on9log_state \<Rightarrow> on9log_state option" where
  "write_log_target_token storage env m m' level target format ts vs st =
     write_log_token storage env m m' level (lt_tag target) (lt_text_flags target) format ts vs st"

definition write_log_isr_token ::
    "format_storage \<Rightarrow> on9log_env \<Rightarrow> mem \<Rightarrow> on9log_level_t \<Rightarrow> addr \<Rightarrow> u8 \<Rightarrow> bytes \<Rightarrow> cxx_type list \<Rightarrow>
       cxx_value list \<Rightarrow> on9log_state \<Rightarrow> (bool \<times> on9log_state) option" where
  "write_log_isr_token storage env m level tag text_flags format ts vs st =
     write_log_isr env m level tag text_flags (noload_format storage format) ts vs st"

definition write_log_isr_target ::
    "on9log_env \<Rightarrow> mem \<Rightarrow> on9log_level_t \<Rightarrow> logger_target \<Rightarrow> addr \<Rightarrow> cxx_type list \<Rightarrow> cxx_value list \<Rightarrow>
       on9log_state \<Rightarrow> (bool \<times> on9log_state) option" where
  "write_log_isr_target env m level target format ts vs st =
     write_log_isr env m level (lt_tag target) (lt_text_flags target) format ts vs st"

definition write_log_isr_target_token ::
    "format_storage \<Rightarrow> on9log_env \<Rightarrow> mem \<Rightarrow> on9log_level_t \<Rightarrow> logger_target \<Rightarrow> bytes \<Rightarrow> cxx_type list \<Rightarrow>
       cxx_value list \<Rightarrow> on9log_state \<Rightarrow> (bool \<times> on9log_state) option" where
  "write_log_isr_target_token storage env m level target format ts vs st =
     write_log_isr_token storage env m level (lt_tag target) (lt_text_flags target) format ts vs st"

lemma fixed_string_copy_take:
  "i \<le> length str \<Longrightarrow> length value = length str \<Longrightarrow> fixed_string_copy i str value = take i str @ drop i value"
proof (induction i)
  case (Suc i)
  then have "fixed_string_copy (Suc i) str value = (take i str @ drop i value)[i := str ! i]" by simp
  also have "\<dots> = take (Suc i) str @ drop (Suc i) value"
    using Suc.prems by (simp add: list_update_append take_Suc_conv_app_nth Cons_nth_drop_Suc [symmetric])
  finally show ?case .
qed simp

lemma fixed_string_id: "fixed_string str = str"
  by (simp add: fixed_string_def fixed_string_copy_take)

text \<open>What the host or \<open>vfprintf\<close> reads at the address is the literal.\<close>

lemma literal_is_read_back:
  assumes "cstr m (storage (s @ [0])) s"
  shows "c_strlen m (noload_format storage (operator_on9fmt (s @ [0]))) = Some (length s)"
    and "literal_format storage (s @ [0]) = noload_format storage (operator_on9fmt (s @ [0]))"
    and "write_log_target_token storage env m m' level target (operator_on9fmt (s @ [0])) ts vs st =
      write_log_target env m m' level target (literal_format storage (s @ [0])) ts vs st"
  using c_strlen_cstr [OF assms]
  by (simp_all add: noload_format_def operator_on9fmt_def literal_format_def fixed_string_id
      write_log_target_token_def write_log_token_def write_log_target_def)

section \<open>Presentation\<close>

text \<open>The flags of a \<open>Logger\<close> are combined as bytes.\<close>

definition Flags_or :: "u8 \<Rightarrow> u8 \<Rightarrow> u8" where
  "Flags_or lhs rhs = lhs OR rhs"

definition Flags_and :: "u8 \<Rightarrow> u8 \<Rightarrow> u8" where
  "Flags_and lhs rhs = lhs AND rhs"

definition Logger_tag :: "logger_target \<Rightarrow> addr" where
  "Logger_tag lg = lt_tag lg"

text \<open>
  The container the fmt library appends to: a character or a range at a time. \<open>format_text\<close> takes the
  pieces either way.
\<close>

definition container_push_back :: "(bytes \<Rightarrow> 's \<Rightarrow> 's) \<Rightarrow> u8 \<Rightarrow> 's \<Rightarrow> 's" where
  "container_push_back output value s = output [value] s"

definition container_append :: "(bytes \<Rightarrow> 's \<Rightarrow> 's) \<Rightarrow> bytes \<Rightarrow> 's \<Rightarrow> 's" where
  "container_append output chars s = output chars s"

datatype container_call = Push_Back u8 | Append bytes

primrec container_put :: "(bytes \<Rightarrow> 's \<Rightarrow> 's) \<Rightarrow> container_call \<Rightarrow> 's \<Rightarrow> 's" where
  "container_put output (Push_Back c) = container_push_back output c"
| "container_put output (Append chars) = container_append output chars"

primrec container_piece :: "container_call \<Rightarrow> bytes" where
  "container_piece (Push_Back c) = [c]"
| "container_piece (Append chars) = chars"

lemma container_puts: "fold (container_put output) calls s = fold output (map container_piece calls) s"
proof (induction calls arbitrary: s)
  case (Cons c calls)
  then show ?case by (cases c) (simp_all add: container_push_back_def container_append_def)
qed simp

end
