(* ===== verification/UnixDemo.thy ===== *)
theory UnixDemo
  imports LogMacros UnixSink
begin

text \<open>
  The demonstration program \<^verbatim>\<open>examples/on9log_unix_demo.cpp\<close>, a client of all the parts: the C
  macros, the C++ wrapper, buffers, the sink table with a sink of its own, and the filters.

  A function of the program is a function of its name on the core's state. What the compiler, the
  linker and the operating system decide is \<open>demo_program\<close>: the ABI, the build, the memory, and
  where literals and variables are. The program's own writes to standard output (\<open>printf\<close>) are not
  the logger's and are left out, and so are its delays; the readings of clocks and of the system are
  arguments.
\<close>

section \<open>The program and its calls\<close>

text \<open>
  \<open>dp_str\<close> is the address of a string literal, \<open>dp_fmt\<close> that of the \<^verbatim>\<open>.noload\<close> copy of a format,
  \<open>dp_var\<close> that of an array; \<open>dp_uint64\<close> is the type behind \<open>uint64_t\<close>.
\<close>

record demo_program =
  dp_abi :: c_abi
  dp_hint :: bool
  dp_env :: on9log_env
  dp_mem :: mem
  dp_uint64 :: c_type
  dp_str :: "string \<Rightarrow> addr"
  dp_fmt :: "string \<Rightarrow> addr"
  dp_var :: "string \<Rightarrow> addr"

text \<open>\<^verbatim>\<open>#define ON9_LOG_LOCAL_LEVEL 5\<close> before the headers.\<close>

definition demo_unit :: "demo_program \<Rightarrow> bool" where
  "demo_unit p \<longleftrightarrow> cfg_unit_level (dp_env p) = 5"

type_synonym demo_step = "on9log_state \<Rightarrow> on9log_state option"
type_synonym c_arg = "c_type \<times> cxx_value"
type_synonym cxx_arg = "cxx_type \<times> cxx_value"

primrec run_all :: "demo_step list \<Rightarrow> demo_step" where
  "run_all [] st = Some st"
| "run_all (c # cs) st = do { st \<leftarrow> c st; run_all cs st }"

text \<open>A log call: of a macro at a level with a tag, a format and arguments, or of a \<open>Logger\<close> method.\<close>

datatype demo_line =
    C_Line on9log_level_t addr string "c_arg list"
  | Cxx_Line on9log_level_t log_format "cxx_arg list"

abbreviation (input) LOGE :: "addr \<Rightarrow> string \<Rightarrow> c_arg list \<Rightarrow> demo_line" where "LOGE \<equiv> C_Line ON9_LOG_LEVEL_ERROR"
abbreviation (input) LOGW :: "addr \<Rightarrow> string \<Rightarrow> c_arg list \<Rightarrow> demo_line" where "LOGW \<equiv> C_Line ON9_LOG_LEVEL_WARN"
abbreviation (input) LOGI :: "addr \<Rightarrow> string \<Rightarrow> c_arg list \<Rightarrow> demo_line" where "LOGI \<equiv> C_Line ON9_LOG_LEVEL_INFO"
abbreviation (input) LOGD :: "addr \<Rightarrow> string \<Rightarrow> c_arg list \<Rightarrow> demo_line" where "LOGD \<equiv> C_Line ON9_LOG_LEVEL_DEBUG"
abbreviation (input) LOGV :: "addr \<Rightarrow> string \<Rightarrow> c_arg list \<Rightarrow> demo_line" where "LOGV \<equiv> C_Line ON9_LOG_LEVEL_VERBOSE"

abbreviation (input) log_error :: "log_format \<Rightarrow> cxx_arg list \<Rightarrow> demo_line" where "log_error \<equiv> Cxx_Line ON9_LOG_LEVEL_ERROR"
abbreviation (input) log_warn :: "log_format \<Rightarrow> cxx_arg list \<Rightarrow> demo_line" where "log_warn \<equiv> Cxx_Line ON9_LOG_LEVEL_WARN"
abbreviation (input) log_info :: "log_format \<Rightarrow> cxx_arg list \<Rightarrow> demo_line" where "log_info \<equiv> Cxx_Line ON9_LOG_LEVEL_INFO"
abbreviation (input) log_debug :: "log_format \<Rightarrow> cxx_arg list \<Rightarrow> demo_line" where "log_debug \<equiv> Cxx_Line ON9_LOG_LEVEL_DEBUG"
abbreviation (input) log_verbose :: "log_format \<Rightarrow> cxx_arg list \<Rightarrow> demo_line" where "log_verbose \<equiv> Cxx_Line ON9_LOG_LEVEL_VERBOSE"

text \<open>
  The forms of a format: a plain literal, the macro \<open>ON9FMT\<close>, a token (a template argument or a
  literal with the suffix \<^verbatim>\<open>_on9fmt\<close>).
\<close>

definition literal :: "demo_program \<Rightarrow> string \<Rightarrow> log_format" where
  "literal p f = PlainFormat (dp_str p f)"

definition ON9FMT :: "demo_program \<Rightarrow> string \<Rightarrow> log_format" where
  "ON9FMT p f = PlainFormat (dp_fmt p f)"

definition token :: "demo_program \<Rightarrow> string \<Rightarrow> log_format" where
  "token p f = TokenFormat (dp_fmt p f)"

primrec run_line :: "demo_program \<Rightarrow> logger_target \<Rightarrow> demo_line \<Rightarrow> demo_step" where
  "run_line p lg (C_Line level tag f args) =
     ON9_LOG_LEVEL level (dp_abi p) (dp_hint p) (dp_env p) (dp_mem p) (dp_mem p) tag (dp_fmt p f)
       (ascii f @ [0]) (map fst args) (map snd args)"
| "run_line p lg (Cxx_Line level f args) =
     Logger_log level (dp_env p) (dp_mem p) (dp_mem p) lg f (map fst args) (map snd args)"

definition run_lines :: "demo_program \<Rightarrow> logger_target \<Rightarrow> demo_line list \<Rightarrow> demo_step" where
  "run_lines p lg ls = run_all (map (run_line p lg) ls)"

text \<open>\<^verbatim>\<open>static const char *TAG = "demo";\<close> and \<^verbatim>\<open>Logger log("demo");\<close>\<close>

definition TAG :: "demo_program \<Rightarrow> addr" where
  "TAG p = dp_str p ''demo''"

definition demo_logger :: "demo_program \<Rightarrow> logger_target" where
  "demo_logger p = Logger_init (dp_str p ''demo'') Logger_DefaultFlags"

text \<open>Arguments by their C and C++ types.\<close>

definition c_int :: "int \<Rightarrow> c_arg" where "c_int i = (C_Int 4 True, CxxNumber i)"
definition c_unsigned :: "int \<Rightarrow> c_arg" where "c_unsigned i = (C_Int 4 False, CxxNumber i)"
definition c_text :: "addr \<Rightarrow> c_arg" where "c_text a = (C_ConstCharPtr, CxxAddr a)"
definition cxx_int :: "int \<Rightarrow> cxx_arg" where "cxx_int i = (CxxInt 4 True, CxxNumber i)"
definition cxx_unsigned :: "int \<Rightarrow> cxx_arg" where "cxx_unsigned i = (CxxInt 4 False, CxxNumber i)"
definition cxx_ll :: "int \<Rightarrow> cxx_arg" where "cxx_ll i = (CxxInt 8 True, CxxNumber i)"
definition cxx_ull :: "int \<Rightarrow> cxx_arg" where "cxx_ull i = (CxxInt 8 False, CxxNumber i)"
definition cxx_double :: "u64 \<Rightarrow> cxx_arg" where "cxx_double bits = (CxxFloat 8, CxxReal bits)"
definition cxx_cstr :: "addr \<Rightarrow> cxx_arg" where "cxx_cstr a = (CxxCharPtr, CxxAddr a)"
definition cxx_pointer :: "addr \<Rightarrow> cxx_arg" where "cxx_pointer a = (CxxObjPtr, CxxAddr a)"
definition cxx_char :: "int \<Rightarrow> cxx_arg" where "cxx_char i = (CxxInt 1 True, CxxNumber i)"
definition cxx_view :: "addr \<Rightarrow> nat \<Rightarrow> cxx_arg" where
  "cxx_view a n = (CxxStringView, CxxText \<lparr>sv_data = a, sv_len = n\<rparr>)"

section \<open>A sink that counts\<close>

record demo_sink_stats_t =
  start_count :: u32
  end_count :: u32
  payload_count :: u32
  payload_bytes :: u32

definition demo_sink_start :: "bytes option \<Rightarrow> demo_sink_stats_t \<Rightarrow> demo_sink_stats_t" where
  "demo_sink_start header stats = stats\<lparr>start_count := start_count stats + 1\<rparr>"

definition demo_sink_payload :: "bytes \<Rightarrow> nat \<Rightarrow> nat \<Rightarrow> demo_sink_stats_t \<Rightarrow> demo_sink_stats_t" where
  "demo_sink_payload payload total_arg_cnt curr_arg_index stats =
     stats\<lparr>payload_count := payload_count stats + 1,
           payload_bytes := payload_bytes stats + word_of_nat (length payload)\<rparr>"

definition demo_sink_end :: "demo_sink_stats_t \<Rightarrow> demo_sink_stats_t" where
  "demo_sink_end stats = stats\<lparr>end_count := end_count stats + 1\<rparr>"

text \<open>\<^verbatim>\<open>memset(&s_demo_sink_stats, 0, sizeof(s_demo_sink_stats))\<close>\<close>

definition demo_stats_zero :: demo_sink_stats_t where
  "demo_stats_zero = \<lparr>start_count = 0, end_count = 0, payload_count = 0, payload_bytes = 0\<rparr>"

text \<open>What the callbacks the core makes into the sink registered as \<open>e\<close> do to the counters.\<close>

fun demo_sink_event :: "on9log_sink_entry \<Rightarrow> event \<Rightarrow> demo_sink_stats_t \<Rightarrow> demo_sink_stats_t" where
  "demo_sink_event e (StartCb t header) stats = (if t = e then demo_sink_start header stats else stats)"
| "demo_sink_event e (PayloadCb t payload n i) stats =
     (if t = e then demo_sink_payload payload n i stats else stats)"
| "demo_sink_event e (EndCb t) stats = (if t = e then demo_sink_end stats else stats)"
| "demo_sink_event e _ stats = stats"

definition demo_sink_stats :: "on9log_sink_entry \<Rightarrow> event list \<Rightarrow> demo_sink_stats_t" where
  "demo_sink_stats e evs = fold (demo_sink_event e) evs demo_stats_zero"

section \<open>Measurements and patterns\<close>

definition host_tick_ms :: "nat \<Rightarrow> u32" where
  "host_tick_ms elapsed = word_of_nat elapsed"

text \<open>\<open>usage\<close> is what \<open>getrusage\<close> says, in bytes on macOS and in units of 1024 elsewhere.\<close>

definition host_max_rss_bytes :: "bool \<Rightarrow> nat option \<Rightarrow> u64" where
  "host_max_rss_bytes apple usage =
     (case usage of
        None \<Rightarrow> 0
      | Some ru_maxrss \<Rightarrow> if apple then word_of_nat ru_maxrss else word_of_nat ru_maxrss * 1024)"

text \<open>\<^verbatim>\<open>i * 37u + 11u\<close> is computed in \<open>size_t\<close>; only its low byte is kept.\<close>

primrec fill_pattern_from :: "nat \<Rightarrow> nat \<Rightarrow> bytes" where
  "fill_pattern_from i 0 = []"
| "fill_pattern_from i (Suc n) = word_of_nat (i * 37 + 11) # fill_pattern_from (Suc i) n"

definition fill_pattern :: "nat \<Rightarrow> bytes" where
  "fill_pattern len = fill_pattern_from 0 len"

definition log_host_info ::
    "demo_program \<Rightarrow> bool \<Rightarrow> (addr \<times> addr) option \<Rightarrow> nat \<Rightarrow> nat option \<Rightarrow> nat \<Rightarrow> demo_step" where
  "log_host_info p apple uname cores usage elapsed =
     (let (target, machine) = (case uname of
            Some (sysname, machine) \<Rightarrow> (sysname, machine)
          | None \<Rightarrow> (dp_str p ''unix'', dp_str p ''unknown''))
      in run_lines p (demo_logger p)
        [LOGI (TAG p) ''host=%s machine=%s cores=%u features pthread=1 stdio=1''
           [c_text target, c_text machine, c_unsigned (int cores)],
         LOGI (TAG p) ''max_rss=%lu bytes uptime=%u ms''
           [(dp_uint64 p, CxxNumber (uint (host_max_rss_bytes apple usage))),
            c_unsigned (uint (host_tick_ms elapsed))]])"

section \<open>Formats\<close>

text \<open>\<open>nullptr\<close> is an argument of type \<^verbatim>\<open>const char *\<close>; \<open>pointer_target\<close> is \<^verbatim>\<open>{0xa5, 0xc0, 0xdb, 0x00}\<close>.\<close>

definition format_lines :: "demo_program \<Rightarrow> demo_line list" where
  "format_lines p =
     [LOGE (TAG p) ''level error signed=%d'' [c_int (- 42)],
      LOGW (TAG p) ''level warn unsigned=%u hex=%08x'' [c_unsigned 0xfeedbeef, c_unsigned 0xfeedbeef],
      LOGI (TAG p) ''level info string=%s null=%s'' [c_text (dp_str p ''on9log''), c_text NULL],
      LOGD (TAG p) ''level debug ptr=%p bytes=%02x:%02x''
        [(C_ConstU8Ptr, CxxAddr (dp_var p ''pointer_target'')),
         (C_Int 1 False, CxxNumber 0xa5), (C_Int 1 False, CxxNumber 0xc0)],
      LOGV (TAG p) ''level verbose ll=%lld ull=%llu''
        [(C_LongLong True, CxxNumber (- 0x112233445566)), (C_LongLong False, CxxNumber 0x1122334455667788)],
      LOGI (TAG p) ''lengths hhd=%hhd hhu=%hhu hd=%hd hu=%hu''
        [c_int (- 1), c_int 255, c_int (- 1234), c_int 54321],
      LOGI (TAG p) ''widths [%*s] [%-*s] [%.*s]''
        [c_int 10, c_text (dp_str p ''right''), c_int (- 8), c_text (dp_str p ''left''),
         c_int 5, c_text (dp_str p ''truncate-me'')],
      LOGI (TAG p) ''percent literal 100%% and char=%c'' [(C_Int 1 True, CxxNumber 90)],
      LOGI (TAG p) ''empty log with no printf args'' []]"

definition log_format_cases :: "demo_program \<Rightarrow> demo_step" where
  "log_format_cases p = run_lines p (demo_logger p) (format_lines p)"

text \<open>The array \<open>c_text\<close> holds \<^verbatim>\<open>"slice!"\<close>, \<open>non_nul_text\<close> the same without the NUL.\<close>

definition slice_lines :: "demo_program \<Rightarrow> int \<Rightarrow> demo_line list" where
  "slice_lines p full_len =
     (let text = (C_ConstCharArray, CxxAddr (dp_var p ''c_text''));
          view = cxx_view (dp_var p ''non_nul_text'') 6;
          partial_view = cxx_view (dp_var p ''non_nul_text'' + 1) 4;
          owned = cxx_view (dp_var p ''owned'') (length ''owned-string-demo'')
      in [LOGI (TAG p) ''---- string slice demo: C %%.*s, C++ std::string_view, C++ std::string ----'' [],
          LOGI (TAG p) ''C precision slice short len=%d value=[%.*s]'' [c_int 5, c_int 5, text],
          LOGI (TAG p) ''C precision slice full len=%d value=[%.*s]'' [c_int full_len, c_int full_len, text],
          log_info (ON9FMT p ''C++ string_view full len={} value=[{}]'') [cxx_unsigned 6, view],
          log_info (ON9FMT p ''C++ string_view partial len={} value=[{}]'') [cxx_unsigned 4, partial_view],
          log_info (ON9FMT p ''C++ std::string len={} value=[{}]'')
            [cxx_unsigned (int (length ''owned-string-demo'')), owned]])"

definition log_string_slice_cases :: "demo_program \<Rightarrow> demo_step" where
  "log_string_slice_cases p st =
     do { n \<leftarrow> c_strlen (dp_mem p) (dp_var p ''c_text'');
          run_lines p (demo_logger p) (slice_lines p (int n)) st }"

text \<open>Doubles by their bits: pi, -3.5, the infinity and the quiet NaN.\<close>

definition cpp_format_lines :: "demo_program \<Rightarrow> demo_line list" where
  "cpp_format_lines p =
     (let name = cxx_cstr (dp_str p ''on9log'');
          pointer_arg = cxx_pointer (dp_var p ''pointer_target'');
          u32_value = cxx_unsigned 42;
          hex_value = cxx_unsigned 0xabad;
          signed_value = cxx_int (- 42);
          u64_value = cxx_ull 0x1122334455667788;
          signed_64 = cxx_ll (- 42);
          pi = cxx_double 0x400921fb54442d18;
          neg_pi = cxx_double 0xc00c000000000000;
          width = cxx_int 10;
          precision = cxx_int 3;
          text = cxx_cstr (dp_str p ''foobar'')
      in [log_info (literal p ''cpp defaults int={} ptr={} str={}'') [u32_value, pointer_arg, name],
          log_info (literal p ''cpp signed and unsigned 64-bit values: {} {}'') [signed_64, u64_value],
          log_info (literal p ''cpp float default={} fixed={:.6f}'') [pi, pi],
          log_info (literal p ''cpp type chars d={:d} x={:x} X={:X} o={:o} b={:b} B={:B} p={} s={:s} c={:c}'')
            [u32_value, hex_value, hex_value, u32_value, u32_value, u32_value, pointer_arg, name, cxx_char 90],
          log_info (literal p ''cpp alt form {:#x} {:#o} {:#b}'') [hex_value, u32_value, u32_value],
          log_info (literal p ''cpp align [{:>10}] [{:<10}] [{:^10}] [{:*>10}] [{:*<10}]'')
            [u32_value, name, u32_value, u32_value, name],
          log_info (literal p ''cpp pad_and_sign {:08x} {:#08x} [{:>8}] {:+d} {: d}'')
            [hex_value, hex_value, u32_value, signed_value, signed_value],
          log_info (literal p ''cpp string_precision {:.3s} {:.0s} {:.100s}'') [text, text, text],
          log_info (literal p ''cpp integer_width {:04d} {:04x} {:#06x} {:+04d}'')
            [u32_value, hex_value, hex_value, signed_value],
          log_info (literal p ''cpp floats {:.2f} {:.2F} {:e} {:.2e} default {}'') [pi, pi, pi, pi, pi],
          log_info (literal p ''cpp floats_neg_space {:.1f} {:+.1f} {: .1f} {:+.1f}'') [neg_pi, pi, pi, neg_pi],
          log_info (literal p ''cpp inf_nan {} {}'')
            [cxx_double 0x7ff0000000000000, cxx_double 0x7ff8000000000000],
          log_info (literal p ''cpp dyn_width_auto [{:{}}] [{:<{}}]'') [u32_value, width, name, width],
          log_info (literal p ''cpp dyn_precision_auto {:.{}f} {:.{}s}'') [pi, precision, text, precision],
          log_info (literal p ''cpp dyn_width_precision_auto [{:{}.{}f}] [{:>{}}]'')
            [pi, width, precision, name, width],
          log_info (literal p ''cpp positional {0}-{1}-{0}'') [u32_value, hex_value],
          log_info (literal p ''cpp explicit_w {0:{1}}'') [u32_value, width],
          log_info (literal p ''cpp explicit_p {0:.{1}f}'') [pi, precision],
          log_info (literal p ''cpp explicit_reuse {0:{0}}'') [width],
          log_info (literal p ''cpp brace_escapes {{}} and {}'') [u32_value],
          log_info (literal p ''cpp complex [{:>8.2f}] {:s}={:#06x}'') [pi, name, cxx_unsigned 0xab]])"

definition log_cpp_format_cases :: "demo_program \<Rightarrow> demo_step" where
  "log_cpp_format_cases p = run_lines p (demo_logger p) (cpp_format_lines p)"

section \<open>The wrapper\<close>

definition wrapper_lines :: "demo_program \<Rightarrow> demo_line list" where
  "wrapper_lines p =
     (let name = cxx_cstr (dp_str p ''on9log'');
          val = cxx_unsigned 42;
          hex_value = cxx_unsigned 0xabad;
          u64_value = cxx_ull 0x1122334455667788;
          signed_64 = cxx_ll (- 42);
          pi = cxx_double 0x400921fb54442d18;
          pointer_arg = cxx_pointer (dp_var p ''pointer_target'')
      in [LOGI (TAG p) ''---- Logger wrapper demo: 4 call forms, same message ----'' [],
          log_info (literal p ''wrapper plain literal value={} name={}'') [val, name],
          log_info (ON9FMT p ''wrapper ON9FMT form value={} name={}'') [val, name],
          log_info (token p ''wrapper NTTP form value={} name={}'') [val, name],
          log_info (token p ''wrapper UDL form value={} name={}'') [val, name],
          LOGI (TAG p) ''---- wrapper: each level using fmt syntax ----'' [],
          log_error (ON9FMT p ''wrapper level error value={}'') [val],
          log_warn (ON9FMT p ''wrapper level warn name={}'') [name],
          log_info (ON9FMT p ''wrapper level info ptr={}'') [pointer_arg],
          log_debug (ON9FMT p ''wrapper level debug value={} hex={:x}'') [val, hex_value],
          log_verbose (ON9FMT p ''wrapper level verbose u64={} signed_64={}'') [u64_value, signed_64],
          LOGI (TAG p) ''---- wrapper: generic log<Level,...> template form ----'' [],
          log_info (token p ''wrapper log<INFO,...> form value={}'') [val],
          log_warn (token p ''wrapper log<WARN,...> form value={}'') [val],
          LOGI (TAG p) ''---- wrapper: printf-style on the C++ wrapper ----'' [],
          log_warn (literal p ''wrapper printf style value=%u hex=%08x'') [val, hex_value],
          log_info (literal p ''wrapper printf strings name=%s completion=100%%'') [name],
          LOGI (TAG p) ''---- wrapper: fmt-style remains separate from printf-style ----'' [],
          log_info (literal p ''wrapper fmt float fixed={:.2f} default={}'') [pi, pi],
          log_info (literal p ''wrapper fmt u64={} signed_64={}'') [u64_value, signed_64],
          LOGI (TAG p) ''---- wrapper: buffer dump pointer+len form ----'' []])"

definition log_logger_wrapper_cases :: "demo_program \<Rightarrow> demo_step" where
  "log_logger_wrapper_cases p =
     run_all
       [run_lines p (demo_logger p) (wrapper_lines p),
        Logger_buffer_info (dp_env p) (dp_mem p) (demo_logger p) (dp_var p ''pointer_target'') 4,
        run_lines p (demo_logger p) [LOGI (TAG p) ''---- wrapper: buffer dump array convenience overload ----'' []],
        Logger_buffer_info_array (dp_env p) (dp_mem p) (demo_logger p) (dp_var p ''small_array'') 1 4]"

section \<open>Buffers\<close>

text \<open>\<open>large\<close> has been filled with \<open>fill_pattern\<close> when it is written; \<open>small\<close> has 20 bytes.\<close>

definition log_buffer_cases :: "demo_program \<Rightarrow> demo_step" where
  "log_buffer_cases p =
     run_all
       [ON9_LOG_BUFI (dp_env p) (dp_mem p) (TAG p) (dp_var p ''small'') 20,
        ON9_LOG_BUFI (dp_env p) (dp_mem p) (TAG p) NULL 0,
        run_lines p (demo_logger p) [LOGI (TAG p) ''next buffer exercises multi-packet host stdio output'' []],
        ON9_LOG_BUFI (dp_env p) (dp_mem p) (TAG p) (dp_var p ''large'') 3200,
        run_lines p (demo_logger p) [LOGI (TAG p) ''this line follows the large host buffer dump'' []],
        on9log_write_buffer (dp_env p) (dp_mem p) ON9_LOG_LEVEL_INFO (TAG p) NULL 1,
        (\<lambda>st. run_lines p (demo_logger p)
           [LOGI (TAG p) ''invalid NULL buffer produced dropped_count=%u''
              [c_unsigned (uint (on9log_get_dropped_count st))]] st)]"

text \<open>What the arrays hold: \<open>large\<close> is static and written by \<open>fill_pattern\<close>.\<close>

definition demo_arrays :: "demo_program \<Rightarrow> bool" where
  "demo_arrays p \<longleftrightarrow>
     dp_var p ''small'' \<noteq> NULL \<and> dp_var p ''large'' \<noteq> NULL \<and>
     rd_bytes (dp_mem p) (dp_var p ''small'') 20 =
       Some [0x00, 0x01, 0x02, 0x03, 0x7f, 0x80, 0xa5, 0xc0, 0xdb, 0xde, 0xdd, 0xdc, 0xf0, 0x55, 0xaa, 0xff,
             79, 78, 57, 10] \<and>
     rd_bytes (dp_mem p) (dp_var p ''large'') 3200 = Some (fill_pattern 3200)"

section \<open>The second sink\<close>

definition err_code :: "on9log_err_t \<Rightarrow> int" where
  "err_code e =
     (case e of ON9LOG_OK \<Rightarrow> 0 | ON9LOG_ERR_FAIL \<Rightarrow> - 1 | ON9LOG_ERR_INVALID_ARG \<Rightarrow> - 2 | ON9LOG_ERR_NO_MEM \<Rightarrow> - 3
      | ON9LOG_ERR_NOT_FOUND \<Rightarrow> - 4 | ON9LOG_ERR_INVALID_SIZE \<Rightarrow> - 5)"

text \<open>
  \<open>e\<close> is the pair of \<open>s_demo_sink\<close> and the counters. The counters printed last are those of the
  callbacks since \<open>memset\<close>.
\<close>

definition log_sink_cases :: "demo_program \<Rightarrow> (addr \<Rightarrow> on9log_sink_desc) \<Rightarrow> on9log_sink_entry \<Rightarrow> demo_step" where
  "log_sink_cases p desc e st0 =
     (let (add_err, st) = on9log_add_sink desc (se_sink e) (se_ctx e) st0
      in do {
        st \<leftarrow> run_lines p (demo_logger p)
             [LOGI (TAG p) ''secondary sink add err=%d'' [c_int (err_code add_err)],
              LOGI (TAG p) ''secondary sink sees this formatted packet value=%d'' [c_int 1234]] st;
        len \<leftarrow> c_strlen (dp_mem p) (dp_str p ''sink-buffer'');
        st \<leftarrow> ON9_LOG_BUFI (dp_env p) (dp_mem p) (TAG p) (dp_str p ''sink-buffer'') len st;
        let (remove_err, st) = on9log_remove_sink (se_sink e) (se_ctx e) st;
            stats = demo_sink_stats e (drop (length (st_events st0)) (st_events st))
        in run_lines p (demo_logger p)
             [LOGI (TAG p) ''secondary sink remove err=%d starts=%u ends=%u payload_cb=%u payload_bytes=%u''
                [c_int (err_code remove_err), c_unsigned (uint (start_count stats)), c_unsigned (uint (end_count stats)),
                 c_unsigned (uint (payload_count stats)), c_unsigned (uint (payload_bytes stats))]] st })"

section \<open>Filters\<close>

definition emit_filter_demo_lines :: "demo_program \<Rightarrow> string \<Rightarrow> string \<Rightarrow> demo_line list" where
  "emit_filter_demo_lines p tag label =
     [LOGE (dp_str p tag) ''[%s] error'' [c_text (dp_str p label)],
      LOGW (dp_str p tag) ''[%s] warn'' [c_text (dp_str p label)],
      LOGI (dp_str p tag) ''[%s] info'' [c_text (dp_str p label)],
      LOGD (dp_str p tag) ''[%s] debug'' [c_text (dp_str p label)],
      LOGV (dp_str p tag) ''[%s] verbose'' [c_text (dp_str p label)]]"

text \<open>The lines between two changes of levels.\<close>

definition baseline_lines :: "demo_program \<Rightarrow> demo_line list" where
  "baseline_lines p =
     emit_filter_demo_lines p ''demo'' ''baseline'' @ emit_filter_demo_lines p ''worker'' ''baseline'' @
     [LOGW (TAG p) ''---- filter: global runtime level -> WARN (info line below suppressed) ----'' []]"

definition global_warn_lines :: "demo_program \<Rightarrow> demo_line list" where
  "global_warn_lines p =
     [LOGI (TAG p) ''this info line should be suppressed'' []] @
     emit_filter_demo_lines p ''demo'' ''global=WARN'' @ emit_filter_demo_lines p ''worker'' ''global=WARN'' @
     [LOGW (TAG p) ''---- filter: per-tag worker -> VERBOSE via C++ static wrapper ----'' []]"

definition worker_verbose_lines :: "demo_program \<Rightarrow> demo_line list" where
  "worker_verbose_lines p =
     emit_filter_demo_lines p ''demo'' ''per-tag worker=VERBOSE'' @
     emit_filter_demo_lines p ''worker'' ''per-tag worker=VERBOSE'' @
     [LOGW (TAG p) ''---- filter: clear worker override via C++ static wrapper ----'' []]"

definition cleared_lines :: "demo_program \<Rightarrow> demo_line list" where
  "cleared_lines p =
     emit_filter_demo_lines p ''demo'' ''cleared worker'' @ emit_filter_demo_lines p ''worker'' ''cleared worker'' @
     [LOGW (TAG p) ''---- filter: global NONE next (no log lines should appear until restore) ----'' []]"

definition global_none_lines :: "demo_program \<Rightarrow> demo_line list" where
  "global_none_lines p =
     emit_filter_demo_lines p ''demo'' ''global=NONE'' @
     [LOGE (TAG p) ''this error line must be suppressed under NONE'' []]"

definition restored_lines :: "demo_program \<Rightarrow> demo_line list" where
  "restored_lines p =
     [LOGI (TAG p) ''---- filter: global VERBOSE restored (NONE block above showed nothing) ----'' []] @
     emit_filter_demo_lines p ''demo'' ''restored'' @ emit_filter_demo_lines p ''worker'' ''restored''"

text \<open>No other task runs yet; \<open>malloc_ok\<close> and \<open>calloc_ok\<close> say whether the filter's node can be allocated.\<close>

definition log_filter_cases :: "demo_program \<Rightarrow> bool \<Rightarrow> bool \<Rightarrow> demo_step" where
  "log_filter_cases p malloc_ok calloc_ok =
     (let say = run_lines p (demo_logger p)
      in run_all
       [(\<lambda>st. say [LOGI (TAG p) ''---- filter baseline: default_runtime=%d compile_ceiling=%d ----''
               [c_int (uint (on9log_get_level st)), c_int 5]] st),
        say (baseline_lines p),
        (\<lambda>st. Some (on9log_set_level ON9_LOG_LEVEL_WARN st)),
        say (global_warn_lines p),
        (\<lambda>st. map_option snd
           (Logger_set_tag_level (dp_mem p) id malloc_ok calloc_ok (dp_str p ''worker'') ON9_LOG_LEVEL_VERBOSE st)),
        say (worker_verbose_lines p),
        (\<lambda>st. map_option snd (Logger_clear_tag_level (dp_mem p) (dp_str p ''worker'') st)),
        say (cleared_lines p),
        (\<lambda>st. Some (on9log_set_level ON9_LOG_LEVEL_NONE st)),
        say (global_none_lines p),
        (\<lambda>st. Some (Logger_set_level ON9_LOG_LEVEL_VERBOSE st)),
        say (restored_lines p)])"

section \<open>The tasks\<close>

definition worker_task :: "demo_program \<Rightarrow> addr \<Rightarrow> (nat \<Rightarrow> nat) \<Rightarrow> demo_line list" where
  "worker_task p task_name elapsed =
     map (\<lambda>i. LOGI (dp_str p ''worker'') ''task=%s iteration=%d tick=%u''
            [c_text task_name, c_int (int i), c_unsigned (uint (host_tick_ms (elapsed i)))]) [0..<5] @
     [LOGW (dp_str p ''worker'') ''task=%s finished'' [c_text task_name]]"

definition heartbeat_lines :: "demo_program \<Rightarrow> bool \<Rightarrow> (nat \<Rightarrow> nat option) \<Rightarrow> demo_line list" where
  "heartbeat_lines p apple usage =
     map (\<lambda>i. LOGI (TAG p) ''main heartbeat=%u max_rss=%lu''
            [c_unsigned (int i), (dp_uint64 p, CxxNumber (uint (host_max_rss_bytes apple (usage i))))]) [0..<6]"

text \<open>
  \<open>main\<close>. What the host says is \<open>demo_host\<close>; \<open>mixed\<close> is
  an order in which the lines of the worker (\<open>worker_task p (dp_str p ''A'')\<close>) and of the loop in \<open>main\<close>
  (\<open>heartbeat_lines\<close>) come out, one of the \<open>shuffles\<close> of the two (whole calls: the theories of tasks say why).
\<close>

definition on9log_unix_stdio_init ::
    "(addr \<Rightarrow> on9log_sink_desc) \<Rightarrow> addr \<Rightarrow> addr \<Rightarrow> addr \<Rightarrow> on9log_unix_stdio_state_t \<times> on9log_state \<Rightarrow>
       on9log_err_t \<times> on9log_unix_stdio_state_t \<times> on9log_state" where
  "on9log_unix_stdio_init desc sink ctx stdout s = on9log_unix_stdio_init_file desc on9log_init_binary sink ctx stdout s"

record demo_host =
  dh_apple :: bool
  dh_uname :: "(addr \<times> addr) option"
  dh_cores :: nat
  dh_usage :: "nat \<Rightarrow> nat option"
  dh_elapsed :: "nat \<Rightarrow> nat"

definition demo_main ::
    "demo_program \<Rightarrow> demo_host \<Rightarrow> (addr \<Rightarrow> on9log_sink_desc) \<Rightarrow> addr \<Rightarrow> addr \<Rightarrow> addr \<Rightarrow> on9log_sink_entry \<Rightarrow> bool \<Rightarrow> bool \<Rightarrow>
       demo_line list \<Rightarrow> on9log_unix_stdio_state_t \<times> on9log_state \<Rightarrow>
       (int \<times> on9log_unix_stdio_state_t \<times> on9log_state) option" where
  "demo_main p host desc sink ctx stdout e malloc_ok calloc_ok mixed s =
     (if on9log_init_binary \<noteq> ON9LOG_OK then Some (1, s)
      else
        (case on9log_unix_stdio_init desc sink ctx stdout s of (on9_err, us, st) \<Rightarrow>
           if on9_err \<noteq> ON9LOG_OK then Some (1, us, st)
           else do {
             st \<leftarrow> run_all
               [run_lines p (demo_logger p)
                  [LOGI (TAG p) ''on9log demo start local_level=%d plain_text=%d'' [c_int 5, c_int 0]],
                log_host_info p (dh_apple host) (dh_uname host) (dh_cores host) (dh_usage host 0) (dh_elapsed host 0),
                log_format_cases p,
                log_string_slice_cases p,
                log_cpp_format_cases p,
                log_logger_wrapper_cases p,
                log_buffer_cases p,
                log_sink_cases p desc e,
                log_filter_cases p malloc_ok calloc_ok,
                run_lines p (demo_logger p) [LOGI (TAG p) ''worker task create result=%d'' [c_int 1]],
                run_lines p (demo_logger p) mixed,
                run_lines p (demo_logger p)
                  [LOGI (TAG p) ''on9log demo complete; final host heartbeat follows'' [],
                   LOGI (TAG p) ''slow heartbeat tick=%u'' [c_unsigned (uint (host_tick_ms (dh_elapsed host 1)))]]] st;
             Some (0, us, st) }))"

end
