(* ===== verification/UnixDemoCorrect.thy ===== *)
theory UnixDemoCorrect
  imports UnixDemo BufferCorrect
begin

text \<open>
  What the demonstration program says. A sink of the core is given, of a list of log calls, exactly
  the messages whose level passes the three filters (the ceiling of the calling unit, the ceiling
  the library was compiled with, the level in force for the tag), in order.
\<close>

section \<open>What a sink has been told\<close>

text \<open>A LOG packet as its level and message; other packets are not messages.\<close>

fun packet_message :: "packet \<Rightarrow> (nat \<times> log_message) option" where
  "packet_message (Some hdr, payload) = map_option (\<lambda>(h, msg). (ph_level h, msg)) (parse_log_packet (hdr @ payload))"
| "packet_message (None, payload) = None"

definition messages_to :: "on9log_sink_entry \<Rightarrow> on9log_state \<Rightarrow> (nat \<times> log_message) option list" where
  "messages_to s st = map packet_message (sink_packets s (st_events st))"

text \<open>Between calls, with no drops to report.\<close>

definition quiet :: "on9log_sink_entry \<Rightarrow> on9log_state \<Rightarrow> bool" where
  "quiet s st \<longleftrightarrow> sinks_ok st \<and> sink_idle s (st_events st) \<and> s \<in> set (registered st) \<and> filters_ok st \<and>
     s_dropped_count st = 0"

definition same_levels :: "on9log_state \<Rightarrow> on9log_state \<Rightarrow> bool" where
  "same_levels st st' \<longleftrightarrow> s_tag_filters st' = s_tag_filters st \<and>
     s_active_tag_filter_count st' = s_active_tag_filter_count st \<and> s_default_level st' = s_default_level st"

lemma same_levels_refl [simp]: "same_levels st st"
  by (simp add: same_levels_def)

lemma same_levels_trans: "same_levels a b \<Longrightarrow> same_levels b c \<Longrightarrow> same_levels a c"
  by (simp add: same_levels_def)

lemma same_levels_effective: "same_levels st st' \<Longrightarrow> effective_level st' t = effective_level st t"
  by (simp add: same_levels_def effective_level_def split: option.split)

lemma log_sent_same [simp]:
  "same_levels st (log_sent env level tag fmt types vals st)"
  "s_sinks (log_sent env level tag fmt types vals st) = s_sinks st"
  "s_dropped_count (log_sent env level tag fmt types vals st) = s_dropped_count st"
  by (simp_all add: log_sent_def observe_def next_header_def same_levels_def)

lemma no_report: "s_dropped_count st = 0 \<Longrightarrow> report_dropped env st = st"
  by (simp add: report_dropped_cases)

lemma vwrite_tells:
  assumes "config_ok env" and q: "quiet s st"
    and on: "on9log_level_enabled env m st level tagp = Some True"
    and den: "call_denotes env m tagp fmtp scan types dyn args tag fmt vals"
    and fit: "length (log_payload_bytes tag fmt types vals) \<le> ON9LOG_PAYLOAD_LEN_MAX"
  shows "\<exists>st'. on9log_vwrite env m m level tagp fmtp scan (Some (types @ rest)) (word_of_nat (length types)) dyn
       args st = Some st' \<and> quiet s st' \<and> same_levels st st' \<and>
     messages_to s st' = messages_to s st @ [Some (unat level, \<lparr>lm_tag = tag, lm_fmt = fmt, lm_args = vals\<rparr>)]"
proof -
  have st: "sinks_ok st" "sink_idle s (st_events st)" "s \<in> set (registered st)" "s_dropped_count st = 0"
    "filters_ok st" using q by (simp_all add: quiet_def)
  note rep = no_report [OF st(4)]
  let ?st' = "log_sent env level tag fmt types vals st"
  have run: "on9log_vwrite env m m level tagp fmtp scan (Some (types @ rest)) (word_of_nat (length types)) dyn
      args st = Some ?st'"
    using vwrite_fits [OF assms(1) on den fit call_sent_same [OF den assms(1)]] by (simp add: rep)
  have idle: "sink_idle s (st_events ?st')"
    using log_sent_delivers(2) [OF st(1-3), of env level tag fmt types vals] by (simp add: rep)
  have reg: "registered ?st' = registered st" by (simp add: registered_def)
  have ok: "sinks_ok ?st'" using st(1) by (simp add: sinks_ok_def reg)
  have fil: "filters_ok ?st'" using st(5) log_sent_same(1) [of st env level tag fmt types vals]
    by (simp add: filters_ok_def same_levels_def)
  obtain hdr payload where p: "sink_packets s (st_events ?st') =
       sink_packets s (st_events st) @ [(Some hdr, payload)]"
     "parse_log_packet (hdr @ payload) = Some (log_packet_header env level tag fmt (length payload) st,
             \<lparr>lm_tag = tag, lm_fmt = fmt, lm_args = vals\<rparr>)"
    using vwrite_delivers [OF assms(1) st(1-3) on den fit call_sent_same [OF den assms(1)], of rest] run st(4)
    by (auto simp: dropped_packets_def)
  have "messages_to s ?st' = messages_to s st @ [Some (unat level, \<lparr>lm_tag = tag, lm_fmt = fmt, lm_args = vals\<rparr>)]"
    using p by (simp add: messages_to_def log_packet_header_def Let_def)
  then show ?thesis using run idle ok fil reg st(3,4) by (auto simp: quiet_def)
qed

section \<open>What a line says\<close>

text \<open>A message: its level, the contents of its tag (for the filters) and what a reader decodes.\<close>

type_synonym demo_message = "on9log_level_t \<times> bytes \<times> log_message"

definition spoken :: "demo_message \<Rightarrow> (nat \<times> log_message) option" where
  "spoken x = Some (unat (fst x), snd (snd x))"

definition passes :: "on9log_env \<Rightarrow> on9log_state \<Rightarrow> demo_message \<Rightarrow> bool" where
  "passes env st x \<longleftrightarrow> fst x \<noteq> 0 \<and> fst x \<le> cfg_unit_level env \<and> fst x \<le> cfg_local_level env \<and>
     fst x \<le> effective_level st (fst (snd x))"

definition call_says ::
    "demo_program \<Rightarrow> addr \<Rightarrow> addr \<Rightarrow> cxx_type list \<Rightarrow> cxx_value list \<Rightarrow> bytes \<times> log_message \<Rightarrow> bool" where
  "call_says p tagp fmtp ts vs x \<longleftrightarrow>
     tagp \<noteq> NULL \<and> cstr (dp_mem p) tagp (fst x) \<and>
     ref_denotes (dp_env p) (dp_mem p) tagp (lm_tag (snd x)) \<and> ref_denotes (dp_env p) (dp_mem p) fmtp (lm_fmt (snd x)) \<and>
     cxx_args_mean (dp_env p) (dp_mem p) ts vs (lm_args (snd x)) \<and> length ts \<le> 16 \<and>
     length (ref_bytes (lm_tag (snd x))) + length (ref_bytes (lm_fmt (snd x))) + 1 + length ts +
       args_size (lm_args (snd x)) \<le> ON9LOG_PAYLOAD_LEN_MAX"

primrec line_says :: "demo_program \<Rightarrow> logger_target \<Rightarrow> demo_line \<Rightarrow> demo_message \<Rightarrow> bool" where
  "line_says p lg (C_Line level tagp f args) x \<longleftrightarrow>
     fst x = level \<and> list_all (classified_alike (dp_abi p)) (map fst args) \<and>
     c_va_args (dp_abi p) (map fst args) (map snd args) \<noteq> None \<and>
     call_says p tagp (dp_fmt p f) (map (cxx_type_of (dp_abi p)) (map fst args)) (map snd args) (snd x)"
| "line_says p lg (Cxx_Line level f args) x \<longleftrightarrow>
     fst x = level \<and> call_says p (lt_tag lg) (format_pointer f) (map fst args) (map snd args) (snd x)"

lemma message_eta: "\<lparr>lm_tag = lm_tag r, lm_fmt = lm_fmt r, lm_args = lm_args r\<rparr> = r"
  by (cases r) simp

lemma write_log_tells:
  assumes cfg: "config_ok (dp_env p)" and q: "quiet s st" and says: "call_says p tagp fmtp ts vs x"
  shows "\<exists>st'. write_log (dp_env p) (dp_mem p) (dp_mem p) level tagp flags fmtp ts vs st = Some st' \<and>
     quiet s st' \<and> same_levels st st' \<and>
     messages_to s st' = messages_to s st @ (if passes (dp_env p) st (level, x) then [spoken (level, x)] else [])"
proof -
  let ?env = "dp_env p" and ?m = "dp_mem p"
  have c: "tagp \<noteq> NULL" "cstr ?m tagp (fst x)" "ref_denotes ?env ?m tagp (lm_tag (snd x))"
    "ref_denotes ?env ?m fmtp (lm_fmt (snd x))" "cxx_args_mean ?env ?m ts vs (lm_args (snd x))" "length ts \<le> 32"
    using says by (simp_all add: call_says_def)
  obtain types args where t: "codes ts = Some types" "0 \<notin> set types" "length types = length ts"
    "with_wire_args ts vs = Some args" "args_denote ?env ?m 0 0 None types args (lm_args (snd x))"
    using cxx_args_pack [OF c(5), of 0 None] by blast
  have den: "call_denotes ?env ?m tagp fmtp None types False args (lm_tag (snd x)) (lm_fmt (snd x)) (lm_args (snd x))"
    using t(3,5) c(3,4,6) by (simp add: call_denotes_def precision_mask_def)
  have fit: "length (log_payload_bytes (lm_tag (snd x)) (lm_fmt (snd x)) types (lm_args (snd x))) \<le> ON9LOG_PAYLOAD_LEN_MAX"
    using says t(3) by (simp add: call_says_def length_log_payload)
  have fil: "filters_ok st" using q by (simp add: quiet_def)
  note on = level_enabled_spec [OF fil c(1,2), of ?env level]
  have run: "write_log ?env ?m ?m level tagp flags fmtp ts vs st =
      on9log_vwrite ?env ?m ?m level tagp fmtp None (Some (types @ [0])) (word_of_nat (length types)) False args st"
    if "level_enabled ?env level"
    using that on9log_arg_count_table [OF t(2)] t(1,3,4) c(6)
    by (simp add: write_log_def arg_types_def on9log_write_def arg_table_def)
  show ?thesis
  proof (cases "passes ?env st (level, x)")
    case True
    then have "level_enabled ?env level" "on9log_level_enabled ?env ?m st level tagp = Some True"
      by (simp_all add: passes_def level_enabled_def on)
    then show ?thesis using vwrite_tells [OF cfg q _ den fit, of level "[0]"] True
      by (simp add: run spoken_def message_eta)
  next
    case False
    have "write_log ?env ?m ?m level tagp flags fmtp ts vs st = Some st"
    proof (cases "level_enabled ?env level")
      case True
      then have "\<not> (level \<noteq> 0 \<and> level \<le> cfg_local_level ?env \<and> level \<le> effective_level st (fst x))"
        using False by (auto simp: passes_def level_enabled_def)
      then have "level = 0 \<or> level > cfg_local_level ?env \<or> level > effective_level st (fst x)"
        by (simp add: not_le disj_commute)
      then show ?thesis unfolding run [OF True] by (rule disabled_call_changes_nothing [OF fil c(1,2)])
    qed (simp add: write_log_def)
    then show ?thesis using False q by simp
  qed
qed

lemma run_line_tells:
  assumes "config_ok (dp_env p)" and "\<not> dp_hint p" and "quiet s st" and "line_says p lg l x"
  shows "\<exists>st'. run_line p lg l st = Some st' \<and> quiet s st' \<and> same_levels st st' \<and>
     messages_to s st' = messages_to s st @ (if passes (dp_env p) st x then [spoken x] else [])"
proof (cases l)
  case (C_Line level tagp f args)
  obtain y where y: "x = (level, y)" using assms(4) C_Line by (cases x) simp
  obtain va where va: "c_va_args (dp_abi p) (map fst args) (map snd args) = Some va"
    using assms(4) C_Line by auto
  have says: "call_says p tagp (dp_fmt p f) (map (cxx_type_of (dp_abi p)) (map fst args)) (map snd args) y"
    and alike: "list_all (classified_alike (dp_abi p)) (map fst args)"
    using assms(4) C_Line y by simp_all
  have "length (map fst args) \<le> 16" using says by (simp add: call_says_def)
  from macro_is_wrapper [OF alike va this, of "dp_hint p"]
  have "run_line p lg l st = write_log (dp_env p) (dp_mem p) (dp_mem p) level tagp 0 (dp_fmt p f)
      (map (cxx_type_of (dp_abi p)) (map fst args)) (map snd args) st"
    using assms(2) by (simp add: C_Line)
  then show ?thesis using write_log_tells [OF assms(1,3) says, of level 0] unfolding y by (simp only:)
next
  case (Cxx_Line level f args)
  obtain y where y: "x = (level, y)" using assms(4) Cxx_Line by (cases x) simp
  have says: "call_says p (lt_tag lg) (format_pointer f) (map fst args) (map snd args) y"
    using assms(4) Cxx_Line y by simp
  show ?thesis using write_log_tells [OF assms(1,3) says, of level "lt_text_flags lg"]
    unfolding y Cxx_Line run_line.simps Logger_log_def .
qed

lemma run_all_append: "run_all (xs @ ys) st = do { st \<leftarrow> run_all xs st; run_all ys st }"
  by (induction xs arbitrary: st) (simp_all add: bind_assoc)

lemma passes_same: "same_levels st st' \<Longrightarrow> passes env st' x = passes env st x"
  by (simp add: passes_def same_levels_effective)

lemma run_lines_tell:
  assumes "config_ok (dp_env p)" and "\<not> dp_hint p"
  shows "list_all2 (line_says p lg) ls xs \<Longrightarrow> quiet s st \<Longrightarrow>
     \<exists>st'. run_lines p lg ls st = Some st' \<and> quiet s st' \<and> same_levels st st' \<and>
       messages_to s st' = messages_to s st @ map spoken (filter (passes (dp_env p) st) xs)"
proof (induction ls xs arbitrary: st rule: list_all2_induct)
  case Nil
  then show ?case by (simp add: run_lines_def)
next
  case (Cons l ls x xs)
  obtain st1 where 1: "run_line p lg l st = Some st1" "quiet s st1" "same_levels st st1"
    "messages_to s st1 = messages_to s st @ (if passes (dp_env p) st x then [spoken x] else [])"
    using run_line_tells [OF assms Cons.prems Cons.hyps(1)] by blast
  obtain st2 where 2: "run_lines p lg ls st1 = Some st2" "quiet s st2" "same_levels st1 st2"
    "messages_to s st2 = messages_to s st1 @ map spoken (filter (passes (dp_env p) st1) xs)"
    using Cons.IH [OF 1(2)] by blast
  have "passes (dp_env p) st1 = passes (dp_env p) st" using passes_same [OF 1(3)] by blast
  then show ?case using 1 2 same_levels_trans [OF 1(3) 2(3)] by (auto simp: run_lines_def)
qed

section \<open>Literals of the program\<close>

text \<open>
  Linked as the build files ask (no PIE): the literals and the copies of the formats are in the image,
  at addresses a packet can carry.
\<close>

definition image_address :: "demo_program \<Rightarrow> addr \<Rightarrow> bool" where
  "image_address p a \<longleftrightarrow> port_addr_in_image (dp_env p) a \<and> a < 0xffffffff"

definition demo_image :: "demo_program \<Rightarrow> string list \<Rightarrow> bool" where
  "demo_image p strs \<longleftrightarrow>
     (\<forall>s \<in> set strs. dp_str p s \<noteq> NULL \<and> image_address p (dp_str p s) \<and> cstr (dp_mem p) (dp_str p s) (ascii s)) \<and>
     (\<forall>f. image_address p (dp_fmt p f) \<and> image_address p (dp_str p f))"

definition c_message :: "demo_program \<Rightarrow> on9log_level_t \<Rightarrow> string \<Rightarrow> string \<Rightarrow> log_arg list \<Rightarrow> demo_message" where
  "c_message p level tag f vals =
     (level, ascii tag, \<lparr>lm_tag = ByAddress (word_of_nat (dp_str p tag)),
                        lm_fmt = ByAddress (word_of_nat (dp_fmt p f)), lm_args = vals\<rparr>)"

definition text_arg :: "demo_program \<Rightarrow> string \<Rightarrow> log_arg" where
  "text_arg p s = ArgStr (Some (take (cfg_max_dynamic_string_len (dp_env p)) (ascii s)))"

lemma image_reference:
  "image_address p a \<Longrightarrow> ref_denotes (dp_env p) m a (ByAddress (word_of_nat a))"
  using word_of_nat_not_null [of a] by (simp add: ref_denotes_def image_address_def)

lemma c_line_says:
  assumes img: "demo_image p strs" and "tag \<in> set strs"
    and "list_all (classified_alike (dp_abi p)) (map fst args)"
    and "c_va_args (dp_abi p) (map fst args) (map snd args) \<noteq> None"
    and "cxx_args_mean (dp_env p) (dp_mem p) (map (cxx_type_of (dp_abi p)) (map fst args)) (map snd args) vals"
    and "length args \<le> 16" and "args_size vals \<le> 65000"
  shows "line_says p lg (C_Line level (dp_str p tag) f args) (c_message p level tag f vals)"
proof -
  have "dp_str p tag \<noteq> NULL" "image_address p (dp_str p tag)" "cstr (dp_mem p) (dp_str p tag) (ascii tag)"
    "image_address p (dp_fmt p f)" using img assms(2) by (auto simp: demo_image_def)
  then show ?thesis using assms(3-7) image_reference
    by (simp add: call_says_def c_message_def ref_bytes_def)
qed

lemma text_means:
  assumes "demo_image p strs" and "s \<in> set strs"
  shows "cxx_means (dp_env p) (dp_mem p) CxxCharPtr (CxxAddr (dp_str p s)) (text_arg p s)"
  unfolding text_arg_def by (rule cxx_means.text_ptr) (use assms in \<open>auto simp: demo_image_def intro: cstr_text_at\<close>)

lemma plain_line_says:
  "demo_image p strs \<Longrightarrow> tag \<in> set strs \<Longrightarrow>
     line_says p lg (C_Line level (dp_str p tag) f []) (c_message p level tag f [])"
  by (rule c_line_says) (simp_all add: c_va_args_def)

lemma label_line_says:
  "demo_image p strs \<Longrightarrow> tag \<in> set strs \<Longrightarrow> label \<in> set strs \<Longrightarrow> length label \<le> 60000 \<Longrightarrow>
     line_says p lg (C_Line level (dp_str p tag) f [c_text (dp_str p label)])
       (c_message p level tag f [text_arg p label])"
  by (rule c_line_says)
    (auto simp: c_va_args_def c_text_def classified_alike_iff text_means, simp add: text_arg_def)

section \<open>The filter cases\<close>

definition emit_messages :: "demo_program \<Rightarrow> string \<Rightarrow> string \<Rightarrow> demo_message list" where
  "emit_messages p tag label =
     [c_message p 1 tag ''[%s] error'' [text_arg p label], c_message p 2 tag ''[%s] warn'' [text_arg p label],
      c_message p 3 tag ''[%s] info'' [text_arg p label], c_message p 4 tag ''[%s] debug'' [text_arg p label],
      c_message p 5 tag ''[%s] verbose'' [text_arg p label]]"

lemma emit_lines_say:
  "demo_image p strs \<Longrightarrow> tag \<in> set strs \<Longrightarrow> label \<in> set strs \<Longrightarrow> length label \<le> 60000 \<Longrightarrow>
     list_all2 (line_says p lg) (emit_filter_demo_lines p tag label) (emit_messages p tag label)"
  by (simp add: emit_filter_demo_lines_def emit_messages_def label_line_says del: line_says.simps)

text \<open>The messages that pass when \<open>lv\<close> gives the level in force for each tag.\<close>

definition let_through :: "(bytes \<Rightarrow> on9log_level_t) \<Rightarrow> demo_message list \<Rightarrow> demo_message list" where
  "let_through lv xs = filter (\<lambda>x. fst x \<le> lv (fst (snd x))) xs"

lemma let_through_append: "let_through lv (xs @ ys) = let_through lv xs @ let_through lv ys"
  by (simp add: let_through_def)

text \<open>What the parts would say with every level in force.\<close>

definition demo_says :: "demo_program \<Rightarrow> on9log_level_t \<Rightarrow> string \<Rightarrow> demo_message" where
  "demo_says p level f = c_message p level ''demo'' f []"

definition baseline_messages :: "demo_program \<Rightarrow> demo_message list" where
  "baseline_messages p = emit_messages p ''demo'' ''baseline'' @ emit_messages p ''worker'' ''baseline'' @
     [demo_says p 2 ''---- filter: global runtime level -> WARN (info line below suppressed) ----'']"

definition global_warn_messages :: "demo_program \<Rightarrow> demo_message list" where
  "global_warn_messages p =
     [demo_says p 3 ''this info line should be suppressed''] @
     emit_messages p ''demo'' ''global=WARN'' @ emit_messages p ''worker'' ''global=WARN'' @
     [demo_says p 2 ''---- filter: per-tag worker -> VERBOSE via C++ static wrapper ----'']"

definition worker_verbose_messages :: "demo_program \<Rightarrow> demo_message list" where
  "worker_verbose_messages p =
     emit_messages p ''demo'' ''per-tag worker=VERBOSE'' @ emit_messages p ''worker'' ''per-tag worker=VERBOSE'' @
     [demo_says p 2 ''---- filter: clear worker override via C++ static wrapper ----'']"

definition cleared_messages :: "demo_program \<Rightarrow> demo_message list" where
  "cleared_messages p =
     emit_messages p ''demo'' ''cleared worker'' @ emit_messages p ''worker'' ''cleared worker'' @
     [demo_says p 2 ''---- filter: global NONE next (no log lines should appear until restore) ----'']"

definition global_none_messages :: "demo_program \<Rightarrow> demo_message list" where
  "global_none_messages p =
     emit_messages p ''demo'' ''global=NONE'' @ [demo_says p 1 ''this error line must be suppressed under NONE'']"

definition restored_messages :: "demo_program \<Rightarrow> demo_message list" where
  "restored_messages p =
     [demo_says p 3 ''---- filter: global VERBOSE restored (NONE block above showed nothing) ----''] @
     emit_messages p ''demo'' ''restored'' @ emit_messages p ''worker'' ''restored''"

text \<open>
  What the program announces: everything up to \<open>level\<close>, then warnings and errors, with every line of
  \<^verbatim>\<open>worker\<close> while its own level is set, nothing under \<open>NONE\<close>, and everything again.
\<close>

definition filter_demo_messages :: "demo_program \<Rightarrow> on9log_level_t \<Rightarrow> demo_message list" where
  "filter_demo_messages p level =
     let_through (\<lambda>_. level)
       ([c_message p 3 ''demo'' ''---- filter baseline: default_runtime=%d compile_ceiling=%d ----''
           [Arg32 level, Arg32 5]] @ baseline_messages p) @
     let_through (\<lambda>_. 2) (global_warn_messages p) @
     let_through ((\<lambda>_. 2)(ascii ''worker'' := 5)) (worker_verbose_messages p) @
     let_through (\<lambda>_. 2) (cleared_messages p) @
     let_through (\<lambda>_. 5) (restored_messages p)"

text \<open>The state between two calls: its default level, its tag levels, room for \<open>k\<close> more filters.\<close>

definition demo_at :: "on9log_sink_entry \<Rightarrow> nat \<Rightarrow> on9log_level_t \<Rightarrow> (bytes \<Rightarrow> on9log_level_t option) \<Rightarrow> on9log_state \<Rightarrow> bool" where
  "demo_at s k d fm st \<longleftrightarrow> quiet s st \<and> s_default_level st = d \<and> filter_map (s_tag_filters st) = fm \<and>
     length (s_tag_filters st) + k < 2 ^ 32"

definition in_force :: "on9log_level_t \<Rightarrow> (bytes \<Rightarrow> on9log_level_t option) \<Rightarrow> bytes \<Rightarrow> on9log_level_t" where
  "in_force d fm t = (case fm t of None \<Rightarrow> d | Some l \<Rightarrow> l)"

text \<open>A list of lines with what they say.\<close>

definition scripted :: "demo_program \<Rightarrow> demo_line list \<Rightarrow> demo_message list \<Rightarrow> bool" where
  "scripted p ls xs \<longleftrightarrow> list_all2 (line_says p (demo_logger p)) ls xs \<and> list_all (\<lambda>x. fst x \<noteq> 0 \<and> fst x \<le> 5) xs"

lemma scripted_append: "scripted p ls xs \<Longrightarrow> scripted p ls' xs' \<Longrightarrow> scripted p (ls @ ls') (xs @ xs')"
  by (simp add: scripted_def list_all2_appendI)

lemma scripted_line:
  "line_says p (demo_logger p) l x \<Longrightarrow> fst x \<noteq> 0 \<Longrightarrow> fst x \<le> 5 \<Longrightarrow> scripted p [l] [x]"
  by (simp add: scripted_def)

text \<open>
  \<open>moves p s c (k, d, fm) (k', d', fm') xs\<close>: from such a state \<open>c\<close> returns in one with the new levels,
  and has told the sink those messages of \<open>xs\<close> that the library was compiled for.
\<close>

type_synonym demo_levels = "nat \<times> on9log_level_t \<times> (bytes \<Rightarrow> on9log_level_t option)"

fun moves :: "demo_program \<Rightarrow> on9log_sink_entry \<Rightarrow> demo_step \<Rightarrow> demo_levels \<Rightarrow> demo_levels \<Rightarrow> demo_message list \<Rightarrow> bool" where
  "moves p s c (k, d, fm) (k', d', fm') xs \<longleftrightarrow>
     (\<forall>st. demo_at s k d fm st \<longrightarrow>
        (\<exists>st'. c st = Some st' \<and> demo_at s k' d' fm' st' \<and>
           messages_to s st' = messages_to s st @ map spoken (filter (\<lambda>x. fst x \<le> cfg_local_level (dp_env p)) xs)))"

lemma moves_Nil: "moves p s (run_all []) a a []"
  by (cases a) simp

lemma moves_Cons:
  assumes "moves p s c a b xs" and "moves p s (run_all cs) b e ys"
  shows "moves p s (run_all (c # cs)) a e (xs @ ys)"
  using assms by (cases a; cases b; cases e) fastforce

lemma moves_say:
  assumes "config_ok (dp_env p)" and "\<not> dp_hint p" and "demo_unit p" and says: "scripted p ls xs"
  shows "moves p s (run_lines p (demo_logger p) ls) (k, d, fm) (k, d, fm) (let_through (in_force d fm) xs)"
proof -
  have "\<exists>st'. run_lines p (demo_logger p) ls st = Some st' \<and> demo_at s k d fm st' \<and>
      messages_to s st' = messages_to s st @ map spoken (filter (\<lambda>x. fst x \<le> cfg_local_level (dp_env p)) (let_through (in_force d fm) xs))"
    if at: "demo_at s k d fm st" for st
  proof -
    have eff: "effective_level st = in_force d fm"
      using at by (auto simp: demo_at_def effective_level_def in_force_def)
    have "filter (passes (dp_env p) st) xs = filter (\<lambda>x. fst x \<le> cfg_local_level (dp_env p)) (let_through (in_force d fm) xs)"
      using says assms(3) unfolding let_through_def filter_filter list_all_iff scripted_def
      by (intro filter_cong refl) (auto simp: passes_def eff demo_unit_def)
    then show ?thesis
      using run_lines_tell [OF assms(1,2), of "demo_logger p" ls xs s st] at says
      by (fastforce simp: demo_at_def same_levels_def scripted_def)
  qed
  then show ?thesis by simp
qed

lemma moves_set_level:
  "on9log_valid_level l \<Longrightarrow> moves p s (\<lambda>st. Some (on9log_set_level l st)) (k, d, fm) (k, l, fm) []"
  by (simp add: demo_at_def quiet_def on9log_set_level_def messages_to_def sinks_ok_def registered_def filters_ok_def)

text \<open>Setting and clearing tag levels changes the filters only.\<close>

lemma tag_level_frame:
  "on9log_set_tag_level m id malloc_ok calloc_ok tag l st = Some (err, st') \<Longrightarrow>
     s_sinks st' = s_sinks st \<and> st_events st' = st_events st \<and> s_dropped_count st' = s_dropped_count st \<and>
     length (s_tag_filters st') \<le> Suc (length (s_tag_filters st))"
  "on9log_clear_tag_level m tag st = Some (err, st') \<Longrightarrow>
     s_sinks st' = s_sinks st \<and> st_events st' = st_events st \<and> s_dropped_count st' = s_dropped_count st \<and>
     length (s_tag_filters st') = length (s_tag_filters st)"
  by (auto simp: on9log_set_tag_level_def on9log_clear_tag_level_def update_node_def reuse_node_def insert_node_def
      deactivate_node_def Let_def split: if_splits Option.bind_splits option.splits)

lemma moves_set_tag:
  assumes "tag \<noteq> NULL" and "cstr m tag t" and "on9log_valid_level l"
  shows "moves p s (\<lambda>st. map_option snd (Logger_set_tag_level m id True True tag l st)) (Suc k, d, fm) (k, d, fm(t \<mapsto> l)) []"
proof -
  have "\<exists>st'. map_option snd (Logger_set_tag_level m id True True tag l st) = Some st' \<and>
     demo_at s k d (fm(t \<mapsto> l)) st' \<and> messages_to s st' = messages_to s st" if "demo_at s (Suc k) d fm st" for st
  proof -
    have at: "filters_ok st" "filters_ok (id st)" "Suc (length (s_tag_filters (id st))) < 2 ^ 32"
      using that by (simp_all add: demo_at_def quiet_def)
    obtain err st' where st': "on9log_set_tag_level m id True True tag l st = Some (err, st')" "filters_ok st'"
      "filter_map (s_tag_filters st') = (filter_map (s_tag_filters st))(t \<mapsto> l)" "s_default_level st' = s_default_level st"
      by (rule set_tag_level_spec [where between = id and malloc_ok = True and calloc_ok = True, OF at(1,2) assms at(3)]) auto
    then show ?thesis using tag_level_frame(1) [OF st'(1)] that
      by (simp add: Logger_set_tag_level_def demo_at_def quiet_def messages_to_def sinks_ok_def registered_def)
  qed
  then show ?thesis by simp
qed

lemma moves_clear_tag:
  assumes "tag \<noteq> NULL" and "cstr m tag t"
  shows "moves p s (\<lambda>st. map_option snd (Logger_clear_tag_level m tag st)) (k, d, fm) (k, d, fm(t := None)) []"
proof -
  have "\<exists>st'. map_option snd (Logger_clear_tag_level m tag st) = Some st' \<and>
     demo_at s k d (fm(t := None)) st' \<and> messages_to s st' = messages_to s st" if "demo_at s k d fm st" for st
  proof -
    have ok: "filters_ok st" using that by (simp add: demo_at_def quiet_def)
    obtain err st' where st': "on9log_clear_tag_level m tag st = Some (err, st')" "filters_ok st'"
      "s_default_level st' = s_default_level st"
      "filter_map (s_tag_filters st') = (filter_map (s_tag_filters st))(t := None)"
      by (rule clear_tag_level_spec [OF ok assms])
    then show ?thesis using tag_level_frame(2) [OF st'(1)] that
      by (simp add: Logger_clear_tag_level_def demo_at_def quiet_def messages_to_def sinks_ok_def registered_def)
  qed
  then show ?thesis by simp
qed

lemma emit_levels: "list_all (\<lambda>x. fst x \<noteq> 0 \<and> fst x \<le> (5 :: u32)) (emit_messages p tag label)"
  by (simp add: emit_messages_def c_message_def)

definition filter_literals :: "string list" where
  "filter_literals =
     [''demo'', ''worker'', ''baseline'', ''global=WARN'', ''per-tag worker=VERBOSE'', ''cleared worker'', ''global=NONE'',
      ''restored'']"

lemma filter_line:
  assumes "demo_image p filter_literals" and "l \<noteq> 0" and "l \<le> 5"
  shows "scripted p [C_Line l (TAG p) f []] [demo_says p l f]"
proof (rule scripted_line)
  show "line_says p (demo_logger p) (C_Line l (TAG p) f []) (demo_says p l f)"
    unfolding TAG_def demo_says_def by (rule plain_line_says [OF assms(1)]) (simp add: filter_literals_def)
qed (use assms(2,3) in \<open>simp_all add: demo_says_def c_message_def\<close>)

lemma filter_emit:
  "demo_image p filter_literals \<Longrightarrow> tag \<in> set filter_literals \<Longrightarrow> label \<in> set filter_literals \<Longrightarrow>
     scripted p (emit_filter_demo_lines p tag label) (emit_messages p tag label)"
  unfolding scripted_def by (intro conjI emit_levels emit_lines_say) (auto simp: filter_literals_def)

lemma filter_baseline:
  assumes "demo_image p filter_literals" and "quiet s st" and "s_default_level st = level"
  shows "scripted p [LOGI (TAG p) f [c_int (uint (on9log_get_level st)), c_int 5]]
     [c_message p 3 ''demo'' f [Arg32 level, Arg32 5]]"
proof (rule scripted_line)
  have "uint level \<le> 5"
    using assms(2,3) by (auto simp: quiet_def filters_ok_def on9log_valid_level_def word_le_def)
  then have "sint level = uint level"
    unfolding sint_uint by (intro signed_take_bit_int_eq_self) (simp_all add: order.trans [OF _ uint_ge_0])
  then show "line_says p (demo_logger p) (LOGI (TAG p) f [c_int (uint (on9log_get_level st)), c_int 5])
     (c_message p 3 ''demo'' f [Arg32 level, Arg32 5])"
    unfolding TAG_def
    by (intro c_line_says [OF assms(1)])
      (auto simp: filter_literals_def c_int_def c_va_args_def classified_alike_iff
        on9log_get_level_def assms(3) intro!: cxx_means.int_small)
qed (simp_all add: c_message_def)

lemma filter_parts:
  assumes "demo_image p filter_literals"
  shows "scripted p (baseline_lines p) (baseline_messages p)"
    and "scripted p (global_warn_lines p) (global_warn_messages p)"
    and "scripted p (worker_verbose_lines p) (worker_verbose_messages p)"
    and "scripted p (cleared_lines p) (cleared_messages p)"
    and "scripted p (global_none_lines p) (global_none_messages p)"
    and "scripted p (restored_lines p) (restored_messages p)"
  unfolding baseline_lines_def baseline_messages_def global_warn_lines_def global_warn_messages_def
    worker_verbose_lines_def worker_verbose_messages_def cleared_lines_def cleared_messages_def
    global_none_lines_def global_none_messages_def restored_lines_def restored_messages_def
  by (intro scripted_append filter_line [OF assms] filter_emit [OF assms]; simp add: filter_literals_def)+

lemma in_force_simps:
  "in_force d Map.empty = (\<lambda>_. d)" "in_force d [t \<mapsto> l] = (\<lambda>_. d)(t := l)"
  by (auto simp: in_force_def)

lemma baseline_moves:
  assumes "config_ok (dp_env p)" and "\<not> dp_hint p" and "demo_unit p" and "demo_image p filter_literals"
  shows "moves p s (\<lambda>st. run_lines p (demo_logger p) [LOGI (TAG p) f [c_int (uint (on9log_get_level st)), c_int 5]] st)
     (k, level, fm) (k, level, fm) (let_through (in_force level fm) [c_message p 3 ''demo'' f [Arg32 level, Arg32 5]])"
proof -
  have "\<exists>st'. run_lines p (demo_logger p) [LOGI (TAG p) f [c_int (uint (on9log_get_level st)), c_int 5]] st = Some st' \<and>
     demo_at s k level fm st' \<and> messages_to s st' = messages_to s st @
       map spoken (filter (\<lambda>x. fst x \<le> cfg_local_level (dp_env p))
         (let_through (in_force level fm) [c_message p 3 ''demo'' f [Arg32 level, Arg32 5]]))"
    if "demo_at s k level fm st" for st
    using moves_say [OF assms(1-3) filter_baseline [OF assms(4), of s st level f], of s k level fm] that
    by (simp add: demo_at_def)
  then show ?thesis by simp
qed

lemma global_none_silent: "let_through (\<lambda>_. 0) (global_none_messages p) = []"
  by (simp add: let_through_def global_none_messages_def emit_messages_def demo_says_def c_message_def)

lemma filter_cases_move:
  assumes "config_ok (dp_env p)" and "\<not> dp_hint p" and "demo_unit p" and "demo_image p filter_literals"
  shows "moves p s (log_filter_cases p True True) (1, level, Map.empty) (0, 5, Map.empty) (filter_demo_messages p level)"
proof -
  have worker: "dp_str p ''worker'' \<noteq> NULL" "cstr (dp_mem p) (dp_str p ''worker'') (ascii ''worker'')"
    using assms(4) by (auto simp: demo_image_def filter_literals_def)
  have valid: "on9log_valid_level 0" "on9log_valid_level 2" "on9log_valid_level 5" by (simp_all add: on9log_valid_level_def)
  note say = moves_say [OF assms(1-3)] and part = filter_parts [OF assms(4)]
  let ?w = "[ascii ''worker'' \<mapsto> 5 :: on9log_level_t]" and ?c = "[ascii ''worker'' \<mapsto> 5 :: on9log_level_t](ascii ''worker'' := None)"
  have "moves p s (log_filter_cases p True True) (Suc 0, level, Map.empty) (0, 5, ?c)
     (let_through (in_force level Map.empty)
        [c_message p 3 ''demo'' ''---- filter baseline: default_runtime=%d compile_ceiling=%d ----'' [Arg32 level, Arg32 5]] @
      let_through (in_force level Map.empty) (baseline_messages p) @ [] @
      let_through (in_force 2 Map.empty) (global_warn_messages p) @ [] @
      let_through (in_force 2 ?w) (worker_verbose_messages p) @ [] @
      let_through (in_force 2 ?c) (cleared_messages p) @ [] @
      let_through (in_force 0 ?c) (global_none_messages p) @ [] @
      let_through (in_force 5 ?c) (restored_messages p) @ [])"
    unfolding log_filter_cases_def Let_def Logger_set_level_def
    by (rule moves_Cons [OF baseline_moves [OF assms]
        moves_Cons [OF say [OF part(1)]
        moves_Cons [OF moves_set_level [OF valid(2)]
        moves_Cons [OF say [OF part(2)]
        moves_Cons [OF moves_set_tag [OF worker valid(3)]
        moves_Cons [OF say [OF part(3)]
        moves_Cons [OF moves_clear_tag [OF worker]
        moves_Cons [OF say [OF part(4)]
        moves_Cons [OF moves_set_level [OF valid(1)]
        moves_Cons [OF say [OF part(5)]
        moves_Cons [OF moves_set_level [OF valid(3)]
        moves_Cons [OF say [OF part(6)] moves_Nil]]]]]]]]]]]])
  then show ?thesis
    by (simp add: in_force_simps global_none_silent filter_demo_messages_def let_through_append del: moves.simps append_Cons)
qed

text \<open>C26: The filter part of the demonstration program, compiled as its first line says
  (\<open>ON9_LOG_LOCAL_LEVEL\<close> 5 for its own file: \<open>demo_unit\<close>) and without the format scan hint, from any default
  level and with no tag levels set before: each sink is told exactly the lines the program announces, in
  order (everything, then warnings only, with every line of \<^verbatim>\<open>worker\<close> while its tag has a level of its
  own, nothing under NONE, everything again), less those above the level the library was compiled with.
  With the library's default of 3 none of the debug and verbose lines is sent, although the program's
  own level is 5.\<close>

theorem filter_demo_says_what_it_announces:
  assumes "config_ok (dp_env p)" and "\<not> dp_hint p" and "demo_unit p" and "demo_image p filter_literals"
    and "quiet s st" and "s_default_level st = level" and "filter_map (s_tag_filters st) = Map.empty"
    and "length (s_tag_filters st) < 4294967295"
  shows "\<exists>st'. log_filter_cases p True True st = Some st' \<and> quiet s st' \<and>
     messages_to s st' = messages_to s st @
       map spoken (filter (\<lambda>x. fst x \<le> cfg_local_level (dp_env p)) (filter_demo_messages p level))"
  using filter_cases_move [OF assms(1-4), of s level] assms(5-8) by (fastforce simp: demo_at_def)

text \<open>
  A concrete image for it: the literals one after the other, 64 bytes apart; the formats, which nobody
  reads, behind them. The library was compiled with its default level of 3.
\<close>

primrec literal_index :: "string list \<Rightarrow> string \<Rightarrow> nat" where
  "literal_index [] s = 0"
| "literal_index (x # xs) s = (if x = s then 0 else Suc (literal_index xs s))"

definition literal_rows :: "string list \<Rightarrow> mem" where
  "literal_rows strs a =
     (let i = (a - 4096) div 64; j = (a - 4096) mod 64
      in if 4096 \<le> a \<and> i < length strs
         then (if j < length (strs ! i) then Some (ascii (strs ! i) ! j) else if j = length (strs ! i) then Some 0 else None)
         else None)"

definition demo_on_linux :: demo_program where
  "demo_on_linux =
     \<lparr>dp_abi = lp64, dp_hint = False, dp_env = on9log_default_env\<lparr>cfg_unit_level := 5\<rparr>,
      dp_mem = literal_rows filter_literals, dp_uint64 = C_Long False,
      dp_str = (\<lambda>s. 4096 + 64 * literal_index filter_literals s), dp_fmt = (\<lambda>f. 0x10000 + length f mod 256),
      dp_var = (\<lambda>_. NULL)\<rparr>"

lemma literal_index_nth: "s \<in> set strs \<Longrightarrow> literal_index strs s < length strs \<and> strs ! literal_index strs s = s"
  by (induction strs) auto

lemma literal_index_le: "literal_index strs s \<le> length strs"
  by (induction strs) auto

lemma cstr_bytes: "0 \<notin> set s \<Longrightarrow> (\<And>j. j < length s \<Longrightarrow> m (p + j) = Some (s ! j)) \<Longrightarrow> m (p + length s) = Some 0 \<Longrightarrow> cstr m p s"
proof (induction s arbitrary: p)
  case (Cons b s)
  then show ?case using Cons.prems(2) [of 0] Cons.prems(2) [of "Suc _"] by (auto intro!: Cons.IH)
qed simp

lemma literal_rows_cstr:
  assumes "s \<in> set strs" and "length s < 64" and "0 \<notin> set (ascii s)"
  shows "cstr (literal_rows strs) (4096 + 64 * literal_index strs s) (ascii s)"
  using literal_index_nth [OF assms(1)] assms(2,3)
  by (intro cstr_bytes) (simp_all add: literal_rows_def Let_def)

lemma filter_literals_short: "s \<in> set filter_literals \<Longrightarrow> length s < 64 \<and> 0 \<notin> set (ascii s)"
  by (auto simp: filter_literals_def ascii_def)

lemma demo_on_linux_image: "demo_image demo_on_linux filter_literals"
proof -
  have "literal_index filter_literals s \<le> 8" for s
    using literal_index_le [of filter_literals s] by (simp add: filter_literals_def)
  then have "4096 + 64 * literal_index filter_literals s < 4294967295" for s
    by (rule le_less_trans [OF add_left_mono [OF mult_le_mono2]]) simp
  moreover have "length f mod 256 < (4294901759 :: nat)" for f :: string
    by (rule less_le_trans [OF mod_less_divisor]) simp_all
  ultimately show ?thesis
    using filter_literals_short literal_rows_cstr [of _ filter_literals]
    by (fastforce simp: demo_image_def demo_on_linux_def image_address_def on9log_default_env_def)
qed

definition quiet_state :: on9log_state where
  "quiet_state = demo_state\<lparr>s_dropped_count := 0\<rparr>"

lemma quiet_state_ok: "quiet demo_sink quiet_state"
  using demo_state_ok filters_ok_initial [of on9log_default_env]
  by (simp add: quiet_def quiet_state_def sinks_ok_def registered_def filters_ok_def demo_state_def)

theorem filter_demo_says_what_it_announces_witness:
  "\<exists>st'. log_filter_cases demo_on_linux True True quiet_state = Some st' \<and> quiet demo_sink st' \<and>
     messages_to demo_sink st' = messages_to demo_sink quiet_state @
       map spoken (filter (\<lambda>x. fst x \<le> cfg_local_level (dp_env demo_on_linux)) (filter_demo_messages demo_on_linux 5))"
proof (rule filter_demo_says_what_it_announces [OF _ _ _ demo_on_linux_image quiet_state_ok])
  show "config_ok (dp_env demo_on_linux)" using config_ok_default by (simp add: demo_on_linux_def config_ok_def)
qed (simp_all add: demo_on_linux_def demo_unit_def quiet_state_def demo_state_def on9log_initial_state_def filter_map_def)

end
