(* ===== verification/UnixDemoCases.thy ===== *)
theory UnixDemoCases
  imports UnixDemoCorrect SinkCorrect
begin

text \<open>
  The other functions of the demonstration program: every log call they make is well formed, so that
  each returns and a sink is told its lines; and the call that is not, on a host whose \<open>uint64_t\<close> is
  a \<open>long\<close>.
\<close>

section \<open>Well-formed arguments and lines\<close>

definition cxx_good :: "demo_program \<Rightarrow> cxx_type \<times> cxx_value \<Rightarrow> bool" where
  "cxx_good p x \<longleftrightarrow> (\<exists>a. cxx_means (dp_env p) (dp_mem p) (fst x) (snd x) a \<and> length (arg_bytes a) \<le> 200)"

definition c_good :: "demo_program \<Rightarrow> c_arg \<Rightarrow> bool" where
  "c_good p x \<longleftrightarrow> classified_alike (dp_abi p) (fst x) \<and> fst x \<noteq> C_Float \<and> fst x \<noteq> C_Double \<and>
     c_promote (dp_abi p) (fst x) (snd x) \<noteq> None \<and> cxx_good p (cxx_type_of (dp_abi p) (fst x), snd x)"

primrec line_good :: "demo_program \<Rightarrow> demo_line \<Rightarrow> bool" where
  "line_good p (C_Line level tag f args) \<longleftrightarrow>
     level \<noteq> 0 \<and> level \<le> 5 \<and> tag = dp_str p ''demo'' \<and> length args \<le> 16 \<and> list_all (c_good p) args"
| "line_good p (Cxx_Line level f args) \<longleftrightarrow>
     level \<noteq> 0 \<and> level \<le> 5 \<and> image_address p (format_pointer f) \<and> length args \<le> 16 \<and> list_all (cxx_good p) args"

lemma length_arg_bytes_ints [simp]: "length (arg_bytes (Arg32 v)) = 4" "length (arg_bytes (Arg64 w)) = 8"
  by simp_all

lemma int_good:
  assumes "0 < n" and "n \<le> 8"
    and "if sgnd then - (2 ^ (8 * n - 1)) \<le> i \<and> i < 2 ^ (8 * n - 1) else 0 \<le> i \<and> i < 2 ^ (8 * n)"
  shows "cxx_good p (CxxInt n sgnd, CxxNumber i)"
proof -
  obtain a where a: "cxx_means (dp_env p) (dp_mem p) (CxxInt n sgnd) (CxxNumber i) a"
    using integers_have_meaning [OF assms] by blast
  then have "length (arg_bytes a) \<le> 200" by (cases rule: cxx_means.cases) simp_all
  then show ?thesis using a by (auto simp: cxx_good_def)
qed

lemma text_good:
  "demo_image p strs \<Longrightarrow> s \<in> set strs \<Longrightarrow> length s \<le> 190 \<Longrightarrow> cxx_good p (CxxCharPtr, CxxAddr (dp_str p s))"
  unfolding cxx_good_def by (rule exI [of _ "text_arg p s"]) (simp add: text_means, simp add: text_arg_def)

lemma other_good:
  "cxx_good p (CxxCharPtr, CxxAddr NULL)" "cxx_good p (CxxFloat 8, CxxReal bits)" "cxx_good p (CxxObjPtr, CxxAddr a)"
  by (auto simp: cxx_good_def intro: cxx_means.intros exI [of _ "ArgStr None"] exI [of _ "Arg64 bits"]
      exI [of _ "ArgPtr (word_of_nat a)"])

lemma array_good:
  "a \<noteq> NULL \<Longrightarrow> cstr (dp_mem p) a s \<Longrightarrow> length s \<le> 190 \<Longrightarrow> cxx_good p (CxxCharArray, CxxAddr a)"
  unfolding cxx_good_def
  by (rule exI [of _ "ArgStr (Some (take (cfg_max_dynamic_string_len (dp_env p)) s))"])
    (auto intro: cxx_means.text_array cstr_text_at)

lemma view_good:
  assumes "a \<noteq> NULL" and "rd_bytes (dp_mem p) a n = Some bs" and "n \<le> 190"
  shows "cxx_good p (CxxStringView, CxxText \<lparr>sv_data = a, sv_len = n\<rparr>)"
proof -
  let ?n = "min n (cfg_max_dynamic_string_len (dp_env p))"
  have "rd_bytes (dp_mem p) a ?n = Some (take ?n bs)" by (rule rd_bytes_le [OF assms(2)]) simp
  then have "cxx_means (dp_env p) (dp_mem p) CxxStringView (CxxText \<lparr>sv_data = a, sv_len = n\<rparr>) (ArgStr (Some (take ?n bs)))"
    using assms(1) by (intro cxx_means.text_view) simp_all
  moreover have "length (arg_bytes (ArgStr (Some (take ?n bs)))) \<le> 200" using assms(3) by simp
  ultimately show ?thesis by (auto simp: cxx_good_def)
qed

section \<open>Well-formed lines say something\<close>

lemma cxx_args_good:
  "list_all (cxx_good p) xs \<Longrightarrow> \<exists>vals. cxx_args_mean (dp_env p) (dp_mem p) (map fst xs) (map snd xs) vals \<and>
     args_size vals \<le> 200 * length xs"
proof (induction xs)
  case (Cons x xs)
  then obtain a vals where "cxx_means (dp_env p) (dp_mem p) (fst x) (snd x) a" "length (arg_bytes a) \<le> 200"
    "cxx_args_mean (dp_env p) (dp_mem p) (map fst xs) (map snd xs) vals" "args_size vals \<le> 200 * length xs"
    by (auto simp: cxx_good_def)
  then show ?case by (intro exI [of _ "a # vals"]) simp
qed simp

lemma c_args_promote:
  "list_all (c_good p) xs \<Longrightarrow> c_promote_all (dp_abi p) (map fst xs) (map snd xs) \<noteq> None"
  by (induction xs) (auto simp: c_good_def)

lemma line_good_says:
  assumes img: "demo_image p strs" and demo: "''demo'' \<in> set strs" and good: "line_good p l"
  shows "\<exists>x. scripted p [l] [x]"
proof (cases l)
  case (C_Line level tag f args)
  let ?xs = "map (\<lambda>x. (cxx_type_of (dp_abi p) (fst x), snd x)) args"
  have "list_all (cxx_good p) ?xs" using good C_Line by (simp add: list_all_iff c_good_def)
  then obtain vals where vals: "cxx_args_mean (dp_env p) (dp_mem p) (map (cxx_type_of (dp_abi p)) (map fst args)) (map snd args) vals"
    "args_size vals \<le> 200 * length args"
    using cxx_args_good [of p ?xs] by (auto simp: comp_def)
  have "line_says p (demo_logger p) l (c_message p level ''demo'' f vals)"
    using good C_Line c_args_promote [of p args] vals
    by (auto simp del: line_says.simps intro!: c_line_says [OF img demo] simp: c_va_args_def list_all_iff c_good_def)
  then show ?thesis using good C_Line
    by (intro exI [of _ "c_message p level ''demo'' f vals"] scripted_line) (simp_all add: c_message_def)
next
  case (Cxx_Line level f args)
  obtain vals where vals: "cxx_args_mean (dp_env p) (dp_mem p) (map fst args) (map snd args) vals"
    "args_size vals \<le> 200 * length args"
    using good Cxx_Line cxx_args_good [of p args] by auto
  let ?x = "(level, ascii ''demo'', \<lparr>lm_tag = ByAddress (word_of_nat (dp_str p ''demo'')),
      lm_fmt = ByAddress (word_of_nat (format_pointer f)), lm_args = vals\<rparr>)"
  have "dp_str p ''demo'' \<noteq> NULL" "image_address p (dp_str p ''demo'')"
    "cstr (dp_mem p) (dp_str p ''demo'') (ascii ''demo'')"
    using img demo by (auto simp: demo_image_def)
  then have "line_says p (demo_logger p) l ?x"
    using good Cxx_Line vals image_reference
    by (simp add: call_says_def demo_logger_def Logger_init_def ref_bytes_def)
  then show ?thesis using good Cxx_Line by (intro exI [of _ ?x] scripted_line) simp_all
qed

lemma lines_good_say:
  assumes "demo_image p strs" and "''demo'' \<in> set strs"
  shows "list_all (line_good p) ls \<Longrightarrow> \<exists>xs. scripted p ls xs"
proof (induction ls)
  case Nil
  then show ?case by (intro exI [of _ "[]"]) (simp add: scripted_def)
next
  case (Cons l ls)
  obtain x where "scripted p [l] [x]" using line_good_says [OF assms, of l] Cons.prems by auto
  moreover obtain xs where "scripted p ls xs" using Cons by auto
  ultimately show ?case using scripted_append [of p "[l]" "[x]" ls xs] by auto
qed

section \<open>The functions\<close>

definition demo_literals :: "string list" where
  "demo_literals = [''demo'', ''on9log'', ''right'', ''left'', ''truncate-me'', ''foobar'']"

definition demo_texts :: "demo_program \<Rightarrow> bool" where
  "demo_texts p \<longleftrightarrow>
     dp_var p ''c_text'' \<noteq> NULL \<and> cstr (dp_mem p) (dp_var p ''c_text'') (ascii ''slice!'') \<and>
     dp_var p ''non_nul_text'' \<noteq> NULL \<and> rd_bytes (dp_mem p) (dp_var p ''non_nul_text'') 6 = Some (ascii ''slice!'') \<and>
     dp_var p ''owned'' \<noteq> NULL \<and> rd_bytes (dp_mem p) (dp_var p ''owned'') 17 = Some (ascii ''owned-string-demo'')"

lemma demo_formats_good:
  "demo_image p strs \<Longrightarrow> image_address p (format_pointer (literal p f)) \<and> image_address p (format_pointer (ON9FMT p f)) \<and>
     image_address p (format_pointer (token p f))"
  by (simp add: demo_image_def literal_def ON9FMT_def token_def)

lemma demo_ints_good:
  "- 2147483648 \<le> i \<Longrightarrow> i < 2147483648 \<Longrightarrow> c_good p (c_int i) \<and> cxx_good p (cxx_int i)"
  "0 \<le> i \<Longrightarrow> i < 4294967296 \<Longrightarrow> c_good p (c_unsigned i) \<and> cxx_good p (cxx_unsigned i)"
  "- 9223372036854775808 \<le> i \<Longrightarrow> i < 9223372036854775808 \<Longrightarrow> cxx_good p (cxx_ll i)"
  "0 \<le> i \<Longrightarrow> i < 18446744073709551616 \<Longrightarrow> cxx_good p (cxx_ull i)"
  "- 128 \<le> i \<Longrightarrow> i < 128 \<Longrightarrow> cxx_good p (cxx_char i)"
  by (simp_all add: c_good_def c_int_def c_unsigned_def cxx_int_def cxx_unsigned_def cxx_ll_def cxx_ull_def cxx_char_def
      classified_alike_iff int_good)

lemma demo_c_args_good:
  "c_good p (c_text NULL)" "c_good p (C_ConstU8Ptr, CxxAddr a)" "c_good p (C_Int (Suc 0) True, CxxNumber 90)"
  "0 \<le> i \<Longrightarrow> i < 256 \<Longrightarrow> c_good p (C_Int (Suc 0) False, CxxNumber i)"
  "- 9223372036854775808 \<le> i \<Longrightarrow> i < 9223372036854775808 \<Longrightarrow> c_good p (C_LongLong True, CxxNumber i)"
  "0 \<le> i \<Longrightarrow> i < 18446744073709551616 \<Longrightarrow> c_good p (C_LongLong False, CxxNumber i)"
  "cxx_good p (CxxCharPtr, CxxAddr a) \<Longrightarrow> c_good p (c_text a)"
  "cxx_good p (CxxCharArray, CxxAddr a) \<Longrightarrow> c_good p (C_ConstCharArray, CxxAddr a)"
  by (simp_all add: c_good_def c_text_def classified_alike_iff int_good other_good)

lemma demo_texts_good:
  assumes "demo_image p demo_literals" and "s \<in> set demo_literals"
  shows "c_good p (c_text (dp_str p s))" and "cxx_good p (cxx_cstr (dp_str p s))"
proof -
  have "length s \<le> 190" using assms(2) by (auto simp: demo_literals_def)
  then show "c_good p (c_text (dp_str p s))" and "cxx_good p (cxx_cstr (dp_str p s))"
    using text_good [OF assms] by (simp_all add: demo_c_args_good cxx_cstr_def)
qed

lemma demo_cxx_args_good: "cxx_good p (cxx_double bits)" "cxx_good p (cxx_pointer a)"
  by (simp_all add: cxx_double_def cxx_pointer_def other_good)

lemmas demo_args_good = demo_ints_good demo_c_args_good demo_texts_good demo_cxx_args_good

lemma demo_lines_good:
  assumes "demo_image p demo_literals"
  shows "list_all (line_good p) (format_lines p)" and "list_all (line_good p) (cpp_format_lines p)"
    and "list_all (line_good p) (wrapper_lines p)"
proof -
  note good = demo_args_good demo_texts_good [OF assms] demo_formats_good [OF assms]
  show "list_all (line_good p) (format_lines p)"
    by (simp add: format_lines_def TAG_def good) (simp add: demo_literals_def good)
  show "list_all (line_good p) (cpp_format_lines p)"
    by (simp add: cpp_format_lines_def Let_def good) (simp add: demo_literals_def good)
  show "list_all (line_good p) (wrapper_lines p)"
    by (simp add: wrapper_lines_def Let_def TAG_def good) (simp add: demo_literals_def good)
qed

lemma slice_lines_good:
  assumes "demo_image p demo_literals" and "demo_texts p"
  shows "list_all (line_good p) (slice_lines p 6)"
proof -
  have owned: "length ''owned-string-demo'' = 17" by simp
  have "rd_bytes (dp_mem p) (dp_var p ''non_nul_text'' + 1) 4 = Some (take 4 (drop 1 (ascii ''slice!'')))"
    using assms(2) by (auto simp: demo_texts_def ascii_def split: Option.bind_splits)
  then have "cxx_good p (cxx_view (dp_var p ''non_nul_text'' + 1) 4)"
    unfolding cxx_view_def by (intro view_good) simp_all
  moreover have "cxx_good p (cxx_view (dp_var p ''non_nul_text'') 6)" "cxx_good p (cxx_view (dp_var p ''owned'') 17)"
    unfolding cxx_view_def using assms(2) by (auto simp: demo_texts_def simp del: rd_bytes_numeral intro: view_good)
  moreover have "c_good p (C_ConstCharArray, CxxAddr (dp_var p ''c_text''))"
    using assms(2) array_good [of "dp_var p ''c_text''" p "ascii ''slice!''"]
    by (simp add: demo_texts_def demo_c_args_good)
  ultimately show ?thesis
    using demo_formats_good [OF assms(1)] unfolding slice_lines_def Let_def owned
    by (simp add: TAG_def demo_args_good)
qed

text \<open>Each function returns, and the sink is told what its lines say, as far as the levels let them pass.\<close>

definition tells :: "demo_program \<Rightarrow> on9log_sink_entry \<Rightarrow> on9log_state \<Rightarrow> demo_step \<Rightarrow> demo_line list \<Rightarrow> bool" where
  "tells p s st c ls \<longleftrightarrow>
     (\<exists>st' xs. c st = Some st' \<and> quiet s st' \<and> same_levels st st' \<and> list_all2 (line_says p (demo_logger p)) ls xs \<and>
        messages_to s st' = messages_to s st @ map spoken (filter (passes (dp_env p) st) xs))"

lemma good_lines_tell:
  assumes "config_ok (dp_env p)" and "\<not> dp_hint p" and "quiet s st"
    and "demo_image p demo_literals" and "list_all (line_good p) ls"
  shows "tells p s st (run_lines p (demo_logger p) ls) ls"
proof -
  obtain xs where "list_all2 (line_says p (demo_logger p)) ls xs"
    using lines_good_say [OF assms(4) _ assms(5)] by (auto simp: demo_literals_def scripted_def)
  then show ?thesis using run_lines_tell [OF assms(1,2) _ assms(3)] by (fastforce simp: tells_def)
qed

text \<open>Also: The format, slice and C++ format functions of the program return, whatever the levels, and each sink is
  told exactly the lines whose level passes, each decoded to the tag, the format and the values of
  the call.\<close>

theorem demo_cases_tell_their_lines:
  assumes "config_ok (dp_env p)" and "\<not> dp_hint p" and "quiet s st" and "demo_image p demo_literals" and "demo_texts p"
  shows "tells p s st (log_format_cases p) (format_lines p) \<and> tells p s st (log_cpp_format_cases p) (cpp_format_lines p) \<and>
     tells p s st (log_string_slice_cases p) (slice_lines p 6)"
proof -
  note tell = good_lines_tell [OF assms(1-4)]
  have "c_strlen (dp_mem p) (dp_var p ''c_text'') = Some 6"
    using c_strlen_cstr [of "dp_mem p" "dp_var p ''c_text''" "ascii ''slice!''"] assms(5) by (simp add: demo_texts_def)
  then have "log_string_slice_cases p = run_lines p (demo_logger p) (slice_lines p 6)"
    by (intro ext) (simp add: log_string_slice_cases_def)
  then show ?thesis
    using tell demo_lines_good [OF assms(4)] slice_lines_good [OF assms(4,5)]
    by (simp add: log_format_cases_def [abs_def] log_cpp_format_cases_def [abs_def])
qed

section \<open>The measurement a host with a 64-bit \<open>long\<close> does not log\<close>

text \<open>
  On such a host (Linux on x86-64 and AArch64) \<open>uint64_t\<close> is \<open>unsigned long\<close>, which the macros announce as 32
  bits: the logger fetches the argument as a \<open>uint32_t\<close>, which C leaves undefined.
\<close>

lemma rss_line_is_undefined:
  assumes "config_ok (dp_env p)" and "dp_abi p = lp64" and "dp_uint64 p = C_Long False"
    and "demo_image p demo_literals" and "3 \<le> cfg_unit_level (dp_env p)"
    and "on9log_level_enabled (dp_env p) (dp_mem p) st 3 (TAG p) = Some True"
  shows "run_line p lg (LOGI (TAG p) f [(dp_uint64 p, CxxNumber i), c_unsigned j]) st = None"
proof -
  have "image_address p (TAG p)" "image_address p (dp_fmt p f)"
    using assms(4) by (auto simp: demo_image_def TAG_def)
  note refs = ref_denotes_facts(3) [OF image_reference [OF this(1)] assms(1), of "dp_mem p"]
    ref_denotes_facts(3) [OF image_reference [OF this(2)] assms(1), of "dp_mem p"]
  have loop: "macro_string_loop 255 [1, 1, 0] = Some False"
    using macro_string_loop_table [of "[1, 1]" 255] by simp
  have measure: "on9log_measure_payload env m (Some [1, 1, 0]) 0 (VA_u64 w # args) 2 n = None" for env m w args n
    by (simp add: on9log_measure_payload_def numeral_2_eq_2 measure_arg_def on9log_arg_type_at_def)
  have "ON9_LOG_ENABLED (dp_env p) 3" using assms(5) by (simp add: ON9_LOG_ENABLED_def)
  then show ?thesis
    by (simp add: assms(2,3) c_unsigned_def ON9_LOG_LEVEL_def ON9_LOG_ARGS_TYPE_def ON9_LOG_VA_NARG_def
        ON9_LOG_INIT_ARG_TYPE_def ON9_LOG_DETECT_TYPE_def ON9_LOG_ARGS_HAVE_STRING_def c_va_args_def lp64_def
        on9log_write_with_format_scan_metadata_def on9log_vwrite_def assms(6) precision_mask_def refs
        ON9_LOG_FORMAT_SCAN_HINT_def loop measure Let_def)
qed

text \<open>Also: Where \<open>long\<close> has 64 bits and \<open>uint64_t\<close> is \<open>unsigned long\<close>, the report on the host does not run to its end.\<close>

theorem host_info_is_undefined_on_lp64:
  assumes "config_ok (dp_env p)" and "\<not> dp_hint p" and "quiet s st" and "demo_image p demo_literals"
    and "dp_abi p = lp64" and "dp_uint64 p = C_Long False" and "3 \<le> cfg_unit_level (dp_env p)"
    and "3 \<le> cfg_local_level (dp_env p)" and "3 \<le> effective_level st (ascii ''demo'')"
    and "cxx_good p (CxxCharPtr, CxxAddr target)" and "cxx_good p (CxxCharPtr, CxxAddr machine)" and "cores < 4294967296"
  shows "log_host_info p False (Some (target, machine)) cores usage elapsed st = None"
proof -
  let ?l = "LOGI (TAG p) ''host=%s machine=%s cores=%u features pthread=1 stdio=1''
     [c_text target, c_text machine, c_unsigned (int cores)]"
  have demo: "''demo'' \<in> set demo_literals" by (simp add: demo_literals_def)
  have "line_good p ?l" using assms(10-12) by (simp add: TAG_def demo_args_good)
  from line_good_says [OF assms(4) demo this] obtain x where x: "scripted p [?l] [x]" ..
  then have says: "line_says p (demo_logger p) ?l x"
    unfolding scripted_def list_all2_Cons list_all2_Nil by blast
  obtain st1 where st1: "run_line p (demo_logger p) ?l st = Some st1" "quiet s st1" "same_levels st st1"
    using run_line_tells [OF assms(1-3) says] by blast
  have "dp_str p ''demo'' \<noteq> NULL" "cstr (dp_mem p) (dp_str p ''demo'') (ascii ''demo'')"
    using assms(4) by (auto simp: demo_image_def demo_literals_def)
  then have "on9log_level_enabled (dp_env p) (dp_mem p) st1 3 (TAG p) = Some True"
    using level_enabled_spec [of st1 "TAG p" "dp_mem p" "ascii ''demo''"] st1(2) assms(8,9)
    by (simp add: TAG_def quiet_def same_levels_effective [OF st1(3)])
  note undef = rss_line_is_undefined [OF assms(1,5,6,4,7) this]
  show ?thesis by (simp add: log_host_info_def run_lines_def st1(1) undef del: run_line.simps)
qed

section \<open>The counting sink\<close>

lemma demo_event_other:
  "e \<notin> set ts \<Longrightarrow> fold (demo_sink_event e) (map (\<lambda>t. StartCb t h) ts) x = x"
  "e \<notin> set ts \<Longrightarrow> fold (demo_sink_event e) (map (\<lambda>t. PayloadCb t q n i) ts) x = x"
  "e \<notin> set ts \<Longrightarrow> fold (demo_sink_event e) (map EndCb ts) x = x"
  by (induction ts arbitrary: x) auto

lemma demo_event_once:
  assumes "distinct ts" and "e \<in> set ts"
  shows "fold (demo_sink_event e) (map (\<lambda>t. StartCb t h) ts) x = demo_sink_start h x"
    and "fold (demo_sink_event e) (map (\<lambda>t. PayloadCb t q n i) ts) x = demo_sink_payload q n i x"
    and "fold (demo_sink_event e) (map EndCb ts) x = demo_sink_end x"
proof -
  obtain us vs where ts: "ts = us @ e # vs" using split_list [OF assms(2)] by blast
  then have "e \<notin> set us" "e \<notin> set vs" using assms(1) by auto
  with ts show "fold (demo_sink_event e) (map (\<lambda>t. StartCb t h) ts) x = demo_sink_start h x"
    and "fold (demo_sink_event e) (map (\<lambda>t. PayloadCb t q n i) ts) x = demo_sink_payload q n i x"
    and "fold (demo_sink_event e) (map EndCb ts) x = demo_sink_end x"
    by (simp_all add: demo_event_other)
qed

text \<open>The payload callbacks for the chunks of a packet: empty ones are not passed on.\<close>

definition full_chunks :: "chunk list \<Rightarrow> chunk list" where
  "full_chunks cs = filter (\<lambda>c. fst c \<noteq> []) cs"

lemma demo_event_chunks:
  assumes "distinct ts" and "e \<in> set ts"
  shows "fold (demo_sink_event e) (chunks_events ts cs) x =
     x\<lparr>payload_count := payload_count x + word_of_nat (length (full_chunks cs)),
       payload_bytes := payload_bytes x + word_of_nat (length (chunks_bytes cs))\<rparr>"
proof (induction cs arbitrary: x)
  case (Cons c cs)
  obtain q n i where c: "c = (q, n, i)" by (cases c)
  have "chunks_events ts (c # cs) = (if q = [] then [] else map (\<lambda>t. PayloadCb t q n i) ts) @ chunks_events ts cs"
    by (simp add: c chunks_events_def)
  then show ?case using Cons demo_event_once(2) [OF assms, of q n i]
    by (simp add: c full_chunks_def demo_sink_payload_def algebra_simps)
qed (simp add: full_chunks_def)

lemma demo_event_session:
  assumes "distinct ts"
  shows "fold (demo_sink_event e) (session ts h cs) x =
     (if e \<in> set ts
      then x\<lparr>start_count := start_count x + 1, end_count := end_count x + 1,
             payload_count := payload_count x + word_of_nat (length (full_chunks cs)),
             payload_bytes := payload_bytes x + word_of_nat (length (chunks_bytes cs))\<rparr>
      else x)"
proof (cases "e \<in> set ts")
  case True
  then show ?thesis using demo_event_once [OF assms True] demo_event_chunks [OF assms True]
    by (simp add: session_def demo_sink_start_def demo_sink_end_def)
next
  case False
  have "fold (demo_sink_event e) (chunks_events ts cs) x = x" for x
    using demo_event_other(2) [OF False] by (induction cs arbitrary: x) (auto simp: chunks_events_def)
  then show ?thesis using False demo_event_other [OF False] by (simp add: session_def)
qed

lemma demo_sink_counts:
  "list_all (\<lambda>(ts, h, cs). distinct ts) ps \<Longrightarrow>
     sink_idle e (events_of ps) \<and>
     start_count (demo_sink_stats e (events_of ps)) = word_of_nat (length (sink_packets e (events_of ps))) \<and>
     end_count (demo_sink_stats e (events_of ps)) = word_of_nat (length (sink_packets e (events_of ps))) \<and>
     payload_bytes (demo_sink_stats e (events_of ps)) =
       word_of_nat (sum_list (map (length \<circ> snd) (sink_packets e (events_of ps))))"
proof (induction ps rule: rev_induct)
  case Nil
  then show ?case by (simp add: demo_sink_stats_def demo_stats_zero_def sink_packets_def events_of_def)
next
  case (snoc q ps)
  obtain ts h cs where q: "q = (ts, h, cs)" by (cases q)
  have d: "distinct ts" and IH: "sink_idle e (events_of ps)" using snoc by (simp_all add: q)
  have ev: "events_of (ps @ [q]) = events_of ps @ session ts h cs" by (simp add: events_of_def q)
  have "demo_sink_stats e (events_of (ps @ [q])) = fold (demo_sink_event e) (session ts h cs) (demo_sink_stats e (events_of ps))"
    by (simp add: demo_sink_stats_def ev)
  then show ?case
    using snoc sink_packets_session [OF d IH, of h cs] demo_event_session [OF d, of e h cs] by (simp add: ev algebra_simps)
qed

text \<open>Also: The counters of the second sink: as many starts as ends, one of each for every packet it was
  given, and the bytes of their payloads, modulo 2 to the 32.\<close>

theorem demo_sink_counts_packets:
  assumes "list_all (\<lambda>(ts, h, cs). distinct ts) ps"
  shows "(let stats = demo_sink_stats e (events_of ps); packets = sink_packets e (events_of ps)
     in start_count stats = word_of_nat (length packets) \<and> end_count stats = start_count stats \<and>
        payload_bytes stats = word_of_nat (sum_list (map (length \<circ> snd) packets)))"
  using demo_sink_counts [OF assms, of e] by (simp add: Let_def)

section \<open>The pattern\<close>

lemma fill_pattern_from_nth:
  "length (fill_pattern_from i n) = n \<and> (\<forall>k < n. fill_pattern_from i n ! k = word_of_nat ((i + k) * 37 + 11))"
  by (induction n arbitrary: i) (auto simp: nth_Cons split: nat.split)

lemma buffer_macro_sends:
  assumes "config_ok (dp_env p)" and "quiet s st" and "demo_image p demo_literals"
    and "3 \<le> cfg_unit_level (dp_env p)" and "3 \<le> cfg_local_level (dp_env p)" and "3 \<le> effective_level st (ascii ''demo'')"
    and "rd_bytes (dp_mem p) data n = Some bs" and "data \<noteq> NULL" and "n < 4294967296"
  shows "\<exists>st'. ON9_LOG_BUFI (dp_env p) (dp_mem p) (TAG p) data n st = Some st' \<and>
     sink_packets s (st_events st') = sink_packets s (st_events st) @
       fragment_packets (dp_env p) 3 (ByAddress (word_of_nat (TAG p))) n (s_seq st) (st_clock st) 0
         (buffer_pieces (dp_env p) (ByAddress (word_of_nat (TAG p))) bs)"
proof -
  have tag: "TAG p \<noteq> NULL" "cstr (dp_mem p) (TAG p) (ascii ''demo'')" "image_address p (TAG p)"
    using assms(3) by (auto simp: demo_image_def TAG_def demo_literals_def)
  have q: "sinks_ok st" "sink_idle s (st_events st)" "s \<in> set (registered st)" "filters_ok st" "s_dropped_count st = 0"
    using assms(2) by (simp_all add: quiet_def)
  have on: "on9log_level_enabled (dp_env p) (dp_mem p) st 3 (TAG p) = Some True"
    using level_enabled_spec [OF q(4) tag(1,2)] assms(5,6) by simp
  have "ON9_LOG_BUFI (dp_env p) (dp_mem p) (TAG p) data n st =
      on9log_write_buffer_with_text_flags (dp_env p) (dp_mem p) 3 (TAG p) 57 data n st"
    using assms(4) by (simp add: ON9_LOG_BUFI_def ON9_LOG_BUF_LEVEL_def ON9_LOG_ENABLED_def on9log_write_buffer_def)
  then show ?thesis
    using write_buffer_delivers [OF assms(1) q(1-3) on image_reference [OF tag(3)] assms(7,9), of 57] assms(8)
    by (simp add: ref_bytes_def no_report [OF q(5)] dropped_packets_def q(5))
qed

lemma two_pieces:
  assumes "cfg_buffer_chunk_size env = 3042" and "3042 < length bs" and "length bs \<le> 6084"
  shows "length (buffer_pieces env (ByAddress a) bs) = 2"
proof -
  have room: "chunk_room env (ByAddress a) = 3042" using assms(1) by (simp add: chunk_room_def ref_bytes_def)
  have ne: "bs \<noteq> []" "drop 3042 bs \<noteq> []" and last: "drop 3042 (drop 3042 bs) = []" using assms(2,3) by auto
  have "fragments 3042 (drop 3042 bs) = [take 3042 (drop 3042 bs)]"
    using fragments_step [OF ne(2), of 3042] last by simp
  then show ?thesis using fragments_step [OF ne(1), of 3042] ne(1) by (simp add: buffer_pieces_def room)
qed

text \<open>Also: The large buffer reaches each sink in pieces that put together are the pattern: byte \<open>k\<close> is
  \<open>37 k + 11\<close> modulo 256. With the default chunk size these are two packets.\<close>

theorem demo_pattern_is_sent:
  assumes "config_ok (dp_env p)" and "quiet s st" and "demo_image p demo_literals" and "demo_arrays p"
    and "3 \<le> cfg_unit_level (dp_env p)" and "3 \<le> cfg_local_level (dp_env p)" and "3 \<le> effective_level st (ascii ''demo'')"
  shows "\<exists>st' pieces. ON9_LOG_BUFI (dp_env p) (dp_mem p) (TAG p) (dp_var p ''large'') 3200 st = Some st' \<and>
     sink_packets s (st_events st') = sink_packets s (st_events st) @
       fragment_packets (dp_env p) 3 (ByAddress (word_of_nat (TAG p))) 3200 (s_seq st) (st_clock st) 0 pieces \<and>
     length (concat pieces) = 3200 \<and> (\<forall>k < 3200. concat pieces ! k = word_of_nat (k * 37 + 11)) \<and>
     (cfg_buffer_chunk_size (dp_env p) = 3042 \<longrightarrow> length pieces = 2)"
proof -
  let ?pieces = "buffer_pieces (dp_env p) (ByAddress (word_of_nat (TAG p))) (fill_pattern 3200)"
  have large: "rd_bytes (dp_mem p) (dp_var p ''large'') 3200 = Some (fill_pattern 3200)" "dp_var p ''large'' \<noteq> NULL"
    using assms(4) unfolding demo_arrays_def by blast+
  have pat: "length (fill_pattern 3200) = 3200" "\<forall>k < 3200. fill_pattern 3200 ! k = word_of_nat (k * 37 + 11)"
    using fill_pattern_from_nth [of 0 3200] unfolding fill_pattern_def by auto
  have "concat ?pieces = fill_pattern 3200" by (rule buffer_pieces_facts(1))
  moreover have "cfg_buffer_chunk_size (dp_env p) = 3042 \<longrightarrow> length ?pieces = 2"
    using two_pieces pat(1) by simp
  moreover have "(3200 :: nat) < 4294967296" by simp
  from buffer_macro_sends [OF assms(1-3,5-7) large this]
  obtain st' where "ON9_LOG_BUFI (dp_env p) (dp_mem p) (TAG p) (dp_var p ''large'') 3200 st = Some st'"
    "sink_packets s (st_events st') = sink_packets s (st_events st) @
       fragment_packets (dp_env p) 3 (ByAddress (word_of_nat (TAG p))) 3200 (s_seq st) (st_clock st) 0 ?pieces"
    by blast
  ultimately show ?thesis using pat by (intro exI [of _ st'] exI [of _ ?pieces]) (simp only: simp_thms)
qed

section \<open>The start of the program\<close>

text \<open>Also: After the initialisation in \<open>main\<close>, from the static initialisers, the standard output sink is
  registered and idle, every level is in force and no tag has one of its own: the state the other
  theorems start from.\<close>

theorem demo_starts_quiet:
  assumes "sink_valid desc \<lparr>se_sink = sink, se_ctx = ctx\<rparr>" and "stdout \<noteq> NULL" and "0 < cfg_max_sinks env"
  shows "\<exists>us st. on9log_unix_stdio_init desc sink ctx stdout (s_stdio_initial, on9log_initial_state env) = (ON9LOG_OK, us, st) \<and>
     us_stream us = stdout \<and> quiet \<lparr>se_sink = sink, se_ctx = ctx\<rparr> st \<and> s_default_level st = 5 \<and>
     filter_map (s_tag_filters st) = Map.empty"
proof -
  obtain n where n: "cfg_max_sinks env = Suc n" using assms(3) by (cases "cfg_max_sinks env") auto
  have v: "sink \<noteq> NULL" "start_cb (desc sink) \<noteq> NULL" "payload_cb (desc sink) \<noteq> NULL" "end_cb (desc sink) \<noteq> NULL"
    using assms(1) by (simp_all add: sink_valid_def)
  have "find_sink_from i (replicate k \<lparr>se_sink = NULL, se_ctx = NULL\<rparr>) sink ctx = None" for i k
    using v(1) by (induction k arbitrary: i) auto
  then have "on9log_find_sink (s_sinks (on9log_initial_state env)) sink ctx = None"
    by (simp add: on9log_find_sink_def on9log_initial_state_def)
  moreover have "on9log_find_sink (s_sinks (on9log_initial_state env)) NULL NULL = Some 0"
    by (simp add: on9log_find_sink_def on9log_initial_state_def n)
  ultimately show ?thesis using v assms(2)
    by (simp add: on9log_unix_stdio_init_def on9log_unix_stdio_init_file_def s_stdio_initial_def on9log_init_binary_def
        on9log_add_sink_def on9log_port_emit_lock_def on9log_port_emit_unlock_def)
      (simp add: quiet_def on9log_initial_state_def n sinks_ok_def registered_def slot_ok_def sink_idle_def
        sink_run_def filters_ok_def filter_map_def on9log_valid_level_def observe_def capture_sinks_filter list_all_iff)
qed

end
