(* ===== verification/FilterSpec.thy ===== *)
theory FilterSpec
  imports TagFilter
begin

text \<open>
  The tag filters as an abstract data type, and the protocol between lookups and writers.

  \<^item> Abstractly the filters are a map from tags to levels with a default. Every operation of the
    code on its list of nodes is the corresponding operation on the map, and the check in front of
    a log call is the lookup in it.
  \<^item> Concretely lookups walk the list without a lock while a writer may give a cleared node to a
    new tag and free the old one. The interleavings of the atomic accesses to one node are a step
    relation; what its invariant excludes is a lookup reading a tag that has been freed.
\<close>

section \<open>The abstract data type\<close>

record level_spec =
  ls_overrides :: "bytes \<Rightarrow> on9log_level_t option"
  ls_default :: on9log_level_t

definition filter_spec :: "on9log_state \<Rightarrow> level_spec" where
  "filter_spec st = \<lparr>ls_overrides = filter_map (s_tag_filters st), ls_default = s_default_level st\<rparr>"

primrec spec_op :: "bytes level_op \<Rightarrow> level_spec \<Rightarrow> level_spec" where
  "spec_op (Set_Tag t l) sp = sp\<lparr>ls_overrides := (ls_overrides sp)(t \<mapsto> l)\<rparr>"
| "spec_op (Clear_Tag t) sp = sp\<lparr>ls_overrides := (ls_overrides sp)(t := None)\<rparr>"
| "spec_op (Set_Default l) sp = sp\<lparr>ls_default := l\<rparr>"

definition spec_enabled :: "on9log_env \<Rightarrow> level_spec \<Rightarrow> on9log_level_t \<Rightarrow> bytes \<Rightarrow> bool" where
  "spec_enabled env sp level t \<longleftrightarrow> level \<noteq> 0 \<and> level \<le> cfg_local_level env \<and>
     level \<le> (case ls_overrides sp t of None \<Rightarrow> ls_default sp | Some l \<Rightarrow> l)"

text \<open>The calls that did not run out of memory.\<close>

primrec op_accepted :: "bytes level_op \<Rightarrow> on9log_state \<Rightarrow> bool" where
  "op_accepted (Set_Tag t l) st \<longleftrightarrow> fst (set_tag_by_contents t l st) = ON9LOG_OK"
| "op_accepted (Clear_Tag t) st \<longleftrightarrow> True"
| "op_accepted (Set_Default l) st \<longleftrightarrow> True"

primrec ops_accepted :: "bytes level_op list \<Rightarrow> on9log_state \<Rightarrow> bool" where
  "ops_accepted [] st \<longleftrightarrow> True"
| "ops_accepted (op # ops) st \<longleftrightarrow> op_accepted op st \<and> ops_accepted ops (filter_op op st)"

lemma filter_op_refines:
  assumes "filters_ok st" and "filter_op_ok op" and "op_accepted op st"
  shows "filters_ok (filter_op op st) \<and> filter_spec (filter_op op st) = spec_op op (filter_spec st)"
proof (cases op)
  case (Set_Tag t l)
  then show ?thesis using tag_filters.set_tag_law [of st t l] assms
    by (auto simp: filter_spec_def on9log_get_level_def)
next
  case (Clear_Tag t)
  then show ?thesis using tag_filters.clear_tag_law [of st t] assms
    by (simp add: filter_spec_def on9log_get_level_def)
next
  case (Set_Default l)
  then show ?thesis using tag_filters.set_default_law [of st l] assms
    by (simp add: filter_spec_def on9log_get_level_def)
qed

lemma filter_ops_refine:
  "filters_ok st \<Longrightarrow> list_all filter_op_ok ops \<Longrightarrow> ops_accepted ops st \<Longrightarrow>
     filters_ok (fold filter_op ops st) \<and> filter_spec (fold filter_op ops st) = fold spec_op ops (filter_spec st)"
proof (induction ops arbitrary: st)
  case (Cons op ops)
  then show ?case using filter_op_refines [of st op] by simp
qed simp

text \<open>C7: The filter list refines a map: after any sequence of accepted operations (levels set and
  cleared, nodes updated, reused or inserted, the default changed) whether a log call is enabled is
  what the abstract map, updated by the same sequence, says for the contents of the call's tag.\<close>

theorem filter_list_refines_map:
  assumes "filters_ok st" and "list_all filter_op_ok ops" and "ops_accepted ops st"
    and "tag \<noteq> NULL" and "cstr m tag t"
  shows "on9log_level_enabled env m (fold filter_op ops st) level tag =
    Some (spec_enabled env (fold spec_op ops (filter_spec st)) level t)"
proof -
  have ok: "filters_ok (fold filter_op ops st)"
    and eq: "filter_spec (fold filter_op ops st) = fold spec_op ops (filter_spec st)"
    using filter_ops_refine [OF assms(1-3)] by simp_all
  show ?thesis unfolding eq [symmetric]
    by (simp add: level_enabled_spec [OF ok assms(4,5)] spec_enabled_def filter_spec_def effective_level_def
      split: option.split)
qed

text \<open>Set a level, clear it, and set one for another tag, which reuses the node.\<close>

theorem filter_list_refines_map_witness:
  "on9log_level_enabled on9log_default_env (tag_mem [66])
      (fold filter_op [Set_Default 1, Clear_Tag [65], Set_Tag [66] 2] (on9log_initial_state on9log_default_env)) 2 64 =
    Some (spec_enabled on9log_default_env
      (fold spec_op [Set_Default 1, Clear_Tag [65], Set_Tag [66] 2] (filter_spec (on9log_initial_state on9log_default_env)))
      2 [66])"
proof (rule filter_list_refines_map [OF filters_ok_initial _ _ _ cstr_tag_mem])
  let ?st = "on9log_set_level 1 (on9log_initial_state on9log_default_env)"
  have len: "c_strlen (tag_mem [66]) 64 = Some (Suc 0)"
    using c_strlen_cstr [OF cstr_tag_mem [of "[66]"]] by simp
  have mem: "tag_mem [66] 64 = Some 66" by (simp add: tag_mem_def mem_object_def)
  have st: "s_tag_filters ?st = []" by (simp add: on9log_set_level_def on9log_initial_state_def)
  have "clear_tag_by_contents [65] ?st = (ON9LOG_ERR_NOT_FOUND, ?st)"
    by (simp add: clear_tag_by_contents_def on9log_clear_tag_level_def st)
  moreover have "fst (set_tag_by_contents [66] 2 ?st) = ON9LOG_OK"
    using len mem by (simp add: set_tag_by_contents_def on9log_set_tag_level_def on9log_valid_level_def st)
  ultimately show "ops_accepted [Set_Default 1, Clear_Tag [65], Set_Tag [66] 2] (on9log_initial_state on9log_default_env)"
    by simp
qed (simp_all add: on9log_valid_level_def)

section \<open>One node, its readers and a writer\<close>

text \<open>
  A reader is one lookup's visit of the node in \<open>on9log_filter_level_for_tag\<close>; each of its atomic
  accesses, and the comparison of the tag, is a step. \<open>R_Done\<close> carries the level found.
\<close>

datatype reader_pc =
    R_Load
  | R_Increment
  | R_Recheck
  | R_Compare
  | R_Level bool
  | R_Decrement "on9log_level_t option"
  | R_Done "on9log_level_t option"

text \<open>
  The writers hold the port's lock, so there is one at a time: \<open>W_Activate\<close> ends both the update
  of a matching inactive node and its reuse, \<open>W_Wait\<close> is the loop that waits for the readers.
\<close>

datatype writer_pc =
    W_Idle
  | W_Wait bytes on9log_level_t
  | W_Free bytes on9log_level_t
  | W_Store bytes on9log_level_t
  | W_Level on9log_level_t
  | W_Activate

text \<open>\<open>n_tag\<close> is \<open>None\<close> while the node's pointer dangles.\<close>

record node_state =
  n_tag :: "bytes option"
  n_level :: on9log_level_t
  n_active :: bool
  n_readers :: nat
  n_pcs :: "reader_pc list"
  n_writer :: writer_pc

text \<open>The tag reader \<open>i\<close> looks for; the lookup reads it from the caller, it does not change.\<close>

type_synonym wanted = "nat \<Rightarrow> bytes"

definition to_pc :: "nat \<Rightarrow> reader_pc \<Rightarrow> node_state \<Rightarrow> node_state" where
  "to_pc i pc s = s\<lparr>n_pcs := (n_pcs s)[i := pc]\<rparr>"

definition at_pc :: "node_state \<Rightarrow> nat \<Rightarrow> reader_pc \<Rightarrow> bool" where
  "at_pc s i pc \<longleftrightarrow> i < length (n_pcs s) \<and> n_pcs s ! i = pc"

inductive reader_step :: "wanted \<Rightarrow> node_state \<Rightarrow> node_state \<Rightarrow> bool" for w where
  load: "at_pc s i R_Load \<Longrightarrow>
    reader_step w s (to_pc i (if n_active s then R_Increment else R_Done None) s)"
| increment: "at_pc s i R_Increment \<Longrightarrow>
    reader_step w s (to_pc i R_Recheck (s\<lparr>n_readers := n_readers s + 1\<rparr>))"
| recheck: "at_pc s i R_Recheck \<Longrightarrow>
    reader_step w s (to_pc i (if n_active s then R_Compare else R_Decrement None) s)"
| compare: "at_pc s i R_Compare \<Longrightarrow> n_tag s = Some t \<Longrightarrow>
    reader_step w s (to_pc i (R_Level (t = w i)) s)"
| level: "at_pc s i (R_Level matches) \<Longrightarrow>
    reader_step w s (to_pc i (R_Decrement (if matches then Some (n_level s) else None)) s)"
| decrement: "at_pc s i (R_Decrement r) \<Longrightarrow>
    reader_step w s (to_pc i (R_Done r) (s\<lparr>n_readers := n_readers s - 1\<rparr>))"

inductive writer_step :: "node_state \<Rightarrow> node_state \<Rightarrow> bool" where
  clear: "n_writer s = W_Idle \<Longrightarrow> writer_step s (s\<lparr>n_active := False\<rparr>)"
| update: "n_writer s = W_Idle \<Longrightarrow>
    writer_step s (s\<lparr>n_level := l, n_writer := (if n_active s then W_Idle else W_Activate)\<rparr>)"
| reuse: "n_writer s = W_Idle \<Longrightarrow> \<not> n_active s \<Longrightarrow> writer_step s (s\<lparr>n_writer := W_Wait t l\<rparr>)"
| no_readers: "n_writer s = W_Wait t l \<Longrightarrow> n_readers s = 0 \<Longrightarrow> writer_step s (s\<lparr>n_writer := W_Free t l\<rparr>)"
| free: "n_writer s = W_Free t l \<Longrightarrow> writer_step s (s\<lparr>n_tag := None, n_writer := W_Store t l\<rparr>)"
| store: "n_writer s = W_Store t l \<Longrightarrow> writer_step s (s\<lparr>n_tag := Some t, n_writer := W_Level l\<rparr>)"
| set_level: "n_writer s = W_Level l \<Longrightarrow> writer_step s (s\<lparr>n_level := l, n_writer := W_Activate\<rparr>)"
| activate: "n_writer s = W_Activate \<Longrightarrow> writer_step s (s\<lparr>n_active := True, n_writer := W_Idle\<rparr>)"

text \<open>A thread that has finished its visit may start another lookup.\<close>

inductive node_step :: "wanted \<Rightarrow> node_state \<Rightarrow> node_state \<Rightarrow> bool" for w where
  reads: "reader_step w s s' \<Longrightarrow> node_step w s s'"
| writes: "writer_step s s' \<Longrightarrow> node_step w s s'"
| again: "at_pc s i (R_Done r) \<Longrightarrow> node_step w s (to_pc i R_Load s)"

text \<open>A node as it is inserted, with any number of threads about to look at it.\<close>

definition node_initial :: "bytes \<Rightarrow> on9log_level_t \<Rightarrow> nat \<Rightarrow> node_state" where
  "node_initial t l n =
     \<lparr>n_tag = Some t, n_level = l, n_active = True, n_readers = 0, n_pcs = replicate n R_Load, n_writer = W_Idle\<rparr>"

inductive node_reachable :: "wanted \<Rightarrow> node_state \<Rightarrow> bool" for w where
  initial: "node_reachable w (node_initial t l n)"
| step: "node_reachable w s \<Longrightarrow> node_step w s s' \<Longrightarrow> node_reachable w s'"

inductive_cases reader_stepE: "reader_step w s s'"
inductive_cases writer_stepE: "writer_step s s'"
inductive_cases node_stepE: "node_step w s s'"

section \<open>The invariant\<close>

fun counted :: "reader_pc \<Rightarrow> bool" where
  "counted R_Recheck = True"
| "counted R_Compare = True"
| "counted (R_Level _) = True"
| "counted (R_Decrement _) = True"
| "counted _ = False"

fun reading :: "reader_pc \<Rightarrow> bool" where
  "reading R_Compare = True"
| "reading (R_Level _) = True"
| "reading _ = False"

fun changing :: "writer_pc \<Rightarrow> bool" where
  "changing (W_Free _ _) = True"
| "changing (W_Store _ _) = True"
| "changing (W_Level _) = True"
| "changing _ = False"

fun storing :: "writer_pc \<Rightarrow> bool" where
  "storing (W_Store _ _) = True"
| "storing _ = False"

definition node_inv :: "node_state \<Rightarrow> bool" where
  "node_inv s \<longleftrightarrow>
     n_readers s = length (filter counted (n_pcs s)) \<and>
     (n_writer s \<noteq> W_Idle \<longrightarrow> \<not> n_active s) \<and>
     (changing (n_writer s) \<longrightarrow> list_all (\<lambda>pc. \<not> reading pc) (n_pcs s)) \<and>
     (n_tag s = None \<longleftrightarrow> storing (n_writer s))"

lemma counted_update:
  "i < length pcs \<Longrightarrow> length (filter counted (pcs[i := pc])) + (if counted (pcs ! i) then 1 else 0) =
     length (filter counted pcs) + (if counted pc then 1 else 0)"
proof (induction pcs arbitrary: i)
  case (Cons p pcs)
  then show ?case by (cases i) auto
qed simp

lemma reading_counted: "reading pc \<Longrightarrow> counted pc"
  by (cases pc) auto

lemma no_readers_no_reading: "length (filter counted pcs) = 0 \<Longrightarrow> list_all (\<lambda>pc. \<not> reading pc) pcs"
  by (induction pcs) (auto dest: reading_counted split: if_splits)

lemma to_pc_inv:
  assumes "node_inv s" and "at_pc s i old" and "counted pc = counted old"
    and "reading pc \<Longrightarrow> reading old \<or> n_active s"
  shows "node_inv (to_pc i pc s)"
proof -
  have i: "i < length (n_pcs s)" "n_pcs s ! i = old" using assms(2) by (simp_all add: at_pc_def)
  have "changing (n_writer s) \<Longrightarrow> list_all (\<lambda>pc. \<not> reading pc) ((n_pcs s)[i := pc])"
  proof -
    assume c: "changing (n_writer s)"
    then have all: "list_all (\<lambda>pc. \<not> reading pc) (n_pcs s)" using assms(1) by (simp add: node_inv_def)
    moreover have "\<not> n_active s" using assms(1) c by (cases "n_writer s") (auto simp: node_inv_def)
    moreover have "\<not> reading old" using all i by (auto simp: list_all_length)
    ultimately show ?thesis using assms(4) by (auto intro: list_all_update)
  qed
  then show ?thesis using assms(1,3) counted_update [OF i(1), of pc] i(2)
    by (simp add: node_inv_def to_pc_def split: if_splits)
qed

lemma node_inv_step: "node_inv s \<Longrightarrow> node_step w s s' \<Longrightarrow> node_inv s'"
proof (erule node_stepE)
  assume inv: "node_inv s"
  show "reader_step w s s' \<Longrightarrow> node_inv s'"
  proof (erule reader_stepE, goal_cases)
    case (2 i)
    have i: "i < length (n_pcs s)" "n_pcs s ! i = R_Increment" using 2 by (simp_all add: at_pc_def)
    show ?case using inv 2 counted_update [OF i(1), of R_Recheck] i(2)
      by (auto simp: node_inv_def to_pc_def intro: list_all_update)
  next
    case (6 i r)
    have i: "i < length (n_pcs s)" "n_pcs s ! i = R_Decrement r" using 6 by (simp_all add: at_pc_def)
    show ?case using inv 6 counted_update [OF i(1), of "R_Done r"] i(2)
      by (auto simp: node_inv_def to_pc_def intro: list_all_update)
  qed (auto intro!: to_pc_inv [OF inv] split: if_splits)
  show "writer_step s s' \<Longrightarrow> node_inv s'"
    using inv no_readers_no_reading
    by (erule_tac writer_stepE) (auto simp: node_inv_def split: if_splits)
  show "at_pc s i (R_Done r) \<Longrightarrow> s' = to_pc i R_Load s \<Longrightarrow> node_inv s'" for i r
    using to_pc_inv [OF inv, of i "R_Done r" R_Load] by simp
qed

lemma node_reachable_inv: "node_reachable w s \<Longrightarrow> node_inv s"
proof (induction rule: node_reachable.induct)
  case (initial t l n)
  have "filter counted (replicate n R_Load) = []" by (induction n) simp_all
  then show ?case by (simp add: node_initial_def node_inv_def)
qed (rule node_inv_step)

text \<open>What a reader has compared is still the node's tag when it reads the level.\<close>

definition compared :: "wanted \<Rightarrow> node_state \<Rightarrow> bool" where
  "compared w s \<longleftrightarrow> (\<forall>i matches. at_pc s i (R_Level matches) \<longrightarrow> (\<exists>t. n_tag s = Some t \<and> matches = (t = w i)))"

lemma reading_blocks_writer: "node_inv s \<Longrightarrow> at_pc s i pc \<Longrightarrow> reading pc \<Longrightarrow> \<not> changing (n_writer s)"
  by (auto simp: node_inv_def at_pc_def list_all_length)

lemma reading_keeps_tag:
  "node_inv s \<Longrightarrow> at_pc s i pc \<Longrightarrow> reading pc \<Longrightarrow> node_step w s s' \<Longrightarrow> n_tag s' = n_tag s"
  using reading_blocks_writer [of s i pc]
  by (auto elim!: node_stepE reader_stepE writer_stepE simp: to_pc_def)

lemma at_pc_to_pc: "at_pc (to_pc i pc s) j p \<longleftrightarrow> j < length (n_pcs s) \<and> (if j = i then p = pc else at_pc s j p)"
  by (auto simp: at_pc_def to_pc_def nth_list_update)

lemma compared_step:
  assumes "node_inv s" and "compared w s" and "node_step w s s'"
  shows "compared w s'"
  unfolding compared_def
proof (intro allI impI)
  fix i matches
  assume at: "at_pc s' i (R_Level matches)"
  show "\<exists>t. n_tag s' = Some t \<and> matches = (t = w i)"
  proof (cases "at_pc s i (R_Level matches)")
    case True
    then show ?thesis using assms reading_keeps_tag [OF assms(1) True] by (simp add: compared_def)
  next
    case False
    then show ?thesis using assms(3) at
      by (auto elim!: node_stepE reader_stepE writer_stepE simp: at_pc_to_pc split: if_splits)
        (auto simp: at_pc_def to_pc_def)
  qed
qed

lemma node_reachable_compared: "node_reachable w s \<Longrightarrow> compared w s"
proof (induction rule: node_reachable.induct)
  case (initial t l n)
  then show ?case by (auto simp: compared_def at_pc_def node_initial_def)
next
  case (step s s')
  then show ?case using compared_step node_reachable_inv by blast
qed

text \<open>Also: Lookups and the writer of a filter node, interleaved in any order: a lookup that is about to
  compare the node's tag, or has compared it and is about to read the level, never has the tag freed
  or replaced under it, whatever thread takes the next step; and the level it reads as that of a
  matching tag is that of the tag it looks for.\<close>

theorem filter_lookup_never_reads_freed_tag:
  assumes "node_reachable w s" and "at_pc s i pc" and "pc = R_Compare \<or> pc = R_Level matches"
  shows "\<exists>t. n_tag s = Some t \<and> (pc = R_Level matches \<longrightarrow> (matches \<longleftrightarrow> t = w i)) \<and>
    (\<forall>s'. node_step w s s' \<longrightarrow> n_tag s' = Some t)"
proof -
  have inv: "node_inv s" and cmp: "compared w s"
    using assms(1) by (rule node_reachable_inv, rule node_reachable_compared)
  have reading: "reading pc" using assms(3) by auto
  have "n_tag s \<noteq> None"
    using reading_blocks_writer [OF inv assms(2) reading] inv by (cases "n_writer s") (auto simp: node_inv_def)
  then obtain t where t: "n_tag s = Some t" by auto
  show ?thesis using t cmp assms(2) reading_keeps_tag [OF inv assms(2) reading]
    by (auto simp: compared_def)
qed

text \<open>Two lookups of an active node, one of which has counted itself and rechecked.\<close>

definition demo_visit :: node_state where
  "demo_visit = \<lparr>n_tag = Some [65], n_level = 3, n_active = True, n_readers = 1,
     n_pcs = [R_Compare, R_Load], n_writer = W_Idle\<rparr>"

lemma demo_visit_reachable: "node_reachable w demo_visit"
proof -
  have two: "replicate 2 R_Load = [R_Load, R_Load]" by (simp add: numeral_2_eq_2)
  have 0: "node_reachable w (node_initial [65] 3 2)" by (rule node_reachable.initial)
  have "node_step w (node_initial [65] 3 2) (to_pc 0 R_Increment (node_initial [65] 3 2))" (is "node_step w _ ?a")
    using reader_step.load [of "node_initial [65] 3 2" 0 w]
    by (auto intro: node_step.reads simp: at_pc_def node_initial_def two)
  then have 1: "node_reachable w ?a" by (rule node_reachable.step [OF 0])
  have "node_step w ?a (to_pc 0 R_Recheck (?a\<lparr>n_readers := 1\<rparr>))" (is "node_step w _ ?b")
    using reader_step.increment [of ?a 0 w]
    by (auto intro: node_step.reads simp: at_pc_def node_initial_def to_pc_def two)
  then have 2: "node_reachable w ?b" by (rule node_reachable.step [OF 1])
  have "node_step w ?b demo_visit"
    using reader_step.recheck [of ?b 0 w]
    by (auto intro: node_step.reads simp: at_pc_def node_initial_def to_pc_def two demo_visit_def)
  then show ?thesis by (rule node_reachable.step [OF 2])
qed

theorem filter_lookup_never_reads_freed_tag_witness:
  "\<exists>t. n_tag demo_visit = Some t \<and> (R_Compare = R_Level True \<longrightarrow> (True \<longleftrightarrow> t = [66 :: u8])) \<and>
    (\<forall>s'. node_step (\<lambda>_. [66]) demo_visit s' \<longrightarrow> n_tag s' = Some t)"
  by (rule filter_lookup_never_reads_freed_tag [of "\<lambda>_. [66]" demo_visit 0 R_Compare True,
      OF demo_visit_reachable]) (simp_all add: at_pc_def demo_visit_def)

section \<open>Readers leave\<close>

text \<open>What is left of a visit.\<close>

fun visit_rank :: "reader_pc \<Rightarrow> nat" where
  "visit_rank R_Load = 6"
| "visit_rank R_Increment = 5"
| "visit_rank R_Recheck = 4"
| "visit_rank R_Compare = 3"
| "visit_rank (R_Level _) = 2"
| "visit_rank (R_Decrement _) = 1"
| "visit_rank (R_Done _) = 0"

definition visits_left :: "node_state \<Rightarrow> nat" where
  "visits_left s = sum_list (map visit_rank (n_pcs s))"

lemma reader_step_decreases: "reader_step w s s' \<Longrightarrow> visits_left s' < visits_left s"
  by (erule reader_stepE) (auto simp: visits_left_def to_pc_def at_pc_def intro!: sum_list_update_less)

lemma reader_step_frame: "reader_step w s s' \<Longrightarrow> n_writer s' = n_writer s \<and> n_active s' = n_active s \<and> n_tag s' = n_tag s"
  by (erule reader_stepE) (auto simp: to_pc_def)

lemma reader_can_step:
  assumes "node_inv s" and "n_readers s \<noteq> 0"
  shows "\<exists>s'. reader_step w s s'"
proof -
  obtain pc where "pc \<in> set (n_pcs s)" and c: "counted pc"
    using assms by (auto simp: node_inv_def filter_empty_conv)
  then obtain i where i: "at_pc s i pc" by (auto simp: at_pc_def in_set_conv_nth)
  have "pc = R_Compare \<Longrightarrow> \<exists>t. n_tag s = Some t"
    using reading_blocks_writer [OF assms(1) i] assms(1) by (cases "n_writer s") (auto simp: node_inv_def)
  then show ?thesis using i c
    by (cases pc) (auto intro: reader_step.intros)
qed

text \<open>Also: A writer that waits for a node's readers can always be let through: if only lookups are run, those
  that have counted themselves in finish their visits after finitely many steps of their own, each of
  which brings the end nearer, and the node, unchanged, has no reader left; the loop that reuses the node
  then ends. (That it does end under every fair schedule is shown in \<^theory_text>\<open>FilterTasksFinish\<close>.)\<close>

theorem filter_writer_gets_the_node:
  assumes "node_reachable w s" and "n_writer s = W_Wait t l"
  shows "\<exists>s'. (reader_step w)\<^sup>*\<^sup>* s s' \<and> n_readers s' = 0 \<and> n_tag s' = n_tag s \<and>
    writer_step s' (s'\<lparr>n_writer := W_Free t l\<rparr>)"
proof -
  have "node_inv s" using assms(1) by (rule node_reachable_inv)
  then show ?thesis using assms(2)
  proof (induction "visits_left s" arbitrary: s rule: less_induct)
    case less
    show ?case
    proof (cases "n_readers s = 0")
      case True
      then show ?thesis using less.prems by (intro exI [of _ s]) (auto intro: writer_step.no_readers)
    next
      case False
      then obtain s1 where s1: "reader_step w s s1" using reader_can_step [OF less.prems(1)] by blast
      have "node_inv s1" using node_inv_step [OF less.prems(1) node_step.reads [OF s1]] .
      moreover have frame: "n_writer s1 = W_Wait t l" "n_tag s1 = n_tag s"
        using reader_step_frame [OF s1] less.prems(2) by simp_all
      ultimately obtain s' where "(reader_step w)\<^sup>*\<^sup>* s1 s'" "n_readers s' = 0" "n_tag s' = n_tag s1"
          "writer_step s' (s'\<lparr>n_writer := W_Free t l\<rparr>)"
        using less.hyps [OF reader_step_decreases [OF s1]] by blast
      then show ?thesis using converse_rtranclp_into_rtranclp [of "reader_step w", OF s1] frame by auto
    qed
  qed
qed

text \<open>The tag is cleared and the node reused while the first lookup is in its visit.\<close>

theorem filter_writer_gets_the_node_witness:
  "\<exists>s'. (reader_step (\<lambda>_. [66]))\<^sup>*\<^sup>* (demo_visit\<lparr>n_active := False, n_writer := W_Wait [66] 2\<rparr>) s' \<and>
    n_readers s' = 0 \<and> n_tag s' = Some [65] \<and> writer_step s' (s'\<lparr>n_writer := W_Free [66] 2\<rparr>)"
proof -
  let ?s = "demo_visit\<lparr>n_active := False, n_writer := W_Wait [66] 2\<rparr>"
  have 1: "node_reachable (\<lambda>_. [66]) (demo_visit\<lparr>n_active := False\<rparr>)"
    by (rule node_reachable.step [OF demo_visit_reachable node_step.writes [OF writer_step.clear]])
      (simp add: demo_visit_def)
  have "writer_step (demo_visit\<lparr>n_active := False\<rparr>) ?s"
    using writer_step.reuse [of "demo_visit\<lparr>n_active := False\<rparr>" "[66]" 2] by (simp add: demo_visit_def)
  then have "node_reachable (\<lambda>_. [66]) ?s"
    by (rule node_reachable.step [OF 1 node_step.writes])
  then show ?thesis
    using filter_writer_gets_the_node [of "\<lambda>_. [66]" ?s "[66]" 2] by (simp add: demo_visit_def)
qed

end
