(* ===== verification/FilterTasks.thy ===== *)
theory FilterTasks
  imports FilterSpec
begin

text \<open>
  The tag filters under any number of threads. FilterSpec interleaves the accesses to one node; here
  the whole of \<open>on9log_filter_level_for_tag\<close>, \<open>on9log_set_tag_level\<close>, \<open>on9log_clear_tag_level\<close> and
  \<open>on9log_set_level\<close> run at once, one step per access to the active count, the head of the list, the
  default level, the fields of a node and the port's lock. Two kinds of accesses are joined to the
  step before them: those to memory no other thread can reach yet, and the searches of a writer,
  which holds the lock and compares tags and active flags that only the holder of the lock changes.

  Nodes are never unlinked, and new ones only come in front, so a node is known by its distance from
  the end of the list: \<open>fs_nodes\<close> is the list of \<open>s_tag_filters\<close> from its end, \<open>fs_head\<close> how many nodes
  a lookup reaches from \<open>s_tag_filter_head\<close>. The tags of calls are not \<open>NULL\<close>: writers refuse
  \<open>NULL\<close>, and a lookup of it matches no node.
\<close>

section \<open>Threads\<close>

text \<open>The tag is \<open>None\<close> between \<open>free(reusable->tag)\<close> and the store of the new pointer.\<close>

record filter_node =
  fn_tag :: "bytes option"
  fn_level :: on9log_level_t
  fn_active :: bool
  fn_readers :: u32

record filter_shared =
  fs_nodes :: "filter_node list"
  fs_head :: nat
  fs_count :: u32
  fs_default :: on9log_level_t
  fs_lock :: "nat option"

datatype filter_call = Lookup bytes | Change "bytes level_op"

text \<open>
  Where a thread is: in no call, in a lookup (\<open>L_\<close>), in \<open>on9log_set_tag_level\<close> (\<open>S_\<close>), in
  \<open>on9log_clear_tag_level\<close> (\<open>C_\<close>), in \<open>on9log_set_level\<close>, or at the return from a writer. A number
  is the node being visited or written.
\<close>

datatype filter_pc =
    Idle
  | L_Count bytes
  | L_Head bytes
  | L_Active bytes nat
  | L_Add bytes nat
  | L_Recheck bytes nat
  | L_Compare bytes nat
  | L_Level bytes nat bool
  | L_Sub bytes nat "on9log_level_t option"
  | L_Default bytes
  | L_Return bytes "on9log_level_t option" on9log_level_t
  | S_Lock bytes on9log_level_t
  | S_Release bytes on9log_level_t
  | S_Malloc bytes on9log_level_t
  | S_Relock bytes on9log_level_t
  | S_Update bytes on9log_level_t nat
  | S_Wait bytes on9log_level_t nat
  | S_Free bytes on9log_level_t nat
  | S_Tag bytes on9log_level_t nat
  | S_Level bytes on9log_level_t nat
  | S_Activate bytes on9log_level_t nat
  | S_Count bytes on9log_level_t
  | S_Calloc bytes on9log_level_t
  | S_Link bytes on9log_level_t
  | S_Publish bytes on9log_level_t
  | S_Unlock bytes on9log_level_t on9log_err_t
  | C_Lock bytes
  | C_Exchange bytes nat
  | C_Count bytes
  | C_Unlock bytes on9log_err_t
  | D_Store on9log_level_t
  | Returns on9log_err_t

definition change_node :: "nat \<Rightarrow> (filter_node \<Rightarrow> filter_node) \<Rightarrow> filter_shared \<Rightarrow> filter_shared" where
  "change_node k f sh = sh\<lparr>fs_nodes := (fs_nodes sh)[k := f (fs_nodes sh ! k)]\<rparr>"

text \<open>\<open>SLIST_FOREACH\<close> up to the first node with a property.\<close>

definition first_node :: "(filter_node \<Rightarrow> bool) \<Rightarrow> filter_node list \<Rightarrow> nat option" where
  "first_node P ns = find (\<lambda>k. P (ns ! k)) (rev [0..<length ns])"

definition node_of :: "bytes \<Rightarrow> filter_node list \<Rightarrow> nat option" where
  "node_of t = first_node (\<lambda>n. fn_tag n = Some t)"

text \<open>The loop condition of the lookup, with so many nodes ahead.\<close>

fun while_node :: "bytes \<Rightarrow> nat \<Rightarrow> filter_pc" where
  "while_node t 0 = L_Default t"
| "while_node t (Suc k) = L_Active t k"

fun enter_call :: "filter_call \<Rightarrow> filter_pc" where
  "enter_call (Lookup t) = L_Count t"
| "enter_call (Change (Set_Tag t l)) = (if on9log_valid_level l then S_Lock t l else Returns ON9LOG_ERR_INVALID_ARG)"
| "enter_call (Change (Clear_Tag t)) = C_Lock t"
| "enter_call (Change (Set_Default l)) = (if on9log_valid_level l then D_Store l else Idle)"

text \<open>What follows the search for the tag: an update, or what the code does when no node has the tag.\<close>

definition if_found :: "bytes \<Rightarrow> on9log_level_t \<Rightarrow> filter_pc \<Rightarrow> filter_shared \<Rightarrow> filter_pc" where
  "if_found t l otherwise sh = (case node_of t (fs_nodes sh) of Some k \<Rightarrow> S_Update t l k | None \<Rightarrow> otherwise)"

definition reuse_or_insert :: "bytes \<Rightarrow> on9log_level_t \<Rightarrow> filter_shared \<Rightarrow> filter_pc" where
  "reuse_or_insert t l sh =
     (case first_node (\<lambda>n. \<not> fn_active n) (fs_nodes sh) of Some k \<Rightarrow> S_Wait t l k | None \<Rightarrow> S_Calloc t l)"

definition take_lock :: "nat \<Rightarrow> filter_pc \<Rightarrow> filter_shared \<Rightarrow> (filter_shared \<times> filter_pc) option" where
  "take_lock i pc sh = (if fs_lock sh = None then Some (sh\<lparr>fs_lock := Some i\<rparr>, pc) else None)"

text \<open>The change a thread was called to make, and the tag it looks up.\<close>

fun pending_op :: "filter_pc \<Rightarrow> bytes level_op option" where
  "pending_op (S_Lock t l) = Some (Set_Tag t l)"
| "pending_op (S_Release t l) = Some (Set_Tag t l)"
| "pending_op (S_Malloc t l) = Some (Set_Tag t l)"
| "pending_op (S_Relock t l) = Some (Set_Tag t l)"
| "pending_op (S_Update t l k) = Some (Set_Tag t l)"
| "pending_op (S_Wait t l k) = Some (Set_Tag t l)"
| "pending_op (S_Free t l k) = Some (Set_Tag t l)"
| "pending_op (S_Tag t l k) = Some (Set_Tag t l)"
| "pending_op (S_Level t l k) = Some (Set_Tag t l)"
| "pending_op (S_Activate t l k) = Some (Set_Tag t l)"
| "pending_op (S_Count t l) = Some (Set_Tag t l)"
| "pending_op (S_Calloc t l) = Some (Set_Tag t l)"
| "pending_op (S_Link t l) = Some (Set_Tag t l)"
| "pending_op (S_Publish t l) = Some (Set_Tag t l)"
| "pending_op (S_Unlock t l err) = Some (Set_Tag t l)"
| "pending_op (C_Lock t) = Some (Clear_Tag t)"
| "pending_op (C_Exchange t k) = Some (Clear_Tag t)"
| "pending_op (C_Count t) = Some (Clear_Tag t)"
| "pending_op (C_Unlock t err) = Some (Clear_Tag t)"
| "pending_op (D_Store l) = Some (Set_Default l)"
| "pending_op _ = None"

fun lookup_tag :: "filter_pc \<Rightarrow> bytes option" where
  "lookup_tag (L_Count t) = Some t"
| "lookup_tag (L_Head t) = Some t"
| "lookup_tag (L_Active t k) = Some t"
| "lookup_tag (L_Add t k) = Some t"
| "lookup_tag (L_Recheck t k) = Some t"
| "lookup_tag (L_Compare t k) = Some t"
| "lookup_tag (L_Level t k matches) = Some t"
| "lookup_tag (L_Sub t k found) = Some t"
| "lookup_tag (L_Default t) = Some t"
| "lookup_tag (L_Return t found l) = Some t"
| "lookup_tag _ = None"

text \<open>
  The next step of thread \<open>i\<close>, by the function it is in. \<open>ok\<close> says whether memory can be allocated; nodes
  are fewer than \<open>2^32\<close> because memory is. A thread cannot go on (\<open>None\<close>) while another one holds the
  lock. The loop that waits for the readers of a node tests the counter in each round; a round that finds
  readers yields and leaves everything as it is. A comparison with a freed tag has no step.
\<close>

fun lookup_act :: "filter_shared \<Rightarrow> filter_pc \<Rightarrow> (filter_shared \<times> filter_pc) option" where
  "lookup_act sh (L_Count t) = Some (sh, if fs_count sh = 0 then L_Default t else L_Head t)"
| "lookup_act sh (L_Head t) = Some (sh, while_node t (fs_head sh))"
| "lookup_act sh (L_Active t k) =
     Some (sh, if fn_active (fs_nodes sh ! k) then L_Add t k else while_node t k)"
| "lookup_act sh (L_Add t k) =
     Some (change_node k (\<lambda>n. n\<lparr>fn_readers := fn_readers n + 1\<rparr>) sh, L_Recheck t k)"
| "lookup_act sh (L_Recheck t k) =
     Some (sh, if fn_active (fs_nodes sh ! k) then L_Compare t k else L_Sub t k None)"
| "lookup_act sh (L_Compare t k) =
     map_option (\<lambda>tag. (sh, L_Level t k (tag = t))) (fn_tag (fs_nodes sh ! k))"
| "lookup_act sh (L_Level t k matches) =
     Some (sh, L_Sub t k (if matches then Some (fn_level (fs_nodes sh ! k)) else None))"
| "lookup_act sh (L_Sub t k found) =
     Some (change_node k (\<lambda>n. n\<lparr>fn_readers := fn_readers n - 1\<rparr>) sh,
           case found of None \<Rightarrow> while_node t k | Some l \<Rightarrow> L_Return t found l)"
| "lookup_act sh (L_Default t) = Some (sh, L_Return t None (fs_default sh))"
| "lookup_act sh (L_Return t found l) = Some (sh, Idle)"
| "lookup_act sh pc = None"

fun set_tag_act :: "bool \<Rightarrow> nat \<Rightarrow> filter_shared \<Rightarrow> filter_pc \<Rightarrow> (filter_shared \<times> filter_pc) option" where
  "set_tag_act ok i sh (S_Lock t l) = take_lock i (if_found t l (S_Release t l) sh) sh"
| "set_tag_act ok i sh (S_Release t l) = Some (sh\<lparr>fs_lock := None\<rparr>, S_Malloc t l)"
| "set_tag_act ok i sh (S_Malloc t l) = Some (sh, if ok then S_Relock t l else Returns ON9LOG_ERR_NO_MEM)"
| "set_tag_act ok i sh (S_Relock t l) = take_lock i (if_found t l (reuse_or_insert t l sh) sh) sh"
| "set_tag_act ok i sh (S_Update t l k) =
     Some (change_node k (\<lambda>n. n\<lparr>fn_level := l\<rparr>) sh,
           if fn_active (fs_nodes sh ! k) then S_Unlock t l ON9LOG_OK else S_Activate t l k)"
| "set_tag_act ok i sh (S_Wait t l k) = Some (sh, if fn_readers (fs_nodes sh ! k) = 0 then S_Free t l k else S_Wait t l k)"
| "set_tag_act ok i sh (S_Free t l k) = Some (change_node k (\<lambda>n. n\<lparr>fn_tag := None\<rparr>) sh, S_Tag t l k)"
| "set_tag_act ok i sh (S_Tag t l k) = Some (change_node k (\<lambda>n. n\<lparr>fn_tag := Some t\<rparr>) sh, S_Level t l k)"
| "set_tag_act ok i sh (S_Level t l k) = Some (change_node k (\<lambda>n. n\<lparr>fn_level := l\<rparr>) sh, S_Activate t l k)"
| "set_tag_act ok i sh (S_Activate t l k) = Some (change_node k (\<lambda>n. n\<lparr>fn_active := True\<rparr>) sh, S_Count t l)"
| "set_tag_act ok i sh (S_Count t l) = Some (sh\<lparr>fs_count := fs_count sh + 1\<rparr>, S_Unlock t l ON9LOG_OK)"
| "set_tag_act ok i sh (S_Calloc t l) =
     (if ok \<and> length (fs_nodes sh) + 1 < 2 ^ 32
      then Some (sh\<lparr>fs_nodes := fs_nodes sh @ [\<lparr>fn_tag = Some t, fn_level = l, fn_active = True, fn_readers = 0\<rparr>]\<rparr>, S_Link t l)
      else Some (sh, S_Unlock t l ON9LOG_ERR_NO_MEM))"
| "set_tag_act ok i sh (S_Link t l) = Some (sh\<lparr>fs_count := fs_count sh + 1\<rparr>, S_Publish t l)"
| "set_tag_act ok i sh (S_Publish t l) = Some (sh\<lparr>fs_head := length (fs_nodes sh)\<rparr>, S_Unlock t l ON9LOG_OK)"
| "set_tag_act ok i sh (S_Unlock t l err) = Some (sh\<lparr>fs_lock := None\<rparr>, Returns err)"
| "set_tag_act ok i sh pc = None"

fun clear_tag_act :: "nat \<Rightarrow> filter_shared \<Rightarrow> filter_pc \<Rightarrow> (filter_shared \<times> filter_pc) option" where
  "clear_tag_act i sh (C_Lock t) =
     take_lock i (case node_of t (fs_nodes sh) of Some k \<Rightarrow> C_Exchange t k | None \<Rightarrow> C_Unlock t ON9LOG_ERR_NOT_FOUND) sh"
| "clear_tag_act i sh (C_Exchange t k) =
     Some (change_node k (\<lambda>n. n\<lparr>fn_active := False\<rparr>) sh,
           if fn_active (fs_nodes sh ! k) then C_Count t else C_Unlock t ON9LOG_OK)"
| "clear_tag_act i sh (C_Count t) = Some (sh\<lparr>fs_count := fs_count sh - 1\<rparr>, C_Unlock t ON9LOG_OK)"
| "clear_tag_act i sh (C_Unlock t err) = Some (sh\<lparr>fs_lock := None\<rparr>, Returns err)"
| "clear_tag_act i sh pc = None"

definition thread_act :: "bool \<Rightarrow> nat \<Rightarrow> filter_shared \<Rightarrow> filter_pc \<Rightarrow> (filter_shared \<times> filter_pc) option" where
  "thread_act ok i sh pc =
     (case lookup_tag pc of
        Some t \<Rightarrow> lookup_act sh pc
      | None \<Rightarrow>
          (case pending_op pc of
             Some (Set_Tag t l) \<Rightarrow> set_tag_act ok i sh pc
           | Some (Clear_Tag t) \<Rightarrow> clear_tag_act i sh pc
           | Some (Set_Default l) \<Rightarrow> Some (sh\<lparr>fs_default := l\<rparr>, Idle)
           | None \<Rightarrow> if pc = Idle then None else Some (sh, Idle)))"

lemma thread_act_simps [simp]:
  "thread_act ok i sh Idle = None"
  "thread_act ok i sh (L_Count t) = lookup_act sh (L_Count t)"
  "thread_act ok i sh (L_Head t) = lookup_act sh (L_Head t)"
  "thread_act ok i sh (L_Active t k) = lookup_act sh (L_Active t k)"
  "thread_act ok i sh (L_Add t k) = lookup_act sh (L_Add t k)"
  "thread_act ok i sh (L_Recheck t k) = lookup_act sh (L_Recheck t k)"
  "thread_act ok i sh (L_Compare t k) = lookup_act sh (L_Compare t k)"
  "thread_act ok i sh (L_Level t k matches) = lookup_act sh (L_Level t k matches)"
  "thread_act ok i sh (L_Sub t k found) = lookup_act sh (L_Sub t k found)"
  "thread_act ok i sh (L_Default t) = lookup_act sh (L_Default t)"
  "thread_act ok i sh (L_Return t found l) = lookup_act sh (L_Return t found l)"
  "thread_act ok i sh (S_Lock t l) = set_tag_act ok i sh (S_Lock t l)"
  "thread_act ok i sh (S_Release t l) = set_tag_act ok i sh (S_Release t l)"
  "thread_act ok i sh (S_Malloc t l) = set_tag_act ok i sh (S_Malloc t l)"
  "thread_act ok i sh (S_Relock t l) = set_tag_act ok i sh (S_Relock t l)"
  "thread_act ok i sh (S_Update t l k) = set_tag_act ok i sh (S_Update t l k)"
  "thread_act ok i sh (S_Wait t l k) = set_tag_act ok i sh (S_Wait t l k)"
  "thread_act ok i sh (S_Free t l k) = set_tag_act ok i sh (S_Free t l k)"
  "thread_act ok i sh (S_Tag t l k) = set_tag_act ok i sh (S_Tag t l k)"
  "thread_act ok i sh (S_Level t l k) = set_tag_act ok i sh (S_Level t l k)"
  "thread_act ok i sh (S_Activate t l k) = set_tag_act ok i sh (S_Activate t l k)"
  "thread_act ok i sh (S_Count t l) = set_tag_act ok i sh (S_Count t l)"
  "thread_act ok i sh (S_Calloc t l) = set_tag_act ok i sh (S_Calloc t l)"
  "thread_act ok i sh (S_Link t l) = set_tag_act ok i sh (S_Link t l)"
  "thread_act ok i sh (S_Publish t l) = set_tag_act ok i sh (S_Publish t l)"
  "thread_act ok i sh (S_Unlock t l err) = set_tag_act ok i sh (S_Unlock t l err)"
  "thread_act ok i sh (C_Lock t) = clear_tag_act i sh (C_Lock t)"
  "thread_act ok i sh (C_Exchange t k) = clear_tag_act i sh (C_Exchange t k)"
  "thread_act ok i sh (C_Count t) = clear_tag_act i sh (C_Count t)"
  "thread_act ok i sh (C_Unlock t err) = clear_tag_act i sh (C_Unlock t err)"
  "thread_act ok i sh (D_Store l) = Some (sh\<lparr>fs_default := l\<rparr>, Idle)"
  "thread_act ok i sh (Returns err) = Some (sh, Idle)"
  by (simp_all add: thread_act_def)

text \<open>Threads with the calls they still make, and the steps they take in any order.\<close>

record filter_tasks =
  ft_shared :: filter_shared
  ft_pcs :: "nat \<Rightarrow> filter_pc"
  ft_calls :: "nat \<Rightarrow> filter_call list"

definition thread_goes :: "nat \<Rightarrow> filter_shared \<times> filter_pc \<Rightarrow> filter_tasks \<Rightarrow> filter_tasks" where
  "thread_goes i r s = s\<lparr>ft_shared := fst r, ft_pcs := (ft_pcs s)(i := snd r)\<rparr>"

inductive filter_step :: "nat \<Rightarrow> nat \<Rightarrow> filter_tasks \<Rightarrow> filter_tasks \<Rightarrow> bool" for n where
  enter: "i < n \<Longrightarrow> ft_pcs s i = Idle \<Longrightarrow> ft_calls s i = c # cs \<Longrightarrow>
    filter_step n i s (s\<lparr>ft_pcs := (ft_pcs s)(i := enter_call c), ft_calls := (ft_calls s)(i := cs)\<rparr>)"
| act: "i < n \<Longrightarrow> thread_act ok i (ft_shared s) (ft_pcs s i) = Some r \<Longrightarrow> filter_step n i s (thread_goes i r s)"

definition filter_start :: "on9log_level_t \<Rightarrow> (nat \<Rightarrow> filter_call list) \<Rightarrow> filter_tasks" where
  "filter_start default_level calls =
     \<lparr>ft_shared = \<lparr>fs_nodes = [], fs_head = 0, fs_count = 0, fs_default = default_level, fs_lock = None\<rparr>,
      ft_pcs = (\<lambda>_. Idle), ft_calls = calls\<rparr>"

inductive filter_reachable :: "nat \<Rightarrow> filter_tasks \<Rightarrow> bool" for n where
  start: "on9log_valid_level l \<Longrightarrow> n < 2 ^ 32 \<Longrightarrow> filter_reachable n (filter_start l calls)"
| step: "filter_reachable n s \<Longrightarrow> filter_step n i s s' \<Longrightarrow> filter_reachable n s'"

section \<open>The map the list stands for\<close>

text \<open>
  The level of a tag is that of the node with the tag that lookups reach and do not skip; FilterSpec
  has the abstract map and its operations.
\<close>

definition node_in_force :: "filter_shared \<Rightarrow> bytes \<Rightarrow> nat \<Rightarrow> bool" where
  "node_in_force sh t k \<longleftrightarrow> k < fs_head sh \<and> fn_active (fs_nodes sh ! k) \<and> fn_tag (fs_nodes sh ! k) = Some t"

definition tag_level :: "filter_shared \<Rightarrow> bytes \<Rightarrow> on9log_level_t option" where
  "tag_level sh t =
     map_option (\<lambda>k. fn_level (fs_nodes sh ! k)) (find (node_in_force sh t) [0..<fs_head sh])"

definition shared_spec :: "filter_shared \<Rightarrow> level_spec" where
  "shared_spec sh = \<lparr>ls_overrides = tag_level sh, ls_default = fs_default sh\<rparr>"

text \<open>
  The states of a lookup: from the thread's entry into the call until it has a result, with the steps
  of all threads.
\<close>

inductive lookup_run :: "nat \<Rightarrow> nat \<Rightarrow> bytes \<Rightarrow> filter_tasks list \<Rightarrow> filter_tasks \<Rightarrow> bool" for n i t where
  enters: "filter_reachable n s \<Longrightarrow> ft_pcs s i = L_Count t \<Longrightarrow> i < n \<Longrightarrow> lookup_run n i t [s] s"
| goes_on: "lookup_run n i t ss s \<Longrightarrow> filter_step n j s s' \<Longrightarrow> lookup_tag (ft_pcs s' i) = Some t \<Longrightarrow>
    lookup_run n i t (ss @ [s']) s'"

end
