(* ===== verification/FilterTasksInv.thy ===== *)
theory FilterTasksInv
  imports FilterTasks
begin

text \<open>
  What is true of the tag filters in every state any number of threads can bring them to: who holds
  the lock, what the holder knows of the list, how many lookups each node counts, and that the tag a
  lookup is about to read is there.
\<close>

section \<open>The invariant\<close>

fun holds_lock :: "filter_pc \<Rightarrow> bool" where
  "holds_lock (S_Release t l) = True"
| "holds_lock (S_Update t l k) = True"
| "holds_lock (S_Wait t l k) = True"
| "holds_lock (S_Free t l k) = True"
| "holds_lock (S_Tag t l k) = True"
| "holds_lock (S_Level t l k) = True"
| "holds_lock (S_Activate t l k) = True"
| "holds_lock (S_Count t l) = True"
| "holds_lock (S_Calloc t l) = True"
| "holds_lock (S_Link t l) = True"
| "holds_lock (S_Publish t l) = True"
| "holds_lock (S_Unlock t l err) = True"
| "holds_lock (C_Exchange t k) = True"
| "holds_lock (C_Count t) = True"
| "holds_lock (C_Unlock t err) = True"
| "holds_lock _ = False"

text \<open>The nodes a lookup has counted itself in, and those whose tag it relies on.\<close>

fun visits :: "filter_pc \<Rightarrow> nat \<Rightarrow> bool" where
  "visits (L_Recheck t k) j = (j = k)"
| "visits (L_Compare t k) j = (j = k)"
| "visits (L_Level t k matches) j = (j = k)"
| "visits (L_Sub t k found) j = (j = k)"
| "visits _ j = False"

fun reads_tag :: "filter_pc \<Rightarrow> nat \<Rightarrow> bool" where
  "reads_tag (L_Compare t k) j = (j = k)"
| "reads_tag (L_Level t k matches) j = (j = k)"
| "reads_tag _ j = False"

fun replaces_tag :: "filter_pc \<Rightarrow> nat \<Rightarrow> bool" where
  "replaces_tag (S_Free t l k) j = (j = k)"
| "replaces_tag (S_Tag t l k) j = (j = k)"
| "replaces_tag (S_Level t l k) j = (j = k)"
| "replaces_tag _ j = False"

definition tag_free :: "bytes \<Rightarrow> filter_node list \<Rightarrow> bool" where
  "tag_free t ns \<longleftrightarrow> (\<forall>j < length ns. fn_tag (ns ! j) \<noteq> Some t)"

definition active_nodes :: "filter_node list \<Rightarrow> nat" where
  "active_nodes ns = length (filter fn_active ns)"

text \<open>What the holder of the lock knows.\<close>

fun writer_ok :: "filter_shared \<Rightarrow> filter_pc \<Rightarrow> bool" where
  "writer_ok sh (S_Update t l k) = (k < length (fs_nodes sh) \<and> fn_tag (fs_nodes sh ! k) = Some t)"
| "writer_ok sh (S_Wait t l k) = (k < length (fs_nodes sh) \<and> \<not> fn_active (fs_nodes sh ! k) \<and> tag_free t (fs_nodes sh))"
| "writer_ok sh (S_Free t l k) = (k < length (fs_nodes sh) \<and> \<not> fn_active (fs_nodes sh ! k) \<and> tag_free t (fs_nodes sh))"
| "writer_ok sh (S_Tag t l k) = (k < length (fs_nodes sh) \<and> \<not> fn_active (fs_nodes sh ! k) \<and> tag_free t (fs_nodes sh))"
| "writer_ok sh (S_Level t l k) =
     (k < length (fs_nodes sh) \<and> \<not> fn_active (fs_nodes sh ! k) \<and> fn_tag (fs_nodes sh ! k) = Some t)"
| "writer_ok sh (S_Activate t l k) =
     (k < length (fs_nodes sh) \<and> \<not> fn_active (fs_nodes sh ! k) \<and> fn_tag (fs_nodes sh ! k) = Some t \<and>
      fn_level (fs_nodes sh ! k) = l)"
| "writer_ok sh (S_Count t l) =
     (\<exists>k < length (fs_nodes sh). fn_active (fs_nodes sh ! k) \<and> fn_tag (fs_nodes sh ! k) = Some t \<and> fn_level (fs_nodes sh ! k) = l)"
| "writer_ok sh (S_Calloc t l) = tag_free t (fs_nodes sh)"
| "writer_ok sh (S_Link t l) =
     (fs_nodes sh \<noteq> [] \<and> fn_active (last (fs_nodes sh)) \<and> fn_tag (last (fs_nodes sh)) = Some t \<and>
      fn_level (last (fs_nodes sh)) = l)"
| "writer_ok sh (S_Publish t l) =
     (fs_nodes sh \<noteq> [] \<and> fn_active (last (fs_nodes sh)) \<and> fn_tag (last (fs_nodes sh)) = Some t \<and>
      fn_level (last (fs_nodes sh)) = l)"
| "writer_ok sh (C_Exchange t k) = (k < length (fs_nodes sh) \<and> fn_tag (fs_nodes sh ! k) = Some t)"
| "writer_ok sh (C_Count t) =
     (active_nodes (fs_nodes sh) < length (fs_nodes sh) \<and>
      (\<forall>k < length (fs_nodes sh). fn_tag (fs_nodes sh ! k) = Some t \<longrightarrow> \<not> fn_active (fs_nodes sh ! k)))"
| "writer_ok sh _ = True"

fun unpublished :: "filter_pc \<Rightarrow> nat" where
  "unpublished (S_Link t l) = 1"
| "unpublished (S_Publish t l) = 1"
| "unpublished _ = 0"

text \<open>Nodes in the counter, by what the holder of the lock has not added or taken away yet.\<close>

fun counted_nodes :: "filter_pc \<Rightarrow> nat \<Rightarrow> nat" where
  "counted_nodes (S_Count t l) m = m - 1"
| "counted_nodes (S_Link t l) m = m - 1"
| "counted_nodes (C_Count t) m = m + 1"
| "counted_nodes _ m = m"

fun dangling :: "filter_pc \<Rightarrow> nat option" where
  "dangling (S_Tag t l k) = Some k"
| "dangling _ = None"

definition unique_tags :: "filter_node list \<Rightarrow> bool" where
  "unique_tags ns \<longleftrightarrow>
     (\<forall>j k t. j < length ns \<longrightarrow> k < length ns \<longrightarrow> fn_tag (ns ! j) = Some t \<longrightarrow> fn_tag (ns ! k) = Some t \<longrightarrow> j = k)"

definition dangles_at :: "nat option \<Rightarrow> filter_node list \<Rightarrow> bool" where
  "dangles_at d ns \<longleftrightarrow> (\<forall>k < length ns. fn_tag (ns ! k) = None \<longleftrightarrow> d = Some k)"

definition shared_ok :: "filter_shared \<Rightarrow> filter_pc \<Rightarrow> bool" where
  "shared_ok sh h \<longleftrightarrow>
     unique_tags (fs_nodes sh) \<and> dangles_at (dangling h) (fs_nodes sh) \<and>
     fs_head sh + unpublished h = length (fs_nodes sh) \<and>
     length (fs_nodes sh) < 2 ^ 32 \<and>
     fs_count sh = word_of_nat (counted_nodes h (active_nodes (fs_nodes sh))) \<and>
     writer_ok sh h"

fun lookup_ok :: "filter_shared \<Rightarrow> filter_pc \<Rightarrow> filter_pc \<Rightarrow> bool" where
  "lookup_ok sh h (L_Active t k) = (k < fs_head sh)"
| "lookup_ok sh h (L_Add t k) = (k < fs_head sh)"
| "lookup_ok sh h (L_Recheck t k) = (k < fs_head sh)"
| "lookup_ok sh h (L_Compare t k) = (k < fs_head sh \<and> \<not> replaces_tag h k)"
| "lookup_ok sh h (L_Level t k matches) =
     (k < fs_head sh \<and> \<not> replaces_tag h k \<and> matches = (fn_tag (fs_nodes sh ! k) = Some t))"
| "lookup_ok sh h (L_Sub t k found) = (k < fs_head sh)"
| "lookup_ok sh h _ = True"

definition visitors :: "nat \<Rightarrow> (nat \<Rightarrow> filter_pc) \<Rightarrow> nat \<Rightarrow> nat" where
  "visitors n pcs k = card {i. i < n \<and> visits (pcs i) k}"

text \<open>The thread in a writer's locked section.\<close>

definition holder :: "filter_tasks \<Rightarrow> filter_pc" where
  "holder s = (case fs_lock (ft_shared s) of None \<Rightarrow> Idle | Some i \<Rightarrow> ft_pcs s i)"

definition filter_inv :: "nat \<Rightarrow> filter_tasks \<Rightarrow> bool" where
  "filter_inv n s \<longleftrightarrow>
     n < 2 ^ 32 \<and> (\<forall>i \<ge> n. ft_pcs s i = Idle) \<and>
     (\<forall>i. holds_lock (ft_pcs s i) \<longleftrightarrow> fs_lock (ft_shared s) = Some i) \<and>
     shared_ok (ft_shared s) (holder s) \<and>
     (\<forall>k < length (fs_nodes (ft_shared s)). fn_readers (fs_nodes (ft_shared s) ! k) = word_of_nat (visitors n (ft_pcs s) k)) \<and>
     (\<forall>i. lookup_ok (ft_shared s) (holder s) (ft_pcs s i))"

section \<open>Counting\<close>

lemma visitors_le: "visitors n pcs k \<le> n"
proof -
  have "card {i. i < n \<and> visits (pcs i) k} \<le> card {..<n}" by (rule card_mono) auto
  then show ?thesis by (simp add: visitors_def)
qed

lemma visitors_upd:
  assumes "i < n"
  shows "visitors n (pcs(i := pc)) k + (if visits (pcs i) k then 1 else 0) =
    visitors n pcs k + (if visits pc k then 1 else 0)"
proof -
  let ?rest = "{j. j < n \<and> j \<noteq> i \<and> visits (pcs j) k}"
  have fin: "finite ?rest" by simp
  have part: "card {j. j < n \<and> visits (qs j) k} = card ?rest + (if visits (qs i) k then 1 else 0)"
    if "\<forall>j. j \<noteq> i \<longrightarrow> qs j = pcs j" for qs
  proof -
    have "{j. j < n \<and> visits (qs j) k} = (if visits (qs i) k then insert i ?rest else ?rest)"
      using that assms by auto
    then show ?thesis by (simp add: fin)
  qed
  show ?thesis using part [of pcs] part [of "pcs(i := pc)"] by (simp add: visitors_def)
qed

lemma visitors_same: "i < n \<Longrightarrow> visits pc k = visits (pcs i) k \<Longrightarrow> visitors n (pcs(i := pc)) k = visitors n pcs k"
  using visitors_upd [of i n pcs pc k] by (simp split: if_splits)

lemma visitors_0D: "visitors n pcs k = 0 \<Longrightarrow> i < n \<Longrightarrow> \<not> visits (pcs i) k"
  by (auto simp: visitors_def)

lemma active_nodes_update:
  "k < length ns \<Longrightarrow> active_nodes (ns[k := x]) + (if fn_active (ns ! k) then 1 else 0) =
     active_nodes ns + (if fn_active x then 1 else 0)"
proof (induction ns arbitrary: k)
  case (Cons y ns)
  then show ?case by (cases k) (auto simp: active_nodes_def)
qed (simp add: active_nodes_def)

lemma active_nodes_append [simp]: "active_nodes (ns @ ms) = active_nodes ns + active_nodes ms"
  by (simp add: active_nodes_def)

lemma active_nodes_le: "active_nodes ns \<le> length ns"
  by (simp add: active_nodes_def)

lemma active_nodes_same: "k < length ns \<Longrightarrow> fn_active x = fn_active (ns ! k) \<Longrightarrow> active_nodes (ns[k := x]) = active_nodes ns"
  using active_nodes_update [of k ns x] by (simp split: if_splits)

lemma active_nodes_pos: "k < length ns \<Longrightarrow> fn_active (ns ! k) \<Longrightarrow> active_nodes ns > 0"
  by (auto simp: active_nodes_def filter_empty_conv)

lemma active_nodes_less:
  assumes "k < length ns" and "\<not> fn_active (ns ! k)"
  shows "active_nodes ns < length ns"
proof -
  have "ns ! k \<in> set ns" using assms(1) by simp
  then show ?thesis using assms(2) unfolding active_nodes_def by (rule length_filter_less)
qed

lemma active_nodes_one:
  assumes "active_nodes ns = 1" and "j < length ns" "fn_active (ns ! j)" and "k < length ns" "fn_active (ns ! k)"
  shows "j = k"
proof -
  have "card {i. i < length ns \<and> fn_active (ns ! i)} = 1"
    using assms(1) by (simp add: active_nodes_def length_filter_conv_card)
  then obtain x where "{i. i < length ns \<and> fn_active (ns ! i)} = {x}" by (rule card_1_singletonE)
  then have "j \<in> {x}" "k \<in> {x}" using assms by blast+
  then show ?thesis by simp
qed

section \<open>Searches\<close>

lemma first_node_Some: "first_node P ns = Some k \<Longrightarrow> k < length ns \<and> P (ns ! k)"
  by (auto simp: first_node_def find_Some_iff rev_nth)

lemma first_node_None: "first_node P ns = None \<Longrightarrow> \<forall>k < length ns. \<not> P (ns ! k)"
  by (auto simp: first_node_def find_None_iff)

lemma node_of_Some: "node_of t ns = Some k \<Longrightarrow> k < length ns \<and> fn_tag (ns ! k) = Some t"
  using first_node_Some [of "\<lambda>n. fn_tag n = Some t" ns k] by (simp add: node_of_def)

lemma node_of_None: "node_of t ns = None \<Longrightarrow> tag_free t ns"
  using first_node_None [of "\<lambda>n. fn_tag n = Some t" ns] by (simp add: node_of_def tag_free_def)

section \<open>The invariant is preserved\<close>

lemma change_node_simps [simp]:
  "length (fs_nodes (change_node k f sh)) = length (fs_nodes sh)"
  "fs_head (change_node k f sh) = fs_head sh"
  "fs_count (change_node k f sh) = fs_count sh"
  "fs_default (change_node k f sh) = fs_default sh"
  "fs_lock (change_node k f sh) = fs_lock sh"
  by (simp_all add: change_node_def)

lemma change_node_nth [simp]:
  "j < length (fs_nodes sh) \<Longrightarrow>
     fs_nodes (change_node k f sh) ! j = (if j = k then f (fs_nodes sh ! j) else fs_nodes sh ! j)"
  by (auto simp: change_node_def nth_list_update)

lemma while_node_cases: "while_node t k = (if k = 0 then L_Default t else L_Active t (k - 1))"
  by (cases k) simp_all

lemma while_node_simps [simp]:
  "holds_lock (while_node t k) = False" "visits (while_node t k) j = False" "reads_tag (while_node t k) j = False"
  "lookup_tag (while_node t k) = Some t" "pending_op (while_node t k) = None"
  by (simp_all add: while_node_cases)

lemma take_lock_Some [simp]: "take_lock i pc sh = Some r \<longleftrightarrow> fs_lock sh = None \<and> r = (sh\<lparr>fs_lock := Some i\<rparr>, pc)"
  by (auto simp: take_lock_def)

lemma entry_simps [simp]:
  "holds_lock (enter_call c) = False" "visits (enter_call c) j = False" "reads_tag (enter_call c) j = False"
  "lookup_ok sh h (enter_call c)"
  by (induction c rule: enter_call.induct) simp_all

lemma chosen_simps [simp]:
  "holds_lock (if_found t l (S_Release t l) sh)" "holds_lock (if_found t l (reuse_or_insert t l sh) sh)"
  "\<not> visits (if_found t l (S_Release t l) sh) j" "\<not> visits (if_found t l (reuse_or_insert t l sh) sh) j"
  by (simp_all add: if_found_def reuse_or_insert_def split: option.split)

lemma act_readers:
  assumes "thread_act ok i sh pc = Some (sh', pc')" and "lookup_ok sh h pc" and "fs_head sh \<le> length (fs_nodes sh)"
    and "j < length (fs_nodes sh)"
  shows "fn_readers (fs_nodes sh' ! j) + of_bool (visits pc j) = fn_readers (fs_nodes sh ! j) + of_bool (visits pc' j)"
  using assms by (cases pc) (auto split: if_splits option.splits simp: nth_append)

lemma act_lock:
  assumes "thread_act ok i sh pc = Some (sh', pc')" and "holds_lock pc \<longleftrightarrow> fs_lock sh = Some i"
  shows "(holds_lock pc' \<longleftrightarrow> fs_lock sh' = Some i) \<and> (j \<noteq> i \<longrightarrow> (fs_lock sh' = Some j \<longleftrightarrow> fs_lock sh = Some j))"
  using assms by (cases pc) (auto split: if_splits option.splits)

text \<open>Who holds the lock after a step, if \<open>h\<close> did before.\<close>

definition next_holder :: "filter_pc \<Rightarrow> filter_pc \<Rightarrow> filter_pc \<Rightarrow> filter_pc" where
  "next_holder h pc pc' = (if holds_lock pc' then pc' else if holds_lock pc then Idle else h)"

text \<open>Only a writer that waits for the readers looks at them.\<close>

definition same_nodes :: "filter_shared \<Rightarrow> filter_shared \<Rightarrow> bool" where
  "same_nodes sh sh' \<longleftrightarrow>
     map (\<lambda>n. (fn_tag n, fn_level n, fn_active n)) (fs_nodes sh') = map (\<lambda>n. (fn_tag n, fn_level n, fn_active n)) (fs_nodes sh) \<and>
     fs_head sh' = fs_head sh \<and> fs_count sh' = fs_count sh"

lemma same_nodesD:
  assumes "same_nodes sh sh'"
  shows "length (fs_nodes sh') = length (fs_nodes sh)" "fs_head sh' = fs_head sh" "fs_count sh' = fs_count sh"
    and "k < length (fs_nodes sh) \<Longrightarrow> fn_tag (fs_nodes sh' ! k) = fn_tag (fs_nodes sh ! k) \<and>
      fn_level (fs_nodes sh' ! k) = fn_level (fs_nodes sh ! k) \<and> fn_active (fs_nodes sh' ! k) = fn_active (fs_nodes sh ! k)"
proof -
  show len: "length (fs_nodes sh') = length (fs_nodes sh)"
    using assms by (auto simp: same_nodes_def dest: map_eq_imp_length_eq)
  show "fs_head sh' = fs_head sh" "fs_count sh' = fs_count sh" using assms by (simp_all add: same_nodes_def)
  assume "k < length (fs_nodes sh)"
  moreover have "map (\<lambda>n. (fn_tag n, fn_level n, fn_active n)) (fs_nodes sh') ! k =
      map (\<lambda>n. (fn_tag n, fn_level n, fn_active n)) (fs_nodes sh) ! k"
    using assms by (simp add: same_nodes_def)
  ultimately show "fn_tag (fs_nodes sh' ! k) = fn_tag (fs_nodes sh ! k) \<and>
      fn_level (fs_nodes sh' ! k) = fn_level (fs_nodes sh ! k) \<and> fn_active (fs_nodes sh' ! k) = fn_active (fs_nodes sh ! k)"
    using len by simp
qed

lemma same_nodes_active:
  assumes "same_nodes sh sh'"
  shows "active_nodes (fs_nodes sh') = active_nodes (fs_nodes sh)"
proof -
  have "map fn_active (fs_nodes sh') = map (snd \<circ> snd) (map (\<lambda>n. (fn_tag n, fn_level n, fn_active n)) (fs_nodes sh'))"
    by simp
  also have "\<dots> = map fn_active (fs_nodes sh)" using assms by (simp add: same_nodes_def comp_def)
  finally have "length (filter id (map fn_active (fs_nodes sh'))) = length (filter id (map fn_active (fs_nodes sh)))"
    by simp
  then show ?thesis by (simp add: active_nodes_def filter_map comp_def)
qed

lemma same_nodes_readers: "(\<And>n. f n = n\<lparr>fn_readers := fn_readers (f n)\<rparr>) \<Longrightarrow> same_nodes sh (change_node k f sh)"
  by (auto simp: same_nodes_def intro!: nth_equalityI)
    (metis filter_node.select_convs filter_node.surjective filter_node.update_convs(4))+

lemma tag_free_same: "same_nodes sh sh' \<Longrightarrow> tag_free t (fs_nodes sh') = tag_free t (fs_nodes sh)"
  using same_nodesD [of sh sh'] by (auto simp: tag_free_def)

lemma last_same:
  assumes "same_nodes sh sh'" and "fs_nodes sh \<noteq> []"
  shows "fs_nodes sh' \<noteq> [] \<and> fn_tag (last (fs_nodes sh')) = fn_tag (last (fs_nodes sh)) \<and>
     fn_level (last (fs_nodes sh')) = fn_level (last (fs_nodes sh)) \<and> fn_active (last (fs_nodes sh')) = fn_active (last (fs_nodes sh))"
proof -
  have len: "length (fs_nodes sh') = length (fs_nodes sh)" using assms(1) by (rule same_nodesD)
  then have "fs_nodes sh' \<noteq> []" using assms(2) by (metis length_0_conv)
  then show ?thesis using assms len same_nodesD(4) [OF assms(1), of "length (fs_nodes sh) - 1"]
    by (simp add: last_conv_nth)
qed

lemma writer_ok_same:
  assumes "same_nodes sh sh'" and "writer_ok sh h"
  shows "writer_ok sh' h"
  using assms(2) same_nodesD [OF assms(1)] last_same [OF assms(1)] tag_free_same [OF assms(1)] same_nodes_active [OF assms(1)]
  by (cases h) auto

lemma shared_ok_same: "same_nodes sh sh' \<Longrightarrow> shared_ok sh h \<Longrightarrow> shared_ok sh' h"
  using same_nodesD [of sh sh'] writer_ok_same [of sh sh' h]
  by (simp add: shared_ok_def same_nodes_active unique_tags_def dangles_at_def)

lemma same_nodes_refl [simp]: "same_nodes sh sh"
  by (simp add: same_nodes_def)

lemma lookup_act_same:
  "thread_act ok i sh pc = Some (sh', pc') \<Longrightarrow> lookup_tag pc = Some t \<Longrightarrow> same_nodes sh sh'"
  by (cases pc) (auto intro!: same_nodes_readers)

lemma shared_ok_Idle:
  "shared_ok sh Idle \<Longrightarrow> writer_ok sh pc \<Longrightarrow> dangling pc = None \<Longrightarrow> unpublished pc = 0 \<Longrightarrow> (\<And>m. counted_nodes pc m = m) \<Longrightarrow>
     shared_ok (sh\<lparr>fs_lock := x\<rparr>) pc"
  by (cases pc) (simp_all add: shared_ok_def)

lemma shared_ok_enters:
  assumes "shared_ok sh Idle" and "fs_lock sh = None"
  shows "shared_ok (sh\<lparr>fs_lock := Some i\<rparr>) (if_found t l (S_Release t l) sh)"
    and "shared_ok (sh\<lparr>fs_lock := Some i\<rparr>) (if_found t l (reuse_or_insert t l sh) sh)"
    and "shared_ok (sh\<lparr>fs_lock := Some i\<rparr>)
      (case node_of t (fs_nodes sh) of Some k \<Rightarrow> C_Exchange t k | None \<Rightarrow> C_Unlock t ON9LOG_ERR_NOT_FOUND)"
  using node_of_Some [of t "fs_nodes sh"] node_of_None [of t "fs_nodes sh"] first_node_Some [of "\<lambda>n. \<not> fn_active n" "fs_nodes sh"]
  by (auto intro!: shared_ok_Idle [OF assms(1)] simp: if_found_def reuse_or_insert_def split: option.split)

lemma unique_tags_update:
  assumes "unique_tags ns" and "k < length ns"
    and "fn_tag x = fn_tag (ns ! k) \<or> fn_tag x = None \<or> (\<exists>t. fn_tag x = Some t \<and> tag_free t ns)"
  shows "unique_tags (ns[k := x])"
  unfolding unique_tags_def
proof (intro allI impI)
  fix j j' t
  assume j: "j < length (ns[k := x])" "j' < length (ns[k := x])"
    and t: "fn_tag (ns[k := x] ! j) = Some t" "fn_tag (ns[k := x] ! j') = Some t"
  have old: "j < length ns \<Longrightarrow> j' < length ns \<Longrightarrow> fn_tag (ns ! j) = Some t \<Longrightarrow> fn_tag (ns ! j') = Some t \<Longrightarrow> j = j'"
    using assms(1) by (simp add: unique_tags_def)
  show "j = j'" using assms(2,3) j t old by (auto simp: nth_list_update tag_free_def split: if_splits)
qed

lemma unique_tags_append:
  "unique_tags ns \<Longrightarrow> fn_tag x = Some t \<Longrightarrow> tag_free t ns \<Longrightarrow> unique_tags (ns @ [x])"
  unfolding unique_tags_def tag_free_def by (auto simp: nth_append less_Suc_eq)

lemma dangles_at_update:
  "dangles_at d ns \<Longrightarrow> k < length ns \<Longrightarrow> d = None \<or> d = Some k \<Longrightarrow>
     dangles_at (if fn_tag x = None then Some k else None) (ns[k := x])"
  by (auto simp: dangles_at_def nth_list_update)

lemma tag_free_update:
  "tag_free t ns \<Longrightarrow> fn_tag x \<noteq> Some t \<Longrightarrow> tag_free t (ns[k := x])"
  by (cases "k < length ns") (auto simp: tag_free_def nth_list_update)

text \<open>A write to one node.\<close>

lemma shared_ok_change:
  assumes inv: "shared_ok sh h" and k: "k < length (fs_nodes sh)" and d: "dangling h = None \<or> dangling h = Some k"
    and tag: "fn_tag (f (fs_nodes sh ! k)) = fn_tag (fs_nodes sh ! k) \<or> fn_tag (f (fs_nodes sh ! k)) = None \<or>
      (\<exists>t. fn_tag (f (fs_nodes sh ! k)) = Some t \<and> tag_free t (fs_nodes sh))"
    and d': "dangling h' = (if fn_tag (f (fs_nodes sh ! k)) = None then Some k else None)"
    and "unpublished h' = unpublished h"
    and "counted_nodes h' (active_nodes (fs_nodes (change_node k f sh))) = counted_nodes h (active_nodes (fs_nodes sh))"
    and "writer_ok (change_node k f sh) h'"
  shows "shared_ok (change_node k f sh) h'"
proof -
  have "unique_tags (fs_nodes (change_node k f sh))"
    using inv k tag by (simp add: change_node_def shared_ok_def unique_tags_update)
  moreover have "dangles_at (dangling h') (fs_nodes (change_node k f sh))"
    using dangles_at_update [of "dangling h" "fs_nodes sh" k "f (fs_nodes sh ! k)"] inv d k
    by (simp add: d' change_node_def shared_ok_def)
  ultimately show ?thesis using assms by (simp add: shared_ok_def)
qed

lemma lookup_no_lock:
  "thread_act ok i sh pc = Some (sh', pc') \<Longrightarrow> lookup_tag pc = Some t \<Longrightarrow> \<not> holds_lock pc \<and> \<not> holds_lock pc'"
  by (cases pc) (auto split: option.splits if_splits)

lemma tag_free_change: "tag_free t (fs_nodes sh) \<Longrightarrow> fn_tag (f (fs_nodes sh ! k)) \<noteq> Some t \<Longrightarrow> tag_free t (fs_nodes (change_node k f sh))"
  by (simp add: change_node_def tag_free_update)

lemma active_change:
  "k < length (fs_nodes sh) \<Longrightarrow>
     active_nodes (fs_nodes (change_node k f sh)) + of_bool (fn_active (fs_nodes sh ! k)) =
       active_nodes (fs_nodes sh) + of_bool (fn_active (f (fs_nodes sh ! k)))"
  using active_nodes_update [of k "fs_nodes sh" "f (fs_nodes sh ! k)"] by (auto simp: change_node_def split: if_splits)

lemma shared_ok_writer: "shared_ok sh h \<Longrightarrow> writer_ok sh h"
  by (simp add: shared_ok_def)

lemma act_shared_writer:
  assumes act: "thread_act ok i sh pc = Some (sh', pc')" and inv: "shared_ok sh pc" and "holds_lock pc"
  shows "shared_ok sh' (if holds_lock pc' then pc' else Idle)"
proof -
  note w = shared_ok_writer [OF inv]
  show ?thesis
  proof (cases pc)
    case (S_Update t l k)
    then show ?thesis using act w active_change [of k sh "\<lambda>n. n\<lparr>fn_level := l\<rparr>"]
      by (auto intro!: shared_ok_change [OF inv])
  next
    case (S_Free t l k)
    then show ?thesis using act w active_change [of k sh "\<lambda>n. n\<lparr>fn_tag := None\<rparr>"]
      by (auto intro!: shared_ok_change [OF inv] tag_free_change)
  next
    case (S_Tag t l k)
    then show ?thesis using act w active_change [of k sh "\<lambda>n. n\<lparr>fn_tag := Some t\<rparr>"]
      by (auto intro!: shared_ok_change [OF inv])
  next
    case (S_Level t l k)
    then show ?thesis using act w active_change [of k sh "\<lambda>n. n\<lparr>fn_level := l\<rparr>"]
      by (auto intro!: shared_ok_change [OF inv])
  next
    case (S_Activate t l k)
    then show ?thesis using act w active_change [of k sh "\<lambda>n. n\<lparr>fn_active := True\<rparr>"]
      by (auto intro!: shared_ok_change [OF inv] exI [of _ k])
  next
    case (C_Exchange t k)
    let ?sh' = "change_node k (\<lambda>n. n\<lparr>fn_active := False\<rparr>) sh"
    have k: "k < length (fs_nodes sh)" "fn_tag (fs_nodes sh ! k) = Some t" using w C_Exchange by simp_all
    have one: "j = k" if "j < length (fs_nodes sh)" "fn_tag (fs_nodes sh ! j) = Some t" for j
      using that k inv by (auto simp: shared_ok_def unique_tags_def)
    have "active_nodes (fs_nodes ?sh') < length (fs_nodes sh)"
      using k active_nodes_less [of k "fs_nodes ?sh'"] by simp
    moreover have "fn_tag (fs_nodes ?sh' ! j) = Some t \<longrightarrow> \<not> fn_active (fs_nodes ?sh' ! j)" if "j < length (fs_nodes sh)" for j
    proof (cases "j = k")
      case False
      then have "fn_tag (fs_nodes sh ! j) \<noteq> Some t" using that one by blast
      then show ?thesis using that False by simp
    qed (use that in simp)
    ultimately have "writer_ok ?sh' (C_Count t)" by simp
    moreover have "active_nodes (fs_nodes ?sh') + of_bool (fn_active (fs_nodes sh ! k)) = active_nodes (fs_nodes sh)"
      using active_change [of k sh "\<lambda>n. n\<lparr>fn_active := False\<rparr>"] k by simp
    ultimately have "shared_ok ?sh' (if fn_active (fs_nodes sh ! k) then C_Count t else C_Unlock t ON9LOG_OK)"
      using k C_Exchange
      by (cases "fn_active (fs_nodes sh ! k)"; intro shared_ok_change [OF inv]) (simp_all del: writer_ok.simps(12))
    then show ?thesis using C_Exchange act by (auto split: if_splits)
  next
    case (S_Calloc t l)
    then have "dangles_at None (fs_nodes sh @ [\<lparr>fn_tag = Some t, fn_level = l, fn_active = True, fn_readers = 0\<rparr>])"
      using inv by (auto simp: shared_ok_def dangles_at_def nth_append less_Suc_eq)
    then show ?thesis using S_Calloc act inv w
      by (auto simp: shared_ok_def unique_tags_append active_nodes_def split: if_splits)
  next
    case (S_Count t l)
    then have "active_nodes (fs_nodes sh) > 0" using w active_nodes_pos by auto
    then show ?thesis using S_Count act inv by (auto simp: shared_ok_def of_nat_diff)
  next
    case (S_Link t l)
    then have "active_nodes (fs_nodes sh) > 0"
      using w active_nodes_pos [of "length (fs_nodes sh) - 1" "fs_nodes sh"] by (auto simp: last_conv_nth)
    then show ?thesis using S_Link act inv by (auto simp: shared_ok_def of_nat_diff)
  qed (use assms in \<open>auto simp: shared_ok_def split: if_splits\<close>)
qed

lemma no_lock_same:
  assumes "thread_act ok i sh pc = Some (sh', pc')" and "\<not> holds_lock pc"
  shows "same_nodes sh sh'"
proof (cases "lookup_tag pc")
  case None
  then show ?thesis using assms
    by (cases pc) (auto simp: same_nodes_def split: if_splits option.splits)
qed (use assms(1) lookup_act_same in blast)

lemma act_shared:
  assumes act: "thread_act ok i sh pc = Some (sh', pc')" and inv: "shared_ok sh h"
    and h: "holds_lock pc \<Longrightarrow> h = pc" "fs_lock sh = None \<Longrightarrow> h = Idle"
  shows "shared_ok sh' (next_holder h pc pc')"
proof (cases "holds_lock pc")
  case True
  then show ?thesis using act_shared_writer [OF act] inv h(1) by (cases "holds_lock pc'") (auto simp: next_holder_def)
next
  case False
  show ?thesis
  proof (cases "holds_lock pc'")
    case True
    then consider t l where "pc = S_Lock t l" | t l where "pc = S_Relock t l" | t where "pc = C_Lock t"
      using act False by (cases pc) (auto split: if_splits option.splits)
    then show ?thesis
      using act h(2) inv True shared_ok_enters [of sh i]
      by cases (auto simp: next_holder_def split: option.splits)
  next
    case False
    then show ?thesis using shared_ok_same [OF no_lock_same [OF act] inv] \<open>\<not> holds_lock pc\<close>
      by (simp add: next_holder_def)
  qed
qed

lemma lookup_ok_while [simp]: "lookup_ok sh h (while_node t k) \<longleftrightarrow> k = 0 \<or> k \<le> fs_head sh"
  by (cases k) auto

lemma replaces_tag_inactive: "shared_ok sh h \<Longrightarrow> replaces_tag h k \<Longrightarrow> k < length (fs_nodes sh) \<and> \<not> fn_active (fs_nodes sh ! k)"
  by (cases h) (auto simp: shared_ok_def)

lemma act_own:
  assumes act: "thread_act ok i sh pc = Some (sh', pc')" and inv: "shared_ok sh h" and own: "lookup_ok sh h pc"
  shows "lookup_ok sh' (next_holder h pc pc') pc'"
proof (cases "lookup_tag pc")
  case (Some t)
  have h: "next_holder h pc pc' = h" using lookup_no_lock [OF act Some] by (simp add: next_holder_def)
  have "fs_head sh \<le> length (fs_nodes sh)" using inv by (simp add: shared_ok_def)
  then show ?thesis using act own h Some replaces_tag_inactive [OF inv]
    by (cases pc) (auto split: option.splits)
next
  case None
  then show ?thesis using act
    by (cases pc) (auto simp: if_found_def reuse_or_insert_def split: if_splits option.splits)
qed

text \<open>What a lookup of another thread relies on is not touched: a writer that replaces a tag has seen no reader.\<close>

lemma lookup_ok_frame:
  assumes "lookup_ok sh h q" and "fs_head sh \<le> fs_head sh'"
    and "\<And>k. k < fs_head sh \<Longrightarrow> reads_tag q k \<Longrightarrow> \<not> replaces_tag h' k \<and> fn_tag (fs_nodes sh' ! k) = fn_tag (fs_nodes sh ! k)"
  shows "lookup_ok sh' h' q"
  using assms by (cases q) auto

lemma act_keeps_tag:
  assumes act: "thread_act ok i sh pc = Some (sh', pc')" and inv: "shared_ok sh h"
    and h: "holds_lock pc \<Longrightarrow> h = pc"
    and q: "lookup_ok sh h q" and readers: "\<And>k. k < length (fs_nodes sh) \<Longrightarrow> fn_readers (fs_nodes sh ! k) = 0 \<Longrightarrow> \<not> visits q k"
    and k: "k < fs_head sh" and r: "reads_tag q k"
  shows "\<not> replaces_tag (next_holder h pc pc') k \<and> fn_tag (fs_nodes sh' ! k) = fn_tag (fs_nodes sh ! k)"
proof -
  have head: "fs_head sh + unpublished h = length (fs_nodes sh)" using inv by (simp add: shared_ok_def)
  have free: "\<not> replaces_tag h k" using q r by (cases q) auto
  have "visits q k" using r by (cases q) auto
  then have some: "fn_readers (fs_nodes sh ! k) \<noteq> 0" using readers [of k] k head by auto
  show ?thesis
  proof (cases "holds_lock pc")
    case True
    then show ?thesis using act h free some k head
      by (cases pc) (auto simp: next_holder_def nth_append split: if_splits)
  next
    case False
    then show ?thesis using act free k head
      by (cases pc) (auto simp: next_holder_def if_found_def reuse_or_insert_def split: if_splits option.splits)
  qed
qed

lemma act_others:
  assumes act: "thread_act ok i sh pc = Some (sh', pc')" and inv: "shared_ok sh h"
    and h: "holds_lock pc \<Longrightarrow> h = pc"
    and q: "lookup_ok sh h q" and readers: "\<And>k. k < length (fs_nodes sh) \<Longrightarrow> fn_readers (fs_nodes sh ! k) = 0 \<Longrightarrow> \<not> visits q k"
  shows "lookup_ok sh' (next_holder h pc pc') q"
proof (rule lookup_ok_frame [OF q])
  have "fs_head sh + unpublished h = length (fs_nodes sh)" using inv by (simp add: shared_ok_def)
  then show "fs_head sh \<le> fs_head sh'" using act by (cases pc) (auto split: if_splits)
qed (rule act_keeps_tag [OF act inv h q readers])

lemma holder_act:
  assumes inv: "\<forall>j. holds_lock (ft_pcs s j) \<longleftrightarrow> fs_lock (ft_shared s) = Some j"
    and act: "thread_act ok i (ft_shared s) (ft_pcs s i) = Some (sh', pc')"
  shows "holder (thread_goes i (sh', pc') s) = next_holder (holder s) (ft_pcs s i) pc'"
proof -
  note lock = act_lock [OF act inv [rule_format, of i]]
  show ?thesis
  proof (cases "fs_lock sh'")
    case None
    then have pc': "\<not> holds_lock pc'" using lock by simp
    show ?thesis
    proof (cases "fs_lock (ft_shared s)")
      case None
      then have "\<not> holds_lock (ft_pcs s i)" using inv by simp
      then show ?thesis using None \<open>fs_lock sh' = None\<close> pc' by (simp add: holder_def thread_goes_def next_holder_def)
    next
      case (Some j)
      then have "j = i" using lock [of j] None by (cases "j = i") simp_all
      then have "holds_lock (ft_pcs s i)" using inv Some by simp
      then show ?thesis using None pc' by (simp add: holder_def thread_goes_def next_holder_def)
    qed
  next
    case (Some j)
    show ?thesis
    proof (cases "j = i")
      case True
      then have "holds_lock pc'" using lock Some by simp
      then show ?thesis using Some True by (simp add: holder_def thread_goes_def next_holder_def)
    next
      case False
      then have j: "fs_lock (ft_shared s) = Some j" "\<not> holds_lock pc'" using lock [of j] Some by simp_all
      then have "\<not> holds_lock (ft_pcs s i)" using inv [rule_format, of i] False by simp
      then show ?thesis using j Some False by (simp add: holder_def thread_goes_def next_holder_def)
    qed
  qed
qed

lemma filter_inv_enter:
  assumes inv: "filter_inv n s" and "i < n" and "ft_pcs s i = Idle"
  shows "filter_inv n (s\<lparr>ft_pcs := (ft_pcs s)(i := enter_call c), ft_calls := cs\<rparr>)" (is "filter_inv n ?s'")
proof -
  have "fs_lock (ft_shared s) \<noteq> Some i" using inv assms(3) by (metis filter_inv_def holds_lock.simps(16))
  then have "holder ?s' = holder s" by (auto simp: holder_def split: option.split)
  moreover have "visitors n (ft_pcs ?s') k = visitors n (ft_pcs s) k" for k
    using assms(2,3) by (simp add: visitors_same)
  ultimately show ?thesis using inv assms(2) \<open>fs_lock (ft_shared s) \<noteq> Some i\<close> by (simp add: filter_inv_def)
qed

lemma inv_no_visitor:
  assumes "filter_inv n s" and "k < length (fs_nodes (ft_shared s))" and "fn_readers (fs_nodes (ft_shared s) ! k) = 0"
  shows "\<not> visits (ft_pcs s j) k"
proof -
  have "unat (word_of_nat (visitors n (ft_pcs s) k) :: u32) = visitors n (ft_pcs s) k"
    using visitors_le [of n "ft_pcs s" k] assms(1) by (simp add: unat_of_nat filter_inv_def)
  then have "visitors n (ft_pcs s) k = 0" using assms by (simp add: filter_inv_def)
  then show ?thesis using visitors_0D [of n "ft_pcs s" k j] assms(1) by (cases "j < n") (auto simp: filter_inv_def)
qed

lemma filter_inv_act:
  assumes inv: "filter_inv n s" and i: "i < n"
    and act: "thread_act ok i (ft_shared s) (ft_pcs s i) = Some (sh', pc')"
  shows "filter_inv n (thread_goes i (sh', pc') s)" (is "filter_inv n ?s'")
proof -
  let ?sh = "ft_shared s" and ?pc = "ft_pcs s i" and ?h = "holder s"
  have lock: "\<forall>j. holds_lock (ft_pcs s j) \<longleftrightarrow> fs_lock ?sh = Some j" and sh: "shared_ok ?sh ?h"
    and readers: "\<And>k. k < length (fs_nodes ?sh) \<Longrightarrow> fn_readers (fs_nodes ?sh ! k) = word_of_nat (visitors n (ft_pcs s) k)"
    and own: "\<And>j. lookup_ok ?sh ?h (ft_pcs s j)" and n: "n < 2 ^ 32" "\<forall>j \<ge> n. ft_pcs s j = Idle"
    using inv by (simp_all add: filter_inv_def)
  have h: "holds_lock ?pc \<Longrightarrow> ?h = ?pc" "fs_lock ?sh = None \<Longrightarrow> ?h = Idle"
    using lock by (simp_all add: holder_def)
  have s': "ft_shared ?s' = sh'" "ft_pcs ?s' = (ft_pcs s)(i := pc')" by (simp_all add: thread_goes_def)
  have h': "holder ?s' = next_holder ?h ?pc pc'" using holder_act [OF lock act] .
  have head: "fs_head ?sh \<le> length (fs_nodes ?sh)" using sh by (simp add: shared_ok_def)
  have idle: "\<not> visits (ft_pcs s j) k" if "k < length (fs_nodes ?sh)" "fn_readers (fs_nodes ?sh ! k) = 0" for j k
    using inv_no_visitor [OF inv that] .
  have "lookup_ok sh' (next_holder ?h ?pc pc') (((ft_pcs s)(i := pc')) j)" for j
  proof (cases "j = i")
    case True
    then show ?thesis using act_own [OF act sh own [of i]] by simp
  next
    case False
    have "lookup_ok sh' (next_holder ?h ?pc pc') (ft_pcs s j)"
      by (rule act_others [OF act sh h(1) own]) (assumption, rule idle)
    then show ?thesis using False by simp
  qed
  moreover have "fn_readers (fs_nodes sh' ! k) = word_of_nat (visitors n ((ft_pcs s)(i := pc')) k)"
    if k: "k < length (fs_nodes sh')" for k
  proof (cases "k < length (fs_nodes ?sh)")
    case True
    have "fn_readers (fs_nodes sh' ! k) + of_bool (visits ?pc k) = fn_readers (fs_nodes ?sh ! k) + of_bool (visits pc' k)"
      by (rule act_readers [OF act own head True])
    also have "\<dots> = word_of_nat (visitors n (ft_pcs s) k + (if visits pc' k then 1 else 0))"
      using readers [OF True] by simp
    also have "\<dots> = word_of_nat (visitors n ((ft_pcs s)(i := pc')) k) + of_bool (visits ?pc k)"
      by (subst visitors_upd [OF i, symmetric]) simp
    finally show ?thesis by simp
  next
    case False
    have "\<not> visits (ft_pcs s j) k" for j using own [of j] False head by (cases "ft_pcs s j") auto
    then have none: "visitors n (ft_pcs s) k = 0" by (simp add: visitors_def)
    have "fn_readers (fs_nodes sh' ! k) = 0 \<and> \<not> visits pc' k"
      using act k False by (cases ?pc) (auto simp: nth_append split: if_splits option.splits)
    then show ?thesis using none visitors_upd [OF i, of "ft_pcs s" pc' k] by (auto split: if_splits)
  qed
  moreover have "holds_lock (((ft_pcs s)(i := pc')) j) \<longleftrightarrow> fs_lock sh' = Some j" for j
    using act_lock [OF act lock [rule_format, of i], of j] lock by (cases "j = i") auto
  moreover have "shared_ok sh' (next_holder ?h ?pc pc')" using act_shared [OF act sh h] .
  ultimately show ?thesis using n i by (simp add: filter_inv_def s' h')
qed

lemma filter_inv_step: "filter_inv n s \<Longrightarrow> filter_step n i s s' \<Longrightarrow> filter_inv n s'"
  by (erule filter_step.cases) (auto intro: filter_inv_enter filter_inv_act)

lemma filter_reachable_inv: "filter_reachable n s \<Longrightarrow> filter_inv n s"
proof (induction rule: filter_reachable.induct)
  case (start l calls)
  then show ?case
    by (simp add: filter_inv_def filter_start_def shared_ok_def unique_tags_def dangles_at_def holder_def active_nodes_def)
qed (rule filter_inv_step)

end
