(* ===== verification/FilterTasksMap.thy ===== *)
theory FilterTasksMap
  imports FilterTasksInv
begin

text \<open>
  The map the filter list stands for while threads change it: each change takes effect in one step,
  and is the change FilterSpec has for the call.
\<close>

section \<open>The map\<close>

lemma node_in_force_frame [simp]:
  "node_in_force (sh\<lparr>fs_lock := x\<rparr>) = node_in_force sh" "node_in_force (sh\<lparr>fs_count := c\<rparr>) = node_in_force sh"
  "node_in_force (sh\<lparr>fs_default := d\<rparr>) = node_in_force sh"
  by (simp_all add: node_in_force_def fun_eq_iff)

lemma tag_map_frame [simp]:
  "tag_level (sh\<lparr>fs_lock := x\<rparr>) = tag_level sh" "tag_level (sh\<lparr>fs_count := c\<rparr>) = tag_level sh"
  "tag_level (sh\<lparr>fs_default := d\<rparr>) = tag_level sh"
  by (simp_all add: tag_level_def fun_eq_iff)

lemma tag_level_None: "tag_level sh t = None \<longleftrightarrow> (\<forall>k. \<not> node_in_force sh t k)"
  by (auto simp: tag_level_def find_None_iff node_in_force_def)

lemma in_force_unique:
  assumes "shared_ok sh h" and "node_in_force sh t j" and "node_in_force sh t k"
  shows "j = k"
proof -
  have "fs_head sh \<le> length (fs_nodes sh)" using assms(1) by (simp add: shared_ok_def)
  then show ?thesis using assms by (auto simp: shared_ok_def unique_tags_def node_in_force_def)
qed

lemma tag_level_Some:
  assumes "shared_ok sh h" and "node_in_force sh t k"
  shows "tag_level sh t = Some (fn_level (fs_nodes sh ! k))"
proof -
  obtain j where j: "find (node_in_force sh t) [0..<fs_head sh] = Some j"
    using assms(2) by (cases "find (node_in_force sh t) [0..<fs_head sh]") (auto simp: find_None_iff node_in_force_def)
  then have "node_in_force sh t j" by (auto simp: find_Some_iff)
  then show ?thesis using in_force_unique [OF assms(1) _ assms(2), of j] j by (simp add: tag_level_def)
qed

lemma tag_level_in_force:
  assumes "shared_ok sh h"
  shows "tag_level sh t = Some l \<longleftrightarrow> (\<exists>k. node_in_force sh t k \<and> fn_level (fs_nodes sh ! k) = l)"
  using tag_level_Some [OF assms] tag_level_None [of sh t] by (metis option.distinct(1) option.inject)

text \<open>Two states with the same nodes in force have the same map.\<close>

lemma tag_level_cong:
  assumes "shared_ok sh h" and "shared_ok sh' h'"
    and "\<And>k. node_in_force sh' t k \<longleftrightarrow> node_in_force sh t k"
    and "\<And>k. node_in_force sh t k \<Longrightarrow> fn_level (fs_nodes sh' ! k) = fn_level (fs_nodes sh ! k)"
  shows "tag_level sh' t = tag_level sh t"
proof (cases "\<exists>k. node_in_force sh t k")
  case True
  then obtain k where "node_in_force sh t k" by blast
  then show ?thesis using tag_level_Some [OF assms(1), of t k] tag_level_Some [OF assms(2), of t k] assms(3,4) by simp
next
  case False
  then show ?thesis using assms(3) by (metis tag_level_None)
qed

lemma tag_level_same: "same_nodes sh sh' \<Longrightarrow> shared_ok sh h \<Longrightarrow> tag_level sh' t = tag_level sh t"
proof -
  assume same: "same_nodes sh sh'" and ok: "shared_ok sh h"
  have head: "fs_head sh \<le> length (fs_nodes sh)" using ok by (simp add: shared_ok_def)
  show ?thesis
  proof (rule tag_level_cong [OF ok shared_ok_same [OF same ok]])
    show "node_in_force sh' t k \<longleftrightarrow> node_in_force sh t k" for k
      using same_nodesD [OF same] head by (auto simp: node_in_force_def)
    show "node_in_force sh t k \<Longrightarrow> fn_level (fs_nodes sh' ! k) = fn_level (fs_nodes sh ! k)" for k
      using same_nodesD(4) [OF same, of k] head by (simp add: node_in_force_def)
  qed
qed

text \<open>The step of a change that lookups see.\<close>

fun effect_of :: "filter_shared \<Rightarrow> filter_pc \<Rightarrow> bytes level_op option" where
  "effect_of sh (S_Update t l k) = (if fn_active (fs_nodes sh ! k) then Some (Set_Tag t l) else None)"
| "effect_of sh (S_Activate t l k) = Some (Set_Tag t l)"
| "effect_of sh (S_Publish t l) = Some (Set_Tag t l)"
| "effect_of sh (C_Exchange t k) = Some (Clear_Tag t)"
| "effect_of sh (D_Store l) = Some (Set_Default l)"
| "effect_of sh pc = None"

lemma in_force_change:
  assumes "k < fs_head sh" and "fs_head sh \<le> length (fs_nodes sh)"
  shows "node_in_force (change_node k f sh) u j \<longleftrightarrow>
    (if j = k then fn_active (f (fs_nodes sh ! k)) \<and> fn_tag (f (fs_nodes sh ! k)) = Some u else node_in_force sh u j)"
  using assms by (auto simp: node_in_force_def)

lemma tag_level_change:
  assumes ok: "shared_ok sh h" and ok': "shared_ok (change_node k f sh) h'" and k: "k < fs_head sh"
  shows "tag_level (change_node k f sh) u =
    (if fn_active (f (fs_nodes sh ! k)) \<and> fn_tag (f (fs_nodes sh ! k)) = Some u then Some (fn_level (f (fs_nodes sh ! k)))
     else if node_in_force sh u k then None else tag_level sh u)"
proof -
  have head: "fs_head sh \<le> length (fs_nodes sh)" using ok by (simp add: shared_ok_def)
  note force = in_force_change [OF k head, of f u]
  consider (new) "fn_active (f (fs_nodes sh ! k))" "fn_tag (f (fs_nodes sh ! k)) = Some u"
    | (gone) "\<not> (fn_active (f (fs_nodes sh ! k)) \<and> fn_tag (f (fs_nodes sh ! k)) = Some u)" "node_in_force sh u k"
    | (other) "\<not> (fn_active (f (fs_nodes sh ! k)) \<and> fn_tag (f (fs_nodes sh ! k)) = Some u)" "\<not> node_in_force sh u k"
    by blast
  then show ?thesis
  proof cases
    case new
    then show ?thesis using tag_level_Some [OF ok', of u k] force k head by simp
  next
    case gone
    have "\<not> node_in_force (change_node k f sh) u j" for j
      using gone(1) force [of j] in_force_unique [OF ok gone(2), of j] by (cases "j = k") auto
    then show ?thesis using gone tag_level_None [of "change_node k f sh" u] by simp
  next
    case other
    have "tag_level (change_node k f sh) u = tag_level sh u"
    proof (rule tag_level_cong [OF ok ok'])
      fix j
      show "node_in_force (change_node k f sh) u j \<longleftrightarrow> node_in_force sh u j" using other force [of j] by (cases "j = k") simp_all
      show "node_in_force sh u j \<Longrightarrow> fn_level (fs_nodes (change_node k f sh) ! j) = fn_level (fs_nodes sh ! j)"
        using other(2) head by (cases "j = k") (simp_all add: node_in_force_def)
    qed
    then show ?thesis using other by auto
  qed
qed

lemma tag_level_new_head:
  assumes ok: "shared_ok sh (S_Publish t l)" and ok': "shared_ok (sh\<lparr>fs_head := length (fs_nodes sh)\<rparr>) h'"
  shows "tag_level (sh\<lparr>fs_head := length (fs_nodes sh)\<rparr>) = (tag_level sh)(t \<mapsto> l)"
proof
  fix u
  let ?sh' = "sh\<lparr>fs_head := length (fs_nodes sh)\<rparr>" and ?k = "length (fs_nodes sh) - 1"
  have head: "fs_head sh = ?k" "fs_nodes sh \<noteq> []" using ok by (auto simp: shared_ok_def)
  have new: "fn_active (fs_nodes sh ! ?k)" "fn_tag (fs_nodes sh ! ?k) = Some t" "fn_level (fs_nodes sh ! ?k) = l"
    using shared_ok_writer [OF ok] last_conv_nth [OF head(2)] by simp_all
  have force: "node_in_force ?sh' u j \<longleftrightarrow> node_in_force sh u j \<or> j = ?k \<and> u = t" for j
    using head(1) new length_greater_0_conv [of "fs_nodes sh"] head(2)
    by (cases "j = ?k") (auto simp: node_in_force_def)
  show "tag_level ?sh' u = ((tag_level sh)(t \<mapsto> l)) u"
  proof (cases "u = t")
    case True
    then show ?thesis using tag_level_Some [OF ok', of t ?k] force [of ?k] new by simp
  next
    case False
    then show ?thesis using tag_level_cong [OF ok ok', of u] force by simp
  qed
qed

lemma tag_level_append:
  assumes "shared_ok sh h" and "shared_ok (sh\<lparr>fs_nodes := fs_nodes sh @ [x]\<rparr>) h'"
  shows "tag_level (sh\<lparr>fs_nodes := fs_nodes sh @ [x]\<rparr>) = tag_level sh"
proof
  have "fs_head sh \<le> length (fs_nodes sh)" using assms(1) by (simp add: shared_ok_def)
  then show "tag_level (sh\<lparr>fs_nodes := fs_nodes sh @ [x]\<rparr>) u = tag_level sh u" for u
    by (intro tag_level_cong [OF assms]) (auto simp: node_in_force_def nth_append)
qed

lemma not_in_force:
  assumes "shared_ok sh h" and "k < fs_head sh" and "fn_tag (fs_nodes sh ! k) = Some t" and "\<not> fn_active (fs_nodes sh ! k)"
  shows "tag_level sh t = None"
proof -
  have "\<not> node_in_force sh t j" for j
  proof
    assume j: "node_in_force sh t j"
    have "fs_head sh \<le> length (fs_nodes sh)" "unique_tags (fs_nodes sh)" using assms(1) by (simp_all add: shared_ok_def)
    then have "j = k" using assms(2,3) j unfolding unique_tags_def node_in_force_def by (meson less_le_trans)
    then show False using j assms(4) by (simp add: node_in_force_def)
  qed
  then show ?thesis by (simp add: tag_level_None)
qed

lemma in_force_iff: "k < fs_head sh \<Longrightarrow> fn_tag (fs_nodes sh ! k) = Some t \<Longrightarrow>
    node_in_force sh u k \<longleftrightarrow> fn_active (fs_nodes sh ! k) \<and> u = t"
  by (auto simp: node_in_force_def)

lemma act_refines_writer:
  assumes act: "thread_act ok i sh pc = Some (sh', pc')" and inv: "shared_ok sh pc" and hold: "holds_lock pc"
    and ok': "shared_ok sh' h'"
  shows "tag_level sh' = (case effect_of sh pc of
      Some (Set_Tag t l) \<Rightarrow> (tag_level sh)(t \<mapsto> l) | Some (Clear_Tag t) \<Rightarrow> (tag_level sh)(t := None) | _ \<Rightarrow> tag_level sh)"
proof -
  note w = shared_ok_writer [OF inv]
  have head: "unpublished pc = 0 \<Longrightarrow> fs_head sh = length (fs_nodes sh)" using inv by (simp add: shared_ok_def)
  note change = tag_level_change [OF inv]
  show ?thesis
  proof (cases pc)
    case (S_Update t l k)
    then show ?thesis using act w head change [of k "\<lambda>n. n\<lparr>fn_level := l\<rparr>" h'] ok' in_force_iff [of k sh t]
      by (auto simp: fun_eq_iff)
  next
    case (S_Free t l k)
    then show ?thesis using act w head change [of k "\<lambda>n. n\<lparr>fn_tag := None\<rparr>" h'] ok'
      by (auto simp: fun_eq_iff node_in_force_def)
  next
    case (S_Tag t l k)
    then show ?thesis using act w head change [of k "\<lambda>n. n\<lparr>fn_tag := Some t\<rparr>" h'] ok'
      by (auto simp: fun_eq_iff node_in_force_def)
  next
    case (S_Level t l k)
    then show ?thesis using act w head change [of k "\<lambda>n. n\<lparr>fn_level := l\<rparr>" h'] ok'
      by (auto simp: fun_eq_iff node_in_force_def)
  next
    case (S_Activate t l k)
    then show ?thesis using act w head change [of k "\<lambda>n. n\<lparr>fn_active := True\<rparr>" h'] ok'
      by (auto simp: fun_eq_iff node_in_force_def)
  next
    case (C_Exchange t k)
    then show ?thesis using act w head change [of k "\<lambda>n. n\<lparr>fn_active := False\<rparr>" h'] ok' in_force_iff [of k sh t]
        not_in_force [OF inv, of k t]
      by (auto simp: fun_eq_iff)
  next
    case (S_Calloc t l)
    then show ?thesis using act ok' tag_level_append [OF inv] by (auto split: if_splits)
  next
    case (S_Publish t l)
    then show ?thesis using act ok' tag_level_new_head [of sh t l h'] inv by auto
  next
    case (S_Wait t l k)
    then show ?thesis using act by (simp split: if_splits)
  qed (use act hold in auto)
qed

lemma act_refines:
  assumes act: "thread_act ok i sh pc = Some (sh', pc')" and inv: "shared_ok sh h"
    and h: "holds_lock pc \<Longrightarrow> h = pc" "fs_lock sh = None \<Longrightarrow> h = Idle"
  shows "shared_spec sh' = (case effect_of sh pc of None \<Rightarrow> shared_spec sh | Some op \<Rightarrow> spec_op op (shared_spec sh))"
proof -
  have default: "fs_default sh' = (case pc of D_Store l \<Rightarrow> l | _ \<Rightarrow> fs_default sh)"
    using act by (cases pc) (auto split: if_splits option.splits)
  show ?thesis
  proof (cases "holds_lock pc")
    case True
    then have "shared_ok sh pc" using inv h(1) by simp
    then show ?thesis using act_refines_writer [OF act _ True act_shared [OF act inv h]] default True
      by (cases pc) (auto simp: shared_spec_def)
  next
    case False
    have "tag_level sh' = tag_level sh" using tag_level_same [OF no_lock_same [OF act False] inv] by blast
    then show ?thesis using default False by (cases pc) (auto simp: shared_spec_def)
  qed
qed

lemma effect_of_pending: "effect_of sh pc = Some op \<Longrightarrow> pending_op pc = Some op"
  by (cases pc) (auto split: if_splits)

lemma act_completes:
  assumes act: "thread_act ok i sh pc = Some (sh', pc')" and inv: "shared_ok sh h"
    and h: "holds_lock pc \<Longrightarrow> h = pc" "fs_lock sh = None \<Longrightarrow> h = Idle"
  shows "(\<forall>t l. pc' = S_Unlock t l ON9LOG_OK \<longrightarrow> tag_level sh' t = Some l) \<and> (\<forall>t err. pc' = C_Unlock t err \<longrightarrow> tag_level sh' t = None)"
proof (cases "holds_lock pc")
  case True
  then have pc: "shared_ok sh pc" using inv h(1) by simp
  note refine = act_refines_writer [OF act pc True act_shared [OF act inv h]]
  show ?thesis
  proof (cases pc)
    case (S_Count t l)
    then obtain k where "k < length (fs_nodes sh)" "node_in_force sh t k" "fn_level (fs_nodes sh ! k) = l"
      using shared_ok_writer [OF pc] pc by (auto simp: node_in_force_def shared_ok_def)
    then show ?thesis using S_Count act tag_level_Some [OF pc, of t k] by auto
  next
    case (C_Count t)
    then have "\<not> node_in_force sh t k" for k
      using shared_ok_writer [OF pc] pc by (auto simp: node_in_force_def shared_ok_def)
    then show ?thesis using C_Count act tag_level_None [of sh t] by auto
  qed (use act refine True in \<open>auto split: if_splits\<close>)
next
  case False
  have "node_of t (fs_nodes sh) = None \<Longrightarrow> tag_level sh t = None" for t
    using node_of_None [of t "fs_nodes sh"] inv tag_level_None [of sh t] by (auto simp: tag_free_def node_in_force_def shared_ok_def)
  then show ?thesis using act False
    by (cases pc) (auto simp: if_found_def reuse_or_insert_def while_node_cases split: if_splits option.splits)
qed

lemma inv_holder:
  assumes "filter_inv n s"
  shows "shared_ok (ft_shared s) (holder s)" "holds_lock (ft_pcs s i) \<Longrightarrow> holder s = ft_pcs s i"
    "fs_lock (ft_shared s) = None \<Longrightarrow> holder s = Idle"
  using assms by (simp_all add: filter_inv_def holder_def)

lemma ls_shared_spec: "ls_overrides (shared_spec sh) = tag_level sh" "ls_default (shared_spec sh) = fs_default sh"
  by (simp_all add: shared_spec_def)

lemma filter_step_refines:
  assumes inv: "filter_inv n s" and "filter_step n i s s'"
  shows "(shared_spec (ft_shared s') = shared_spec (ft_shared s) \<or>
      (\<exists>op. pending_op (ft_pcs s i) = Some op \<and> shared_spec (ft_shared s') = spec_op op (shared_spec (ft_shared s)))) \<and>
    (\<forall>t l. ft_pcs s' i = S_Unlock t l ON9LOG_OK \<longrightarrow> tag_level (ft_shared s') t = Some l) \<and>
    (\<forall>t err. ft_pcs s' i = C_Unlock t err \<longrightarrow> tag_level (ft_shared s') t = None)"
  using assms(2)
proof cases
  case (enter c cs)
  then show ?thesis by (cases c rule: enter_call.cases) simp_all
next
  case (act ok r)
  obtain sh' pc' where r: "r = (sh', pc')" by (cases r)
  have step: "thread_act ok i (ft_shared s) (ft_pcs s i) = Some (sh', pc')" using act r by simp
  note facts = inv_holder(1) [OF inv] inv_holder(2) [OF inv, of i] inv_holder(3) [OF inv]
  have s': "ft_shared s' = sh'" "ft_pcs s' i = pc'" using act r by (simp_all add: thread_goes_def)
  have "shared_spec sh' = shared_spec (ft_shared s) \<or>
      (\<exists>op. pending_op (ft_pcs s i) = Some op \<and> shared_spec sh' = spec_op op (shared_spec (ft_shared s)))"
    using act_refines [OF step facts] effect_of_pending [of "ft_shared s" "ft_pcs s i"] by (auto split: option.splits)
  moreover note act_completes [OF step facts]
  ultimately show ?thesis unfolding s' by blast
qed

text \<open>C38: Writers of tag filters refine the abstract map whatever lookups and other writers run: a step
  of a thread leaves the map as it is or performs the change the thread was called for, all at once; when
  a call that sets a level is about to return success, the map has the level, and when one that
  clears a level is about to return, the map has none.\<close>

theorem filter_writers_refine_map:
  assumes "filter_reachable n s" and "filter_step n i s s'"
  shows "(shared_spec (ft_shared s') = shared_spec (ft_shared s) \<or>
      (\<exists>op. pending_op (ft_pcs s i) = Some op \<and> shared_spec (ft_shared s') = spec_op op (shared_spec (ft_shared s)))) \<and>
    (\<forall>t l. ft_pcs s' i = S_Unlock t l ON9LOG_OK \<longrightarrow> tag_level (ft_shared s') t = Some l) \<and>
    (\<forall>t err. ft_pcs s' i = C_Unlock t err \<longrightarrow> tag_level (ft_shared s') t = None)"
  by (rule filter_step_refines [OF filter_reachable_inv [OF assms(1)] assms(2)])

end
