(* ===== verification/FilterTasksCorrect.thy ===== *)
theory FilterTasksCorrect
  imports FilterTasksMap
begin

text \<open>
  What a lookup finds among other threads, that every call of every thread returns, and a run of two
  threads.
\<close>

section \<open>Lookups\<close>

definition sets_tag :: "filter_tasks \<Rightarrow> bytes \<Rightarrow> on9log_level_t \<Rightarrow> bool" where
  "sets_tag s t l \<longleftrightarrow> (\<exists>j. pending_op (ft_pcs s j) = Some (Set_Tag t l))"

definition no_filter :: "filter_tasks \<Rightarrow> bytes \<Rightarrow> bool" where
  "no_filter s t \<longleftrightarrow> tag_level (ft_shared s) t = None \<or> (\<exists>l. sets_tag s t l)"

definition has_level :: "filter_tasks \<Rightarrow> bytes \<Rightarrow> on9log_level_t \<Rightarrow> bool" where
  "has_level s t l \<longleftrightarrow> tag_level (ft_shared s) t = Some l \<or> sets_tag s t l"

text \<open>A lookup that is to find node \<open>q\<close> still has it ahead.\<close>

fun reaches :: "filter_pc \<Rightarrow> nat \<Rightarrow> bool" where
  "reaches (L_Active t k) q = (q \<le> k)"
| "reaches (L_Add t k) q = (q \<le> k)"
| "reaches (L_Recheck t k) q = (q \<le> k)"
| "reaches (L_Compare t k) q = (q \<le> k)"
| "reaches (L_Level t k matches) q = (q < k \<or> q = k \<and> matches)"
| "reaches (L_Sub t k found) q = (found \<noteq> None \<or> q < k)"
| "reaches (L_Default t) q = False"
| "reaches (L_Return t found l) q = (found \<noteq> None)"
| "reaches pc q = True"

lemma in_force_step:
  assumes inv: "filter_inv n s" and step: "filter_step n j s s'" and q: "node_in_force (ft_shared s) t q"
  shows "node_in_force (ft_shared s') t q \<or> tag_level (ft_shared s') t = None"
  using step
proof cases
  case (enter c cs)
  then show ?thesis using q by simp
next
  case (act ok r)
  obtain sh' pc' where r: "r = (sh', pc')" by (cases r)
  have step: "thread_act ok j (ft_shared s) (ft_pcs s j) = Some (sh', pc')" and s': "ft_shared s' = sh'"
    using act r by (simp_all add: thread_goes_def)
  note ok = inv_holder(1) [OF inv] and hold = inv_holder(2) [OF inv, of j]
  have inv': "filter_inv n s'" using filter_inv_step [OF inv assms(2)] .
  have q': "q < length (fs_nodes (ft_shared s))" "fn_active (fs_nodes (ft_shared s) ! q)"
      "fn_tag (fs_nodes (ft_shared s) ! q) = Some t" "q < fs_head (ft_shared s)"
    using q ok by (auto simp: node_in_force_def shared_ok_def)
  show ?thesis
  proof (cases "holds_lock (ft_pcs s j)")
    case False
    note same = same_nodesD [OF no_lock_same [OF step False]]
    show ?thesis unfolding s' using q' same by (simp add: node_in_force_def)
  next
    case True
    note w = shared_ok_writer [OF ok, unfolded hold [OF True]]
    have head: "fs_head (ft_shared s) \<le> fs_head sh'"
      using step ok True hold by (cases "ft_pcs s j") (auto simp: shared_ok_def split: if_splits)
    show ?thesis
    proof (cases "\<exists>u. ft_pcs s j = C_Exchange u q")
      case True
      then have "ft_pcs s j = C_Exchange t q" using w q' by auto
      then have "ls_overrides (shared_spec sh') t = None"
        using act_refines [OF step ok hold inv_holder(3) [OF inv]] by simp
      then show ?thesis by (simp add: s' ls_shared_spec)
    next
      case False
      have "fn_active (fs_nodes sh' ! q) \<and> fn_tag (fs_nodes sh' ! q) = Some t"
        using step w False q' True by (cases "ft_pcs s j") (auto simp: nth_append split: if_splits)
      then show ?thesis unfolding s' using q' head by (simp add: node_in_force_def)
    qed
  qed
qed

text \<open>The level a lookup relies on or has found, and the default it returns, by what it has seen them hold.\<close>

fun found_ok :: "filter_shared \<Rightarrow> (on9log_level_t \<Rightarrow> bool) \<Rightarrow> (on9log_level_t \<Rightarrow> bool) \<Rightarrow> filter_pc \<Rightarrow> bool" where
  "found_ok sh hit def (L_Compare t k) = (fn_tag (fs_nodes sh ! k) = Some t \<longrightarrow> hit (fn_level (fs_nodes sh ! k)))"
| "found_ok sh hit def (L_Level t k matches) = (matches \<longrightarrow> hit (fn_level (fs_nodes sh ! k)))"
| "found_ok sh hit def (L_Sub t k found) = (\<forall>l. found = Some l \<longrightarrow> hit l)"
| "found_ok sh hit def (L_Return t found l) = (case found of None \<Rightarrow> def l | Some l' \<Rightarrow> l' = l \<and> hit l)"
| "found_ok sh hit def pc = True"

lemma found_ok_mono:
  "found_ok sh hit def pc \<Longrightarrow> (\<And>l. hit l \<Longrightarrow> hit' l) \<Longrightarrow> (\<And>l. def l \<Longrightarrow> def' l) \<Longrightarrow> found_ok sh hit' def' pc"
  by (cases pc) (auto split: option.splits)

definition lookup_inv :: "nat \<Rightarrow> bytes \<Rightarrow> filter_tasks list \<Rightarrow> filter_tasks \<Rightarrow> bool" where
  "lookup_inv i t ss s \<longleftrightarrow>
     ((\<exists>x \<in> set ss. no_filter x t) \<or> (\<exists>q. node_in_force (ft_shared s) t q \<and> reaches (ft_pcs s i) q)) \<and>
     found_ok (ft_shared s) (\<lambda>l. \<exists>x \<in> set ss. has_level x t l) (\<lambda>l. \<exists>x \<in> set ss. fs_default (ft_shared x) = l) (ft_pcs s i)"

lemma pending_holder: "pending_op (holder s) = Some op \<Longrightarrow> \<exists>j. pending_op (ft_pcs s j) = Some op"
  by (auto simp: holder_def split: option.splits)

text \<open>The fast path: no node is counted only if at most one is in force, whose tag is being set.\<close>

lemma uncounted_is_set:
  assumes inv: "filter_inv n s" and "fs_count (ft_shared s) = 0" and q: "node_in_force (ft_shared s) t q"
  shows "\<exists>l. sets_tag s t l"
proof -
  let ?ns = "fs_nodes (ft_shared s)"
  note ok = inv_holder(1) [OF inv]
  have len: "length ?ns < 2 ^ 32" and count: "word_of_nat (counted_nodes (holder s) (active_nodes ?ns)) = (0 :: u32)"
    using ok assms(2) by (simp_all add: shared_ok_def)
  have pos: "active_nodes ?ns > 0"
    using q ok active_nodes_pos [of q ?ns] by (auto simp: node_in_force_def shared_ok_def)
  have "counted_nodes (holder s) (active_nodes ?ns) \<le> length ?ns"
    using active_nodes_le [of ?ns] shared_ok_writer [OF ok] by (cases "holder s") auto
  then have "unat (word_of_nat (counted_nodes (holder s) (active_nodes ?ns)) :: u32) = counted_nodes (holder s) (active_nodes ?ns)"
    using len by (simp add: unat_of_nat)
  then have none: "counted_nodes (holder s) (active_nodes ?ns) = 0" using count by simp
  then have one: "active_nodes ?ns = 1" using pos by (cases "holder s") auto
  have q: "q < length ?ns" "fn_active (?ns ! q)" "fn_tag (?ns ! q) = Some t" "q < fs_head (ft_shared s)"
    using q ok by (auto simp: node_in_force_def shared_ok_def)
  have only: "k = q" if "k < length ?ns" "fn_active (?ns ! k)" for k
    using active_nodes_one [OF one that q(1,2)] .
  from none pos obtain u l where "holder s = S_Count u l \<or> holder s = S_Link u l" by (cases "holder s") auto
  then show ?thesis
  proof
    assume h: "holder s = S_Count u l"
    then obtain k where k: "k < length ?ns" "fn_active (?ns ! k)" "fn_tag (?ns ! k) = Some u"
      using shared_ok_writer [OF ok] by auto
    then have "u = t" using only [OF k(1,2)] q(3) by simp
    then show ?thesis using pending_holder [of s "Set_Tag t l"] h by (auto simp: sets_tag_def)
  next
    assume h: "holder s = S_Link u l"
    then have "?ns \<noteq> []" "fn_active (last ?ns)" using shared_ok_writer [OF ok] by simp_all
    then have "length ?ns - 1 = q" using only [of "length ?ns - 1"] by (simp add: last_conv_nth)
    moreover have "Suc (fs_head (ft_shared s)) = length ?ns" using h ok by (simp add: shared_ok_def)
    ultimately show ?thesis using q(4) by linarith
  qed
qed

lemma inv_tag:
  assumes "filter_inv n s" and "k < fs_head (ft_shared s)" and "\<not> replaces_tag (holder s) k"
  shows "fn_tag (fs_nodes (ft_shared s) ! k) \<noteq> None"
proof -
  have "dangling (holder s) \<noteq> Some k" using assms(3) by (cases "holder s") auto
  then show ?thesis using inv_holder(1) [OF assms(1)] assms(2) by (auto simp: shared_ok_def dangles_at_def)
qed

lemma found_ok_step:
  assumes "found_ok sh hit def pc"
    and "\<And>k. k < fs_head sh \<Longrightarrow> fn_active (fs_nodes sh ! k) \<Longrightarrow> fn_tag (fs_nodes sh ! k) = Some t \<Longrightarrow> hit (fn_level (fs_nodes sh ! k))"
    and "def (fs_default sh)"
    and "thread_act ok i sh pc = Some (sh', pc')" and "lookup_tag pc = Some t" and "lookup_ok sh h pc"
  shows "found_ok sh' hit def pc'"
  using assms by (cases pc) (auto simp: while_node_cases split: option.splits if_splits)

lemma reaches_step:
  assumes "node_in_force sh t q" and "reaches pc q" and "fs_count sh \<noteq> 0"
    and "thread_act ok i sh pc = Some (sh', pc')" and "lookup_tag pc = Some t" and "lookup_ok sh h pc"
  shows "reaches pc' q \<or> pc' = Idle"
proof -
  have "q < fs_head sh" "fn_active (fs_nodes sh ! q)" "fn_tag (fs_nodes sh ! q) = Some t"
    using assms(1) by (simp_all add: node_in_force_def)
  moreover have "q < k" if "q \<le> k" "\<not> fn_active (fs_nodes sh ! k)" for k
    using that \<open>fn_active (fs_nodes sh ! q)\<close> by (cases "q = k") auto
  moreover have "q \<le> k - 1" if "q < k" for k :: nat using that by simp
  ultimately show ?thesis
    using assms(2-) by (cases pc) (auto simp: while_node_cases split: option.splits if_splits)
qed

lemma lookup_step_own:
  assumes inv: "filter_inv n s" and pc: "lookup_tag pc = Some t" "ft_pcs s i = pc"
    and act: "thread_act ok i (ft_shared s) pc = Some (sh', pc')"
    and old: "lookup_inv i t ss s" and s: "s \<in> set ss" and s': "ft_shared s' = sh'" "ft_pcs s' i = pc'"
    and t': "lookup_tag pc' = Some t"
  shows "lookup_inv i t (ss @ [s']) s'"
proof -
  let ?sh = "ft_shared s"
  note same = same_nodesD [OF lookup_act_same [OF act pc(1)]]
  note ok = inv_holder(1) [OF inv]
  have own: "lookup_ok ?sh (holder s) pc" using inv pc(2) unfolding filter_inv_def by blast
  have head: "fs_head ?sh \<le> length (fs_nodes ?sh)" using ok by (simp add: shared_ok_def)
  have force: "node_in_force sh' t q \<longleftrightarrow> node_in_force ?sh t q" for q
    using same head by (auto simp: node_in_force_def)
  have default: "fs_default sh' = fs_default ?sh" using act pc(1) by (cases pc) (auto split: option.splits)
  let ?hit = "\<lambda>l. \<exists>x \<in> set ss. has_level x t l" and ?def = "\<lambda>l. \<exists>x \<in> set ss. fs_default (ft_shared x) = l"
  have "found_ok ?sh ?hit ?def pc" using old pc(2) by (simp add: lookup_inv_def)
  moreover have "?hit (fn_level (fs_nodes ?sh ! k))" if "k < fs_head ?sh" "fn_active (fs_nodes ?sh ! k)" "fn_tag (fs_nodes ?sh ! k) = Some t" for k
    using tag_level_Some [OF ok, of t k] that s by (auto simp: has_level_def node_in_force_def)
  moreover have "?def (fs_default ?sh)" using s by blast
  ultimately have "found_ok sh' ?hit ?def pc'"
    using act pc(1) own by (rule found_ok_step)
  then have found: "found_ok sh' (\<lambda>l. \<exists>x \<in> set (ss @ [s']). has_level x t l) (\<lambda>l. \<exists>x \<in> set (ss @ [s']). fs_default (ft_shared x) = l) pc'"
    by (rule found_ok_mono) auto
  show ?thesis
  proof (cases "\<exists>x \<in> set ss. no_filter x t")
    case True
    then show ?thesis using found s' by (auto simp: lookup_inv_def)
  next
    case False
    then obtain q where q: "node_in_force ?sh t q" "reaches pc q" using old pc(2) by (auto simp: lookup_inv_def)
    have "fs_count ?sh \<noteq> 0"
      using uncounted_is_set [OF inv _ q(1)] False s by (auto simp: no_filter_def)
    then have "reaches pc' q" using reaches_step [OF q _ act pc(1) own] t' by auto
    then show ?thesis using q(1) force found s' by (auto simp: lookup_inv_def)
  qed
qed

lemma level_change_is_set:
  assumes "thread_act ok j sh pc = Some (sh', pc')" and "k < length (fs_nodes sh)" and "writer_ok sh pc"
    and "fn_level (fs_nodes sh' ! k) \<noteq> fn_level (fs_nodes sh ! k)" and "fn_tag (fs_nodes sh ! k) = Some t"
  shows "pending_op pc = Some (Set_Tag t (fn_level (fs_nodes sh' ! k)))"
  using assms by (cases pc) (auto simp: nth_append split: if_splits option.splits)

lemma lookup_step_other:
  assumes inv: "filter_inv n s" and i: "i < n" and j: "j \<noteq> i" and step: "filter_step n j s s'"
    and old: "lookup_inv i t ss s" and s: "s \<in> set ss" and t: "lookup_tag (ft_pcs s i) = Some t"
  shows "lookup_inv i t (ss @ [s']) s'"
proof -
  let ?sh = "ft_shared s" and ?pc = "ft_pcs s i"
  let ?hit = "\<lambda>l. \<exists>x \<in> set ss. has_level x t l" and ?def = "\<lambda>l. \<exists>x \<in> set ss. fs_default (ft_shared x) = l"
  have pc: "ft_pcs s' i = ?pc" using step j by cases (auto simp: thread_goes_def)
  have own: "lookup_ok ?sh (holder s) ?pc" and own': "lookup_ok (ft_shared s') (holder s') ?pc"
    using inv filter_inv_step [OF inv step] pc unfolding filter_inv_def by metis+
  have head: "fs_head ?sh \<le> length (fs_nodes ?sh)" using inv_holder(1) [OF inv] by (simp add: shared_ok_def)
  have ahead: "\<exists>q. node_in_force (ft_shared s') t q \<and> reaches ?pc q"
    if "node_in_force ?sh t q" "reaches ?pc q" "\<not> no_filter s' t" for q
    using in_force_step [OF inv step that(1)] that(2,3) by (auto simp: no_filter_def)
  have level: "fn_level (fs_nodes (ft_shared s') ! k) = fn_level (fs_nodes ?sh ! k) \<or> ?hit (fn_level (fs_nodes (ft_shared s') ! k))"
    if k: "k < fs_head ?sh" "fn_tag (fs_nodes ?sh ! k) = Some t" for k
    using step
  proof cases
    case (enter c cs)
    then show ?thesis by simp
  next
    case (act ok r)
    obtain sh' pc' where r: "r = (sh', pc')" by (cases r)
    have a: "thread_act ok j ?sh (ft_pcs s j) = Some (sh', pc')" and s': "ft_shared s' = sh'"
      using act r by (simp_all add: thread_goes_def)
    show ?thesis
    proof (cases "holds_lock (ft_pcs s j)")
      case True
      have "writer_ok ?sh (ft_pcs s j)"
        using shared_ok_writer [OF inv_holder(1) [OF inv]] inv_holder(2) [OF inv True] by simp
      then show ?thesis
        using level_change_is_set [OF a _ _ _ k(2)] k(1) head s s' by (auto simp: has_level_def sets_tag_def)
    next
      case False
      then show ?thesis using same_nodesD(4) [OF no_lock_same [OF a False], of k] k head s' by simp
    qed
  qed
  have tag: "fn_tag (fs_nodes (ft_shared s') ! k) = fn_tag (fs_nodes ?sh ! k)" if k: "k < fs_head ?sh" "reads_tag ?pc k" for k
    using step
  proof cases
    case (act ok r)
    obtain sh' pc' where r: "r = (sh', pc')" by (cases r)
    have a: "thread_act ok j ?sh (ft_pcs s j) = Some (sh', pc')" and s': "ft_shared s' = sh'"
      using act r by (simp_all add: thread_goes_def)
    have "fn_tag (fs_nodes sh' ! k) = fn_tag (fs_nodes ?sh ! k)"
      by (rule act_keeps_tag [OF a inv_holder(1) [OF inv] inv_holder(2) [OF inv] own inv_no_visitor [OF inv] k, THEN conjunct2])
    then show ?thesis by (simp only: s')
  qed simp
  have keep: "?hit (fn_level (fs_nodes (ft_shared s') ! k))"
    if "k < fs_head ?sh" "fn_tag (fs_nodes ?sh ! k) = Some t" "?hit (fn_level (fs_nodes ?sh ! k))" for k
    using level [OF that(1,2)] that(3) by auto
  have "found_ok ?sh ?hit ?def ?pc" using old by (simp add: lookup_inv_def)
  then have "found_ok (ft_shared s') ?hit ?def ?pc"
    using t own keep tag by (cases ?pc) (auto split: option.splits)
  then have "found_ok (ft_shared s') (\<lambda>l. \<exists>x \<in> set (ss @ [s']). has_level x t l) (\<lambda>l. \<exists>x \<in> set (ss @ [s']). fs_default (ft_shared x) = l) ?pc"
    by (rule found_ok_mono) auto
  moreover have "(\<exists>x \<in> set (ss @ [s']). no_filter x t) \<or> (\<exists>q. node_in_force (ft_shared s') t q \<and> reaches ?pc q)"
    using old ahead by (auto simp: lookup_inv_def)
  ultimately show ?thesis by (simp add: lookup_inv_def pc)
qed

lemma lookup_run_inv:
  assumes "lookup_run n i t ss s"
  shows "filter_inv n s \<and> i < n \<and> s \<in> set ss \<and> lookup_tag (ft_pcs s i) = Some t \<and> lookup_inv i t ss s"
  using assms
proof (induction rule: lookup_run.induct)
  case (enters s)
  then show ?case using filter_reachable_inv [of n s]
    by (cases "tag_level (ft_shared s) t") (auto simp: lookup_inv_def no_filter_def tag_level_in_force [OF inv_holder(1)])
next
  case (goes_on ss s j s')
  then have inv: "filter_inv n s" and s: "s \<in> set ss" and i: "i < n" and t: "lookup_tag (ft_pcs s i) = Some t"
    and old: "lookup_inv i t ss s" by auto
  have "lookup_inv i t (ss @ [s']) s'"
  proof (cases "j = i")
    case True
    have "ft_pcs s i \<noteq> Idle" using t by auto
    then obtain ok r where act: "thread_act ok i (ft_shared s) (ft_pcs s i) = Some r" and s': "s' = thread_goes i r s"
      using goes_on.hyps(2) True by (auto elim: filter_step.cases)
    obtain sh' pc' where r: "r = (sh', pc')" by (cases r)
    show ?thesis
      using lookup_step_own [OF inv t refl, of ok sh' pc'] act s' r old s goes_on.hyps(3) by (simp add: thread_goes_def)
  next
    case False
    then show ?thesis using lookup_step_other [OF inv i _ goes_on.hyps(2) old s t] by blast
  qed
  then show ?case using filter_inv_step [OF inv goes_on.hyps(2)] i goes_on.hyps(3) by simp
qed

text \<open>What a lookup has found when it returns.\<close>

lemma lookup_run_result:
  assumes "lookup_run n i t ss s" and "ft_pcs s i = L_Return t found l"
  shows "case found of
      Some l' \<Rightarrow> l' = l \<and> (\<exists>x \<in> set ss. tag_level (ft_shared x) t = Some l \<or> sets_tag x t l)
    | None \<Rightarrow> (\<exists>x \<in> set ss. fs_default (ft_shared x) = l) \<and>
        (\<exists>x \<in> set ss. tag_level (ft_shared x) t = None \<or> (\<exists>l'. sets_tag x t l'))"
  using lookup_run_inv [OF assms(1)] assms(2)
  by (auto simp: lookup_inv_def has_level_def no_filter_def split: option.splits)

section \<open>Undisturbed lookups\<close>

primrec disturbs :: "bytes \<Rightarrow> bytes level_op \<Rightarrow> bool" where
  "disturbs t (Set_Tag u l) \<longleftrightarrow> u = t"
| "disturbs t (Clear_Tag u) \<longleftrightarrow> u = t"
| "disturbs t (Set_Default l) \<longleftrightarrow> True"

definition undisturbed :: "bytes \<Rightarrow> filter_tasks \<Rightarrow> bool" where
  "undisturbed t s \<longleftrightarrow> (\<forall>j op. pending_op (ft_pcs s j) = Some op \<longrightarrow> \<not> disturbs t op)"

lemma undisturbed_step:
  assumes "filter_inv n s" and "filter_step n j s s'" and "undisturbed t s"
  shows "tag_level (ft_shared s') t = tag_level (ft_shared s) t \<and> fs_default (ft_shared s') = fs_default (ft_shared s)"
proof -
  have "shared_spec (ft_shared s') = shared_spec (ft_shared s) \<or>
      (\<exists>op. pending_op (ft_pcs s j) = Some op \<and> shared_spec (ft_shared s') = spec_op op (shared_spec (ft_shared s)))"
    using filter_step_refines [OF assms(1,2)] by blast
  then show ?thesis
  proof
    assume "shared_spec (ft_shared s') = shared_spec (ft_shared s)"
    then show ?thesis by (simp add: shared_spec_def)
  next
    assume "\<exists>op. pending_op (ft_pcs s j) = Some op \<and> shared_spec (ft_shared s') = spec_op op (shared_spec (ft_shared s))"
    then obtain op where op: "pending_op (ft_pcs s j) = Some op" "shared_spec (ft_shared s') = spec_op op (shared_spec (ft_shared s))"
      by blast
    moreover have "\<not> disturbs t op" using op(1) assms(3) by (auto simp: undisturbed_def)
    ultimately show ?thesis by (cases op) (auto simp: shared_spec_def)
  qed
qed

lemma undisturbed_run:
  assumes "lookup_run n i t ss s" and "\<forall>x \<in> set ss. undisturbed t x"
  shows "\<forall>x \<in> set ss. tag_level (ft_shared x) t = tag_level (ft_shared s) t \<and> fs_default (ft_shared x) = fs_default (ft_shared s)"
  using assms
proof (induction rule: lookup_run.induct)
  case (goes_on ss s j s')
  have "s \<in> set ss" and inv: "filter_inv n s" using lookup_run_inv [OF goes_on.hyps(1)] by simp_all
  then have "undisturbed t s" using goes_on.prems by simp
  then show ?case using undisturbed_step [OF inv goes_on.hyps(2)] goes_on.IH goes_on.prems by simp
qed simp

lemma undisturbed_result:
  assumes "lookup_run n i t ss s" and "ft_pcs s i = L_Return t found l" and "\<forall>x \<in> set ss. undisturbed t x"
  shows "\<forall>x \<in> set ss. l = (case tag_level (ft_shared x) t of None \<Rightarrow> fs_default (ft_shared x) | Some l' \<Rightarrow> l')"
proof -
  have quiet: "\<not> sets_tag x t l'" if "x \<in> set ss" for x l'
    using assms(3) that by (fastforce simp: sets_tag_def undisturbed_def)
  note same = undisturbed_run [OF assms(1,3)]
  then have "l = (case tag_level (ft_shared s) t of None \<Rightarrow> fs_default (ft_shared s) | Some l' \<Rightarrow> l')"
    using lookup_run_result [OF assms(1,2)] quiet by (auto split: option.splits)
  then show ?thesis using same by (simp split: option.split)
qed

text \<open>C27: What a lookup returns among any number of other lookups and writers, interleaved in any order. A level
  it finds for its tag is one the map had for the tag at some moment of the lookup, or one a call was
  setting for it at that moment. It falls back to the default level, as that was at some moment of the
  lookup, only if at some moment the map had no level for the tag or one was being set. And while no
  call changes its own tag's level or the default, it returns exactly what the map says, whatever
  other tags are set and cleared and whatever nodes are reused and inserted for them.\<close>

theorem filter_lookup_is_regular:
  assumes "lookup_run n i t ss s" and "ft_pcs s i = L_Return t found l"
  shows "(case found of
      Some l' \<Rightarrow> l' = l \<and> (\<exists>x \<in> set ss. tag_level (ft_shared x) t = Some l \<or> sets_tag x t l)
    | None \<Rightarrow> (\<exists>x \<in> set ss. fs_default (ft_shared x) = l) \<and>
        (\<exists>x \<in> set ss. tag_level (ft_shared x) t = None \<or> (\<exists>l'. sets_tag x t l'))) \<and>
    ((\<forall>x \<in> set ss. undisturbed t x) \<longrightarrow>
       (\<forall>x \<in> set ss. l = (case tag_level (ft_shared x) t of None \<Rightarrow> fs_default (ft_shared x) | Some l' \<Rightarrow> l')))"
  using lookup_run_result [OF assms] undisturbed_result [OF assms] by blast

section \<open>Freed tags\<close>

text \<open>C8: No lookup ever compares a freed tag: when a lookup of any thread is about to compare the tag of a
  node, the node has one, and no step of any thread, the lookup's own included, frees or replaces it before
  the comparison is made and the level is read.\<close>

theorem lookups_never_read_freed_tags:
  assumes "filter_reachable n s" and "ft_pcs s i = L_Compare t k \<or> ft_pcs s i = L_Level t k matches"
  shows "\<exists>tag. fn_tag (fs_nodes (ft_shared s) ! k) = Some tag \<and>
    (ft_pcs s i = L_Level t k matches \<longrightarrow> matches = (tag = t)) \<and>
    (\<forall>j s'. filter_step n j s s' \<longrightarrow> fn_tag (fs_nodes (ft_shared s') ! k) = Some tag)"
proof -
  note inv = filter_reachable_inv [OF assms(1)]
  note ok = inv_holder(1) [OF inv]
  have own: "lookup_ok (ft_shared s) (holder s) (ft_pcs s i)" using inv unfolding filter_inv_def by blast
  have k: "k < fs_head (ft_shared s)" "\<not> replaces_tag (holder s) k" and reads: "reads_tag (ft_pcs s i) k"
    using own assms(2) by auto
  have "fn_tag (fs_nodes (ft_shared s) ! k) \<noteq> None" using inv_tag [OF inv k] .
  then obtain tag where tag: "fn_tag (fs_nodes (ft_shared s) ! k) = Some tag" by auto
  have "fn_tag (fs_nodes (ft_shared s') ! k) = Some tag" if "filter_step n j s s'" for j s'
    using that
  proof cases
    case (act ok r)
    obtain sh' pc' where r: "r = (sh', pc')" by (cases r)
    have a: "thread_act ok j (ft_shared s) (ft_pcs s j) = Some (sh', pc')" and s': "ft_shared s' = sh'"
      using act r by (simp_all add: thread_goes_def)
    have "fn_tag (fs_nodes sh' ! k) = fn_tag (fs_nodes (ft_shared s) ! k)"
      by (rule act_keeps_tag [OF a inv_holder(1) [OF inv] inv_holder(2) [OF inv] own inv_no_visitor [OF inv] k(1) reads, THEN conjunct2])
    then show ?thesis using tag s' by simp
  qed (use tag in simp)
  then show ?thesis using tag own by auto
qed

end
