(* ===== verification/FilterTasksFinish.thy ===== *)
theory FilterTasksFinish
  imports FilterTasksCorrect
begin

text \<open>
  Every call returns under a fair schedule. Each step but one uses up some of the work that is left; the
  exception is a round of the loop in which a writer, holding the lock, waits for the readers of a node.
  While work is left, some thread has a step that is not such a round.
\<close>

section \<open>What is left to do\<close>

text \<open>Calls that may still insert a node; with them, a bound on the nodes a lookup can be sent to.\<close>

fun may_insert :: "filter_pc \<Rightarrow> nat" where
  "may_insert (S_Lock t l) = 1"
| "may_insert (S_Release t l) = 1"
| "may_insert (S_Malloc t l) = 1"
| "may_insert (S_Relock t l) = 1"
| "may_insert (S_Calloc t l) = 1"
| "may_insert _ = 0"

fun call_may_insert :: "filter_call \<Rightarrow> nat" where
  "call_may_insert (Change (Set_Tag t l)) = 1"
| "call_may_insert _ = 0"

fun thread_weight :: "nat \<Rightarrow> filter_pc \<Rightarrow> nat" where
  "thread_weight b Idle = 0"
| "thread_weight b (L_Count t) = 6 * b + 4"
| "thread_weight b (L_Head t) = 6 * b + 3"
| "thread_weight b (L_Active t k) = 6 * k + 8"
| "thread_weight b (L_Add t k) = 6 * k + 7"
| "thread_weight b (L_Recheck t k) = 6 * k + 6"
| "thread_weight b (L_Compare t k) = 6 * k + 5"
| "thread_weight b (L_Level t k matches) = 6 * k + 4"
| "thread_weight b (L_Sub t k found) = 6 * k + 3"
| "thread_weight b (L_Default t) = 2"
| "thread_weight b (L_Return t found l) = 1"
| "thread_weight b (S_Lock t l) = 14"
| "thread_weight b (S_Release t l) = 13"
| "thread_weight b (S_Malloc t l) = 12"
| "thread_weight b (S_Relock t l) = 11"
| "thread_weight b (S_Wait t l k) = 9"
| "thread_weight b (S_Free t l k) = 8"
| "thread_weight b (S_Tag t l k) = 7"
| "thread_weight b (S_Level t l k) = 6"
| "thread_weight b (S_Update t l k) = 6"
| "thread_weight b (S_Activate t l k) = 5"
| "thread_weight b (S_Count t l) = 4"
| "thread_weight b (S_Calloc t l) = 9"
| "thread_weight b (S_Link t l) = 5"
| "thread_weight b (S_Publish t l) = 4"
| "thread_weight b (S_Unlock t l err) = 2"
| "thread_weight b (C_Lock t) = 6"
| "thread_weight b (C_Exchange t k) = 5"
| "thread_weight b (C_Count t) = 3"
| "thread_weight b (C_Unlock t err) = 2"
| "thread_weight b (D_Store l) = 1"
| "thread_weight b (Returns err) = 1"

fun call_weight :: "nat \<Rightarrow> filter_call \<Rightarrow> nat" where
  "call_weight b (Lookup t) = 6 * b + 5"
| "call_weight b (Change op) = 15"

definition inserts_left :: "nat \<Rightarrow> filter_tasks \<Rightarrow> nat" where
  "inserts_left n s = (\<Sum>i<n. may_insert (ft_pcs s i) + sum_list (map call_may_insert (ft_calls s i)))"

definition node_bound :: "nat \<Rightarrow> filter_tasks \<Rightarrow> nat" where
  "node_bound n s = max (fs_head (ft_shared s)) (length (fs_nodes (ft_shared s))) + inserts_left n s"

definition work_left :: "nat \<Rightarrow> filter_tasks \<Rightarrow> nat" where
  "work_left n s =
     (\<Sum>i<n. thread_weight (node_bound n s) (ft_pcs s i) + sum_list (map (call_weight (node_bound n s)) (ft_calls s i)))"

lemma thread_weight_mono: "b \<le> c \<Longrightarrow> thread_weight b pc \<le> thread_weight c pc"
  by (cases pc) auto

lemma call_weight_mono: "b \<le> c \<Longrightarrow> call_weight b x \<le> call_weight c x"
  by (cases x) auto

lemma calls_weight_mono: "b \<le> c \<Longrightarrow> sum_list (map (call_weight b) xs) \<le> sum_list (map (call_weight c) xs)"
  by (intro sum_list_mono call_weight_mono)

lemma while_node_weight: "thread_weight b (while_node t k) = 6 * k + 2"
  by (cases k) simp_all

lemma act_bound:
  assumes "thread_act ok i sh pc = Some (sh', pc')"
  shows "max (fs_head sh') (length (fs_nodes sh')) + may_insert pc' \<le> max (fs_head sh) (length (fs_nodes sh)) + may_insert pc"
  using assms
  by (cases pc) (auto simp: if_found_def reuse_or_insert_def while_node_cases split: if_splits option.splits)

text \<open>A round of the waiting loop that finds readers.\<close>

definition spins :: "filter_shared \<Rightarrow> filter_pc \<Rightarrow> bool" where
  "spins sh pc \<longleftrightarrow> (case pc of S_Wait t l k \<Rightarrow> fn_readers (fs_nodes sh ! k) \<noteq> 0 | _ \<Rightarrow> False)"

lemma act_spins: "spins sh pc \<Longrightarrow> thread_act ok i sh pc = Some (sh, pc)"
  by (cases pc) (simp_all add: spins_def)

lemma act_lighter:
  assumes "thread_act ok i sh pc = Some (sh', pc')" and "fs_head sh \<le> b" and "\<not> spins sh pc"
  shows "thread_weight b pc' < thread_weight b pc"
  using assms
  by (cases pc) (auto simp: spins_def if_found_def reuse_or_insert_def while_node_weight split: if_splits option.splits)

lemma enter_lighter: "thread_weight b (enter_call c) < call_weight b c" "may_insert (enter_call c) \<le> call_may_insert c"
  by (cases c rule: enter_call.cases; simp)+

text \<open>One thread of many: a sum in which one term changes.\<close>

lemma sum_one:
  fixes f :: "nat \<Rightarrow> nat"
  assumes "i < n" and "\<And>j. j \<noteq> i \<Longrightarrow> g j = f j"
  shows "(\<Sum>j<n. g j) + f i = (\<Sum>j<n. f j) + g i"
proof -
  have "(\<Sum>j<n. h j) = h i + (\<Sum>j\<in>{..<n} - {i}. h j)" for h :: "nat \<Rightarrow> nat"
    using assms(1) by (simp add: sum.remove)
  moreover have "(\<Sum>j\<in>{..<n} - {i}. g j) = (\<Sum>j\<in>{..<n} - {i}. f j)" using assms(2) by (intro sum.cong) auto
  ultimately show ?thesis by simp
qed

lemma filter_step_lighter:
  assumes "filter_step n i s s'" and "\<not> spins (ft_shared s) (ft_pcs s i)"
  shows "work_left n s' < work_left n s"
proof -
  let ?b = "node_bound n s" and ?b' = "node_bound n s'"
  let ?w = "\<lambda>b s j. thread_weight b (ft_pcs s j) + sum_list (map (call_weight b) (ft_calls s j))"
  let ?ins = "\<lambda>s j. may_insert (ft_pcs s j) + sum_list (map call_may_insert (ft_calls s j))"
  let ?top = "\<lambda>s. max (fs_head (ft_shared s)) (length (fs_nodes (ft_shared s)))"
  have i: "i < n" using assms(1) by cases auto
  have others: "ft_pcs s' j = ft_pcs s j \<and> ft_calls s' j = ft_calls s j" if "j \<noteq> i" for j
    using assms(1) that by cases (auto simp: thread_goes_def)
  have own: "?top s' + ?ins s' i \<le> ?top s + ?ins s i \<and> ?w ?b s' i < ?w ?b s i"
    using assms(1)
  proof cases
    case (enter c cs)
    then show ?thesis using enter_lighter(1) [of ?b c] enter_lighter(2) [of c] by simp
  next
    case (act ok r)
    obtain sh' pc' where r: "r = (sh', pc')" by (cases r)
    have step: "thread_act ok i (ft_shared s) (ft_pcs s i) = Some (sh', pc')" using act r by simp
    have "fs_head (ft_shared s) \<le> ?b" by (simp add: node_bound_def)
    then show ?thesis using act r act_bound [OF step] act_lighter [OF step _ assms(2)] by (simp add: thread_goes_def)
  qed
  have "(\<Sum>j<n. ?ins s' j) + ?ins s i = (\<Sum>j<n. ?ins s j) + ?ins s' i"
    by (rule sum_one [OF i]) (simp add: others)
  then have b: "?b' \<le> ?b" using own by (simp add: node_bound_def inserts_left_def)
  have "work_left n s' \<le> (\<Sum>j<n. ?w ?b s' j)"
    unfolding work_left_def by (intro sum_mono add_mono thread_weight_mono calls_weight_mono b)
  moreover have "(\<Sum>j<n. ?w ?b s' j) + ?w ?b s i = (\<Sum>j<n. ?w ?b s j) + ?w ?b s' i"
    by (rule sum_one [OF i]) (simp add: others)
  ultimately show ?thesis using own by (simp add: work_left_def)
qed

section \<open>Progress\<close>

lemma spin_stays:
  assumes "filter_step n i s s'" and "spins (ft_shared s) (ft_pcs s i)"
  shows "s' = s"
  using assms(1)
proof cases
  case (enter c cs)
  then show ?thesis using assms(2) by (simp add: spins_def)
next
  case (act ok r)
  then have "r = (ft_shared s, ft_pcs s i)" using act_spins [OF assms(2), of ok i] by simp
  then show ?thesis using act by (simp add: thread_goes_def)
qed

lemma act_blocked:
  assumes inv: "filter_inv n s" and "ft_pcs s i \<noteq> Idle"
    and "thread_act ok i (ft_shared s) (ft_pcs s i) = None"
  shows "(\<forall>k. \<not> visits (ft_pcs s i) k) \<and> fs_lock (ft_shared s) \<noteq> None \<and> \<not> holds_lock (ft_pcs s i)"
proof -
  have own: "lookup_ok (ft_shared s) (holder s) (ft_pcs s i)" using inv unfolding filter_inv_def by blast
  have "fn_tag (fs_nodes (ft_shared s) ! k) \<noteq> None" if "ft_pcs s i = L_Compare t k" for t k
    using inv_tag [OF inv, of k] own that by simp
  then show ?thesis using assms(2,3) by (cases "ft_pcs s i") (auto simp: take_lock_def split: if_splits)
qed

text \<open>A reader that a writer waits for can go on: a lookup takes no lock.\<close>

lemma someone_goes_on:
  assumes inv: "filter_inv n s" and left: "i < n" "ft_pcs s i \<noteq> Idle \<or> ft_calls s i \<noteq> []"
  shows "\<exists>j s'. filter_step n j s s' \<and> \<not> spins (ft_shared s) (ft_pcs s j)"
proof (rule ccontr)
  assume stuck: "\<not> ?thesis"
  have none: "thread_act True j (ft_shared s) (ft_pcs s j) = None" if "j < n" "\<not> spins (ft_shared s) (ft_pcs s j)" for j
    using stuck that filter_step.act [of j n True s] by (cases "thread_act True j (ft_shared s) (ft_pcs s j)") auto
  have out: "ft_pcs s j = Idle" if "\<not> j < n" for j using inv that by (simp add: filter_inv_def)
  have free: "fs_lock (ft_shared s) = None"
  proof (rule ccontr)
    assume "fs_lock (ft_shared s) \<noteq> None"
    then obtain j where "fs_lock (ft_shared s) = Some j" by auto
    then have hold: "holds_lock (ft_pcs s j)" using inv by (simp add: filter_inv_def)
    then have j: "j < n" using out [of j] by (cases "j < n") simp_all
    have "ft_pcs s j \<noteq> Idle" using hold by auto
    then have "spins (ft_shared s) (ft_pcs s j)" using act_blocked [OF inv _ none [OF j]] hold by blast
    then obtain t l k where wait: "ft_pcs s j = S_Wait t l k" and some: "fn_readers (fs_nodes (ft_shared s) ! k) \<noteq> 0"
      by (auto simp: spins_def split: filter_pc.splits)
    have "k < length (fs_nodes (ft_shared s))"
      using shared_ok_writer [OF inv_holder(1) [OF inv]] inv_holder(2) [OF inv hold] wait by simp
    then have "fn_readers (fs_nodes (ft_shared s) ! k) = word_of_nat (visitors n (ft_pcs s) k)"
      using inv by (simp add: filter_inv_def)
    then have "visitors n (ft_pcs s) k \<noteq> 0" using some by (cases "visitors n (ft_pcs s) k = 0") simp_all
    then have "{r. r < n \<and> visits (ft_pcs s r) k} \<noteq> {}" unfolding visitors_def by (metis card.empty)
    then obtain r where r: "r < n" "visits (ft_pcs s r) k" by blast
    then have "ft_pcs s r \<noteq> Idle" "\<not> spins (ft_shared s) (ft_pcs s r)"
      by (auto simp: spins_def split: filter_pc.splits)
    then show False using act_blocked [OF inv _ none [OF r(1)]] r(2) by blast
  qed
  have idle: "ft_pcs s i = Idle"
  proof (rule ccontr)
    assume "ft_pcs s i \<noteq> Idle"
    then have "spins (ft_shared s) (ft_pcs s i)" using act_blocked [OF inv _ none [OF left(1)]] free by blast
    then have "holds_lock (ft_pcs s i)" by (auto simp: spins_def split: filter_pc.splits)
    then show False using inv free by (simp add: filter_inv_def)
  qed
  then have "\<not> spins (ft_shared s) (ft_pcs s i)" by (simp add: spins_def)
  then show False using stuck left idle filter_step.enter [of i n s] by (cases "ft_calls s i") auto
qed

section \<open>Fair schedules\<close>

text \<open>
  \<open>who k\<close> is the thread that is given the processor at time \<open>k\<close>. It makes a step if it can; else, waiting
  for the lock or with no call to make, it leaves everything as it is. Every thread is given the
  processor again and again.
\<close>

definition fair_run :: "nat \<Rightarrow> (nat \<Rightarrow> nat) \<Rightarrow> (nat \<Rightarrow> filter_tasks) \<Rightarrow> bool" where
  "fair_run n who run \<longleftrightarrow>
     filter_reachable n (run 0) \<and>
     (\<forall>k. filter_step n (who k) (run k) (run (Suc k)) \<or>
          run (Suc k) = run k \<and> \<not> (\<exists>s'. filter_step n (who k) (run k) s')) \<and>
     (\<forall>i < n. \<forall>k. \<exists>k' \<ge> k. who k' = i)"

lemma fair_run_reachable: "fair_run n who run \<Longrightarrow> filter_reachable n (run k)"
proof (induction k)
  case (Suc k)
  then have "filter_step n (who k) (run k) (run (Suc k)) \<or> run (Suc k) = run k" by (auto simp: fair_run_def)
  then show ?case using filter_reachable.step [OF Suc.IH [OF Suc.prems]] Suc.IH [OF Suc.prems] by metis
qed (simp add: fair_run_def)

lemma fair_run_work:
  assumes "fair_run n who run"
  shows "run (Suc k) = run k \<or> work_left n (run (Suc k)) < work_left n (run k)"
  using assms filter_step_lighter [of n "who k" "run k" "run (Suc k)"] spin_stays [of n "who k" "run k" "run (Suc k)"]
  by (auto simp: fair_run_def)

text \<open>Work is used up only so often, so from some time on nothing changes.\<close>

lemma fair_run_rests:
  assumes "fair_run n who run"
  obtains k where "\<And>k'. k \<le> k' \<Longrightarrow> run k' = run k"
proof -
  obtain k where least: "\<And>k'. work_left n (run k) \<le> work_left n (run k')"
    using ex_has_least_nat [of "\<lambda>_. True" 0 "\<lambda>k. work_left n (run k)"] by auto
  have "run k' = run k" if "k \<le> k'" for k'
    using that
  proof (induction rule: dec_induct)
    case (step k')
    then show ?case using fair_run_work [OF assms, of k'] least [of "Suc k'"] by auto
  qed simp
  then show ?thesis using that by blast
qed

text \<open>C39: Under every fair schedule all calls on the tag filters return, with any number of threads: from some
  time on every thread has made all its calls and is in none. The loop in which a writer waits for the
  readers of a node, holding the lock, may go round while a reader is not given the processor; as every
  thread is given it again, the loop ends.\<close>

theorem filter_calls_finish:
  assumes "fair_run n who run"
  shows "\<exists>k. \<forall>k' \<ge> k. \<forall>i < n. ft_pcs (run k') i = Idle \<and> ft_calls (run k') i = []"
proof -
  obtain k where rests: "\<And>k'. k \<le> k' \<Longrightarrow> run k' = run k" using fair_run_rests [OF assms] by blast
  note inv = filter_reachable_inv [OF fair_run_reachable [OF assms, of k]]
  have "ft_pcs (run k) i = Idle \<and> ft_calls (run k) i = []" if i: "i < n" for i
  proof (rule ccontr)
    assume "\<not> ?thesis"
    then obtain j s' where j: "filter_step n j (run k) s'" "\<not> spins (ft_shared (run k)) (ft_pcs (run k) j)"
      using someone_goes_on [OF inv i] by blast
    then have "j < n" by cases auto
    then have "\<exists>k' \<ge> k. who k' = j" using assms unfolding fair_run_def by blast
    then obtain k' where k': "k \<le> k'" "who k' = j" by blast
    have "run k' = run k" "run (Suc k') = run k" using rests [of k'] rests [of "Suc k'"] k'(1) by simp_all
    then have "filter_step n j (run k) (run k)" using assms j(1) k'(2) by (metis fair_run_def)
    then show False using filter_step_lighter [OF _ j(2)] by blast
  qed
  then show ?thesis using rests by metis
qed

end
