(* ===== verification/FilterTasksDemo.thy ===== *)
theory FilterTasksDemo
  imports FilterTasksFinish
begin

text \<open>
  A scheduler for the threads on the tag filters, with which concrete interleavings are computed: the
  theorems on lookups and writers at work, and an interleaving that shows why a lookup beside a call that
  changes its own tag is promised no more than they say.
\<close>

section \<open>A scheduler\<close>

text \<open>An entry of a schedule is a thread and whether memory could be allocated.\<close>

definition sched_step :: "nat \<Rightarrow> nat \<times> bool \<Rightarrow> filter_tasks \<Rightarrow> filter_tasks option" where
  "sched_step n e s =
     (case e of (i, ok) \<Rightarrow>
        if \<not> i < n then None
        else if ft_pcs s i = Idle
        then (case ft_calls s i of
                [] \<Rightarrow> None
              | c # cs \<Rightarrow> Some (s\<lparr>ft_pcs := (ft_pcs s)(i := enter_call c), ft_calls := (ft_calls s)(i := cs)\<rparr>))
        else map_option (\<lambda>r. thread_goes i r s) (thread_act ok i (ft_shared s) (ft_pcs s i)))"

primrec sched_states :: "nat \<Rightarrow> (nat \<times> bool) list \<Rightarrow> filter_tasks \<Rightarrow> filter_tasks list option" where
  "sched_states n [] s = Some []"
| "sched_states n (e # es) s =
     (case sched_step n e s of
        None \<Rightarrow> None
      | Some s' \<Rightarrow> map_option (\<lambda>ss. s' # ss) (sched_states n es s'))"

lemma sched_step_sound: "sched_step n e s = Some s' \<Longrightarrow> filter_step n (fst e) s s'"
  by (auto simp: sched_step_def intro: filter_step.intros split: prod.splits if_splits list.splits)

lemma sched_reachable:
  "filter_reachable n s \<Longrightarrow> sched_states n es s = Some ss \<Longrightarrow> filter_reachable n (last (s # ss))"
proof (induction es arbitrary: s ss)
  case (Cons e es)
  then obtain s' ss' where s': "sched_step n e s = Some s'" "sched_states n es s' = Some ss'" "ss = s' # ss'"
    by (auto split: option.splits)
  then show ?case using Cons.IH [OF filter_reachable.step [OF Cons.prems(1) sched_step_sound [OF s'(1)]] s'(2)] by simp
qed simp

lemma sched_lookup:
  assumes "lookup_run n i t ps s" and "sched_states n es s = Some ss"
    and "list_all (\<lambda>x. lookup_tag (ft_pcs x i) = Some t) ss"
  shows "lookup_run n i t (ps @ ss) (last (s # ss))"
  using assms
proof (induction es arbitrary: ps s ss)
  case (Cons e es)
  then obtain s' ss' where s': "sched_step n e s = Some s'" "sched_states n es s' = Some ss'" "ss = s' # ss'"
    by (auto split: option.splits)
  then have "lookup_run n i t (ps @ [s']) s'"
    using lookup_run.goes_on [OF Cons.prems(1) sched_step_sound [OF s'(1)]] Cons.prems(3) by simp
  then show ?case using Cons.IH [of "ps @ [s']" s' ss'] s' Cons.prems(3) by simp
qed simp

section \<open>Two threads\<close>

definition sched_run :: "nat \<Rightarrow> (nat \<times> bool) list \<Rightarrow> filter_tasks \<Rightarrow> filter_tasks list" where
  "sched_run n es s = s # (case sched_states n es s of None \<Rightarrow> [] | Some ss \<Rightarrow> ss)"

text \<open>
  The first thread has set the level of a tag, the second enters a lookup of it; what the first does next
  is given.
\<close>

definition demo_set :: "filter_call list \<Rightarrow> filter_call list \<Rightarrow> filter_tasks" where
  "demo_set calls lookups =
     \<lparr>ft_shared = \<lparr>fs_nodes = [\<lparr>fn_tag = Some [66], fn_level = 2, fn_active = True, fn_readers = 0\<rparr>],
        fs_head = 1, fs_count = 1, fs_default = 5, fs_lock = None\<rparr>,
      ft_pcs = (\<lambda>_. Idle)(0 := Idle, 1 := L_Count [66]),
      ft_calls = (\<lambda>_. [])(0 := calls, 1 := lookups)\<rparr>"

lemmas sched_simps = sched_step_def thread_goes_def take_lock_def if_found_def reuse_or_insert_def node_of_def
  first_node_def change_node_def on9log_valid_level_def

lemma demo_set_states:
  "\<exists>ss. sched_states 2 [(0, True), (0, True), (0, True), (0, True), (0, True), (0, True), (0, True), (0, True), (0, True), (0, True), (1, True)]
     (filter_start 5 ((\<lambda>_. [])(0 := Change (Set_Tag [66] 2) # calls, 1 := Lookup [66] # lookups))) = Some ss \<and>
     ss \<noteq> [] \<and> last ss = demo_set calls lookups"
  by (simp add: sched_simps filter_start_def demo_set_def)

lemma demo_set_reachable: "filter_reachable 2 (demo_set calls lookups)"
proof -
  let ?s = "filter_start 5 ((\<lambda>_. [])(0 := Change (Set_Tag [66] 2) # calls, 1 := Lookup [66] # lookups))"
  have "filter_reachable 2 ?s" by (rule filter_reachable.start) (simp_all add: on9log_valid_level_def)
  moreover obtain ss where "sched_states 2 [(0, True), (0, True), (0, True), (0, True), (0, True), (0, True), (0, True), (0, True), (0, True), (0, True), (1, True)] ?s = Some ss" "ss \<noteq> []" "last ss = demo_set calls lookups"
    using demo_set_states by blast
  ultimately show ?thesis using sched_reachable [of 2 ?s _ ss] by (metis last_ConsR)
qed

lemma demo_lookup:
  assumes "sched_states 2 es (demo_set calls lookups) = Some ss" and "list_all (\<lambda>x. lookup_tag (ft_pcs x 1) = Some [66]) ss"
  shows "lookup_run 2 1 [66] (sched_run 2 es (demo_set calls lookups)) (last (sched_run 2 es (demo_set calls lookups)))"
  using sched_lookup [OF lookup_run.enters [OF demo_set_reachable] assms] assms(1) by (simp add: demo_set_def sched_run_def)

text \<open>A level for another tag is set, in a new node, while the lookup visits the only node there was.\<close>

definition demo_other :: "filter_tasks list" where
  "demo_other = sched_run 2 [(1, True), (0, True), (0, True), (0, True), (1, True), (0, True), (1, True), (0, True), (1, True), (0, True), (1, True), (0, True), (1, True), (0, True), (1, True), (1, True)]
     (demo_set [Change (Set_Tag [65] 3)] [])"

theorem filter_lookup_is_regular_witness:
  "ft_pcs (last demo_other) 1 = L_Return [66] (Some 2) 2 \<and>
   (\<exists>x \<in> set demo_other. tag_level (ft_shared x) [66] = Some 2 \<or> sets_tag x [66] 2) \<and>
   list_all (\<lambda>x. 2 = (case tag_level (ft_shared x) [66] of None \<Rightarrow> fs_default (ft_shared x) | Some l \<Rightarrow> l)) demo_other"
proof -
  have run: "lookup_run 2 1 [66] demo_other (last demo_other)" unfolding demo_other_def
    by (rule demo_lookup) (simp add: sched_simps demo_set_def, simp)
  have pc: "ft_pcs (last demo_other) 1 = L_Return [66] (Some 2) 2"
    by (simp add: demo_other_def sched_run_def sched_simps demo_set_def)
  have "\<forall>x \<in> set demo_other. undisturbed [66] x"
    by (simp add: demo_other_def sched_run_def sched_simps demo_set_def undisturbed_def)
  then show ?thesis using filter_lookup_is_regular [OF run pc] pc by (simp add: list_all_iff)
qed

text \<open>The level of the tag itself is changed after the lookup has compared it: it finds the new one.\<close>

definition demo_same :: "filter_tasks list" where
  "demo_same = sched_run 2 [(1, True), (1, True), (1, True), (1, True), (1, True), (0, True), (0, True), (0, True), (0, True), (1, True), (1, True), (1, True)]
     (demo_set [Change (Set_Tag [66] 1)] [])"

lemma lookup_sees_the_new_level:
  "ft_pcs (last demo_same) 1 = L_Return [66] (Some 1) 1 \<and> tag_level (ft_shared (hd demo_same)) [66] = Some 2"
  by (simp add: demo_same_def sched_run_def sched_simps demo_set_def tag_level_def node_in_force_def)

text \<open>
  The tag is cleared and set again while a lookup is between its check of the node and the comparison. The lookup
  returns the level the second call is about to set; the next one of the same thread, which starts
  after that, finds none, as the call has not made the node active yet. So a call that sets a level does not take
  effect at one moment for all lookups.
\<close>

definition demo_again :: "filter_tasks list" where
  "demo_again = sched_run 2 [(1, True), (1, True), (1, True), (1, True), (1, True), (0, True), (0, True), (0, True), (0, True), (0, True), (0, True), (0, True), (0, True), (0, True), (1, True), (1, True), (1, True), (1, True), (1, True), (1, True), (1, True)]
     (demo_set [Change (Clear_Tag [66]), Change (Set_Tag [66] 1)] [Lookup [66]])"

lemma lookups_can_disagree:
  "L_Return [66] (Some 1) 1 \<in> set (map (\<lambda>x. ft_pcs x 1) demo_again) \<and>
   ft_pcs (last demo_again) 1 = L_Return [66] None 5 \<and> ft_pcs (last demo_again) 0 = S_Activate [66] 1 0"
  by (simp add: demo_again_def sched_run_def sched_simps demo_set_def)

text \<open>The first thread is about to publish its second node.\<close>

definition demo_publish :: filter_tasks where
  "demo_publish = last (sched_run 2 [(0, True), (0, True), (0, True), (0, True), (0, True), (0, True), (0, True)]
     (demo_set [Change (Set_Tag [65] 3)] []))"

lemma sched_run_reachable: "filter_reachable n s \<Longrightarrow> filter_reachable n (last (sched_run n es s))"
  using sched_reachable [of n s es] by (auto simp: sched_run_def split: option.splits)

lemma demo_publish_reachable: "filter_reachable 2 demo_publish"
  unfolding demo_publish_def by (rule sched_run_reachable [OF demo_set_reachable])

theorem filter_writers_refine_map_witness:
  "let s = demo_publish; s' = thread_goes 0 (ft_shared s\<lparr>fs_head := 2\<rparr>, S_Unlock [65] 3 ON9LOG_OK) s
   in (shared_spec (ft_shared s') = shared_spec (ft_shared s) \<or>
        (\<exists>op. pending_op (ft_pcs s 0) = Some op \<and> shared_spec (ft_shared s') = spec_op op (shared_spec (ft_shared s)))) \<and>
      tag_level (ft_shared s') [65] = Some 3"
proof -
  have "filter_step 2 0 demo_publish (thread_goes 0 (ft_shared demo_publish\<lparr>fs_head := 2\<rparr>, S_Unlock [65] 3 ON9LOG_OK) demo_publish)"
    by (rule filter_step.act [of 0 2 True]) (simp_all add: demo_publish_def sched_run_def sched_simps demo_set_def)
  from filter_writers_refine_map [OF demo_publish_reachable this] show ?thesis
    unfolding Let_def by (simp add: thread_goes_def)
qed

text \<open>Threads in turn: a fair schedule from any state. The writer publishes its node, the lookup goes on.\<close>

primrec in_turn :: "nat \<Rightarrow> filter_tasks \<Rightarrow> nat \<Rightarrow> filter_tasks" where
  "in_turn n s 0 = s"
| "in_turn n s (Suc k) =
     (case sched_step n (k mod n, True) (in_turn n s k) of None \<Rightarrow> in_turn n s k | Some s' \<Rightarrow> s')"

lemma thread_act_None: "thread_act ok i sh pc = None \<longleftrightarrow> thread_act True i sh pc = None"
  by (cases pc) (auto simp: take_lock_def)

lemma sched_step_complete:
  assumes "sched_step n (i, True) s = None"
  shows "\<not> filter_step n i s s'"
proof
  assume "filter_step n i s s'"
  then show False
  proof cases
    case (act ok r)
    then show ?thesis using assms thread_act_None [of ok i "ft_shared s" "ft_pcs s i"]
      by (cases "ft_pcs s i = Idle") (simp_all add: sched_step_def)
  qed (use assms in \<open>simp add: sched_step_def\<close>)
qed

lemma in_turn_fair:
  assumes "filter_reachable n s" and "0 < n"
  shows "fair_run n (\<lambda>k. k mod n) (in_turn n s)"
proof -
  have "filter_step n (k mod n) (in_turn n s k) (in_turn n s (Suc k)) \<or>
      in_turn n s (Suc k) = in_turn n s k \<and> \<not> (\<exists>s'. filter_step n (k mod n) (in_turn n s k) s')" for k
    using sched_step_sound [of n "(k mod n, True)" "in_turn n s k"] sched_step_complete [of n "k mod n" "in_turn n s k"]
    by (auto split: option.split)
  moreover have "\<exists>k' \<ge> k. k' mod n = i" if "i < n" for i k
    using that assms(2) by (intro exI [of _ "k * n + i"]) (simp add: trans_le_add1)
  ultimately show ?thesis using assms(1) by (simp add: fair_run_def)
qed

theorem filter_calls_finish_witness:
  "\<exists>k. ft_pcs (in_turn 2 demo_publish k) 0 = Idle \<and> ft_calls (in_turn 2 demo_publish k) 0 = [] \<and>
     ft_pcs (in_turn 2 demo_publish k) 1 = Idle \<and> ft_calls (in_turn 2 demo_publish k) 1 = []"
  using filter_calls_finish [OF in_turn_fair [OF demo_publish_reachable]] by force

text \<open>The second thread is about to compare; the first has cleared the tag and waits for it to leave.\<close>

definition demo_waiting :: filter_tasks where
  "demo_waiting = last (sched_run 2
     [(1, True), (1, True), (1, True), (1, True), (1, True), (0, True), (0, True), (0, True), (0, True), (0, True), (0, True),
      (0, True), (0, True), (0, True), (0, True), (0, True)]
     (demo_set [Change (Clear_Tag [66]), Change (Set_Tag [65] 1)] []))"

text \<open>Without fairness the writer may go round its loop for ever: the round changes nothing.\<close>

lemma wait_can_spin: "filter_step 2 0 demo_waiting demo_waiting"
proof -
  have "sched_step 2 (0, True) demo_waiting = Some demo_waiting"
    by (simp add: demo_waiting_def sched_run_def sched_simps demo_set_def)
  from sched_step_sound [OF this] show ?thesis by simp
qed

theorem lookups_never_read_freed_tags_witness:
  "ft_pcs demo_waiting 0 = S_Wait [65] 1 0 \<and> ft_pcs demo_waiting 1 = L_Compare [66] 0 \<and>
   (\<exists>tag. fn_tag (fs_nodes (ft_shared demo_waiting) ! 0) = Some tag \<and>
     fn_tag (fs_nodes (ft_shared (the (sched_step 2 (0, True) demo_waiting))) ! 0) = Some tag \<and>
     fn_tag (fs_nodes (ft_shared (the (sched_step 2 (1, True) demo_waiting))) ! 0) = Some tag)"
proof -
  have pcs: "ft_pcs demo_waiting 0 = S_Wait [65] 1 0" "ft_pcs demo_waiting 1 = L_Compare [66] 0"
    by (simp_all add: demo_waiting_def sched_run_def sched_simps demo_set_def)
  have reach: "filter_reachable 2 demo_waiting"
    unfolding demo_waiting_def by (rule sched_run_reachable [OF demo_set_reachable])
  have "sched_step 2 (0, True) demo_waiting \<noteq> None" "sched_step 2 (1, True) demo_waiting \<noteq> None"
    by (simp_all add: demo_waiting_def sched_run_def sched_simps demo_set_def)
  then have "filter_step 2 0 demo_waiting (the (sched_step 2 (0, True) demo_waiting))"
    "filter_step 2 1 demo_waiting (the (sched_step 2 (1, True) demo_waiting))"
    using sched_step_sound [of 2 "(0, True)" demo_waiting] sched_step_sound [of 2 "(1, True)" demo_waiting] by auto
  then show ?thesis
    using lookups_never_read_freed_tags [OF reach disjI1 [OF pcs(2)]] pcs by blast
qed

end
