(* ===== verification/Spec2Isabelle.thy ===== *)
theory Spec2Isabelle
  imports BufferCorrect PacketCorrect IsrWrite SinkCorrect EspPort TextCorrect LogMacros TasksDemo EspTasksFinish CxxTypes UnixDemoCases FilterTasksDemo
begin

text \<open>
  A model of on9log, a deferred-formatting logger for ESP32 and Unix hosts: the core
  (\<^verbatim>\<open>src/on9log.c\<close>), the macros and the C++ wrapper in front of it (\<^verbatim>\<open>src/on9log.h\<close>,
  \<^verbatim>\<open>src/on9log.hpp\<close>), the transports behind it (\<^verbatim>\<open>src/on9log_esp_vfs.c\<close> over
  \<^verbatim>\<open>src/esp_stdio_log_vfs.c\<close>, \<^verbatim>\<open>src/on9log_unix_stdio.c\<close>) and the ports under it
  (\<^verbatim>\<open>src/on9log_unix_port.c\<close>, \<^verbatim>\<open>src/on9log_esp_port.c\<close>, \<^verbatim>\<open>src/on9log_esp_isr.c\<close>,
  \<^verbatim>\<open>src/on9log_port_weak.c\<close>).

  The program. A log call passes a level, a tag, a format, a table of argument types and the
  arguments. The core checks the level against the tag's filter, measures the packet, takes the
  emission lock and calls every registered sink: the header, the payload in pieces, the end. A sink
  turns the calls into a frame on its outputs. Calls from interrupt handlers build the whole packet
  in a local array and queue it; a task drains the queue into the sinks. A host decodes the frames
  and finds tags and formats, which travel as addresses, in the program's ELF file. The plain-text
  build (\<open>ON9LOG_PLAIN_TEXT\<close>) formats lines on the device instead.

  The state. \<open>on9log_state\<close> (theory LogStream) is the core's file-scope state: sink table, filters,
  default level, sequence number, dropped count, emission lock, and the trace of sink callbacks;
  \<open>on9log_env\<close> (Wire) is what a build fixes: the configuration macros and the port hooks. A function
  of the C code is a function of its name from its arguments and the state to its result and the
  new state. \<open>None\<close> is undefined behaviour or a call that never returns. \<open>mem\<close> (Memory) is
  the memory that tags, formats and string arguments are read from; \<open>va_list\<close> (ArgTypes) the variadic
  arguments, which can only be fetched with the type they were passed with.

  The theories, callees first.

  \<^item> Prelude: machine words, bytes, little-endian numbers, the fact collections.
  \<^item> Wire, Memory, Encoder: the constants and records of the headers; C strings; the bounded
    writer \<open>on9log_put_*\<close> with its contract \<open>enc_appends\<close>.
  \<^item> ArgTypes: type tables, \<open>va_arg\<close> and the scanner for \<open>%.*s\<close>.
  \<^item> LogSpec: the reference decoder of the wire format, independent of the encoders.
  \<^item> LogStream, Sinks, TagFilter: the stream to the sinks; the sink table (locale \<open>sink_registry\<close>);
    levels and tag filters (locale \<open>tag_levels\<close>).
  \<^item> FilterSpec: the filters as an abstract map, which the list refines; and, for one node, the
    interleavings of lock-free lookups with a writer that reuses the node, as a step relation over
    sequentially consistent accesses with its invariant.
  \<^item> FilterTasks, FilterTasksInv, FilterTasksMap, FilterTasksCorrect, FilterTasksFinish, FilterTasksDemo: any
    number of threads that look up, set and clear levels at once, on the whole list, one step per access
    to the list's head, the counter, a node's fields or the port's lock: the invariant, the refinement of
    the map by the writers, what a lookup returns, that no lookup reads a freed tag, that all calls
    return under every fair schedule; and two threads computed step by step.
  \<^item> LogWrite, LogCorrect: task log calls, and their round trip through \<open>LogSpec\<close>.
  \<^item> Tasks, TasksCorrect, TasksIsr, TasksFinish, TasksDemo: any number of tasks, interrupt handlers and
    a drain task at once, as a step relation with one step per lock operation, access to a counter or
    to the ISR queue, and sink callback. Its refinement to a machine of whole operations, which the
    calls of the other theories are runs of; the invariants of that machine (packets, drops, ISR
    packets); progress; an executable scheduler and a schedule.
  \<^item> PacketOps, PacketCorrect, BufferCorrect: BOOT, TIME_SYNC, DROPPED, BUFFER and forwarded packets.
  \<^item> IsrWrite: ISR calls, the queue and the drain task.
  \<^item> Crc, Slip: the two CRC implementations, and the reference reader of framed streams.
  \<^item> EspTransport, EspFrames, EspCorrect: the ESP transport with its mutex, owner mark, batching
    writer, raw streams and text device.
  \<^item> EspBatches, EspTasks, EspTasksCorrect, EspTasksFinish: the exact \<open>write()\<close> calls of a frame; any
    number of tasks on that transport, as a step relation with one step per access to the mutex, its
    creation, the owner mark, and \<open>write()\<close> call; its refinement to whole calls, what a reader of an
    output is given, and freedom from deadlock.
  \<^item> PacketSink, EspVfsSink, UnixSink, SinkCorrect: the contract of a sink (locale \<open>packet_sink\<close>), its
    four interpretations (two sinks, two builds), and what reaches the wire.
  \<^item> BuildId, UnixPort, EspPort: ELF notes, clocks, image addresses and IDs, reset reasons, the ISR
    ring buffer; \<open>unix_env\<close> and \<open>esp_env\<close> make a port an \<open>on9log_env\<close> of the core.
  \<^item> TextLine, TextWrite, TextSpec, TextCorrect: the plain-text build (locales \<open>text_output\<close> and
    \<open>filtered_output\<close>, interpreted on the stream and on the encoder of ISR lines).
  \<^item> CxxWrapper, CxxCorrect: \<open>arg_type_code\<close>, \<open>wire_arg\<close>, \<open>write_log\<close> and the class \<open>Logger\<close>; the
    scanners that tell printf formats from fmt formats.
  \<^item> CxxTypes: C++ types with qualifiers and references, the traits, the \<open>if constexpr\<close> chains over
    them, and the log call they pack, with the round trip of every value a type can hold; that the
    abstract types of CxxWrapper stand for them (\<open>classified\<close>); the storage of literals.
  \<^item> LogMacros: \<open>_Generic\<close> and template type detection, the type tables the macros build, the macros.
  \<^item> UnixDemo, UnixDemoCorrect, UnixDemoCases: the demonstration program
    \<^verbatim>\<open>src/examples/on9log_unix_demo.cpp\<close> as a client of all of it: its log calls, its counting sink, its
    use of the filters, and what the sinks are told.

  What the properties show. Round trips: a call of any kind is read back from what the sinks put on
  their outputs (calls, ISR calls, buffers, boot announcements, text lines). Safety: strings
  that change under a call, lookups beside writers of the tag filters, raw streams. Liveness and termination: failing
  outputs wedge no sink unless they interrupt a write for ever, buffers and scanners end on every input, calls on the tag filters all return
  under every fair schedule (the loop that waits for readers is a step and may spin otherwise),
  tasks that share the emission lock all finish, but for a drain task that waits for a packet, and tasks on the ESP
  transport do not deadlock if none adds an output or flushes inside a stream of its own.
  Equivalence and refinement: the CRCs, the two binary sinks, macros and wrapper, the filter list and
  its map, interleaved tasks and whole operations, in the core and on the ESP transport. Errors and bounds: what is dropped
  is counted and reported; what fits, fits.

  Bounds and fuel. Loops are structural recursions or functions with a measure; the search through
  ELF notes is a \<open>partial_function\<close>, shown to return on all readable input. No theorem rests
  on fuel. Hypotheses about the outside world are named: \<open>write_ok\<close>, \<open>accepting\<close> and \<open>puts_all\<close>
  (what \<open>write()\<close> and \<open>fputc()\<close> do; \<open>write_ok\<close> includes that no write is interrupted for ever, which
  POSIX does not promise and the transport relies on), \<open>config_ok\<close> (the \<open>#error\<close> checks of the configuration header).

  Parameters, because their code is not in the repository: libc (\<open>write\<close>, \<open>fputc\<close>, \<open>vfprintf\<close>,
  \<open>vsnprintf\<close>, \<open>malloc\<close>, \<open>dl_iterate_phdr\<close>, clocks), FreeRTOS and ESP-IDF calls, the fmt library.

  Not modelled. Operations on the core are one step each, except in Tasks, in FilterTasks and where a model says
  otherwise (strings changing between two passes, another writer between two locked sections, threads
  on the tag filters, writes interleaved with failures); Tasks shows for log calls of tasks and of
  interrupt handlers, dispatched packets, boot packets and the sink table that nothing is lost by that.
  Tag levels do not change in Tasks (FilterTasks has the steps of that). Memory
  orderings weaker than sequential consistency are not. The image-slide line on macOS, the lock functions
  that only forward to the platform, section attributes and pragmas are left out, as are the tests
  and what the demonstration program prints itself; where the linker puts the copies of literals is a parameter of CxxTypes.
\<close>

text \<open>C2: From a C++ call to the host, on Linux. A call of a \<open>Logger\<close> method with arguments of any supported
  types puts a frame on the standard output stream that a reader, whatever was written before, finds
  and decodes to the level, tag, format and values of the call; and where the packet names its tag
  or format by address instead of carrying it, the address is the whole address and lies in a
  read-only segment of the executable, the file the host looks it up in.\<close>

theorem linux_logger_call_is_readable:
  assumes "env = unix_env p env0" and "config_ok env0" and "sinks_ok st" and "e \<in> set (registered st)"
    and "(method, level) \<in> set logger_methods" and "level_enabled env level"
    and "on9log_level_enabled env m st level (lt_tag lg) = Some True"
    and "ref_denotes env m (lt_tag lg) tag" and "ref_denotes env m (format_pointer format) fmt"
    and "string_pointer (lt_tag lg)" and "string_pointer (format_pointer format)"
    and "cxx_args_mean env m ts vs vals" and "length ts \<le> 32" and "codes ts = Some types"
    and "length (log_payload_bytes tag fmt types vals) \<le> 3054"
    and "unix_ready u" and "puts_all putc_ok"
  shows "\<exists>st' evs u' packet. method env m m lg format ts vs st = Some st' \<and> st_events st' = st_events st @ evs \<and>
     unix_sink.feed putc_ok e evs u = Some u' \<and>
     (\<exists>before. \<forall>later. decode_stream (stream_out u' @ later) = before @ (1, packet) # decode_stream later) \<and>
     parse_log_packet packet =
       Some (log_packet_header env level tag fmt (length packet - 18) st,
             \<lparr>lm_tag = tag, lm_fmt = fmt, lm_args = vals\<rparr>) \<and>
     host_resolves (cfg_max_dynamic_string_len env) m (up_objects p) (lt_tag lg) tag \<and>
     host_resolves (cfg_max_dynamic_string_len env) m (up_objects p) (format_pointer format) fmt"
proof -
  have ok: "config_ok env" using assms(1,2) by simp
  note resolves = unix_env_reference [of p env0, folded assms(1)]
  obtain args where den: "call_denotes env m (lt_tag lg) (format_pointer format) None types False args tag fmt vals"
    and call: "method env m m lg format ts vs st =
      on9log_vwrite env m m level (lt_tag lg) (format_pointer format) None (Some (types @ [0]))
        (word_of_nat (length types)) False args st"
    using cxx_call_is_vwrite [OF assms(5,6,8,9,12-14)] by blast
  obtain st' ps packet where run: "method env m m lg format ts vs st = Some st'" "st_events st' = st_events st @ events_of ps"
    and sessions: "list_all (\<lambda>(ts, h, cs). distinct ts \<and> h \<noteq> None) ps"
    and found: "\<forall>g. \<exists>before. \<forall>later. decode_stream ((g @ wire_bytes e ps) @ later) = before @ (1, packet) # decode_stream later"
    and parse: "parse_log_packet packet = Some (log_packet_header env level tag fmt (length packet - 18) st,
      \<lparr>lm_tag = tag, lm_fmt = fmt, lm_args = vals\<rparr>)"
    using vwrite_on_wire [OF ok assms(3,4,7) den assms(15), of "[0]"] call by auto
  obtain u' where u': "unix_sink.feed putc_ok e (events_of ps) u = Some u'" "stream_out u' = stream_out u @ wire_bytes e ps"
    using unix_sink_writes [OF assms(16) sessions, of putc_ok e] assms(17) by blast
  show ?thesis
    by (intro exI [of _ st'] exI [of _ "events_of ps"] exI [of _ u'] exI [of _ packet] conjI run u'(1) parse
        resolves [OF assms(8,10)] resolves [OF assms(9,11)]) (use found u'(2) in simp)
qed

text \<open>A tag in the executable, a format built at run time, and two values.\<close>

theorem linux_logger_call_is_readable_witness:
  "\<exists>st' evs u' packet.
     Logger_i (unix_env demo_process on9log_default_env) demo_mem demo_mem (Logger_init 0x400010 57) (PlainFormat 256)
       [CxxInt 2 True, CxxFloat 8] [CxxNumber (- 5), CxxReal 7] demo_state = Some st' \<and>
     st_events st' = st_events demo_state @ evs \<and>
     unix_sink.feed (\<lambda>_. True) demo_sink evs demo_unix_sink = Some u' \<and>
     (\<exists>before. \<forall>later. decode_stream (stream_out u' @ later) = before @ (1, packet) # decode_stream later) \<and>
     parse_log_packet packet =
       Some (log_packet_header (unix_env demo_process on9log_default_env) 3 (ByAddress 0x400010) (Inline [104, 105])
               (length packet - 18) demo_state,
             \<lparr>lm_tag = ByAddress 0x400010, lm_fmt = Inline [104, 105], lm_args = [Arg32 0xfffffffb, Arg64 7]\<rparr>) \<and>
     host_resolves (cfg_max_dynamic_string_len (unix_env demo_process on9log_default_env)) demo_mem (up_objects demo_process)
       (lt_tag (Logger_init 0x400010 57)) (ByAddress 0x400010) \<and>
     host_resolves (cfg_max_dynamic_string_len (unix_env demo_process on9log_default_env)) demo_mem (up_objects demo_process)
       (format_pointer (PlainFormat 256)) (Inline [104, 105])"
proof (rule linux_logger_call_is_readable [of _ demo_process on9log_default_env _ _ Logger_i _ _ _ _ _ _ _ _ _ "[1, 2]", OF refl config_ok_default demo_state_ok(1,3) _ _ _ _ _ _ _ _ _ _ _ demo_sinks_ready(2)])
  show "on9log_level_enabled (unix_env demo_process on9log_default_env) demo_mem demo_state 3 (lt_tag (Logger_init 0x400010 57)) = Some True"
    by (simp add: on9log_level_enabled_def on9log_filter_level_for_tag_def demo_state_def
        on9log_initial_state_def on9log_default_env_def on9log_valid_level_def unix_env_def)
  show "ref_denotes (unix_env demo_process on9log_default_env) demo_mem (lt_tag (Logger_init 0x400010 57)) (ByAddress 0x400010)"
    by (simp add: ref_denotes_def Logger_init_def unix_env_addr demo_process_def demo_info_def is_read_only_load_def
        segment_range_def in_range_def)
  have "text_at demo_mem 256 (cfg_max_dynamic_string_len (unix_env demo_process on9log_default_env)) [104, 105]"
    using demo_text by (simp add: unix_env_def on9log_default_env_def)
  then show "ref_denotes (unix_env demo_process on9log_default_env) demo_mem (format_pointer (PlainFormat 256)) (Inline [104, 105])"
    by (simp add: ref_denotes_def unix_env_addr demo_process_def demo_info_def is_read_only_load_def
        segment_range_def in_range_def)
  show "cxx_args_mean (unix_env demo_process on9log_default_env) demo_mem [CxxInt 2 True, CxxFloat 8]
      [CxxNumber (- 5), CxxReal 7] [Arg32 0xfffffffb, Arg64 7]"
    by (auto intro!: cxx_means.int_small cxx_means.real)
qed (simp_all add: logger_methods_def level_enabled_def Logger_init_def string_pointer_def unix_env_def
    on9log_default_env_def length_log_payload ref_bytes_def puts_all_def)

end
